(* ===== verification/Muos_Prelude.thy ===== *)
theory Muos_Prelude
  imports Main "HOL-Library.Word"
begin

text \<open>
  Shared vocabulary of the MuOS development: the machine integers of
  \<^verbatim>\<open>include/types.h\<close>, byte-addressed physical memory with little-endian 32-bit
  accesses, counting loops over \<^verbatim>\<open>uint32_t\<close> indices, NUL-terminated strings kept in
  fixed arrays, and the word and list lemmas the components rely on.
  The collections \<open>mem_simps\<close> (loads after stores), \<open>word_nat\<close> (unsigned words read as
  naturals) and \<open>inv_pres\<close> (an operation keeps its component's invariant) are extended
  by the component theories.
\<close>

unbundle bit_operations_syntax

named_theorems mem_simps \<open>loads after stores\<close>
named_theorems word_nat \<open>unsigned words as naturals\<close>
named_theorems inv_pres \<open>operations that keep the invariant of their component\<close>

section \<open>Machine integers\<close>

type_synonym u8 = "8 word"
type_synonym u16 = "16 word"
type_synonym u32 = "32 word"
type_synonym u64 = "64 word"

text \<open>Physical memory, one byte per address. The kernel identity-maps all RAM.\<close>

type_synonym memory = "u32 \<Rightarrow> u8"

abbreviation (input) NULL :: u32 where
  "NULL \<equiv> 0"

text \<open>Port reads and writes (\<^verbatim>\<open>include/io.h\<close>) act on the state of the devices behind the
  ports.\<close>

type_synonym 'h inb = "u16 \<Rightarrow> 'h \<Rightarrow> u8 \<times> 'h"
type_synonym 'h outb = "u16 \<Rightarrow> u8 \<Rightarrow> 'h \<Rightarrow> 'h"

section \<open>Little-endian loads and stores\<close>

definition load32 :: "memory \<Rightarrow> u32 \<Rightarrow> u32" where
  "load32 m a = ucast (m a) OR push_bit 8 (ucast (m (a + 1))) OR
     push_bit 16 (ucast (m (a + 2))) OR push_bit 24 (ucast (m (a + 3)))"

definition store32 :: "memory \<Rightarrow> u32 \<Rightarrow> u32 \<Rightarrow> memory" where
  "store32 m a v = m(a := ucast v, a + 1 := ucast (drop_bit 8 v),
     a + 2 := ucast (drop_bit 16 v), a + 3 := ucast (drop_bit 24 v))"

definition load16 :: "memory \<Rightarrow> u32 \<Rightarrow> u16" where
  "load16 m a = ucast (m a) OR push_bit 8 (ucast (m (a + 1)))"

text \<open>Two four-byte cells that do not overlap, on the circle of 32-bit addresses.\<close>

definition apart4 :: "u32 \<Rightarrow> u32 \<Rightarrow> bool" where
  "apart4 a b \<longleftrightarrow> 4 \<le> a - b \<and> 4 \<le> b - a"

section \<open>Counting loops\<close>

text \<open>The values of \<open>i\<close> in \<^verbatim>\<open>for (uint32_t i = lo; i < hi; i++)\<close>.\<close>

definition u32_range :: "u32 \<Rightarrow> u32 \<Rightarrow> u32 list" where
  "u32_range lo hi = map word_of_nat [unat lo ..< unat hi]"

text \<open>A search loop over a table: the first index whose entry satisfies the test.\<close>

fun find_idx :: "('a \<Rightarrow> bool) \<Rightarrow> 'a list \<Rightarrow> nat option" where
  "find_idx P [] = None"
| "find_idx P (x # xs) = (if P x then Some 0 else map_option Suc (find_idx P xs))"

section \<open>Strings in fixed arrays\<close>

text \<open>A C array of \<^verbatim>\<open>char\<close> holds a string up to its first NUL.\<close>

definition cstr :: "u8 list \<Rightarrow> u8 list" where
  "cstr a = takeWhile (\<lambda>c. c \<noteq> 0) a"

section \<open>Lemmas on words\<close>

lemma unat_less_iff [word_nat]: "(a::'a::len word) < b \<longleftrightarrow> unat a < unat b"
  by (simp add: word_less_nat_alt)

lemma unat_le_iff [word_nat]: "(a::'a::len word) \<le> b \<longleftrightarrow> unat a \<le> unat b"
  by (simp add: word_le_nat_alt)

lemma unat_eq_iff [word_nat]: "(a::'a::len word) = b \<longleftrightarrow> unat a = unat b"
  by (simp add: word_unat_eq_iff)

lemma unat_add_small:
  "unat (a::u32) + unat b < 2 ^ 32 \<Longrightarrow> unat (a + b) = unat a + unat b"
  by (simp add: unat_word_ariths)

lemma unat_mult_small:
  "unat (a::u32) * unat b < 2 ^ 32 \<Longrightarrow> unat (a * b) = unat a * unat b"
  by (simp add: unat_word_ariths)

lemma unat_u32_lt: "unat (a::u32) < 4294967296"
  using unsigned_less [of a, where ?'a = nat] by simp

lemma unat_of_nat_u32 [simp]: "n < 4294967296 \<Longrightarrow> unat (word_of_nat n :: u32) = n"
  by (simp add: unat_of_nat)

lemma word_of_nat_u32_eq:
  "i < 4294967296 \<Longrightarrow> j < 4294967296 \<Longrightarrow> (word_of_nat i :: u32) = word_of_nat j \<longleftrightarrow> i = j"
  by (metis unat_of_nat_u32)

lemma Suc_word_of_nat: "word_of_nat (Suc n) = (word_of_nat n :: 'a::len word) + 1"
  by simp

lemma u32_range_empty [simp]: "hi \<le> lo \<Longrightarrow> u32_range lo hi = []"
  by (simp add: u32_range_def word_nat)

lemma u32_range_Cons:
  assumes "lo < hi"
  shows "u32_range lo hi = lo # u32_range (lo + 1) hi"
proof -
  have l: "unat lo < unat hi" using assms by (simp add: word_nat)
  then have "unat lo + unat (1::u32) < 2 ^ 32"
    using unat_u32_lt [of hi] by simp
  then have "unat (lo + 1) = Suc (unat lo)"
    using unat_add_small [of lo 1] by simp
  with l show ?thesis by (simp add: u32_range_def upt_conv_Cons)
qed

lemma u32_range_step:
  assumes "i < unat (hi::u32)"
  shows "u32_range (word_of_nat i) hi = word_of_nat i # u32_range (word_of_nat (Suc i)) hi"
proof -
  have "unat (word_of_nat i :: u32) = i" "unat (word_of_nat (Suc i) :: u32) = Suc i"
    using assms unat_u32_lt [of hi] unat_of_nat_u32 [of i] unat_of_nat_u32 [of "Suc i"] by linarith+
  with assms show ?thesis by (simp add: u32_range_def upt_conv_Cons)
qed

lemma u32_range_stop:
  "unat hi \<le> i \<Longrightarrow> i < 4294967296 \<Longrightarrow> u32_range (word_of_nat i) hi = []"
  by (rule u32_range_empty) (simp add: word_le_nat_alt)

lemma set_u32_range [simp]: "set (u32_range lo hi) = {i. lo \<le> i \<and> i < hi}"
proof -
  have "{i. lo \<le> i \<and> i < hi} \<subseteq> word_of_nat ` {unat lo ..< unat hi}"
  proof
    fix i assume "i \<in> {i. lo \<le> i \<and> i < hi}"
    then have "unat i \<in> {unat lo ..< unat hi}" by (simp add: word_le_nat_alt word_less_nat_alt)
    moreover have "i = word_of_nat (unat i)" by simp
    ultimately show "i \<in> word_of_nat ` {unat lo ..< unat hi}" by (rule rev_image_eqI)
  qed
  moreover have "word_of_nat ` {unat lo ..< unat hi} \<subseteq> {i. lo \<le> i \<and> i < hi}"
  proof
    fix i :: u32 assume "i \<in> word_of_nat ` {unat lo ..< unat hi}"
    then obtain n where n: "i = word_of_nat n" "unat lo \<le> n" "n < unat hi" by auto
    have "n < 4294967296" using n(3) unat_u32_lt [of hi] by linarith
    then have "unat i = n" unfolding n(1) by (rule unat_of_nat_u32)
    with n show "i \<in> {i. lo \<le> i \<and> i < hi}" by (simp add: word_nat)
  qed
  ultimately show ?thesis by (auto simp: u32_range_def)
qed

lemma length_u32_range [simp]: "length (u32_range lo hi) = unat hi - unat lo"
  by (simp add: u32_range_def)

lemma distinct_u32_range [simp]: "distinct (u32_range lo hi)"
proof -
  have "unat hi < 4294967296" by (rule unat_u32_lt)
  then show ?thesis
    by (auto simp: u32_range_def distinct_map inj_on_def word_of_nat_u32_eq)
qed

lemma nth_u32_range:
  "i < unat hi - unat lo \<Longrightarrow> u32_range lo hi ! i = lo + word_of_nat i"
  by (simp add: u32_range_def)

lemma mask_bit_test [simp]:
  "(w::'a::len word) AND push_bit j 1 = 0 \<longleftrightarrow> \<not> bit w j"
  using bit_iff_and_push_bit_not_eq_0 [of w j] by auto

lemma mask_exp_test [simp]: "(w::'a::len word) AND 2 ^ j = 0 \<longleftrightarrow> \<not> bit w j"
  by (rule and_exp_eq_0_iff_not_bit)

lemma and_fff: "(a::u32) AND 0xFFF = a mod 4096"
proof -
  have m: "(0xFFF::u32) = mask 12" by (simp add: mask_eq_exp_minus_1)
  show ?thesis unfolding m take_bit_eq_mask [symmetric] take_bit_eq_mod by simp
qed

lemma and_not_mask: "(a::'a::len word) AND NOT (mask n) = push_bit n (drop_bit n a)"
  by (rule bit_word_eqI) (auto simp: bit_and_iff bit_not_iff bit_mask_iff bit_push_bit_iff bit_drop_bit_eq)

lemma unat_and_not_mask:
  assumes "n < 32"
  shows "unat ((a::u32) AND NOT (mask n)) = unat a div 2 ^ n * 2 ^ n"
proof -
  have "unat a div 2 ^ n * 2 ^ n < 2 ^ 32"
    using unat_u32_lt [of a] by (simp add: order.strict_trans1 [OF div_times_less_eq_dividend])
  moreover have "unat (push_bit n (drop_bit n a)) = take_bit 32 (unat a div 2 ^ n * 2 ^ n)"
    unfolding unsigned_push_bit_eq unsigned_drop_bit_eq using unat_u32_lt [of a]
    by (simp add: push_bit_eq_mult drop_bit_eq_div take_bit_nat_eq_self)
  ultimately show ?thesis by (simp add: and_not_mask take_bit_nat_eq_self)
qed

section \<open>Lemmas on search loops\<close>

lemma find_idx_None: "find_idx P xs = None \<longleftrightarrow> (\<forall>x \<in> set xs. \<not> P x)"
  by (induction xs) auto

lemma find_idx_SomeD:
  "find_idx P xs = Some i \<Longrightarrow> i < length xs \<and> P (xs ! i) \<and> (\<forall>j < i. \<not> P (xs ! j))"
proof (induction xs arbitrary: i)
  case (Cons x xs)
  show ?case
  proof (cases "P x")
    case False
    with Cons.prems obtain k where k: "find_idx P xs = Some k" "i = Suc k" by auto
    with Cons.IH [OF k(1)] False show ?thesis by (auto simp: less_Suc_eq_0_disj)
  qed (use Cons.prems in auto)
qed simp

lemma find_idx_SomeI:
  assumes "i < length xs" and "P (xs ! i)" and "\<And>j. j < i \<Longrightarrow> \<not> P (xs ! j)"
  shows "find_idx P xs = Some i"
proof (cases "find_idx P xs")
  case None
  with assms(1,2) show ?thesis by (auto simp: find_idx_None)
next
  case (Some k)
  with find_idx_SomeD [OF Some] assms show ?thesis by (metis linorder_neqE_nat)
qed

text \<open>A loop that stores one value per index, at pairwise different cells.\<close>

lemma fold_upd_hit:
  assumes "inj_on f (set xs)" and "i \<in> set xs"
  shows "fold (\<lambda>i b. b(f i := g i)) xs b (f i) = g i"
  using assms
proof (induction xs arbitrary: b rule: rev_induct)
  case Nil
  then show ?case by simp
next
  case (snoc x xs)
  show ?case
  proof (cases "i = x")
    case True
    then show ?thesis by simp
  next
    case False
    with snoc.prems have "i \<in> set xs" "f i \<noteq> f x" by (auto simp: inj_on_def)
    with snoc.IH [of b] snoc.prems(1) show ?thesis by (simp add: inj_on_def)
  qed
qed

lemma fold_upd_miss:
  "k \<notin> f ` set xs \<Longrightarrow> fold (\<lambda>i b. b(f i := g i)) xs b k = b k"
  by (induction xs arbitrary: b) auto

section \<open>Lemmas on loads and stores\<close>

lemma byte_merge:
  "ucast (ucast v :: u8) OR push_bit 8 (ucast (ucast (drop_bit 8 v) :: u8)) OR
     push_bit 16 (ucast (ucast (drop_bit 16 v) :: u8)) OR
     push_bit 24 (ucast (ucast (drop_bit 24 v) :: u8)) = (v :: u32)"
proof (rule bit_word_eqI)
  fix n assume "n < LENGTH(32)"
  then consider "n < 8" | "8 \<le> n" "n < 16" | "16 \<le> n" "n < 24" | "24 \<le> n" "n < 32"
    by force
  then show "bit (ucast (ucast v :: u8) OR push_bit 8 (ucast (ucast (drop_bit 8 v) :: u8)) OR
     push_bit 16 (ucast (ucast (drop_bit 16 v) :: u8)) OR
     push_bit 24 (ucast (ucast (drop_bit 24 v) :: u8)) :: u32) n = bit v n"
    by cases (auto simp: bit_or_iff bit_push_bit_iff bit_ucast_iff bit_drop_bit_eq)
qed

lemma add_offsets_distinct [simp]:
  "(a::u32) \<noteq> a + 1" "a \<noteq> a + 2" "a \<noteq> a + 3"
  "a + 1 \<noteq> a" "a + 2 \<noteq> a" "a + 3 \<noteq> a"
  by simp_all

lemma load32_store32_same [simp, mem_simps]: "load32 (store32 m a v) a = v"
  by (simp add: load32_def store32_def byte_merge)

lemma apart4_sym: "apart4 a b \<Longrightarrow> apart4 b a"
  by (simp add: apart4_def)

lemma small_word_diff:
  assumes "4 \<le> (a::u32) - b" and "i \<in> {0, 1, 2, 3}"
  shows "a \<noteq> b + i"
proof
  assume "a = b + i"
  then have "a - b = i" by simp
  with assms show False by (auto simp: word_le_nat_alt)
qed

lemma apart4_cells:
  assumes "apart4 a b" and "i \<in> {0, 1, 2, 3::u32}" and "j \<in> {0, 1, 2, 3}"
  shows "a + i \<noteq> b + j"
proof
  assume eq: "a + i = b + j"
  then have ab: "a - b = j - i" and ba: "b - a = i - j"
    by (simp_all add: algebra_simps)
  have "j - i < 4 \<or> i - j < 4" using assms(2,3)
    by (elim insertE emptyE; simp)
  then show False using assms(1) ab ba by (simp add: apart4_def linorder_not_less [symmetric])
qed

text \<open>Addresses as naturals below \<open>2 ^ 32\<close>.\<close>

lemma word_of_nat_add_small: "word_of_nat (a + k) = word_of_nat a + (word_of_nat k :: u32)"
  by simp

lemma store32_byte:
  assumes "a + 3 < 4294967296" and "x < 4294967296" and "x < a \<or> a + 4 \<le> x"
  shows "store32 m (word_of_nat a) v (word_of_nat x) = m (word_of_nat x)"
proof -
  have "(word_of_nat x :: u32) \<noteq> word_of_nat (a + k)" if "k < 4" for k
    using assms that word_of_nat_u32_eq [of x "a + k"] by auto
  from this [of 0] this [of 1] this [of 2] this [of 3] show ?thesis
    by (simp add: store32_def add.commute)
qed

lemma load32_cong:
  assumes "\<And>x. a \<le> x \<Longrightarrow> x < a + 4 \<Longrightarrow> m (word_of_nat x) = m' (word_of_nat x)"
  shows "load32 m (word_of_nat a) = load32 m' (word_of_nat a)"
  using assms [of a] assms [of "a + 1"] assms [of "a + 2"] assms [of "a + 3"]
  by (simp add: load32_def add.commute)

lemma load32_store32_apart [mem_simps]:
  assumes "a + 4 \<le> b \<or> b + 4 \<le> a" and "a + 3 < 4294967296" and "b + 3 < 4294967296"
  shows "load32 (store32 m (word_of_nat a) v) (word_of_nat b) = load32 m (word_of_nat b)"
  by (rule load32_cong, rule store32_byte) (use assms in auto)

end
