(* ===== verification/Fifo.thy ===== *)
theory Fifo
  imports Muos_Prelude
begin

text \<open>
  The contract of a bounded byte queue, shared by the pipes (\<^verbatim>\<open>src/pipe.c\<close>) and the
  keyboard buffer (\<^verbatim>\<open>src/keyboard.c\<close>): what a write accepts, what a read returns and
  what both leave behind, over the sequence of queued elements.  The client lemma says
  that whatever order writes and reads come in, the elements delivered followed by the
  ones still queued are the elements accepted, in order.
\<close>

datatype ('a, 'k) fifo_op = Put "'a list" | Get 'k

text \<open>Run a sequence of operations; collect what was accepted and what was delivered.\<close>

fun fifo_run ::
  "('a list \<Rightarrow> 's \<Rightarrow> nat \<times> 's) \<Rightarrow> ('k \<Rightarrow> 's \<Rightarrow> 'a list \<times> 's) \<Rightarrow>
   ('a, 'k) fifo_op list \<Rightarrow> 's \<Rightarrow> 'a list \<times> 'a list \<times> 's" where
  "fifo_run put get [] s = ([], [], s)"
| "fifo_run put get (Put xs # ops) s =
     (case put xs s of (n, s1) \<Rightarrow>
      case fifo_run put get ops s1 of (acc, del, s2) \<Rightarrow> (take n xs @ acc, del, s2))"
| "fifo_run put get (Get k # ops) s =
     (case get k s of (ys, s1) \<Rightarrow>
      case fifo_run put get ops s1 of (acc, del, s2) \<Rightarrow> (acc, ys @ del, s2))"

locale bounded_fifo =
  fixes queued :: "'s \<Rightarrow> 'a list"
    and capacity :: nat
    and wf :: "'s \<Rightarrow> bool"
    and put :: "'a list \<Rightarrow> 's \<Rightarrow> nat \<times> 's"
    and get :: "'k \<Rightarrow> 's \<Rightarrow> 'a list \<times> 's"
    and amount :: "'k \<Rightarrow> nat"
  assumes queued_bound: "wf s \<Longrightarrow> length (queued s) \<le> capacity"
    and put_law: "wf s \<Longrightarrow> put xs s = (n, s') \<Longrightarrow>
      n = min (length xs) (capacity - length (queued s)) \<and>
      queued s' = queued s @ take n xs \<and> wf s'"
    and get_law: "wf s \<Longrightarrow> get k s = (ys, s') \<Longrightarrow>
      ys = take (amount k) (queued s) \<and> queued s' = drop (amount k) (queued s) \<and> wf s'"
begin

lemma run_conserves:
  assumes "wf s" and "fifo_run put get ops s = (acc, del, s')"
  shows "del @ queued s' = queued s @ acc \<and> wf s'"
  using assms
proof (induction ops arbitrary: s acc del)
  case Nil
  then show ?case by simp
next
  case (Cons p ops)
  show ?case
  proof (cases p)
    case (Put xs)
    obtain n s1 where p: "put xs s = (n, s1)" by force
    obtain acc1 del1 where r: "fifo_run put get ops s1 = (acc1, del1, s')"
      and eq: "acc = take n xs @ acc1" "del = del1"
      using Cons.prems(2) Put p by (auto split: prod.splits)
    from put_law [OF Cons.prems(1) p] Cons.IH [OF _ r] eq show ?thesis by simp
  next
    case (Get k)
    obtain ys s1 where g: "get k s = (ys, s1)" by force
    obtain del1 where r: "fifo_run put get ops s1 = (acc, del1, s')"
      and eq: "del = ys @ del1"
      using Cons.prems(2) Get g by (auto split: prod.splits)
    from get_law [OF Cons.prems(1) g] Cons.IH [OF _ r] eq show ?thesis
      by (metis append.assoc append_take_drop_id)
  qed
qed

lemma run_delivers_prefix:
  assumes "wf s" and "queued s = []" and "fifo_run put get ops s = (acc, del, s')"
  shows "acc = del @ queued s'"
  using run_conserves [OF assms(1,3)] assms(2) by simp

lemma put_then_get:
  assumes "wf s" and "queued s = []" and "length xs \<le> capacity"
    and "amount k = length xs"
  shows "fst (get k (snd (put xs s))) = xs"
proof -
  obtain n s1 where p: "put xs s = (n, s1)" by force
  obtain ys s2 where g: "get k s1 = (ys, s2)" by force
  from put_law [OF assms(1) p] assms(2,3) have "queued s1 = xs" "wf s1" by auto
  with get_law [OF _ g] p g assms(4) show ?thesis by simp
qed

end

section \<open>Ring arrays\<close>

text \<open>Cells of a ring of \<open>n\<close> slots, counted from \<open>r\<close>.\<close>

lemma ring_cell_inj_le:
  fixes r i j n :: nat
  assumes "i \<le> j" and "j < n" and "(r + i) mod n = (r + j) mod n"
  shows "i = j"
proof -
  have "n dvd (r + j) - (r + i)"
    using assms(1,3) by (metis add_le_cancel_left mod_eq_dvd_iff_nat)
  then have "n dvd j - i" by simp
  with assms(1,2) show ?thesis by (auto dest: dvd_imp_le)
qed

lemma ring_cell_inj:
  fixes r i j n :: nat
  assumes "i < n" and "j < n" and "(r + i) mod n = (r + j) mod n"
  shows "i = j"
  using ring_cell_inj_le [of i j n r] ring_cell_inj_le [of j i n r] assms
  by (cases "i \<le> j") auto

end
