(* ===== verification/Pipe.thy ===== *)
theory Pipe
  imports Fifo
begin

text \<open>
  Kernel pipes, \<^verbatim>\<open>src/pipe.c\<close>: a table of eight ring buffers of 4096 bytes with 32-bit
  positions and counts.  Every operation that moves data or changes the writer count
  ends in \<^verbatim>\<open>proc_notify_pipe\<close>, which belongs to the process table: the operations here
  take it as the argument \<open>notify\<close>, a function on a kernel state that extends
  \<open>pipe_state\<close>.  The ring part of a read and of a write is an instance of
  \<open>bounded_fifo\<close>.
\<close>

section \<open>Data\<close>

definition PIPE_MAX :: int where "PIPE_MAX = 8"
definition PIPE_BUF_SIZE :: u32 where "PIPE_BUF_SIZE = 4096"

record pipe_t =
  used :: bool
  read_pos :: u32
  write_pos :: u32
  count :: u32
  writers :: int
  buf :: "u32 \<Rightarrow> u8"

record pipe_state =
  pipes :: "pipe_t list"

definition zero_pipe :: pipe_t where
  "zero_pipe = \<lparr>used = False, read_pos = 0, write_pos = 0, count = 0, writers = 0,
     buf = (\<lambda>_. 0)\<rparr>"

section \<open>Operations\<close>

definition pipe_init :: "'a pipe_state_scheme \<Rightarrow> 'a pipe_state_scheme" where
  "pipe_init s = s\<lparr>pipes := replicate (nat PIPE_MAX) zero_pipe\<rparr>"

definition pipe_create :: "'a pipe_state_scheme \<Rightarrow> int \<times> 'a pipe_state_scheme" where
  "pipe_create s =
     (case find_idx (\<lambda>p. \<not> used p) (pipes s) of
        None \<Rightarrow> (-1, s)
      | Some i \<Rightarrow> (int i, s\<lparr>pipes := (pipes s)[i := zero_pipe\<lparr>used := True\<rparr>]\<rparr>))"

definition pipe_valid :: "int \<Rightarrow> 'a pipe_state_scheme \<Rightarrow> bool" where
  "pipe_valid pd s \<longleftrightarrow> 0 \<le> pd \<and> pd < PIPE_MAX \<and> used (pipes s ! nat pd)"

definition pipe_fill :: "int \<Rightarrow> 'a pipe_state_scheme \<Rightarrow> u32" where
  "pipe_fill pd s = (if \<not> pipe_valid pd s then 0 else count (pipes s ! nat pd))"

definition pipe_writers :: "int \<Rightarrow> 'a pipe_state_scheme \<Rightarrow> int" where
  "pipe_writers pd s = (if \<not> pipe_valid pd s then 0 else writers (pipes s ! nat pd))"

definition pipe_writer_add ::
  "(int \<Rightarrow> 'a pipe_state_scheme \<Rightarrow> 'a pipe_state_scheme) \<Rightarrow> int \<Rightarrow> int \<Rightarrow>
   'a pipe_state_scheme \<Rightarrow> 'a pipe_state_scheme" where
  "pipe_writer_add notify pd delta s =
     (if \<not> pipe_valid pd s then s
      else let p = pipes s ! nat pd;
               w = writers p + delta;
               w' = (if w < 0 then 0 else w)
           in notify pd (s\<lparr>pipes := (pipes s)[nat pd := p\<lparr>writers := w'\<rparr>]\<rparr>))"

text \<open>The ring part of \<^verbatim>\<open>pipe_read\<close>: clamp, copy out, advance.\<close>

definition pipe_take :: "u32 \<Rightarrow> pipe_t \<Rightarrow> u8 list \<times> pipe_t" where
  "pipe_take len p =
     (let len = (if len > count p then count p else len);
          out = map (\<lambda>i. buf p ((read_pos p + i) mod PIPE_BUF_SIZE)) (u32_range 0 len)
      in (out, p\<lparr>read_pos := (read_pos p + len) mod PIPE_BUF_SIZE, count := count p - len\<rparr>))"

text \<open>The ring part of \<^verbatim>\<open>pipe_write\<close>, whose \<open>len\<close> is the length of the caller's data.\<close>

definition pipe_put :: "u8 list \<Rightarrow> pipe_t \<Rightarrow> nat \<times> pipe_t" where
  "pipe_put data p =
     (let space = PIPE_BUF_SIZE - count p;
          len = (if length data > unat space then unat space else length data);
          b = fold (\<lambda>i b. b((write_pos p + word_of_nat i) mod PIPE_BUF_SIZE := data ! i))
                [0..<len] (buf p)
      in (len, p\<lparr>buf := b, write_pos := (write_pos p + word_of_nat len) mod PIPE_BUF_SIZE,
                 count := count p + word_of_nat len\<rparr>))"

definition pipe_read ::
  "(int \<Rightarrow> 'a pipe_state_scheme \<Rightarrow> 'a pipe_state_scheme) \<Rightarrow> int \<Rightarrow> u32 \<Rightarrow>
   'a pipe_state_scheme \<Rightarrow> int \<times> u8 list \<times> 'a pipe_state_scheme" where
  "pipe_read notify pd len s =
     (if \<not> pipe_valid pd s then (-1, [], s)
      else case pipe_take len (pipes s ! nat pd) of (out, p) \<Rightarrow>
        (int (length out), out, notify pd (s\<lparr>pipes := (pipes s)[nat pd := p]\<rparr>)))"

definition pipe_write ::
  "(int \<Rightarrow> 'a pipe_state_scheme \<Rightarrow> 'a pipe_state_scheme) \<Rightarrow> int \<Rightarrow> u8 list \<Rightarrow>
   'a pipe_state_scheme \<Rightarrow> int \<times> 'a pipe_state_scheme" where
  "pipe_write notify pd data s =
     (if \<not> pipe_valid pd s then (-1, s)
      else case pipe_put data (pipes s ! nat pd) of (n, p) \<Rightarrow>
        (int n, notify pd (s\<lparr>pipes := (pipes s)[nat pd := p]\<rparr>)))"

section \<open>Invariant and contents\<close>

definition pipe_wf :: "pipe_t \<Rightarrow> bool" where
  "pipe_wf p \<longleftrightarrow> count p \<le> PIPE_BUF_SIZE \<and> read_pos p < PIPE_BUF_SIZE \<and>
     write_pos p = (read_pos p + count p) mod PIPE_BUF_SIZE \<and> 0 \<le> writers p"

definition pipe_queued :: "pipe_t \<Rightarrow> u8 list" where
  "pipe_queued p =
     map (\<lambda>i. buf p ((read_pos p + word_of_nat i) mod PIPE_BUF_SIZE)) [0..<unat (count p)]"

definition pipes_wf :: "'a pipe_state_scheme \<Rightarrow> bool" where
  "pipes_wf s \<longleftrightarrow> length (pipes s) = nat PIPE_MAX \<and> (\<forall>p \<in> set (pipes s). pipe_wf p)"

section \<open>The ring as naturals\<close>

lemma length_queued [simp]: "length (pipe_queued p) = unat (count p)"
  by (simp add: pipe_queued_def)

lemma unat_ring:
  assumes "unat r < 4096" and "i \<le> 8192"
  shows "unat ((r + word_of_nat i) mod PIPE_BUF_SIZE) = (unat r + i) mod 4096"
proof -
  have i: "unat (word_of_nat i :: u32) = i" using assms(2) by simp
  have "unat r + unat (word_of_nat i :: u32) < 2 ^ 32" unfolding i using assms by simp
  from unat_add_small [OF this] show ?thesis
    by (simp add: PIPE_BUF_SIZE_def unat_mod i)
qed

lemma pipe_wf_nat:
  assumes "pipe_wf p"
  shows "unat (count p) \<le> 4096" "unat (read_pos p) < 4096"
    "unat (write_pos p) = (unat (read_pos p) + unat (count p)) mod 4096"
    "unat (write_pos p) < 4096"
proof -
  show c: "unat (count p) \<le> 4096" and r: "unat (read_pos p) < 4096"
    using assms by (simp_all add: pipe_wf_def PIPE_BUF_SIZE_def word_nat)
  show "unat (write_pos p) = (unat (read_pos p) + unat (count p)) mod 4096"
    using assms unat_ring [OF r, of "unat (count p)"] c by (simp add: pipe_wf_def)
  then show "unat (write_pos p) < 4096" by simp
qed

lemma ring_cell_eq:
  assumes "unat r < 4096" and "unat q < 4096" and "i \<le> 8192" and "j \<le> 8192"
    and "(unat r + i) mod 4096 = (unat q + j) mod 4096"
  shows "(r + word_of_nat i) mod PIPE_BUF_SIZE = (q + word_of_nat j) mod PIPE_BUF_SIZE"
  using assms by (simp add: word_unat_eq_iff unat_ring)

section \<open>Reading\<close>

lemma pipe_take_queued:
  assumes "pipe_wf p" and "pipe_take len p = (out, p')"
  shows "out = take (unat len) (pipe_queued p)" and "pipe_queued p' = drop (unat len) (pipe_queued p)"
    and "pipe_wf p'"
proof -
  note wf = pipe_wf_nat [OF assms(1)]
  define l where "l = (if len > count p then count p else len)"
  have p': "p' = p\<lparr>read_pos := (read_pos p + l) mod PIPE_BUF_SIZE, count := count p - l\<rparr>"
    and out: "out = map (\<lambda>i. buf p ((read_pos p + i) mod PIPE_BUF_SIZE)) (u32_range 0 l)"
    using assms(2) by (simp_all add: pipe_take_def l_def Let_def)
  have l: "l \<le> count p" "unat l = min (unat len) (unat (count p))"
    by (auto simp: l_def word_nat)
  have ul: "unat l \<le> unat (count p)" using l by simp
  show "out = take (unat len) (pipe_queued p)"
    by (auto simp: out pipe_queued_def u32_range_def take_map l(2) min_def)
  have r': "unat (read_pos p') = (unat (read_pos p) + unat l) mod 4096"
    using unat_ring [OF wf(2), of "unat l"] wf(1) ul by (simp add: p')
  have c': "unat (count p') = unat (count p) - unat l"
    using l(1) by (simp add: p' unat_sub)
  have cell: "(read_pos p' + word_of_nat i) mod PIPE_BUF_SIZE =
      (read_pos p + word_of_nat (unat l + i)) mod PIPE_BUF_SIZE" if "i \<le> 4096" for i
    by (rule ring_cell_eq) (use r' wf ul that in \<open>simp_all add: mod_simps ac_simps\<close>)
  show "pipe_queued p' = drop (unat len) (pipe_queued p)"
    by (rule nth_equalityI)
      (use cell c' l(2) wf(1) in \<open>auto simp: pipe_queued_def p' min_def split: if_splits\<close>)
  have "write_pos p' = (read_pos p' + word_of_nat (unat (count p'))) mod PIPE_BUF_SIZE"
    using cell [of "unat (count p')"] c' ul wf(1) assms(1) by (simp add: p' pipe_wf_def)
  then show "pipe_wf p'"
    using assms(1) c' r' wf(1) by (simp add: pipe_wf_def p' word_nat PIPE_BUF_SIZE_def)
qed

section \<open>Writing\<close>

lemma ring_inj:
  assumes "unat r < 4096" and "i < 4096" and "j < 4096"
    and "(r + word_of_nat i) mod PIPE_BUF_SIZE = (r + word_of_nat j) mod PIPE_BUF_SIZE"
  shows "i = j"
  by (rule ring_cell_inj [of i 4096 j "unat r"])
    (use assms in \<open>simp_all add: word_unat_eq_iff unat_ring\<close>)

lemma ring_shift:
  assumes "unat r < 4096" and "c \<le> 4096" and "i \<le> 4096"
    and "w = (r + word_of_nat c) mod PIPE_BUF_SIZE"
  shows "(w + word_of_nat i) mod PIPE_BUF_SIZE = (r + word_of_nat (c + i)) mod PIPE_BUF_SIZE"
proof (rule ring_cell_eq)
  have "unat w = (unat r + c) mod 4096" using assms by (simp add: unat_ring)
  then show "(unat w + i) mod 4096 = (unat r + (c + i)) mod 4096" and "unat w < 4096"
    by (simp_all add: mod_simps ac_simps)
qed (use assms in simp_all)

text \<open>Storing \<open>n\<close> bytes after \<open>c\<close> occupied cells keeps the occupied cells.\<close>

lemma ring_store:
  assumes r: "unat r < 4096" and cn: "c + n \<le> 4096"
    and w: "w = (r + word_of_nat c) mod PIPE_BUF_SIZE"
    and b': "b' = fold (\<lambda>i b. b((w + word_of_nat i) mod PIPE_BUF_SIZE := xs ! i)) [0..<n] b"
  shows "i < c \<Longrightarrow> b' ((r + word_of_nat i) mod PIPE_BUF_SIZE) =
      b ((r + word_of_nat i) mod PIPE_BUF_SIZE)"
    and "i < n \<Longrightarrow> b' ((r + word_of_nat (c + i)) mod PIPE_BUF_SIZE) = xs ! i"
proof -
  define cell where "cell i = (w + word_of_nat i) mod PIPE_BUF_SIZE" for i
  have shift: "cell j = (r + word_of_nat (c + j)) mod PIPE_BUF_SIZE" if "j < n" for j
    unfolding cell_def by (rule ring_shift [OF r _ _ w]) (use that cn in simp_all)
  have b'': "b' = fold (\<lambda>i b. b(cell i := xs ! i)) [0..<n] b"
    unfolding b' cell_def ..
  show "b' ((r + word_of_nat i) mod PIPE_BUF_SIZE) = b ((r + word_of_nat i) mod PIPE_BUF_SIZE)"
    if "i < c"
    unfolding b''
  proof (rule fold_upd_miss, rule notI)
    assume "(r + word_of_nat i) mod PIPE_BUF_SIZE \<in> cell ` set [0..<n]"
    then obtain j where "j < n" "(r + word_of_nat i) mod PIPE_BUF_SIZE = cell j" by auto
    with shift [of j] ring_inj [OF r, of i "c + j"] that cn show False by simp
  qed
  have "inj_on cell (set [0..<n])"
  proof (rule inj_onI)
    fix i j assume "i \<in> set [0..<n]" "j \<in> set [0..<n]" "cell i = cell j"
    then show "i = j"
      using ring_inj [OF r, of "c + i" "c + j"] shift [of i] shift [of j] cn by simp
  qed
  then show "b' ((r + word_of_nat (c + i)) mod PIPE_BUF_SIZE) = xs ! i" if "i < n"
    unfolding b'' using fold_upd_hit [of cell "[0..<n]" i "\<lambda>i. xs ! i" b] shift [of i] that
    by simp
qed

lemma pipe_put_fields:
  assumes "pipe_wf p" and "pipe_put xs p = (n, p')"
  shows "n = min (length xs) (4096 - unat (count p))"
    and "buf p' = fold (\<lambda>i b. b((write_pos p + word_of_nat i) mod PIPE_BUF_SIZE := xs ! i))
      [0..<n] (buf p)"
    and "write_pos p' = (write_pos p + word_of_nat n) mod PIPE_BUF_SIZE"
    and "unat (count p') = unat (count p) + n"
    and "read_pos p' = read_pos p" and "writers p' = writers p"
proof -
  note wf = pipe_wf_nat [OF assms(1)]
  have "unat (PIPE_BUF_SIZE - count p) = 4096 - unat (count p)"
    using wf(1) by (simp add: PIPE_BUF_SIZE_def unat_sub word_nat)
  then show n: "n = min (length xs) (4096 - unat (count p))"
    using assms(2) by (auto simp: pipe_put_def Let_def split: if_splits)
  show "unat (count p') = unat (count p) + n"
    using assms(2) n wf(1) unat_add_small [of "count p" "word_of_nat n"]
    by (auto simp: pipe_put_def Let_def)
qed (use assms(2) in \<open>auto simp: pipe_put_def Let_def\<close>)

lemma pipe_put_queued:
  assumes "pipe_wf p" and "pipe_put xs p = (n, p')"
  shows "pipe_queued p' = pipe_queued p @ take n xs" and "pipe_wf p'"
proof -
  note wf = pipe_wf_nat [OF assms(1)]
  note f = pipe_put_fields [OF assms]
  have nc: "unat (count p) + n \<le> 4096" "n \<le> length xs" using f(1) wf(1) by auto
  have w: "write_pos p = (read_pos p + word_of_nat (unat (count p))) mod PIPE_BUF_SIZE"
    using assms(1) by (simp add: pipe_wf_def)
  note st = ring_store [OF wf(2) nc(1) w f(2)]
  show "pipe_queued p' = pipe_queued p @ take n xs"
  proof (rule nth_equalityI)
    show "length (pipe_queued p') = length (pipe_queued p @ take n xs)" using f(4) nc by simp
    fix i assume i: "i < length (pipe_queued p')"
    show "pipe_queued p' ! i = (pipe_queued p @ take n xs) ! i"
    proof (cases "i < unat (count p)")
      case True
      with st(1) [of i] i f(4,5) show ?thesis by (simp add: pipe_queued_def nth_append)
    next
      case False
      then obtain j where j: "i = unat (count p) + j" using le_Suc_ex [of "unat (count p)" i] by auto
      with st(2) [of j] i f(4,5) show ?thesis by (simp add: pipe_queued_def nth_append)
    qed
  qed
  have "write_pos p' = (read_pos p + word_of_nat (unat (count p) + n)) mod PIPE_BUF_SIZE"
    unfolding f(3) by (rule ring_shift [OF wf(2) _ _ w]) (use nc in simp_all)
  moreover have "word_of_nat (unat (count p) + n) = count p'" unfolding f(4) [symmetric] by simp
  ultimately have "write_pos p' = (read_pos p' + count p') mod PIPE_BUF_SIZE"
    using f(5) by metis
  with f(4-6) nc assms(1) show "pipe_wf p'"
    by (simp add: pipe_wf_def word_nat PIPE_BUF_SIZE_def)
qed

interpretation pipe_ring: bounded_fifo pipe_queued 4096 pipe_wf pipe_put pipe_take unat
proof
  show "length (pipe_queued p) \<le> 4096" if "pipe_wf p" for p
    using pipe_wf_nat(1) [OF that] by simp
  show "n = min (length xs) (4096 - length (pipe_queued p)) \<and>
      pipe_queued p' = pipe_queued p @ take n xs \<and> pipe_wf p'"
    if "pipe_wf p" "pipe_put xs p = (n, p')" for p xs n p'
    using pipe_put_fields(1) [OF that] pipe_put_queued [OF that] by simp
  show "ys = take (unat k) (pipe_queued p) \<and> pipe_queued p' = drop (unat k) (pipe_queued p) \<and>
      pipe_wf p'" if "pipe_wf p" "pipe_take k p = (ys, p')" for p k ys p'
    using pipe_take_queued [OF that] by simp
qed

section \<open>The table\<close>

lemma pipe_valid_idx:
  "pipes_wf s \<Longrightarrow> pipe_valid pd s \<Longrightarrow> nat pd < length (pipes s) \<and> pipe_wf (pipes s ! nat pd)"
  by (auto simp: pipes_wf_def pipe_valid_def PIPE_MAX_def)

lemma zero_pipe_wf [simp]: "pipe_wf zero_pipe" "pipe_wf (zero_pipe\<lparr>used := b\<rparr>)"
  by (simp_all add: pipe_wf_def zero_pipe_def PIPE_BUF_SIZE_def)

lemma pipes_wf_update:
  "pipes_wf s \<Longrightarrow> pipe_wf p \<Longrightarrow> pipes_wf (s\<lparr>pipes := (pipes s)[i := p]\<rparr>)"
  by (auto simp: pipes_wf_def dest: set_update_subset_insert [THEN subsetD])

lemma pipe_init_wf [inv_pres]: "pipes_wf (pipe_init s)"
  by (simp add: pipes_wf_def pipe_init_def)

lemma pipe_create_wf [inv_pres]: "pipes_wf s \<Longrightarrow> pipes_wf (snd (pipe_create s))"
  by (auto simp: pipe_create_def intro: pipes_wf_update split: option.split)

lemma pipe_writer_add_wf [inv_pres]:
  assumes "pipes_wf s" and "\<And>t. pipes_wf t \<Longrightarrow> pipes_wf (notify pd t)"
  shows "pipes_wf (pipe_writer_add notify pd d s)"
proof (cases "pipe_valid pd s")
  case True
  with pipe_valid_idx [OF assms(1)] have "pipe_wf (pipes s ! nat pd)" by simp
  then have "pipe_wf ((pipes s ! nat pd)\<lparr>writers := if w < 0 then 0 else w\<rparr>)" for w
    by (simp add: pipe_wf_def)
  with True show ?thesis
    by (simp add: pipe_writer_add_def Let_def assms pipes_wf_update del: if_split)
qed (use assms(1) in \<open>simp add: pipe_writer_add_def\<close>)

lemma pipe_read_wf [inv_pres]:
  assumes "pipes_wf s" and "\<And>t. pipes_wf t \<Longrightarrow> pipes_wf (notify pd t)"
  shows "pipes_wf (snd (snd (pipe_read notify pd len s)))"
proof (cases "pipe_valid pd s")
  case True
  with pipe_valid_idx [OF assms(1)] have "pipe_wf (pipes s ! nat pd)" by simp
  with True show ?thesis
    by (simp add: pipe_read_def assms pipes_wf_update pipe_take_queued(3) split: prod.split)
qed (use assms(1) in \<open>simp add: pipe_read_def\<close>)

lemma pipe_write_wf [inv_pres]:
  assumes "pipes_wf s" and "\<And>t. pipes_wf t \<Longrightarrow> pipes_wf (notify pd t)"
  shows "pipes_wf (snd (pipe_write notify pd xs s))"
proof (cases "pipe_valid pd s")
  case True
  with pipe_valid_idx [OF assms(1)] have "pipe_wf (pipes s ! nat pd)" by simp
  with True show ?thesis
    by (simp add: pipe_write_def assms pipes_wf_update pipe_put_queued(2) split: prod.split)
qed (use assms(1) in \<open>simp add: pipe_write_def\<close>)

section \<open>Properties\<close>

text \<open>C21: Whatever the order of writes and reads on a pipe that starts empty, and whatever
  their sizes, the bytes the writes accepted are the bytes the reads returned followed by the
  bytes still queued; the queue never exceeds 4096 bytes.\<close>

theorem pipe_fifo:
  assumes "pipe_wf p" and "pipe_queued p = []"
    and "fifo_run pipe_put pipe_take ops p = (acc, del, p')"
  shows "acc = del @ pipe_queued p' \<and> length (pipe_queued p') \<le> 4096"
  using pipe_ring.run_delivers_prefix [OF assms] pipe_ring.run_conserves [OF assms(1,3)]
    pipe_ring.queued_bound by auto

theorem pipe_fifo_witness:
  "fst (fifo_run pipe_put pipe_take [Put [7, 8], Get 1] zero_pipe) =
     [7] @ pipe_queued (snd (snd (fifo_run pipe_put pipe_take [Put [7, 8], Get 1] zero_pipe)))"
proof -
  obtain acc del p' where r: "fifo_run pipe_put pipe_take [Put [7, 8], Get 1] zero_pipe = (acc, del, p')"
    by (rule prod_cases3)
  then have "del = [7]"
    by (auto simp: pipe_put_def pipe_take_def zero_pipe_def PIPE_BUF_SIZE_def Let_def u32_range_def
        upt_conv_Cons)
  moreover have "pipe_queued zero_pipe = []" by (simp add: pipe_queued_def zero_pipe_def)
  ultimately show ?thesis using pipe_fifo [OF zero_pipe_wf(1) _ r] unfolding r by simp
qed



end
