(* ===== verification/Mouse.thy ===== *)
theory Mouse
  imports Muos_Prelude
begin

text \<open>
  The PS/2 mouse, \<^verbatim>\<open>src/mouse.c\<close>.  Port reads and writes go to the 8042 controller, which
  is hardware: \<open>inb\<close> and \<open>outb\<close> are arguments, functions on a device state.  The packet
  decoder \<open>mouse_handle_byte\<close> is proved to keep the pointer on the 640x400 screen and its
  packet index inside the three-byte buffer, for every byte stream.
\<close>

section \<open>State\<close>

record mouse_t =
  px :: int
  py :: int
  btn_l :: bool
  btn_r :: bool
  btn_m :: bool
  packet :: "u8 list"
  pidx :: nat

definition PS2_STATUS :: u16 where "PS2_STATUS = 0x64"
definition PS2_DATA :: u16 where "PS2_DATA = 0x60"
definition PS2_CMD :: u16 where "PS2_CMD = 0x64"
definition MOUSE_MAX_X :: int where "MOUSE_MAX_X = 639"
definition MOUSE_MAX_Y :: int where "MOUSE_MAX_Y = 399"

section \<open>Controller handshake\<close>

text \<open>Poll the status port at most \<open>n\<close> times until the test on it holds.\<close>

fun ps2_poll :: "'h inb \<Rightarrow> (u8 \<Rightarrow> bool) \<Rightarrow> nat \<Rightarrow> 'h \<Rightarrow> 'h" where
  "ps2_poll inb ok 0 h = h"
| "ps2_poll inb ok (Suc n) h =
     (case inb PS2_STATUS h of (s, h) \<Rightarrow> if ok s then h else ps2_poll inb ok n h)"

definition ps2_wait_write :: "'h inb \<Rightarrow> 'h \<Rightarrow> 'h" where
  "ps2_wait_write inb h = ps2_poll inb (\<lambda>s. s AND 0x02 = 0) 100000 h"

definition ps2_wait_read :: "'h inb \<Rightarrow> 'h \<Rightarrow> 'h" where
  "ps2_wait_read inb h = ps2_poll inb (\<lambda>s. s AND 0x01 \<noteq> 0) 100000 h"

definition ps2_read :: "'h inb \<Rightarrow> 'h \<Rightarrow> u8 \<times> 'h" where
  "ps2_read inb h = inb PS2_DATA (ps2_wait_read inb h)"

definition ps2_write_cmd :: "'h inb \<Rightarrow> 'h outb \<Rightarrow> u8 \<Rightarrow> 'h \<Rightarrow> 'h" where
  "ps2_write_cmd inb outb c h = outb PS2_CMD c (ps2_wait_write inb h)"

definition ps2_write_data :: "'h inb \<Rightarrow> 'h outb \<Rightarrow> u8 \<Rightarrow> 'h \<Rightarrow> 'h" where
  "ps2_write_data inb outb d h = outb PS2_DATA d (ps2_wait_write inb h)"

definition mouse_cmd :: "'h inb \<Rightarrow> 'h outb \<Rightarrow> u8 \<Rightarrow> 'h \<Rightarrow> 'h" where
  "mouse_cmd inb outb c h =
     snd (ps2_read inb (ps2_write_data inb outb c (ps2_write_cmd inb outb 0xD4 h)))"

text \<open>The drain loop reads the data port while the output buffer is full; a controller
  that never empties keeps it running, which is the value \<open>None\<close>.\<close>

partial_function (option) ps2_drain :: "'h inb \<Rightarrow> 'h \<Rightarrow> 'h option" where
  "ps2_drain inb h =
     (case inb PS2_STATUS h of (s, h) \<Rightarrow>
      if s AND 0x01 \<noteq> 0 then ps2_drain inb (snd (inb PS2_DATA h)) else Some h)"

definition mouse_init :: "'h inb \<Rightarrow> 'h outb \<Rightarrow> mouse_t \<times> 'h \<Rightarrow> (mouse_t \<times> 'h) option" where
  "mouse_init inb outb mh =
     (case mh of (m, h) \<Rightarrow>
      case ps2_drain inb h of
        None \<Rightarrow> None
      | Some h \<Rightarrow>
          let m = m\<lparr>pidx := 0, btn_l := False, btn_r := False, btn_m := False,
                    px := 320, py := 352\<rparr>;
              h = ps2_write_cmd inb outb 0xA8 h;
              h = ps2_write_cmd inb outb 0x20 h
          in case ps2_read inb h of (cmd, h) \<Rightarrow>
            let cmd = (cmd OR 0x02 OR 0x01) AND NOT 0x20;
                h = ps2_write_cmd inb outb 0x60 h;
                h = ps2_write_data inb outb cmd h;
                h = mouse_cmd inb outb 0xF6 h;
                h = mouse_cmd inb outb 0xF4 h
            in Some (m, h))"

section \<open>Packets\<close>

definition mouse_handle_byte :: "u8 \<Rightarrow> mouse_t \<Rightarrow> mouse_t" where
  "mouse_handle_byte b m =
     (if pidx m = 0 \<and> b AND 0x08 = 0 then m
      else
        let m = m\<lparr>packet := (packet m)[pidx m := b], pidx := pidx m + 1\<rparr>
        in if pidx m < 3 then m
        else
          let m = m\<lparr>pidx := 0\<rparr>;
              flags = packet m ! 0;
              dx = uint (packet m ! 1) - (if flags AND 0x10 \<noteq> 0 then 256 else 0);
              dy = uint (packet m ! 2) - (if flags AND 0x20 \<noteq> 0 then 256 else 0);
              m = (if flags AND 0xC0 = 0
                   then let x = px m + dx * 2; y = py m - dy * 2;
                            x = (if x < 0 then 0 else x);
                            x = (if x > MOUSE_MAX_X then MOUSE_MAX_X else x);
                            y = (if y < 0 then 0 else y);
                            y = (if y > MOUSE_MAX_Y then MOUSE_MAX_Y else y)
                        in m\<lparr>px := x, py := y\<rparr>
                   else m)
          in m\<lparr>btn_l := (flags AND 0x01 \<noteq> 0), btn_r := (flags AND 0x02 \<noteq> 0),
               btn_m := (flags AND 0x04 \<noteq> 0)\<rparr>)"

text \<open>\<^verbatim>\<open>mouse_get_state\<close> reports text cells of 8x16 pixels.\<close>

definition mouse_get_state :: "mouse_t \<Rightarrow> int \<times> int \<times> bool \<times> bool \<times> bool" where
  "mouse_get_state m = (px m div 8, py m div 16, btn_l m, btn_r m, btn_m m)"

section \<open>Invariant\<close>

definition mouse_wf :: "mouse_t \<Rightarrow> bool" where
  "mouse_wf m \<longleftrightarrow> 0 \<le> px m \<and> px m \<le> MOUSE_MAX_X \<and> 0 \<le> py m \<and> py m \<le> MOUSE_MAX_Y \<and>
     pidx m < 3 \<and> length (packet m) = 3"

lemma mouse_handle_byte_wf [inv_pres]: "mouse_wf m \<Longrightarrow> mouse_wf (mouse_handle_byte b m)"
  by (simp add: mouse_wf_def mouse_handle_byte_def Let_def MOUSE_MAX_X_def MOUSE_MAX_Y_def)

lemma mouse_init_wf [inv_pres]:
  assumes "length (packet m) = 3" and "mouse_init inb outb (m, h) = Some (m', h')"
  shows "mouse_wf m'"
  using assms
  by (auto simp: mouse_init_def Let_def mouse_wf_def MOUSE_MAX_X_def MOUSE_MAX_Y_def
      split: option.splits prod.splits)

lemma mouse_stream_wf: "mouse_wf m \<Longrightarrow> mouse_wf (fold mouse_handle_byte bs m)"
  by (induction bs arbitrary: m) (auto intro: mouse_handle_byte_wf)

lemma mouse_cell_bounds:
  "mouse_wf m \<Longrightarrow> mouse_get_state m = (x, y, l, r, c) \<Longrightarrow> 0 \<le> x \<and> x < 80 \<and> 0 \<le> y \<and> y < 25"
  by (auto simp: mouse_wf_def mouse_get_state_def MOUSE_MAX_X_def MOUSE_MAX_Y_def)

text \<open>A whole packet that starts in sync moves the pointer by the doubled 9-bit deltas.\<close>

definition clamp :: "int \<Rightarrow> int \<Rightarrow> int" where
  "clamp hi v = max 0 (min hi v)"

definition delta9 :: "u8 \<Rightarrow> bool \<Rightarrow> int" where
  "delta9 b neg = uint b - (if neg then 256 else 0)"

lemma mouse_packet:
  assumes "mouse_wf m" and "pidx m = 0" and "bit f 3" and "f AND 0xC0 = 0"
  shows "px (fold mouse_handle_byte [f, a, b] m) = clamp 639 (px m + 2 * delta9 a (bit f 4))"
    and "py (fold mouse_handle_byte [f, a, b] m) = clamp 399 (py m - 2 * delta9 b (bit f 5))"
    and "pidx (fold mouse_handle_byte [f, a, b] m) = 0"
proof -
  have b3: "(f AND 8 = 0) = (\<not> bit f 3)" "(f AND 16 = 0) = (\<not> bit f 4)" "(f AND 32 = 0) = (\<not> bit f 5)"
    using mask_bit_test [of f 3] mask_bit_test [of f 4] mask_bit_test [of f 5] by simp_all
  obtain x y z where p: "packet m = [x, y, z]"
    using assms(1) by (auto simp: mouse_wf_def numeral_3_eq_3 length_Suc_conv)
  show "px (fold mouse_handle_byte [f, a, b] m) = clamp 639 (px m + 2 * delta9 a (bit f 4))"
    and "py (fold mouse_handle_byte [f, a, b] m) = clamp 399 (py m - 2 * delta9 b (bit f 5))"
    and "pidx (fold mouse_handle_byte [f, a, b] m) = 0"
    using assms(2-4) p
    by (simp_all add: mouse_handle_byte_def Let_def b3 clamp_def delta9_def
        MOUSE_MAX_X_def MOUSE_MAX_Y_def)
qed

section \<open>Properties\<close>

text \<open>C25: For every sequence of bytes from the mouse, in sync or not, the pointer stays on
  the 640x400 screen, the reported cell on the 80x25 text screen, and the packet index inside
  the three-byte packet.\<close>

theorem mouse_stays_on_screen:
  assumes "mouse_wf m"
  shows "mouse_wf (fold mouse_handle_byte bs m) \<and>
    (case mouse_get_state (fold mouse_handle_byte bs m) of (x, y, l, r, c) \<Rightarrow>
      0 \<le> x \<and> x < 80 \<and> 0 \<le> y \<and> y < 25)"
  using mouse_stream_wf [OF assms, of bs] mouse_cell_bounds [of "fold mouse_handle_byte bs m"]
  by (cases "mouse_get_state (fold mouse_handle_byte bs m)") auto

theorem mouse_stays_on_screen_witness:
  "mouse_wf (fold mouse_handle_byte [0x08, 200, 0, 0x09]
     \<lparr>px = 600, py = 352, btn_l = False, btn_r = False, btn_m = False,
      packet = [0, 0, 0], pidx = 0\<rparr>)"
  by (rule mouse_stays_on_screen [THEN conjunct1]) (simp add: mouse_wf_def MOUSE_MAX_X_def MOUSE_MAX_Y_def)

end
