(* ===== verification/Interrupts.thy ===== *)
theory Interrupts
  imports Muos_Prelude
begin

text \<open>
  Interrupt plumbing: the two 8259 controllers (\<^verbatim>\<open>src/pic.c\<close>), the table of IRQ handlers and
  its dispatcher (\<^verbatim>\<open>src/irq.c\<close>), the timer (\<^verbatim>\<open>src/pit.c\<close>) and the interrupt descriptor
  table (\<^verbatim>\<open>src/idt.c\<close>).  Ports are reached through \<open>inb\<close> and \<open>outb\<close>; the addresses of
  the assembly stubs are arguments of \<open>idt_init\<close>.
\<close>

section \<open>PIC\<close>

definition PIC1_COMMAND :: u16 where "PIC1_COMMAND = 0x20"
definition PIC1_DATA :: u16 where "PIC1_DATA = 0x21"
definition PIC2_COMMAND :: u16 where "PIC2_COMMAND = 0xA0"
definition PIC2_DATA :: u16 where "PIC2_DATA = 0xA1"
definition PIC_EOI :: u8 where "PIC_EOI = 0x20"

text \<open>\<^verbatim>\<open>io_wait\<close> writes 0 to the unused port 0x80.\<close>

definition io_wait :: "'h outb \<Rightarrow> 'h \<Rightarrow> 'h" where
  "io_wait outb h = outb 0x80 0 h"

definition outb_wait :: "'h outb \<Rightarrow> u16 \<times> u8 \<Rightarrow> 'h \<Rightarrow> 'h" where
  "outb_wait outb pv h = io_wait outb (outb (fst pv) (snd pv) h)"

text \<open>ICW1 to ICW4, master and slave in turn.\<close>

definition pic_icws :: "(u16 \<times> u8) list" where
  "pic_icws =
     [(PIC1_COMMAND, 0x11), (PIC2_COMMAND, 0x11), (PIC1_DATA, 0x20), (PIC2_DATA, 0x28),
      (PIC1_DATA, 0x04), (PIC2_DATA, 0x02), (PIC1_DATA, 0x01), (PIC2_DATA, 0x01)]"

definition pic_init :: "'h inb \<Rightarrow> 'h outb \<Rightarrow> 'h \<Rightarrow> 'h" where
  "pic_init inb outb h =
     (case inb PIC1_DATA h of (a1, h) \<Rightarrow>
      case inb PIC2_DATA h of (a2, h) \<Rightarrow>
        outb PIC2_DATA a2 (outb PIC1_DATA a1 (fold (outb_wait outb) pic_icws h)))"

definition pic_send_eoi :: "'h outb \<Rightarrow> u8 \<Rightarrow> 'h \<Rightarrow> 'h" where
  "pic_send_eoi outb irq h =
     outb PIC1_COMMAND PIC_EOI (if irq \<ge> 8 then outb PIC2_COMMAND PIC_EOI h else h)"

definition pic_port :: "u8 \<Rightarrow> u16 \<times> nat" where
  "pic_port irq = (if irq < 8 then (PIC1_DATA, unat irq) else (PIC2_DATA, unat (irq - 8)))"

definition pic_mask :: "'h inb \<Rightarrow> 'h outb \<Rightarrow> u8 \<Rightarrow> 'h \<Rightarrow> 'h" where
  "pic_mask inb outb irq h =
     (case pic_port irq of (port, i) \<Rightarrow>
      case inb port h of (v, h) \<Rightarrow> outb port (v OR push_bit i 1) h)"

definition pic_unmask :: "'h inb \<Rightarrow> 'h outb \<Rightarrow> u8 \<Rightarrow> 'h \<Rightarrow> 'h" where
  "pic_unmask inb outb irq h =
     (case pic_port irq of (port, i) \<Rightarrow>
      case inb port h of (v, h) \<Rightarrow> outb port (v AND NOT (push_bit i 1)) h)"

definition pic_disable :: "'h outb \<Rightarrow> 'h \<Rightarrow> 'h" where
  "pic_disable outb h = outb PIC2_DATA 0xFF (outb PIC1_DATA 0xFF h)"

section \<open>IRQ dispatch\<close>

text \<open>The handler table maps an IRQ line to its handler.  \<open>run\<close> calls a handler on the
  kernel state; the dispatcher works on the pair of kernel and devices.\<close>

definition irq_register_handler ::
  "'h inb \<Rightarrow> 'h outb \<Rightarrow> u8 \<Rightarrow> 'f \<Rightarrow> (u8 \<Rightarrow> 'f option) \<times> 'h \<Rightarrow> (u8 \<Rightarrow> 'f option) \<times> 'h" where
  "irq_register_handler inb outb irq f th =
     (case th of (tab, h) \<Rightarrow>
      if irq < 16 then (tab(irq \<mapsto> f), pic_unmask inb outb irq h) else (tab, h))"

definition irq_handler ::
  "'h inb \<Rightarrow> 'h outb \<Rightarrow> ('f \<Rightarrow> 'k \<times> 'h \<Rightarrow> 'k \<times> 'h) \<Rightarrow> (u8 \<Rightarrow> 'f option) \<Rightarrow> u32 \<Rightarrow>
   'k \<times> 'h \<Rightarrow> 'k \<times> 'h" where
  "irq_handler inb outb run tab int_no kh =
     (let irq = ucast (int_no - 0x20) :: u8;
          serve = (\<lambda>(k, h). case (case tab irq of None \<Rightarrow> (k, h) | Some f \<Rightarrow> run f (k, h)) of
                     (k, h) \<Rightarrow> (k, pic_send_eoi outb irq h))
      in case kh of (k, h) \<Rightarrow>
        if irq \<ge> 16 then (k, h)
        else if irq = 7
        then case inb 0x20 h of (v, h) \<Rightarrow> if v AND 0x80 = 0 then (k, h) else serve (k, h)
        else if irq = 15
        then case inb 0xA0 h of (v, h) \<Rightarrow>
               if v AND 0x80 = 0 then (k, pic_send_eoi outb 7 h) else serve (k, h)
        else serve (k, h))"

section \<open>PIT\<close>

record pit_t =
  pit_ticks :: u32
  pit_freq :: u32
  pit_ms_per_tick :: u32

definition PIT_FREQUENCY :: u32 where "PIT_FREQUENCY = 1193180"
definition PIT_CHANNEL0 :: u16 where "PIT_CHANNEL0 = 0x40"
definition PIT_COMMAND :: u16 where "PIT_COMMAND = 0x43"

definition pit_clamp :: "u32 \<Rightarrow> u32" where
  "pit_clamp frequency =
     (let frequency = (if frequency < 19 then 19 else frequency)
      in if frequency > PIT_FREQUENCY then PIT_FREQUENCY else frequency)"

definition pit_divisor :: "u32 \<Rightarrow> u32" where
  "pit_divisor frequency = PIT_FREQUENCY div pit_clamp frequency"

definition pit_init :: "'h outb \<Rightarrow> u32 \<Rightarrow> 'h \<Rightarrow> pit_t \<times> 'h" where
  "pit_init outb frequency h =
     (let f = pit_clamp frequency;
          divisor = pit_divisor frequency;
          h = io_wait outb (outb PIT_COMMAND 0x36 h);
          h = io_wait outb (outb PIT_CHANNEL0 (ucast (divisor AND 0xFF)) h);
          h = outb PIT_CHANNEL0 (ucast (drop_bit 8 divisor AND 0xFF)) h
      in (\<lparr>pit_ticks = 0, pit_freq = f, pit_ms_per_tick = 1000 div f\<rparr>, h))"

definition pit_tick :: "pit_t \<Rightarrow> pit_t" where
  "pit_tick p = p\<lparr>pit_ticks := pit_ticks p + 1\<rparr>"

definition pit_get_ticks :: "pit_t \<Rightarrow> u32" where
  "pit_get_ticks p = pit_ticks p"

section \<open>IDT\<close>

record idt_entry =
  base_low :: u16
  selector :: u16
  zero :: u8
  flags :: u8
  base_high :: u16

definition idt_set_gate ::
  "u8 \<Rightarrow> u32 \<Rightarrow> u16 \<Rightarrow> u8 \<Rightarrow> (u8 \<Rightarrow> idt_entry) \<Rightarrow> (u8 \<Rightarrow> idt_entry)" where
  "idt_set_gate num base sel fl idt =
     idt(num := \<lparr>base_low = ucast (base AND 0xFFFF), selector = sel, zero = 0, flags = fl,
                 base_high = ucast (drop_bit 16 base AND 0xFFFF)\<rparr>)"

text \<open>\<open>isr i\<close>, \<open>irq i\<close>, \<open>isr_ignore\<close> and \<open>syscall_entry\<close> are the addresses of the stubs of
  \<^verbatim>\<open>isr_stubs.s\<close>.\<close>

definition idt_init ::
  "(nat \<Rightarrow> u32) \<Rightarrow> (nat \<Rightarrow> u32) \<Rightarrow> u32 \<Rightarrow> u32 \<Rightarrow> (u8 \<Rightarrow> idt_entry) \<Rightarrow> (u8 \<Rightarrow> idt_entry)" where
  "idt_init isr irq isr_ignore syscall_entry idt =
     (let idt = fold (\<lambda>i. idt_set_gate (word_of_nat i) (isr i) 0x08 0x8E) [0..<32] idt;
          idt = fold (\<lambda>i. idt_set_gate (word_of_nat (0x20 + i)) (irq i) 0x08 0x8E) [0..<16] idt;
          idt = fold (\<lambda>v. idt_set_gate (word_of_nat v) isr_ignore 0x08 0x8E) [0x30..<256] idt
      in idt_set_gate 0x80 syscall_entry 0x08 0xEE idt)"

text \<open>What the processor reads from a gate.\<close>

definition gate_base :: "idt_entry \<Rightarrow> u32" where
  "gate_base e = ucast (base_low e) OR push_bit 16 (ucast (base_high e))"

definition gate_present :: "idt_entry \<Rightarrow> bool" where
  "gate_present e = bit (flags e) 7"

definition gate_dpl :: "idt_entry \<Rightarrow> u8" where
  "gate_dpl e = drop_bit 5 (flags e) AND 3"

section \<open>Properties\<close>

lemma pit_divisor_nat: "unat (pit_divisor f) = 1193180 div max 19 (min 1193180 (unat f))"
proof -
  have "unat (pit_clamp f) = max 19 (min 1193180 (unat f))"
    by (auto simp: pit_clamp_def PIT_FREQUENCY_def word_nat max_def min_def)
  then show ?thesis by (simp add: pit_divisor_def unat_div PIT_FREQUENCY_def)
qed

lemma pit_divisor_bounds: "1 \<le> unat (pit_divisor f)" "unat (pit_divisor f) \<le> 65535"
proof -
  define n where "n = max 19 (min 1193180 (unat f))"
  have n: "19 \<le> n" "n \<le> 1193180" by (simp_all add: n_def)
  have "1193180 div (1193180::nat) \<le> 1193180 div n" by (rule div_le_mono2) (use n in simp_all)
  then show "1 \<le> unat (pit_divisor f)" by (simp add: pit_divisor_nat n_def)
  have "1193180 div n \<le> 1193180 div (19::nat)" by (rule div_le_mono2) (use n in simp_all)
  then show "unat (pit_divisor f) \<le> 65535" by (simp add: pit_divisor_nat n_def)
qed

lemma byte_pair:
  assumes "unat (d::u32) \<le> 65535"
  shows "ucast (ucast (d AND 0xFF) :: u8) OR
      push_bit 8 (ucast (ucast (drop_bit 8 d AND 0xFF) :: u8)) = (ucast d :: u16)"
proof (rule bit_word_eqI)
  have m: "(0xFF :: u32) = mask 8" by (simp add: mask_eq_exp_minus_1)
  fix n assume "n < LENGTH(16)"
  then consider "n < 8" | "8 \<le> n" "n < 16" by force
  then show "bit (ucast (ucast (d AND 0xFF) :: u8) OR
      push_bit 8 (ucast (ucast (drop_bit 8 d AND 0xFF) :: u8)) :: u16) n = bit (ucast d :: u16) n"
    unfolding m
    by cases (auto simp: bit_or_iff bit_and_iff bit_push_bit_iff bit_ucast_iff bit_drop_bit_eq bit_mask_iff)
qed

lemma gate_base_split: "ucast (ucast (a AND 0xFFFF) :: u16) OR
   push_bit 16 (ucast (ucast (drop_bit 16 a AND 0xFFFF) :: u16)) = (a :: u32)"
proof (rule bit_word_eqI)
  have m: "(0xFFFF :: u32) = mask 16" by (simp add: mask_eq_exp_minus_1)
  fix n assume "n < LENGTH(32)"
  then consider "n < 16" | "16 \<le> n" "n < 32" by force
  then show "bit (ucast (ucast (a AND 0xFFFF) :: u16) OR
   push_bit 16 (ucast (ucast (drop_bit 16 a AND 0xFFFF) :: u16)) :: u32) n = bit a n"
    unfolding m
    by cases (auto simp: bit_or_iff bit_and_iff bit_push_bit_iff bit_ucast_iff bit_drop_bit_eq bit_mask_iff)
qed

text \<open>The gate written for vector \<open>v\<close>: stub address and flags.\<close>

definition idt_expected :: "(nat \<Rightarrow> u32) \<Rightarrow> (nat \<Rightarrow> u32) \<Rightarrow> u32 \<Rightarrow> u32 \<Rightarrow> u8 \<Rightarrow> u32" where
  "idt_expected isr irq isr_ignore syscall_entry v =
     (if v = 0x80 then syscall_entry
      else if unat v < 32 then isr (unat v)
      else if unat v < 48 then irq (unat v - 32) else isr_ignore)"

lemma unat_u8_lt: "unat (v :: u8) < 256"
  using unsigned_less [of v, where ?'a = nat] by simp

lemma u8_of_nat_eq:
  assumes "i < 256"
  shows "(word_of_nat i :: u8) = v \<longleftrightarrow> i = unat v"
proof
  assume "word_of_nat i = v"
  then have "unat v = unat (word_of_nat i :: u8)" by simp
  with assms show "i = unat v" by (simp add: unat_of_nat)
qed simp

lemma fold_set_gate:
  assumes "b \<le> 256"
  shows "fold (\<lambda>i. idt_set_gate (word_of_nat i) (st i) 0x08 fl) [a..<b] idt v =
     (if a \<le> unat v \<and> unat v < b then idt_set_gate v (st (unat v)) 0x08 fl idt v else idt v)"
  using assms
proof (induction b)
  case (Suc b)
  show ?case
  proof (cases "unat v = b")
    case True
    then have "word_of_nat b = v" by auto
    with Suc True show ?thesis by (auto simp: idt_set_gate_def)
  next
    case False
    with Suc.prems have "v \<noteq> word_of_nat b" using u8_of_nat_eq [of b v] by auto
    with Suc False show ?thesis by (auto simp: idt_set_gate_def)
  qed
qed simp

lemma fold_irq_gates:
  "fold (\<lambda>i. idt_set_gate (word_of_nat (0x20 + i)) (st i) 0x08 fl) [0..<16] idt =
   fold (\<lambda>i. idt_set_gate (word_of_nat i) (st (i - 32)) 0x08 fl) [32..<48] idt"
proof -
  have e: "[32..<48] = map (\<lambda>i. i + 32) [0..<16::nat]"
    unfolding map_add_upt by simp
  have "(\<lambda>i. idt_set_gate (word_of_nat (0x20 + i)) (st i) 0x08 fl) =
      (\<lambda>i. idt_set_gate (word_of_nat (i + 32)) (st (i + 32 - 32)) 0x08 fl)"
    by (simp add: add.commute)
  then show ?thesis unfolding e fold_map comp_def by (rule arg_cong)
qed

lemma idt_set_gate_at:
  "idt_set_gate n b sel fl idt v =
     (if v = n then \<lparr>base_low = ucast (b AND 0xFFFF), selector = sel, zero = 0, flags = fl,
        base_high = ucast (drop_bit 16 b AND 0xFFFF)\<rparr> else idt v)"
  by (simp add: idt_set_gate_def)

lemma idt_init_layers:
  "idt_init isr irq ig sc idt v =
     (if v = 0x80 then idt_set_gate v sc 0x08 0xEE idt v
      else if 48 \<le> unat v \<and> unat v < 256 then idt_set_gate v ig 0x08 0x8E idt v
      else if 32 \<le> unat v \<and> unat v < 48 then idt_set_gate v (irq (unat v - 32)) 0x08 0x8E idt v
      else if 0 \<le> unat v \<and> unat v < 32 then idt_set_gate v (isr (unat v)) 0x08 0x8E idt v
      else idt v)"
proof -
  have le: "(32::nat) \<le> 256" "(48::nat) \<le> 256" "(256::nat) \<le> 256" by simp_all
  show ?thesis
    unfolding idt_init_def Let_def fold_irq_gates idt_set_gate_at
      fold_set_gate [OF le(1)] fold_set_gate [OF le(2)] fold_set_gate [OF le(3)] by simp
qed

lemma idt_init_gate:
  "idt_init isr irq ig sc idt v =
     \<lparr>base_low = ucast (idt_expected isr irq ig sc v AND 0xFFFF), selector = 0x08, zero = 0,
      flags = (if v = 0x80 then 0xEE else 0x8E),
      base_high = ucast (drop_bit 16 (idt_expected isr irq ig sc v) AND 0xFFFF)\<rparr>"
  using unat_u8_lt [of v] unfolding idt_init_layers idt_expected_def idt_set_gate_at by auto

text \<open>C26: After \<^verbatim>\<open>idt_init\<close> every one of the 256 gates is present, runs in the kernel code
  segment and holds the full address of its stub, and vector 0x80 is the only gate that
  user-mode code may call.\<close>

theorem idt_gates:
  "gate_present (idt_init isr irq ig sc idt v) \<and> selector (idt_init isr irq ig sc idt v) = 0x08 \<and>
   gate_base (idt_init isr irq ig sc idt v) = idt_expected isr irq ig sc v \<and>
   (gate_dpl (idt_init isr irq ig sc idt v) = 3 \<longleftrightarrow> v = 0x80)"
proof -
  let ?e = "idt_init isr irq ig sc idt v"
  have b: "bit (0xEE::u8) 7" "bit (0x8E::u8) 7" by (simp_all add: bit_numeral_rec numeral_eq_Suc)
  have d: "drop_bit 5 (0xEE::u8) AND 3 = 3" "drop_bit 5 (0x8E::u8) AND 3 = 0"
    by (simp_all add: drop_bit_eq_div)
  have "gate_present ?e" and "selector ?e = 0x08"
    by (simp_all add: idt_init_gate gate_present_def b)
  moreover have "gate_base ?e = idt_expected isr irq ig sc v"
    unfolding idt_init_gate gate_base_def by (simp only: idt_entry.simps gate_base_split)
  moreover have "gate_dpl ?e = 3 \<longleftrightarrow> v = 0x80"
    by (simp add: idt_init_gate gate_dpl_def d)
  ultimately show ?thesis by simp
qed

text \<open>The port writes of \<^verbatim>\<open>pit_init\<close>, in order.\<close>

definition pit_log :: "u32 \<Rightarrow> (u16 \<times> u8) list" where
  "pit_log f = snd (pit_init (\<lambda>p v w. w @ [(p, v)]) f [])"

text \<open>For every requested frequency the divisor programmed into PIT channel 0 is between
  1 and 65535, so the two bytes sent to the port are the divisor itself.\<close>

theorem pit_divisor_programmed:
  "1 \<le> unat (pit_divisor f) \<and> unat (pit_divisor f) \<le> 65535 \<and>
   (\<exists>lo hi. pit_log f =
      [(PIT_COMMAND, 0x36), (0x80, 0), (PIT_CHANNEL0, lo), (0x80, 0), (PIT_CHANNEL0, hi)] \<and>
      unat ((ucast lo OR push_bit 8 (ucast hi)) :: u16) = unat (pit_divisor f))"
proof -
  have b: "1 \<le> unat (pit_divisor f)" "unat (pit_divisor f) \<le> 65535"
    by (rule pit_divisor_bounds)+
  have "unat (ucast (pit_divisor f) :: u16) = unat (pit_divisor f)"
    using b(2) by (simp add: unsigned_ucast_eq take_bit_nat_eq_self)
  with b byte_pair [OF b(2)] show ?thesis by (simp add: pit_log_def pit_init_def io_wait_def Let_def)
qed

end
