(* ===== verification/Keyboard.thy ===== *)
theory Keyboard
  imports Pipe Mouse Interrupts
begin

text \<open>
  The keyboard driver, \<^verbatim>\<open>src/keyboard.c\<close>: scancode set 1 decoding with modifier tracking and
  a ring buffer of 256 characters.  \<^verbatim>\<open>kbd_lock\<close> and \<^verbatim>\<open>kbd_unlock\<close> make each operation one
  atomic step on the state.  \<^verbatim>\<open>proc_notify_console\<close> belongs to the process table and is the
  argument \<open>notify\<close>.  The ring is an instance of \<open>bounded_fifo\<close> of capacity 255.
\<close>

section \<open>State and tables\<close>

record kbd_state = pipe_state +
  lshift :: bool
  rshift :: bool
  lctrl :: bool
  rctrl :: bool
  lalt :: bool
  ralt :: bool
  capslock :: bool
  extended :: bool
  kbd_buffer :: "u16 \<Rightarrow> u8"
  kbd_head :: u16
  kbd_tail :: u16
  mouse :: mouse_t

definition KEYBOARD_BUFFER_SIZE :: u16 where "KEYBOARD_BUFFER_SIZE = 256"
definition KEYBOARD_STATUS_PORT :: u16 where "KEYBOARD_STATUS_PORT = 0x64"
definition KEYBOARD_DATA_PORT :: u16 where "KEYBOARD_DATA_PORT = 0x60"

definition kbd_lower :: "u8 list" where
  "kbd_lower = [
    0, 27, 49, 50, 51, 52, 53, 54, 55, 56, 57, 48, 45, 61, 8, 9,
    113, 119, 101, 114, 116, 121, 117, 105, 111, 112, 91, 93, 10, 0, 97, 115,
    100, 102, 103, 104, 106, 107, 108, 59, 39, 96, 0, 92, 122, 120, 99, 118,
    98, 110, 109, 44, 46, 47, 0, 42, 0, 32, 0, 0, 0, 0, 0, 0,
    0, 0, 0, 0, 0, 0, 0, 0, 0, 0, 0, 0, 0, 0, 0, 0,
    0, 0, 0, 0, 0, 0, 0, 0, 0, 0, 0, 0, 0, 0, 0, 0,
    0, 0, 0, 0, 0, 0, 0, 0, 0, 0, 0, 0, 0, 0, 0, 0,
    0, 0, 0, 0, 0, 0, 0, 0, 0, 0, 0, 0, 0, 0, 0, 0]"

definition kbd_upper :: "u8 list" where
  "kbd_upper = [
    0, 27, 33, 64, 35, 36, 37, 94, 38, 42, 40, 41, 95, 43, 8, 9,
    81, 87, 69, 82, 84, 89, 85, 73, 79, 80, 123, 125, 10, 0, 65, 83,
    68, 70, 71, 72, 74, 75, 76, 58, 34, 126, 0, 124, 90, 88, 67, 86,
    66, 78, 77, 60, 62, 63, 0, 42, 0, 32, 0, 0, 0, 0, 0, 0,
    0, 0, 0, 0, 0, 0, 0, 0, 0, 0, 0, 0, 0, 0, 0, 0,
    0, 0, 0, 0, 0, 0, 0, 0, 0, 0, 0, 0, 0, 0, 0, 0,
    0, 0, 0, 0, 0, 0, 0, 0, 0, 0, 0, 0, 0, 0, 0, 0,
    0, 0, 0, 0, 0, 0, 0, 0, 0, 0, 0, 0, 0, 0, 0, 0]"

text \<open>The codes of \<^verbatim>\<open>keyboard.h\<close> for the cursor block (only after a 0xE0 prefix) and for the
  function keys, by scancode.\<close>

definition kbd_cursor_keys :: "(u8 \<times> u8) list" where
  "kbd_cursor_keys =
     [(0x48, 0x80), (0x50, 0x81), (0x4B, 0x82), (0x4D, 0x83), (0x47, 0x84), (0x4F, 0x85),
      (0x49, 0x86), (0x51, 0x87), (0x53, 0x88)]"

definition kbd_function_keys :: "(u8 \<times> u8) list" where
  "kbd_function_keys =
     [(0x3B, 0x90), (0x3C, 0x91), (0x3D, 0x92), (0x3E, 0x93), (0x3F, 0x94), (0x40, 0x95),
      (0x41, 0x96), (0x42, 0x97), (0x43, 0x98), (0x44, 0x99), (0x57, 0x9A), (0x58, 0x9B)]"

section \<open>Ring buffer\<close>

text \<open>The ring part of \<^verbatim>\<open>kbd_buf_put\<close>; the first component says whether \<open>c\<close> was stored.\<close>

definition kbd_ring_put :: "u8 \<Rightarrow> 'a kbd_state_scheme \<Rightarrow> bool \<times> 'a kbd_state_scheme" where
  "kbd_ring_put c s =
     (let next = (kbd_head s + 1) mod KEYBOARD_BUFFER_SIZE
      in if next \<noteq> kbd_tail s
         then (True, s\<lparr>kbd_buffer := (kbd_buffer s)(kbd_head s := c), kbd_head := next\<rparr>)
         else (False, s))"

definition kbd_buf_put ::
  "('a kbd_state_scheme \<Rightarrow> 'a kbd_state_scheme) \<Rightarrow> u8 \<Rightarrow>
   'a kbd_state_scheme \<Rightarrow> 'a kbd_state_scheme" where
  "kbd_buf_put notify c s =
     (case kbd_ring_put c s of (stored, s) \<Rightarrow> if stored then notify s else s)"

definition keyboard_haschar :: "'a kbd_state_scheme \<Rightarrow> bool" where
  "keyboard_haschar s \<longleftrightarrow> kbd_head s \<noteq> kbd_tail s"

definition keyboard_peek :: "'a kbd_state_scheme \<Rightarrow> u8" where
  "keyboard_peek s = (if kbd_head s = kbd_tail s then 0 else kbd_buffer s (kbd_tail s))"

definition keyboard_flush :: "'a kbd_state_scheme \<Rightarrow> 'a kbd_state_scheme" where
  "keyboard_flush s = s\<lparr>kbd_head := 0, kbd_tail := 0\<rparr>"

text \<open>The last step of \<^verbatim>\<open>keyboard_getchar\<close>, on a buffer that is not empty.\<close>

definition kbd_ring_get :: "'a kbd_state_scheme \<Rightarrow> u8 \<times> 'a kbd_state_scheme" where
  "kbd_ring_get s =
     (kbd_buffer s (kbd_tail s), s\<lparr>kbd_tail := (kbd_tail s + 1) mod KEYBOARD_BUFFER_SIZE\<rparr>)"

section \<open>Scancodes\<close>

definition kbd_release :: "u8 \<Rightarrow> 'a kbd_state_scheme \<Rightarrow> 'a kbd_state_scheme" where
  "kbd_release key s =
     (if key = 0x2A then s\<lparr>lshift := False\<rparr>
      else if key = 0x36 then s\<lparr>rshift := False\<rparr>
      else if key = 0x1D then (if extended s then s\<lparr>rctrl := False\<rparr> else s\<lparr>lctrl := False\<rparr>)
      else if key = 0x38 then (if extended s then s\<lparr>ralt := False\<rparr> else s\<lparr>lalt := False\<rparr>)
      else s)"

text \<open>The character of the default case, 0 for none.\<close>

definition kbd_char :: "u8 \<Rightarrow> 'a kbd_state_scheme \<Rightarrow> u8" where
  "kbd_char scancode s =
     (let lower = kbd_lower ! unat scancode;
          shifted = (lshift s \<or> rshift s);
          shifted = (if capslock s \<and> 97 \<le> lower \<and> lower \<le> 122 then \<not> shifted else shifted);
          c = (if shifted then kbd_upper ! unat scancode else lower)
      in if c \<noteq> 0 \<and> (lctrl s \<or> rctrl s)
         then if 97 \<le> c \<and> c \<le> 122 then c - 97 + 1
              else if 65 \<le> c \<and> c \<le> 90 then c - 65 + 1 else c
         else c)"

definition kbd_press ::
  "('a kbd_state_scheme \<Rightarrow> 'a kbd_state_scheme) \<Rightarrow> u8 \<Rightarrow>
   'a kbd_state_scheme \<Rightarrow> 'a kbd_state_scheme" where
  "kbd_press notify scancode s =
     (if scancode = 0x2A then s\<lparr>lshift := True\<rparr>
      else if scancode = 0x36 then s\<lparr>rshift := True\<rparr>
      else if scancode = 0x1D then (if extended s then s\<lparr>rctrl := True\<rparr> else s\<lparr>lctrl := True\<rparr>)
      else if scancode = 0x38 then (if extended s then s\<lparr>ralt := True\<rparr> else s\<lparr>lalt := True\<rparr>)
      else if scancode = 0x3A then s\<lparr>capslock := \<not> capslock s\<rparr>
      else case map_of kbd_cursor_keys scancode of
        Some k \<Rightarrow> if extended s then kbd_buf_put notify k s else s
      | None \<Rightarrow>
         (case map_of kbd_function_keys scancode of
            Some k \<Rightarrow> kbd_buf_put notify k s
          | None \<Rightarrow>
              let c = kbd_char scancode s
              in if c \<noteq> 0 then kbd_buf_put notify c s else s))"

definition kbd_process_scancode ::
  "('a kbd_state_scheme \<Rightarrow> 'a kbd_state_scheme) \<Rightarrow> u8 \<Rightarrow>
   'a kbd_state_scheme \<Rightarrow> 'a kbd_state_scheme" where
  "kbd_process_scancode notify scancode s =
     (if scancode = 0xE0 then s\<lparr>extended := True\<rparr>
      else if scancode AND 0x80 \<noteq> 0
      then (kbd_release (scancode AND 0x7F) s)\<lparr>extended := False\<rparr>
      else (kbd_press notify scancode s)\<lparr>extended := False\<rparr>)"

section \<open>Interrupt and polling paths\<close>

text \<open>Status bit 5 routes a byte to the mouse or to the keyboard.\<close>

definition kbd_route ::
  "('a kbd_state_scheme \<Rightarrow> 'a kbd_state_scheme) \<Rightarrow> u8 \<Rightarrow> u8 \<Rightarrow>
   'a kbd_state_scheme \<Rightarrow> 'a kbd_state_scheme" where
  "kbd_route notify status b s =
     (if status AND 0x20 \<noteq> 0 then s\<lparr>mouse := mouse_handle_byte b (mouse s)\<rparr>
      else kbd_process_scancode notify b s)"

partial_function (option) kbd_irq_handler ::
  "'h inb \<Rightarrow> ('a kbd_state_scheme \<Rightarrow> 'a kbd_state_scheme) \<Rightarrow>
   'a kbd_state_scheme \<Rightarrow> 'h \<Rightarrow> ('a kbd_state_scheme \<times> 'h) option" where
  "kbd_irq_handler inb notify s h =
     (case inb KEYBOARD_STATUS_PORT h of (st, h) \<Rightarrow>
      if st AND 0x01 \<noteq> 0
      then case inb KEYBOARD_STATUS_PORT h of (st, h) \<Rightarrow>
           case inb KEYBOARD_DATA_PORT h of (b, h) \<Rightarrow>
             kbd_irq_handler inb notify (kbd_route notify st b s) h
      else Some (s, h))"

text \<open>\<^verbatim>\<open>keyboard_getchar\<close> waits with interrupts enabled; \<open>hlt\<close> is what the interrupts that
  arrive during one halt do to the state.\<close>

partial_function (option) keyboard_getchar ::
  "'h inb \<Rightarrow> ('a kbd_state_scheme \<Rightarrow> 'a kbd_state_scheme) \<Rightarrow>
   ('a kbd_state_scheme \<Rightarrow> 'h \<Rightarrow> 'a kbd_state_scheme \<times> 'h) \<Rightarrow>
   'a kbd_state_scheme \<Rightarrow> 'h \<Rightarrow> (u8 \<times> 'a kbd_state_scheme \<times> 'h) option" where
  "keyboard_getchar inb notify hlt s h =
     (if kbd_head s = kbd_tail s
      then case hlt s h of (s, h) \<Rightarrow>
           case inb KEYBOARD_STATUS_PORT h of (st, h) \<Rightarrow>
           if st AND 0x01 \<noteq> 0
           then case inb KEYBOARD_DATA_PORT h of (b, h) \<Rightarrow>
                  keyboard_getchar inb notify hlt (kbd_route notify st b s) h
           else keyboard_getchar inb notify hlt s h
      else case kbd_ring_get s of (c, s) \<Rightarrow> Some (c, s, h))"

definition keyboard_reset :: "'a kbd_state_scheme \<Rightarrow> 'a kbd_state_scheme" where
  "keyboard_reset s = s\<lparr>lshift := False, rshift := False, lctrl := False, rctrl := False,
     lalt := False, ralt := False, capslock := False, extended := False,
     kbd_head := 0, kbd_tail := 0\<rparr>"

text \<open>\<open>kbd_handler\<close> is the value stored in the handler table for both IRQ lines.\<close>

definition keyboard_init ::
  "'h inb \<Rightarrow> 'h outb \<Rightarrow> 'f \<Rightarrow> 'a kbd_state_scheme \<Rightarrow> (u8 \<Rightarrow> 'f option) \<Rightarrow> 'h \<Rightarrow>
   ('a kbd_state_scheme \<times> (u8 \<Rightarrow> 'f option) \<times> 'h) option" where
  "keyboard_init inb outb kbd_handler s tab h =
     (case ps2_drain inb h of
        None \<Rightarrow> None
      | Some h \<Rightarrow>
         (case irq_register_handler inb outb 1 kbd_handler (tab, h) of (tab, h) \<Rightarrow>
            let h = pic_unmask inb outb 2 (pic_unmask inb outb 1 h)
            in Some (keyboard_reset s, irq_register_handler inb outb 12 kbd_handler (tab, h))))"

section \<open>Contents of the ring\<close>

definition kbd_wf :: "'a kbd_state_scheme \<Rightarrow> bool" where
  "kbd_wf s \<longleftrightarrow> kbd_head s < KEYBOARD_BUFFER_SIZE \<and> kbd_tail s < KEYBOARD_BUFFER_SIZE"

definition kbd_fill :: "'a kbd_state_scheme \<Rightarrow> nat" where
  "kbd_fill s = (unat (kbd_head s) + 256 - unat (kbd_tail s)) mod 256"

definition kbd_queued :: "'a kbd_state_scheme \<Rightarrow> u8 list" where
  "kbd_queued s = map (\<lambda>i. kbd_buffer s (word_of_nat ((unat (kbd_tail s) + i) mod 256)))
     [0..<kbd_fill s]"

text \<open>A burst of characters, as the interrupt handler stores it, and one read.\<close>

fun kbd_put_all :: "u8 list \<Rightarrow> 'a kbd_state_scheme \<Rightarrow> nat \<times> 'a kbd_state_scheme" where
  "kbd_put_all [] s = (0, s)"
| "kbd_put_all (c # cs) s =
     (case kbd_ring_put c s of (stored, s) \<Rightarrow>
      case kbd_put_all cs s of (n, s) \<Rightarrow> (if stored then n + 1 else n, s))"

definition kbd_get_one :: "unit \<Rightarrow> 'a kbd_state_scheme \<Rightarrow> u8 list \<times> 'a kbd_state_scheme" where
  "kbd_get_one u s =
     (if keyboard_haschar s then case kbd_ring_get s of (c, s) \<Rightarrow> ([c], s) else ([], s))"

lemma unat_u16_succ:
  assumes "unat (a :: u16) < 256"
  shows "unat ((a + 1) mod KEYBOARD_BUFFER_SIZE) = (unat a + 1) mod 256"
proof -
  have "unat (a + 1) = unat a + 1"
    using assms by (simp add: unat_word_ariths)
  then show ?thesis by (simp add: KEYBOARD_BUFFER_SIZE_def unat_mod)
qed

lemma kbd_wf_nat: "kbd_wf s \<longleftrightarrow> unat (kbd_head s) < 256 \<and> unat (kbd_tail s) < 256"
  by (simp add: kbd_wf_def KEYBOARD_BUFFER_SIZE_def word_nat)

lemma length_kbd_queued [simp]: "length (kbd_queued s) = kbd_fill s"
  by (simp add: kbd_queued_def)

lemma kbd_fill_cases:
  assumes "kbd_wf s"
  shows "kbd_fill s = (if unat (kbd_tail s) \<le> unat (kbd_head s)
    then unat (kbd_head s) - unat (kbd_tail s)
    else unat (kbd_head s) + 256 - unat (kbd_tail s))"
  using assms by (auto simp: kbd_fill_def kbd_wf_nat mod_if)

lemma kbd_cell_head:
  assumes "kbd_wf s"
  shows "word_of_nat ((unat (kbd_tail s) + kbd_fill s) mod 256) = kbd_head s"
proof -
  have "(unat (kbd_tail s) + kbd_fill s) mod 256 = unat (kbd_head s)"
    using assms by (auto simp: kbd_fill_cases kbd_wf_nat mod_if)
  then show ?thesis by simp
qed

lemma haschar_iff: "kbd_wf s \<Longrightarrow> keyboard_haschar s \<longleftrightarrow> 0 < kbd_fill s"
  by (auto simp: keyboard_haschar_def kbd_fill_cases kbd_wf_nat word_unat_eq_iff)

lemma kbd_full_iff:
  "kbd_wf s \<Longrightarrow> (kbd_head s + 1) mod KEYBOARD_BUFFER_SIZE = kbd_tail s \<longleftrightarrow> kbd_fill s = 255"
  using unat_u16_succ [of "kbd_head s"]
  by (auto simp: kbd_fill_cases kbd_wf_nat word_unat_eq_iff mod_if)

lemma kbd_cell_inj:
  assumes "i < 256" and "j < 256"
    and "(word_of_nat ((t + i) mod 256) :: u16) = word_of_nat ((t + j) mod 256)"
  shows "i = j"
proof -
  have "unat (word_of_nat ((t + k) mod 256) :: u16) = (t + k) mod 256" for k
    by (simp add: unat_of_nat)
  with assms(3) have "(t + i) mod 256 = (t + j) mod 256" by metis
  with assms(1,2) show ?thesis by (rule ring_cell_inj)
qed

lemma kbd_ring_put_full:
  "kbd_wf s \<Longrightarrow> kbd_fill s = 255 \<Longrightarrow> kbd_ring_put c s = (False, s)"
  by (simp add: kbd_ring_put_def kbd_full_iff)

lemma kbd_ring_put_free:
  assumes "kbd_wf s" and "kbd_fill s < 255"
  obtains s' where "kbd_ring_put c s = (True, s')" and "kbd_wf s'"
    and "kbd_queued s' = kbd_queued s @ [c]"
proof
  define s' where "s' = s\<lparr>kbd_buffer := (kbd_buffer s)(kbd_head s := c),
    kbd_head := (kbd_head s + 1) mod KEYBOARD_BUFFER_SIZE\<rparr>"
  have nf: "(kbd_head s + 1) mod KEYBOARD_BUFFER_SIZE \<noteq> kbd_tail s"
    using kbd_full_iff [OF assms(1)] assms(2) by simp
  then show "kbd_ring_put c s = (True, s')" by (simp add: kbd_ring_put_def s'_def)
  have h': "unat (kbd_head s') = (unat (kbd_head s) + 1) mod 256"
    using unat_u16_succ [of "kbd_head s"] assms(1) by (simp add: s'_def kbd_wf_nat)
  show wf': "kbd_wf s'" using assms(1) h' by (simp add: kbd_wf_nat s'_def)
  have fill': "kbd_fill s' = Suc (kbd_fill s)"
    using h' assms by (auto simp: kbd_fill_cases wf' kbd_wf_nat s'_def mod_if split: if_splits)
  have "kbd_buffer s' (word_of_nat ((unat (kbd_tail s) + i) mod 256)) =
      kbd_buffer s (word_of_nat ((unat (kbd_tail s) + i) mod 256))" if "i < kbd_fill s" for i
    using kbd_cell_inj [of i "kbd_fill s" "unat (kbd_tail s)"] kbd_cell_head [OF assms(1)]
      that assms(2) by (auto simp: s'_def)
  moreover have "kbd_buffer s' (word_of_nat ((unat (kbd_tail s) + kbd_fill s) mod 256)) = c"
    by (simp add: kbd_cell_head [OF assms(1)] s'_def)
  ultimately show "kbd_queued s' = kbd_queued s @ [c]"
    unfolding kbd_queued_def fill' by (simp add: s'_def)
qed

lemma kbd_ring_get_queued:
  assumes "kbd_wf s" and "kbd_ring_get s = (c, s')" and "keyboard_haschar s"
  shows "kbd_wf s'" and "kbd_queued s = c # kbd_queued s'"
proof -
  have f: "0 < kbd_fill s" using haschar_iff [OF assms(1)] assms(3) by simp
  have s': "s' = s\<lparr>kbd_tail := (kbd_tail s + 1) mod KEYBOARD_BUFFER_SIZE\<rparr>"
    and c: "c = kbd_buffer s (kbd_tail s)"
    using assms(2) by (simp_all add: kbd_ring_get_def)
  have t': "unat (kbd_tail s') = (unat (kbd_tail s) + 1) mod 256"
    using unat_u16_succ [of "kbd_tail s"] assms(1) by (simp add: s' kbd_wf_nat)
  show wf': "kbd_wf s'" using assms(1) t' by (simp add: kbd_wf_nat s')
  have fill: "kbd_fill s = Suc (kbd_fill s')"
    using t' f assms(1) by (auto simp: kbd_fill_cases wf' kbd_wf_nat s' mod_if split: if_splits)
  have "kbd_buffer s' (word_of_nat ((unat (kbd_tail s') + i) mod 256)) =
      kbd_buffer s (word_of_nat ((unat (kbd_tail s) + Suc i) mod 256))" for i
    unfolding t' by (simp add: s' mod_simps)
  moreover have "kbd_buffer s (word_of_nat (unat (kbd_tail s) mod 256)) = c"
    using assms(1) by (simp add: c kbd_wf_nat)
  ultimately show "kbd_queued s = c # kbd_queued s'"
    unfolding kbd_queued_def fill by (simp add: upt_conv_Cons map_Suc_upt [symmetric] del: upt_Suc)
qed

lemma kbd_fill_bound: "kbd_fill s \<le> 255"
proof -
  have "kbd_fill s < 256" by (simp add: kbd_fill_def)
  then show ?thesis by simp
qed

lemma kbd_put_all_queued:
  "kbd_wf s \<Longrightarrow> kbd_put_all xs s = (n, s') \<Longrightarrow>
     n = min (length xs) (255 - kbd_fill s) \<and> kbd_queued s' = kbd_queued s @ take n xs \<and> kbd_wf s'"
proof (induction xs arbitrary: s n)
  case (Cons c cs)
  show ?case
  proof (cases "kbd_fill s = 255")
    case True
    then have "kbd_ring_put c s = (False, s)" by (rule kbd_ring_put_full [OF Cons.prems(1)])
    with Cons.prems(2) have "kbd_put_all cs s = (n, s')" by (simp split: prod.splits)
    from Cons.IH [OF Cons.prems(1) this] True show ?thesis by simp
  next
    case False
    with kbd_fill_bound [of s] have "kbd_fill s < 255" by simp
    then obtain s1 where s1: "kbd_ring_put c s = (True, s1)" "kbd_wf s1"
      "kbd_queued s1 = kbd_queued s @ [c]"
      using kbd_ring_put_free Cons.prems(1) by blast
    have "kbd_fill s1 = Suc (kbd_fill s)" using s1(3) by (metis length_append_singleton length_kbd_queued)
    with s1 Cons.prems(2) Cons.IH [OF s1(2)] \<open>kbd_fill s < 255\<close> show ?thesis
      by (auto split: prod.splits)
  qed
qed simp

interpretation kbd_ring: bounded_fifo kbd_queued 255 kbd_wf kbd_put_all kbd_get_one "\<lambda>_. 1"
proof
  show "length (kbd_queued s) \<le> 255" if "kbd_wf s" for s :: "'a kbd_state_scheme"
    using kbd_fill_bound [of s] by simp
  show "n = min (length xs) (255 - length (kbd_queued s)) \<and>
      kbd_queued s' = kbd_queued s @ take n xs \<and> kbd_wf s'"
    if "kbd_wf s" "kbd_put_all xs s = (n, s')" for s s' :: "'a kbd_state_scheme" and xs n
    using kbd_put_all_queued [OF that] by simp
  show "ys = take 1 (kbd_queued s) \<and> kbd_queued s' = drop 1 (kbd_queued s) \<and> kbd_wf s'"
    if "kbd_wf s" "kbd_get_one k s = (ys, s')" for s s' :: "'a kbd_state_scheme" and k ys
  proof (cases "keyboard_haschar s")
    case True
    then show ?thesis
      using that kbd_ring_get_queued [OF that(1) _ True]
      by (auto simp: kbd_get_one_def split: prod.splits)
  next
    case False
    then have "kbd_queued s = []" using haschar_iff [OF that(1)] by (simp add: kbd_queued_def)
    with False that show ?thesis by (simp add: kbd_get_one_def)
  qed
qed

section \<open>Draining the controller\<close>

text \<open>A controller that holds a finite list of pending bytes, each tagged with the port it
  came from (keyboard or auxiliary): status bit 0 says that a byte waits, bit 5 which port it
  came from, and reading the data port takes it.\<close>

definition ps2_inb :: "(bool \<times> u8) list inb" where
  "ps2_inb port q =
     (if port = 0x64
      then (case q of [] \<Rightarrow> 0 | (aux, b) # _ \<Rightarrow> if aux then 0x21 else 0x01, q)
      else case q of [] \<Rightarrow> (0, q) | (aux, b) # q \<Rightarrow> (b, q))"

definition kbd_route_tagged ::
  "('a kbd_state_scheme \<Rightarrow> 'a kbd_state_scheme) \<Rightarrow> bool \<times> u8 \<Rightarrow>
   'a kbd_state_scheme \<Rightarrow> 'a kbd_state_scheme" where
  "kbd_route_tagged notify ab s =
     (if fst ab then s\<lparr>mouse := mouse_handle_byte (snd ab) (mouse s)\<rparr>
      else kbd_process_scancode notify (snd ab) s)"

lemma irq_handler_drains:
  "kbd_irq_handler ps2_inb notify s q = Some (fold (kbd_route_tagged notify) q s, [])"
proof (induction q arbitrary: s)
  case Nil
  show ?case
    by (subst kbd_irq_handler.simps) (simp add: ps2_inb_def KEYBOARD_STATUS_PORT_def)
next
  case (Cons ab q)
  obtain aux b where ab: "ab = (aux, b)" by force
  have "kbd_irq_handler ps2_inb notify s (ab # q) =
      kbd_irq_handler ps2_inb notify (kbd_route_tagged notify ab s) q"
    by (subst kbd_irq_handler.simps)
      (simp add: ab ps2_inb_def KEYBOARD_STATUS_PORT_def KEYBOARD_DATA_PORT_def kbd_route_def
        kbd_route_tagged_def)
  with Cons.IH show ?case by simp
qed

section \<open>Scancodes\<close>

lemma kbd_wf_flags [simp]:
  "kbd_wf (s\<lparr>extended := b\<rparr>) = kbd_wf s" "kbd_wf (s\<lparr>capslock := b\<rparr>) = kbd_wf s"
  "kbd_wf (s\<lparr>lshift := b\<rparr>) = kbd_wf s" "kbd_wf (s\<lparr>rshift := b\<rparr>) = kbd_wf s"
  "kbd_wf (s\<lparr>lctrl := b\<rparr>) = kbd_wf s" "kbd_wf (s\<lparr>rctrl := b\<rparr>) = kbd_wf s"
  "kbd_wf (s\<lparr>lalt := b\<rparr>) = kbd_wf s" "kbd_wf (s\<lparr>ralt := b\<rparr>) = kbd_wf s"
  by (simp_all add: kbd_wf_def)

lemma kbd_release_wf [simp]: "kbd_wf (kbd_release k s) = kbd_wf s"
  by (simp add: kbd_release_def)

lemma kbd_buf_put_wf:
  assumes "kbd_wf s" and "\<And>t. kbd_wf t \<Longrightarrow> kbd_wf (notify t)"
  shows "kbd_wf (kbd_buf_put notify c s)"
proof (cases "kbd_fill s = 255")
  case True
  with assms(1) show ?thesis by (simp add: kbd_buf_put_def kbd_ring_put_full)
next
  case False
  with kbd_fill_bound [of s] have "kbd_fill s < 255" by simp
  then obtain s' where "kbd_ring_put c s = (True, s')" "kbd_wf s'"
    using kbd_ring_put_free [OF assms(1)] by blast
  with assms(2) show ?thesis by (simp add: kbd_buf_put_def)
qed

lemma kbd_process_scancode_wf [inv_pres]:
  assumes "kbd_wf s" and "\<And>t. kbd_wf t \<Longrightarrow> kbd_wf (notify t)"
  shows "kbd_wf (kbd_process_scancode notify c s)"
  using assms(1) kbd_buf_put_wf [OF assms]
  by (simp add: kbd_process_scancode_def kbd_press_def Let_def split: option.split)

section \<open>Properties\<close>

lemma kbd_tables_agree:
  "list_all2 (\<lambda>l u. 97 \<le> l \<and> l \<le> 122 \<longrightarrow> u = l - 32) kbd_lower kbd_upper"
  by (simp add: kbd_lower_def kbd_upper_def)

lemma kbd_lower_length [simp]: "length kbd_lower = 128"
  by (simp add: kbd_lower_def)

lemma u8_letter:
  assumes "97 \<le> (l::u8)" and "l \<le> 122"
  shows "l \<noteq> 0" "l - 32 \<noteq> 0" "65 \<le> l - 32" "l - 32 \<le> 90" "\<not> 97 \<le> l - 32" "l - 32 - 65 = l - 97"
proof -
  have u: "unat (l - 32) = unat l - 32" using assms by (simp add: unat_sub word_le_nat_alt)
  show "l \<noteq> 0" "l - 32 \<noteq> 0" "65 \<le> l - 32" "l - 32 \<le> 90" "\<not> 97 \<le> l - 32"
    using assms by (auto simp: word_le_nat_alt u word_unat_eq_iff)
  show "l - 32 - 65 = l - 97" by (simp add: algebra_simps)
qed

text \<open>A letter key produces the letter in the case chosen by Shift and Caps Lock together
  (one of them, not both, gives the capital), and with Ctrl held the control code 1 to 26,
  whatever Shift and Caps Lock say.\<close>

theorem kbd_letter:
  assumes "unat code < 128" and "97 \<le> kbd_lower ! unat code" and "kbd_lower ! unat code \<le> 122"
  shows "kbd_char code s =
    (if lctrl s \<or> rctrl s then kbd_lower ! unat code - 96
     else if (lshift s \<or> rshift s) \<noteq> capslock s then kbd_lower ! unat code - 32
     else kbd_lower ! unat code)"
proof -
  let ?l = "kbd_lower ! unat code"
  have u: "kbd_upper ! unat code = ?l - 32"
    using list_all2_nthD [OF kbd_tables_agree, of "unat code"] assms by simp
  note f = u8_letter [OF assms(2,3)]
  have e: "?l - 97 + 1 = ?l - 96" by (simp add: algebra_simps)
  show ?thesis using assms(2,3) f u e by (auto simp: kbd_char_def Let_def)
qed

definition kbd_start :: kbd_state where
  "kbd_start = \<lparr>pipes = [], lshift = True, rshift = False, lctrl = False, rctrl = False,
     lalt = False, ralt = False, capslock = False, extended = False, kbd_buffer = (\<lambda>_. 0),
     kbd_head = 0, kbd_tail = 0,
     mouse = \<lparr>px = 0, py = 0, btn_l = False, btn_r = False, btn_m = False, packet = [0, 0, 0],
       pidx = 0\<rparr>\<rparr>"

theorem kbd_letter_witness: "kbd_char 0x10 kbd_start = 81"
proof -
  have k: "unat (0x10 :: u8) < 128" "97 \<le> kbd_lower ! unat (0x10 :: u8)"
    "kbd_lower ! unat (0x10 :: u8) \<le> 122" "kbd_lower ! unat (0x10 :: u8) = 113"
    by (simp_all add: kbd_lower_def)
  show ?thesis using kbd_letter [OF k(1-3), of kbd_start] k(4) by (simp add: kbd_start_def)
qed

text \<open>C23: The keyboard buffer keeps the order of the characters: whatever the order of bursts
  and reads, the characters accepted are those read followed by those still buffered, and at
  most 255 are buffered.\<close>

theorem kbd_fifo:
  assumes "kbd_wf s" and "kbd_queued s = []"
    and "fifo_run kbd_put_all kbd_get_one ops s = (acc, del, s')"
  shows "acc = del @ kbd_queued s' \<and> length (kbd_queued s') \<le> 255"
  using kbd_ring.run_delivers_prefix [OF assms] kbd_fill_bound [of s'] by simp

theorem kbd_fifo_witness:
  "fst (fifo_run kbd_put_all kbd_get_one [Put [65, 66], Get ()] kbd_start) =
     fst (snd (fifo_run kbd_put_all kbd_get_one [Put [65, 66], Get ()] kbd_start)) @
     kbd_queued (snd (snd (fifo_run kbd_put_all kbd_get_one [Put [65, 66], Get ()] kbd_start)))"
proof -
  obtain acc del s' where r: "fifo_run kbd_put_all kbd_get_one [Put [65, 66], Get ()] kbd_start = (acc, del, s')"
    by (rule prod_cases3)
  have "kbd_wf kbd_start" "kbd_queued kbd_start = []"
    by (simp_all add: kbd_wf_def kbd_queued_def kbd_fill_def kbd_start_def KEYBOARD_BUFFER_SIZE_def)
  from kbd_fifo [OF this r] show ?thesis unfolding r by simp
qed

text \<open>C24: On a controller that holds a finite list of bytes the interrupt handler returns, with
  the controller empty, and has passed every byte in order to the decoder of the port it came
  from.\<close>

theorem kbd_irq_drains:
  "kbd_irq_handler ps2_inb notify s q = Some (fold (kbd_route_tagged notify) q s, [])"
  by (rule irq_handler_drains)

end
