(* ===== verification/Kstring.thy ===== *)
theory Kstring
  imports Muos_Prelude
begin

text \<open>
  The kernel's string library, \<^verbatim>\<open>src/string.c\<close>.  The \<^verbatim>\<open>mem*\<close> functions run on the byte
  memory, address by address and in the order of the C loops, so that overlapping moves are
  faithful.  The \<^verbatim>\<open>str*\<close> functions run on the bytes of the object the pointer points into;
  reading past that object is the value \<open>None\<close>.
\<close>

section \<open>Memory functions\<close>

text \<open>The loops count down from \<open>n\<close>; the pointers wrap at 32 bits.\<close>

fun memset_loop :: "nat \<Rightarrow> u32 \<Rightarrow> u8 \<Rightarrow> memory \<Rightarrow> memory" where
  "memset_loop 0 d v m = m"
| "memset_loop (Suc n) d v m = memset_loop n (d + 1) v (m(d := v))"

definition memset :: "u32 \<Rightarrow> u8 \<Rightarrow> u32 \<Rightarrow> memory \<Rightarrow> memory" where
  "memset dst v count m = memset_loop (unat count) dst v m"

fun copy_up :: "nat \<Rightarrow> u32 \<Rightarrow> u32 \<Rightarrow> memory \<Rightarrow> memory" where
  "copy_up 0 d s m = m"
| "copy_up (Suc n) d s m = copy_up n (d + 1) (s + 1) (m(d := m s))"

fun copy_down :: "nat \<Rightarrow> u32 \<Rightarrow> u32 \<Rightarrow> memory \<Rightarrow> memory" where
  "copy_down 0 d s m = m"
| "copy_down (Suc n) d s m = copy_down n (d - 1) (s - 1) (m(d - 1 := m (s - 1)))"

definition memcpy :: "u32 \<Rightarrow> u32 \<Rightarrow> u32 \<Rightarrow> memory \<Rightarrow> memory" where
  "memcpy dst src count m = copy_up (unat count) dst src m"

definition memmove :: "u32 \<Rightarrow> u32 \<Rightarrow> u32 \<Rightarrow> memory \<Rightarrow> memory" where
  "memmove dst src count m =
     (if dst < src then copy_up (unat count) dst src m
      else copy_down (unat count) (dst + count) (src + count) m)"

fun memcmp_loop :: "nat \<Rightarrow> u32 \<Rightarrow> u32 \<Rightarrow> memory \<Rightarrow> int" where
  "memcmp_loop 0 x y m = 0"
| "memcmp_loop (Suc n) x y m =
     (if m x \<noteq> m y then uint (m x) - uint (m y) else memcmp_loop n (x + 1) (y + 1) m)"

definition memcmp :: "u32 \<Rightarrow> u32 \<Rightarrow> u32 \<Rightarrow> memory \<Rightarrow> int" where
  "memcmp a b count m = memcmp_loop (unat count) a b m"

section \<open>Strings\<close>

fun strlen :: "u8 list \<Rightarrow> nat option" where
  "strlen [] = None"
| "strlen (c # cs) = (if c = 0 then Some 0 else map_option Suc (strlen cs))"

fun strcmp :: "u8 list \<Rightarrow> u8 list \<Rightarrow> int option" where
  "strcmp (a # as) (b # bs) =
     (if a \<noteq> 0 \<and> a = b then strcmp as bs else Some (uint a - uint b))"
| "strcmp _ _ = None"

fun strncmp :: "u8 list \<Rightarrow> u8 list \<Rightarrow> nat \<Rightarrow> int option" where
  "strncmp as bs 0 = Some 0"
| "strncmp (a # as) (b # bs) (Suc n) =
     (if a \<noteq> 0 \<and> a = b then strncmp as bs n else Some (uint a - uint b))"
| "strncmp _ _ _ = None"

text \<open>The bytes \<^verbatim>\<open>strcpy\<close> stores, the NUL included.\<close>

fun strcpy :: "u8 list \<Rightarrow> u8 list option" where
  "strcpy [] = None"
| "strcpy (c # cs) = (if c = 0 then Some [0] else map_option (Cons c) (strcpy cs))"

text \<open>The \<open>n\<close> bytes \<^verbatim>\<open>strncpy\<close> stores: the string, then zeros.\<close>

fun strncpy :: "u8 list \<Rightarrow> nat \<Rightarrow> u8 list option" where
  "strncpy src 0 = Some []"
| "strncpy [] (Suc n) = None"
| "strncpy (c # cs) (Suc n) =
     (if c = 0 then Some (replicate (Suc n) 0) else map_option (Cons c) (strncpy cs n))"

section \<open>Decimal printing\<close>

text \<open>\<open>tmp\<close> holds the digits from the least significant one.\<close>

function dec_tmp :: "u32 \<Rightarrow> u8 list" where
  "dec_tmp value = (if value = 0 then [] else ucast (48 + value mod 10) # dec_tmp (value div 10))"
  by auto
termination
proof (relation "measure unat")
  fix v :: u32 assume "v \<noteq> 0"
  then have "0 < unat v" by (simp add: unat_gt_0)
  then show "(v div 10, v) \<in> measure unat" by (simp add: unat_div)
qed simp

declare dec_tmp.simps [simp del]

lemma dec_tmp_0 [simp]: "dec_tmp 0 = []"
  by (simp add: dec_tmp.simps)

definition u32_to_dec :: "u32 \<Rightarrow> u8 list \<times> nat" where
  "u32_to_dec value =
     (let digits = (if value = 0 then [48] else rev (dec_tmp value))
      in (digits @ [0], length digits))"

section \<open>Lemmas on the memory loops\<close>

text \<open>A range of \<open>n\<close> bytes from \<open>d\<close>, on the circle of addresses.\<close>

definition in_range :: "u32 \<Rightarrow> u32 \<Rightarrow> nat \<Rightarrow> bool" where
  "in_range a d n \<longleftrightarrow> unat (a - d) < n"

lemma unat_minus_one [simp]: "unat (- 1 :: u32) = 4294967295"
  by (simp add: unsigned_minus_1_eq_mask mask_eq_exp_minus_1)

lemma unat_minus_one_offset:
  assumes "a \<noteq> (d::u32)"
  shows "unat (a - d) = Suc (unat (a - (d + 1)))"
proof -
  have e: "a - d = 1 + (a - (d + 1))" by simp
  have "1 + (a - (d + 1)) \<noteq> 0" using assms by simp
  then show ?thesis unfolding e by (rule unatSuc)
qed

lemma in_range_Suc: "in_range a d (Suc n) \<longleftrightarrow> a = d \<or> in_range a (d + 1) n"
  unfolding in_range_def by (cases "a = d") (auto simp: unat_minus_one_offset)

lemma memset_loop_spec:
  "n \<le> 4294967296 \<Longrightarrow> memset_loop n d v m = (\<lambda>a. if in_range a d n then v else m a)"
proof (induction n arbitrary: d m)
  case (Suc n)
  have "\<not> in_range d (d + 1) n"
  proof -
    have "d - (d + 1) = - 1" by simp
    moreover have "unat (- 1 :: u32) = 4294967295" by simp
    ultimately show ?thesis using Suc.prems by (simp add: in_range_def)
  qed
  with Suc show ?case by (auto simp: in_range_Suc fun_eq_iff)
qed (simp add: in_range_def)

lemma memset_spec: "memset d v n m = (\<lambda>a. if in_range a d (unat n) then v else m a)"
  using memset_loop_spec [of "unat n"] unat_u32_lt [of n] by (simp add: memset_def)

text \<open>Copying upwards is right when the destination starts at or below the source, or the
  ranges are apart; copying downwards when it starts at or above.\<close>

lemma copy_up_spec:
  assumes "n \<le> 4294967296" and "\<And>i. i < n \<Longrightarrow> \<not> in_range (s + word_of_nat i) d i"
  shows "copy_up n d s m = (\<lambda>a. if in_range a d n then m (s + (a - d)) else m a)"
  using assms
proof (induction n arbitrary: d s m)
  case (Suc n)
  have step: "\<not> in_range (s + 1 + word_of_nat i) (d + 1) i" if "i < n" for i
    using Suc.prems(2) [of "Suc i"] that by (simp add: in_range_Suc add.assoc)
  have keep: "(m(d := m s)) (s + 1 + (a - (d + 1))) = m (s + (a - d))"
    if "in_range a (d + 1) n" for a
  proof -
    define i where "i = unat (a - d)"
    have "i < Suc n" "0 < i"
    proof -
      have "a \<noteq> d"
      proof
        assume "a = d"
        with that have "unat (- 1 :: u32) < n" by (simp add: in_range_def)
        with Suc.prems(1) show False by simp
      qed
      then show "i < Suc n" "0 < i"
        using that unat_minus_one_offset [of a d] by (simp_all add: i_def in_range_def)
    qed
    then have "\<not> in_range (s + word_of_nat i) d i" using Suc.prems(2) by simp
    then have "s + word_of_nat i \<noteq> d" using \<open>0 < i\<close> by (auto simp: in_range_def)
    moreover have "word_of_nat i = a - d" by (simp add: i_def)
    ultimately show ?thesis by simp
  qed
  have "\<not> in_range d (d + 1) n"
    using Suc.prems(1) by (simp add: in_range_def)
  with Suc.IH [of "s + 1" "d + 1", OF _ step] Suc.prems(1) keep show ?case
    by (auto simp: in_range_Suc fun_eq_iff)
qed (simp add: in_range_def)

lemma in_range_top:
  assumes "n < 4294967296"
  shows "in_range a d (Suc n) \<longleftrightarrow> in_range a d n \<or> a = d + word_of_nat n"
proof -
  have "unat (a - d) = n \<longleftrightarrow> a = d + word_of_nat n"
    using assms by (metis add_diff_cancel_left' diff_add_cancel add.commute unat_of_nat_u32 word_unat_eq_iff)
  then show ?thesis by (auto simp: in_range_def less_Suc_eq)
qed

lemma copy_down_spec:
  assumes "n \<le> 4294967296"
    and "\<And>i. i < n \<Longrightarrow> \<not> in_range (s + word_of_nat i) (d + word_of_nat (Suc i)) (n - Suc i)"
  shows "copy_down n (d + word_of_nat n) (s + word_of_nat n) m =
    (\<lambda>a. if in_range a d n then m (s + (a - d)) else m a)"
  using assms
proof (induction n arbitrary: m)
  case (Suc n)
  let ?m = "m(d + word_of_nat n := m (s + word_of_nat n))"
  have "copy_down (Suc n) (d + word_of_nat (Suc n)) (s + word_of_nat (Suc n)) m =
      copy_down n (d + word_of_nat n) (s + word_of_nat n) ?m" by simp
  also have "\<dots> = (\<lambda>a. if in_range a d n then ?m (s + (a - d)) else ?m a)"
  proof (rule Suc.IH)
    fix i assume "i < n"
    with Suc.prems(2) [of i] show
      "\<not> in_range (s + word_of_nat i) (d + word_of_nat (Suc i)) (n - Suc i)"
      by (auto simp: in_range_def)
  qed (use Suc.prems(1) in simp)
  also have "\<dots> = (\<lambda>a. if in_range a d (Suc n) then m (s + (a - d)) else m a)"
  proof
    fix a
    show "(if in_range a d n then ?m (s + (a - d)) else ?m a) =
        (if in_range a d (Suc n) then m (s + (a - d)) else m a)"
    proof (cases "in_range a d n")
      case True
      define i where "i = unat (a - d)"
      have i: "i < n" "word_of_nat i = a - d" using True by (simp_all add: i_def in_range_def)
      have "s + word_of_nat i \<noteq> d + word_of_nat n"
      proof
        assume "s + word_of_nat i = d + word_of_nat n"
        then have eq: "s + word_of_nat i - (d + word_of_nat (Suc i)) = word_of_nat (n - Suc i)"
          using i(1) by (simp add: of_nat_diff)
        have "unat (word_of_nat (n - Suc i) :: u32) = n - Suc i" using Suc.prems(1) by simp
        then have "in_range (s + word_of_nat i) (d + word_of_nat (Suc i)) (Suc n - Suc i)"
          unfolding in_range_def eq using i(1) by simp
        with Suc.prems(2) [of i] i(1) show False by simp
      qed
      with True i Suc.prems(1) show ?thesis by (simp add: in_range_top)
    next
      case False
      with Suc.prems(1) show ?thesis by (simp add: in_range_top)
    qed
  qed
  finally show ?case .
qed (simp add: in_range_def)

lemma unat_diff_no_wrap: "unat (d::u32) \<le> unat a \<Longrightarrow> unat (a - d) = unat a - unat d"
  by (simp add: unat_sub word_le_nat_alt)

lemma unat_diff_wrap: "unat (a::u32) < unat d \<Longrightarrow> unat (a - d) = 4294967296 + unat a - unat d"
  by (simp add: unat_sub_if' )

lemma memmove_up_ok:
  assumes "unat s + unat (n::u32) \<le> 4294967296" and "d < (s::u32)" and "i < unat n"
  shows "\<not> in_range (s + word_of_nat i) d i"
proof -
  have "unat (s + word_of_nat i) = unat s + i"
    using assms(1,3) unat_add_small [of s "word_of_nat i"] unat_u32_lt [of n] by simp
  with assms(2) show ?thesis by (simp add: in_range_def unat_diff_no_wrap word_less_nat_alt)
qed

lemma memmove_down_ok:
  assumes "unat d + unat (n::u32) \<le> 4294967296" and "\<not> d < (s::u32)" and "i < unat n"
  shows "\<not> in_range (s + word_of_nat i) (d + word_of_nat (Suc i)) (unat n - Suc i)"
proof -
  have e: "s + word_of_nat i - (d + word_of_nat (Suc i)) = s - (d + 1)" by simp
  show ?thesis
  proof (cases "s = d")
    case True
    then show ?thesis using unat_u32_lt [of n] by (simp add: in_range_def)
  next
    case False
    with assms(2) have "unat s < unat d" by (simp add: word_less_nat_alt word_unat_eq_iff)
    then have "unat (s - (d + 1)) = 4294967295 + unat s - unat d"
      using unat_minus_one_offset [OF False] unat_diff_wrap [of s d] by simp
    then show ?thesis unfolding in_range_def e using assms(1,3) by linarith
  qed
qed

section \<open>Lemmas on decimal printing\<close>

definition dec_value :: "u8 list \<Rightarrow> nat" where
  "dec_value ds = foldl (\<lambda>v c. 10 * v + (unat c - 48)) 0 ds"

lemma dec_value_snoc [simp]: "dec_value (ds @ [c]) = 10 * dec_value ds + (unat c - 48)"
  by (simp add: dec_value_def)

lemma digit_byte:
  "unat (ucast (48 + (v::u32) mod 10) :: u8) = 48 + unat v mod 10"
proof -
  have "unat (48 + v mod 10) = 48 + unat v mod 10"
    using unat_add_small [of 48 "v mod 10"] by (simp add: unat_mod)
  then show ?thesis by (simp add: unsigned_ucast_eq take_bit_nat_eq_self)
qed

lemma dec_tmp_value: "dec_value (rev (dec_tmp v)) = unat v"
proof (induction v rule: dec_tmp.induct)
  case (1 v)
  show ?case
  proof (cases "v = 0")
    case True
    then show ?thesis by (simp add: dec_tmp.simps [of v] dec_value_def)
  next
    case False
    with 1 show ?thesis by (simp add: dec_tmp.simps [of v] digit_byte unat_div)
  qed
qed

lemma dec_tmp_digits: "c \<in> set (dec_tmp v) \<Longrightarrow> 48 \<le> unat c \<and> unat c \<le> 57"
proof (induction v rule: dec_tmp.induct)
  case (1 v)
  then show ?case
    by (cases "v = 0") (auto simp: dec_tmp.simps [of v] digit_byte)
qed

lemma dec_tmp_length: "v \<noteq> 0 \<Longrightarrow> 10 ^ (length (dec_tmp v) - 1) \<le> unat v \<and> dec_tmp v \<noteq> []"
proof (induction v rule: dec_tmp.induct)
  case (1 v)
  show ?case
  proof (cases "v div 10 = 0")
    case True
    with 1 show ?thesis by (simp add: dec_tmp.simps [of v] dec_tmp.simps [of 0] unat_gt_0 Suc_leI)
  next
    case False
    with 1 have "10 ^ (length (dec_tmp (v div 10)) - 1) \<le> unat (v div 10)" "dec_tmp (v div 10) \<noteq> []"
      by blast+
    then have "10 * 10 ^ (length (dec_tmp (v div 10)) - 1) \<le> 10 * (unat v div 10)"
      by (simp add: unat_div)
    also have "\<dots> \<le> unat v" by simp
    finally show ?thesis using 1 \<open>dec_tmp (v div 10) \<noteq> []\<close>
      by (cases "dec_tmp (v div 10)") (auto simp: dec_tmp.simps [of v])
  qed
qed

lemma dec_tmp_bound: "length (dec_tmp v) \<le> 10"
proof (rule ccontr)
  assume "\<not> length (dec_tmp v) \<le> 10"
  then have l: "10 \<le> length (dec_tmp v) - 1" by simp
  then have "v \<noteq> 0" by (auto simp: dec_tmp.simps [of 0])
  then have "10 ^ (length (dec_tmp v) - 1) \<le> unat v" using dec_tmp_length by blast
  moreover have "(10::nat) ^ 10 \<le> 10 ^ (length (dec_tmp v) - 1)"
    using l by (intro power_increasing) simp_all
  ultimately show False using unat_u32_lt [of v] by simp
qed

section \<open>Lemmas on strings\<close>

lemma strlen_cstr: "0 \<in> set a \<Longrightarrow> strlen a = Some (length (cstr a))"
  by (induction a rule: strlen.induct) (auto simp: cstr_def)

lemma strcmp_terminated:
  "0 \<in> set a \<Longrightarrow> 0 \<in> set b \<Longrightarrow> \<exists>r. strcmp a b = Some r \<and> (r = 0 \<longleftrightarrow> cstr a = cstr b)"
proof (induction a b rule: strcmp.induct)
  case (1 a as b bs)
  show ?case
  proof (cases "a \<noteq> 0 \<and> a = b")
    case True
    with 1 show ?thesis by (auto simp: cstr_def)
  next
    case False
    have "uint a = uint b \<longleftrightarrow> a = b" "uint a = 0 \<longleftrightarrow> a = 0" "uint b = 0 \<longleftrightarrow> b = 0"
      by (simp_all add: word_uint_eq_iff)
    with False show ?thesis by (auto simp: cstr_def)
  qed
qed auto

lemma strncpy_terminated:
  "0 \<in> set src \<Longrightarrow>
     strncpy src n = Some (take n (cstr src) @ replicate (n - length (cstr src)) 0)"
  by (induction src n rule: strncpy.induct) (auto simp: cstr_def)

section \<open>Properties\<close>

text \<open>C19: \<^verbatim>\<open>memmove\<close> copies the source range as it was before the call to the destination
  range, for every overlap of the two ranges, and changes no other byte.\<close>

theorem memmove_correct:
  assumes "unat dst + unat n \<le> 4294967296" and "unat src + unat n \<le> 4294967296"
  shows "memmove dst src n m =
    (\<lambda>a. if in_range a dst (unat n) then m (src + (a - dst)) else m a)"
proof (cases "dst < src")
  case True
  with memmove_up_ok [OF assms(2) True] unat_u32_lt [of n] show ?thesis
    by (simp add: memmove_def copy_up_spec)
next
  case False
  with memmove_down_ok [OF assms(1) False] unat_u32_lt [of n]
    copy_down_spec [of "unat n" src dst m] show ?thesis
    by (simp add: memmove_def)
qed

theorem memmove_correct_witness:
  "memmove 0x1001 0x1000 3 (\<lambda>a. ucast a) =
     (\<lambda>a. if in_range a 0x1001 (unat (3::u32)) then ucast (0x1000 + (a - 0x1001)) else ucast a)"
  by (rule memmove_correct) simp_all

text \<open>C20: \<^verbatim>\<open>u32_to_dec\<close> writes the decimal digits of its argument followed by a NUL: read
  back in base ten they give the value, every character is a digit, and there are at most ten
  of them, so the ten-byte scratch array never overflows.\<close>

theorem u32_to_dec_correct:
  "case u32_to_dec v of (out, n) \<Rightarrow>
     \<exists>ds. out = ds @ [0] \<and> length ds = n \<and> dec_value ds = unat v \<and> 1 \<le> n \<and> n \<le> 10 \<and>
       list_all (\<lambda>c. 48 \<le> unat c \<and> unat c \<le> 57) ds"
proof (cases "v = 0")
  case True
  then show ?thesis by (simp add: u32_to_dec_def dec_value_def)
next
  case False
  with dec_tmp_value [of v] dec_tmp_digits [of _ v] dec_tmp_length [OF False] dec_tmp_bound [of v]
  show ?thesis
    by (simp add: u32_to_dec_def list_all_iff Suc_leI)
qed

text \<open>On terminated strings \<^verbatim>\<open>strcmp\<close> returns, and returns zero exactly when the two
  strings are equal up to their terminators.\<close>

theorem strcmp_zero_iff:
  assumes "0 \<in> set a" and "0 \<in> set b"
  shows "\<exists>r. strcmp a b = Some r \<and> (r = 0 \<longleftrightarrow> cstr a = cstr b)"
  by (rule strcmp_terminated [OF assms])

theorem strcmp_zero_iff_witness:
  "\<exists>r. strcmp [104, 105, 0, 7] [104, 105, 0, 9] = Some r \<and>
     (r = 0 \<longleftrightarrow> cstr [104, 105, 0, 7] = cstr [104, 105, 0, 9::u8])"
  by (rule strcmp_zero_iff) simp_all

end
