(* ===== verification/Allocator.thy ===== *)
theory Allocator
  imports Muos_Prelude
begin

text \<open>
  The contract of an allocator, shared by the frame allocator (\<^verbatim>\<open>mm_alloc_pages\<close> and
  \<^verbatim>\<open>mm_free_pages\<close>, \<^verbatim>\<open>src/mm.c\<close>) and the kernel heap (\<^verbatim>\<open>kmalloc\<close> and \<^verbatim>\<open>kfree\<close>,
  \<^verbatim>\<open>src/kheap.c\<close>).  \<open>live s a n\<close> says that address \<open>a\<close> was handed out for a request \<open>n\<close>
  and not released since; \<open>region a n\<close> is what the client may use.  Address 0 is failure.
  The client lemma: for every sequence of requests and releases, the allocations that are live
  at the end are pairwise disjoint.
\<close>

datatype 'n alloc_op = Request 'n | Release nat

text \<open>A client that keeps the list of what it owns and releases entries by position.\<close>

fun alloc_run ::
  "('n \<Rightarrow> 's \<Rightarrow> (u32 \<times> 's) option) \<Rightarrow> (u32 \<Rightarrow> 'n \<Rightarrow> 's \<Rightarrow> 's) \<Rightarrow>
   'n alloc_op list \<Rightarrow> 's \<Rightarrow> (u32 \<times> 'n) list \<Rightarrow> ('s \<times> (u32 \<times> 'n) list) option" where
  "alloc_run alloc release [] s own = Some (s, own)"
| "alloc_run alloc release (Request n # ops) s own =
     (case alloc n s of
        None \<Rightarrow> None
      | Some (a, s) \<Rightarrow>
          alloc_run alloc release ops s (if a = 0 then own else (a, n) # own))"
| "alloc_run alloc release (Release i # ops) s own =
     (if i < length own
      then case own ! i of (a, n) \<Rightarrow>
             alloc_run alloc release ops (release a n s) (take i own @ drop (Suc i) own)
      else alloc_run alloc release ops s own)"

locale allocator =
  fixes inv :: "'s \<Rightarrow> bool"
    and live :: "'s \<Rightarrow> u32 \<Rightarrow> 'n \<Rightarrow> bool"
    and region :: "u32 \<Rightarrow> 'n \<Rightarrow> u32 set"
    and alloc :: "'n \<Rightarrow> 's \<Rightarrow> (u32 \<times> 's) option"
    and release :: "u32 \<Rightarrow> 'n \<Rightarrow> 's \<Rightarrow> 's"
  assumes alloc_returns: "inv s \<Longrightarrow> \<exists>a s'. alloc n s = Some (a, s')"
    and alloc_inv: "inv s \<Longrightarrow> alloc n s = Some (a, s') \<Longrightarrow> inv s'"
    and alloc_keeps: "inv s \<Longrightarrow> alloc n s = Some (a, s') \<Longrightarrow> live s c m \<Longrightarrow> live s' c m"
    and alloc_live: "inv s \<Longrightarrow> alloc n s = Some (a, s') \<Longrightarrow> a \<noteq> 0 \<Longrightarrow> live s' a n"
    and alloc_fresh: "inv s \<Longrightarrow> alloc n s = Some (a, s') \<Longrightarrow> a \<noteq> 0 \<Longrightarrow> live s c m \<Longrightarrow>
      region a n \<inter> region c m = {}"
    and release_inv: "inv s \<Longrightarrow> live s a n \<Longrightarrow> inv (release a n s)"
    and release_keeps: "inv s \<Longrightarrow> live s a n \<Longrightarrow> live s c m \<Longrightarrow>
      region a n \<inter> region c m = {} \<Longrightarrow> live (release a n s) c m"
begin

definition apart :: "u32 \<times> 'n \<Rightarrow> u32 \<times> 'n \<Rightarrow> bool" where
  "apart x y \<longleftrightarrow> region (fst x) (snd x) \<inter> region (fst y) (snd y) = {}"

definition own_ok :: "'s \<Rightarrow> (u32 \<times> 'n) list \<Rightarrow> bool" where
  "own_ok s own \<longleftrightarrow> inv s \<and> (\<forall>(a, n) \<in> set own. live s a n) \<and> sorted_wrt apart own"

lemma own_ok_request:
  assumes "own_ok s own" and "alloc n s = Some (a, s')"
  shows "own_ok s' (if a = 0 then own else (a, n) # own)"
proof -
  have l: "inv s" and own: "\<And>c m. (c, m) \<in> set own \<Longrightarrow> live s c m" and so: "sorted_wrt apart own"
    using assms(1) by (auto simp: own_ok_def)
  have "apart (a, n) x" if "a \<noteq> 0" "x \<in> set own" for x
    using alloc_fresh [OF l assms(2) that(1)] own [of "fst x" "snd x"] that(2)
    by (simp add: apart_def)
  moreover have "live s' c m" if "(c, m) \<in> set own" for c m
    using alloc_keeps [OF l assms(2)] own [OF that] by simp
  ultimately show ?thesis
    using alloc_inv [OF l assms(2)] alloc_live [OF l assms(2)] so by (auto simp: own_ok_def)
qed

lemma own_ok_release:
  assumes "own_ok s own" and "i < length own" and "own ! i = (a, n)"
  shows "own_ok (release a n s) (take i own @ drop (Suc i) own)"
proof -
  have own: "own = take i own @ (a, n) # drop (Suc i) own"
    using assms(2,3) by (metis id_take_nth_drop)
  then have ok: "own_ok s (take i own @ (a, n) # drop (Suc i) own)" using assms(1) by simp
  then have l: "inv s" "live s a n" by (auto simp: own_ok_def)
  have "live (release a n s) c m" if "(c, m) \<in> set (take i own @ drop (Suc i) own)" for c m
  proof (rule release_keeps [OF l])
    show "live s c m" using that ok by (auto simp: own_ok_def)
    have "apart (a, n) (c, m) \<or> apart (c, m) (a, n)"
      using that ok by (auto simp: own_ok_def sorted_wrt_append)
    then show "region a n \<inter> region c m = {}" by (auto simp: apart_def)
  qed
  moreover have "sorted_wrt apart (take i own @ drop (Suc i) own)"
    using ok by (simp add: own_ok_def sorted_wrt_append)
  ultimately show ?thesis using release_inv [OF l] by (auto simp: own_ok_def)
qed

lemma run_disjoint:
  assumes "own_ok s own"
  shows "\<exists>s' own'. alloc_run alloc release ops s own = Some (s', own') \<and> own_ok s' own'"
  using assms
proof (induction ops arbitrary: s own)
  case Nil
  then show ?case by simp
next
  case (Cons p ops)
  show ?case
  proof (cases p)
    case (Request n)
    obtain a s1 where a: "alloc n s = Some (a, s1)"
      using alloc_returns Cons.prems own_ok_def by blast
    from Cons.IH [OF own_ok_request [OF Cons.prems a]] a Request show ?thesis by simp
  next
    case (Release i)
    show ?thesis
    proof (cases "i < length own")
      case True
      obtain a n where "own ! i = (a, n)" by force
      from Cons.IH [OF own_ok_release [OF Cons.prems True this]] True this Release show ?thesis
        by simp
    next
      case False
      with Cons Release show ?thesis by simp
    qed
  qed
qed

lemma run_from_empty:
  assumes "inv s"
  shows "\<exists>s' own. alloc_run alloc release ops s [] = Some (s', own) \<and>
    (\<forall>i j. i < j \<longrightarrow> j < length own \<longrightarrow>
      region (fst (own ! i)) (snd (own ! i)) \<inter> region (fst (own ! j)) (snd (own ! j)) = {})"
proof -
  have "own_ok s []" using assms by (simp add: own_ok_def)
  from run_disjoint [OF this, of ops] show ?thesis
    by (auto simp: own_ok_def sorted_wrt_iff_nth_less apart_def)
qed

end

end
