(* ===== verification/Frames.thy ===== *)
theory Frames
  imports Allocator
begin

text \<open>
  The physical frame allocator of \<^verbatim>\<open>src/mm.c\<close>: a bitmap of 4 KiB frames (a set bit is a frame
  in use), 8-bit reference counts and the number of free frames.  \<open>mm_inv\<close> ties the counter to
  the bitmap and is kept by every operation.  The word-at-a-time search of a single frame and
  the skip-ahead search of a contiguous run are proved equal to first-fit references.  The
  operations provide the \<open>allocator\<close> contract, whose client lemma says that live allocations
  never overlap.
\<close>

section \<open>State\<close>

record mm_state =
  bitmap :: "u32 \<Rightarrow> u32"
  total_pages :: u32
  free_pages :: u32
  frame_refs :: "u32 \<Rightarrow> u8"
  mmap_region_count :: u32
  reported_mem_upper_kb :: u32
  page_dir_phys :: u32
  cr3 :: u32
  pmem :: memory

definition PAGE_SIZE :: u32 where "PAGE_SIZE = 4096"
definition PAGE_MASK :: u32 where "PAGE_MASK = 0xFFFFF000"
definition MM_MAX_PAGES :: u32 where "MM_MAX_PAGES = 262144"

section \<open>Bitmap\<close>

definition bitmap_set :: "u32 \<Rightarrow> 'a mm_state_scheme \<Rightarrow> 'a mm_state_scheme" where
  "bitmap_set frame s =
     s\<lparr>bitmap := (bitmap s)(frame div 32 :=
        bitmap s (frame div 32) OR push_bit (unat (frame mod 32)) 1)\<rparr>"

definition bitmap_clear :: "u32 \<Rightarrow> 'a mm_state_scheme \<Rightarrow> 'a mm_state_scheme" where
  "bitmap_clear frame s =
     s\<lparr>bitmap := (bitmap s)(frame div 32 :=
        bitmap s (frame div 32) AND NOT (push_bit (unat (frame mod 32)) 1))\<rparr>"

definition bitmap_test :: "u32 \<Rightarrow> 'a mm_state_scheme \<Rightarrow> bool" where
  "bitmap_test frame s \<longleftrightarrow> bitmap s (frame div 32) AND push_bit (unat (frame mod 32)) 1 \<noteq> 0"

definition bitmap_words :: "'a mm_state_scheme \<Rightarrow> u32" where
  "bitmap_words s = (total_pages s + 31) div 32"

text \<open>The two loops of \<^verbatim>\<open>bitmap_find_first_free\<close>; the inner one may return early.\<close>

fun scan_bits :: "u32 \<Rightarrow> u32 \<Rightarrow> u32 \<Rightarrow> u32 list \<Rightarrow> u32 option" where
  "scan_bits w i tot [] = None"
| "scan_bits w i tot (j # js) =
     (let frame = i * 32 + j
      in if frame \<ge> tot then Some (- 1)
         else if w AND push_bit (unat j) 1 = 0 then Some frame
         else scan_bits w i tot js)"

fun scan_words :: "'a mm_state_scheme \<Rightarrow> u32 list \<Rightarrow> u32" where
  "scan_words s [] = - 1"
| "scan_words s (i # is) =
     (if bitmap s i \<noteq> 0xFFFFFFFF
      then case scan_bits (bitmap s i) i (total_pages s) (u32_range 0 32) of
             Some r \<Rightarrow> r
           | None \<Rightarrow> scan_words s is
      else scan_words s is)"

definition bitmap_find_first_free :: "'a mm_state_scheme \<Rightarrow> u32" where
  "bitmap_find_first_free s = scan_words s (u32_range 0 (bitmap_words s))"

section \<open>Reference counts\<close>

definition mm_page_ref_inc :: "u32 \<Rightarrow> 'a mm_state_scheme \<Rightarrow> 'a mm_state_scheme" where
  "mm_page_ref_inc phys s =
     (let pfn = drop_bit 12 phys
      in if pfn \<ge> total_pages s then s
         else if frame_refs s pfn < 255
         then s\<lparr>frame_refs := (frame_refs s)(pfn := frame_refs s pfn + 1)\<rparr>
         else s)"

definition mm_page_ref :: "u32 \<Rightarrow> 'a mm_state_scheme \<Rightarrow> u32" where
  "mm_page_ref phys s =
     (let pfn = drop_bit 12 phys
      in if pfn < total_pages s then ucast (frame_refs s pfn) else 0)"

definition page_unref :: "u32 \<Rightarrow> 'a mm_state_scheme \<Rightarrow> 'a mm_state_scheme" where
  "page_unref pfn s =
     (if pfn \<ge> total_pages s then s
      else if frame_refs s pfn > 1
      then s\<lparr>frame_refs := (frame_refs s)(pfn := frame_refs s pfn - 1)\<rparr>
      else let s = s\<lparr>frame_refs := (frame_refs s)(pfn := 0)\<rparr>
           in if bitmap_test pfn s
              then (bitmap_clear pfn s)\<lparr>free_pages := free_pages s + 1\<rparr>
              else s)"

section \<open>Allocation\<close>

text \<open>The address returned is 0 for failure, as in the code.\<close>

definition mm_alloc_page :: "'a mm_state_scheme \<Rightarrow> u32 \<times> 'a mm_state_scheme" where
  "mm_alloc_page s =
     (let frame = bitmap_find_first_free s
      in if frame = - 1 then (0, s)
         else let s = bitmap_set frame s;
                  s = s\<lparr>frame_refs := (frame_refs s)(frame := 1), free_pages := free_pages s - 1\<rparr>
              in (frame * PAGE_SIZE, s))"

definition mm_free_page :: "u32 \<Rightarrow> 'a mm_state_scheme \<Rightarrow> 'a mm_state_scheme" where
  "mm_free_page addr s =
     (let frame = addr div PAGE_SIZE
      in if frame < total_pages s then page_unref frame s else s)"

text \<open>The search loop of \<^verbatim>\<open>mm_alloc_pages\<close>.  With 32-bit counters it need not end for every
  state, hence the outer option; \<open>Some None\<close> is "no run found".\<close>

partial_function (option) alloc_scan ::
  "'a mm_state_scheme \<Rightarrow> u32 \<Rightarrow> u32 \<Rightarrow> u32 option option" where
  "alloc_scan s count start =
     (if start + count \<le> total_pages s
      then case find (\<lambda>i. bitmap_test (start + i) s) (u32_range 0 count) of
             None \<Rightarrow> Some (Some start)
           | Some i \<Rightarrow> alloc_scan s count (start + i + 1)
      else Some None)"

definition claim_frames :: "u32 \<Rightarrow> u32 \<Rightarrow> 'a mm_state_scheme \<Rightarrow> 'a mm_state_scheme" where
  "claim_frames start count s =
     fold (\<lambda>i s. (bitmap_set (start + i) s)\<lparr>frame_refs := (frame_refs s)(start + i := 1)\<rparr>)
       (u32_range 0 count) s"

definition mm_alloc_pages ::
  "u32 \<Rightarrow> 'a mm_state_scheme \<Rightarrow> (u32 \<times> 'a mm_state_scheme) option" where
  "mm_alloc_pages count s =
     (if count = 0 \<or> count > total_pages s \<or> free_pages s < count then Some (0, s)
      else case alloc_scan s count 0 of
             None \<Rightarrow> None
           | Some None \<Rightarrow> Some (0, s)
           | Some (Some start) \<Rightarrow>
               let s = claim_frames start count s
               in Some (start * PAGE_SIZE, s\<lparr>free_pages := free_pages s - count\<rparr>))"

definition mm_free_pages :: "u32 \<Rightarrow> u32 \<Rightarrow> 'a mm_state_scheme \<Rightarrow> 'a mm_state_scheme" where
  "mm_free_pages addr count s =
     (let frame = addr div PAGE_SIZE
      in if count = 0 then s
         else if addr AND (PAGE_SIZE - 1) \<noteq> 0 then s
         else if frame \<ge> total_pages s \<or> frame + count > total_pages s then s
         else fold (\<lambda>i. page_unref (frame + i)) (u32_range 0 count) s)"

definition mm_reserve_range ::
  "u32 \<Rightarrow> u32 \<Rightarrow> 'a mm_state_scheme \<Rightarrow> bool \<times> 'a mm_state_scheme" where
  "mm_reserve_range start stop s =
     (if stop \<le> start then (False, s)
      else
        let first = start div PAGE_SIZE;
            last = (stop - 1) div PAGE_SIZE + 1
        in if first \<ge> total_pages s \<or> last > total_pages s then (False, s)
           else if list_ex (\<lambda>f. bitmap_test f s) (u32_range first last) then (False, s)
           else (True, fold (\<lambda>f s. (bitmap_set f s)\<lparr>free_pages := free_pages s - 1\<rparr>)
                          (u32_range first last) s))"

definition mm_get_total_pages :: "'a mm_state_scheme \<Rightarrow> u32" where
  "mm_get_total_pages s = total_pages s"

definition mm_get_free_pages :: "'a mm_state_scheme \<Rightarrow> u32" where
  "mm_get_free_pages s = free_pages s"

definition mm_get_used_pages :: "'a mm_state_scheme \<Rightarrow> u32" where
  "mm_get_used_pages s = total_pages s - free_pages s"

section \<open>Bitmap lemmas\<close>

lemma bitmap_test_bit: "bitmap_test f s \<longleftrightarrow> bit (bitmap s (f div 32)) (unat (f mod 32))"
  by (simp add: bitmap_test_def)

lemma frame_index_eq: "(f::u32) div 32 = g div 32 \<Longrightarrow> unat (f mod 32) = unat (g mod 32) \<Longrightarrow> f = g"
  by (metis div_mult_mod_eq word_unat_eq_iff)

lemma mod32_lt: "unat ((f::u32) mod 32) < 32"
  by (simp add: unat_mod)

lemma bitmap_test_set [simp]: "bitmap_test g (bitmap_set f s) \<longleftrightarrow> g = f \<or> bitmap_test g s"
  using frame_index_eq [of g f] mod32_lt [of f]
  by (auto simp: bitmap_test_bit bitmap_set_def bit_or_iff bit_exp_iff)

lemma bitmap_test_clear [simp]: "bitmap_test g (bitmap_clear f s) \<longleftrightarrow> g \<noteq> f \<and> bitmap_test g s"
  using frame_index_eq [of g f] mod32_lt [of f] mod32_lt [of g]
  by (auto simp: bitmap_test_bit bitmap_clear_def bit_and_iff bit_not_iff bit_exp_iff)

lemma bitmap_test_fields [simp]:
  "bitmap_test f (s\<lparr>frame_refs := r\<rparr>) = bitmap_test f s"
  "bitmap_test f (s\<lparr>free_pages := n\<rparr>) = bitmap_test f s"
  "bitmap_test f (s\<lparr>pmem := m\<rparr>) = bitmap_test f s"
  "bitmap_test f (s\<lparr>cr3 := c\<rparr>) = bitmap_test f s"
  "bitmap_test f (s\<lparr>page_dir_phys := c\<rparr>) = bitmap_test f s"
  by (simp_all add: bitmap_test_def)

lemma bitmap_set_fields [simp]:
  "total_pages (bitmap_set f s) = total_pages s" "free_pages (bitmap_set f s) = free_pages s"
  "frame_refs (bitmap_set f s) = frame_refs s" "pmem (bitmap_set f s) = pmem s"
  "page_dir_phys (bitmap_set f s) = page_dir_phys s" "cr3 (bitmap_set f s) = cr3 s"
  by (simp_all add: bitmap_set_def)

lemma bitmap_clear_fields [simp]:
  "total_pages (bitmap_clear f s) = total_pages s" "free_pages (bitmap_clear f s) = free_pages s"
  "frame_refs (bitmap_clear f s) = frame_refs s" "pmem (bitmap_clear f s) = pmem s"
  "page_dir_phys (bitmap_clear f s) = page_dir_phys s" "cr3 (bitmap_clear f s) = cr3 s"
  by (simp_all add: bitmap_clear_def)

section \<open>Invariant\<close>

definition free_set :: "'a mm_state_scheme \<Rightarrow> u32 set" where
  "free_set s = {f. f < total_pages s \<and> \<not> bitmap_test f s}"

definition mm_inv :: "'a mm_state_scheme \<Rightarrow> bool" where
  "mm_inv s \<longleftrightarrow> total_pages s \<le> MM_MAX_PAGES \<and> unat (free_pages s) = card (free_set s)"

lemma finite_u32 [simp]: "finite (A :: u32 set)"
  by (rule finite)

lemma mm_inv_total: "mm_inv s \<Longrightarrow> unat (total_pages s) \<le> 262144"
  by (simp add: mm_inv_def MM_MAX_PAGES_def word_le_nat_alt)

lemma free_set_fields [simp]:
  "free_set (s\<lparr>frame_refs := r\<rparr>) = free_set s" "free_set (s\<lparr>free_pages := n\<rparr>) = free_set s"
  "free_set (s\<lparr>pmem := m\<rparr>) = free_set s" "free_set (s\<lparr>cr3 := c\<rparr>) = free_set s"
  "free_set (s\<lparr>page_dir_phys := c\<rparr>) = free_set s"
  by (simp_all add: free_set_def)

lemma free_set_bitmap_set: "free_set (bitmap_set f s) = free_set s - {f}"
  by (auto simp: free_set_def)

lemma free_set_bitmap_clear:
  "f < total_pages s \<Longrightarrow> free_set (bitmap_clear f s) = insert f (free_set s)"
  by (auto simp: free_set_def)

lemma card_free_le: "card (free_set s) \<le> unat (total_pages s)"
proof -
  have "free_set s \<subseteq> set (u32_range 0 (total_pages s))" by (auto simp: free_set_def)
  then have "card (free_set s) \<le> card (set (u32_range 0 (total_pages s)))"
    by (rule card_mono [OF finite_set])
  then show ?thesis by (simp add: distinct_card del: set_u32_range)
qed

section \<open>The word-at-a-time search\<close>

lemma bitmap_test_at:
  assumes "unat f = 32 * unat i + j" and "j < 32"
  shows "bitmap_test f s \<longleftrightarrow> bit (bitmap s i) j"
proof -
  have "f div 32 = i" using assms by (simp add: word_unat_eq_iff unat_div)
  moreover have "unat (f mod 32) = j" using assms by (simp add: unat_mod)
  ultimately show ?thesis by (simp add: bitmap_test_bit)
qed

definition used_below :: "'a mm_state_scheme \<Rightarrow> nat \<Rightarrow> bool" where
  "used_below s n \<longleftrightarrow> (\<forall>f. unat f < n \<and> f < total_pages s \<longrightarrow> bitmap_test f s)"

text \<open>The result is the least free frame, or all ones when there is none.\<close>

definition is_first_free :: "'a mm_state_scheme \<Rightarrow> u32 \<Rightarrow> bool" where
  "is_first_free s r \<longleftrightarrow>
     (if r = - 1 then free_set s = {}
      else r \<in> free_set s \<and> (\<forall>f \<in> free_set s. r \<le> f))"

lemma first_freeI:
  assumes "used_below s (unat r)" and "r < total_pages s" and "\<not> bitmap_test r s"
    and "mm_inv s"
  shows "is_first_free s r"
proof -
  have "unat (total_pages s) \<le> 262144" by (rule mm_inv_total [OF assms(4)])
  with assms(2) have "r \<noteq> - 1" by (auto simp: word_less_nat_alt unsigned_minus_1_eq_mask mask_eq_exp_minus_1)
  moreover have "\<forall>f \<in> free_set s. r \<le> f"
    using assms(1) by (force simp: free_set_def used_below_def word_le_nat_alt)
  ultimately show ?thesis using assms(2,3) by (simp add: is_first_free_def free_set_def)
qed

lemma none_freeI:
  assumes "used_below s n" and "unat (total_pages s) \<le> n"
  shows "is_first_free s (- 1)"
  using assms by (force simp: is_first_free_def free_set_def used_below_def word_less_nat_alt)

lemma scan_bits_spec:
  assumes inv: "mm_inv s" and i: "unat i \<le> 8192" and "j \<le> 32"
    and "used_below s (32 * unat i + j)"
  shows "case scan_bits (bitmap s i) i (total_pages s) (u32_range (word_of_nat j) 32) of
      None \<Rightarrow> used_below s (32 * unat i + 32)
    | Some r \<Rightarrow> is_first_free s r"
  using assms(3,4)
proof (induction "32 - j" arbitrary: j)
  case 0
  then show ?case by simp
next
  case (Suc k)
  then have j: "j < 32" by simp
  have uj: "unat (word_of_nat j :: u32) = j" using j by simp
  let ?f = "i * 32 + word_of_nat j"
  have m: "unat (i * 32) = 32 * unat i" using i unat_mult_small [of i 32] by simp
  have f: "unat ?f = 32 * unat i + j"
    using unat_add_small [of "i * 32" "word_of_nat j"] i j uj m by simp
  have step: "u32_range (word_of_nat j) 32 = word_of_nat j # u32_range (word_of_nat (Suc j)) 32"
    by (rule u32_range_step) (use j in simp)
  have tst: "bitmap_test ?f s \<longleftrightarrow> bit (bitmap s i) j" by (rule bitmap_test_at [OF f j])
  show ?case
  proof (cases "?f \<ge> total_pages s")
    case True
    with Suc.prems(2) f have "is_first_free s (- 1)"
      by (intro none_freeI [of s "32 * unat i + j"]) (simp_all add: word_le_nat_alt)
    with True show ?thesis by (simp add: step Let_def)
  next
    case False
    show ?thesis
    proof (cases "bit (bitmap s i) j")
      case True
      then have "bitmap_test f s" if "unat f = 32 * unat i + j" for f
        using bitmap_test_at [OF that j, of s] by simp
      with Suc.prems(2) have "used_below s (32 * unat i + Suc j)"
        by (auto simp: used_below_def less_Suc_eq)
      with Suc.hyps(1) [of "Suc j"] Suc.hyps(2) j True False uj show ?thesis
        by (simp add: step Let_def)
    next
      case nb: False
      have "is_first_free s ?f"
        by (rule first_freeI [OF _ _ _ inv]) (use Suc.prems(2) f tst nb False in simp_all)
      with nb False uj show ?thesis by (simp add: step Let_def)
    qed
  qed
qed

lemma scan_words_spec:
  assumes inv: "mm_inv s" and "i \<le> unat (bitmap_words s)" and "used_below s (32 * i)"
  shows "is_first_free s (scan_words s (u32_range (word_of_nat i) (bitmap_words s)))"
  using assms(2,3)
proof (induction "unat (bitmap_words s) - i" arbitrary: i)
  have t: "unat (total_pages s) \<le> 262144" by (rule mm_inv_total [OF inv])
  then have "unat (total_pages s + 31) = unat (total_pages s) + 31"
    using unat_add_small [of "total_pages s" 31] by simp
  then have w: "unat (bitmap_words s) = (unat (total_pages s) + 31) div 32"
    by (simp add: bitmap_words_def unat_div)
  {
    case 0
    then have "unat (total_pages s) \<le> 32 * i" using w by simp
    moreover have "u32_range (word_of_nat i) (bitmap_words s) = []"
      by (rule u32_range_stop) (use 0 w t in simp_all)
    ultimately show ?case using none_freeI [OF 0(3)] by simp
  next
    case (Suc k)
    then have i: "i < unat (bitmap_words s)" by simp
    have ui: "unat (word_of_nat i :: u32) = i" "i \<le> 8192" using i w t by simp_all
    have step: "u32_range (word_of_nat i) (bitmap_words s) =
        word_of_nat i # u32_range (word_of_nat (Suc i)) (bitmap_words s)"
      by (rule u32_range_step [OF i])
    have next_word: "is_first_free s (scan_words s (u32_range (word_of_nat (Suc i)) (bitmap_words s)))"
      if "used_below s (32 * i + 32)"
      using Suc.hyps(1) [of "Suc i"] Suc.hyps(2) i that by (simp add: add.commute)
    show ?case
    proof (cases "bitmap s (word_of_nat i) = 0xFFFFFFFF")
      case True
      have "bitmap_test f s" if "\<not> unat f < 32 * i" "unat f < 32 * i + 32" for f
      proof -
        have f: "unat f = 32 * unat (word_of_nat i :: u32) + (unat f - 32 * i)" "unat f - 32 * i < 32"
          using that ui by simp_all
        have "(0xFFFFFFFF :: u32) = mask 32" by (simp add: mask_eq_exp_minus_1)
        then have "bit (bitmap s (word_of_nat i)) n" if "n < 32" for n
          using that by (simp only: True bit_mask_iff possible_bit_def) simp
        with bitmap_test_at [OF f, of s] f(2) show ?thesis by blast
      qed
      with Suc.prems(2) have "used_below s (32 * i + 32)" by (auto simp: used_below_def)
      with next_word True show ?thesis by (simp add: step)
    next
      case False
      with scan_bits_spec [OF inv, of "word_of_nat i" 0] Suc.prems(2) ui next_word show ?thesis
        by (auto simp: step split: option.split_asm option.split)
    qed
  }
qed

lemma find_first_free_spec: "mm_inv s \<Longrightarrow> is_first_free s (bitmap_find_first_free s)"
  using scan_words_spec [of s 0] by (simp add: bitmap_find_first_free_def used_below_def)

section \<open>One frame\<close>

lemma mm_alloc_page_none:
  assumes "mm_inv s" and "free_set s = {}"
  shows "mm_alloc_page s = (0, s)"
  using find_first_free_spec [OF assms(1)] assms(2)
  by (auto simp: is_first_free_def mm_alloc_page_def Let_def split: if_splits)

lemma mm_alloc_page_some:
  assumes "mm_inv s" and "free_set s \<noteq> {}"
  obtains f s' where "mm_alloc_page s = (f * PAGE_SIZE, s')" and "f \<in> free_set s"
    and "\<forall>g \<in> free_set s. f \<le> g" and "free_set s' = free_set s - {f}" and "mm_inv s'"
    and "frame_refs s' = (frame_refs s)(f := 1)" and "pmem s' = pmem s"
    and "total_pages s' = total_pages s" and "page_dir_phys s' = page_dir_phys s"
    and "cr3 s' = cr3 s" and "\<And>g. bitmap_test g s' \<longleftrightarrow> g = f \<or> bitmap_test g s"
proof -
  define f where "f = bitmap_find_first_free s"
  have f: "is_first_free s f" unfolding f_def by (rule find_first_free_spec [OF assms(1)])
  with assms(2) have nz: "f \<noteq> - 1" and fr: "f \<in> free_set s" and least: "\<forall>g \<in> free_set s. f \<le> g"
    by (auto simp: is_first_free_def split: if_splits)
  define s' where "s' = (bitmap_set f s)\<lparr>frame_refs := (frame_refs s)(f := 1),
    free_pages := free_pages s - 1\<rparr>"
  have a: "mm_alloc_page s = (f * PAGE_SIZE, s')"
    using nz by (simp add: mm_alloc_page_def Let_def f_def [symmetric] s'_def)
  have fs: "free_set s' = free_set s - {f}" by (simp add: s'_def free_set_bitmap_set)
  have inv: "mm_inv s'"
  proof -
    have c: "unat (free_pages s) = card (free_set s)" using assms(1) by (simp add: mm_inv_def)
    have "0 < card (free_set s)" using fr by (auto simp: card_gt_0_iff)
    then have "unat (free_pages s - 1) = unat (free_pages s) - 1"
      using c by (simp add: unat_sub word_le_nat_alt)
    then show ?thesis
      using assms(1) c fr by (simp add: mm_inv_def fs) (simp add: s'_def)
  qed
  show thesis by (rule that [OF a fr least fs inv]) (simp_all add: s'_def)
qed

lemma mm_alloc_page_inv [inv_pres]: "mm_inv s \<Longrightarrow> mm_inv (snd (mm_alloc_page s))"
  by (cases "free_set s = {}") (auto simp: mm_alloc_page_none elim: mm_alloc_page_some)

lemma frame_addr_div:
  assumes "unat f < 1048576"
  shows "f * PAGE_SIZE div PAGE_SIZE = f" and "drop_bit 12 (f * PAGE_SIZE) = f"
    and "unat (f * PAGE_SIZE) = unat f * 4096"
proof -
  show u: "unat (f * PAGE_SIZE) = unat f * 4096"
    using assms unat_mult_small [of f PAGE_SIZE] by (simp add: PAGE_SIZE_def)
  then show "f * PAGE_SIZE div PAGE_SIZE = f"
    by (simp add: word_unat_eq_iff unat_div) (simp add: PAGE_SIZE_def)
  show "drop_bit 12 (f * PAGE_SIZE) = f"
    using u by (simp add: word_unat_eq_iff drop_bit_eq_div unat_div)
qed

section \<open>Releasing\<close>

lemma page_unref_fields [simp]:
  "total_pages (page_unref f s) = total_pages s" "pmem (page_unref f s) = pmem s"
  "page_dir_phys (page_unref f s) = page_dir_phys s" "cr3 (page_unref f s) = cr3 s"
  by (simp_all add: page_unref_def Let_def)

text \<open>The frame becomes free exactly when its count does not exceed one.\<close>

lemma page_unref_test:
  "bitmap_test g (page_unref f s) \<longleftrightarrow>
     bitmap_test g s \<and> \<not> (g = f \<and> f < total_pages s \<and> frame_refs s f \<le> 1)"
  by (auto simp: page_unref_def Let_def)

lemma page_unref_refs:
  "frame_refs (page_unref f s) =
     (if f < total_pages s
      then (frame_refs s)(f := if frame_refs s f > 1 then frame_refs s f - 1 else 0)
      else frame_refs s)"
  by (auto simp: page_unref_def Let_def)

lemma page_unref_inv [inv_pres]:
  assumes "mm_inv s"
  shows "mm_inv (page_unref f s)"
proof (cases "f < total_pages s \<and> frame_refs s f \<le> 1 \<and> bitmap_test f s")
  case True
  then have fs: "free_set (page_unref f s) = insert f (free_set s)"
    by (auto simp: page_unref_def Let_def free_set_bitmap_clear)
  have nf: "f \<notin> free_set s" using True by (simp add: free_set_def)
  have c: "unat (free_pages s) = card (free_set s)" "unat (total_pages s) \<le> 262144"
    using assms mm_inv_total by (auto simp: mm_inv_def)
  have "free_pages (page_unref f s) = free_pages s + 1"
    using True by (auto simp: page_unref_def Let_def)
  moreover have "unat (free_pages s + 1) = unat (free_pages s) + 1"
    using c card_free_le [of s] unat_add_small [of "free_pages s" 1] by simp
  ultimately show ?thesis using assms nf c by (simp add: mm_inv_def fs)
next
  case False
  then show ?thesis using assms
    by (auto simp: page_unref_def Let_def mm_inv_def)
qed

lemma mm_free_page_inv [inv_pres]: "mm_inv s \<Longrightarrow> mm_inv (mm_free_page a s)"
  by (simp add: mm_free_page_def Let_def page_unref_inv)

lemma fold_page_unref_inv:
  "mm_inv s \<Longrightarrow> mm_inv (fold (\<lambda>i. page_unref (g i)) xs s)"
  by (induction xs arbitrary: s) (simp_all add: page_unref_inv)

lemma mm_free_pages_inv [inv_pres]: "mm_inv s \<Longrightarrow> mm_inv (mm_free_pages a n s)"
  by (simp add: mm_free_pages_def Let_def fold_page_unref_inv)

lemma mm_page_ref_inc_inv [inv_pres]: "mm_inv s \<Longrightarrow> mm_inv (mm_page_ref_inc a s)"
  by (simp add: mm_page_ref_inc_def Let_def mm_inv_def)

section \<open>Contiguous runs\<close>

definition block :: "u32 \<Rightarrow> nat \<Rightarrow> u32 set" where
  "block b n = {f. unat b \<le> unat f \<and> unat f < unat b + n}"

definition run_free :: "'a mm_state_scheme \<Rightarrow> u32 \<Rightarrow> nat \<Rightarrow> bool" where
  "run_free s b n \<longleftrightarrow> (\<forall>f \<in> block b n. \<not> bitmap_test f s)"

text \<open>First fit: the least start at or after \<open>lo\<close> of a free run of \<open>n\<close> frames.\<close>

definition is_first_run :: "'a mm_state_scheme \<Rightarrow> nat \<Rightarrow> nat \<Rightarrow> u32 option \<Rightarrow> bool" where
  "is_first_run s lo n r \<longleftrightarrow>
     (case r of
        None \<Rightarrow> \<forall>b. lo \<le> unat b \<and> unat b + n \<le> unat (total_pages s) \<longrightarrow> \<not> run_free s b n
      | Some b \<Rightarrow> lo \<le> unat b \<and> unat b + n \<le> unat (total_pages s) \<and> run_free s b n \<and>
          (\<forall>c. lo \<le> unat c \<and> unat c < unat b \<longrightarrow> \<not> run_free s c n))"

lemma block_image:
  assumes "unat b + unat n < 4294967296"
  shows "(\<lambda>i. b + i) ` set (u32_range 0 n) = block b (unat n)"
proof (rule set_eqI)
  fix f :: u32
  have shift: "unat (b + i) = unat b + unat i" if "i < n" for i
    using that assms unat_add_small [of b i] by (simp add: word_less_nat_alt)
  show "f \<in> (\<lambda>i. b + i) ` set (u32_range 0 n) \<longleftrightarrow> f \<in> block b (unat n)"
  proof
    assume "f \<in> (\<lambda>i. b + i) ` set (u32_range 0 n)"
    then show "f \<in> block b (unat n)" using shift by (auto simp: block_def word_less_nat_alt)
  next
    assume "f \<in> block b (unat n)"
    then have "unat (f - b) < unat n" by (auto simp: block_def unat_sub word_le_nat_alt)
    then have "f - b \<in> set (u32_range 0 n)" by (simp add: word_less_nat_alt)
    moreover have "f = b + (f - b)" by simp
    ultimately show "f \<in> (\<lambda>i. b + i) ` set (u32_range 0 n)" by blast
  qed
qed

lemma block_conv: "unat b + n \<le> 4294967296 \<Longrightarrow> block b n = word_of_nat ` {unat b ..< unat b + n}"
proof (rule set_eqI)
  fix f :: u32
  assume le: "unat b + n \<le> 4294967296"
  show "f \<in> block b n \<longleftrightarrow> f \<in> word_of_nat ` {unat b ..< unat b + n}"
  proof
    assume "f \<in> block b n"
    then have "unat f \<in> {unat b ..< unat b + n}" by (simp add: block_def)
    moreover have "f = word_of_nat (unat f)" by simp
    ultimately show "f \<in> word_of_nat ` {unat b ..< unat b + n}" by (rule rev_image_eqI)
  next
    assume "f \<in> word_of_nat ` {unat b ..< unat b + n}"
    then obtain k where k: "unat b \<le> k" "k < unat b + n" "f = word_of_nat k" by auto
    then have "unat f = k" using le unat_of_nat_u32 [of k] by simp
    with k show "f \<in> block b n" by (simp add: block_def)
  qed
qed

lemma card_block:
  assumes "unat b + n \<le> 4294967296"
  shows "card (block b n) = n"
proof -
  have "inj_on (word_of_nat :: nat \<Rightarrow> u32) {unat b ..< unat b + n}"
  proof (rule inj_onI)
    fix i j assume "i \<in> {unat b ..< unat b + n}" "j \<in> {unat b ..< unat b + n}"
      and "(word_of_nat i :: u32) = word_of_nat j"
    with assms show "i = j" using word_of_nat_u32_eq [of i j] by simp
  qed
  then show ?thesis by (simp add: block_conv [OF assms] card_image)
qed

lemma find_range_None:
  "find P (u32_range 0 n) = None \<longleftrightarrow> (\<forall>i < n. \<not> P i)"
  by (auto simp: find_None_iff)

lemma find_range_Some:
  assumes "find P (u32_range 0 n) = Some i"
  shows "i < n" and "P i"
proof -
  obtain k where k: "k < unat n" "P (u32_range 0 n ! k)" "i = u32_range 0 n ! k"
    using assms by (auto simp: find_Some_iff)
  then have "i \<in> set (u32_range 0 n)" by (simp del: set_u32_range)
  with k show "i < n" and "P i" by simp_all
qed

text \<open>Every start up to the used frame that was found contains that frame.\<close>

lemma skip_ahead:
  assumes "bitmap_test f s" and "unat f < unat b + n" and "unat c \<le> unat f" and "unat b \<le> unat c"
  shows "\<not> run_free s c n"
  using assms by (force simp: run_free_def block_def)

lemma alloc_scan_spec:
  assumes inv: "mm_inv s" and "0 < unat n" and "unat n \<le> unat (total_pages s)"
    and "unat lo \<le> unat (total_pages s)"
  shows "\<exists>r. alloc_scan s n lo = Some r \<and> is_first_run s (unat lo) (unat n) r"
  using assms(4)
proof (induction "unat (total_pages s) - unat lo" arbitrary: lo rule: less_induct)
  case less
  have t: "unat (total_pages s) \<le> 262144" by (rule mm_inv_total [OF inv])
  have add: "unat (lo + n) = unat lo + unat n"
    using unat_add_small [of lo n] less.prems t assms(3) by simp
  show ?case
  proof (cases "lo + n \<le> total_pages s")
    case False
    then have "is_first_run s (unat lo) (unat n) None"
      by (auto simp: is_first_run_def word_le_nat_alt add)
    with False show ?thesis by (subst alloc_scan.simps) simp
  next
    case True
    then have fits: "unat lo + unat n \<le> unat (total_pages s)" by (simp add: word_le_nat_alt add)
    have img: "(\<lambda>i. lo + i) ` set (u32_range 0 n) = block lo (unat n)"
      by (rule block_image) (use fits t in simp)
    show ?thesis
    proof (cases "find (\<lambda>i. bitmap_test (lo + i) s) (u32_range 0 n)")
      case None
      then have "run_free s lo (unat n)"
        unfolding run_free_def img [symmetric] by (auto simp: find_None_iff simp del: set_u32_range)
      with fits have "is_first_run s (unat lo) (unat n) (Some lo)" by (auto simp: is_first_run_def)
      with True None show ?thesis by (subst alloc_scan.simps) simp
    next
      case (Some i)
      note i = find_range_Some [OF Some]
      have f: "unat (lo + i) = unat lo + unat i"
        using i(1) fits t unat_add_small [of lo i] by (simp add: word_less_nat_alt)
      have nxt: "unat (lo + i + 1) = unat lo + unat i + 1"
        using unat_add_small [of "lo + i" 1] f i(1) fits t by (simp add: word_less_nat_alt)
      have "unat i < unat n" using i(1) by (simp add: word_less_nat_alt)
      then have "unat (lo + i + 1) \<le> unat (total_pages s)"
        "unat (total_pages s) - unat (lo + i + 1) < unat (total_pages s) - unat lo"
        using nxt fits assms(2) by auto
      then obtain r where r: "alloc_scan s n (lo + i + 1) = Some r"
        "is_first_run s (unat (lo + i + 1)) (unat n) r"
        using less.hyps by blast
      have skip: "unat lo + unat i + 1 \<le> unat c" if "unat lo \<le> unat c" "run_free s c (unat n)" for c
      proof (rule ccontr)
        assume "\<not> unat lo + unat i + 1 \<le> unat c"
        with f have "unat c \<le> unat (lo + i)" by simp
        with skip_ahead [OF i(2), of lo "unat n" c] that f \<open>unat i < unat n\<close> show False by simp
      qed
      have "is_first_run s (unat lo) (unat n) r"
      proof (cases r)
        case None
        with r(2) skip show ?thesis unfolding is_first_run_def nxt by auto
      next
        case (Some b)
        with r(2) have b: "unat lo + unat i + 1 \<le> unat b" "unat b + unat n \<le> unat (total_pages s)"
          "run_free s b (unat n)"
          "\<And>c. unat lo + unat i + 1 \<le> unat c \<Longrightarrow> unat c < unat b \<Longrightarrow> \<not> run_free s c (unat n)"
          unfolding is_first_run_def nxt by auto
        then have "\<not> run_free s c (unat n)" if "unat lo \<le> unat c" "unat c < unat b" for c
          using skip [OF that(1)] that(2) by blast
        with b Some show ?thesis by (simp add: is_first_run_def)
      qed
      with True Some r(1) show ?thesis by (subst alloc_scan.simps) simp
    qed
  qed
qed

lemma claim_loop:
  fixes s :: "'a mm_state_scheme" and b :: u32 and xs :: "u32 list"
  defines "t \<equiv> fold (\<lambda>i s. (bitmap_set (b + i) s)\<lparr>frame_refs := (frame_refs s)(b + i := 1)\<rparr>) xs s"
  shows "bitmap_test f t \<longleftrightarrow> f \<in> (\<lambda>i. b + i) ` set xs \<or> bitmap_test f s"
    and "frame_refs t f = (if f \<in> (\<lambda>i. b + i) ` set xs then 1 else frame_refs s f)"
    and "total_pages t = total_pages s" and "free_pages t = free_pages s" and "pmem t = pmem s"
    and "page_dir_phys t = page_dir_phys s" and "cr3 t = cr3 s"
  unfolding t_def by (induction xs arbitrary: s) auto

lemma mm_alloc_pages_none:
  assumes "mm_inv s" and "n = 0 \<or> unat (total_pages s) < unat n \<or>
    (\<forall>b. unat b + unat n \<le> unat (total_pages s) \<longrightarrow> \<not> run_free s b (unat n))"
  shows "mm_alloc_pages n s = Some (0, s)"
proof (cases "n = 0 \<or> n > total_pages s \<or> free_pages s < n")
  case True
  then show ?thesis by (simp add: mm_alloc_pages_def)
next
  case False
  then have "0 < unat n" "unat n \<le> unat (total_pages s)"
    by (auto simp: word_less_nat_alt unat_gt_0 not_less)
  with alloc_scan_spec [OF assms(1), of n 0] obtain r where
    r: "alloc_scan s n 0 = Some r" "is_first_run s 0 (unat n) r" by auto
  have "r = None"
    using r(2) assms(2) False by (cases r) (auto simp: is_first_run_def word_less_nat_alt)
  with r False show ?thesis by (simp add: mm_alloc_pages_def)
qed

lemma run_free_card:
  assumes "run_free s b n" and "unat b + n \<le> unat (total_pages s)" and "mm_inv s"
  shows "block b n \<subseteq> free_set s" and "n \<le> unat (free_pages s)"
proof -
  show sub: "block b n \<subseteq> free_set s"
    using assms(1,2) by (auto simp: run_free_def free_set_def block_def word_less_nat_alt)
  have "card (block b n) = n"
    by (rule card_block) (use assms(2) unat_u32_lt [of "total_pages s"] in linarith)
  then show "n \<le> unat (free_pages s)"
    using card_mono [OF finite_u32 sub] assms(3) by (simp add: mm_inv_def)
qed

lemma mm_alloc_pages_some:
  assumes inv: "mm_inv s" and n: "0 < unat n"
    and ex: "unat b0 + unat n \<le> unat (total_pages s)" "run_free s b0 (unat n)"
  obtains b s' where "mm_alloc_pages n s = Some (b * PAGE_SIZE, s')"
    and "is_first_run s 0 (unat n) (Some b)" and "free_set s' = free_set s - block b (unat n)"
    and "mm_inv s'" and "pmem s' = pmem s" and "total_pages s' = total_pages s"
    and "page_dir_phys s' = page_dir_phys s" and "cr3 s' = cr3 s"
    and "\<And>f. frame_refs s' f = (if f \<in> block b (unat n) then 1 else frame_refs s f)"
    and "\<And>f. bitmap_test f s' \<longleftrightarrow> f \<in> block b (unat n) \<or> bitmap_test f s"
proof -
  have t: "unat (total_pages s) \<le> 262144" by (rule mm_inv_total [OF inv])
  obtain r where r: "alloc_scan s n 0 = Some r" "is_first_run s 0 (unat n) r"
    using alloc_scan_spec [OF inv n, of 0] ex by auto
  then obtain b where b: "r = Some b" using ex by (cases r) (auto simp: is_first_run_def)
  have fb: "unat b + unat n \<le> unat (total_pages s)" "run_free s b (unat n)"
    using r(2) b by (simp_all add: is_first_run_def)
  note fr = run_free_card [OF fb(2,1) inv]
  define s' where "s' = (claim_frames b n s)\<lparr>free_pages := free_pages s - n\<rparr>"
  have img: "(\<lambda>i. b + i) ` set (u32_range 0 n) = block b (unat n)"
    by (rule block_image) (use fb t in simp)
  have tst: "bitmap_test f s' \<longleftrightarrow> f \<in> block b (unat n) \<or> bitmap_test f s" for f
    using claim_loop(1) [of f b "u32_range 0 n" s] by (simp add: s'_def claim_frames_def img del: set_u32_range)
  have a: "mm_alloc_pages n s = Some (b * PAGE_SIZE, s')"
    using r(1) b n ex fr(2)
    by (auto simp: mm_alloc_pages_def s'_def Let_def word_less_nat_alt not_less unat_gt_0 claim_loop(4) claim_frames_def)
  have fs: "free_set s' = free_set s - block b (unat n)"
    by (auto simp: free_set_def tst) (simp_all add: s'_def claim_frames_def claim_loop)
  have "unat (free_pages s - n) = unat (free_pages s) - unat n"
    using fr(2) by (simp add: unat_sub word_le_nat_alt)
  moreover have "card (block b (unat n)) = unat n"
    by (rule card_block) (use fb t in simp)
  ultimately have inv': "mm_inv s'"
    using inv fr(1) by (simp add: mm_inv_def fs card_Diff_subset) (simp add: s'_def claim_frames_def claim_loop)
  show thesis
    by (rule that [OF a _ fs inv' _ _ _ _ _ tst])
      (use r(2) b in \<open>simp_all add: s'_def claim_frames_def claim_loop img del: set_u32_range\<close>)
qed

lemma mm_alloc_pages_cases:
  assumes "mm_inv s"
  obtains (fail) "mm_alloc_pages n s = Some (0, s)"
  | (ok) b s' where "0 < unat n" and "mm_alloc_pages n s = Some (b * PAGE_SIZE, s')"
    and "is_first_run s 0 (unat n) (Some b)" and "free_set s' = free_set s - block b (unat n)"
    and "mm_inv s'" and "pmem s' = pmem s" and "total_pages s' = total_pages s"
    and "\<And>f. frame_refs s' f = (if f \<in> block b (unat n) then 1 else frame_refs s f)"
    and "\<And>f. bitmap_test f s' \<longleftrightarrow> f \<in> block b (unat n) \<or> bitmap_test f s"
proof (cases "0 < unat n \<and> (\<exists>b. unat b + unat n \<le> unat (total_pages s) \<and> run_free s b (unat n))")
  case True
  then obtain b where b: "0 < unat n" "unat b + unat n \<le> unat (total_pages s)" "run_free s b (unat n)"
    by blast
  show thesis
    by (rule mm_alloc_pages_some [OF assms b], rule that(2) [OF b(1)]) (assumption | simp only:)+
next
  case False
  have "mm_alloc_pages n s = Some (0, s)"
    by (rule mm_alloc_pages_none [OF assms]) (use False in \<open>auto simp: unat_gt_0\<close>)
  with that(1) show thesis by blast
qed

lemma mm_alloc_pages_inv [inv_pres]:
  assumes "mm_inv s" and "mm_alloc_pages n s = Some (a, s')"
  shows "mm_inv s'"
  using assms(1) by (cases rule: mm_alloc_pages_cases [of s n]) (use assms in auto)

section \<open>Reservation\<close>

lemma reserve_loop:
  "bitmap_test f (fold (\<lambda>f s. (bitmap_set f s)\<lparr>free_pages := free_pages s - 1\<rparr>) xs s) \<longleftrightarrow>
     f \<in> set xs \<or> bitmap_test f s"
  by (induction xs arbitrary: s) auto

lemma reserve_loop_inv:
  assumes "mm_inv s" and "distinct xs" and "set xs \<subseteq> free_set s"
  shows "mm_inv (fold (\<lambda>f s. (bitmap_set f s)\<lparr>free_pages := free_pages s - 1\<rparr>) xs s)"
  using assms
proof (induction xs arbitrary: s)
  case (Cons f xs)
  let ?s = "(bitmap_set f s)\<lparr>free_pages := free_pages s - 1\<rparr>"
  have fs: "free_set ?s = free_set s - {f}" by (simp add: free_set_bitmap_set)
  have c: "unat (free_pages s) = card (free_set s)" using Cons.prems(1) by (simp add: mm_inv_def)
  have "0 < card (free_set s)" using Cons.prems(3) by (auto simp: card_gt_0_iff)
  then have "unat (free_pages s - 1) = unat (free_pages s) - 1"
    using c by (simp add: unat_sub word_le_nat_alt)
  then have "mm_inv ?s" using Cons.prems c by (simp add: mm_inv_def free_set_bitmap_set)
  moreover have "set xs \<subseteq> free_set ?s" using Cons.prems fs by auto
  ultimately show ?case using Cons.IH [of ?s] Cons.prems(2) by simp
qed simp

lemma reserve_range_free:
  assumes "hi \<le> total_pages s" and "\<not> list_ex (\<lambda>f. bitmap_test f s) (u32_range lo hi)"
  shows "set (u32_range lo hi) \<subseteq> free_set s"
  using assms by (auto simp: list_ex_iff free_set_def)

lemma mm_reserve_range_inv [inv_pres]:
  "mm_inv s \<Longrightarrow> mm_inv (snd (mm_reserve_range a b s))"
  using reserve_range_free [of "(b - 1) div PAGE_SIZE + 1" s "a div PAGE_SIZE"]
  by (auto simp: mm_reserve_range_def Let_def not_less simp del: set_u32_range intro!: reserve_loop_inv)

section \<open>Releasing a run\<close>

lemma unref_loop:
  assumes "distinct xs" and "inj_on g (set xs)"
  shows "bitmap_test f (fold (\<lambda>i. page_unref (g i)) xs s) \<longleftrightarrow>
      bitmap_test f s \<and> \<not> (f \<in> g ` set xs \<and> f < total_pages s \<and> frame_refs s f \<le> 1)"
    and "f \<notin> g ` set xs \<Longrightarrow> frame_refs (fold (\<lambda>i. page_unref (g i)) xs s) f = frame_refs s f"
    and "total_pages (fold (\<lambda>i. page_unref (g i)) xs s) = total_pages s"
  using assms
proof (induction xs arbitrary: s)
  case (Cons x xs)
  {
    case 1
    then have "g x \<notin> g ` set xs" by (auto simp: inj_on_def)
    with 1 Cons.IH(1) [of "page_unref (g x) s"] show ?case
      by (auto simp: page_unref_test page_unref_refs inj_on_def)
  next
    case 2
    with Cons.IH(2) [of "page_unref (g x) s"] show ?case
      by (auto simp: page_unref_refs inj_on_def)
  next
    case 3
    with Cons.IH(3) [of "page_unref (g x) s"] show ?case by (simp add: inj_on_def)
  }
qed simp_all

section \<open>The allocator contract\<close>

definition frames_region :: "u32 \<Rightarrow> u32 \<Rightarrow> u32 set" where
  "frames_region a n = block (a div PAGE_SIZE) (unat n)"

definition frames_live :: "'a mm_state_scheme \<Rightarrow> u32 \<Rightarrow> u32 \<Rightarrow> bool" where
  "frames_live s a n \<longleftrightarrow> a AND (PAGE_SIZE - 1) = 0 \<and> a div PAGE_SIZE \<noteq> 0 \<and> n \<noteq> 0 \<and>
     unat (a div PAGE_SIZE) + unat n \<le> unat (total_pages s) \<and>
     (\<forall>f \<in> frames_region a n. bitmap_test f s \<and> frame_refs s f = 1)"

text \<open>Frame 0 belongs to the kernel image: it is in use from the start, so address 0 is never a
  successful result.\<close>

definition frames_inv :: "'a mm_state_scheme \<Rightarrow> bool" where
  "frames_inv s \<longleftrightarrow> mm_inv s \<and> bitmap_test 0 s"

lemma frames_release:
  assumes "frames_inv s" and "frames_live s a n"
  shows "bitmap_test f (mm_free_pages a n s) \<longleftrightarrow> bitmap_test f s \<and> f \<notin> frames_region a n"
    and "f \<notin> frames_region a n \<Longrightarrow> frame_refs (mm_free_pages a n s) f = frame_refs s f"
    and "total_pages (mm_free_pages a n s) = total_pages s"
    and "frames_inv (mm_free_pages a n s)"
proof -
  let ?b = "a div PAGE_SIZE"
  have t: "unat (total_pages s) \<le> 262144" using assms(1) mm_inv_total by (auto simp: frames_inv_def)
  have fit: "unat ?b + unat n \<le> unat (total_pages s)" and n: "n \<noteq> 0"
    using assms(2) by (simp_all add: frames_live_def)
  then have add: "unat (?b + n) = unat ?b + unat n"
    using t unat_add_small [of ?b n] by simp
  have "0 < unat n" using n by (simp add: unat_gt_0)
  then have e: "mm_free_pages a n s = fold (\<lambda>i. page_unref (?b + i)) (u32_range 0 n) s"
    using assms(2) fit n add
    by (simp add: mm_free_pages_def Let_def frames_live_def word_le_nat_alt word_less_nat_alt)
  have img: "(\<lambda>i. ?b + i) ` set (u32_range 0 n) = frames_region a n"
    unfolding frames_region_def by (rule block_image) (use fit t in simp)
  have inj: "inj_on (\<lambda>i. ?b + i) (set (u32_range 0 n))" by (simp add: inj_on_def)
  have lt: "g < total_pages s" if "g \<in> frames_region a n" for g
    using that fit by (auto simp: frames_region_def block_def word_less_nat_alt)
  note loop = unref_loop [OF distinct_u32_range inj, unfolded img]
  show tst: "bitmap_test f (mm_free_pages a n s) \<longleftrightarrow> bitmap_test f s \<and> f \<notin> frames_region a n" for f
    unfolding e loop(1) using assms(2) lt by (auto simp: frames_live_def)
  show "f \<notin> frames_region a n \<Longrightarrow> frame_refs (mm_free_pages a n s) f = frame_refs s f"
    unfolding e by (rule loop(2))
  show "total_pages (mm_free_pages a n s) = total_pages s" unfolding e by (rule loop(3))
  have "0 \<notin> frames_region a n"
    using assms(2) by (auto simp: frames_region_def block_def frames_live_def unat_eq_0)
  with assms(1) tst show "frames_inv (mm_free_pages a n s)"
    by (simp add: frames_inv_def mm_free_pages_inv)
qed

lemma frames_alloc:
  assumes "frames_inv s" and "mm_alloc_pages n s = Some (a, s')"
  shows "frames_inv s'" and "frames_live s c m \<Longrightarrow> frames_live s' c m"
    and "a \<noteq> 0 \<Longrightarrow> frames_live s' a n"
    and "a \<noteq> 0 \<Longrightarrow> frames_live s c m \<Longrightarrow> frames_region a n \<inter> frames_region c m = {}"
proof -
  have inv: "mm_inv s" "bitmap_test 0 s" using assms(1) by (simp_all add: frames_inv_def)
  have "frames_inv s' \<and> (frames_live s c m \<longrightarrow> frames_live s' c m) \<and>
      (a \<noteq> 0 \<longrightarrow> frames_live s' a n \<and> (frames_live s c m \<longrightarrow> frames_region a n \<inter> frames_region c m = {}))"
    using inv(1)
  proof (cases rule: mm_alloc_pages_cases [of s n])
    case fail
    with assms show ?thesis by simp
  next
    case (ok b t)
    have a: "a = b * PAGE_SIZE" "s' = t" using ok(2) assms(2) by simp_all
    have fb: "unat b + unat n \<le> unat (total_pages s)" "run_free s b (unat n)"
      using ok(3) by (simp_all add: is_first_run_def)
    have bl: "unat b < 1048576" using fb ok(1) mm_inv_total [OF inv(1)] by simp
    have reg: "frames_region a n = block b (unat n)"
      using frame_addr_div(1) [OF bl] by (simp add: frames_region_def a)
    have "b \<noteq> 0" using fb(2) inv(2) ok(1) by (auto simp: run_free_def block_def)
    moreover have "a AND (PAGE_SIZE - 1) = 0"
      using frame_addr_div(3) [OF bl] by (simp add: PAGE_SIZE_def and_fff a word_unat_eq_iff unat_mod)
    moreover have "a div PAGE_SIZE = b" using frame_addr_div(1) [OF bl] by (simp add: a)
    moreover have "\<forall>f \<in> frames_region a n. bitmap_test f s' \<and> frame_refs s' f = 1"
      unfolding reg a(2) using ok(8,9) by simp
    ultimately have "frames_live s' a n"
      using ok(1,7) fb(1) by (simp add: frames_live_def a(2) unat_gt_0)
    moreover have "frames_region a n \<inter> frames_region c m = {}" if "frames_live s c m"
      using that fb(2) unfolding frames_live_def run_free_def reg by blast
    moreover have "frames_live s' c m" if "frames_live s c m"
      using that ok(7-9) unfolding frames_live_def a(2) by simp
    moreover have "frames_inv s'" using ok(5,9) inv(2) by (simp add: frames_inv_def a(2))
    ultimately show ?thesis by blast
  qed
  then show "frames_inv s'" and "frames_live s c m \<Longrightarrow> frames_live s' c m"
    and "a \<noteq> 0 \<Longrightarrow> frames_live s' a n"
    and "a \<noteq> 0 \<Longrightarrow> frames_live s c m \<Longrightarrow> frames_region a n \<inter> frames_region c m = {}"
    by blast+
qed

interpretation frames: allocator frames_inv frames_live frames_region mm_alloc_pages mm_free_pages
proof
  fix s :: "'a mm_state_scheme" and s' a n c m
  show "\<exists>a s'. mm_alloc_pages n s = Some (a, s')" if "frames_inv s"
  proof -
    from that have "mm_inv s" by (simp add: frames_inv_def)
    then show ?thesis by (cases rule: mm_alloc_pages_cases [of s n]) blast+
  qed
  show "frames_inv s'" if "frames_inv s" "mm_alloc_pages n s = Some (a, s')"
    using frames_alloc(1) [OF that] .
  show "frames_live s' c m" if "frames_inv s" "mm_alloc_pages n s = Some (a, s')" "frames_live s c m"
    using frames_alloc(2) [OF that(1,2)] that(3) .
  show "frames_live s' a n" if "frames_inv s" "mm_alloc_pages n s = Some (a, s')" "a \<noteq> 0"
    using frames_alloc(3) [OF that] .
  show "frames_region a n \<inter> frames_region c m = {}"
    if "frames_inv s" "mm_alloc_pages n s = Some (a, s')" "a \<noteq> 0" "frames_live s c m"
    using frames_alloc(4) [OF that] .
  show "frames_inv (mm_free_pages a n s)" if "frames_inv s" "frames_live s a n"
    using frames_release(4) [OF that] .
  show "frames_live (mm_free_pages a n s) c m"
    if l: "frames_inv s" "frames_live s a n" "frames_live s c m"
      and d: "frames_region a n \<inter> frames_region c m = {}"
  proof -
    have "f \<notin> frames_region a n" if "f \<in> frames_region c m" for f using that d by blast
    with l(3) frames_release [OF l(1,2)] show ?thesis by (simp add: frames_live_def)
  qed
qed

section \<open>Sequences of operations\<close>

datatype mm_op = AllocPage | FreePage u32 | AllocPages u32 | FreePages u32 u32 | Reserve u32 u32
  | RefInc u32 | Unref u32

fun mm_step :: "mm_op \<Rightarrow> 'a mm_state_scheme \<Rightarrow> 'a mm_state_scheme option" where
  "mm_step AllocPage s = Some (snd (mm_alloc_page s))"
| "mm_step (FreePage a) s = Some (mm_free_page a s)"
| "mm_step (AllocPages n) s = map_option snd (mm_alloc_pages n s)"
| "mm_step (FreePages a n) s = Some (mm_free_pages a n s)"
| "mm_step (Reserve a b) s = Some (snd (mm_reserve_range a b s))"
| "mm_step (RefInc a) s = Some (mm_page_ref_inc a s)"
| "mm_step (Unref f) s = Some (page_unref f s)"

fun mm_steps :: "mm_op list \<Rightarrow> 'a mm_state_scheme \<Rightarrow> 'a mm_state_scheme option" where
  "mm_steps [] s = Some s"
| "mm_steps (p # ps) s = (case mm_step p s of None \<Rightarrow> None | Some s \<Rightarrow> mm_steps ps s)"

lemma mm_step_inv:
  assumes "mm_inv s"
  shows "\<exists>s'. mm_step p s = Some s' \<and> mm_inv s'"
proof (cases p)
  case (AllocPages n)
  show ?thesis using assms
    by (cases rule: mm_alloc_pages_cases [of s n]) (auto simp: AllocPages assms)
qed (use assms in \<open>auto intro: inv_pres\<close>)

lemma mm_steps_inv:
  "mm_inv s \<Longrightarrow> \<exists>s'. mm_steps ps s = Some s' \<and> mm_inv s'"
proof (induction ps arbitrary: s)
  case (Cons p ps)
  obtain t where "mm_step p s = Some t" "mm_inv t" using mm_step_inv [OF Cons.prems] by blast
  with Cons.IH [of t] show ?case by simp
qed simp

section \<open>Properties\<close>

text \<open>A machine with four frames, the first two in use.\<close>

definition mm_small :: mm_state where
  "mm_small = \<lparr>bitmap = (\<lambda>i. if i = 0 then 3 else 0), total_pages = 4, free_pages = 2,
     frame_refs = (\<lambda>_. 0), mmap_region_count = 0, reported_mem_upper_kb = 0,
     page_dir_phys = 0, cr3 = 0, pmem = (\<lambda>_. 0)\<rparr>"

lemma small_frames: "(f::u32) < 4 \<longleftrightarrow> f = 0 \<or> f = 1 \<or> f = 2 \<or> f = 3"
proof -
  have "f \<in> set (u32_range 0 4) \<longleftrightarrow> f = 0 \<or> f = 1 \<or> f = 2 \<or> f = 3"
    by (simp add: u32_range_def upt_conv_Cons del: set_u32_range)
  then show ?thesis by simp
qed

lemma mm_small_free: "free_set mm_small = {2, 3}"
  by (auto simp: free_set_def bitmap_test_def mm_small_def small_frames)

lemma mm_small_inv: "mm_inv mm_small" "frames_inv mm_small"
proof -
  show "mm_inv mm_small"
    by (simp add: mm_inv_def mm_small_free) (simp add: mm_small_def MM_MAX_PAGES_def)
  then show "frames_inv mm_small" by (simp add: frames_inv_def bitmap_test_def mm_small_def)
qed

text \<open>C18: The search that skips full 32-frame words returns the lowest free frame, and all ones
  exactly when no frame is free.\<close>

theorem find_first_free_correct:
  assumes "mm_inv s"
  shows "if bitmap_find_first_free s = - 1 then free_set s = {}
    else bitmap_find_first_free s \<in> free_set s \<and> (\<forall>f. f \<in> free_set s \<longrightarrow> bitmap_find_first_free s \<le> f)"
  using find_first_free_spec [OF assms] by (auto simp: is_first_free_def)

theorem find_first_free_correct_witness: "bitmap_find_first_free mm_small = 2"
  using find_first_free_correct [OF mm_small_inv(1)]
  by (auto simp: mm_small_free split: if_splits)

text \<open>C16: \<^verbatim>\<open>mm_alloc_pages\<close> always returns.  It fails exactly when no run of that many free
  frames exists, and then changes nothing; otherwise it takes the lowest such run although its
  search skips ahead, marks exactly those frames used with one reference each, and lowers the
  free count by their number.\<close>

theorem mm_alloc_pages_first_fit:
  assumes "mm_inv s"
  shows "(mm_alloc_pages n s = Some (0, s) \<and>
      (n = 0 \<or> (\<forall>b. unat b + unat n \<le> unat (total_pages s) \<longrightarrow> \<not> run_free s b (unat n)))) \<or>
    (\<exists>b s'. mm_alloc_pages n s = Some (b * PAGE_SIZE, s') \<and> is_first_run s 0 (unat n) (Some b) \<and>
      free_set s' = free_set s - block b (unat n) \<and>
      unat (free_pages s') = unat (free_pages s) - unat n \<and>
      (\<forall>f. frame_refs s' f = (if f \<in> block b (unat n) then 1 else frame_refs s f)))"
proof (cases "n \<noteq> 0 \<and> (\<exists>b. unat b + unat n \<le> unat (total_pages s) \<and> run_free s b (unat n))")
  case True
  then obtain b0 where b0: "0 < unat n" "unat b0 + unat n \<le> unat (total_pages s)"
    "run_free s b0 (unat n)" by (auto simp: unat_gt_0)
  obtain b s' where b: "mm_alloc_pages n s = Some (b * PAGE_SIZE, s')"
    "is_first_run s 0 (unat n) (Some b)" "free_set s' = free_set s - block b (unat n)" "mm_inv s'"
    "\<forall>f. frame_refs s' f = (if f \<in> block b (unat n) then 1 else frame_refs s f)"
    by (rule mm_alloc_pages_some [OF assms b0]) blast
  have r: "unat b + unat n \<le> unat (total_pages s)" "run_free s b (unat n)"
    using b(2) by (simp_all add: is_first_run_def)
  have "card (block b (unat n)) = unat n"
    by (rule card_block) (use r unat_u32_lt [of "total_pages s"] in linarith)
  then have "unat (free_pages s') = unat (free_pages s) - unat n"
    using b(3,4) assms run_free_card(1) [OF r(2,1) assms] by (simp add: mm_inv_def card_Diff_subset)
  with b show ?thesis by blast
next
  case False
  then have "mm_alloc_pages n s = Some (0, s)" by (intro mm_alloc_pages_none [OF assms]) blast
  with False show ?thesis by blast
qed

theorem mm_alloc_pages_first_fit_witness:
  "(mm_alloc_pages 2 mm_small = Some (0, mm_small) \<and>
      ((2::u32) = 0 \<or> (\<forall>b. unat b + unat (2::u32) \<le> unat (total_pages mm_small) \<longrightarrow>
        \<not> run_free mm_small b (unat (2::u32))))) \<or>
    (\<exists>b s'. mm_alloc_pages 2 mm_small = Some (b * PAGE_SIZE, s') \<and>
      is_first_run mm_small 0 (unat (2::u32)) (Some b) \<and>
      free_set s' = free_set mm_small - block b (unat (2::u32)) \<and>
      unat (free_pages s') = unat (free_pages mm_small) - unat (2::u32) \<and>
      (\<forall>f. frame_refs s' f = (if f \<in> block b (unat (2::u32)) then 1 else frame_refs mm_small f)))"
  by (rule mm_alloc_pages_first_fit [OF mm_small_inv(1)])

text \<open>C17: Every sequence of allocations, releases, reservations and reference-count changes, on
  any addresses, returns and leaves the free counter equal to the number of free frames.\<close>

theorem mm_accounting:
  assumes "mm_inv s"
  shows "\<exists>s'. mm_steps ps s = Some s' \<and> mm_inv s' \<and>
    unat (mm_get_free_pages s') = card (free_set s')"
  using mm_steps_inv [OF assms, of ps] by (auto simp: mm_get_free_pages_def mm_inv_def)

theorem mm_accounting_witness:
  "\<exists>s'. mm_steps [AllocPage, FreePage 8192, FreePage 8192, AllocPages 2] mm_small = Some s' \<and>
    mm_inv s' \<and> unat (mm_get_free_pages s') = card (free_set s')"
  by (rule mm_accounting [OF mm_small_inv(1)])

text \<open>C15: For every sequence of requests and releases of frame runs by clients that release only
  what they own, the runs owned at the end are pairwise disjoint.\<close>

theorem frames_never_overlap:
  assumes "frames_inv s"
  shows "\<exists>s' own. alloc_run mm_alloc_pages mm_free_pages ops s [] = Some (s', own) \<and>
    (\<forall>i j. i < j \<longrightarrow> j < length own \<longrightarrow>
      frames_region (fst (own ! i)) (snd (own ! i)) \<inter> frames_region (fst (own ! j)) (snd (own ! j)) = {})"
  by (rule frames.run_from_empty [OF assms])

theorem frames_never_overlap_witness:
  "\<exists>s' own. alloc_run mm_alloc_pages mm_free_pages [Request 1, Request 1, Release 0, Request 1]
      mm_small [] = Some (s', own) \<and>
    (\<forall>i j. i < j \<longrightarrow> j < length own \<longrightarrow>
      frames_region (fst (own ! i)) (snd (own ! i)) \<inter> frames_region (fst (own ! j)) (snd (own ! j)) = {})"
  by (rule frames_never_overlap [OF mm_small_inv(2)])

text \<open>\<^verbatim>\<open>mm_reserve_range\<close> is all or nothing: it succeeds exactly when the page-rounded range
  is not empty, lies in RAM and is entirely free, and then marks exactly that range; otherwise
  the state is unchanged.\<close>

theorem mm_reserve_all_or_nothing:
  "case mm_reserve_range a b s of (ok, s') \<Rightarrow>
     (ok \<longleftrightarrow> a < b \<and> a div PAGE_SIZE < total_pages s \<and> (b - 1) div PAGE_SIZE + 1 \<le> total_pages s \<and>
        (\<forall>f. a div PAGE_SIZE \<le> f \<and> f < (b - 1) div PAGE_SIZE + 1 \<longrightarrow> \<not> bitmap_test f s)) \<and>
     (if ok then \<forall>f. bitmap_test f s' \<longleftrightarrow>
          bitmap_test f s \<or> (a div PAGE_SIZE \<le> f \<and> f < (b - 1) div PAGE_SIZE + 1)
      else s' = s)"
  by (auto simp: mm_reserve_range_def Let_def reserve_loop list_ex_iff not_le not_less)
    (metis linorder_not_less)

theorem mm_reserve_all_or_nothing_witness:
  "case mm_reserve_range 8192 12288 mm_small of (ok, s') \<Rightarrow>
     (ok \<longleftrightarrow> (8192::u32) < 12288 \<and> 8192 div PAGE_SIZE < total_pages mm_small \<and>
        (12288 - 1) div PAGE_SIZE + 1 \<le> total_pages mm_small \<and>
        (\<forall>f. 8192 div PAGE_SIZE \<le> f \<and> f < (12288 - 1) div PAGE_SIZE + 1 \<longrightarrow> \<not> bitmap_test f mm_small)) \<and>
     (if ok then \<forall>f. bitmap_test f s' \<longleftrightarrow>
          bitmap_test f mm_small \<or> (8192 div PAGE_SIZE \<le> f \<and> f < (12288 - 1) div PAGE_SIZE + 1)
      else s' = mm_small)"
  by (rule mm_reserve_all_or_nothing)

end
