(* ===== verification/Kheap.thy ===== *)
theory Kheap
  imports Frames Kstring
begin

text \<open>
  The kernel heap, \<^verbatim>\<open>src/kheap.c\<close>: a chain of blocks, each a 16-byte header followed by its
  payload, kept in the byte memory itself.  \<open>kmalloc\<close>, \<open>kfree\<close> and \<open>kcalloc\<close> read and write
  the headers through \<open>load32\<close> and \<open>store32\<close>.  The abstract heap is a list of block sizes
  with a used flag; the memory operations refine first-fit with splitting and free with
  coalescing on that list, and they never touch the payload of a live block.
\<close>

section \<open>State\<close>

record kheap_state = mm_state +
  heap_start :: u32
  heap_size :: u32

definition KHEAP_PAGES :: u32 where "KHEAP_PAGES = 256"
definition KHEAP_MAGIC :: u32 where "KHEAP_MAGIC = 0x4B48454F"
definition KHEAP_HEADER :: u32 where "KHEAP_HEADER = 16"

definition ALIGN16 :: "u32 \<Rightarrow> u32" where
  "ALIGN16 x = (x + 15) AND NOT 15"

text \<open>The fields of \<^verbatim>\<open>kheap_block_t\<close> at address \<open>p\<close>.\<close>

definition blk_magic :: "u32 \<Rightarrow> 'a mm_state_scheme \<Rightarrow> u32" where
  "blk_magic p s = load32 (pmem s) p"

definition blk_size :: "u32 \<Rightarrow> 'a mm_state_scheme \<Rightarrow> u32" where
  "blk_size p s = load32 (pmem s) (p + 4)"

definition blk_used :: "u32 \<Rightarrow> 'a mm_state_scheme \<Rightarrow> u32" where
  "blk_used p s = load32 (pmem s) (p + 8)"

definition set_blk_size :: "u32 \<Rightarrow> u32 \<Rightarrow> 'a mm_state_scheme \<Rightarrow> 'a mm_state_scheme" where
  "set_blk_size p v s = s\<lparr>pmem := store32 (pmem s) (p + 4) v\<rparr>"

definition set_blk_used :: "u32 \<Rightarrow> u32 \<Rightarrow> 'a mm_state_scheme \<Rightarrow> 'a mm_state_scheme" where
  "set_blk_used p v s = s\<lparr>pmem := store32 (pmem s) (p + 8) v\<rparr>"

text \<open>Writing a whole free header.\<close>

definition new_block :: "u32 \<Rightarrow> u32 \<Rightarrow> 'a mm_state_scheme \<Rightarrow> 'a mm_state_scheme" where
  "new_block p sz s =
     s\<lparr>pmem := store32 (store32 (store32 (store32 (pmem s) p KHEAP_MAGIC) (p + 4) sz)
        (p + 8) 0) (p + 12) 0\<rparr>"

section \<open>Operations\<close>

definition kheap_init :: "'a kheap_state_scheme \<Rightarrow> 'a kheap_state_scheme option" where
  "kheap_init s =
     (case mm_alloc_pages KHEAP_PAGES s of
        None \<Rightarrow> None
      | Some (mem, s) \<Rightarrow>
          if mem = 0 then Some s
          else let s = s\<lparr>heap_start := mem, heap_size := KHEAP_PAGES * PAGE_SIZE\<rparr>
               in Some (new_block (heap_start s) (heap_size s - KHEAP_HEADER) s))"

definition kheap_ready :: "'a kheap_state_scheme \<Rightarrow> bool" where
  "kheap_ready s \<longleftrightarrow> heap_start s \<noteq> 0"

text \<open>Taking a free block: split when the rest can hold a header and 16 bytes.\<close>

definition take_block :: "u32 \<Rightarrow> u32 \<Rightarrow> 'a kheap_state_scheme \<Rightarrow> u32 \<times> 'a kheap_state_scheme" where
  "take_block p need s =
     (let s = (if blk_size p s \<ge> need + KHEAP_HEADER + 16
               then set_blk_size p need
                      (new_block (p + KHEAP_HEADER + need)
                         (blk_size p s - need - KHEAP_HEADER) s)
               else s)
      in (p + KHEAP_HEADER, set_blk_used p 1 s))"

text \<open>The search loop of \<^verbatim>\<open>kmalloc\<close>; a corrupted chain may make it run forever.\<close>

partial_function (option) kmalloc_scan ::
  "u32 \<Rightarrow> 'a kheap_state_scheme \<Rightarrow> u32 \<Rightarrow> (u32 \<times> 'a kheap_state_scheme) option" where
  "kmalloc_scan need s p =
     (if p + KHEAP_HEADER \<le> heap_start s + heap_size s
      then if blk_magic p s \<noteq> KHEAP_MAGIC then Some (0, s)
           else if blk_used p s = 0 \<and> blk_size p s \<ge> need then Some (take_block p need s)
           else kmalloc_scan need s (p + (KHEAP_HEADER + blk_size p s))
      else Some (0, s))"

definition kmalloc :: "u32 \<Rightarrow> 'a kheap_state_scheme \<Rightarrow> (u32 \<times> 'a kheap_state_scheme) option" where
  "kmalloc sz s =
     (if heap_start s = 0 then Some (0, s)
      else let sz = (if sz = 0 then 1 else sz);
               need = ALIGN16 sz
           in if need < sz then Some (0, s)
              else kmalloc_scan need s (heap_start s))"

text \<open>Forward coalescing: \<open>b\<close> swallows the free blocks that follow it.\<close>

partial_function (option) coalesce_fwd ::
  "u32 \<Rightarrow> 'a kheap_state_scheme \<Rightarrow> u32 \<Rightarrow> 'a kheap_state_scheme option" where
  "coalesce_fwd b s nxt =
     (if nxt + KHEAP_HEADER \<le> heap_start s + heap_size s
      then if blk_magic nxt s \<noteq> KHEAP_MAGIC \<or> blk_used nxt s \<noteq> 0 then Some s
           else coalesce_fwd b (set_blk_size b (blk_size b s + (KHEAP_HEADER + blk_size nxt s)) s)
                  (nxt + (KHEAP_HEADER + blk_size nxt s))
      else Some s)"

text \<open>Backward coalescing: walk from the start to the block before \<open>b\<close>.\<close>

partial_function (option) coalesce_back ::
  "u32 \<Rightarrow> 'a kheap_state_scheme \<Rightarrow> u32 \<Rightarrow> 'a kheap_state_scheme option" where
  "coalesce_back b s cur =
     (if cur + KHEAP_HEADER \<le> heap_start s + heap_size s \<and> cur < b
      then if blk_magic cur s \<noteq> KHEAP_MAGIC then Some s
           else let nxt = cur + KHEAP_HEADER + blk_size cur s
                in if nxt = b
                   then Some (if blk_used cur s = 0
                              then set_blk_size cur (blk_size cur s + (KHEAP_HEADER + blk_size b s)) s
                              else s)
                   else coalesce_back b s nxt
      else Some s)"

definition kfree :: "u32 \<Rightarrow> 'a kheap_state_scheme \<Rightarrow> 'a kheap_state_scheme option" where
  "kfree p s =
     (if p = 0 \<or> heap_start s = 0 then Some s
      else if p < heap_start s + KHEAP_HEADER \<or> p \<ge> heap_start s + heap_size s then Some s
      else let b = p - KHEAP_HEADER
           in if blk_magic b s \<noteq> KHEAP_MAGIC then Some s
              else if blk_used b s = 0 then Some s
              else let s = set_blk_used b 0 s
                   in case coalesce_fwd b s (b + KHEAP_HEADER + blk_size b s) of
                        None \<Rightarrow> None
                      | Some s \<Rightarrow> coalesce_back b s (heap_start s))"

definition kcalloc ::
  "u32 \<Rightarrow> u32 \<Rightarrow> 'a kheap_state_scheme \<Rightarrow> (u32 \<times> 'a kheap_state_scheme) option" where
  "kcalloc num sz s =
     (let tot = ucast num * ucast sz :: u64
      in if tot > 0xFFFFFFFF then Some (0, s)
         else case kmalloc (ucast tot) s of
                None \<Rightarrow> None
              | Some (p, s) \<Rightarrow>
                  Some (p, if p \<noteq> 0 then s\<lparr>pmem := memset p 0 (ucast tot) (pmem s)\<rparr> else s))"

section \<open>The abstract heap\<close>

type_synonym blocks = "(nat \<times> bool) list"

text \<open>Blocks with their addresses.\<close>

fun layout :: "nat \<Rightarrow> blocks \<Rightarrow> (nat \<times> nat \<times> bool) list" where
  "layout a [] = []"
| "layout a ((n, u) # bs) = (a, n, u) # layout (a + 16 + n) bs"

text \<open>First fit with splitting; returns the block's address and the new list.\<close>

fun halloc :: "nat \<Rightarrow> nat \<Rightarrow> blocks \<Rightarrow> (nat \<times> blocks) option" where
  "halloc need a [] = None"
| "halloc need a ((n, u) # bs) =
     (if \<not> u \<and> need \<le> n
      then Some (a, if need + 32 \<le> n then (need, True) # (n - need - 16, False) # bs
                    else (n, True) # bs)
      else map_option (\<lambda>(p, bs'). (p, (n, u) # bs')) (halloc need (a + 16 + n) bs))"

fun hmerge :: "nat \<Rightarrow> blocks \<Rightarrow> blocks" where
  "hmerge n ((k, False) # bs) = hmerge (n + 16 + k) bs"
| "hmerge n bs = (n, False) # bs"

text \<open>Free a block of \<open>n\<close> bytes that has \<open>pre\<close> before it and \<open>post\<close> after it: merge it with
  the free blocks that follow, then into the block before it when that one is free.\<close>

definition merge_prev :: "blocks \<Rightarrow> nat \<Rightarrow> blocks \<Rightarrow> blocks" where
  "merge_prev pre k rest =
     (if pre = [] \<or> snd (last pre) then pre @ (k, False) # rest
      else butlast pre @ (fst (last pre) + 16 + k, False) # rest)"

definition hfree :: "blocks \<Rightarrow> nat \<Rightarrow> blocks \<Rightarrow> blocks" where
  "hfree pre n post = (case hmerge n post of [] \<Rightarrow> pre | (k, _) # rest \<Rightarrow> merge_prev pre k rest)"

text \<open>A header in memory, and the chain of headers from address \<open>a\<close> to the heap end \<open>e\<close>.\<close>

definition hdr :: "memory \<Rightarrow> nat \<Rightarrow> nat \<Rightarrow> bool \<Rightarrow> bool" where
  "hdr m a n u \<longleftrightarrow> load32 m (word_of_nat a) = KHEAP_MAGIC \<and>
     load32 m (word_of_nat (a + 4)) = word_of_nat n \<and>
     (load32 m (word_of_nat (a + 8)) \<noteq> 0 \<longleftrightarrow> u)"

fun chain :: "memory \<Rightarrow> nat \<Rightarrow> blocks \<Rightarrow> nat \<Rightarrow> bool" where
  "chain m a [] e \<longleftrightarrow> a = e"
| "chain m a ((n, u) # bs) e \<longleftrightarrow> hdr m a n u \<and> 16 \<le> n \<and> 16 dvd n \<and> chain m (a + 16 + n) bs e"

fun no_adjacent_free :: "blocks \<Rightarrow> bool" where
  "no_adjacent_free ((n, u) # (k, v) # bs) \<longleftrightarrow> (u \<or> v) \<and> no_adjacent_free ((k, v) # bs)"
| "no_adjacent_free _ \<longleftrightarrow> True"

lemmas hmerge_induct = hmerge.induct [case_names merge empty used]
lemmas naf_induct = no_adjacent_free.induct [case_names pair empty single]
lemmas naf_cases = no_adjacent_free.cases [case_names pair empty single]

section \<open>Geometry of a chain\<close>

lemma chain_le: "chain m a bs e \<Longrightarrow> a \<le> e"
  by (induction m a bs e rule: chain.induct) auto

lemma chain_layout:
  assumes "chain m a bs e" and "(b, n, u) \<in> set (layout a bs)"
  shows "a \<le> b \<and> b + 16 + n \<le> e \<and> 16 \<le> n \<and> 16 dvd n \<and> (16 dvd a \<longrightarrow> 16 dvd b)"
  using assms
proof (induction m a bs e rule: chain.induct)
  case (2 m a k v bs e)
  from 2 have c: "chain m (a + 16 + k) bs e" "16 \<le> k" "16 dvd k" by simp_all
  show ?case
  proof (cases "(b, n, u) = (a, k, v)")
    case True
    with c chain_le [OF c(1)] show ?thesis by simp
  next
    case False
    with 2 c have "a + 16 + k \<le> b \<and> b + 16 + n \<le> e \<and> 16 \<le> n \<and> 16 dvd n \<and>
      (16 dvd a + 16 + k \<longrightarrow> 16 dvd b)" by auto
    with c(3) show ?thesis by (simp add: dvd_add)
  qed
qed simp

text \<open>Different blocks of a chain do not overlap.\<close>

lemma layout_apart:
  assumes "chain m a bs e" and "(b, n, u) \<in> set (layout a bs)" and "(c, k, v) \<in> set (layout a bs)"
  shows "(b, n, u) = (c, k, v) \<or> b + 16 + n \<le> c \<or> c + 16 + k \<le> b"
  using assms
proof (induction m a bs e rule: chain.induct)
  case (2 m a k v bs e)
  then have c: "chain m (a + 16 + k) bs e" by simp
  from 2 chain_layout [OF c] show ?case by auto
qed simp

lemma hdr_cong:
  assumes "\<And>x. a \<le> x \<Longrightarrow> x < a + 12 \<Longrightarrow> m (word_of_nat x) = m' (word_of_nat x)"
  shows "hdr m a n u = hdr m' a n u"
proof -
  have "load32 m (word_of_nat (a + k)) = load32 m' (word_of_nat (a + k))" if "k \<le> 8" for k
    by (rule load32_cong) (use assms that in auto)
  from this [of 0] this [of 4] this [of 8] show ?thesis by (simp add: hdr_def)
qed

lemma chain_cong:
  assumes "chain m a bs e"
    and "\<And>b n u x. (b, n, u) \<in> set (layout a bs) \<Longrightarrow> b \<le> x \<Longrightarrow> x < b + 12 \<Longrightarrow>
      m (word_of_nat x) = m' (word_of_nat x)"
  shows "chain m' a bs e"
  using assms
proof (induction m a bs e rule: chain.induct)
  case (2 m a n u bs e)
  have "m (word_of_nat x) = m' (word_of_nat x)" if "a \<le> x" "x < a + 12" for x
    using "2.prems"(2) [of a n u x] that by simp
  then have "hdr m' a n u" using "2.prems"(1) hdr_cong [of a m m' n u] by simp
  moreover have "chain m' (a + 16 + n) bs e"
    by (rule "2.IH") (use "2.prems" in auto)
  ultimately show ?case using "2.prems"(1) by simp
qed simp

lemma chain_unique:
  assumes "chain m a bs e" and "chain m a cs e" and "e < 4294967296"
  shows "bs = cs"
  using assms
proof (induction bs arbitrary: a cs)
  case Nil
  then show ?case using chain_le by (cases cs) fastforce+
next
  case (Cons b bs)
  obtain n u where b: "b = (n, u)" by force
  show ?case
  proof (cases cs)
    case Nil
    with Cons.prems b show ?thesis using chain_le by fastforce
  next
    case (Cons c cs')
    obtain k v where c: "c = (k, v)" by force
    have h: "hdr m a n u" "hdr m a k v" and r: "chain m (a + 16 + n) bs e" "chain m (a + 16 + k) cs' e"
      using Cons.prems Cons b c by auto
    from chain_le [OF r(1)] chain_le [OF r(2)] Cons.prems(3) have "n < 4294967296" "k < 4294967296"
      by simp_all
    with h have "n = k" "u = v" by (auto simp: hdr_def word_of_nat_u32_eq)
    with Cons.IH [OF r(1)] r(2) Cons.prems(3) Cons b c show ?thesis by simp
  qed
qed

section \<open>Search\<close>

text \<open>Reading a header through the state.\<close>

lemma blk_hdr:
  assumes "hdr (pmem s) a n u"
  shows "blk_magic (word_of_nat a) s = KHEAP_MAGIC" "blk_size (word_of_nat a) s = word_of_nat n"
    "blk_used (word_of_nat a) s = 0 \<longleftrightarrow> \<not> u"
  using assms by (auto simp: hdr_def blk_magic_def blk_size_def blk_used_def add.commute)

lemma kmalloc_scan_refines:
  assumes "chain (pmem s) a bs e" and "heap_start s + heap_size s = word_of_nat e"
    and "e + 16 < 4294967296"
  shows "kmalloc_scan need s (word_of_nat a) =
    (case halloc (unat need) a bs of
       None \<Rightarrow> Some (0, s)
     | Some (p, bs') \<Rightarrow> Some (take_block (word_of_nat p) need s))"
  using assms(1)
proof (induction bs arbitrary: a)
  case Nil
  then have "\<not> word_of_nat a + KHEAP_HEADER \<le> (word_of_nat e :: u32)"
    using assms(3) unat_add_small [of "word_of_nat e" 16]
    by (simp add: KHEAP_HEADER_def word_le_nat_alt)
  then show ?case by (subst kmalloc_scan.simps) (simp add: assms(2))
next
  case (Cons b bs)
  obtain n u where b: "b = (n, u)" by force
  have h: "hdr (pmem s) a n u" and c: "chain (pmem s) (a + 16 + n) bs e"
    using Cons.prems b by simp_all
  have le: "a + 16 + n \<le> e" by (rule chain_le [OF c])
  have un: "unat (word_of_nat n :: u32) = n" using le assms(3) by simp
  have "unat (word_of_nat a + KHEAP_HEADER :: u32) = a + 16"
    using le assms(3) unat_add_small [of "word_of_nat a" 16] by (simp add: KHEAP_HEADER_def)
  then have fits: "word_of_nat a + KHEAP_HEADER \<le> (word_of_nat e :: u32)"
    using le assms(3) by (simp add: word_le_nat_alt)
  show ?case
  proof (cases "\<not> u \<and> unat need \<le> n")
    case True
    then show ?thesis using fits h un b
      by (subst kmalloc_scan.simps) (simp add: assms(2) blk_hdr [OF h] word_le_nat_alt)
  next
    case False
    then have "kmalloc_scan need s (word_of_nat a) = kmalloc_scan need s (word_of_nat (a + 16 + n))"
      using fits un
      by (subst kmalloc_scan.simps)
        (auto simp: assms(2) blk_hdr [OF h] word_le_nat_alt KHEAP_HEADER_def add.assoc)
    with Cons.IH [OF c] False b show ?thesis by (auto split: option.split)
  qed
qed

section \<open>Effect of the header writes\<close>

lemma field_addr:
  "word_of_nat a + 4 = (word_of_nat (a + 4) :: u32)" "word_of_nat a + 8 = (word_of_nat (a + 8) :: u32)"
  "word_of_nat a + 12 = (word_of_nat (a + 12) :: u32)"
  by simp_all

text \<open>Writing one field of a header.\<close>

lemma hdr_set_size:
  assumes "hdr m a n u" and "a + 16 < 4294967296"
  shows "hdr (store32 m (word_of_nat (a + 4)) (word_of_nat k)) a k u"
  using assms by (simp add: hdr_def load32_store32_apart del: of_nat_add)

lemma hdr_set_used:
  assumes "hdr m a n u" and "a + 16 < 4294967296"
  shows "hdr (store32 m (word_of_nat (a + 8)) v) a n (v \<noteq> 0)"
  using assms by (simp add: hdr_def load32_store32_apart del: of_nat_add)

definition store_hdr :: "memory \<Rightarrow> nat \<Rightarrow> nat \<Rightarrow> memory" where
  "store_hdr m a n = store32 (store32 (store32 (store32 m (word_of_nat a) KHEAP_MAGIC)
     (word_of_nat (a + 4)) (word_of_nat n)) (word_of_nat (a + 8)) 0) (word_of_nat (a + 12)) 0"

lemma hdr_store_hdr: "a + 16 < 4294967296 \<Longrightarrow> hdr (store_hdr m a n) a n False"
  by (simp add: hdr_def store_hdr_def load32_store32_apart del: of_nat_add)

lemma store_hdr_byte:
  "a + 16 < 4294967296 \<Longrightarrow> x < 4294967296 \<Longrightarrow> x < a \<or> a + 16 \<le> x \<Longrightarrow>
     store_hdr m a n (word_of_nat x) = m (word_of_nat x)"
  by (elim disjE) (simp_all add: store_hdr_def store32_byte del: of_nat_add)

lemma new_block_mem:
  "new_block (word_of_nat a) (word_of_nat n) s = s\<lparr>pmem := store_hdr (pmem s) a n\<rparr>"
  by (simp add: new_block_def store_hdr_def field_addr del: of_nat_add)

text \<open>The memory after taking the block at \<open>p\<close> of size \<open>n\<close> for a request of \<open>k\<close>.\<close>

definition taken :: "memory \<Rightarrow> nat \<Rightarrow> nat \<Rightarrow> nat \<Rightarrow> memory" where
  "taken m p n k =
     store32 (if k + 32 \<le> n then store32 (store_hdr m (p + 16 + k) (n - k - 16))
                (word_of_nat (p + 4)) (word_of_nat k) else m)
       (word_of_nat (p + 8)) 1"

lemma take_block_mem:
  assumes h: "hdr (pmem s) p n False" and k: "unat need \<le> n" and e: "p + 16 + n + 16 < 4294967296"
  shows "take_block (word_of_nat p) need s =
    (word_of_nat (p + 16), s\<lparr>pmem := taken (pmem s) p n (unat need)\<rparr>)"
proof -
  have un: "unat (word_of_nat n :: u32) = n" using e by simp
  have "need + 16 + 16 = need + 32" by simp
  moreover have "unat (need + 32) = unat need + 32"
    using unat_add_small [of need 32] k e by simp
  ultimately have "unat (need + 16 + 16) = unat need + 32" by (simp only:)
  then have c: "blk_size (word_of_nat p) s \<ge> need + KHEAP_HEADER + 16 \<longleftrightarrow> unat need + 32 \<le> n"
    by (simp add: blk_hdr [OF h] KHEAP_HEADER_def word_le_nat_alt un)
  have a: "word_of_nat p + KHEAP_HEADER + need = (word_of_nat (p + 16 + unat need) :: u32)"
    by (simp add: KHEAP_HEADER_def)
  have sz: "blk_size (word_of_nat p) s - need - KHEAP_HEADER = word_of_nat (n - unat need - 16)"
    if "unat need + 32 \<le> n"
    using that by (simp add: blk_hdr [OF h] KHEAP_HEADER_def of_nat_diff)
  have p: "word_of_nat p + KHEAP_HEADER = (word_of_nat (p + 16) :: u32)" by (simp add: KHEAP_HEADER_def)
  show ?thesis
  proof (cases "unat need + 32 \<le> n")
    case True
    have nb: "new_block (word_of_nat p + KHEAP_HEADER + need)
        (blk_size (word_of_nat p) s - need - KHEAP_HEADER) s =
        s\<lparr>pmem := store_hdr (pmem s) (p + 16 + unat need) (n - unat need - 16)\<rparr>"
      unfolding a sz [OF True] new_block_mem ..
    have "word_of_nat (unat need) = need" by simp
    with True show ?thesis
      unfolding take_block_def Let_def nb c
      by (simp only: p if_True taken_def set_blk_size_def set_blk_used_def field_addr) simp
  next
    case False
    then show ?thesis
      unfolding take_block_def Let_def
      by (simp only: c p if_False taken_def set_blk_used_def field_addr)
  qed
qed

lemma taken_byte:
  assumes "p + 16 + n + 16 < 4294967296" and "x < 4294967296" and "k \<le> n"
    and "x < p + 4 \<or> p + 12 \<le> x"
    and "k + 32 \<le> n \<Longrightarrow> x < p + 16 + k \<or> p + 16 + k + 16 \<le> x"
  shows "taken m p n k (word_of_nat x) = m (word_of_nat x)"
proof (cases "k + 32 \<le> n")
  case True
  have "store_hdr m (p + 16 + k) (n - k - 16) (word_of_nat x) = m (word_of_nat x)"
    by (rule store_hdr_byte) (use assms True in auto)
  with True assms(4) assms(1,2) show ?thesis
    by (elim disjE) (simp_all add: taken_def store32_byte del: of_nat_add)
next
  case False
  with assms(4) assms(1,2) show ?thesis
    by (elim disjE) (simp_all add: taken_def store32_byte del: of_nat_add)
qed

lemma taken_hdr:
  assumes h: "hdr m p n False" and k: "k \<le> n" and e: "p + 16 + n + 16 < 4294967296"
  shows "k + 32 \<le> n \<Longrightarrow> hdr (taken m p n k) p k True \<and> hdr (taken m p n k) (p + 16 + k) (n - k - 16) False"
    and "\<not> k + 32 \<le> n \<Longrightarrow> hdr (taken m p n k) p n True"
proof -
  assume s: "k + 32 \<le> n"
  let ?m1 = "store_hdr m (p + 16 + k) (n - k - 16)"
  have "hdr ?m1 p n False = hdr m p n False"
    by (rule hdr_cong, rule store_hdr_byte) (use e s in auto)
  with h have "hdr ?m1 p n False" by simp
  from hdr_set_used [OF hdr_set_size [OF this, of k], of 1] e s
  have "hdr (taken m p n k) p k True" by (simp add: taken_def del: of_nat_add)
  moreover have "hdr (taken m p n k) (p + 16 + k) (n - k - 16) False =
      hdr ?m1 (p + 16 + k) (n - k - 16) False"
    by (rule hdr_cong) (use e s in \<open>simp add: taken_def store32_byte del: of_nat_add\<close>)
  moreover have "hdr ?m1 (p + 16 + k) (n - k - 16) False"
    by (rule hdr_store_hdr) (use e s in simp)
  ultimately show "hdr (taken m p n k) p k True \<and> hdr (taken m p n k) (p + 16 + k) (n - k - 16) False"
    by simp
next
  assume "\<not> k + 32 \<le> n"
  with hdr_set_used [OF h, of 1] e show "hdr (taken m p n k) p n True"
    by (simp add: taken_def del: of_nat_add)
qed

text \<open>Taking the block the search found: the chain becomes the list of the specification, and
  only bytes inside the free block change.\<close>

lemma halloc_found:
  assumes "halloc k a bs = Some (p, bs')" and "chain m a bs e"
  obtains n where "(p, n, False) \<in> set (layout a bs)" and "k \<le> n" and "hdr m p n False"
    and "p + 16 + n \<le> e"
  using assms
proof (induction k a bs arbitrary: bs' thesis rule: halloc.induct)
  case (2 need a n u bs)
  show ?case
  proof (cases "\<not> u \<and> need \<le> n")
    case True
    with "2.prems"(2) have "p = a" by simp
    with True "2.prems"(3) chain_le show ?thesis by (intro "2.prems"(1) [of n]) auto
  next
    case False
    with "2.prems"(2) obtain cs where cs: "halloc need (a + 16 + n) bs = Some (p, cs)" by auto
    have c: "chain m (a + 16 + n) bs e" using "2.prems"(3) by simp
    show ?thesis
    proof (rule "2.IH" [OF False _ cs c])
      fix k assume "(p, k, False) \<in> set (layout (a + 16 + n) bs)" "need \<le> k" "hdr m p k False" "p + 16 + k \<le> e"
      then show thesis by (intro "2.prems"(1) [of k]) simp_all
    qed
  qed
qed simp

lemma taken_outside:
  assumes "p + 16 + n + 16 < 4294967296" and "x < 4294967296" and "k \<le> n"
    and "x < p \<or> p + 16 + n \<le> x"
  shows "taken m p n k (word_of_nat x) = m (word_of_nat x)"
  by (rule taken_byte) (use assms in auto)

lemma halloc_chain:
  assumes "halloc k a bs = Some (p, bs')" and "chain m a bs e" and "e + 16 < 4294967296"
    and "16 dvd k" and "16 \<le> k" and "(p, n, False) \<in> set (layout a bs)"
  shows "chain (taken m p n k) a bs' e"
  using assms
proof (induction k a bs arbitrary: bs' rule: halloc.induct)
  case (2 need a k u bs)
  have c: "hdr m a k u" "16 \<le> k" "16 dvd k" "chain m (a + 16 + k) bs e" using "2.prems"(2) by simp_all
  have le: "a + 16 + k \<le> e" by (rule chain_le [OF c(4)])
  show ?case
  proof (cases "\<not> u \<and> need \<le> k")
    case True
    then have p: "p = a" and bs': "bs' = (if need + 32 \<le> k then (need, True) # (k - need - 16, False) # bs
        else (k, True) # bs)"
      using "2.prems"(1) by simp_all
    have n: "n = k"
      using "2.prems"(6) p chain_layout [OF c(4), of a n False] by auto
    have rest: "chain (taken m a k need) (a + 16 + k) bs e"
    proof (rule chain_cong [OF c(4)])
      fix b l v x assume x: "(b, l, v) \<in> set (layout (a + 16 + k) bs)" "b \<le> x" "x < b + 12"
      from chain_layout [OF c(4) x(1)] x(2,3) "2.prems"(3) True
      show "m (word_of_nat x) = taken m a k need (word_of_nat x)"
        by (intro taken_outside [symmetric]) auto
    qed
    have h: "hdr m a k False" using c(1) True by simp
    have lim: "a + 16 + k + 16 < 4294967296" using le "2.prems"(3) by simp
    show ?thesis
    proof (cases "need + 32 \<le> k")
      case split: True
      have "16 dvd k - need - 16" "16 \<le> k - need - 16"
        using c(3) "2.prems"(4) split by (simp_all add: dvd_diff_nat)
      moreover have "a + 16 + need + 16 + (k - need - 16) = a + 16 + k" using split by simp
      ultimately show ?thesis
        using taken_hdr(1) [OF h _ lim split] True rest split "2.prems"(4,5) unfolding p n bs'
        by (simp only: if_True chain.simps)
    next
      case False
      with taken_hdr(2) [OF h _ lim False] True rest c show ?thesis unfolding p n bs' by simp
    qed
  next
    case False
    then obtain cs where cs: "halloc need (a + 16 + k) bs = Some (p, cs)" "bs' = (k, u) # cs"
      using "2.prems"(1) by auto
    obtain n' where n': "(p, n', False) \<in> set (layout (a + 16 + k) bs)" "need \<le> n'" "p + 16 + n' \<le> e"
      by (rule halloc_found [OF cs(1) c(4)])
    have ge: "a + 16 + k \<le> p" using chain_layout [OF c(4) n'(1)] by simp
    have n: "(p, n, False) \<in> set (layout (a + 16 + k) bs)" using "2.prems"(6) ge c(2) by auto
    with n' layout_apart [OF c(4) n n'(1)] have nn: "n' = n" by auto
    have "hdr (taken m p n need) a k u = hdr m a k u"
      by (rule hdr_cong, rule taken_outside) (use ge c(2) n' nn "2.prems"(3) le in auto)
    with "2.IH" [OF False cs(1) c(4) "2.prems"(3-5) n] c cs(2) show ?thesis by simp
  qed
qed simp

section \<open>Freeing\<close>

lemma chain_append:
  "chain m a (bs @ cs) e \<longleftrightarrow> (\<exists>t. chain m a bs t \<and> chain m t cs e)"
  by (induction bs arbitrary: a) auto

lemma chain_end_unique: "chain m a bs t \<Longrightarrow> chain m a bs e \<Longrightarrow> t = e"
  by (induction bs arbitrary: a) auto

lemma layout_append: "chain m a bs t \<Longrightarrow> layout a (bs @ cs) = layout a bs @ layout t cs"
  by (induction bs arbitrary: a) auto

lemma hmerge_shape: "\<exists>k rest. hmerge n bs = (k, False) # rest \<and> n \<le> k"
proof (induction n bs rule: hmerge_induct)
  case (merge n k bs)
  then obtain l rest where "hmerge (n + 16 + k) bs = (l, False) # rest" "n + 16 + k \<le> l" by blast
  then show ?case by simp
qed auto

text \<open>Changing only the size and used fields of the block at \<open>t\<close> keeps the chains around it.\<close>

lemma chain_before:
  assumes "chain m a pre t" and "\<And>x. x < t \<Longrightarrow> m' (word_of_nat x) = m (word_of_nat x)"
  shows "chain m' a pre t"
proof (rule chain_cong [OF assms(1)])
  fix b n u x assume "(b, n, u) \<in> set (layout a pre)" "b \<le> x" "x < b + 12"
  with chain_layout [OF assms(1), of b n u] have "x < t" by simp
  with assms(2) show "m (word_of_nat x) = m' (word_of_nat x)" by simp
qed

lemma chain_after:
  assumes "chain m t post e" and "e < 4294967296"
    and "\<And>x. t \<le> x \<Longrightarrow> x < 4294967296 \<Longrightarrow> m' (word_of_nat x) = m (word_of_nat x)"
  shows "chain m' t post e"
proof (rule chain_cong [OF assms(1)])
  fix b n u x assume "(b, n, u) \<in> set (layout t post)" "b \<le> x" "x < b + 12"
  with chain_layout [OF assms(1), of b n u] assms(2) have "t \<le> x" "x < 4294967296" by simp_all
  with assms(3) show "m (word_of_nat x) = m' (word_of_nat x)" by simp
qed

lemma set_size_chain:
  assumes "chain m t ((n, u) # (k, False) # bs) e" and "e + 16 < 4294967296"
  shows "chain (store32 m (word_of_nat (t + 4)) (word_of_nat (n + 16 + k))) t ((n + 16 + k, u) # bs) e"
proof -
  let ?m = "store32 m (word_of_nat (t + 4)) (word_of_nat (n + 16 + k))"
  have h: "hdr m t n u" and c: "chain m (t + 16 + n + 16 + k) bs e" and d: "16 dvd n" "16 dvd k"
    using assms(1) by simp_all
  have le: "t + 16 + n + 16 + k \<le> e" by (rule chain_le [OF c])
  have "hdr ?m t (n + 16 + k) u" by (rule hdr_set_size [OF h]) (use le assms(2) in simp)
  moreover have "chain ?m (t + 16 + n + 16 + k) bs e"
    by (rule chain_after [OF c], use assms(2) in simp, rule store32_byte) (use le assms(2) in auto)
  moreover have "t + 16 + n + 16 + k = t + 16 + (n + 16 + k)" by simp
  ultimately show ?thesis using d assms(1) by (simp only: chain.simps) (simp add: dvd_add)
qed

lemma heap_end_test:
  assumes "a + 16 < 4294967296" and "e < 4294967296"
  shows "word_of_nat a + KHEAP_HEADER \<le> (word_of_nat e :: u32) \<longleftrightarrow> a + 16 \<le> e"
proof -
  have "unat (word_of_nat a + KHEAP_HEADER :: u32) = a + 16"
    using assms unat_add_small [of "word_of_nat a" 16] by (simp add: KHEAP_HEADER_def)
  then show ?thesis using assms by (simp add: word_le_nat_alt)
qed

lemma coalesce_fwd_refines:
  assumes "chain (pmem s) t ((n, False) # bs) e" and "heap_start s + heap_size s = word_of_nat e"
    and "e + 16 < 4294967296"
  shows "\<exists>m'. coalesce_fwd (word_of_nat t) s (word_of_nat (t + 16 + n)) = Some (s\<lparr>pmem := m'\<rparr>) \<and>
    chain m' t (hmerge n bs) e \<and>
    (\<forall>x < 4294967296. x < t + 4 \<or> t + 8 \<le> x \<longrightarrow> m' (word_of_nat x) = pmem s (word_of_nat x))"
  using assms
proof (induction n bs arbitrary: s rule: hmerge_induct)
  case (merge n k bs)
  let ?m = "store32 (pmem s) (word_of_nat (t + 4)) (word_of_nat (n + 16 + k))"
  let ?s = "s\<lparr>pmem := ?m\<rparr>"
  have h: "hdr (pmem s) t n False" "hdr (pmem s) (t + 16 + n) k False"
    and c: "chain (pmem s) (t + 16 + n + 16 + k) bs e"
    using merge.prems(1) by simp_all
  have le: "t + 16 + n + 16 + k \<le> e" by (rule chain_le [OF c])
  have ch: "chain ?m t ((n + 16 + k, False) # bs) e"
    by (rule set_size_chain [OF merge.prems(1,3)])
  have nx: "word_of_nat (t + 16 + n) + (KHEAP_HEADER + word_of_nat k) =
      (word_of_nat (t + 16 + (n + 16 + k)) :: u32)"
    "word_of_nat n + (KHEAP_HEADER + word_of_nat k) = (word_of_nat (n + 16 + k) :: u32)"
    by (simp_all add: KHEAP_HEADER_def)
  have step: "coalesce_fwd (word_of_nat t) s (word_of_nat (t + 16 + n)) =
      coalesce_fwd (word_of_nat t) ?s (word_of_nat (t + 16 + (n + 16 + k)))"
    using heap_end_test [of "t + 16 + n" e] le merge.prems(2,3) blk_hdr [OF h(1)] blk_hdr [OF h(2)]
    by (subst coalesce_fwd.simps) (simp add: nx set_blk_size_def field_addr del: of_nat_add)
  obtain m' where m': "coalesce_fwd (word_of_nat t) ?s (word_of_nat (t + 16 + (n + 16 + k))) =
      Some (?s\<lparr>pmem := m'\<rparr>)" "chain m' t (hmerge (n + 16 + k) bs) e"
    "\<forall>x < 4294967296. x < t + 4 \<or> t + 8 \<le> x \<longrightarrow> m' (word_of_nat x) = ?m (word_of_nat x)"
    using merge.IH [of ?s] ch merge.prems(2,3) by auto
  have "m' (word_of_nat x) = pmem s (word_of_nat x)" if "x < 4294967296" "x < t + 4 \<or> t + 8 \<le> x" for x
    using m'(3) that store32_byte [of "t + 4" x "pmem s" "word_of_nat (n + 16 + k)"] le merge.prems(3)
    by auto
  with m'(1,2) step show ?case by auto
next
  case (empty n)
  then show ?case using heap_end_test [of e e]
    by (intro exI [of _ "pmem s"], subst coalesce_fwd.simps) (auto simp del: of_nat_add)
next
  case (used n k bs)
  have h: "hdr (pmem s) (t + 16 + n) k True" using used.prems(1) by simp
  show ?case
    by (intro exI [of _ "pmem s"], subst coalesce_fwd.simps)
      (use used.prems(1) blk_hdr [OF h] in \<open>auto simp del: of_nat_add\<close>)
qed

text \<open>One step of the walk: the tests and the next address at a block before \<open>t\<close>.\<close>

lemma coalesce_back_step:
  assumes h: "hdr (pmem s) a n u" and at: "a + 16 + n \<le> t" and ht: "hdr (pmem s) t k False"
    and te: "t + 16 + k \<le> e" and e: "e + 16 < 4294967296"
    and he: "heap_start s + heap_size s = word_of_nat e"
  shows "coalesce_back (word_of_nat t) s (word_of_nat a) =
    (if a + 16 + n = t
     then Some (if u then s else s\<lparr>pmem := store32 (pmem s) (word_of_nat (a + 4)) (word_of_nat (n + 16 + k))\<rparr>)
     else coalesce_back (word_of_nat t) s (word_of_nat (a + 16 + n)))"
proof -
  have lt: "word_of_nat a < (word_of_nat t :: u32)"
    using at te e by (simp add: word_less_nat_alt)
  have fits: "word_of_nat a + KHEAP_HEADER \<le> (word_of_nat e :: u32)"
    using heap_end_test [of a e] at te e by simp
  have nx: "word_of_nat a + KHEAP_HEADER + word_of_nat n = (word_of_nat (a + 16 + n) :: u32)"
    and sz: "word_of_nat n + (KHEAP_HEADER + word_of_nat k) = (word_of_nat (n + 16 + k) :: u32)"
    by (simp_all add: KHEAP_HEADER_def)
  have eqt: "(word_of_nat (a + 16 + n) :: u32) = word_of_nat t \<longleftrightarrow> a + 16 + n = t"
    by (rule word_of_nat_u32_eq) (use at te e in simp_all)
  show ?thesis
    using lt fits eqt blk_hdr [OF h] blk_hdr [OF ht] he
    by (subst coalesce_back.simps)
      (simp add: Let_def nx sz set_blk_size_def field_addr del: of_nat_add)
qed

lemma merge_prev_Cons: "pre \<noteq> [] \<Longrightarrow> merge_prev (b # pre) k rest = b # merge_prev pre k rest"
  by (simp add: merge_prev_def)

lemma coalesce_back_refines:
  assumes "chain (pmem s) a pre t" and "chain (pmem s) t ((k, False) # rest) e"
    and "heap_start s + heap_size s = word_of_nat e" and "e + 16 < 4294967296"
  shows "\<exists>m'. coalesce_back (word_of_nat t) s (word_of_nat a) = Some (s\<lparr>pmem := m'\<rparr>) \<and>
    chain m' a (merge_prev pre k rest) e \<and>
    (\<forall>x < 4294967296. (\<forall>b n. (b, n, False) \<in> set (layout a pre) \<longrightarrow> x < b + 4 \<or> b + 8 \<le> x) \<longrightarrow>
      m' (word_of_nat x) = pmem s (word_of_nat x))"
  using assms(1)
proof (induction pre arbitrary: a)
  case Nil
  then have "coalesce_back (word_of_nat t) s (word_of_nat a) = Some s"
    by (subst coalesce_back.simps) simp
  with Nil assms(2) show ?case by (intro exI [of _ "pmem s"]) (simp add: merge_prev_def)
next
  case (Cons b pre)
  obtain n u where b: "b = (n, u)" by force
  have h: "hdr (pmem s) a n u" and c: "chain (pmem s) (a + 16 + n) pre t" and n: "16 dvd n" "16 \<le> n"
    using Cons.prems b by simp_all
  have te: "t + 16 + k \<le> e" and ht: "hdr (pmem s) t k False" using assms(2) chain_le by auto
  have at: "a + 16 + n \<le> t" by (rule chain_le [OF c])
  note step = coalesce_back_step [OF h at ht te assms(4,3)]
  show ?case
  proof (cases "pre = []")
    case True
    let ?m = "store32 (pmem s) (word_of_nat (a + 4)) (word_of_nat (n + 16 + k))"
    have t: "a + 16 + n = t" using c True by simp
    have ch: "chain (pmem s) a ((n, u) # (k, False) # rest) e" using assms(2) h n t by simp
    have "chain ?m a ((n + 16 + k, u) # rest) e" by (rule set_size_chain [OF ch assms(4)])
    moreover have "?m (word_of_nat x) = pmem s (word_of_nat x)"
      if "x < 4294967296" "x < a + 4 \<or> a + 8 \<le> x" for x
      by (rule store32_byte) (use that at te assms(4) in auto)
    ultimately show ?thesis using True b t ch step
      by (intro exI [of _ "if u then pmem s else ?m"]) (auto simp: merge_prev_def)
  next
    case False
    then obtain d ds where "pre = d # ds" by (cases pre) auto
    with c have "a + 16 + n < t" using chain_le by (cases d) fastforce
    with step obtain m' where m': "coalesce_back (word_of_nat t) s (word_of_nat a) = Some (s\<lparr>pmem := m'\<rparr>)"
      "chain m' (a + 16 + n) (merge_prev pre k rest) e"
      "\<forall>x < 4294967296. (\<forall>b l. (b, l, False) \<in> set (layout (a + 16 + n) pre) \<longrightarrow> x < b + 4 \<or> b + 8 \<le> x) \<longrightarrow>
        m' (word_of_nat x) = pmem s (word_of_nat x)"
      using Cons.IH [OF c] by auto
    have "hdr m' a n u = hdr (pmem s) a n u"
    proof (rule hdr_cong)
      fix x assume x: "a \<le> x" "x < a + 12"
      have "x < b + 4" if "(b, l, False) \<in> set (layout (a + 16 + n) pre)" for b l
        using chain_layout [OF c that] x by simp
      moreover have "x < 4294967296" using x at te assms(4) by simp
      ultimately show "m' (word_of_nat x) = pmem s (word_of_nat x)" using m'(3) by blast
    qed
    with h n m'(2) have "chain m' a (merge_prev (b # pre) k rest) e"
      using False b by (simp add: merge_prev_Cons)
    with m'(1,3) b show ?thesis by (intro exI [of _ m']) auto
  qed
qed

section \<open>Properties of the abstract heap\<close>

lemma naf_tl: "no_adjacent_free (b # bs) \<Longrightarrow> no_adjacent_free bs"
  by (cases b; cases bs) auto

lemma naf_append:
  "no_adjacent_free (bs @ cs) \<longleftrightarrow> no_adjacent_free bs \<and> no_adjacent_free cs \<and>
     (bs = [] \<or> cs = [] \<or> snd (last bs) \<or> snd (hd cs))"
proof (induction bs rule: naf_induct)
  case (single v)
  obtain n u where "v = (n, u)" by force
  then show ?case by (cases cs) auto
qed auto

lemma halloc_naf:
  "halloc k a bs = Some (p, bs') \<Longrightarrow> no_adjacent_free bs \<Longrightarrow>
     no_adjacent_free bs' \<and> (bs \<noteq> [] \<and> snd (hd bs) \<longrightarrow> bs' \<noteq> [] \<and> snd (hd bs'))"
proof (induction k a bs arbitrary: bs' rule: halloc.induct)
  case (2 need a n u bs)
  show ?case
  proof (cases "\<not> u \<and> need \<le> n")
    case True
    with 2 show ?thesis by (cases bs) (auto split: if_splits)
  next
    case False
    with 2 obtain cs where cs: "halloc need (a + 16 + n) bs = Some (p, cs)" "bs' = (n, u) # cs" by auto
    with "2.IH" [OF False cs(1)] "2.prems"(2) naf_tl have "no_adjacent_free cs"
      "bs \<noteq> [] \<and> snd (hd bs) \<longrightarrow> cs \<noteq> [] \<and> snd (hd cs)" by blast+
    moreover have "bs \<noteq> []" using cs(1) by auto
    ultimately show ?thesis using "2.prems"(2) cs(2) by (cases bs; cases cs) auto
  qed
qed simp

lemma hmerge_naf:
  "no_adjacent_free bs \<Longrightarrow> no_adjacent_free (hmerge n bs)"
proof (induction n bs rule: hmerge_induct)
  case (merge n k bs)
  then show ?case using naf_tl by simp
next
  case (used n k bs)
  then show ?case by simp
qed simp

lemma hfree_naf:
  assumes "no_adjacent_free (pre @ (n, True) # post)"
  shows "no_adjacent_free (hfree pre n post)"
proof -
  obtain k rest where m: "hmerge n post = (k, False) # rest" using hmerge_shape by blast
  have pp: "no_adjacent_free pre" "no_adjacent_free post"
    using assms naf_tl by (auto simp: naf_append)
  have kr: "no_adjacent_free ((k, False) # rest)" using hmerge_naf [OF pp(2), of n] m by simp
  show ?thesis
  proof (cases "pre = [] \<or> snd (last pre)")
    case True
    with pp kr m show ?thesis by (auto simp: hfree_def merge_prev_def naf_append)
  next
    case False
    then obtain pre' l where pre: "pre = pre' @ [(l, False)]"
      by (metis append_butlast_last_id prod.collapse)
    with pp(1) have "no_adjacent_free pre'" "pre' = [] \<or> snd (last pre')" by (auto simp: naf_append)
    moreover have "no_adjacent_free ((l + 16 + k, False) # rest)" using kr by (cases rest) auto
    ultimately show ?thesis using m pre by (auto simp: hfree_def merge_prev_def naf_append)
  qed
qed

text \<open>The used blocks, by address.\<close>

definition used_at :: "nat \<Rightarrow> blocks \<Rightarrow> (nat \<times> nat) set" where
  "used_at a bs = {(b, n). (b, n, True) \<in> set (layout a bs)}"

lemma used_at_Nil [simp]: "used_at a [] = {}"
  by (simp add: used_at_def)

lemma used_at_Cons [simp]:
  "used_at a ((n, u) # bs) = (if u then {(a, n)} else {}) \<union> used_at (a + 16 + n) bs"
  by (auto simp: used_at_def)

lemma used_at_append:
  "chain m a bs t \<Longrightarrow> used_at a (bs @ cs) = used_at a bs \<union> used_at t cs"
  by (induction bs arbitrary: a) auto

lemma halloc_used:
  "halloc k a bs = Some (p, bs') \<Longrightarrow>
     \<exists>n. k \<le> n \<and> used_at a bs' = insert (p, n) (used_at a bs)"
proof (induction k a bs arbitrary: bs' rule: halloc.induct)
  case (2 need a n u bs)
  show ?case
  proof (cases "\<not> u \<and> need \<le> n")
    case True
    show ?thesis
    proof (cases "need + 32 \<le> n")
      case split: True
      with True "2.prems" show ?thesis by (intro exI [of _ need]) (auto simp: ac_simps)
    next
      case False
      with True "2.prems" show ?thesis by (intro exI [of _ n]) auto
    qed
  next
    case False
    with "2.prems" obtain cs where cs: "halloc need (a + 16 + n) bs = Some (p, cs)" "bs' = (n, u) # cs" by auto
    with "2.IH" [OF False cs(1)] show ?thesis by auto
  qed
qed simp

lemma hmerge_used: "used_at t (hmerge n bs) = used_at (t + 16 + n) bs"
proof (induction n bs rule: hmerge_induct)
  case (merge n k bs)
  then show ?case by (simp add: ac_simps)
qed auto

lemma hfree_used:
  assumes "chain m a pre t"
  shows "used_at a (hfree pre n post) = used_at a pre \<union> used_at (t + 16 + n) post"
proof -
  obtain k rest where m: "hmerge n post = (k, False) # rest" using hmerge_shape by blast
  then have r: "used_at (t + 16 + k) rest = used_at (t + 16 + n) post"
    using hmerge_used [of t n post] by simp
  show ?thesis
  proof (cases "pre = [] \<or> snd (last pre)")
    case True
    then have "hfree pre n post = pre @ (k, False) # rest" by (simp add: hfree_def m merge_prev_def)
    with r show ?thesis by (simp add: used_at_append [OF assms])
  next
    case False
    then obtain pre' l where pre: "pre = pre' @ [(l, False)]"
      by (metis append_butlast_last_id prod.collapse)
    then obtain t' where t': "chain m a pre' t'" "t = t' + 16 + l"
      using assms by (auto simp: chain_append)
    have "hfree pre n post = pre' @ (l + 16 + k, False) # rest"
      using False by (simp add: hfree_def m merge_prev_def pre)
    with r t'(2) show ?thesis by (simp add: pre used_at_append [OF t'(1)] ac_simps)
  qed
qed

lemma all_free_single:
  assumes "no_adjacent_free bs" and "used_at a bs = {}" and "bs \<noteq> []"
  shows "\<exists>n. bs = [(n, False)]"
proof (cases bs rule: naf_cases)
  case (pair n u k v cs)
  with assms(1,2) show ?thesis by (auto split: if_splits)
next
  case (single b)
  with assms(2) show ?thesis by (cases b) (auto split: if_splits)
qed (use assms in auto)

section \<open>The heap invariant\<close>

definition heap_ok :: "'a kheap_state_scheme \<Rightarrow> blocks \<Rightarrow> bool" where
  "heap_ok s bs \<longleftrightarrow> heap_start s \<noteq> 0 \<and> 16 dvd unat (heap_start s) \<and>
     unat (heap_start s) + unat (heap_size s) + 16 < 4294967296 \<and>
     chain (pmem s) (unat (heap_start s)) bs (unat (heap_start s) + unat (heap_size s)) \<and>
     no_adjacent_free bs"

text \<open>The size a request is rounded to.\<close>

definition hneed :: "nat \<Rightarrow> nat" where
  "hneed n = (max 1 n + 15) div 16 * 16"

lemma hneed_props: "16 dvd hneed n" "16 \<le> hneed n" "n \<le> hneed n"
proof -
  show "16 dvd hneed n" by (simp add: hneed_def)
  have "1 \<le> (max 1 n + 15) div 16" by (simp add: Suc_leI div_greater_zero_iff)
  then show "16 \<le> hneed n" by (simp add: hneed_def)
  show "n \<le> hneed n" unfolding hneed_def by linarith
qed

lemma ALIGN16_unat: "unat (ALIGN16 x) = unat (x + 15) div 16 * 16"
proof -
  have "(15::u32) = mask 4" by (simp add: mask_eq_exp_minus_1)
  then show ?thesis using unat_and_not_mask [of 4 "x + 15"] by (simp add: ALIGN16_def)
qed

lemma heap_end_word:
  "heap_ok s bs \<Longrightarrow>
     heap_start s + heap_size s = word_of_nat (unat (heap_start s) + unat (heap_size s))"
  by simp

lemma halloc_fits:
  "halloc k a bs = Some (p, bs') \<Longrightarrow> chain m a bs e \<Longrightarrow> a \<le> p \<and> p + 16 + k \<le> e"
  by (erule halloc_found) (auto dest: chain_layout)

text \<open>\<^verbatim>\<open>kmalloc\<close> is first fit with splitting on the block list.\<close>

lemma kmalloc_scan_start:
  assumes "heap_ok s bs"
  shows "kmalloc sz s =
    (case halloc (hneed (unat sz)) (unat (heap_start s)) bs of
       None \<Rightarrow> Some (0, s)
     | Some (p, bs') \<Rightarrow> Some (take_block (word_of_nat p) (word_of_nat (hneed (unat sz))) s))"
proof -
  let ?a = "unat (heap_start s)" and ?e = "unat (heap_start s) + unat (heap_size s)"
  have ok: "heap_start s \<noteq> 0" "?e + 16 < 4294967296" "chain (pmem s) ?a bs ?e"
    using assms by (simp_all add: heap_ok_def)
  define z where "z = (if sz = 0 then 1 else sz)"
  have uz: "unat z = max 1 (unat sz)" using unat_gt_0 [of sz] by (auto simp: z_def max_def)
  have km: "kmalloc sz s = (if ALIGN16 z < z then Some (0, s) else kmalloc_scan (ALIGN16 z) s (heap_start s))"
    using ok(1) by (simp add: kmalloc_def z_def Let_def)
  show ?thesis
  proof (cases "unat z + 15 < 4294967296")
    case True
    then have u: "unat (ALIGN16 z) = hneed (unat sz)"
      using unat_add_small [of z 15] by (simp add: ALIGN16_unat hneed_def uz)
    then have "\<not> ALIGN16 z < z" using uz hneed_props(3) [of "unat z"]
      by (simp add: word_less_nat_alt not_less hneed_def max.assoc [symmetric])
    moreover have w: "word_of_nat (hneed (unat sz)) = ALIGN16 z" unfolding u [symmetric] by simp
    ultimately show ?thesis
      unfolding w using km kmalloc_scan_refines [OF ok(3) heap_end_word [OF assms] ok(2), of "ALIGN16 z"] u by simp
  next
    case False
    have "unat (z + 15) = unat z + 15 - 4294967296"
      using False unat_u32_lt [of z] by (simp add: unat_word_ariths mod_if)
    then have "unat (ALIGN16 z) < unat z" unfolding ALIGN16_unat using unat_u32_lt [of z] False
      by (simp add: order.strict_trans1 [OF div_times_less_eq_dividend])
    then have "kmalloc sz s = Some (0, s)" using km by (simp add: word_less_nat_alt)
    moreover have "4294967296 \<le> hneed (unat sz)" using False uz by (simp add: hneed_def)
    then have "halloc (hneed (unat sz)) ?a bs = None"
      using halloc_fits [OF _ ok(3)] ok(2) by (cases "halloc (hneed (unat sz)) ?a bs") fastforce+
    ultimately show ?thesis by simp
  qed
qed

lemma kmalloc_refines:
  assumes "heap_ok s bs" and "halloc (hneed (unat sz)) (unat (heap_start s)) bs = Some (p, bs')"
  obtains m' n where "kmalloc sz s = Some (word_of_nat (p + 16), s\<lparr>pmem := m'\<rparr>)"
    and "heap_ok (s\<lparr>pmem := m'\<rparr>) bs'" and "(p, n, False) \<in> set (layout (unat (heap_start s)) bs)"
    and "hneed (unat sz) \<le> n"
    and "\<And>x. x < 4294967296 \<Longrightarrow> x < p \<or> p + 16 + n \<le> x \<Longrightarrow> m' (word_of_nat x) = pmem s (word_of_nat x)"
proof -
  let ?a = "unat (heap_start s)" and ?e = "unat (heap_start s) + unat (heap_size s)"
  let ?k = "hneed (unat sz)"
  have ok: "?e + 16 < 4294967296" "chain (pmem s) ?a bs ?e" "no_adjacent_free bs"
    using assms(1) by (simp_all add: heap_ok_def)
  obtain n where n: "(p, n, False) \<in> set (layout ?a bs)" "?k \<le> n" "hdr (pmem s) p n False" "p + 16 + n \<le> ?e"
    by (rule halloc_found [OF assms(2) ok(2)])
  have uk: "unat (word_of_nat ?k :: u32) = ?k" using n(2,4) ok(1) by simp
  let ?m = "taken (pmem s) p n ?k"
  have lim: "p + 16 + n + 16 < 4294967296" using n(4) ok(1) by simp
  have "kmalloc sz s = Some (word_of_nat (p + 16), s\<lparr>pmem := ?m\<rparr>)"
    using kmalloc_scan_start [OF assms(1), of sz] assms(2) take_block_mem [OF n(3) _ lim, of "word_of_nat ?k"] uk n(2)
    by simp
  moreover have "heap_ok (s\<lparr>pmem := ?m\<rparr>) bs'"
    using halloc_chain [OF assms(2) ok(2,1) hneed_props(1,2) n(1)] halloc_naf [OF assms(2) ok(3)] assms(1)
    by (simp add: heap_ok_def)
  moreover have "?m (word_of_nat x) = pmem s (word_of_nat x)"
    if "x < 4294967296" "x < p \<or> p + 16 + n \<le> x" for x
    by (rule taken_outside [OF lim that(1) n(2) that(2)])
  ultimately show thesis by (rule that [OF _ _ n(1,2)])
qed

lemma kmalloc_fails:
  assumes "heap_ok s bs" and "halloc (hneed (unat sz)) (unat (heap_start s)) bs = None"
  shows "kmalloc sz s = Some (0, s)"
  using kmalloc_scan_start [OF assms(1), of sz] assms(2) by simp

text \<open>\<^verbatim>\<open>kfree\<close> of a live block frees it with coalescing, and writes header bytes only.\<close>

lemma used_split:
  assumes "(t, n) \<in> used_at a bs" and "chain m a bs e"
  obtains pre post where "bs = pre @ (n, True) # post" and "chain m a pre t"
    and "chain m t ((n, True) # post) e"
  using assms
proof (induction bs arbitrary: a thesis)
  case (Cons b bs)
  obtain k u where b: "b = (k, u)" by force
  have c: "chain m (a + 16 + k) bs e" using Cons.prems(3) b by simp
  show ?case
  proof (cases "(t, n) \<in> used_at (a + 16 + k) bs")
    case True
    show ?thesis
    proof (rule Cons.IH [OF _ True c])
      fix pre post assume "bs = pre @ (n, True) # post" "chain m (a + 16 + k) pre t" "chain m t ((n, True) # post) e"
      then show thesis using Cons.prems(3) b by (intro Cons.prems(1) [of "b # pre" post]) auto
    qed
  next
    case False
    with Cons.prems(2) b have "u" "t = a" "n = k" by (auto split: if_splits)
    with Cons.prems(3) b show ?thesis by (intro Cons.prems(1) [of "[]" bs]) auto
  qed
qed simp

lemma kfree_enters:
  assumes "heap_ok s bs" and "hdr (pmem s) t n True" and "unat (heap_start s) \<le> t"
    and "t + 16 + n \<le> unat (heap_start s) + unat (heap_size s)" and "16 \<le> n"
  shows "kfree (word_of_nat (t + 16)) s =
    (case coalesce_fwd (word_of_nat t) (s\<lparr>pmem := store32 (pmem s) (word_of_nat (t + 8)) 0\<rparr>)
       (word_of_nat (t + 16 + n)) of
       None \<Rightarrow> None | Some s' \<Rightarrow> coalesce_back (word_of_nat t) s' (heap_start s'))"
proof -
  let ?a = "unat (heap_start s)" and ?e = "unat (heap_start s) + unat (heap_size s)"
  have lim: "?e + 16 < 4294967296" "heap_start s \<noteq> 0" using assms(1) by (simp_all add: heap_ok_def)
  have u: "unat (word_of_nat (t + 16) :: u32) = t + 16"
    using assms(4) lim(1) by (simp del: of_nat_add)
  have b: "word_of_nat (t + 16) - KHEAP_HEADER = (word_of_nat t :: u32)" by (simp add: KHEAP_HEADER_def)
  have "unat (heap_start s + KHEAP_HEADER) = ?a + 16"
    using unat_add_small [of "heap_start s" 16] lim by (simp add: KHEAP_HEADER_def)
  then have lo: "\<not> word_of_nat (t + 16) < heap_start s + KHEAP_HEADER"
    using u assms(3) by (simp add: word_less_nat_alt del: of_nat_add)
  have "unat (heap_start s + heap_size s) = ?e"
    using unat_add_small [of "heap_start s" "heap_size s"] lim by simp
  then have hi: "\<not> heap_start s + heap_size s \<le> word_of_nat (t + 16)"
    using u assms(4,5) by (simp add: word_le_nat_alt del: of_nat_add)
  have nz: "(word_of_nat (t + 16) :: u32) \<noteq> 0" using u by (metis add_is_0 unat_0 zero_neq_numeral)
  let ?s = "s\<lparr>pmem := store32 (pmem s) (word_of_nat (t + 8)) 0\<rparr>"
  have "blk_size (word_of_nat t) ?s = word_of_nat n"
    using hdr_set_used [OF assms(2), of 0] assms(4) lim(1) blk_hdr(2) [of ?s t n False] by simp
  then have nx: "word_of_nat t + KHEAP_HEADER + blk_size (word_of_nat t) ?s = word_of_nat (t + 16 + n)"
    by (simp add: KHEAP_HEADER_def)
  show ?thesis
    unfolding kfree_def b Let_def set_blk_used_def field_addr nx
    using nz lim(2) lo hi blk_hdr [OF assms(2)] by (simp del: of_nat_add)
qed

lemma kfree_refines:
  assumes ok: "heap_ok s (pre @ (n, True) # post)" and pre: "chain (pmem s) (unat (heap_start s)) pre t"
  obtains m' where "kfree (word_of_nat (t + 16)) s = Some (s\<lparr>pmem := m'\<rparr>)"
    and "heap_ok (s\<lparr>pmem := m'\<rparr>) (hfree pre n post)"
    and "\<And>x. x < 4294967296 \<Longrightarrow> (\<And>b k u. (b, k, u) \<in> set (layout (unat (heap_start s)) (pre @ (n, True) # post)) \<Longrightarrow>
      x < b \<or> b + 16 \<le> x) \<Longrightarrow> m' (word_of_nat x) = pmem s (word_of_nat x)"
proof -
  let ?a = "unat (heap_start s)" and ?e = "unat (heap_start s) + unat (heap_size s)"
  have e: "?e + 16 < 4294967296" using ok by (simp add: heap_ok_def)
  obtain t' where t': "chain (pmem s) ?a pre t'" "chain (pmem s) t' ((n, True) # post) ?e"
    using ok by (auto simp: heap_ok_def chain_append)
  then have ch: "chain (pmem s) t ((n, True) # post) ?e" using chain_end_unique [OF pre t'(1)] by simp
  then have h: "hdr (pmem s) t n True" and n: "16 \<le> n" "16 dvd n" and post: "chain (pmem s) (t + 16 + n) post ?e"
    by simp_all
  have le: "t + 16 + n \<le> ?e" "?a \<le> t" by (rule chain_le [OF post], rule chain_le [OF pre])
  let ?m1 = "store32 (pmem s) (word_of_nat (t + 8)) 0"
  let ?s1 = "s\<lparr>pmem := ?m1\<rparr>"
  have m1: "?m1 (word_of_nat x) = pmem s (word_of_nat x)" if "x < 4294967296" "x < t + 8 \<or> t + 12 \<le> x" for x
    by (rule store32_byte) (use that le e in auto)
  have "chain ?m1 (t + 16 + n) post ?e"
    by (rule chain_after [OF post], use e in simp, rule m1) auto
  then have c1: "chain (pmem ?s1) t ((n, False) # post) ?e"
    using hdr_set_used [OF h, of 0] n le e by simp
  obtain m2 where m2: "coalesce_fwd (word_of_nat t) ?s1 (word_of_nat (t + 16 + n)) = Some (?s1\<lparr>pmem := m2\<rparr>)"
    "chain m2 t (hmerge n post) ?e"
    "\<forall>x < 4294967296. x < t + 4 \<or> t + 8 \<le> x \<longrightarrow> m2 (word_of_nat x) = ?m1 (word_of_nat x)"
    using coalesce_fwd_refines [OF c1 _ e] by auto
  obtain k rest where kr: "hmerge n post = (k, False) # rest" using hmerge_shape by blast
  have p2: "chain m2 ?a pre t"
    by (rule chain_before [OF pre]) (use m1 m2(3) le e in auto)
  obtain m3 where m3: "coalesce_back (word_of_nat t) (s\<lparr>pmem := m2\<rparr>) (word_of_nat ?a) = Some (s\<lparr>pmem := m3\<rparr>)"
    "chain m3 ?a (merge_prev pre k rest) ?e"
    "\<forall>x < 4294967296. (\<forall>b n. (b, n, False) \<in> set (layout ?a pre) \<longrightarrow> x < b + 4 \<or> b + 8 \<le> x) \<longrightarrow>
      m3 (word_of_nat x) = m2 (word_of_nat x)"
    using coalesce_back_refines [of "s\<lparr>pmem := m2\<rparr>" ?a pre t k rest ?e] p2 m2(2) kr e by auto
  show thesis
  proof (rule that)
    show "kfree (word_of_nat (t + 16)) s = Some (s\<lparr>pmem := m3\<rparr>)"
      using kfree_enters [OF ok h le(2,1) n(1)] m2(1) m3(1) by simp
    show "heap_ok (s\<lparr>pmem := m3\<rparr>) (hfree pre n post)"
      using ok m3(2) hfree_naf [of pre n post] kr by (simp add: heap_ok_def hfree_def)
    fix x assume x: "x < 4294967296"
      "\<And>b k u. (b, k, u) \<in> set (layout ?a (pre @ (n, True) # post)) \<Longrightarrow> x < b \<or> b + 16 \<le> x"
    have lay: "set (layout ?a pre) \<subseteq> set (layout ?a (pre @ (n, True) # post))"
      "(t, n, True) \<in> set (layout ?a (pre @ (n, True) # post))"
      using layout_append [OF pre] by auto
    have "m3 (word_of_nat x) = m2 (word_of_nat x)"
      using m3(3) x lay(1) by fastforce
    also have "\<dots> = pmem s (word_of_nat x)"
      using m2(3) m1 x(1) x(2) [OF lay(2)] by auto
    finally show "m3 (word_of_nat x) = pmem s (word_of_nat x)" .
  qed
qed

section \<open>The allocator contract\<close>

definition heap_inv :: "'a kheap_state_scheme \<Rightarrow> bool" where
  "heap_inv s \<longleftrightarrow> (\<exists>bs. heap_ok s bs)"

definition heap_live :: "'a kheap_state_scheme \<Rightarrow> u32 \<Rightarrow> u32 \<Rightarrow> bool" where
  "heap_live s p n \<longleftrightarrow> (\<exists>bs t k. heap_ok s bs \<and> unat p = t + 16 \<and>
     (t, k) \<in> used_at (unat (heap_start s)) bs \<and> unat n \<le> k)"

definition heap_region :: "u32 \<Rightarrow> u32 \<Rightarrow> u32 set" where
  "heap_region p n = {x. unat p \<le> unat x \<and> unat x < unat p + max 1 (unat n)}"

text \<open>\<^verbatim>\<open>kfree\<close> as an operation of the contract; it returns on every live block.\<close>

definition kfree_release :: "u32 \<Rightarrow> u32 \<Rightarrow> 'a kheap_state_scheme \<Rightarrow> 'a kheap_state_scheme" where
  "kfree_release p n s = (case kfree p s of None \<Rightarrow> s | Some s' \<Rightarrow> s')"

lemma heap_ok_unique: "heap_ok s bs \<Longrightarrow> heap_ok s cs \<Longrightarrow> bs = cs"
  unfolding heap_ok_def by (rule chain_unique [of "pmem s"]) auto

lemma used_at_layout: "(t, k) \<in> used_at a bs \<longleftrightarrow> (t, k, True) \<in> set (layout a bs)"
  by (simp add: used_at_def)

lemma heap_okD:
  assumes "heap_ok s bs"
  shows "chain (pmem s) (unat (heap_start s)) bs (unat (heap_start s) + unat (heap_size s))"
    and "unat (heap_start s) + unat (heap_size s) + 16 < 4294967296"
  using assms by (simp_all add: heap_ok_def)

lemma used_apart:
  assumes "heap_ok s bs" and "(t, k) \<in> used_at (unat (heap_start s)) bs"
    and "(b, n, u) \<in> set (layout (unat (heap_start s)) bs)" and "b = t \<Longrightarrow> \<not> u"
  shows "t + 16 + k \<le> b \<or> b + 16 + n \<le> t"
  using layout_apart [OF heap_okD(1) [OF assms(1)] assms(2) [unfolded used_at_layout] assms(3)] assms(4)
  by auto

text \<open>What \<^verbatim>\<open>kmalloc\<close> does, in one rule.\<close>

lemma kmalloc_cases:
  assumes "heap_ok s bs"
  obtains (fail) "halloc (hneed (unat sz)) (unat (heap_start s)) bs = None" "kmalloc sz s = Some (0, s)"
  | (ok) p bs' m' n k where "kmalloc sz s = Some (word_of_nat (p + 16), s\<lparr>pmem := m'\<rparr>)"
    and "halloc (hneed (unat sz)) (unat (heap_start s)) bs = Some (p, bs')"
    and "heap_ok (s\<lparr>pmem := m'\<rparr>) bs'" and "(p, n, False) \<in> set (layout (unat (heap_start s)) bs)"
    and "hneed (unat sz) \<le> n" and "hneed (unat sz) \<le> k"
    and "used_at (unat (heap_start s)) bs' = insert (p, k) (used_at (unat (heap_start s)) bs)"
    and "\<And>x. x < 4294967296 \<Longrightarrow> x < p \<or> p + 16 + n \<le> x \<Longrightarrow> m' (word_of_nat x) = pmem s (word_of_nat x)"
    and "unat (word_of_nat (p + 16) :: u32) = p + 16"
proof (cases "halloc (hneed (unat sz)) (unat (heap_start s)) bs")
  case None
  with kmalloc_fails [OF assms None] that(1) show thesis by blast
next
  case (Some pb)
  obtain p bs' where pb: "pb = (p, bs')" by force
  note h = Some [unfolded pb]
  obtain k where k: "hneed (unat sz) \<le> k"
    "used_at (unat (heap_start s)) bs' = insert (p, k) (used_at (unat (heap_start s)) bs)"
    using halloc_used [OF h] by blast
  have u: "unat (word_of_nat (p + 16) :: u32) = p + 16"
    using halloc_fits [OF h heap_okD(1) [OF assms]] heap_okD(2) [OF assms] by (simp del: of_nat_add)
  obtain m' n where r: "kmalloc sz s = Some (word_of_nat (p + 16), s\<lparr>pmem := m'\<rparr>)"
    "heap_ok (s\<lparr>pmem := m'\<rparr>) bs'" "(p, n, False) \<in> set (layout (unat (heap_start s)) bs)"
    "hneed (unat sz) \<le> n"
    "\<And>x. x < 4294967296 \<Longrightarrow> x < p \<or> p + 16 + n \<le> x \<Longrightarrow> m' (word_of_nat x) = pmem s (word_of_nat x)"
    by (rule kmalloc_refines [OF assms h]) blast
  show thesis by (rule that(2) [OF r(1) h r(2-4) k r(5) u])
qed

lemma heap_alloc:
  assumes "heap_inv s" and "kmalloc sz s = Some (a, s')"
  shows "heap_inv s'" and "heap_live s c m \<Longrightarrow> heap_live s' c m"
    and "a \<noteq> 0 \<Longrightarrow> heap_live s' a sz"
    and "a \<noteq> 0 \<Longrightarrow> heap_live s c m \<Longrightarrow> heap_region a sz \<inter> heap_region c m = {}"
proof -
  obtain bs where bs: "heap_ok s bs" using assms(1) by (auto simp: heap_inv_def)
  have "heap_inv s' \<and> (heap_live s c m \<longrightarrow> heap_live s' c m) \<and>
      (a \<noteq> 0 \<longrightarrow> heap_live s' a sz \<and> (heap_live s c m \<longrightarrow> heap_region a sz \<inter> heap_region c m = {}))"
    using bs
  proof (cases rule: kmalloc_cases [of s bs sz])
    case fail
    with assms show ?thesis by simp
  next
    case (ok p bs' m' n k)
    have s': "s' = s\<lparr>pmem := m'\<rparr>" "a = word_of_nat (p + 16)" using ok(1) assms(2) by simp_all
    have "heap_live s' a sz"
      unfolding heap_live_def s' using ok(3,6,7,9) hneed_props(3) [of "unat sz"] by fastforce
    moreover have "heap_live s' c m" if "heap_live s c m"
      using that heap_ok_unique [OF bs] ok(3,7) unfolding heap_live_def s' by fastforce
    moreover have "heap_region a sz \<inter> heap_region c m = {}" if l: "heap_live s c m"
    proof -
      obtain t k' where t: "unat c = t + 16" "(t, k') \<in> used_at (unat (heap_start s)) bs" "unat m \<le> k'"
        using l heap_ok_unique [OF bs] unfolding heap_live_def by blast
      have k': "16 \<le> k'"
        using chain_layout [OF heap_okD(1) [OF bs] t(2) [unfolded used_at_layout]] by simp
      from used_apart [OF bs t(2) ok(4)] have "t + 16 + k' \<le> p \<or> p + 16 + n \<le> t" by simp
      with t(1,3) k' ok(5,9) hneed_props [of "unat sz"] show ?thesis
        unfolding heap_region_def s' by auto
    qed
    ultimately show ?thesis using ok(3) by (auto simp: heap_inv_def s')
  qed
  then show "heap_inv s'" and "heap_live s c m \<Longrightarrow> heap_live s' c m"
    and "a \<noteq> 0 \<Longrightarrow> heap_live s' a sz"
    and "a \<noteq> 0 \<Longrightarrow> heap_live s c m \<Longrightarrow> heap_region a sz \<inter> heap_region c m = {}"
    by blast+
qed

lemma kfree_live:
  assumes "heap_ok s bs" and "(t, k) \<in> used_at (unat (heap_start s)) bs"
  obtains bs' m' where "kfree (word_of_nat (t + 16)) s = Some (s\<lparr>pmem := m'\<rparr>)"
    and "heap_ok (s\<lparr>pmem := m'\<rparr>) bs'"
    and "used_at (unat (heap_start s)) bs' = used_at (unat (heap_start s)) bs - {(t, k)}"
    and "\<And>x. x < 4294967296 \<Longrightarrow> (\<And>b k u. (b, k, u) \<in> set (layout (unat (heap_start s)) bs) \<Longrightarrow>
      x < b \<or> b + 16 \<le> x) \<Longrightarrow> m' (word_of_nat x) = pmem s (word_of_nat x)"
proof -
  note c = heap_okD(1) [OF assms(1)]
  obtain pre post where sp: "bs = pre @ (k, True) # post" "chain (pmem s) (unat (heap_start s)) pre t"
    "chain (pmem s) t ((k, True) # post) (unat (heap_start s) + unat (heap_size s))"
    by (rule used_split [OF assms(2) c])
  have "(t, k) \<notin> used_at (unat (heap_start s)) pre" "(t, k) \<notin> used_at (t + 16 + k) post"
    using chain_layout [OF sp(2), of t k True] sp(3) chain_layout [of "pmem s" "t + 16 + k" post _ t k True]
    by (auto simp: used_at_layout)
  then have u: "used_at (unat (heap_start s)) (hfree pre k post) = used_at (unat (heap_start s)) bs - {(t, k)}"
    unfolding hfree_used [OF sp(2)] sp(1) used_at_append [OF sp(2)] by auto
  obtain m' where m': "kfree (word_of_nat (t + 16)) s = Some (s\<lparr>pmem := m'\<rparr>)"
    "heap_ok (s\<lparr>pmem := m'\<rparr>) (hfree pre k post)"
    "\<And>x. x < 4294967296 \<Longrightarrow> (\<And>b k u. (b, k, u) \<in> set (layout (unat (heap_start s)) bs) \<Longrightarrow>
      x < b \<or> b + 16 \<le> x) \<Longrightarrow> m' (word_of_nat x) = pmem s (word_of_nat x)"
    unfolding sp(1) by (rule kfree_refines [OF assms(1) [unfolded sp(1)] sp(2)]) blast
  show thesis by (rule that [OF m'(1,2) u m'(3)])
qed

lemma heap_live_block:
  assumes "heap_ok s bs" and "heap_live s a n"
  obtains t k where "a = word_of_nat (t + 16)" and "unat a = t + 16"
    and "(t, k) \<in> used_at (unat (heap_start s)) bs" and "unat n \<le> k"
proof -
  obtain t k where t: "unat a = t + 16" "(t, k) \<in> used_at (unat (heap_start s)) bs" "unat n \<le> k"
    using assms(2) heap_ok_unique [OF assms(1)] unfolding heap_live_def by blast
  have "a = word_of_nat (t + 16)" unfolding t(1) [symmetric] by simp
  with t that show thesis by blast
qed

lemma heap_release:
  assumes "heap_inv s" and "heap_live s a n"
  shows "heap_inv (kfree_release a n s)"
    and "heap_live s c m \<Longrightarrow> heap_region a n \<inter> heap_region c m = {} \<Longrightarrow>
      heap_live (kfree_release a n s) c m"
proof -
  obtain bs where bs: "heap_ok s bs" using assms(1) by (auto simp: heap_inv_def)
  obtain t k where t: "a = word_of_nat (t + 16)" "unat a = t + 16"
    "(t, k) \<in> used_at (unat (heap_start s)) bs"
    by (rule heap_live_block [OF bs assms(2)])
  obtain bs' m' where f: "kfree a s = Some (s\<lparr>pmem := m'\<rparr>)" "heap_ok (s\<lparr>pmem := m'\<rparr>) bs'"
    "used_at (unat (heap_start s)) bs' = used_at (unat (heap_start s)) bs - {(t, k)}"
    unfolding t(1) by (rule kfree_live [OF bs t(3)]) blast
  have r: "kfree_release a n s = s\<lparr>pmem := m'\<rparr>" by (simp add: kfree_release_def f(1))
  show "heap_inv (kfree_release a n s)" using f(2) by (auto simp: r heap_inv_def)
  assume l: "heap_live s c m" and d: "heap_region a n \<inter> heap_region c m = {}"
  obtain t2 k2 where t2: "unat c = t2 + 16" "(t2, k2) \<in> used_at (unat (heap_start s)) bs" "unat m \<le> k2"
    by (rule heap_live_block [OF bs l])
  have "a \<in> heap_region a n" "c \<in> heap_region c m" by (simp_all add: heap_region_def)
  with d have "a \<noteq> c" by blast
  then have "(t2, k2) \<noteq> (t, k)" using t(2) t2(1) by (auto simp: word_unat_eq_iff)
  with t2 f(2,3) show "heap_live (kfree_release a n s) c m"
    unfolding heap_live_def r by fastforce
qed

interpretation heap: allocator heap_inv heap_live heap_region kmalloc kfree_release
proof
  fix s :: "'a kheap_state_scheme" and s' a n c m
  show "\<exists>a s'. kmalloc n s = Some (a, s')" if "heap_inv s"
  proof -
    from that obtain bs where "heap_ok s bs" by (auto simp: heap_inv_def)
    then show ?thesis by (cases rule: kmalloc_cases [of s bs n]) blast+
  qed
  show "heap_inv s'" if "heap_inv s" "kmalloc n s = Some (a, s')"
    using heap_alloc(1) [OF that] .
  show "heap_live s' c m" if "heap_inv s" "kmalloc n s = Some (a, s')" "heap_live s c m"
    using heap_alloc(2) [OF that(1,2)] that(3) .
  show "heap_live s' a n" if "heap_inv s" "kmalloc n s = Some (a, s')" "a \<noteq> 0"
    using heap_alloc(3) [OF that] .
  show "heap_region a n \<inter> heap_region c m = {}"
    if "heap_inv s" "kmalloc n s = Some (a, s')" "a \<noteq> 0" "heap_live s c m"
    using heap_alloc(4) [OF that] .
  show "heap_inv (kfree_release a n s)" if "heap_inv s" "heap_live s a n"
    using heap_release(1) [OF that] .
  show "heap_live (kfree_release a n s) c m"
    if "heap_inv s" "heap_live s a n" "heap_live s c m" "heap_region a n \<inter> heap_region c m = {}"
    using heap_release(2) [OF that] .
qed

lemma heap_live_inside:
  assumes "heap_live s a n"
  shows "16 dvd unat a" and "unat (heap_start s) + 16 \<le> unat a"
    and "unat a + max 1 (unat n) \<le> unat (heap_start s) + unat (heap_size s)"
proof -
  obtain bs t k where b: "heap_ok s bs" "unat a = t + 16" "(t, k) \<in> used_at (unat (heap_start s)) bs" "unat n \<le> k"
    using assms unfolding heap_live_def by blast
  note l = chain_layout [OF heap_okD(1) [OF b(1)] b(3) [unfolded used_at_layout]]
  show "16 dvd unat a" using l b(1,2) by (simp add: heap_ok_def)
  show "unat (heap_start s) + 16 \<le> unat a" "unat a + max 1 (unat n) \<le> unat (heap_start s) + unat (heap_size s)"
    using l b(2,4) by auto
qed

lemma kfree_returns:
  assumes "heap_inv s" and "heap_live s a n"
  shows "kfree a s = Some (kfree_release a n s)"
    and "heap_start (kfree_release a n s) = heap_start s" and "heap_size (kfree_release a n s) = heap_size s"
proof -
  obtain bs where bs: "heap_ok s bs" using assms(1) by (auto simp: heap_inv_def)
  obtain t k where t: "a = word_of_nat (t + 16)" "(t, k) \<in> used_at (unat (heap_start s)) bs"
    by (rule heap_live_block [OF bs assms(2)])
  obtain m' where "kfree a s = Some (s\<lparr>pmem := m'\<rparr>)"
    unfolding t(1) by (rule kfree_live [OF bs t(2)]) blast
  then show "kfree a s = Some (kfree_release a n s)" "heap_start (kfree_release a n s) = heap_start s"
    "heap_size (kfree_release a n s) = heap_size s" by (simp_all add: kfree_release_def)
qed

lemma kmalloc_bounds: "heap_ok s bs \<Longrightarrow> kmalloc sz s = Some (a, s') \<Longrightarrow> heap_start s' = heap_start s \<and> heap_size s' = heap_size s"
  by (cases rule: kmalloc_cases [of s bs sz]) auto

section \<open>Clients of the heap\<close>

text \<open>A client that keeps the list of what it owns, calls \<^verbatim>\<open>kmalloc\<close> and gives blocks back with \<^verbatim>\<open>kfree\<close>.  The
  result is \<open>None\<close> when a call does not return.\<close>

fun heap_run ::
  "u32 alloc_op list \<Rightarrow> 'a kheap_state_scheme \<Rightarrow> (u32 \<times> u32) list \<Rightarrow> ('a kheap_state_scheme \<times> (u32 \<times> u32) list) option" where
  "heap_run [] s own = Some (s, own)"
| "heap_run (Request n # ops) s own =
     (case kmalloc n s of None \<Rightarrow> None | Some (a, s) \<Rightarrow> heap_run ops s (if a = 0 then own else (a, n) # own))"
| "heap_run (Release i # ops) s own =
     (if i < length own
      then case kfree (fst (own ! i)) s of None \<Rightarrow> None | Some s \<Rightarrow> heap_run ops s (take i own @ drop (Suc i) own)
      else heap_run ops s own)"

lemma heap_run_ok:
  assumes "heap.own_ok s own"
  shows "\<exists>s' own'. heap_run ops s own = Some (s', own') \<and> heap.own_ok s' own' \<and>
    heap_start s' = heap_start s \<and> heap_size s' = heap_size s"
  using assms
proof (induction ops s own rule: heap_run.induct)
  case (2 n ops s own)
  have inv: "heap_inv s" using "2.prems" by (simp add: heap.own_ok_def)
  then obtain bs where bs: "heap_ok s bs" by (auto simp: heap_inv_def)
  obtain a s1 where a: "kmalloc n s = Some (a, s1)" using heap.alloc_returns [OF inv] by blast
  from "2.IH" [OF a refl heap.own_ok_request [OF "2.prems" a]] a kmalloc_bounds [OF bs a] show ?case by simp
next
  case (3 i ops s own)
  show ?case
  proof (cases "i < length own")
    case True
    obtain a n where o: "own ! i = (a, n)" by force
    have "heap_inv s" "heap_live s a n" using "3.prems" nth_mem [OF True] by (auto simp: heap.own_ok_def o)
    note k = kfree_returns [OF this]
    have "kfree (fst (own ! i)) s = Some (kfree_release a n s)" using k(1) o by simp
    from "3.IH"(1) [OF True this heap.own_ok_release [OF "3.prems" True o]] this k(2,3) True show ?thesis by simp
  qed (use 3 in simp)
qed simp

text \<open>The client owns exactly the used blocks.\<close>

definition owns_all :: "'a kheap_state_scheme \<Rightarrow> (u32 \<times> u32) list \<Rightarrow> bool" where
  "owns_all s own \<longleftrightarrow> distinct (map fst own) \<and>
     (\<exists>bs. heap_ok s bs \<and> (\<lambda>(t, k). t + 16) ` used_at (unat (heap_start s)) bs = unat ` fst ` set own)"

lemma owns_all_request:
  assumes "owns_all s own" and "kmalloc n s = Some (a, s')"
  shows "owns_all s' (if a = 0 then own else (a, n) # own)"
proof -
  obtain bs where d: "distinct (map fst own)" and bs: "heap_ok s bs"
    "(\<lambda>(t, k). t + 16) ` used_at (unat (heap_start s)) bs = unat ` fst ` set own"
    using assms(1) by (auto simp: owns_all_def)
  from bs(1) show ?thesis
  proof (cases rule: kmalloc_cases [of s bs n])
    case fail
    then show ?thesis using assms by simp
  next
    case (ok p bs' m' j k)
    have s': "s' = s\<lparr>pmem := m'\<rparr>" "a = word_of_nat (p + 16)" using ok(1) assms(2) by simp_all
    have ua: "unat a = p + 16" using ok(9) s'(2) by simp
    then have nz: "a \<noteq> 0" by auto
    have np: "(p, l) \<notin> used_at (unat (heap_start s)) bs" for l
      using used_apart [OF bs(1) _ ok(4), of p l] by auto
    have "a \<notin> fst ` set own"
    proof
      assume "a \<in> fst ` set own"
      then have "p + 16 \<in> (\<lambda>(t, k). t + 16) ` used_at (unat (heap_start s)) bs" unfolding bs(2) ua [symmetric] by (rule imageI)
      then show False using np by auto
    qed
    moreover have "(\<lambda>(t, k). t + 16) ` used_at (unat (heap_start s')) bs' = unat ` fst ` set ((a, n) # own)"
      using ok(7) bs(2) ua by (simp add: s'(1))
    ultimately show ?thesis using d nz ok(3) by (auto simp: owns_all_def s'(1))
  qed
qed

lemma kheap_state_start: "heap_start (s\<lparr>pmem := m\<rparr>) = heap_start s"
  by simp

lemma owns_all_release:
  assumes "owns_all s own" and "i < length own" and "kfree (fst (own ! i)) s = Some s'"
  shows "owns_all s' (take i own @ drop (Suc i) own)"
proof -
  obtain bs where d: "distinct (map fst own)" and bs: "heap_ok s bs"
    "(\<lambda>(t, k). t + 16) ` used_at (unat (heap_start s)) bs = unat ` fst ` set own"
    using assms(1) by (auto simp: owns_all_def)
  let ?a = "fst (own ! i)" and ?rest = "take i own @ drop (Suc i) own"
  obtain x xs ys where x: "own = xs @ x # ys" "own ! i = x" "?rest = xs @ ys" using id_take_nth_drop [OF assms(2)] by blast
  have "unat ?a \<in> unat ` fst ` set own" using nth_mem [OF assms(2)] by blast
  then obtain t k where t: "unat ?a = t + 16" "(t, k) \<in> used_at (unat (heap_start s)) bs" using bs(2) by fastforce
  have at: "?a = word_of_nat (t + 16)" unfolding t(1) [symmetric] by simp
  obtain bs' m' where kf: "kfree ?a s = Some (s\<lparr>pmem := m'\<rparr>)" and f: "heap_ok (s\<lparr>pmem := m'\<rparr>) bs'"
    "used_at (unat (heap_start s)) bs' = used_at (unat (heap_start s)) bs - {(t, k)}"
    unfolding at by (rule kfree_live [OF bs(1) t(2)]) blast
  have s': "s' = s\<lparr>pmem := m'\<rparr>" using kf assms(3) by simp
  have diff: "unat ` (A - {a}) = unat ` A - {unat a}" for A and a :: u32 by (auto simp: word_unat_eq_iff)
  have only: "l = k" if "(t, l) \<in> used_at (unat (heap_start s)) bs" for l
    using layout_apart [OF heap_okD(1) [OF bs(1)] t(2) [unfolded used_at_layout] that [unfolded used_at_layout]] by auto
  have "(\<lambda>(t, k). t + 16) ` used_at (unat (heap_start s)) bs' = unat ` fst ` set own - {t + 16}"
    unfolding f(2) bs(2) [symmetric] using only by auto
  moreover have "distinct (map fst ?rest)" "fst ` set ?rest = fst ` set own - {?a}"
    unfolding x(2,3) using d by (simp_all add: x(1) image_Un)
  ultimately show ?thesis
    using f(1) diff [of "fst ` set own" ?a] t(1) unfolding owns_all_def s' by (metis kheap_state_start)
qed

lemma heap_run_owns: "owns_all s own \<Longrightarrow> heap_run ops s own = Some (s', own') \<Longrightarrow> owns_all s' own'"
proof (induction ops s own rule: heap_run.induct)
  case (2 n ops s own)
  then show ?case using owns_all_request [OF "2.prems"(1)] by (auto split: option.splits)
next
  case (3 i ops s own)
  then show ?case using owns_all_release [OF "3.prems"(1)] by (auto split: option.splits if_splits)
qed simp

section \<open>Properties\<close>

text \<open>A heap of 128 bytes at address 4096 with one free block.\<close>

definition heap_demo :: kheap_state where
  "heap_demo = \<lparr>bitmap = (\<lambda>_. 0), total_pages = 0, free_pages = 0, frame_refs = (\<lambda>_. 0),
     mmap_region_count = 0, reported_mem_upper_kb = 0, page_dir_phys = 0, cr3 = 0,
     pmem = store_hdr (\<lambda>_. 0) 4096 112, heap_start = 4096, heap_size = 128\<rparr>"

lemma heap_demo_ok: "heap_ok heap_demo [(112, False)]"
proof -
  have "hdr (store_hdr (\<lambda>_. 0) 4096 112) 4096 112 False" by (rule hdr_store_hdr) simp
  then show ?thesis by (simp add: heap_ok_def heap_demo_def)
qed

text \<open>C11: On a well-formed heap \<^verbatim>\<open>kmalloc\<close> returns and is first fit: it returns NULL exactly when
  no free block holds the rounded request, and otherwise the payload of the first block that
  does, split when the rest can hold another block; the heap stays well formed.\<close>

theorem kmalloc_first_fit:
  assumes "heap_ok s bs"
  shows "case halloc (hneed (unat sz)) (unat (heap_start s)) bs of
      None \<Rightarrow> kmalloc sz s = Some (0, s)
    | Some (p, bs') \<Rightarrow> \<exists>s'. kmalloc sz s = Some (word_of_nat (p + 16), s') \<and> heap_ok s' bs'"
  using assms by (cases rule: kmalloc_cases [of s bs sz]) (simp, auto)

theorem kmalloc_first_fit_witness:
  "\<exists>s'. kmalloc 20 heap_demo = Some (4112, s') \<and> heap_ok s' [(32, True), (64, False)]"
proof -
  have "hneed (unat (20::u32)) = 32" by (simp add: hneed_def)
  then have "halloc (hneed (unat (20::u32))) (unat (heap_start heap_demo)) [(112, False)] =
      Some (4096, [(32, True), (64, False)])" by (simp add: heap_demo_def)
  with kmalloc_first_fit [OF heap_demo_ok, of 20] show ?thesis by simp
qed

text \<open>C10: For every sequence of \<^verbatim>\<open>kmalloc\<close> and \<^verbatim>\<open>kfree\<close> calls by clients that free only what they own, every call
  returns, and every block owned at the end is live, 16-byte aligned and inside the heap, and no two of them
  overlap.\<close>

theorem kheap_never_overlaps:
  assumes "heap_inv s"
  shows "\<exists>s' own. heap_run ops s [] = Some (s', own) \<and> heap_inv s' \<and>
    (\<forall>(a, n) \<in> set own. heap_live s' a n \<and> 16 dvd unat a \<and> unat (heap_start s) + 16 \<le> unat a \<and>
      unat a + max 1 (unat n) \<le> unat (heap_start s) + unat (heap_size s)) \<and>
    (\<forall>i j. i < j \<longrightarrow> j < length own \<longrightarrow>
      heap_region (fst (own ! i)) (snd (own ! i)) \<inter> heap_region (fst (own ! j)) (snd (own ! j)) = {})"
proof -
  have "heap.own_ok s []" using assms by (simp add: heap.own_ok_def)
  then obtain s' own where r: "heap_run ops s [] = Some (s', own)" "heap.own_ok s' own"
    "heap_start s' = heap_start s" "heap_size s' = heap_size s"
    using heap_run_ok by blast
  have "16 dvd unat a \<and> unat (heap_start s) + 16 \<le> unat a \<and>
      unat a + max 1 (unat n) \<le> unat (heap_start s) + unat (heap_size s)" if "heap_live s' a n" for a n
    using heap_live_inside [OF that] r(3,4) by simp
  with r show ?thesis
    by (auto simp: heap.own_ok_def sorted_wrt_iff_nth_less heap.apart_def)
qed

theorem kheap_never_overlaps_witness:
  "\<exists>s' own. heap_run [Request 20, Request 5, Release 0] heap_demo [] = Some (s', own) \<and> heap_inv s' \<and>
    (\<forall>(a, n) \<in> set own. heap_live s' a n \<and> 16 dvd unat a \<and> unat (heap_start heap_demo) + 16 \<le> unat a \<and>
      unat a + max 1 (unat n) \<le> unat (heap_start heap_demo) + unat (heap_size heap_demo)) \<and>
    (\<forall>i j. i < j \<longrightarrow> j < length own \<longrightarrow>
      heap_region (fst (own ! i)) (snd (own ! i)) \<inter> heap_region (fst (own ! j)) (snd (own ! j)) = {})"
  by (rule kheap_never_overlaps) (use heap_demo_ok in \<open>auto simp: heap_inv_def\<close>)

lemma kmalloc_keeps_bytes:
  assumes "heap_ok s bs" and "kmalloc sz s = Some (p, s')" and "(t, k) \<in> used_at (unat (heap_start s)) bs"
    and "t + 16 \<le> unat x" and "unat x < t + 16 + k"
  shows "pmem s' x = pmem s x"
  using assms(1)
proof (cases rule: kmalloc_cases [of s bs sz])
  case fail
  with assms(2) show ?thesis by simp
next
  case (ok q bs' m' n k')
  have ux: "unat x < 4294967296" "word_of_nat (unat x) = x" by (simp_all add: unat_u32_lt)
  have "t + 16 + k \<le> q \<or> q + 16 + n \<le> t" using used_apart [OF assms(1,3) ok(4)] by simp
  with ok(8) [OF ux(1)] assms(2,4,5) ux(2) ok(1) show ?thesis by auto
qed

text \<open>C12: Neither \<^verbatim>\<open>kmalloc\<close> nor \<^verbatim>\<open>kfree\<close> of a live block changes a byte of the payload of
  any live block, the freed one included.\<close>

theorem kheap_keeps_payloads:
  assumes "heap_ok s bs" and "(t, k) \<in> used_at (unat (heap_start s)) bs"
    and "(f, l) \<in> used_at (unat (heap_start s)) bs" and "t + 16 \<le> unat x" and "unat x < t + 16 + k"
  shows "(\<exists>p s'. kmalloc sz s = Some (p, s') \<and> pmem s' x = pmem s x) \<and>
    (\<exists>s'. kfree (word_of_nat (f + 16)) s = Some s' \<and> pmem s' x = pmem s x)"
proof
  have ux: "unat x < 4294967296" "word_of_nat (unat x) = x" by (simp_all add: unat_u32_lt)
  have "heap_inv s" using assms(1) by (auto simp: heap_inv_def)
  then show "\<exists>p s'. kmalloc sz s = Some (p, s') \<and> pmem s' x = pmem s x"
    using heap.alloc_returns kmalloc_keeps_bytes [OF assms(1) _ assms(2,4,5)] by blast
  obtain bs' m' where f: "kfree (word_of_nat (f + 16)) s = Some (s\<lparr>pmem := m'\<rparr>)"
    "\<And>x. x < 4294967296 \<Longrightarrow> (\<And>b k u. (b, k, u) \<in> set (layout (unat (heap_start s)) bs) \<Longrightarrow>
      x < b \<or> b + 16 \<le> x) \<Longrightarrow> m' (word_of_nat x) = pmem s (word_of_nat x)"
    by (rule kfree_live [OF assms(1,3)]) blast
  have "unat x < b \<or> b + 16 \<le> unat x" if "(b, n, u) \<in> set (layout (unat (heap_start s)) bs)" for b n u
    using layout_apart [OF heap_okD(1) [OF assms(1)] assms(2) [unfolded used_at_layout] that] assms(4,5)
    by auto
  with f(2) [OF ux(1)] ux(2) have "m' x = pmem s x" by auto
  with f(1) show "\<exists>s'. kfree (word_of_nat (f + 16)) s = Some s' \<and> pmem s' x = pmem s x" by simp
qed

definition heap_demo2 :: kheap_state where
  "heap_demo2 = heap_demo\<lparr>pmem := taken (pmem heap_demo) 4096 112 32\<rparr>"

lemma heap_demo2_ok: "heap_ok heap_demo2 [(32, True), (64, False)]"
proof -
  have "hdr (pmem heap_demo) 4096 112 False" by (simp add: heap_demo_def hdr_store_hdr)
  from taken_hdr(1) [OF this, of 32] show ?thesis
    by (simp add: heap_ok_def heap_demo2_def) (simp add: heap_demo_def)
qed

theorem kheap_keeps_payloads_witness:
  "(\<exists>p s'. kmalloc 8 heap_demo2 = Some (p, s') \<and> pmem s' 4120 = pmem heap_demo2 4120) \<and>
   (\<exists>s'. kfree (word_of_nat (4096 + 16)) heap_demo2 = Some s' \<and> pmem s' 4120 = pmem heap_demo2 4120)"
  by (rule kheap_keeps_payloads [OF heap_demo2_ok, of 4096 32 4096 32])
    (simp_all add: heap_demo2_def heap_demo_def)

text \<open>C13: No fragmentation.  Whatever sequence of \<^verbatim>\<open>kmalloc\<close> and \<^verbatim>\<open>kfree\<close> calls a client makes on a heap that is one
  free block, once it owns nothing the heap is that one free block again, so that every later request is served as it
  would have been at the start.\<close>

theorem kheap_no_fragmentation:
  assumes "heap_ok s [(n, False)]" and "heap_run ops s [] = Some (s', [])"
  shows "heap_ok s' [(n, False)] \<and> map_option fst (kmalloc sz s') = map_option fst (kmalloc sz s)"
proof -
  have "owns_all s []" using assms(1) by (auto simp: owns_all_def intro!: exI [of _ "[(n, False)]"])
  from heap_run_owns [OF this assms(2)] obtain bs where bs: "heap_ok s' bs" "used_at (unat (heap_start s')) bs = {}"
    by (auto simp: owns_all_def)
  have "heap.own_ok s []" using assms(1) by (auto simp: heap.own_ok_def heap_inv_def)
  from heap_run_ok [OF this, of ops] assms(2) have h: "heap_start s' = heap_start s" "heap_size s' = heap_size s" by auto
  have n: "16 + n = unat (heap_size s)" using heap_okD(1) [OF assms(1)] by simp
  then have "bs \<noteq> []" using heap_okD(1) [OF bs(1)] h(2) by auto
  then obtain n' where "bs = [(n', False)]"
    using all_free_single [OF _ bs(2)] bs(1) by (auto simp: heap_ok_def)
  moreover from this heap_okD(1) [OF bs(1)] h n have "n' = n" by simp
  ultimately have ok: "heap_ok s' [(n, False)]" using bs(1) by simp
  have "map_option fst (kmalloc sz t) = Some (case halloc (hneed (unat sz)) (unat (heap_start t)) [(n, False)] of
      None \<Rightarrow> 0 | Some (p, _) \<Rightarrow> word_of_nat (p + 16))" if "heap_ok t [(n, False)]" for t :: "'a kheap_state_scheme"
    using that by (cases rule: kmalloc_cases [of t "[(n, False)]" sz]) auto
  then show ?thesis using ok assms(1) h(1) by metis
qed

theorem kheap_no_fragmentation_witness:
  "\<exists>s'. heap_run [Request 20, Request 5, Release 1, Release 0] heap_demo [] = Some (s', []) \<and> heap_ok s' [(112, False)]"
proof -
  let ?ops = "[Request 20, Request 5, Release 1, Release 0]"
  have h: "halloc (hneed (unat (20::u32))) (unat (heap_start heap_demo)) [(112, False)] = Some (4096, [(32, True), (64, False)])"
    by (simp add: heap_demo_def hneed_def)
  obtain s1 where s1: "kmalloc 20 heap_demo = Some (4112, heap_demo\<lparr>pmem := s1\<rparr>)" "heap_ok (heap_demo\<lparr>pmem := s1\<rparr>) [(32, True), (64, False)]"
    by (rule kmalloc_refines [OF heap_demo_ok h]) simp
  have h2: "halloc (hneed (unat (5::u32))) (unat (heap_start (heap_demo\<lparr>pmem := s1\<rparr>))) [(32, True), (64, False)] =
      Some (4144, [(32, True), (16, True), (32, False)])"
    by (simp add: heap_demo_def hneed_def)
  obtain s2 where s2: "kmalloc 5 (heap_demo\<lparr>pmem := s1\<rparr>) = Some (4160, heap_demo\<lparr>pmem := s2\<rparr>)"
    by (rule kmalloc_refines [OF s1(2) h2]) simp
  have "heap.own_ok heap_demo []" using heap_demo_ok by (auto simp: heap.own_ok_def heap_inv_def)
  from heap_run_ok [OF this, of ?ops] obtain s' own where r: "heap_run ?ops heap_demo [] = Some (s', own)" by blast
  then have "own = []" using s1(1) s2 by (auto split: option.splits)
  with r have "heap_run ?ops heap_demo [] = Some (s', [])" by simp
  with kheap_no_fragmentation [OF heap_demo_ok this] show ?thesis by blast
qed

text \<open>Writing inside the payload of a used block keeps the chain.\<close>

lemma heap_ok_payload:
  assumes "heap_ok s bs" and "(t, k) \<in> used_at (unat (heap_start s)) bs"
    and "\<And>x. x < t + 16 \<or> t + 16 + k \<le> x \<Longrightarrow> x < 4294967296 \<Longrightarrow> m' (word_of_nat x) = pmem s (word_of_nat x)"
  shows "heap_ok (s\<lparr>pmem := m'\<rparr>) bs"
proof -
  have "chain m' (unat (heap_start s)) bs (unat (heap_start s) + unat (heap_size s))"
  proof (rule chain_cong [OF heap_okD(1) [OF assms(1)]])
    fix b n u x
    assume b: "(b, n, u) \<in> set (layout (unat (heap_start s)) bs)" and x: "b \<le> x" "x < b + 12"
    have "x < t + 16 \<or> t + 16 + k \<le> x"
      using layout_apart [OF heap_okD(1) [OF assms(1)] assms(2) [unfolded used_at_layout] b] x by auto
    moreover have "x < 4294967296" using chain_layout [OF heap_okD(1) [OF assms(1)] b] x heap_okD(2) [OF assms(1)] by simp
    ultimately show "pmem s (word_of_nat x) = m' (word_of_nat x)" using assms(3) by simp
  qed
  then show ?thesis using assms(1) by (simp add: heap_ok_def)
qed

lemma kcalloc_total:
  fixes num sz :: u32
  defines "tot \<equiv> ucast num * ucast sz :: u64"
  shows "tot > 0xFFFFFFFF \<longleftrightarrow> 4294967296 \<le> unat num * unat sz"
    and "\<not> tot > 0xFFFFFFFF \<Longrightarrow> (ucast tot :: u32) = num * sz \<and> unat (num * sz) = unat num * unat sz"
proof -
  have "unat num * unat sz < 2 ^ 64"
    using unat_u32_lt [of num] unat_u32_lt [of sz] mult_strict_mono [of "unat num" 4294967296 "unat sz" 4294967296]
    by simp
  moreover have "unat (ucast a :: u64) = unat (a :: u32)" for a
    using unat_u32_lt [of a] by (simp add: unsigned_ucast_eq take_bit_nat_eq_self)
  ultimately have t: "unat tot = unat num * unat sz" by (simp add: tot_def unat_word_ariths)
  then show g: "tot > 0xFFFFFFFF \<longleftrightarrow> 4294967296 \<le> unat num * unat sz" by (auto simp: word_less_nat_alt)
  assume "\<not> tot > 0xFFFFFFFF"
  then have b: "unat num * unat sz < 4294967296" using g by simp
  then have m: "unat (num * sz) = unat num * unat sz" by (simp add: unat_word_ariths)
  have "unat (ucast tot :: u32) = unat num * unat sz" using t b by (simp add: unsigned_ucast_eq take_bit_nat_eq_self)
  with m show "(ucast tot :: u32) = num * sz \<and> unat (num * sz) = unat num * unat sz" by (simp add: word_unat_eq_iff)
qed

text \<open>C14: \<^verbatim>\<open>kcalloc\<close> returns.  It refuses a product that does not fit in 32 bits and changes nothing; otherwise it
  returns what \<^verbatim>\<open>kmalloc\<close> returns for the product.  The heap stays well formed; a block it returns is live for the
  product and all its bytes are zero; blocks that were live stay live and keep their contents.\<close>

theorem kcalloc_zeroed:
  assumes "heap_inv s"
  shows "\<exists>p s'. kcalloc num sz s = Some (p, s') \<and> heap_inv s' \<and>
    (if 4294967296 \<le> unat num * unat sz then p = 0 \<and> s' = s else map_option fst (kmalloc (num * sz) s) = Some p) \<and>
    (p \<noteq> 0 \<longrightarrow> heap_live s' p (num * sz) \<and> unat (num * sz) = unat num * unat sz \<and>
      (\<forall>x. in_range x p (unat num * unat sz) \<longrightarrow> pmem s' x = 0)) \<and>
    (\<forall>c m. heap_live s c m \<longrightarrow> heap_live s' c m \<and> (\<forall>x. unat c \<le> unat x \<and> unat x < unat c + unat m \<longrightarrow> pmem s' x = pmem s x))"
proof (cases "4294967296 \<le> unat num * unat sz")
  case True
  then show ?thesis using assms kcalloc_total(1) [of num sz] by (simp add: kcalloc_def)
next
  case False
  obtain bs where bs: "heap_ok s bs" using assms by (auto simp: heap_inv_def)
  have tot: "\<not> ucast num * ucast sz > (0xFFFFFFFF :: u64)" "ucast (ucast num * ucast sz :: u64) = num * sz"
    "unat (num * sz) = unat num * unat sz"
    using False kcalloc_total [of num sz] by auto
  obtain p s1 where k: "kmalloc (num * sz) s = Some (p, s1)" using heap.alloc_returns [OF assms] by blast
  note ha = heap_alloc [OF assms k]
  show ?thesis
  proof (cases "p = 0")
    case True
    have "s1 = s" using bs k True by (cases rule: kmalloc_cases [of s bs "num * sz"]) auto
    then show ?thesis using False True tot k assms by (simp add: kcalloc_def)
  next
    case nz: False
    define s' where "s' = s1\<lparr>pmem := memset p 0 (num * sz) (pmem s1)\<rparr>"
    have c: "kcalloc num sz s = Some (p, s')" using tot k nz by (simp add: kcalloc_def s'_def)
    obtain bs' where bs': "heap_ok s1 bs'" using ha(1) by (auto simp: heap_inv_def)
    obtain t l where t: "unat p = t + 16" "(t, l) \<in> used_at (unat (heap_start s1)) bs'" "unat (num * sz) \<le> l"
      by (rule heap_live_block [OF bs' ha(3) [OF nz]])
    have lim: "t + 16 + l < 4294967296"
      using chain_layout [OF heap_okD(1) [OF bs'] t(2) [unfolded used_at_layout]] heap_okD(2) [OF bs'] by simp
    have r: "in_range x p (unat (num * sz)) \<longleftrightarrow> t + 16 \<le> unat x \<and> unat x < t + 16 + unat (num * sz)" for x
      using t(1,3) lim by (auto simp: in_range_def unat_sub_if' split: if_splits)
    have ok': "heap_ok s' bs'" unfolding s'_def
      by (rule heap_ok_payload [OF bs' t(2)]) (use t(3) in \<open>auto simp: memset_spec r unat_of_nat_u32\<close>)
    have st: "heap_start s' = heap_start s1" by (simp add: s'_def)
    have live: "heap_live s' c m" if "heap_live s1 c m" for c m
      by (rule heap_live_block [OF bs' that]) (use ok' in \<open>auto simp: heap_live_def st\<close>)
    have bytes: "pmem s' x = pmem s x" if l: "heap_live s c m" "unat c \<le> unat x" "unat x < unat c + unat m" for c m x
    proof -
      obtain tc lc where tc: "unat c = tc + 16" "(tc, lc) \<in> used_at (unat (heap_start s)) bs" "unat m \<le> lc"
        by (rule heap_live_block [OF bs l(1)])
      have "pmem s1 x = pmem s x" by (rule kmalloc_keeps_bytes [OF bs k tc(2)]) (use tc l in auto)
      moreover have "x \<in> heap_region c m" using l by (simp add: heap_region_def)
      then have "x \<notin> heap_region p (num * sz)" using ha(4) [OF nz l(1)] by blast
      then have "\<not> in_range x p (unat (num * sz))" unfolding r using t(1) by (auto simp: heap_region_def)
      ultimately show ?thesis by (simp add: s'_def memset_spec)
    qed
    have "heap_inv s'" using ok' by (auto simp: heap_inv_def)
    moreover have "\<forall>x. in_range x p (unat num * unat sz) \<longrightarrow> pmem s' x = 0" using tot(3) by (simp add: s'_def memset_spec)
    ultimately show ?thesis using c k False tot(3) live ha(2,3) nz bytes by auto
  qed
qed

theorem kcalloc_zeroed_witness:
  "\<exists>s'. kcalloc 2 4 heap_demo = Some (4112, s') \<and> heap_live s' 4112 8 \<and> (\<forall>x. in_range x 4112 8 \<longrightarrow> pmem s' x = 0)"
proof -
  have "halloc (hneed (unat (8::u32))) (unat (heap_start heap_demo)) [(112, False)] =
      Some (4096, [(16, True), (80, False)])" by (simp add: heap_demo_def hneed_def)
  then obtain m' where k: "kmalloc 8 heap_demo = Some (word_of_nat (4096 + 16), heap_demo\<lparr>pmem := m'\<rparr>)"
    by (rule kmalloc_refines [OF heap_demo_ok]) blast
  have "heap_inv heap_demo" using heap_demo_ok by (auto simp: heap_inv_def)
  from kcalloc_zeroed [OF this, of 2 4] k show ?thesis by auto
qed

text \<open>\<^verbatim>\<open>kheap_init\<close> on a sound frame allocator returns; when it gets its 256 contiguous frames
  it leaves a well-formed heap of one free block of 1 MiB less the header.\<close>

theorem kheap_init_ok:
  assumes "frames_inv s"
  shows "\<exists>s'. kheap_init s = Some s' \<and>
    ((\<exists>s1. mm_alloc_pages KHEAP_PAGES s = Some (0, s1) \<and> s' = s1) \<or>
     heap_ok s' [(1048560, False)] \<and> heap_size s' = 1048576)"
proof -
  have inv: "mm_inv s" "bitmap_test 0 s" using assms by (simp_all add: frames_inv_def)
  from inv(1) show ?thesis
  proof (cases rule: mm_alloc_pages_cases [of s KHEAP_PAGES])
    case fail
    then show ?thesis by (simp add: kheap_init_def)
  next
    case (ok b t)
    have fb: "unat b + 256 \<le> unat (total_pages s)" "run_free s b 256"
      using ok(3) by (simp_all add: is_first_run_def KHEAP_PAGES_def)
    have tl: "unat (total_pages s) \<le> 262144" by (rule mm_inv_total [OF inv(1)])
    have bl: "unat b < 1048576" using fb tl by simp
    have a: "unat (b * PAGE_SIZE) = unat b * 4096" by (rule frame_addr_div(3) [OF bl])
    have "b \<noteq> 0" using fb(2) inv(2) by (auto simp: run_free_def block_def)
    then have nz: "b * PAGE_SIZE \<noteq> 0" using a by (auto simp: word_unat_eq_iff)
    let ?s = "t\<lparr>heap_start := b * PAGE_SIZE, heap_size := 1048576\<rparr>"
    let ?s' = "?s\<lparr>pmem := store_hdr (pmem t) (unat (b * PAGE_SIZE)) 1048560\<rparr>"
    have "new_block (word_of_nat (unat (b * PAGE_SIZE))) (word_of_nat 1048560) ?s = ?s'"
      unfolding new_block_mem by simp
    then have i: "kheap_init s = Some ?s'"
      using ok(2) nz by (simp add: kheap_init_def Let_def KHEAP_PAGES_def PAGE_SIZE_def KHEAP_HEADER_def)
    have lim: "unat (b * PAGE_SIZE) + 1048592 < 4294967296" using a fb tl by simp
    then have "hdr (pmem ?s') (unat (b * PAGE_SIZE)) 1048560 False"
      by (simp add: hdr_store_hdr)
    moreover have "16 dvd unat (b * PAGE_SIZE)" using a by (simp add: dvd_mult)
    ultimately have "heap_ok ?s' [(1048560, False)]" using nz lim by (simp add: heap_ok_def)
    with i show ?thesis by simp
  qed
qed

definition boot_demo :: kheap_state where
  "boot_demo = \<lparr>bitmap = (\<lambda>i. if i = 0 then 1 else 0), total_pages = 512, free_pages = 511,
     frame_refs = (\<lambda>_. 0), mmap_region_count = 0, reported_mem_upper_kb = 0,
     page_dir_phys = 0, cr3 = 0, pmem = (\<lambda>_. 0), heap_start = 0, heap_size = 0\<rparr>"

lemma boot_demo_test: "bitmap_test f boot_demo \<longleftrightarrow> f = 0"
proof -
  have "f div 32 = 0 \<Longrightarrow> f mod 32 = f" by (metis div_mult_mod_eq mult_zero_left add_0)
  then show ?thesis by (auto simp: bitmap_test_def boot_demo_def mask_exp_test bit_1_iff unat_eq_0)
qed

lemma boot_demo_inv: "frames_inv boot_demo"
proof -
  have "free_set boot_demo = (word_of_nat :: nat \<Rightarrow> u32) ` {1..<512}"
  proof (intro equalityI subsetI)
    fix f assume "f \<in> free_set boot_demo"
    then have "f < 512" "f \<noteq> 0" by (auto simp: free_set_def boot_demo_test) (simp add: boot_demo_def)
    then have "unat f \<in> {1..<512}" by (auto simp: word_less_nat_alt word_unat_eq_iff)
    then show "f \<in> word_of_nat ` {1..<512}" by (intro image_eqI [of _ _ "unat f"]) simp_all
  next
    fix f :: u32 assume "f \<in> word_of_nat ` {1..<512}"
    then obtain k where k: "f = word_of_nat k" "0 < k" "k < 512" by auto
    then have "unat f = k" by (simp add: unat_of_nat_u32)
    with k(2,3) have "f \<noteq> 0" "f < total_pages boot_demo"
      by (auto simp: word_less_nat_alt boot_demo_def)
    then show "f \<in> free_set boot_demo" by (simp add: free_set_def boot_demo_test)
  qed
  moreover have "inj_on (word_of_nat :: nat \<Rightarrow> u32) {1..<512}"
    by (rule inj_onI) (simp add: word_of_nat_u32_eq)
  ultimately have "card (free_set boot_demo) = 511" by (simp add: card_image)
  then show ?thesis
    by (simp add: frames_inv_def mm_inv_def boot_demo_test) (simp add: boot_demo_def MM_MAX_PAGES_def)
qed

theorem kheap_init_ok_witness:
  "\<exists>s'. kheap_init boot_demo = Some s' \<and>
    ((\<exists>s1. mm_alloc_pages KHEAP_PAGES boot_demo = Some (0, s1) \<and> s' = s1) \<or>
     heap_ok s' [(1048560, False)] \<and> heap_size s' = 1048576)"
  by (rule kheap_init_ok [OF boot_demo_inv])

end
