(* ===== verification/Paging.thy ===== *)
theory Paging
  imports Frames Kstring
begin

text \<open>
  Page directories and tables of \<^verbatim>\<open>src/mm.c\<close>: kernel mappings, per-process user directories and
  the copy-on-write helpers.  Directories and tables are pages of 1024 little-endian 32-bit
  entries in physical memory, reached through the identity map; \<open>ent\<close> reads one entry.  The
  field \<open>cr3\<close> is the CPU register.  The code keeps the kernel directory in the two variables
  \<^verbatim>\<open>page_directory\<close> and \<^verbatim>\<open>page_dir_phys\<close>, which it always sets together; both are
  \<open>page_dir_phys\<close> here.  \<^verbatim>\<open>invlpg\<close> and reloads of an unchanged \<^verbatim>\<open>CR3\<close> only drop cached
  translations and leave the state alone.
\<close>

section \<open>Constants\<close>

definition PDE_PRESENT :: u32 where "PDE_PRESENT = 1"
definition PTE_PRESENT :: u32 where "PTE_PRESENT = PDE_PRESENT"
definition PTE_WRITABLE :: u32 where "PTE_WRITABLE = 2"
definition PDE_USER :: u32 where "PDE_USER = 4"
definition PTE_USER :: u32 where "PTE_USER = PDE_USER"
definition PAGE_KERNEL :: u32 where "PAGE_KERNEL = PDE_PRESENT OR PTE_WRITABLE"
definition USER_BASE :: u32 where "USER_BASE = 0x08048000"
definition USER_SIZE :: u32 where "USER_SIZE = 8 * 1024 * 1024"
definition USER_END :: u32 where "USER_END = USER_BASE + USER_SIZE"
definition USER_SIGTRAMP :: u32 where "USER_SIGTRAMP = USER_END - 0x1000"

lemmas page_flags = PDE_PRESENT_def PTE_PRESENT_def PTE_WRITABLE_def PDE_USER_def PTE_USER_def
  PAGE_KERNEL_def
lemmas user_window = USER_BASE_def USER_SIZE_def USER_END_def USER_SIGTRAMP_def

section \<open>Entries\<close>

definition ent :: "memory \<Rightarrow> u32 \<Rightarrow> u32 \<Rightarrow> u32" where
  "ent m p i = load32 m (p + 4 * i)"

definition set_ent :: "u32 \<Rightarrow> u32 \<Rightarrow> u32 \<Rightarrow> 'a mm_state_scheme \<Rightarrow> 'a mm_state_scheme" where
  "set_ent p i v s = s\<lparr>pmem := store32 (pmem s) (p + 4 * i) v\<rparr>"

text \<open>The loops \<^verbatim>\<open>for (i = 0; i < 1024; i++) pt[i] = 0\<close> and \<^verbatim>\<open>dst[i] = src[i]\<close>.\<close>

definition zero_table :: "u32 \<Rightarrow> 'a mm_state_scheme \<Rightarrow> 'a mm_state_scheme" where
  "zero_table pt s = fold (\<lambda>i. set_ent pt i 0) (u32_range 0 1024) s"

definition copy_table :: "u32 \<Rightarrow> u32 \<Rightarrow> 'a mm_state_scheme \<Rightarrow> 'a mm_state_scheme" where
  "copy_table dst src s = fold (\<lambda>i s. set_ent dst i (ent (pmem s) src i) s) (u32_range 0 1024) s"

text \<open>Allocate a zeroed page table and enter it into slot \<open>i\<close> of a directory.\<close>

definition new_table ::
  "u32 \<Rightarrow> u32 \<Rightarrow> u32 \<Rightarrow> 'a mm_state_scheme \<Rightarrow> bool \<times> 'a mm_state_scheme" where
  "new_table pd i flags s =
     (case mm_alloc_page s of (pt, s) \<Rightarrow>
        if pt = NULL then (False, s)
        else (True, set_ent pd i (pt OR flags) (zero_table pt s)))"

abbreviation pd_index :: "u32 \<Rightarrow> u32" where
  "pd_index va \<equiv> drop_bit 22 va"

abbreviation pt_index :: "u32 \<Rightarrow> u32" where
  "pt_index va \<equiv> drop_bit 12 va AND 0x3FF"

section \<open>Kernel mappings\<close>

definition mm_map_page ::
  "u32 \<Rightarrow> u32 \<Rightarrow> u32 \<Rightarrow> 'a mm_state_scheme \<Rightarrow> bool \<times> 'a mm_state_scheme" where
  "mm_map_page phys virt flags s =
     (let pd = page_dir_phys s;
          (ok, s) = (if ent (pmem s) pd (pd_index virt) AND PDE_PRESENT = 0
                     then new_table pd (pd_index virt) PAGE_KERNEL s else (True, s))
      in if \<not> ok then (False, s)
         else
           let pt = ent (pmem s) pd (pd_index virt) AND PAGE_MASK
           in if ent (pmem s) pt (pt_index virt) AND PTE_PRESENT \<noteq> 0 then (False, s)
              else (True, set_ent pt (pt_index virt)
                      ((phys AND PAGE_MASK) OR (flags AND 0xFFF) OR PTE_PRESENT) s))"

definition mm_unmap_page :: "u32 \<Rightarrow> 'a mm_state_scheme \<Rightarrow> 'a mm_state_scheme" where
  "mm_unmap_page virt s =
     (let pde = ent (pmem s) (page_dir_phys s) (pd_index virt)
      in if pde AND PDE_PRESENT \<noteq> 0 then set_ent (pde AND PAGE_MASK) (pt_index virt) 0 s else s)"

definition mm_virt_to_phys :: "u32 \<Rightarrow> 'a mm_state_scheme \<Rightarrow> u32" where
  "mm_virt_to_phys virt s =
     (let pde = ent (pmem s) (page_dir_phys s) (pd_index virt)
      in if pde AND PDE_PRESENT = 0 then 0
         else let pte = ent (pmem s) (pde AND PAGE_MASK) (pt_index virt)
              in if pte AND PTE_PRESENT = 0 then 0 else (pte AND PAGE_MASK) + (virt AND 0xFFF))"

definition mm_get_page_directory :: "'a mm_state_scheme \<Rightarrow> u32" where
  "mm_get_page_directory s = page_dir_phys s"

text \<open>The loop of \<^verbatim>\<open>mm_user_map_range\<close>; it stops at the first frame that is not mapped.\<close>

fun user_map_frames :: "u32 list \<Rightarrow> 'a mm_state_scheme \<Rightarrow> bool \<times> 'a mm_state_scheme" where
  "user_map_frames [] s = (True, s)"
| "user_map_frames (pfn # pfns) s =
     (let pd = page_dir_phys s;
          pde = drop_bit 10 pfn
      in if ent (pmem s) pd pde AND PDE_PRESENT = 0 then (False, s)
         else
           let pt = ent (pmem s) pd pde AND PAGE_MASK
           in if ent (pmem s) pt (pfn AND 0x3FF) AND PTE_PRESENT = 0 then (False, s)
              else
                let s = set_ent pd pde (ent (pmem s) pd pde OR PDE_USER) s;
                    s = set_ent pt (pfn AND 0x3FF) (ent (pmem s) pt (pfn AND 0x3FF) OR PTE_USER) s
                in user_map_frames pfns s)"

definition mm_user_map_range ::
  "u32 \<Rightarrow> u32 \<Rightarrow> 'a mm_state_scheme \<Rightarrow> bool \<times> 'a mm_state_scheme" where
  "mm_user_map_range start stop s =
     (if stop \<le> start then (False, s)
      else
        let first = start div PAGE_SIZE;
            last = (stop - 1) div PAGE_SIZE + 1
        in if first \<ge> total_pages s \<or> last > total_pages s then (False, s)
           else case user_map_frames (u32_range first last) s of (ok, s) \<Rightarrow>
             if ok then (True, s\<lparr>cr3 := page_dir_phys s\<rparr>) else (False, s))"

section \<open>User directories\<close>

text \<open>The directory slots of the user window, first to last.\<close>

definition user_pdes :: "u32 list" where
  "user_pdes = u32_range (pd_index USER_BASE) (pd_index (USER_END - 1) + 1)"

definition mm_free_user_pd :: "u32 \<Rightarrow> 'a mm_state_scheme \<Rightarrow> 'a mm_state_scheme" where
  "mm_free_user_pd pd s =
     (if pd = NULL \<or> pd = page_dir_phys s then s
      else mm_free_page pd
        (fold (\<lambda>d s. if ent (pmem s) pd d AND PDE_PRESENT \<noteq> 0
                     then mm_free_page (ent (pmem s) pd d AND PAGE_MASK) s else s) user_pdes s))"

text \<open>One iteration of the mapping loop: make sure the table exists, then set the entry.  The
  same code, with other entry bits, maps the trampoline page.\<close>

definition map_user_page ::
  "u32 \<Rightarrow> u32 \<Rightarrow> u32 \<Rightarrow> 'a mm_state_scheme \<Rightarrow> bool \<times> 'a mm_state_scheme" where
  "map_user_page pd va entry s =
     (let (ok, s) = (if ent (pmem s) pd (pd_index va) AND PDE_PRESENT = 0
                     then new_table pd (pd_index va) (PAGE_KERNEL OR PDE_USER) s else (True, s))
      in if \<not> ok then (False, s)
         else (True, set_ent (ent (pmem s) pd (pd_index va) AND PAGE_MASK) (pt_index va) entry s))"

fun map_user_block ::
  "u32 \<Rightarrow> u32 \<Rightarrow> u32 list \<Rightarrow> 'a mm_state_scheme \<Rightarrow> bool \<times> 'a mm_state_scheme" where
  "map_user_block pd block_phys [] s = (True, s)"
| "map_user_block pd block_phys (i # is) s =
     (case map_user_page pd (USER_BASE + i * PAGE_SIZE)
             ((block_phys + i * PAGE_SIZE) OR PAGE_KERNEL OR PTE_USER) s of
        (ok, s) \<Rightarrow> if ok then map_user_block pd block_phys is s else (False, s))"

definition mm_create_user_pd ::
  "u32 \<Rightarrow> u32 \<Rightarrow> 'a mm_state_scheme \<Rightarrow> u32 \<times> 'a mm_state_scheme" where
  "mm_create_user_pd block_phys tramp_phys s =
     (if block_phys = 0 \<or> block_phys AND (PAGE_SIZE - 1) \<noteq> 0 then (0, s)
      else if tramp_phys = 0 \<or> tramp_phys AND (PAGE_SIZE - 1) \<noteq> 0 then (0, s)
      else case mm_alloc_page s of (pd, s) \<Rightarrow>
        if pd = NULL then (0, s)
        else
          let s = copy_table pd (page_dir_phys s) s;
              s = fold (\<lambda>d. set_ent pd d 0) user_pdes s;
              (ok, s) = map_user_block pd block_phys (u32_range 0 (USER_SIZE div PAGE_SIZE - 1)) s
          in if \<not> ok then (0, mm_free_user_pd pd s)
             else
               let (ok, s) = map_user_page pd USER_SIGTRAMP (tramp_phys OR PTE_PRESENT OR PTE_USER) s
               in if \<not> ok then (0, mm_free_user_pd pd s) else (pd, s))"

definition mm_switch_pd :: "u32 \<Rightarrow> 'a mm_state_scheme \<Rightarrow> 'a mm_state_scheme" where
  "mm_switch_pd pd_phys s = s\<lparr>cr3 := if pd_phys = 0 then page_dir_phys s else pd_phys\<rparr>"

definition mm_get_current_pd :: "'a mm_state_scheme \<Rightarrow> u32" where
  "mm_get_current_pd s = cr3 s AND PAGE_MASK"

text \<open>The loop of \<^verbatim>\<open>mm_clone_user_pd\<close> that copies the tables of the window.\<close>

fun clone_tables :: "u32 \<Rightarrow> u32 \<Rightarrow> u32 list \<Rightarrow> 'a mm_state_scheme \<Rightarrow> bool \<times> 'a mm_state_scheme" where
  "clone_tables src pd [] s = (True, s)"
| "clone_tables src pd (d # ds) s =
     (if ent (pmem s) src d AND PDE_PRESENT = 0 then clone_tables src pd ds (set_ent pd d 0 s)
      else case mm_alloc_page s of (npt, s) \<Rightarrow>
        if npt = NULL then (False, s)
        else
          let s = copy_table npt (ent (pmem s) src d AND PAGE_MASK) s;
              s = set_ent pd d (npt OR (ent (pmem s) src d AND NOT PAGE_MASK)) s
          in clone_tables src pd ds s)"

definition mm_clone_user_pd ::
  "u32 \<Rightarrow> u32 \<Rightarrow> 'a mm_state_scheme \<Rightarrow> u32 \<times> 'a mm_state_scheme" where
  "mm_clone_user_pd src tramp_phys s =
     (if src = 0 \<or> tramp_phys = 0 then (0, s)
      else case mm_alloc_page s of (pd, s) \<Rightarrow>
        if pd = NULL then (0, s)
        else
          let s = copy_table pd src s;
              (ok, s) = clone_tables src pd user_pdes s
          in if \<not> ok then (0, mm_free_user_pd pd s)
             else
               let tpt = ent (pmem s) pd (pd_index USER_SIGTRAMP) AND PAGE_MASK
               in (pd, set_ent tpt (pt_index USER_SIGTRAMP) (tramp_phys OR PTE_PRESENT OR PTE_USER) s))"

section \<open>Copy on write\<close>

text \<open>The address of an entry, \<^verbatim>\<open>NULL\<close> when there is no table.\<close>

definition user_pte :: "u32 \<Rightarrow> u32 \<Rightarrow> 'a mm_state_scheme \<Rightarrow> u32" where
  "user_pte pd va s =
     (if pd = 0 then NULL
      else let pde = ent (pmem s) pd (pd_index va)
           in if pde AND PDE_PRESENT = 0 then NULL else (pde AND PAGE_MASK) + 4 * pt_index va)"

definition mm_user_translate :: "u32 \<Rightarrow> u32 \<Rightarrow> 'a mm_state_scheme \<Rightarrow> u32" where
  "mm_user_translate pd va s =
     (let pte = user_pte pd va s
      in if pte = NULL \<or> load32 (pmem s) pte AND PTE_PRESENT = 0 then 0
         else (load32 (pmem s) pte AND PAGE_MASK) + (va AND 0xFFF))"

definition mm_user_make_writable ::
  "u32 \<Rightarrow> u32 \<Rightarrow> 'a mm_state_scheme \<Rightarrow> bool \<times> 'a mm_state_scheme" where
  "mm_user_make_writable pd va s =
     (let pte = user_pte pd va s;
          reload = (\<lambda>s. if mm_get_current_pd s = pd then mm_switch_pd pd s else s)
      in if pte = NULL \<or> load32 (pmem s) pte AND PTE_PRESENT = 0 then (False, s)
         else
           let e = load32 (pmem s) pte
           in if e AND PTE_WRITABLE \<noteq> 0 then (True, s)
              else
                let old = e AND PAGE_MASK;
                    flags = e AND NOT PAGE_MASK
                in if frame_refs s (drop_bit 12 old) > 1
                   then case mm_alloc_page s of (fresh, s) \<Rightarrow>
                     if fresh = 0 then (False, s)
                     else
                       let s = s\<lparr>pmem := memcpy fresh old PAGE_SIZE (pmem s)\<rparr>;
                           s = s\<lparr>pmem := store32 (pmem s) pte (fresh OR flags OR PTE_WRITABLE)\<rparr>
                       in (True, reload (page_unref (drop_bit 12 old) s))
                   else (True, reload (s\<lparr>pmem := store32 (pmem s) pte (e OR PTE_WRITABLE)\<rparr>)))"

text \<open>The pages visited by \<^verbatim>\<open>for (va = USER_BASE; va < USER_SIGTRAMP; va += PAGE_SIZE)\<close>.\<close>

definition user_pages :: "u32 list" where
  "user_pages = map (\<lambda>i. USER_BASE + i * PAGE_SIZE)
     (u32_range 0 ((USER_SIGTRAMP - USER_BASE) div PAGE_SIZE))"

definition protect_page :: "u32 \<Rightarrow> u32 \<Rightarrow> 'a mm_state_scheme \<Rightarrow> 'a mm_state_scheme" where
  "protect_page pd va s =
     (let pte = user_pte pd va s
      in if pte \<noteq> NULL \<and> load32 (pmem s) pte AND PTE_PRESENT \<noteq> 0
         then s\<lparr>pmem := store32 (pmem s) pte (load32 (pmem s) pte AND NOT PTE_WRITABLE)\<rparr>
         else s)"

definition mm_user_write_protect :: "u32 \<Rightarrow> 'a mm_state_scheme \<Rightarrow> 'a mm_state_scheme" where
  "mm_user_write_protect pd s =
     (if pd = 0 then s
      else
        let s = fold (protect_page pd) user_pages s
        in if mm_get_current_pd s = pd then mm_switch_pd pd s else s)"

definition release_page :: "u32 \<Rightarrow> u32 \<Rightarrow> 'a mm_state_scheme \<Rightarrow> 'a mm_state_scheme" where
  "release_page pd va s =
     (let pte = user_pte pd va s
      in if pte \<noteq> NULL \<and> load32 (pmem s) pte AND PTE_PRESENT \<noteq> 0
         then page_unref (drop_bit 12 (load32 (pmem s) pte AND PAGE_MASK)) s
         else s)"

definition mm_user_release_pages :: "u32 \<Rightarrow> 'a mm_state_scheme \<Rightarrow> 'a mm_state_scheme" where
  "mm_user_release_pages pd s = (if pd = 0 then s else fold (release_page pd) user_pages s)"

fun detach_pages :: "u32 \<Rightarrow> u32 list \<Rightarrow> 'a mm_state_scheme \<Rightarrow> bool \<times> 'a mm_state_scheme" where
  "detach_pages pd [] s = (True, s)"
| "detach_pages pd (va # vas) s =
     (let pte = user_pte pd va s
      in if pte \<noteq> NULL \<and> load32 (pmem s) pte AND PTE_PRESENT \<noteq> 0 \<and> load32 (pmem s) pte AND PTE_WRITABLE = 0
         then case mm_user_make_writable pd va s of
                (ok, s) \<Rightarrow> if ok then detach_pages pd vas s else (False, s)
         else detach_pages pd vas s)"

definition mm_user_detach_pages :: "u32 \<Rightarrow> 'a mm_state_scheme \<Rightarrow> bool \<times> 'a mm_state_scheme" where
  "mm_user_detach_pages pd s =
     (if pd = 0 then (False, s)
      else case detach_pages pd user_pages s of (ok, s) \<Rightarrow>
        if ok then (True, if mm_get_current_pd s = pd then mm_switch_pd pd s else s)
        else (False, s))"

section \<open>Pages and entries\<close>

abbreviation frame :: "u32 \<Rightarrow> u32" where
  "frame a \<equiv> drop_bit 12 a"

definition page_aligned :: "u32 \<Rightarrow> bool" where
  "page_aligned p \<longleftrightarrow> p AND 0xFFF = 0"

lemma PAGE_MASK_not: "PAGE_MASK = NOT (mask 12)"
  by (simp add: PAGE_MASK_def mask_eq_exp_minus_1)

lemma unat_frame: "unat (frame a) = unat a div 4096"
  by (simp add: unat_drop_bit_eq drop_bit_eq_div unat_div)

declare drop_bit_and [simp del] drop_bit_or [simp del]

lemma page_aligned_iff: "page_aligned p \<longleftrightarrow> unat p mod 4096 = 0"
  by (simp add: page_aligned_def and_fff word_unat_eq_iff unat_mod)

lemma unat_page_mask: "unat (a AND PAGE_MASK) = unat a div 4096 * 4096"
  by (simp add: PAGE_MASK_not unat_and_not_mask)

lemma page_aligned_mask [simp]: "page_aligned (a AND PAGE_MASK)"
  by (simp add: page_aligned_iff unat_page_mask)

lemma frame_mask [simp]: "frame (a AND PAGE_MASK) = frame a"
  by (simp add: word_unat_eq_iff unat_frame unat_page_mask)

lemma page_aligned_eq:
  assumes "page_aligned p" "page_aligned q"
  shows "p = q \<longleftrightarrow> frame p = frame q"
proof -
  have "unat p = unat p div 4096 * 4096" "unat q = unat q div 4096 * 4096"
    using assms by (simp_all add: page_aligned_iff div_mult_mod_eq [symmetric] minus_mod_eq_div_mult [symmetric])
  then show ?thesis by (metis unat_frame word_unat_eq_iff)
qed

lemma page_aligned_mask_id: "page_aligned p \<Longrightarrow> p AND PAGE_MASK = p"
  by (simp add: page_aligned_eq)

lemma pt_index_lt: "x AND 0x3FF < (1024::u32)"
proof -
  have "x AND 0x3FF = take_bit 10 x"
    by (simp add: take_bit_eq_mask mask_eq_exp_minus_1)
  then show ?thesis by (simp add: word_less_nat_alt unsigned_take_bit_eq take_bit_eq_mod unat_mod)
qed

lemma unat_pt_index: "unat (x AND 0x3FF :: u32) = unat x mod 1024"
proof -
  have "x AND 0x3FF = take_bit 10 x"
    by (simp add: take_bit_eq_mask mask_eq_exp_minus_1)
  then show ?thesis by (simp add: unsigned_take_bit_eq take_bit_eq_mod unat_mod)
qed

lemma pd_index_lt: "drop_bit 22 x < (1024::u32)"
  using unat_u32_lt [of x] by (simp add: word_less_nat_alt unat_drop_bit_eq drop_bit_eq_div unat_div)

lemma page_multiple:
  assumes "page_aligned p"
  shows "unat p = 4096 * unat (frame p)"
  using assms mult_div_mod_eq [of 4096 "unat p"] by (simp add: page_aligned_iff unat_frame)

lemma page_top:
  assumes "page_aligned p"
  shows "unat p + 4096 \<le> 4294967296"
proof -
  have "4096 * unat (frame p) < 4096 * 1048576"
    using page_multiple [OF assms] unat_u32_lt [of p] by simp
  then have "unat (frame p) + 1 \<le> 1048576" by simp
  then show ?thesis using page_multiple [OF assms] by linarith
qed

lemma unat_ent_addr:
  assumes "page_aligned p" and "i < 1024"
  shows "unat (p + 4 * i) = unat p + 4 * unat i"
proof -
  have i: "unat i < 1024" using assms(2) by (simp add: word_less_nat_alt)
  note page_top [OF assms(1)]
  moreover have "unat (4 * i) = 4 * unat i" using unat_mult_small [of 4 i] i by simp
  ultimately show ?thesis using unat_add_small [of p "4 * i"] i by simp
qed

lemma ent_addr_word:
  "page_aligned p \<Longrightarrow> i < 1024 \<Longrightarrow> p + 4 * i = word_of_nat (unat p + 4 * unat i)"
  using unat_ent_addr [of p i] by (metis word_unat_eq_iff unat_of_nat_u32 unat_u32_lt)

lemma ent_addr_bounds:
  assumes "page_aligned p" and "(i::u32) < 1024"
  shows "unat p + 4 * unat i + 3 < unat p + 4096" and "unat p + 4096 \<le> 4294967296"
proof -
  show "unat p + 4 * unat i + 3 < unat p + 4096" using assms(2) by (simp add: word_less_nat_alt)
  show "unat p + 4096 \<le> 4294967296" by (rule page_top [OF assms(1)])
qed

lemma aligned_pages_apart:
  assumes "page_aligned p" "page_aligned q" "p \<noteq> q"
  shows "unat p + 4096 \<le> unat q \<or> unat q + 4096 \<le> unat p"
proof -
  have "unat p \<noteq> unat q" using assms(3) by (simp add: word_unat_eq_iff)
  moreover note page_multiple [OF assms(1)] page_multiple [OF assms(2)]
  ultimately consider "unat (frame p) + 1 \<le> unat (frame q)" | "unat (frame q) + 1 \<le> unat (frame p)"
    by linarith
  then show ?thesis
    by cases (use page_multiple [OF assms(1)] page_multiple [OF assms(2)] in linarith)+
qed

lemma ent_store:
  assumes "page_aligned p" "page_aligned q" "i < 1024" "j < 1024"
  shows "ent (store32 m (p + 4 * i) v) q j = (if p = q \<and> i = j then v else ent m q j)"
proof (cases "p = q \<and> i = j")
  case False
  have "unat p + 4 * unat i + 4 \<le> unat q + 4 * unat j \<or> unat q + 4 * unat j + 4 \<le> unat p + 4 * unat i"
  proof (cases "p = q")
    case True
    with False have "unat i \<noteq> unat j" by (auto simp: word_unat_eq_iff)
    with True show ?thesis by auto
  next
    case False
    with aligned_pages_apart [OF assms(1,2)] assms(3,4) show ?thesis
      by (auto simp: word_less_nat_alt)
  qed
  moreover note ent_addr_bounds [OF assms(1,3)] ent_addr_bounds [OF assms(2,4)]
  ultimately have "load32 (store32 m (word_of_nat (unat p + 4 * unat i)) v)
      (word_of_nat (unat q + 4 * unat j)) = load32 m (word_of_nat (unat q + 4 * unat j))"
    by (intro load32_store32_apart) auto
  then have "ent (store32 m (p + 4 * i) v) q j = ent m q j"
    unfolding ent_def ent_addr_word [OF assms(1,3)] ent_addr_word [OF assms(2,4)] .
  then show ?thesis unfolding if_not_P [OF False] .
qed (simp add: ent_def)

lemma frame_range:
  assumes "page_aligned p"
  shows "frame x = frame p \<longleftrightarrow> unat p \<le> unat x \<and> unat x < unat p + 4096"
proof -
  have "unat x div 4096 = unat (frame p) \<longleftrightarrow>
      4096 * unat (frame p) \<le> unat x \<and> unat x < 4096 * unat (frame p) + 4096"
    by (auto simp: div_nat_eqI)
  moreover have "unat (frame x) = unat x div 4096" by (rule unat_frame)
  ultimately show ?thesis using page_multiple [OF assms] by (simp only: word_unat_eq_iff)
qed

text \<open>Bytes of a page: a store into one page leaves the bytes of the others alone.\<close>

lemma store_other_page:
  assumes "page_aligned p" "i < 1024" "frame x \<noteq> frame p"
  shows "store32 m (p + 4 * i) v x = m x"
proof -
  have "unat x < unat p \<or> unat p + 4096 \<le> unat x"
    using assms(3) by (auto simp: frame_range [OF assms(1)])
  then have "store32 m (word_of_nat (unat p + 4 * unat i)) v (word_of_nat (unat x)) = m (word_of_nat (unat x))"
    by (intro store32_byte) (use ent_addr_bounds [OF assms(1,2)] unat_u32_lt [of x] in auto)
  then show ?thesis unfolding ent_addr_word [OF assms(1,2)] by simp
qed

lemma ent_cong:
  assumes "page_aligned p" "i < 1024" "\<And>x. frame x = frame p \<Longrightarrow> m x = m' x"
  shows "ent m p i = ent m' p i"
  unfolding ent_def ent_addr_word [OF assms(1,2)]
proof (rule load32_cong)
  fix x assume x: "unat p + 4 * unat i \<le> x" "x < unat p + 4 * unat i + 4"
  with ent_addr_bounds [OF assms(1,2)] have "unat (word_of_nat x :: u32) = x" by simp
  with x ent_addr_bounds(1) [OF assms(1,2)] show "m (word_of_nat x) = m' (word_of_nat x)"
    by (intro assms(3)) (simp add: frame_range [OF assms(1)])
qed

lemma ent_set_ent:
  "page_aligned p \<Longrightarrow> page_aligned q \<Longrightarrow> i < 1024 \<Longrightarrow> j < 1024 \<Longrightarrow>
    ent (pmem (set_ent p i v s)) q j = (if p = q \<and> i = j then v else ent (pmem s) q j)"
  by (simp add: set_ent_def ent_store)

lemma set_ent_byte:
  "page_aligned p \<Longrightarrow> i < 1024 \<Longrightarrow> frame x \<noteq> frame p \<Longrightarrow> pmem (set_ent p i v s) x = pmem s x"
  by (simp add: set_ent_def store_other_page)

text \<open>The table loops only touch the memory of one page.\<close>

lemma set_ent_frame [simp]: "(set_ent p i v s)\<lparr>pmem := m\<rparr> = s\<lparr>pmem := m\<rparr>"
  by (simp add: set_ent_def)

lemma set_ent_keeps [simp]:
  "total_pages (set_ent p i v s) = total_pages s" "free_pages (set_ent p i v s) = free_pages s"
  "frame_refs (set_ent p i v s) = frame_refs s" "page_dir_phys (set_ent p i v s) = page_dir_phys s"
  "cr3 (set_ent p i v s) = cr3 s" "bitmap_test f (set_ent p i v s) = bitmap_test f s"
  "free_set (set_ent p i v s) = free_set s"
  by (simp_all add: set_ent_def)

lemma table_loop_frame:
  "fold (\<lambda>i s. set_ent p i (g i s) s) xs s =
     s\<lparr>pmem := pmem (fold (\<lambda>i s. set_ent p i (g i s) s) xs s)\<rparr>"
proof (induction xs arbitrary: s)
  case (Cons i xs)
  show ?case using Cons.IH [of "set_ent p i (g i s) s"] by simp
qed simp

lemma zero_table_frame: "zero_table p s = s\<lparr>pmem := pmem (zero_table p s)\<rparr>"
  unfolding zero_table_def by (rule table_loop_frame [of p "\<lambda>_ _. 0"])

lemma copy_table_frame: "copy_table p q s = s\<lparr>pmem := pmem (copy_table p q s)\<rparr>"
  unfolding copy_table_def by (rule table_loop_frame)

lemma table_loop_byte:
  assumes "page_aligned p" and "frame x \<noteq> frame p" and "\<forall>i \<in> set xs. i < 1024"
  shows "pmem (fold (\<lambda>i s. set_ent p i (g i s) s) xs s) x = pmem s x"
  using assms(3) by (induction xs arbitrary: s) (simp_all add: set_ent_byte assms)

lemma zero_table_byte:
  "page_aligned p \<Longrightarrow> frame x \<noteq> frame p \<Longrightarrow> pmem (zero_table p s) x = pmem s x"
  unfolding zero_table_def by (rule table_loop_byte [of p x _ "\<lambda>_ _. 0"]) simp_all

lemma copy_table_byte:
  "page_aligned p \<Longrightarrow> frame x \<noteq> frame p \<Longrightarrow> pmem (copy_table p q s) x = pmem s x"
  unfolding copy_table_def by (rule table_loop_byte) simp_all

lemma zero_loop_ent:
  assumes "page_aligned p" and "page_aligned q" and "j < 1024" and "\<forall>i \<in> set xs. i < 1024"
  shows "ent (pmem (fold (\<lambda>i. set_ent p i 0) xs s)) q j =
    (if p = q \<and> j \<in> set xs then 0 else ent (pmem s) q j)"
  using assms(4) by (induction xs arbitrary: s) (auto simp: ent_set_ent assms)

lemma zero_table_ent:
  "page_aligned p \<Longrightarrow> page_aligned q \<Longrightarrow> j < 1024 \<Longrightarrow>
    ent (pmem (zero_table p s)) q j = (if p = q then 0 else ent (pmem s) q j)"
  unfolding zero_table_def by (simp add: zero_loop_ent)

lemma copy_loop_ent:
  assumes "page_aligned p" and "page_aligned q" and "p \<noteq> q" and "page_aligned r" and "j < 1024"
    and "\<forall>i \<in> set xs. i < 1024"
  shows "ent (pmem (fold (\<lambda>i s. set_ent p i (ent (pmem s) q i) s) xs s)) r j =
    (if p = r \<and> j \<in> set xs then ent (pmem s) q j else ent (pmem s) r j)"
  using assms(6) by (induction xs arbitrary: s) (auto simp: ent_set_ent assms)

lemma copy_table_ent:
  "page_aligned p \<Longrightarrow> page_aligned q \<Longrightarrow> p \<noteq> q \<Longrightarrow> page_aligned r \<Longrightarrow> j < 1024 \<Longrightarrow>
    ent (pmem (copy_table p q s)) r j = (if p = r then ent (pmem s) q j else ent (pmem s) r j)"
  unfolding copy_table_def by (simp add: copy_loop_ent)

section \<open>Address spaces\<close>

text \<open>Entries by virtual page number; the user window lies in the pages \<open>window\<close> of the directory
  slots 32 to 34.\<close>

definition present :: "u32 \<Rightarrow> bool" where
  "present e \<longleftrightarrow> e AND PDE_PRESENT \<noteq> 0"

definition writable :: "u32 \<Rightarrow> bool" where
  "writable e \<longleftrightarrow> e AND PTE_WRITABLE \<noteq> 0"

definition window :: "u32 set" where
  "window = {v. drop_bit 10 v \<in> set user_pdes}"

definition pte :: "memory \<Rightarrow> u32 \<Rightarrow> u32 \<Rightarrow> u32" where
  "pte m pd v = (if present (ent m pd (drop_bit 10 v))
     then ent m (ent m pd (drop_bit 10 v) AND PAGE_MASK) (v AND 0x3FF) else 0)"

definition struct_frames :: "memory \<Rightarrow> u32 set \<Rightarrow> u32 set" where
  "struct_frames m D = frame ` D \<union>
     {frame (ent m pd d) | pd d. pd \<in> D \<and> d \<in> set user_pdes \<and> present (ent m pd d)}"

text \<open>The directories \<open>D\<close> own their tables, the tables are pairwise different, and what they map
  is never a directory or a table.  \<open>used\<close> are the allocated frames.\<close>

definition dirs_ok :: "memory \<Rightarrow> u32 set \<Rightarrow> u32 \<Rightarrow> u32 set \<Rightarrow> bool" where
  "dirs_ok m used kd D \<longleftrightarrow>
     (\<forall>pd \<in> D. page_aligned pd \<and> pd \<noteq> 0 \<and> pd \<noteq> kd) \<and>
     struct_frames m D \<subseteq> used - {0} \<and>
     (\<forall>pd \<in> D. \<forall>d \<in> set user_pdes. present (ent m pd d) \<longrightarrow> frame (ent m pd d) \<notin> frame ` D) \<and>
     (\<forall>pd \<in> D. \<forall>pd' \<in> D. \<forall>d \<in> set user_pdes. \<forall>d' \<in> set user_pdes.
        present (ent m pd d) \<and> present (ent m pd' d') \<and> frame (ent m pd d) = frame (ent m pd' d') \<longrightarrow>
        pd = pd' \<and> d = d') \<and>
     (\<forall>pd \<in> D. \<forall>v \<in> window. present (pte m pd v) \<longrightarrow>
        frame (pte m pd v) \<in> used - insert 0 (struct_frames m D))"

definition used_set :: "'a mm_state_scheme \<Rightarrow> u32 set" where
  "used_set s = {f. f < total_pages s \<and> bitmap_test f s}"

definition vm_ok :: "'a mm_state_scheme \<Rightarrow> u32 set \<Rightarrow> bool" where
  "vm_ok s D \<longleftrightarrow> frames_inv s \<and> dirs_ok (pmem s) (used_set s) (page_dir_phys s) D"

lemma user_pdes_lt: "d \<in> set user_pdes \<Longrightarrow> d < 1024"
  by (auto simp: user_pdes_def user_window word_less_nat_alt)

lemma window_index: "v \<in> window \<Longrightarrow> drop_bit 10 v < 1024"
  by (simp add: window_def user_pdes_lt del: set_u32_range)

lemma vpn_split: "drop_bit 10 v = drop_bit 10 v' \<Longrightarrow> v AND 0x3FF = v' AND 0x3FF \<Longrightarrow> v = (v'::u32)"
proof -
  assume "drop_bit 10 v = drop_bit 10 v'" "v AND 0x3FF = v' AND 0x3FF"
  then have "unat v div 1024 = unat v' div 1024" "unat v mod 1024 = unat v' mod 1024"
    by (simp_all add: word_unat_eq_iff unat_drop_bit_eq drop_bit_eq_div unat_div unat_pt_index)
  then show "v = v'" by (metis div_mult_mod_eq word_unat_eq_iff)
qed

lemma struct_framesI:
  "pd \<in> D \<Longrightarrow> frame pd \<in> struct_frames m D"
  "pd \<in> D \<Longrightarrow> d \<in> set user_pdes \<Longrightarrow> present (ent m pd d) \<Longrightarrow> frame (ent m pd d) \<in> struct_frames m D"
  by (auto simp: struct_frames_def)

text \<open>Memory that agrees on the directories and tables gives the same address spaces.\<close>

lemma same_spaces:
  assumes "\<forall>pd \<in> D. page_aligned pd" and "\<forall>x. frame x \<in> struct_frames m D \<longrightarrow> m' x = m x"
  shows "pd \<in> D \<Longrightarrow> d \<in> set user_pdes \<Longrightarrow> ent m' pd d = ent m pd d"
    and "pd \<in> D \<Longrightarrow> v \<in> window \<Longrightarrow> pte m' pd v = pte m pd v"
    and "struct_frames m' D = struct_frames m D"
proof -
  show e: "ent m' pd d = ent m pd d" if "pd \<in> D" "d \<in> set user_pdes" for pd d
    by (rule ent_cong) (use that assms struct_framesI user_pdes_lt in auto)
  show "pte m' pd v = pte m pd v" if "pd \<in> D" "v \<in> window"
  proof -
    have d: "drop_bit 10 v \<in> set user_pdes" using that(2) by (simp add: window_def)
    have "ent m' (ent m pd (drop_bit 10 v) AND PAGE_MASK) (v AND 0x3FF) =
        ent m (ent m pd (drop_bit 10 v) AND PAGE_MASK) (v AND 0x3FF)"
      if "present (ent m pd (drop_bit 10 v))"
      by (rule ent_cong) (use that assms(2) struct_framesI(2) [OF \<open>pd \<in> D\<close> d that] pt_index_lt in auto)
    then show ?thesis by (simp add: pte_def e [OF \<open>pd \<in> D\<close> d])
  qed
  show "struct_frames m' D = struct_frames m D"
    unfolding struct_frames_def using e by (auto; metis)
qed

lemma dirs_okD:
  assumes "dirs_ok m used kd D" and "pd \<in> D"
  shows "page_aligned pd" and "pd \<noteq> 0" and "pd \<noteq> kd" and "frame pd \<in> used"
    and "d \<in> set user_pdes \<Longrightarrow> present (ent m pd d) \<Longrightarrow>
      frame (ent m pd d) \<in> used \<and> frame (ent m pd d) \<noteq> 0 \<and> frame (ent m pd d) \<notin> frame ` D"
    and "v \<in> window \<Longrightarrow> present (pte m pd v) \<Longrightarrow> frame (pte m pd v) \<in> used"
    and "v \<in> window \<Longrightarrow> present (pte m pd v) \<Longrightarrow> frame (pte m pd v) \<notin> struct_frames m D"
    and "v \<in> window \<Longrightarrow> present (pte m pd v) \<Longrightarrow> frame (pte m pd v) \<noteq> 0"
proof -
  have o: "\<forall>pd \<in> D. page_aligned pd \<and> pd \<noteq> 0 \<and> pd \<noteq> kd" "struct_frames m D \<subseteq> used - {0}"
    "\<forall>pd \<in> D. \<forall>d \<in> set user_pdes. present (ent m pd d) \<longrightarrow> frame (ent m pd d) \<notin> frame ` D"
    "\<forall>pd \<in> D. \<forall>v \<in> window. present (pte m pd v) \<longrightarrow> frame (pte m pd v) \<in> used - insert 0 (struct_frames m D)"
    using assms(1) by (simp_all add: dirs_ok_def)
  show "page_aligned pd" "pd \<noteq> 0" "pd \<noteq> kd" using o(1) assms(2) by blast+
  show "frame pd \<in> used" using o(2) struct_framesI(1) [OF assms(2)] by blast
  show "frame (ent m pd d) \<in> used \<and> frame (ent m pd d) \<noteq> 0 \<and> frame (ent m pd d) \<notin> frame ` D"
    if "d \<in> set user_pdes" "present (ent m pd d)"
    using struct_framesI(2) [OF assms(2) that] o(2,3) assms(2) that by (simp add: subset_iff)
  show "frame (pte m pd v) \<in> used" "frame (pte m pd v) \<notin> struct_frames m D" "frame (pte m pd v) \<noteq> 0"
    if "v \<in> window" "present (pte m pd v)" using o(4) assms(2) that by blast+
qed

lemma dirs_ok_inj:
  assumes "dirs_ok m used kd D" "pd \<in> D" "pd' \<in> D" "d \<in> set user_pdes" "d' \<in> set user_pdes"
    "present (ent m pd d)" "present (ent m pd' d')" "frame (ent m pd d) = frame (ent m pd' d')"
  shows "pd = pd' \<and> d = d'"
  using assms unfolding dirs_ok_def by meson

lemma dirs_ok_mono: "dirs_ok m used kd D \<Longrightarrow> used \<subseteq> used' \<Longrightarrow> dirs_ok m used' kd D"
  unfolding dirs_ok_def by blast

lemma dirs_ok_same:
  assumes "dirs_ok m used kd D" and "\<forall>x. frame x \<in> struct_frames m D \<longrightarrow> m' x = m x"
  shows "dirs_ok m' used kd D"
proof -
  have "\<forall>pd \<in> D. page_aligned pd" using dirs_okD(1) [OF assms(1)] by blast
  note e = same_spaces [of D m m', OF this assms(2)]
  from e(3) have "struct_frames m' D = struct_frames m D" .
  then show ?thesis using assms(1) e(1,2) unfolding dirs_ok_def by (simp cong: ball_cong)
qed

lemma pte_store:
  fixes m :: memory and pd v e :: u32 and D :: "u32 set"
  defines "t \<equiv> ent m pd (drop_bit 10 v) AND PAGE_MASK"
  defines "m' \<equiv> store32 m (t + 4 * (v AND 0x3FF)) e"
  assumes ok: "dirs_ok m used kd D" and pd: "pd \<in> D" and v: "v \<in> window"
    and pr: "present (ent m pd (drop_bit 10 v))"
  shows "pd' \<in> D \<Longrightarrow> d \<in> set user_pdes \<Longrightarrow> ent m' pd' d = ent m pd' d"
    and "pd' \<in> D \<Longrightarrow> v' \<in> window \<Longrightarrow> pte m' pd' v' = (if pd' = pd \<and> v' = v then e else pte m pd' v')"
    and "struct_frames m' D = struct_frames m D"
    and "frame x \<notin> struct_frames m D \<Longrightarrow> m' x = m x"
proof -
  have dv: "drop_bit 10 v \<in> set user_pdes" using v by (simp add: window_def)
  have tf: "frame t \<in> struct_frames m D" "frame t \<notin> frame ` D"
    using struct_framesI(2) [OF pd dv pr] dirs_okD(5) [OF ok pd dv pr] by (simp_all add: t_def)
  have al: "page_aligned t" by (simp add: t_def)
  show e: "ent m' pd' d = ent m pd' d" if "pd' \<in> D" "d \<in> set user_pdes" for pd' d
  proof -
    have "t \<noteq> pd'" using tf(2) that(1) by auto
    then show ?thesis unfolding m'_def
      using ent_store [OF al dirs_okD(1) [OF ok that(1)] pt_index_lt user_pdes_lt [OF that(2)]] by simp
  qed
  show "struct_frames m' D = struct_frames m D"
    unfolding struct_frames_def using e by (auto; metis)
  show "m' x = m x" if "frame x \<notin> struct_frames m D"
    unfolding m'_def by (rule store_other_page) (use al tf that pt_index_lt in auto)
  show "pte m' pd' v' = (if pd' = pd \<and> v' = v then e else pte m pd' v')" if "pd' \<in> D" "v' \<in> window"
  proof (cases "present (ent m pd' (drop_bit 10 v'))")
    case True
    have dv': "drop_bit 10 v' \<in> set user_pdes" using that(2) by (simp add: window_def)
    have "t = ent m pd' (drop_bit 10 v') AND PAGE_MASK \<longleftrightarrow> pd = pd' \<and> drop_bit 10 v = drop_bit 10 v'"
      using dirs_ok_inj [OF ok pd that(1) dv dv' pr True] frame_mask unfolding t_def by metis
    then show ?thesis
      using True vpn_split [of v v'] e [OF that(1) dv']
        ent_store [OF al page_aligned_mask pt_index_lt pt_index_lt, of m v e "ent m pd' (drop_bit 10 v')" v']
      by (auto simp: pte_def m'_def [symmetric])
  next
    case False
    then have "\<not> (pd' = pd \<and> v' = v)" using pr by auto
    then show ?thesis using False e [OF that(1)] that(2) by (auto simp: pte_def window_def)
  qed
qed

lemma dirs_ok_store:
  fixes m :: memory
  assumes ok: "dirs_ok m used kd D" and pd: "pd \<in> D" and v: "v \<in> window"
    and pr: "present (ent m pd (drop_bit 10 v))"
    and e: "present e \<Longrightarrow> frame e \<in> used - insert 0 (struct_frames m D)"
  shows "dirs_ok (store32 m ((ent m pd (drop_bit 10 v) AND PAGE_MASK) + 4 * (v AND 0x3FF)) e) used kd D"
proof -
  note u = pte_store [OF ok pd v pr, where e = e]
  show ?thesis using ok e unfolding dirs_ok_def u(3) by (simp add: u(1,2) cong: ball_cong)
qed

end
