(* ===== verification/Cow.thy ===== *)
theory Cow
  imports Paging
begin

text \<open>
  Copy-on-write address spaces.  The invariant \<open>cow_ok\<close> says of a set of user directories that
  their tables are private, that what they map is allocated, that the reference count of a frame
  covers the places that map it, and that a writable page is mapped once.  It is kept by the
  page-fault path (\<^verbatim>\<open>mm_user_make_writable\<close>), by write protection, by teardown and by the
  directory constructors.
\<close>

section \<open>Copy-on-write sharing\<close>

text \<open>The places that map a frame.  Counts cover them, a writable page is mapped once, and only the
  pages of the user window proper are mapped.\<close>

definition user_vpns :: "u32 set" where
  "user_vpns = {v. 0x8048 \<le> v \<and> v < 0x8848}"

definition sites :: "memory \<Rightarrow> u32 set \<Rightarrow> u32 \<Rightarrow> (u32 \<times> u32) set" where
  "sites m D f = {(pd, v). pd \<in> D \<and> v \<in> window \<and> present (pte m pd v) \<and> frame (pte m pd v) = f}"

definition cow_ok :: "'a mm_state_scheme \<Rightarrow> u32 set \<Rightarrow> bool" where
  "cow_ok s D \<longleftrightarrow> vm_ok s D \<and>
     (\<forall>f. card (sites (pmem s) D f) \<le> unat (frame_refs s f)) \<and>
     (\<forall>pd \<in> D. \<forall>v \<in> window. present (pte (pmem s) pd v) \<and> writable (pte (pmem s) pd v) \<longrightarrow>
        sites (pmem s) D (frame (pte (pmem s) pd v)) = {(pd, v)}) \<and>
     (\<forall>pd \<in> D. \<forall>v \<in> window. present (pte (pmem s) pd v) \<longrightarrow> v \<in> user_vpns)"

text \<open>A byte of a process, at offset \<open>k\<close> of virtual page \<open>v\<close>.\<close>

definition uread :: "memory \<Rightarrow> u32 \<Rightarrow> u32 \<Rightarrow> u32 \<Rightarrow> u8 option" where
  "uread m pd v k = (if present (pte m pd v) then Some (m ((pte m pd v AND PAGE_MASK) + k)) else None)"

lemma finite_sites [simp]: "finite (sites m D f)"
  by (rule finite_subset [of _ UNIV]) auto

lemma alloc_page_cases:
  assumes "frames_inv s"
  obtains (fail) "mm_alloc_page s = (0, s)" and "free_set s = {}"
  | (ok) p s' where "mm_alloc_page s = (p, s')" and "p \<noteq> 0" and "page_aligned p"
    and "frame p \<in> free_set s" and "free_set s' = free_set s - {frame p}" and "frames_inv s'"
    and "frame_refs s' = (frame_refs s)(frame p := 1)" and "pmem s' = pmem s"
    and "page_dir_phys s' = page_dir_phys s" and "cr3 s' = cr3 s"
    and "total_pages s' = total_pages s"
    and "\<And>g. bitmap_test g s' \<longleftrightarrow> g = frame p \<or> bitmap_test g s"
    and "used_set s' = insert (frame p) (used_set s)" and "frame p \<notin> used_set s"
proof (cases "free_set s = {}")
  case True
  with that(1) show ?thesis using assms by (simp add: mm_alloc_page_none frames_inv_def)
next
  case False
  have inv: "mm_inv s" "bitmap_test 0 s" using assms by (simp_all add: frames_inv_def)
  obtain f s' where a: "mm_alloc_page s = (f * PAGE_SIZE, s')" "f \<in> free_set s"
    "free_set s' = free_set s - {f}" "mm_inv s'" "frame_refs s' = (frame_refs s)(f := 1)"
    "pmem s' = pmem s" "page_dir_phys s' = page_dir_phys s" "cr3 s' = cr3 s"
    "total_pages s' = total_pages s" "\<And>g. bitmap_test g s' \<longleftrightarrow> g = f \<or> bitmap_test g s"
    by (rule mm_alloc_page_some [OF inv(1) False]) blast
  have "unat f < 1048576" using a(2) mm_inv_total [OF inv(1)]
    by (simp add: free_set_def word_less_nat_alt)
  note fa = frame_addr_div [OF this]
  have f: "frame (f * PAGE_SIZE) = f" "page_aligned (f * PAGE_SIZE)"
    using fa by (simp_all add: page_aligned_iff)
  have "f \<noteq> 0" using a(2) inv(2) by (auto simp: free_set_def)
  then have nz: "f * PAGE_SIZE \<noteq> 0" using f(1) by auto
  have "frames_inv s'" using a(4,10) inv(2) by (simp add: frames_inv_def)
  moreover have "used_set s' = insert f (used_set s)" "f \<notin> used_set s"
    using a(2,9,10) by (auto simp: used_set_def free_set_def)
  ultimately show ?thesis using that(2) [OF a(1) nz f(2)] a f(1) by simp
qed

lemma in_range_page:
  assumes "page_aligned p"
  shows "in_range a p 4096 \<longleftrightarrow> frame a = frame p"
proof (cases "unat p \<le> unat a")
  case True
  then show ?thesis using unat_diff_no_wrap [of p a] by (auto simp: in_range_def frame_range [OF assms])
next
  case False
  then have "unat (a - p) = 4294967296 + unat a - unat p" by (intro unat_diff_wrap) simp
  with False page_top [OF assms] show ?thesis by (simp add: in_range_def frame_range [OF assms])
qed

lemma memcpy_page:
  assumes "page_aligned p" "page_aligned q" "p \<noteq> q"
  shows "memcpy p q PAGE_SIZE m = (\<lambda>a. if frame a = frame p then m (q + (a - p)) else m a)"
proof -
  have "\<not> in_range (q + word_of_nat i) p i" if "i < 4096" for i
  proof
    assume "in_range (q + word_of_nat i) p i"
    then have "in_range (q + word_of_nat i) p 4096" using that by (simp add: in_range_def)
    then have "frame (q + word_of_nat i) = frame p" by (simp add: in_range_page [OF assms(1)])
    moreover have "frame (q + word_of_nat i) = frame q"
      using that by (simp add: in_range_page [OF assms(2), symmetric] in_range_def)
    ultimately show False using page_aligned_eq [OF assms(1,2)] assms(3) by simp
  qed
  then have "copy_up 4096 p q m = (\<lambda>a. if in_range a p 4096 then m (q + (a - p)) else m a)"
    by (intro copy_up_spec) auto
  then show ?thesis by (simp add: memcpy_def PAGE_SIZE_def in_range_page [OF assms(1)])
qed

lemma user_pte_window:
  assumes "dirs_ok (pmem s) used kd D" "pd \<in> D" "frame va \<in> window"
  shows "user_pte pd va s =
      (if present (ent (pmem s) pd (drop_bit 10 (frame va)))
       then (ent (pmem s) pd (drop_bit 10 (frame va)) AND PAGE_MASK) + 4 * (frame va AND 0x3FF) else 0)"
    and "present (ent (pmem s) pd (drop_bit 10 (frame va))) \<Longrightarrow> user_pte pd va s \<noteq> 0"
    and "present (ent (pmem s) pd (drop_bit 10 (frame va))) \<Longrightarrow>
      load32 (pmem s) (user_pte pd va s) = pte (pmem s) pd (frame va)"
    and "user_pte pd va s = 0 \<or> load32 (pmem s) (user_pte pd va s) AND PTE_PRESENT = 0 \<longleftrightarrow>
      \<not> present (pte (pmem s) pd (frame va))"
proof -
  let ?e = "ent (pmem s) pd (drop_bit 10 (frame va))"
  have d: "drop_bit 10 (frame va) \<in> set user_pdes" using assms(3) by (simp add: window_def)
  show u: "user_pte pd va s = (if present ?e then (?e AND PAGE_MASK) + 4 * (frame va AND 0x3FF) else 0)"
    using dirs_okD(2) [OF assms(1,2)] by (simp add: user_pte_def present_def Let_def)
  show nz: "user_pte pd va s \<noteq> 0" if "present ?e"
  proof -
    have "frame ((?e AND PAGE_MASK) + 4 * (frame va AND 0x3FF)) = frame ?e"
      using unat_ent_addr [of "?e AND PAGE_MASK" "frame va AND 0x3FF"]
        frame_range [of "?e AND PAGE_MASK" "(?e AND PAGE_MASK) + 4 * (frame va AND 0x3FF)"]
        ent_addr_bounds(1) [of "?e AND PAGE_MASK" "frame va AND 0x3FF"] pt_index_lt
      by simp
    with dirs_okD(5) [OF assms(1,2) d that] u that show ?thesis by (metis drop_bit_of_0)
  qed
  show l: "load32 (pmem s) (user_pte pd va s) = pte (pmem s) pd (frame va)" if "present ?e"
    using that unfolding u by (simp add: pte_def ent_def)
  show "user_pte pd va s = 0 \<or> load32 (pmem s) (user_pte pd va s) AND PTE_PRESENT = 0 \<longleftrightarrow>
      \<not> present (pte (pmem s) pd (frame va))"
  proof (cases "present ?e")
    case True
    with nz [OF True] l [OF True] show ?thesis by (simp add: present_def PTE_PRESENT_def)
  next
    case False
    then have "user_pte pd va s = 0" "pte (pmem s) pd (frame va) = 0" using u by (simp_all add: pte_def)
    then show ?thesis by (simp add: present_def)
  qed
qed

lemma sites_update:
  assumes "pd \<in> D" "v \<in> window" "present e"
    and "\<And>pd' v'. pd' \<in> D \<Longrightarrow> v' \<in> window \<Longrightarrow>
      pte m' pd' v' = (if pd' = pd \<and> v' = v then e else pte m pd' v')"
  shows "sites m' D f = (sites m D f - {(pd, v)}) \<union> (if frame e = f then {(pd, v)} else {})"
  using assms by (auto simp: sites_def split: if_splits)

lemma pte_pde: "present (pte m pd v) \<Longrightarrow> present (ent m pd (drop_bit 10 v))"
  by (auto simp: pte_def present_def split: if_splits)

lemma reload_frame:
  obtains c where "(if mm_get_current_pd s = pd then mm_switch_pd pd s else s) = s\<lparr>cr3 := c\<rparr>"
proof (cases "mm_get_current_pd s = pd")
  case True
  then show ?thesis using that by (simp add: mm_switch_pd_def)
next
  case False
  then show ?thesis using that [of "cr3 s"] by simp
qed

lemma present_bit: "present e \<longleftrightarrow> bit e 0"
  using mask_exp_test [of e 0] by (simp add: present_def page_flags)

lemma writable_bit: "writable e \<longleftrightarrow> bit e 1"
  using mask_exp_test [of e 1] by (simp add: writable_def page_flags)

lemma aligned_bit: "page_aligned p \<Longrightarrow> n < 12 \<Longrightarrow> \<not> bit p n"
  using page_aligned_mask_id [of p] by (metis PAGE_MASK_not bit_and_iff bit_not_iff bit_mask_iff)

lemmas entry_bits = present_bit writable_bit PAGE_MASK_not page_flags bit_or_iff bit_and_iff
  bit_not_iff bit_mask_iff bit_drop_bit_eq aligned_bit

lemma bit_two: "bit (2::u32) n \<longleftrightarrow> n = 1"
  using bit_exp_iff [where ?'a = "32 word", of 1 n] by auto

lemma entry_flags:
  "frame (e OR PTE_WRITABLE) = frame e" "present e \<Longrightarrow> present (e OR PTE_WRITABLE)"
  "writable (e OR PTE_WRITABLE)"
  "page_aligned p \<Longrightarrow> frame (p OR (e AND NOT PAGE_MASK) OR PTE_WRITABLE) = frame p"
  "present e \<Longrightarrow> present (p OR (e AND NOT PAGE_MASK) OR PTE_WRITABLE)"
  "writable (p OR (e AND NOT PAGE_MASK) OR PTE_WRITABLE)"
proof -
  show "frame (e OR PTE_WRITABLE) = frame e"
    "page_aligned p \<Longrightarrow> frame (p OR (e AND NOT PAGE_MASK) OR PTE_WRITABLE) = frame p"
    by (rule bit_word_eqI; auto simp: entry_bits bit_two drop_bit_or)+
qed (auto simp: entry_bits bit_two)

lemma frame_offset: "k < 4096 \<Longrightarrow> frame ((e AND PAGE_MASK) + k) = frame e"
  using in_range_page [of "e AND PAGE_MASK" "(e AND PAGE_MASK) + k"]
  by (simp add: in_range_def word_less_nat_alt)

text \<open>No process sees the difference between two states.\<close>

definition same_view :: "memory \<Rightarrow> memory \<Rightarrow> u32 set \<Rightarrow> bool" where
  "same_view m m' D \<longleftrightarrow> (\<forall>pd \<in> D. \<forall>v \<in> window. \<forall>k < 4096. uread m' pd v k = uread m pd v k)"

lemma vm_okD: "vm_ok s D \<Longrightarrow> frames_inv s" "vm_ok s D \<Longrightarrow> dirs_ok (pmem s) (used_set s) (page_dir_phys s) D"
  by (simp_all add: vm_ok_def)

lemma cow_okD:
  assumes "cow_ok s D"
  shows "vm_ok s D" and "card (sites (pmem s) D f) \<le> unat (frame_refs s f)"
    and "pd \<in> D \<Longrightarrow> v \<in> window \<Longrightarrow> present (pte (pmem s) pd v) \<Longrightarrow> writable (pte (pmem s) pd v) \<Longrightarrow>
      sites (pmem s) D (frame (pte (pmem s) pd v)) = {(pd, v)}"
    and "pd \<in> D \<Longrightarrow> v \<in> window \<Longrightarrow> present (pte (pmem s) pd v) \<Longrightarrow> v \<in> user_vpns"
  using assms by (simp_all add: cow_ok_def)

lemma card_le_1_singleton: "finite A \<Longrightarrow> x \<in> A \<Longrightarrow> card A \<le> 1 \<Longrightarrow> A = {x}"
  by (auto simp: card_le_Suc0_iff_eq)

lemma cow_own:
  assumes cow: "cow_ok s D" and pd: "pd \<in> D" and v: "v \<in> window"
    and pr: "present (pte (pmem s) pd v)" and refs: "frame_refs s (frame (pte (pmem s) pd v)) \<le> 1"
  defines "e \<equiv> pte (pmem s) pd v OR PTE_WRITABLE"
  defines "m \<equiv> store32 (pmem s) ((ent (pmem s) pd (drop_bit 10 v) AND PAGE_MASK) + 4 * (v AND 0x3FF)) e"
  shows "cow_ok (s\<lparr>pmem := m, cr3 := c\<rparr>) D" and "same_view (pmem s) m D"
    and "pte m pd v = e" and "present e" and "writable e"
proof -
  have ok: "dirs_ok (pmem s) (used_set s) (page_dir_phys s) D" "frames_inv s"
    using vm_okD [OF cow_okD(1) [OF cow]] by simp_all
  have e: "present e" "writable e" "frame e = frame (pte (pmem s) pd v)"
    using pr by (simp_all add: e_def entry_flags)
  then show "present e" "writable e" by simp_all
  note st = pte_store [OF ok(1) pd v pte_pde [OF pr], where e = e, folded m_def]
  show "pte m pd v = e" using st(2) [OF pd v] by simp
  have "dirs_ok m (used_set s) (page_dir_phys s) D"
    unfolding m_def using dirs_okD(6,7,8) [OF ok(1) pd v pr] e(3)
    by (intro dirs_ok_store [OF ok(1) pd v pte_pde [OF pr]]) simp
  then have vm: "vm_ok (s\<lparr>pmem := m, cr3 := c\<rparr>) D"
    using ok(2) by (simp add: vm_ok_def used_set_def frames_inv_def mm_inv_def)
  have in_s: "(pd, v) \<in> sites (pmem s) D (frame e)" using pd v pr e(3) by (simp add: sites_def)
  have si: "sites m D f = sites (pmem s) D f" for f
    using sites_update [where m' = m and m = "pmem s", OF pd v e(1) st(2)] in_s
    by (auto simp: sites_def e(3))
  have "card (sites (pmem s) D (frame e)) \<le> 1"
    using cow_okD(2) [OF cow, of "frame e"] refs e(3) by (simp add: word_le_nat_alt)
  then have one: "sites (pmem s) D (frame e) = {(pd, v)}"
    by (rule card_le_1_singleton [OF finite_sites in_s])
  show "cow_ok (s\<lparr>pmem := m, cr3 := c\<rparr>) D"
    unfolding cow_ok_def using vm cow_okD(2,3,4) [OF cow] one e(3) pr
    by (auto simp: si st(2) split: if_splits)
  show "same_view (pmem s) m D"
    unfolding same_view_def
  proof (intro ballI allI impI)
    fix pd' v' and k :: u32 assume a: "pd' \<in> D" "v' \<in> window" "k < 4096"
    have f: "present (pte m pd' v') = present (pte (pmem s) pd' v')"
      "pte m pd' v' AND PAGE_MASK = pte (pmem s) pd' v' AND PAGE_MASK"
      using st(2) [OF a(1,2)] e(1,3) pr page_aligned_eq [OF page_aligned_mask page_aligned_mask] by auto
    show "uread m pd' v' k = uread (pmem s) pd' v' k"
      using f st(4) [of "(pte (pmem s) pd' v' AND PAGE_MASK) + k"] dirs_okD(7) [OF ok(1) a(1,2)]
        frame_offset [OF a(3)] by (simp add: uread_def)
  qed
qed

lemma frames_inv_fields [simp]:
  "frames_inv (s\<lparr>pmem := m\<rparr>) = frames_inv s" "frames_inv (s\<lparr>cr3 := c\<rparr>) = frames_inv s"
  by (simp_all add: frames_inv_def mm_inv_def)

lemma used_set_fields [simp]:
  "used_set (s\<lparr>pmem := m\<rparr>) = used_set s" "used_set (s\<lparr>cr3 := c\<rparr>) = used_set s"
  "used_set (s\<lparr>frame_refs := r\<rparr>) = used_set s"
  by (simp_all add: used_set_def)

lemma page_unref_shared:
  "f < total_pages s \<Longrightarrow> 1 < frame_refs s f \<Longrightarrow>
    page_unref f s = s\<lparr>frame_refs := (frame_refs s)(f := frame_refs s f - 1)\<rparr>"
  by (simp add: page_unref_def)

lemma struct_used: "dirs_ok m used kd D \<Longrightarrow> struct_frames m D \<subseteq> used"
  by (auto simp: dirs_ok_def)

text \<open>The memory after copying a page into a fresh frame \<open>p\<close> and redirecting the entry.\<close>

lemma cow_copy_memory:
  fixes m0 :: memory
  assumes ok: "dirs_ok m0 used kd D" and pd: "pd \<in> D" and v: "v \<in> window"
    and pr: "present (pte m0 pd v)" and p: "page_aligned p" "frame p \<notin> used" "frame p \<noteq> 0"
  defines "e \<equiv> p OR (pte m0 pd v AND NOT PAGE_MASK) OR PTE_WRITABLE"
  defines "m \<equiv> store32 (memcpy p (pte m0 pd v AND PAGE_MASK) PAGE_SIZE m0)
      ((ent m0 pd (drop_bit 10 v) AND PAGE_MASK) + 4 * (v AND 0x3FF)) e"
  shows "dirs_ok m (insert (frame p) used) kd D" and "same_view m0 m D"
    and "pd' \<in> D \<Longrightarrow> v' \<in> window \<Longrightarrow> pte m pd' v' = (if pd' = pd \<and> v' = v then e else pte m0 pd' v')"
proof -
  let ?old = "pte m0 pd v AND PAGE_MASK" and ?c = "memcpy p (pte m0 pd v AND PAGE_MASK) PAGE_SIZE m0"
  have old: "frame (pte m0 pd v) \<in> used" by (rule dirs_okD(6) [OF ok pd v pr])
  have e: "present e" "frame e = frame p" using p pr by (simp_all add: e_def entry_flags)
  have "p \<noteq> ?old" using old p(2) by (metis frame_mask)
  then have c: "?c a = (if frame a = frame p then m0 (?old + (a - p)) else m0 a)" for a
    by (simp add: memcpy_page p(1))
  have np: "frame p \<notin> struct_frames m0 D" using struct_used [OF ok] p(2) by blast
  have agree: "\<forall>x. frame x \<in> struct_frames m0 D \<longrightarrow> ?c x = m0 x" using np c by auto
  have al: "\<forall>pd \<in> D. page_aligned pd" using dirs_okD(1) [OF ok] by blast
  note sp = same_spaces [of D m0 ?c, OF al agree]
  have okc: "dirs_ok ?c (insert (frame p) used) kd D"
    by (rule dirs_ok_mono [OF dirs_ok_same [OF ok agree]]) auto
  have dv: "drop_bit 10 v \<in> set user_pdes" using v by (simp add: window_def)
  have ec: "ent ?c pd (drop_bit 10 v) = ent m0 pd (drop_bit 10 v)" by (rule sp(1) [OF pd dv])
  have prc: "present (ent ?c pd (drop_bit 10 v))" using pte_pde [OF pr] ec by simp
  note st = pte_store [OF okc pd v prc, where e = e, unfolded ec, folded m_def]
  show "dirs_ok m (insert (frame p) used) kd D"
    using dirs_ok_store [OF okc pd v prc, of e] e np sp(3) p(3) unfolding ec m_def by simp
  show pt: "pte m pd' v' = (if pd' = pd \<and> v' = v then e else pte m0 pd' v')"
    if "pd' \<in> D" "v' \<in> window" for pd' v'
    using st(2) [OF that] sp(2) [OF that] by simp
  show "same_view m0 m D"
    unfolding same_view_def
  proof (intro ballI allI impI)
    fix pd' v' and k :: u32 assume a: "pd' \<in> D" "v' \<in> window" "k < 4096"
    have out: "m x = ?c x" if "frame x \<notin> struct_frames m0 D" for x
      using st(4) [of x] that sp(3) by simp
    show "uread m pd' v' k = uread m0 pd' v' k"
    proof (cases "pd' = pd \<and> v' = v")
      case True
      have pm: "e AND PAGE_MASK = p"
        using e(2) page_aligned_eq [OF page_aligned_mask p(1), of e] by simp
      have fk: "frame (p + k) = frame p" using frame_offset [OF a(3), of e] e(2) by (simp add: pm)
      have "m (p + k) = m0 (?old + k)" using out [of "p + k"] c [of "p + k"] fk np by simp
      then show ?thesis using True pt [OF pd v] e(1) pr by (simp add: uread_def pm)
    next
      case False
      then have pe: "pte m pd' v' = pte m0 pd' v'" using pt [OF a(1,2)] by auto
      show ?thesis
      proof (cases "present (pte m0 pd' v')")
        case True
        note u = dirs_okD(6,7) [OF ok a(1,2) True]
        have "frame (pte m0 pd' v') \<noteq> frame p" using u(1) p(2) by auto
        then show ?thesis
          using pe out [of "(pte m0 pd' v' AND PAGE_MASK) + k"] c [of "(pte m0 pd' v' AND PAGE_MASK) + k"]
            u(2) frame_offset [OF a(3)] by (simp add: uread_def)
      qed (simp add: uread_def pe)
    qed
  qed
qed

text \<open>What one call of \<^verbatim>\<open>mm_user_make_writable\<close> does to the system of address spaces.\<close>

definition cow_step :: "'a mm_state_scheme \<Rightarrow> 'a mm_state_scheme \<Rightarrow> u32 set \<Rightarrow> u32 \<Rightarrow> u32 \<Rightarrow> bool" where
  "cow_step s s' D pd v \<longleftrightarrow> cow_ok s' D \<and> same_view (pmem s) (pmem s') D \<and>
     present (pte (pmem s') pd v) \<and> writable (pte (pmem s') pd v) \<and>
     (\<forall>pd' \<in> D. \<forall>v' \<in> window. pd' \<noteq> pd \<or> v' \<noteq> v \<longrightarrow> pte (pmem s') pd' v' = pte (pmem s) pd' v')"

lemma cow_copy:
  assumes cow: "cow_ok s D" and pd: "pd \<in> D" and v: "v \<in> window"
    and pr: "present (pte (pmem s) pd v)" and refs: "1 < frame_refs s (frame (pte (pmem s) pd v))"
    and p: "page_aligned p" "frame p \<in> free_set s" "p \<noteq> 0"
    and s1: "frames_inv s1" "used_set s1 = insert (frame p) (used_set s)" "pmem s1 = pmem s"
      "frame_refs s1 = (frame_refs s)(frame p := 1)" "page_dir_phys s1 = page_dir_phys s"
      "total_pages s1 = total_pages s"
  defines "e \<equiv> p OR (pte (pmem s) pd v AND NOT PAGE_MASK) OR PTE_WRITABLE"
  defines "m \<equiv> store32 (memcpy p (pte (pmem s) pd v AND PAGE_MASK) PAGE_SIZE (pmem s))
      ((ent (pmem s) pd (drop_bit 10 v) AND PAGE_MASK) + 4 * (v AND 0x3FF)) e"
  shows "cow_step s ((page_unref (frame (pte (pmem s) pd v)) (s1\<lparr>pmem := m\<rparr>))\<lparr>cr3 := c\<rparr>) D pd v"
proof -
  let ?f = "frame (pte (pmem s) pd v)" and ?g = "frame p"
  have ok: "dirs_ok (pmem s) (used_set s) (page_dir_phys s) D" "frames_inv s"
    using vm_okD [OF cow_okD(1) [OF cow]] by simp_all
  have g: "?g \<notin> used_set s" using p(2) by (auto simp: used_set_def free_set_def)
  have gz: "?g \<noteq> 0" using p(2) ok(2) by (auto simp: free_set_def frames_inv_def)
  have f: "?f \<in> used_set s" by (rule dirs_okD(6) [OF ok(1) pd v pr])
  then have fg: "?f \<noteq> ?g" "?f < total_pages s" using g by (auto simp: used_set_def)
  have e: "present e" "writable e" "frame e = ?g" using p(1) pr by (simp_all add: e_def entry_flags)
  note mem = cow_copy_memory [OF ok(1) pd v pr p(1) g gz, folded e_def, folded m_def]
  have un: "page_unref ?f (s1\<lparr>pmem := m\<rparr>) =
      s1\<lparr>pmem := m, frame_refs := (frame_refs s)(?g := 1, ?f := frame_refs s ?f - 1)\<rparr>"
    using fg refs s1(4,6) by (subst page_unref_shared) auto
  let ?s = "s1\<lparr>pmem := m, frame_refs := (frame_refs s)(?g := 1, ?f := frame_refs s ?f - 1), cr3 := c\<rparr>"
  have vm: "vm_ok ?s D" using mem(1) s1 by (simp add: vm_ok_def frames_inv_def mm_inv_def)
  have si: "sites m D h = (sites (pmem s) D h - {(pd, v)}) \<union> (if ?g = h then {(pd, v)} else {})" for h
    using sites_update [where m' = m and m = "pmem s", OF pd v e(1) mem(3)] e(3) by simp
  have inf: "(pd, v) \<in> sites (pmem s) D ?f" using pd v pr by (simp add: sites_def)
  have eg: "sites (pmem s) D ?g = {}"
    unfolding sites_def using dirs_okD(6) [OF ok(1)] g by fastforce
  have count: "card (sites m D h) \<le> unat (frame_refs ?s h)" for h
  proof -
    consider "h = ?g" | "h = ?f" | "h \<noteq> ?g" "h \<noteq> ?f" by blast
    then show ?thesis
    proof cases
      case 2
      have "unat (frame_refs s ?f - 1) = unat (frame_refs s ?f) - 1"
        using refs by (simp add: unat_sub word_le_nat_alt word_less_nat_alt)
      moreover have "card (sites (pmem s) D ?f - {(pd, v)}) = card (sites (pmem s) D ?f) - 1"
        using inf by simp
      ultimately show ?thesis using 2 fg cow_okD(2) [OF cow, of ?f] by (simp add: si)
    next
      case 3
      have "card (sites (pmem s) D h - {(pd, v)}) \<le> card (sites (pmem s) D h)"
        by (rule card_Diff1_le)
      with 3 cow_okD(2) [OF cow, of h] show ?thesis by (simp add: si)
    qed (use eg fg in \<open>simp add: si\<close>)
  qed
  have excl: "sites m D (frame (pte m pd' v')) = {(pd', v')}"
    if "pd' \<in> D" "v' \<in> window" "present (pte m pd' v')" "writable (pte m pd' v')" for pd' v'
  proof (cases "pd' = pd \<and> v' = v")
    case True
    then show ?thesis using mem(3) [OF pd v] eg e(3) by (simp add: si)
  next
    case False
    then have pe: "pte m pd' v' = pte (pmem s) pd' v'" using mem(3) [OF that(1,2)] by auto
    note one = cow_okD(3) [OF cow that(1,2)]
    have "frame (pte m pd' v') \<noteq> ?g" using dirs_okD(6) [OF ok(1) that(1,2)] that(3) pe g by auto
    with one that(3,4) pe False show ?thesis by (auto simp: si)
  qed
  have "v' \<in> user_vpns" if "pd' \<in> D" "v' \<in> window" "present (pte m pd' v')" for pd' v'
    using that mem(3) [OF that(1,2)] cow_okD(4) [OF cow] pd v pr by (auto split: if_splits)
  then have "cow_ok ?s D" unfolding cow_ok_def using vm count excl by simp
  then show ?thesis unfolding un cow_step_def using mem(2,3) pd v e(1,2) by auto
qed

lemma make_writable_cases:
  assumes cow: "cow_ok s D" and pd: "pd \<in> D" and v: "frame va \<in> window"
  obtains (absent) "mm_user_make_writable pd va s = (False, s)" "\<not> present (pte (pmem s) pd (frame va))"
  | (nomem) "mm_user_make_writable pd va s = (False, s)" "free_set s = {}"
      "1 < frame_refs s (frame (pte (pmem s) pd (frame va)))"
  | (made) s' where "mm_user_make_writable pd va s = (True, s')" "cow_step s s' D pd (frame va)"
proof -
  have ok: "dirs_ok (pmem s) (used_set s) (page_dir_phys s) D" "frames_inv s"
    using vm_okD [OF cow_okD(1) [OF cow]] by simp_all
  let ?e = "pte (pmem s) pd (frame va)" and ?f = "frame (pte (pmem s) pd (frame va))"
  note up = user_pte_window [OF ok(1) pd v]
  show ?thesis
  proof (cases "present ?e")
    case False
    then show ?thesis using that(1) up(4) by (simp add: mm_user_make_writable_def Let_def)
  next
    case pr: True
    have addr: "user_pte pd va s = (ent (pmem s) pd (drop_bit 10 (frame va)) AND PAGE_MASK) + 4 * (frame va AND 0x3FF)"
      using up(1) pte_pde [OF pr] by simp
    have ld: "load32 (pmem s) (user_pte pd va s) = ?e" by (rule up(3) [OF pte_pde [OF pr]])
    have np: "\<not> (user_pte pd va s = 0 \<or> ?e AND PTE_PRESENT = 0)" using up(4) pr ld by simp
    consider "writable ?e" | "\<not> writable ?e" "frame_refs s ?f \<le> 1" | "\<not> writable ?e" "1 < frame_refs s ?f"
      by force
    then show ?thesis
    proof cases
      case 1
      then have "mm_user_make_writable pd va s = (True, s)"
        using np ld by (simp add: mm_user_make_writable_def Let_def writable_def)
      moreover have "cow_step s s D pd (frame va)"
        using cow pr 1 by (simp add: cow_step_def same_view_def)
      ultimately show ?thesis by (rule that(3))
    next
      case 2
      let ?m = "store32 (pmem s) (user_pte pd va s) (?e OR PTE_WRITABLE)"
      obtain c where c: "(if mm_get_current_pd (s\<lparr>pmem := ?m\<rparr>) = pd then mm_switch_pd pd (s\<lparr>pmem := ?m\<rparr>)
          else s\<lparr>pmem := ?m\<rparr>) = s\<lparr>pmem := ?m\<rparr>\<lparr>cr3 := c\<rparr>" by (rule reload_frame)
      then have r: "mm_user_make_writable pd va s = (True, s\<lparr>pmem := ?m\<rparr>\<lparr>cr3 := c\<rparr>)"
        using np 2(1) not_less [THEN iffD2, OF 2(2)]
        by (simp add: mm_user_make_writable_def Let_def writable_def ld)
      note own = cow_own [OF cow pd v pr 2(2), folded addr]
      have "cow_step s (s\<lparr>pmem := ?m\<rparr>\<lparr>cr3 := c\<rparr>) D pd (frame va)"
        using own pte_store(2) [OF ok(1) pd v pte_pde [OF pr], where e = "?e OR PTE_WRITABLE", folded addr]
        by (auto simp: cow_step_def)
      with r show ?thesis by (rule that(3))
    next
      case 3
      show ?thesis using ok(2)
      proof (cases rule: alloc_page_cases)
        case fail
        then have "mm_user_make_writable pd va s = (False, s)"
          using np 3 by (simp add: mm_user_make_writable_def Let_def writable_def ld)
        with fail(2) 3(2) show ?thesis by (intro that(2))
      next
        case (ok p s1)
        let ?m = "store32 (memcpy p (?e AND PAGE_MASK) PAGE_SIZE (pmem s)) (user_pte pd va s)
            (p OR (?e AND NOT PAGE_MASK) OR PTE_WRITABLE)"
        let ?t = "page_unref ?f (s1\<lparr>pmem := ?m\<rparr>)"
        obtain c where c: "(if mm_get_current_pd ?t = pd then mm_switch_pd pd ?t else ?t) = ?t\<lparr>cr3 := c\<rparr>"
          by (rule reload_frame)
        have "mm_user_make_writable pd va s =
            (True, if mm_get_current_pd ?t = pd then mm_switch_pd pd ?t else ?t)"
          using np 3 ok(1,2,8) by (simp add: mm_user_make_writable_def Let_def writable_def ld)
        then have r: "mm_user_make_writable pd va s = (True, ?t\<lparr>cr3 := c\<rparr>)" unfolding c .
        have "cow_step s (?t\<lparr>cr3 := c\<rparr>) D pd (frame va)"
          unfolding addr by (rule cow_copy [OF cow pd v pr 3(2) ok(3,4,2,6,13,8,7,9,11)])
        with r show ?thesis by (rule that(3))
      qed
    qed
  qed
qed

lemma same_view_refl [simp]: "same_view m m D"
  by (simp add: same_view_def)

lemma same_view_trans: "same_view a b D \<Longrightarrow> same_view b c D \<Longrightarrow> same_view a c D"
  by (simp add: same_view_def)

section \<open>Write protection\<close>

lemma bit_PTE_WRITABLE: "bit PTE_WRITABLE n \<longleftrightarrow> n = 1"
  by (simp only: page_flags bit_two)

lemma protect_flags:
  "frame (e AND NOT PTE_WRITABLE) = frame e" "present (e AND NOT PTE_WRITABLE) \<longleftrightarrow> present e"
  "\<not> writable (e AND NOT PTE_WRITABLE)"
proof -
  show "frame (e AND NOT PTE_WRITABLE) = frame e"
    by (rule bit_word_eqI)
      (auto simp: bit_drop_bit_eq bit_and_iff bit_not_iff bit_PTE_WRITABLE dest: bit_imp_le_length)
qed (auto simp: entry_bits bit_two)

text \<open>Changing the flags of an entry keeps the system of directories and what is read.\<close>

lemma vm_reflag:
  assumes vm: "vm_ok s D" and pd: "pd \<in> D" and v: "v \<in> window"
    and pr: "present (pte (pmem s) pd v)"
    and e: "present e" "frame e = frame (pte (pmem s) pd v)"
  defines "m \<equiv> store32 (pmem s) ((ent (pmem s) pd (drop_bit 10 v) AND PAGE_MASK) + 4 * (v AND 0x3FF)) e"
  shows "vm_ok (s\<lparr>pmem := m\<rparr>) D" and "same_view (pmem s) m D"
    and "pd' \<in> D \<Longrightarrow> v' \<in> window \<Longrightarrow> pte m pd' v' = (if pd' = pd \<and> v' = v then e else pte (pmem s) pd' v')"
proof -
  note ok = vm_okD(2,1) [OF vm]
  note st = pte_store [OF ok(1) pd v pte_pde [OF pr], where e = e, folded m_def]
  show "pd' \<in> D \<Longrightarrow> v' \<in> window \<Longrightarrow> pte m pd' v' = (if pd' = pd \<and> v' = v then e else pte (pmem s) pd' v')"
    by (rule st(2))
  have "dirs_ok m (used_set s) (page_dir_phys s) D"
    unfolding m_def using dirs_okD(6,7,8) [OF ok(1) pd v pr] e(2)
    by (intro dirs_ok_store [OF ok(1) pd v pte_pde [OF pr]]) simp
  then show "vm_ok (s\<lparr>pmem := m\<rparr>) D" using ok(2) by (simp add: vm_ok_def)
  show "same_view (pmem s) m D"
    unfolding same_view_def
  proof (intro ballI allI impI)
    fix pd' v' and k :: u32 assume a: "pd' \<in> D" "v' \<in> window" "k < 4096"
    have f: "present (pte m pd' v') = present (pte (pmem s) pd' v')"
      "pte m pd' v' AND PAGE_MASK = pte (pmem s) pd' v' AND PAGE_MASK"
      using st(2) [OF a(1,2)] e(1,2) pr page_aligned_eq [OF page_aligned_mask page_aligned_mask] by auto
    show "uread m pd' v' k = uread (pmem s) pd' v' k"
      using f st(4) [of "(pte (pmem s) pd' v' AND PAGE_MASK) + k"] dirs_okD(7) [OF ok(1) a(1,2)]
        frame_offset [OF a(3)] by (simp add: uread_def)
  qed
qed

text \<open>Entries that map the same frames, with no new write permission, keep the sharing invariant.\<close>

lemma cow_transfer:
  assumes cow: "cow_ok s D" and vm: "vm_ok s' D" and refs: "frame_refs s' = frame_refs s"
    and same: "\<And>pd v. pd \<in> D \<Longrightarrow> v \<in> window \<Longrightarrow>
      (present (pte (pmem s') pd v) \<longleftrightarrow> present (pte (pmem s) pd v)) \<and>
      frame (pte (pmem s') pd v) = frame (pte (pmem s) pd v) \<and>
      (writable (pte (pmem s') pd v) \<longrightarrow> writable (pte (pmem s) pd v))"
  shows "cow_ok s' D"
proof -
  have "sites (pmem s') D f = sites (pmem s) D f" for f using same by (auto simp: sites_def)
  with cow vm refs same show ?thesis unfolding cow_ok_def by simp
qed

lemma protect_page_spec:
  assumes vm: "vm_ok s D" and pd: "pd \<in> D" and v: "frame va \<in> window"
  obtains m where "protect_page pd va s = s\<lparr>pmem := m\<rparr>" and "vm_ok (s\<lparr>pmem := m\<rparr>) D"
    and "same_view (pmem s) m D"
    and "\<And>pd' v'. pd' \<in> D \<Longrightarrow> v' \<in> window \<Longrightarrow> pte m pd' v' =
      (if pd' = pd \<and> v' = frame va \<and> present (pte (pmem s) pd' v')
       then pte (pmem s) pd' v' AND NOT PTE_WRITABLE else pte (pmem s) pd' v')"
proof -
  have ok: "dirs_ok (pmem s) (used_set s) (page_dir_phys s) D"
    by (rule vm_okD(2) [OF vm])
  note up = user_pte_window [OF ok pd v]
  show ?thesis
  proof (cases "present (pte (pmem s) pd (frame va))")
    case False
    then have "protect_page pd va s = s" using up(4) by (auto simp: protect_page_def Let_def)
    with vm False show ?thesis by (intro that [of "pmem s"]) auto
  next
    case pr: True
    let ?e = "pte (pmem s) pd (frame va) AND NOT PTE_WRITABLE"
    have e: "present ?e" "frame ?e = frame (pte (pmem s) pd (frame va))" "\<not> writable ?e"
      using pr by (simp_all only: protect_flags not_False_eq_True)
    note r = vm_reflag [OF vm pd v pr e(1,2)]
    have "protect_page pd va s = s\<lparr>pmem := store32 (pmem s)
        ((ent (pmem s) pd (drop_bit 10 (frame va)) AND PAGE_MASK) + 4 * (frame va AND 0x3FF)) ?e\<rparr>"
      using up(4) up(1) up(3) [OF pte_pde [OF pr]] pte_pde [OF pr] pr
      by (simp add: protect_page_def Let_def)
    with r pr show ?thesis by (intro that) auto
  qed
qed

lemma protect_loop:
  assumes "vm_ok s D" and "pd \<in> D" and "\<forall>va \<in> set vas. frame va \<in> window"
  shows "\<exists>m. fold (protect_page pd) vas s = s\<lparr>pmem := m\<rparr> \<and> vm_ok (s\<lparr>pmem := m\<rparr>) D \<and>
    same_view (pmem s) m D \<and>
    (\<forall>pd' \<in> D. \<forall>v' \<in> window. pte m pd' v' =
      (if pd' = pd \<and> v' \<in> frame ` set vas \<and> present (pte (pmem s) pd' v')
       then pte (pmem s) pd' v' AND NOT PTE_WRITABLE else pte (pmem s) pd' v'))"
  using assms(1,3)
proof (induction vas arbitrary: s)
  case Nil
  then show ?case by (intro exI [of _ "pmem s"]) simp
next
  case (Cons va vas)
  obtain m where m: "protect_page pd va s = s\<lparr>pmem := m\<rparr>" "vm_ok (s\<lparr>pmem := m\<rparr>) D"
    "same_view (pmem s) m D"
    "\<And>pd' v'. pd' \<in> D \<Longrightarrow> v' \<in> window \<Longrightarrow> pte m pd' v' =
      (if pd' = pd \<and> v' = frame va \<and> present (pte (pmem s) pd' v')
       then pte (pmem s) pd' v' AND NOT PTE_WRITABLE else pte (pmem s) pd' v')"
    using protect_page_spec [OF Cons.prems(1) assms(2), of va] Cons.prems(2) by auto
  obtain m' where m': "fold (protect_page pd) vas (s\<lparr>pmem := m\<rparr>) = s\<lparr>pmem := m'\<rparr>" "vm_ok (s\<lparr>pmem := m'\<rparr>) D"
    "same_view m m' D"
    "\<forall>pd' \<in> D. \<forall>v' \<in> window. pte m' pd' v' =
      (if pd' = pd \<and> v' \<in> frame ` set vas \<and> present (pte m pd' v')
       then pte m pd' v' AND NOT PTE_WRITABLE else pte m pd' v')"
    using Cons.IH [OF m(2)] Cons.prems(2) by (simp cong: if_cong) blast
  have "pte m' pd' v' = (if pd' = pd \<and> v' \<in> frame ` set (va # vas) \<and> present (pte (pmem s) pd' v')
       then pte (pmem s) pd' v' AND NOT PTE_WRITABLE else pte (pmem s) pd' v')"
    if "pd' \<in> D" "v' \<in> window" for pd' v'
    using m'(4) m(4) [OF that] that by (auto simp: protect_flags)
  then show ?case using m m' same_view_trans by (intro exI [of _ m']) auto
qed

lemma window_iff: "v \<in> window \<longleftrightarrow> 0x8000 \<le> v \<and> v < 0x8C00"
proof -
  have "unat (drop_bit 10 v) = unat v div 1024" by (simp add: unat_drop_bit_eq drop_bit_eq_div unat_div)
  then show ?thesis
    by (auto simp: window_def user_pdes_def user_window word_le_nat_alt word_less_nat_alt)
qed

lemma user_pages_frames: "frame ` set user_pages = {v. 0x8048 \<le> v \<and> v < 0x8847}"
proof -
  have f: "frame (USER_BASE + i * PAGE_SIZE) = 0x8048 + i" if "i < 0x7FF" for i
  proof -
    have i: "unat i < 0x7FF" using that by (simp add: word_less_nat_alt)
    then have "unat (i * 4096) = unat i * 4096" using unat_mult_small [of i 4096] by simp
    then have "unat (USER_BASE + i * PAGE_SIZE) = 4096 * (0x8048 + unat i)"
      using unat_add_small [of USER_BASE "i * PAGE_SIZE"] i by (simp add: USER_BASE_def PAGE_SIZE_def)
    moreover have "unat (0x8048 + i) = 0x8048 + unat i" using unat_add_small [of "0x8048" i] i by simp
    ultimately show ?thesis by (simp add: word_unat_eq_iff unat_frame)
  qed
  have n: "(USER_SIGTRAMP - USER_BASE) div PAGE_SIZE = 0x7FF"
    by (simp add: user_window PAGE_SIZE_def)
  have "frame ` set user_pages = (\<lambda>i. 0x8048 + i) ` {i. i < 0x7FF}"
    unfolding user_pages_def n by (auto simp: f image_iff)
  also have "\<dots> = {v. 0x8048 \<le> v \<and> v < 0x8847}"
  proof (intro equalityI subsetI)
    fix v :: u32 assume "v \<in> (\<lambda>i. 0x8048 + i) ` {i. i < 0x7FF}"
    then obtain i where i: "v = 0x8048 + i" "unat i < 0x7FF" by (auto simp: word_less_nat_alt)
    then have "unat v = 0x8048 + unat i" using unat_add_small [of "0x8048" i] by simp
    with i show "v \<in> {v. 0x8048 \<le> v \<and> v < 0x8847}" by (simp add: word_less_nat_alt word_le_nat_alt)
  next
    fix v :: u32 assume v: "v \<in> {v. 0x8048 \<le> v \<and> v < 0x8847}"
    then have "unat (v - 0x8048) = unat v - 0x8048" by (simp add: unat_sub)
    with v have "v - 0x8048 < 0x7FF" by (auto simp: word_less_nat_alt word_le_nat_alt)
    then show "v \<in> (\<lambda>i. 0x8048 + i) ` {i. i < 0x7FF}" by (intro image_eqI [of _ _ "v - 0x8048"]) simp_all
  qed
  finally show ?thesis .
qed

lemma user_pages_window: "\<forall>va \<in> set user_pages. frame va \<in> window"
proof
  fix va assume "va \<in> set user_pages"
  then have "frame va \<in> {v. 0x8048 \<le> v \<and> v < 0x8847}" unfolding user_pages_frames [symmetric] by (rule imageI)
  then show "frame va \<in> window" by (simp add: window_iff word_less_nat_alt word_le_nat_alt)
qed

section \<open>Teardown\<close>

text \<open>While a space is torn down its sites \<open>X\<close> no longer count; what the remaining sites map, and the
  frames \<open>Q\<close> of the remaining directories and tables, stays allocated.\<close>

definition held :: "'a mm_state_scheme \<Rightarrow> memory \<Rightarrow> u32 set \<Rightarrow> (u32 \<times> u32) set \<Rightarrow> u32 set \<Rightarrow> bool" where
  "held s m D X Q \<longleftrightarrow> frames_inv s \<and> pmem s = m \<and> Q \<subseteq> used_set s \<and>
     (\<forall>f. card (sites m D f - X) \<le> unat (frame_refs s f)) \<and>
     (\<forall>f. sites m D f - X \<noteq> {} \<longrightarrow> f \<in> used_set s)"

lemma heldD:
  assumes "held s m D X Q"
  shows "frames_inv s" and "pmem s = m" and "Q \<subseteq> used_set s"
    and "card (sites m D f - X) \<le> unat (frame_refs s f)"
    and "sites m D f - X \<noteq> {} \<Longrightarrow> f \<in> used_set s"
  using assms by (simp_all add: held_def)

lemma used_set_unref:
  "used_set (page_unref f s) = used_set s - (if frame_refs s f \<le> 1 then {f} else {})"
  by (auto simp: used_set_def page_unref_test)

lemma frames_inv_unref: "frames_inv s \<Longrightarrow> f \<noteq> 0 \<Longrightarrow> frames_inv (page_unref f s)"
  by (simp add: frames_inv_def page_unref_inv page_unref_test)

lemma held_unref_site:
  assumes h: "held s m D X Q" and a: "(pd, v) \<in> sites m D f" "(pd, v) \<notin> X" and f: "f \<noteq> 0" "f \<notin> Q"
  shows "held (page_unref f s) m D (insert (pd, v) X) Q"
proof -
  note h' = heldD [OF h]
  have lt: "f < total_pages s" using h'(5) [of f] a by (auto simp: used_set_def)
  have sub: "sites m D g - insert (pd, v) X \<subseteq> sites m D g - X" for g by auto
  have cf: "card (sites m D f - insert (pd, v) X) = card (sites m D f - X) - 1"
  proof -
    have "sites m D f - insert (pd, v) X = sites m D f - X - {(pd, v)}" by auto
    then show ?thesis using a card_Diff_singleton [of "(pd, v)" "sites m D f - X"] by simp
  qed
  have other: "card (sites m D g - insert (pd, v) X) \<le> unat (frame_refs s g)" for g
    using card_mono [OF _ sub [of g]] h'(4) [of g] by (simp add: order.trans)
  have count: "card (sites m D g - insert (pd, v) X) \<le> unat (frame_refs (page_unref f s) g)" for g
  proof (cases "g = f")
    case True
    have "unat (if frame_refs s f > 1 then frame_refs s f - 1 else 0) = unat (frame_refs s f) - 1"
      by (auto simp: unat_sub word_le_nat_alt word_less_nat_alt)
    then show ?thesis using True lt cf h'(4) [of f] by (simp add: page_unref_refs)
  qed (use other in \<open>simp add: page_unref_refs\<close>)
  have used: "g \<in> used_set (page_unref f s)" if "sites m D g - insert (pd, v) X \<noteq> {}" for g
  proof -
    have "g \<noteq> f" if "frame_refs s f \<le> 1"
    proof
      assume "g = f"
      have "unat (frame_refs s f) \<le> 1" using \<open>frame_refs s f \<le> 1\<close> by (simp add: word_le_nat_alt)
      then have "card (sites m D f - insert (pd, v) X) = 0" using cf h'(4) [of f] by simp
      with \<open>sites m D g - insert (pd, v) X \<noteq> {}\<close> \<open>g = f\<close> show False by simp
    qed
    moreover have "g \<in> used_set s" using h'(5) [of g] sub [of g] that by blast
    ultimately show ?thesis by (auto simp: used_set_unref)
  qed
  show ?thesis unfolding held_def
    using h'(1-3) f count used by (auto simp: frames_inv_unref used_set_unref)
qed

lemma held_unref_struct:
  assumes h: "held s m D X Q" and "sites m D f - X = {}" and "f \<noteq> 0" "f \<notin> Q"
  shows "held (page_unref f s) m D X Q"
proof -
  note h' = heldD [OF h]
  have "card (sites m D g - X) \<le> unat (frame_refs (page_unref f s) g)" for g
  proof (cases "g = f")
    case True
    then have "card (sites m D g - X) = 0" using assms(2) by (simp only: card.empty)
    then show ?thesis by linarith
  qed (use h'(4) [of g] in \<open>simp add: page_unref_refs\<close>)
  moreover have "g \<in> used_set (page_unref f s)" if "sites m D g - X \<noteq> {}" for g
    using h'(5) [OF that] that assms(2) by (auto simp: used_set_unref)
  ultimately show ?thesis unfolding held_def
    using h'(1-3) assms(3,4) by (auto simp: frames_inv_unref used_set_unref)
qed

lemma held_mono: "held s m D X Q \<Longrightarrow> Q' \<subseteq> Q \<Longrightarrow> held s m D X Q'"
  by (auto simp: held_def)

lemma release_page_held:
  fixes s :: "'a mm_state_scheme"
  assumes ok: "dirs_ok m used kd D" and pd: "pd \<in> D" and h: "held s m D X (struct_frames m D)"
    and v: "frame va \<in> window" and n: "(pd, frame va) \<notin> X"
  shows "held (release_page pd va s) m D (insert (pd, frame va) X) (struct_frames m D)"
proof -
  have m: "pmem s = m" by (rule heldD(2) [OF h])
  note up = user_pte_window [of s, unfolded m, OF ok pd v]
  show ?thesis
  proof (cases "present (pte m pd (frame va))")
    case False
    then have "sites m D f - insert (pd, frame va) X = sites m D f - X" for f by (auto simp: sites_def)
    moreover have "release_page pd va s = s" using False up(4) by (auto simp: release_page_def Let_def m)
    ultimately show ?thesis using h by (simp add: held_def)
  next
    case True
    have "release_page pd va s = page_unref (frame (pte m pd (frame va))) s"
      using True up(4) up(3) [OF pte_pde [OF True]] by (simp add: release_page_def Let_def m)
    moreover have "(pd, frame va) \<in> sites m D (frame (pte m pd (frame va)))"
      using pd v True by (simp add: sites_def)
    ultimately show ?thesis
      using held_unref_site [OF h _ n] dirs_okD(7,8) [OF ok pd v True] by simp
  qed
qed

lemma release_loop:
  fixes s :: "'a mm_state_scheme"
  assumes ok: "dirs_ok m used kd D" and pd: "pd \<in> D"
    and "held s m D X (struct_frames m D)" and "\<forall>va \<in> set vas. frame va \<in> window"
    and "distinct (map (drop_bit 12) vas)" and "\<forall>va \<in> set vas. (pd, frame va) \<notin> X"
  shows "held (fold (release_page pd) vas s) m D (X \<union> {pd} \<times> frame ` set vas) (struct_frames m D)"
  using assms(3-6)
proof (induction vas arbitrary: s X)
  case (Cons va vas)
  have "held (release_page pd va s) m D (insert (pd, frame va) X) (struct_frames m D)"
    using Cons.prems by (intro release_page_held [OF ok pd]) auto
  then have "held (fold (release_page pd) vas (release_page pd va s)) m D
      (insert (pd, frame va) X \<union> {pd} \<times> frame ` set vas) (struct_frames m D)"
    by (rule Cons.IH) (use Cons.prems in \<open>auto dest: image_eqI [OF sym]\<close>)
  moreover have "insert (pd, frame va) X \<union> {pd} \<times> frame ` set vas = X \<union> {pd} \<times> frame ` set (va # vas)"
    by auto
  ultimately show ?case by simp
qed simp

lemma user_pages_distinct: "distinct (map (drop_bit 12) user_pages)"
proof -
  have "card (frame ` set user_pages) = 0x7FF"
  proof -
    have "{v::u32. 0x8048 \<le> v \<and> v < 0x8847} = set (u32_range 0x8048 0x8847)" by simp
    then show ?thesis unfolding user_pages_frames by (simp add: distinct_card del: set_u32_range)
  qed
  moreover have "length user_pages = 0x7FF"
    by (simp add: user_pages_def user_window PAGE_SIZE_def)
  ultimately show ?thesis by (intro card_distinct) simp
qed

lemma mm_free_page_unref: "mm_free_page a s = page_unref (frame a) s"
proof -
  have "a div PAGE_SIZE = frame a"
    by (simp add: word_unat_eq_iff unat_frame unat_div PAGE_SIZE_def)
  then show ?thesis by (simp add: mm_free_page_def Let_def page_unref_def not_less)
qed

lemma struct_frames_minus:
  assumes ok: "dirs_ok m used kd D" and pd: "pd \<in> D"
  shows "frame pd \<notin> struct_frames m (D - {pd})"
    and "d \<in> set user_pdes \<Longrightarrow> present (ent m pd d) \<Longrightarrow> frame (ent m pd d) \<notin> struct_frames m (D - {pd})"
    and "struct_frames m (D - {pd}) \<subseteq> struct_frames m D"
proof -
  have ne: "frame pd \<noteq> frame pd'" if "pd' \<in> D - {pd}" for pd'
    using that pd page_aligned_eq [OF dirs_okD(1) [OF ok pd] dirs_okD(1) [OF ok, of pd']] by auto
  show "frame pd \<notin> struct_frames m (D - {pd})"
  proof
    assume "frame pd \<in> struct_frames m (D - {pd})"
    then consider pd' where "pd' \<in> D - {pd}" "frame pd = frame pd'" | pd' d where "pd' \<in> D"
      "d \<in> set user_pdes" "present (ent m pd' d)" "frame pd = frame (ent m pd' d)"
      unfolding struct_frames_def by blast
    then show False
    proof cases
      case 2
      then show ?thesis using dirs_okD(5) [OF ok 2(1-3)] imageI [OF pd, of frame] by simp
    qed (use ne in blast)
  qed
  show "frame (ent m pd d) \<notin> struct_frames m (D - {pd})" if d: "d \<in> set user_pdes" "present (ent m pd d)"
  proof
    assume "frame (ent m pd d) \<in> struct_frames m (D - {pd})"
    then consider "frame (ent m pd d) \<in> frame ` D" | pd' d' where "pd' \<in> D" "pd' \<noteq> pd" "d' \<in> set user_pdes"
      "present (ent m pd' d')" "frame (ent m pd d) = frame (ent m pd' d')"
      unfolding struct_frames_def by blast
    then show False
      by cases (use dirs_okD(5) [OF ok pd d] dirs_ok_inj [OF ok pd _ d(1) _ d(2)] in blast)+
  qed
  show "struct_frames m (D - {pd}) \<subseteq> struct_frames m D" by (auto simp: struct_frames_def)
qed

lemma sites_minus: "sites m (D - {pd}) f = sites m D f - {pd} \<times> UNIV"
  by (auto simp: sites_def)

lemma sites_struct: "dirs_ok m used kd D \<Longrightarrow> f \<in> struct_frames m D \<Longrightarrow> sites m D f = {}"
  using dirs_okD(7) [of m used kd D] by (fastforce simp: sites_def)

lemma free_user_pd_held:
  fixes s :: "'a mm_state_scheme"
  assumes ok: "dirs_ok m used kd D" and pd: "pd \<in> D" and h: "held s m D X (struct_frames m D)"
    and kd: "page_dir_phys s = kd"
  shows "held (mm_free_user_pd pd s) m D X (struct_frames m (D - {pd}))"
proof -
  let ?Q = "struct_frames m (D - {pd})"
  let ?step = "\<lambda>d s. if ent (pmem s) pd d AND PDE_PRESENT \<noteq> 0
      then mm_free_page (ent (pmem s) pd d AND PAGE_MASK) s else s"
  have un: "held (page_unref f t) m D X ?Q"
    if "held t m D X ?Q" "f \<in> struct_frames m D" "f \<noteq> 0" "f \<notin> ?Q" for f and t :: "'a mm_state_scheme"
    by (rule held_unref_struct [OF that(1)]) (use that sites_struct [OF ok] in auto)
  have loop: "held (fold ?step ds t) m D X ?Q" if "held t m D X ?Q" "set ds \<subseteq> set user_pdes" for ds and t :: "'a mm_state_scheme"
    using that
  proof (induction ds arbitrary: t)
    case (Cons d ds)
    have "held (?step d t) m D X ?Q"
    proof (cases "present (ent m pd d)")
      case True
      have "held (page_unref (frame (ent m pd d)) t) m D X ?Q"
        using Cons.prems True dirs_okD(5) [OF ok pd, of d] struct_framesI(2) [OF pd, of d m]
          struct_frames_minus(2) [OF ok pd, of d]
        by (intro un) auto
      with True show ?thesis
        using heldD(2) [OF Cons.prems(1)] by (simp add: present_def mm_free_page_unref)
    next
      case False
      then show ?thesis using Cons.prems(1) heldD(2) [OF Cons.prems(1)] by (simp add: present_def)
    qed
    then show ?case using Cons.IH Cons.prems(2) by simp
  qed simp
  have "held (fold ?step user_pdes s) m D X ?Q"
    by (rule loop) (use held_mono [OF h struct_frames_minus(3) [OF ok pd]] in auto)
  moreover have "frame pd \<noteq> 0"
    using ok struct_framesI(1) [OF pd, of m] by (auto simp: dirs_ok_def)
  ultimately have "held (page_unref (frame pd) (fold ?step user_pdes s)) m D X ?Q"
    using struct_framesI(1) [OF pd, of m] struct_frames_minus(1) [OF ok pd] by (intro un) auto
  then show ?thesis
    using dirs_okD(2,3) [OF ok pd] kd by (simp add: mm_free_user_pd_def mm_free_page_unref)
qed

lemma dirs_ok_minus:
  assumes ok: "dirs_ok m used kd D" and "struct_frames m (D - {pd}) \<subseteq> used'"
    and "\<And>pd' v. pd' \<in> D - {pd} \<Longrightarrow> v \<in> window \<Longrightarrow> present (pte m pd' v) \<Longrightarrow> frame (pte m pd' v) \<in> used'"
  shows "dirs_ok m used' kd (D - {pd})"
  unfolding dirs_ok_def
proof (intro conjI ballI impI)
  have sub: "struct_frames m (D - {pd}) \<subseteq> struct_frames m D" by (auto simp: struct_frames_def)
  then show "struct_frames m (D - {pd}) \<subseteq> used' - {0}" using assms(2) ok by (auto simp: dirs_ok_def)
  fix pd' assume pd': "pd' \<in> D - {pd}"
  then have D: "pd' \<in> D" by blast
  show "page_aligned pd'" "pd' \<noteq> 0" "pd' \<noteq> kd" using dirs_okD(1-3) [OF ok D] by auto
  show "frame (ent m pd' d) \<notin> frame ` (D - {pd})" if "d \<in> set user_pdes" "present (ent m pd' d)" for d
    using dirs_okD(5) [OF ok D that] by auto
  show "frame (pte m pd' v) \<in> used' - insert 0 (struct_frames m (D - {pd}))"
    if "v \<in> window" "present (pte m pd' v)" for v
    using assms(3) [OF pd' that] dirs_okD(7,8) [OF ok D that] sub by auto
  fix pd'' d d' assume "pd'' \<in> D - {pd}" "d \<in> set user_pdes" "d' \<in> set user_pdes"
    "present (ent m pd' d) \<and> present (ent m pd'' d') \<and> frame (ent m pd' d) = frame (ent m pd'' d')"
  then show "pd' = pd''" "d = d'" using dirs_ok_inj [OF ok D, of pd'' d d'] by auto
qed

lemma held_restrict:
  assumes ok: "dirs_ok m used kd D" and h: "held s m D X (struct_frames m (D - {pd}))"
    and X: "X \<subseteq> {pd} \<times> UNIV" and kd: "page_dir_phys s = kd"
    and w: "\<forall>pd \<in> D. \<forall>v \<in> window. present (pte m pd v) \<and> writable (pte m pd v) \<longrightarrow>
        sites m D (frame (pte m pd v)) = {(pd, v)}"
    and u: "\<forall>pd \<in> D. \<forall>v \<in> window. present (pte m pd v) \<longrightarrow> v \<in> user_vpns"
  shows "cow_ok s (D - {pd})"
proof -
  let ?D = "D - {pd}"
  have sub: "sites m ?D f \<subseteq> sites m D f - X" for f using X by (auto simp: sites_minus)
  have "card (sites m ?D f) \<le> unat (frame_refs s f)" for f
    using card_mono [OF _ sub [of f]] heldD(4) [OF h, of f] by simp
  moreover have "frame (pte m pd' v) \<in> used_set s"
    if "pd' \<in> ?D" "v \<in> window" "present (pte m pd' v)" for pd' v
  proof (rule heldD(5) [OF h])
    have "(pd', v) \<in> sites m ?D (frame (pte m pd' v))" using that by (simp add: sites_def)
    then show "sites m D (frame (pte m pd' v)) - X \<noteq> {}" using sub by blast
  qed
  moreover have "struct_frames m ?D \<subseteq> used_set s" by (rule heldD(3) [OF h])
  ultimately have "dirs_ok m (used_set s) kd ?D" and "\<And>f. card (sites m ?D f) \<le> unat (frame_refs s f)"
    using dirs_ok_minus [OF ok] by blast+
  moreover have "sites m ?D (frame (pte m pd' v)) = {(pd', v)}"
    if "pd' \<in> ?D" "v \<in> window" "present (pte m pd' v)" "writable (pte m pd' v)" for pd' v
    using w that by (auto simp: sites_minus)
  ultimately show ?thesis using heldD(1,2) [OF h] kd u by (simp add: cow_ok_def vm_ok_def) blast
qed

lemma cow_held:
  assumes "cow_ok s D"
  shows "held s (pmem s) D {} (struct_frames (pmem s) D)"
proof -
  note vm = vm_okD [OF cow_okD(1) [OF assms]]
  have "f \<in> used_set s" if "sites (pmem s) D f \<noteq> {}" for f
    using that dirs_okD(6) [OF vm(2)] by (auto simp: sites_def)
  then show ?thesis
    using vm(1) cow_okD(2) [OF assms] struct_used [OF vm(2)] by (simp add: held_def)
qed

text \<open>The trampoline is the last page of the window.\<close>

lemma tramp_page: "frame USER_SIGTRAMP = 0x8847" "0x8847 \<in> window" "0x8847 \<notin> frame ` set user_pages"
  by (simp_all add: user_window window_iff user_pages_frames word_le_nat_alt word_less_nat_alt)

lemma release_pages_kd: "page_dir_phys (mm_user_release_pages pd s) = page_dir_phys s"
proof -
  have "page_dir_phys (fold (release_page pd) vas s) = page_dir_phys s" for vas
    by (induction vas arbitrary: s) (simp_all add: release_page_def Let_def)
  then show ?thesis by (simp add: mm_user_release_pages_def)
qed

lemma free_user_pd_kd: "page_dir_phys (mm_free_user_pd pd s) = page_dir_phys s"
proof -
  have "page_dir_phys (fold (\<lambda>d s. if ent (pmem s) pd d AND PDE_PRESENT \<noteq> 0
      then mm_free_page (ent (pmem s) pd d AND PAGE_MASK) s else s) ds s) = page_dir_phys s" for ds
    by (induction ds arbitrary: s) (simp_all add: mm_free_page_unref)
  then show ?thesis by (simp add: mm_free_user_pd_def mm_free_page_unref)
qed

lemma teardown:
  assumes cow: "cow_ok s D" and pd: "pd \<in> D"
    and tr: "present (pte (pmem s) pd 0x8847)" "frame tramp = frame (pte (pmem s) pd 0x8847)"
  shows "cow_ok (mm_free_page tramp (mm_free_user_pd pd (mm_user_release_pages pd s))) (D - {pd})"
    and "pmem (mm_free_page tramp (mm_free_user_pd pd (mm_user_release_pages pd s))) = pmem s"
proof -
  let ?m = "pmem s" and ?X = "{pd} \<times> frame ` set user_pages" and ?f = "frame (pte (pmem s) pd 0x8847)"
  let ?s1 = "mm_user_release_pages pd s"
  let ?s2 = "mm_free_user_pd pd ?s1"
  note ok = vm_okD(2) [OF cow_okD(1) [OF cow]]
  have k1: "page_dir_phys ?s1 = page_dir_phys s" by (rule release_pages_kd)
  have "held ?s1 ?m D ?X (struct_frames ?m D)"
    using release_loop [OF ok pd cow_held [OF cow] user_pages_window user_pages_distinct]
      dirs_okD(2) [OF ok pd] by (simp add: mm_user_release_pages_def)
  then have h2: "held ?s2 ?m D ?X (struct_frames ?m (D - {pd}))"
    by (rule free_user_pd_held [OF ok pd _ k1])
  have "?f \<notin> struct_frames ?m (D - {pd})"
    using dirs_okD(7) [OF ok pd tramp_page(2) tr(1)] struct_frames_minus(3) [OF ok pd] by blast
  then have h3: "held (page_unref ?f ?s2) ?m D (insert (pd, 0x8847) ?X) (struct_frames ?m (D - {pd}))"
    using tr(1) pd tramp_page(2,3) dirs_okD(8) [OF ok pd tramp_page(2) tr(1)]
    by (intro held_unref_site [OF h2]) (auto simp: sites_def)
  have k2: "page_dir_phys ?s2 = page_dir_phys s" by (simp add: free_user_pd_kd k1)
  show "cow_ok (mm_free_page tramp ?s2) (D - {pd})"
    unfolding mm_free_page_unref tr(2)
    by (rule held_restrict [OF ok h3]) (use k2 cow_okD(3,4) [OF cow] in auto)
  show "pmem (mm_free_page tramp ?s2) = ?m"
    using heldD(2) [OF h2] by (simp add: mm_free_page_unref)
qed

end
