(* ===== verification/Spaces.thy ===== *)
theory Spaces
  imports Cow
begin

text \<open>
  Building user address spaces: \<^verbatim>\<open>mm_create_user_pd\<close> and \<^verbatim>\<open>mm_clone_user_pd\<close>.  Both fill a fresh
  directory whose tables are fresh frames; \<open>fresh_dir\<close> is the loop invariant, and \<open>add_dir\<close> adds
  the finished directory to the system of spaces.
\<close>

section \<open>A directory under construction\<close>

lemma copy_table_keeps [simp]:
  "frames_inv (copy_table p q s) = frames_inv s" "used_set (copy_table p q s) = used_set s"
  "frame_refs (copy_table p q s) = frame_refs s" "page_dir_phys (copy_table p q s) = page_dir_phys s"
  "total_pages (copy_table p q s) = total_pages s"
  by (subst copy_table_frame; simp)+

lemma zero_table_keeps [simp]:
  "frames_inv (zero_table p s) = frames_inv s" "used_set (zero_table p s) = used_set s"
  "frame_refs (zero_table p s) = frame_refs s" "page_dir_phys (zero_table p s) = page_dir_phys s"
  "total_pages (zero_table p s) = total_pages s"
  by (subst zero_table_frame; simp)+

lemma set_ent_state [simp]:
  "frames_inv (set_ent p i v s) = frames_inv s" "used_set (set_ent p i v s) = used_set s"
  by (simp_all add: set_ent_def)

text \<open>Relative to a state \<open>s\<close>: the directory \<open>pd\<close> and the tables of its slots \<open>E\<close> are frames that
  were free in \<open>s\<close>, nothing else has been allocated, and nothing allocated in \<open>s\<close> has changed.\<close>

definition fresh_dir :: "'a mm_state_scheme \<Rightarrow> u32 \<Rightarrow> u32 set \<Rightarrow> 'a mm_state_scheme \<Rightarrow> bool" where
  "fresh_dir s pd E t \<longleftrightarrow> frames_inv t \<and> page_dir_phys t = page_dir_phys s \<and>
     page_aligned pd \<and> pd \<noteq> 0 \<and> used_set s \<subseteq> used_set t \<and> frame pd \<in> used_set t - used_set s \<and>
     0 \<notin> used_set t - used_set s \<and> (\<forall>x. frame x \<in> used_set s \<longrightarrow> pmem t x = pmem s x) \<and>
     (\<forall>f \<in> used_set s. frame_refs t f = frame_refs s f) \<and>
     (\<forall>d \<in> E. present (ent (pmem t) pd d) \<longrightarrow>
        frame (ent (pmem t) pd d) \<in> used_set t - used_set s - {frame pd}) \<and>
     (\<forall>d \<in> E. \<forall>d' \<in> E. present (ent (pmem t) pd d) \<and> present (ent (pmem t) pd d') \<and>
        frame (ent (pmem t) pd d) = frame (ent (pmem t) pd d') \<longrightarrow> d = d') \<and>
     total_pages t = total_pages s \<and>
     (\<forall>f \<in> used_set t - used_set s. frame_refs t f = 1 \<and>
        (f = frame pd \<or> (\<exists>d \<in> E. present (ent (pmem t) pd d) \<and> f = frame (ent (pmem t) pd d))))"

lemma fresh_dirD:
  assumes "fresh_dir s pd E t"
  shows "frames_inv t" and "page_dir_phys t = page_dir_phys s" and "page_aligned pd" and "pd \<noteq> 0"
    and "used_set s \<subseteq> used_set t" and "frame pd \<in> used_set t" and "frame pd \<notin> used_set s"
    and "frame x \<in> used_set s \<Longrightarrow> pmem t x = pmem s x"
    and "f \<in> used_set s \<Longrightarrow> frame_refs t f = frame_refs s f"
    and "f \<in> used_set t \<Longrightarrow> f \<notin> used_set s \<Longrightarrow> f \<noteq> 0"
    and "d \<in> E \<Longrightarrow> present (ent (pmem t) pd d) \<Longrightarrow>
      frame (ent (pmem t) pd d) \<in> used_set t - used_set s - {frame pd}"
    and "d \<in> E \<Longrightarrow> d' \<in> E \<Longrightarrow> present (ent (pmem t) pd d) \<Longrightarrow> present (ent (pmem t) pd d') \<Longrightarrow>
      frame (ent (pmem t) pd d) = frame (ent (pmem t) pd d') \<Longrightarrow> d = d'"
    and "total_pages t = total_pages s"
    and "f \<in> used_set t \<Longrightarrow> f \<notin> used_set s \<Longrightarrow> frame_refs t f = 1"
    and "f \<in> used_set t \<Longrightarrow> f \<notin> used_set s \<Longrightarrow>
      f = frame pd \<or> (\<exists>d \<in> E. present (ent (pmem t) pd d) \<and> f = frame (ent (pmem t) pd d))"
  using assms by (auto simp: fresh_dir_def)

text \<open>The finished directory joins the others.\<close>

lemma add_dir:
  assumes f: "fresh_dir s pd (set user_pdes) t"
    and ok: "dirs_ok (pmem s) (used_set s) (page_dir_phys s) D" and kd: "pd \<noteq> page_dir_phys s"
    and mp: "\<And>v. v \<in> window \<Longrightarrow> present (pte (pmem t) pd v) \<Longrightarrow>
      frame (pte (pmem t) pd v) \<in> used_set s - insert 0 (struct_frames (pmem s) D)"
  shows "dirs_ok (pmem t) (used_set t) (page_dir_phys t) (insert pd D)"
    and "pd \<notin> D" and "same_view (pmem s) (pmem t) D"
    and "pd' \<in> D \<Longrightarrow> v \<in> window \<Longrightarrow> pte (pmem t) pd' v = pte (pmem s) pd' v"
proof -
  note fd = fresh_dirD [OF f]
  have agree: "\<forall>x. frame x \<in> struct_frames (pmem s) D \<longrightarrow> pmem t x = pmem s x"
    using fd(8) struct_used [OF ok] by blast
  have al: "\<forall>pd \<in> D. page_aligned pd" using dirs_okD(1) [OF ok] by blast
  note sp = same_spaces [OF al agree]
  show "pd' \<in> D \<Longrightarrow> v \<in> window \<Longrightarrow> pte (pmem t) pd' v = pte (pmem s) pd' v" by (rule sp(2))
  show nD: "pd \<notin> D" using fd(7) dirs_okD(4) [OF ok] by blast
  have st: "struct_frames (pmem t) (insert pd D) = struct_frames (pmem s) D \<union> struct_frames (pmem t) {pd}"
    unfolding sp(3) [symmetric] by (auto simp: struct_frames_def)
  have new: "struct_frames (pmem t) {pd} \<subseteq> used_set t - used_set s"
    using fd(6,7,11) by (auto simp: struct_frames_def)
  have old: "struct_frames (pmem s) D \<subseteq> used_set s" by (rule struct_used [OF ok])
  have cases: "pd' \<in> insert pd D \<Longrightarrow> pd' = pd \<or> pd' \<in> D" for pd' by blast
  have entD: "ent (pmem t) pd' d = ent (pmem s) pd' d" if "pd' \<in> D" "d \<in> set user_pdes" for pd' d
    by (rule sp(1) [OF that])
  have inD: "frame (ent (pmem t) pd' d) \<in> used_set s" "frame (ent (pmem t) pd' d) \<notin> frame ` insert pd D"
    if "pd' \<in> D" "d \<in> set user_pdes" "present (ent (pmem t) pd' d)" for pd' d
    using dirs_okD(5) [OF ok that(1,2)] that(3) entD [OF that(1,2)] fd(7) by auto
  have inN: "frame (ent (pmem t) pd d) \<notin> used_set s" "frame (ent (pmem t) pd d) \<notin> frame ` insert pd D"
    if "d \<in> set user_pdes" "present (ent (pmem t) pd d)" for d
    using fd(11) [OF that] dirs_okD(4) [OF ok] by auto
  show "dirs_ok (pmem t) (used_set t) (page_dir_phys t) (insert pd D)"
    unfolding dirs_ok_def
  proof (intro conjI ballI impI)
    fix pd' assume pd': "pd' \<in> insert pd D"
    then show "page_aligned pd'" "pd' \<noteq> 0" "pd' \<noteq> page_dir_phys t"
      using dirs_okD(1-3) [OF ok] fd(2-4) kd by auto
    show "frame (ent (pmem t) pd' d) \<notin> frame ` insert pd D"
      if "d \<in> set user_pdes" "present (ent (pmem t) pd' d)" for d
      using cases [OF pd'] inD(2) inN(2) that by blast
    show "frame (pte (pmem t) pd' v) \<in> used_set t - insert 0 (struct_frames (pmem t) (insert pd D))"
      if "v \<in> window" "present (pte (pmem t) pd' v)" for v
    proof -
      have "frame (pte (pmem t) pd' v) \<in> used_set s - insert 0 (struct_frames (pmem s) D)"
        using cases [OF pd'] mp [OF that(1)] dirs_okD(6-8) [OF ok _ that(1), of pd'] sp(2) [OF _ that(1), of pd'] that(2)
        by auto
      then show ?thesis using st new fd(5) by blast
    qed
    fix pd'' d d' assume pd'': "pd'' \<in> insert pd D" and d: "d \<in> set user_pdes" "d' \<in> set user_pdes"
      and e: "present (ent (pmem t) pd' d) \<and> present (ent (pmem t) pd'' d') \<and>
        frame (ent (pmem t) pd' d) = frame (ent (pmem t) pd'' d')"
    have "pd' = pd'' \<and> d = d'"
      using cases [OF pd'] cases [OF pd''] d e fd(12) [OF d] inD(1) inN(1)
        dirs_ok_inj [OF ok, of pd' pd'' d d'] entD [of pd' d] entD [of pd'' d']
      by metis
    then show "pd' = pd''" "d = d'" by simp_all
  next
    show "struct_frames (pmem t) (insert pd D) \<subseteq> used_set t - {0}"
    proof -
      have "0 \<notin> struct_frames (pmem s) D" using ok by (auto simp: dirs_ok_def)
      then show ?thesis using st new old fd(5) fd(10) [of 0] by blast
    qed
  qed
  show "same_view (pmem s) (pmem t) D"
    unfolding same_view_def
  proof (intro ballI allI impI)
    fix pd' v and k :: u32 assume a: "pd' \<in> D" "v \<in> window" "k < 4096"
    show "uread (pmem t) pd' v k = uread (pmem s) pd' v k"
      using sp(2) [OF a(1,2)] fd(8) [of "(pte (pmem s) pd' v AND PAGE_MASK) + k"]
        dirs_okD(6) [OF ok a(1,2)] frame_offset [OF a(3)] by (simp add: uread_def)
  qed
qed

section \<open>Steps of the construction\<close>

lemma fresh_start:
  assumes a: "page_aligned p" "p \<noteq> 0" "frame p \<notin> used_set s" "frame p \<noteq> 0"
    and t: "frames_inv t" "page_dir_phys t = page_dir_phys s" "used_set t = insert (frame p) (used_set s)"
      "frame_refs t = (frame_refs s)(frame p := 1)" "\<And>x. frame x \<noteq> frame p \<Longrightarrow> pmem t x = pmem s x"
    and E: "\<forall>d \<in> E. \<not> present (ent (pmem t) p d)" and tot: "total_pages t = total_pages s"
  shows "fresh_dir s p E t"
  unfolding fresh_dir_def
proof (intro conjI)
  show "\<forall>x. frame x \<in> used_set s \<longrightarrow> pmem t x = pmem s x" using a(3) t(5) by metis
qed (use assms in auto)

lemma fresh_table:
  assumes f: "fresh_dir s pd E t" and p: "frame p \<notin> used_set t" "frame p \<noteq> 0"
    and t': "frames_inv t'" "page_dir_phys t' = page_dir_phys t" "used_set t' = insert (frame p) (used_set t)"
      "frame_refs t' = (frame_refs t)(frame p := 1)"
      "\<And>x. frame x \<noteq> frame p \<Longrightarrow> frame x \<noteq> frame pd \<Longrightarrow> pmem t' x = pmem t x"
    and e: "frame (ent (pmem t') pd d) = frame p"
    and o: "\<And>d'. d' \<in> E \<Longrightarrow> d' \<noteq> d \<Longrightarrow> ent (pmem t') pd d' = ent (pmem t) pd d'"
    and tot: "total_pages t' = total_pages t" and pe: "present (ent (pmem t') pd d)"
    and nd: "d \<in> E \<Longrightarrow> \<not> present (ent (pmem t) pd d)"
  shows "fresh_dir s pd (insert d E) t'"
proof -
  note fd = fresh_dirD [OF f]
  have ps: "frame p \<notin> used_set s" "frame p \<noteq> frame pd" using p(1) fd(5,6) by auto
  have keep: "pmem t' x = pmem s x" if "frame x \<in> used_set s" for x
    using that t'(5) [of x] fd(7) fd(8) [OF that] ps(1) by metis
  have tb: "frame (ent (pmem t') pd d') \<in> used_set t' - used_set s - {frame pd}"
    if "d' \<in> insert d E" "present (ent (pmem t') pd d')" for d'
    using that e o [of d'] fd(11) [of d'] ps t'(3) by (cases "d' = d") auto
  have inj: "d1 = d2" if "d1 \<in> insert d E" "d2 \<in> insert d E" "present (ent (pmem t') pd d1)"
    "present (ent (pmem t') pd d2)" "frame (ent (pmem t') pd d1) = frame (ent (pmem t') pd d2)" for d1 d2
  proof -
    have "frame (ent (pmem t') pd d') \<noteq> frame p" if "d' \<in> E" "d' \<noteq> d" "present (ent (pmem t') pd d')" for d'
      using fd(11) [of d'] o [OF that(1,2)] that p(1) by auto
    from this [of d1] this [of d2] show ?thesis
      using that e o [of d1] o [of d2] fd(12) [of d1 d2] by (cases "d1 = d"; cases "d2 = d") auto
  qed
  show ?thesis unfolding fresh_dir_def
  proof (intro conjI)
    show "\<forall>x. frame x \<in> used_set s \<longrightarrow> pmem t' x = pmem s x" using keep by blast
    show "\<forall>f \<in> used_set s. frame_refs t' f = frame_refs s f" using fd(9) t'(4) ps(1) by auto
    show "0 \<notin> used_set t' - used_set s" using t'(3) p(2) fd(10) by auto
    show "\<forall>f \<in> used_set t' - used_set s. frame_refs t' f = 1 \<and> (f = frame pd \<or>
        (\<exists>d' \<in> insert d E. present (ent (pmem t') pd d') \<and> f = frame (ent (pmem t') pd d')))"
    proof
      fix f assume "f \<in> used_set t' - used_set s"
      then consider "f = frame p" | "f \<in> used_set t" "f \<notin> used_set s" "f \<noteq> frame p" using t'(3) by blast
      then show "frame_refs t' f = 1 \<and> (f = frame pd \<or>
        (\<exists>d' \<in> insert d E. present (ent (pmem t') pd d') \<and> f = frame (ent (pmem t') pd d')))"
      proof cases
        case 2
        with fd(14,15) [OF 2(1,2)] o nd t'(4) show ?thesis by (metis fun_upd_other insertCI)
      qed (use t'(4) pe e in auto)
    qed
    show "total_pages t' = total_pages s" using tot fd(13) by simp
  qed (use fd t' tb inj in auto)
qed

text \<open>Storing an entry into a table of the directory under construction.\<close>

lemma fresh_store:
  fixes e :: u32
  assumes f: "fresh_dir s pd (set user_pdes) t" and v: "v \<in> window"
    and pr: "present (ent (pmem t) pd (drop_bit 10 v))"
  defines "t' \<equiv> set_ent (ent (pmem t) pd (drop_bit 10 v) AND PAGE_MASK) (v AND 0x3FF) e t"
  shows "fresh_dir s pd (set user_pdes) t'"
    and "d < 1024 \<Longrightarrow> ent (pmem t') pd d = ent (pmem t) pd d"
    and "v' \<in> window \<Longrightarrow> pte (pmem t') pd v' = (if v' = v then e else pte (pmem t) pd v')"
proof -
  let ?p = "ent (pmem t) pd (drop_bit 10 v) AND PAGE_MASK"
  note fd = fresh_dirD [OF f]
  have dv: "drop_bit 10 v \<in> set user_pdes" using v by (simp add: window_def)
  have pf: "frame ?p \<in> used_set t" "frame ?p \<notin> used_set s" "frame ?p \<noteq> frame pd"
    using fd(11) [OF dv pr] by auto
  show edl: "ent (pmem t') pd d = ent (pmem t) pd d" if "d < 1024" for d
  proof -
    have "?p \<noteq> pd" using pf(3) by metis
    then show ?thesis unfolding t'_def
      by (simp add: ent_set_ent [OF page_aligned_mask fd(3) pt_index_lt that])
  qed
  note ed = edl [OF user_pdes_lt]
  have bt: "pmem t' x = pmem t x" if "frame x \<noteq> frame ?p" for x
    unfolding t'_def by (rule set_ent_byte) (use that pt_index_lt in auto)
  have fl: "frames_inv t'" "used_set t' = used_set t" "frame_refs t' = frame_refs t"
    "page_dir_phys t' = page_dir_phys t" "total_pages t' = total_pages t"
    using fd(1) by (simp_all add: t'_def set_ent_def)
  show "fresh_dir s pd (set user_pdes) t'"
    unfolding fresh_dir_def fl(2-5)
  proof (intro conjI)
    show "\<forall>x. frame x \<in> used_set s \<longrightarrow> pmem t' x = pmem s x" using bt pf(2) fd(8) by metis
  qed (use fd fl(1) ed in \<open>auto simp del: set_u32_range\<close>)
  show "pte (pmem t') pd v' = (if v' = v then e else pte (pmem t) pd v')" if "v' \<in> window"
  proof -
    have dv': "drop_bit 10 v' \<in> set user_pdes" using that by (simp add: window_def)
    show ?thesis
    proof (cases "present (ent (pmem t) pd (drop_bit 10 v'))")
      case True
      have "?p = ent (pmem t) pd (drop_bit 10 v') AND PAGE_MASK \<longleftrightarrow> drop_bit 10 v = drop_bit 10 v'"
        using fd(12) [OF dv dv' pr True] frame_mask by metis
      then show ?thesis
        using True ed [OF dv'] vpn_split [of v v']
          ent_set_ent [OF page_aligned_mask page_aligned_mask pt_index_lt pt_index_lt,
            of "ent (pmem t) pd (drop_bit 10 v)" v e t "ent (pmem t) pd (drop_bit 10 v')" v']
        by (auto simp: pte_def t'_def [symmetric])
    next
      case False
      then have "v' \<noteq> v" using pr by auto
      then show ?thesis using False ed [OF dv'] by (simp add: pte_def)
    qed
  qed
qed

section \<open>Cloning\<close>

text \<open>Slot \<open>d\<close> of the new directory has its own copy of the source's table.\<close>

definition cloned_slot :: "memory \<Rightarrow> u32 \<Rightarrow> memory \<Rightarrow> u32 \<Rightarrow> u32 \<Rightarrow> bool" where
  "cloned_slot m src m' pd d \<longleftrightarrow>
     (if present (ent m src d)
      then present (ent m' pd d) \<and>
        (\<forall>j < 1024. ent m' (ent m' pd d AND PAGE_MASK) j = ent m (ent m src d AND PAGE_MASK) j)
      else ent m' pd d = 0)"

lemma new_entry_flags:
  "page_aligned p \<Longrightarrow> frame (p OR (e AND NOT PAGE_MASK)) = frame p"
  "present e \<Longrightarrow> present (p OR (e AND NOT PAGE_MASK))"
proof -
  show "page_aligned p \<Longrightarrow> frame (p OR (e AND NOT PAGE_MASK)) = frame p"
    by (rule bit_word_eqI) (auto simp: entry_bits drop_bit_or)
qed (auto simp: entry_bits)

lemma fresh_zero:
  assumes f: "fresh_dir s pd E t" and E: "E \<subseteq> set user_pdes" "d \<notin> E" and d: "d \<in> set user_pdes"
  shows "fresh_dir s pd (insert d E) (set_ent pd d 0 t)"
proof -
  let ?t = "set_ent pd d 0 t"
  note fd = fresh_dirD [OF f]
  have e: "ent (pmem ?t) pd d' = (if d' = d then 0 else ent (pmem t) pd d')" if "d' \<in> insert d E" for d'
    using ent_set_ent [OF fd(3,3) user_pdes_lt [OF d] user_pdes_lt, of d' 0 t] that E d by auto
  have bt: "pmem ?t x = pmem t x" if "frame x \<noteq> frame pd" for x
    by (rule set_ent_byte) (use that fd(3) user_pdes_lt [OF d] in auto)
  have fl: "frames_inv ?t" "used_set ?t = used_set t" using fd(1) by (simp_all add: set_ent_def)
  have np: "\<not> present 0" by (simp add: present_def)
  show ?thesis unfolding fresh_dir_def fl(2) set_ent_keeps
  proof (intro conjI)
    show "\<forall>x. frame x \<in> used_set s \<longrightarrow> pmem ?t x = pmem s x" using bt fd(7,8) by metis
    show "\<forall>f \<in> used_set t - used_set s. frame_refs t f = 1 \<and> (f = frame pd \<or>
        (\<exists>d' \<in> insert d E. present (ent (pmem ?t) pd d') \<and> f = frame (ent (pmem ?t) pd d')))"
      using fd(14,15) e E(2) by (metis DiffD1 DiffD2 insertCI)
  qed (use fd fl(1) np in \<open>auto simp: e\<close>)
qed

lemma cloned_keep:
  assumes "cloned_slot m src m1 pd d" and "ent m2 pd d = ent m1 pd d"
    and "\<And>x. present (ent m1 pd d) \<Longrightarrow> frame x = frame (ent m1 pd d) \<Longrightarrow> m2 x = m1 x"
  shows "cloned_slot m src m2 pd d"
proof -
  have "ent m2 (ent m1 pd d AND PAGE_MASK) j = ent m1 (ent m1 pd d AND PAGE_MASK) j"
    if "j < 1024" "present (ent m1 pd d)" for j
    by (rule ent_cong) (use assms(3) [OF that(2)] that(1) in auto)
  then show ?thesis using assms(1,2) by (auto simp: cloned_slot_def)
qed

text \<open>One iteration for a present slot.\<close>

lemma clone_slot_step:
  fixes s :: "'a mm_state_scheme"
  assumes ok: "dirs_ok (pmem s) (used_set s) (page_dir_phys s) D" and src: "src \<in> D"
    and f: "fresh_dir s pd E t" and E: "E \<subseteq> set user_pdes" "d \<in> set user_pdes" "d \<notin> E"
    and pr: "present (ent (pmem s) src d)" and al: "mm_alloc_page t = (p, t1)" "p \<noteq> 0"
  defines "t2 \<equiv> copy_table p (ent (pmem t) src d AND PAGE_MASK) t1"
  defines "t3 \<equiv> set_ent pd d (p OR (ent (pmem t2) src d AND NOT PAGE_MASK)) t2"
  shows "fresh_dir s pd (insert d E) t3" and "cloned_slot (pmem s) src (pmem t3) pd d"
    and "\<And>d'. d' \<in> E \<Longrightarrow> cloned_slot (pmem s) src (pmem t) pd d' \<Longrightarrow> cloned_slot (pmem s) src (pmem t3) pd d'"
proof -
  note fd = fresh_dirD [OF f]
  obtain a: "page_aligned p" "frame p \<in> free_set t" "frames_inv t1" "frame_refs t1 = (frame_refs t)(frame p := 1)"
    "pmem t1 = pmem t" "page_dir_phys t1 = page_dir_phys t" "used_set t1 = insert (frame p) (used_set t)"
    "frame p \<notin> used_set t" "total_pages t1 = total_pages t"
    using fd(1) al by (cases rule: alloc_page_cases) auto
  have pz: "frame p \<noteq> 0" using al(2) page_aligned_eq [OF a(1), of 0] by (auto simp: page_aligned_def)
  have pn: "frame p \<noteq> frame pd" "frame p \<notin> used_set s" using a(8) fd(5,6) by auto
  let ?q = "ent (pmem s) src d AND PAGE_MASK"
  have dl: "d < 1024" by (rule user_pdes_lt [OF E(2)])
  have sf: "frame src \<in> used_set s" "page_aligned src" using dirs_okD(1,4) [OF ok src] by auto
  have qf: "frame ?q \<in> used_set s" using dirs_okD(5) [OF ok src E(2) pr] by simp
  have st: "ent (pmem t) src d = ent (pmem s) src d"
    by (rule ent_cong) (use sf fd(8) dl in auto)
  have pq: "p \<noteq> ?q" using pn(2) qf by metis
  have b2: "pmem t2 x = pmem t x" if "frame x \<noteq> frame p" for x
    unfolding t2_def by (simp add: copy_table_byte [OF a(1) that] a(5))
  have e2: "ent (pmem t2) p j = ent (pmem s) ?q j" if "j < 1024" for j
  proof -
    have "ent (pmem t2) p j = ent (pmem t) ?q j"
      unfolding t2_def st by (simp add: copy_table_ent [OF a(1) page_aligned_mask pq a(1) that] a(5))
    moreover have "ent (pmem t) ?q j = ent (pmem s) ?q j"
      by (rule ent_cong) (use qf fd(8) that in auto)
    ultimately show ?thesis by simp
  qed
  have "frame src \<noteq> frame p" using sf(1) pn(2) by metis
  then have s2: "ent (pmem t2) src d = ent (pmem s) src d"
    by (intro ent_cong) (use sf fd(8) dl b2 in auto)
  let ?e = "p OR (ent (pmem s) src d AND NOT PAGE_MASK)"
  have t3: "t3 = set_ent pd d ?e t2" by (simp add: t3_def s2)
  have e: "frame ?e = frame p" "present ?e" using new_entry_flags a(1) pr by auto
  have b3: "pmem t3 x = pmem t x" if "frame x \<noteq> frame p" "frame x \<noteq> frame pd" for x
    unfolding t3 by (simp add: set_ent_byte [OF fd(3) dl that(2)] b2 [OF that(1)])
  have d3: "ent (pmem t3) pd d' = (if d' = d then ?e else ent (pmem t) pd d')" if "d' \<in> insert d E" for d'
  proof -
    have l: "d' < 1024" using that E user_pdes_lt by auto
    have "ent (pmem t2) pd d' = ent (pmem t) pd d'"
      by (rule ent_cong) (use fd(3) l b2 pn(1) in auto)
    then show ?thesis unfolding t3 using ent_set_ent [OF fd(3,3) dl l, of ?e t2] by auto
  qed
  have fl: "frames_inv t3" "page_dir_phys t3 = page_dir_phys t" "used_set t3 = insert (frame p) (used_set t)"
    "frame_refs t3 = (frame_refs t)(frame p := 1)"
    using a(3,4,6,7) by (simp_all add: t3 t2_def)
  show "fresh_dir s pd (insert d E) t3"
    by (rule fresh_table [OF f a(8) pz fl b3]) (use d3 e E(3) a(9) in \<open>auto simp: t3 t2_def\<close>)
  have "ent (pmem t3) p j = ent (pmem t2) p j" if "j < 1024" for j
    unfolding t3 using ent_set_ent [OF fd(3) a(1) dl that, of ?e t2] pn(1) by auto
  moreover have "?e AND PAGE_MASK = p"
    using page_aligned_eq [OF page_aligned_mask a(1), of ?e] e(1) by simp
  ultimately show "cloned_slot (pmem s) src (pmem t3) pd d"
    using pr e d3 [of d] e2 by (simp add: cloned_slot_def)
  show "cloned_slot (pmem s) src (pmem t3) pd d'" if "d' \<in> E" "cloned_slot (pmem s) src (pmem t) pd d'" for d'
  proof (rule cloned_keep [OF that(2)])
    show "ent (pmem t3) pd d' = ent (pmem t) pd d'" using d3 [of d'] that(1) E(3) by auto
    show "pmem t3 x = pmem t x" if "present (ent (pmem t) pd d')" "frame x = frame (ent (pmem t) pd d')" for x
      by (rule b3) (use fd(11) [OF \<open>d' \<in> E\<close> that(1)] that(2) a(8) in auto)
  qed
qed

lemma clone_tables_spec:
  fixes s :: "'a mm_state_scheme"
  assumes ok: "dirs_ok (pmem s) (used_set s) (page_dir_phys s) D" and src: "src \<in> D"
    and "fresh_dir s pd E t" and "\<forall>d \<in> E. cloned_slot (pmem s) src (pmem t) pd d"
    and "set ds \<subseteq> set user_pdes" and "E \<subseteq> set user_pdes" and "distinct ds" and "E \<inter> set ds = {}"
    and "clone_tables src pd ds t = (True, t')"
  shows "fresh_dir s pd (E \<union> set ds) t' \<and> (\<forall>d \<in> E \<union> set ds. cloned_slot (pmem s) src (pmem t') pd d)"
  using assms(3-)
proof (induction ds arbitrary: E t)
  case (Cons d ds)
  note fd = fresh_dirD [OF Cons.prems(1)]
  have d: "d \<in> set user_pdes" "d \<notin> E" "d < 1024" using Cons.prems(3,6) user_pdes_lt by auto
  have srcd: "ent (pmem t) src d = ent (pmem s) src d"
    by (rule ent_cong) (use dirs_okD(1,4) [OF ok src] fd(8) d in auto)
  have next_state: "\<exists>u. clone_tables src pd ds u = (True, t') \<and> fresh_dir s pd (insert d E) u \<and>
      (\<forall>d' \<in> insert d E. cloned_slot (pmem s) src (pmem u) pd d')"
  proof (cases "present (ent (pmem s) src d)")
    case False
    let ?t = "set_ent pd d 0 t"
    have e: "ent (pmem ?t) pd d' = (if d' = d then 0 else ent (pmem t) pd d')" if "d' \<in> insert d E" for d'
      using ent_set_ent [OF fd(3,3) d(3) user_pdes_lt, of d' 0 t] that d(1) Cons.prems(4) by auto
    have "cloned_slot (pmem s) src (pmem ?t) pd d'" if "d' \<in> E" for d'
    proof (rule cloned_keep)
      show "cloned_slot (pmem s) src (pmem t) pd d'" using Cons.prems(2) that by blast
      show "ent (pmem ?t) pd d' = ent (pmem t) pd d'" using e [of d'] that d(2) by auto
      show "pmem ?t x = pmem t x" if "present (ent (pmem t) pd d')" "frame x = frame (ent (pmem t) pd d')" for x
        by (rule set_ent_byte) (use fd(3) d(3) fd(11) [OF \<open>d' \<in> E\<close> that(1)] that(2) in auto)
    qed
    moreover have "cloned_slot (pmem s) src (pmem ?t) pd d" using False e [of d] by (simp add: cloned_slot_def)
    ultimately show ?thesis
      using fresh_zero [OF Cons.prems(1,4) d(2,1)] Cons.prems(7) False srcd
      by (intro exI [of _ ?t]) (auto simp: present_def)
  next
    case True
    obtain p t1 where a: "mm_alloc_page t = (p, t1)" by force
    have p: "p \<noteq> 0" using Cons.prems(7) a True srcd by (auto simp: present_def split: if_splits)
    note st = clone_slot_step [OF ok src Cons.prems(1,4) d(1,2) True a p]
    let ?t2 = "copy_table p (ent (pmem t) src d AND PAGE_MASK) t1"
    have pm: "pmem t1 = pmem t" using fd(1) a p by (cases rule: alloc_page_cases) auto
    have "clone_tables src pd ds (set_ent pd d (p OR (ent (pmem ?t2) src d AND NOT PAGE_MASK)) ?t2) = (True, t')"
      using Cons.prems(7) a p True srcd pm by (simp add: present_def Let_def)
    then show ?thesis using st Cons.prems(2) by blast
  qed
  then obtain u where u: "clone_tables src pd ds u = (True, t')" "fresh_dir s pd (insert d E) u"
    "\<forall>d' \<in> insert d E. cloned_slot (pmem s) src (pmem u) pd d'" by blast
  have "fresh_dir s pd (insert d E \<union> set ds) t' \<and>
      (\<forall>d \<in> insert d E \<union> set ds. cloned_slot (pmem s) src (pmem t') pd d)"
    by (rule Cons.IH [OF u(2,3)]) (use Cons.prems(3-6) d u(1) in auto)
  then show ?case by (simp add: insert_absorb2)
qed simp

lemma cloned_pte:
  assumes "\<forall>d \<in> set user_pdes. cloned_slot m src m' pd d" and "v \<in> window"
  shows "pte m' pd v = pte m src v"
proof -
  have "cloned_slot m src m' pd (drop_bit 10 v)" using assms by (simp add: window_def)
  moreover have "\<not> present 0" by (simp add: present_def)
  ultimately show ?thesis using pt_index_lt by (auto simp: pte_def cloned_slot_def split: if_splits)
qed

lemma tramp_index: "pd_index USER_SIGTRAMP = drop_bit 10 0x8847" "pt_index USER_SIGTRAMP = 0x8847 AND 0x3FF"
  by (simp_all add: user_window)

lemma bit_PTE_PRESENT: "bit PTE_PRESENT n \<longleftrightarrow> n = 0"
  by (simp add: PTE_PRESENT_def PDE_PRESENT_def bit_1_iff)

lemma bit_PTE_USER: "bit PTE_USER n \<longleftrightarrow> n = 2"
proof -
  have "bit (4::u32) n \<longleftrightarrow> n = 2" using bit_exp_iff [where ?'a = "32 word", of 2 n] by auto
  then show ?thesis by (simp only: PTE_USER_def PDE_USER_def)
qed

lemma tramp_entry:
  assumes "page_aligned tramp"
  shows "present (tramp OR PTE_PRESENT OR PTE_USER)" "frame (tramp OR PTE_PRESENT OR PTE_USER) = frame tramp"
    "\<not> writable (tramp OR PTE_PRESENT OR PTE_USER)"
proof -
  show "frame (tramp OR PTE_PRESENT OR PTE_USER) = frame tramp"
    by (rule bit_word_eqI) (simp add: bit_drop_bit_eq bit_or_iff bit_PTE_PRESENT bit_PTE_USER)
qed (auto simp: present_bit writable_bit bit_or_iff bit_PTE_PRESENT bit_PTE_USER aligned_bit [OF assms])

text \<open>The kernel's own directory is allocated.\<close>

definition kernel_dir_ok :: "'a mm_state_scheme \<Rightarrow> bool" where
  "kernel_dir_ok s \<longleftrightarrow> page_aligned (page_dir_phys s) \<and> frame (page_dir_phys s) \<in> used_set s"

lemma clone_user_pd_spec:
  fixes s :: "'a mm_state_scheme"
  assumes vm: "vm_ok s D" and kd: "kernel_dir_ok s" and src: "src \<in> D"
    and tr: "page_aligned tramp" "frame tramp \<in> used_set s - insert 0 (struct_frames (pmem s) D)"
    and pt: "present (pte (pmem s) src 0x8847)"
    and c: "mm_clone_user_pd src tramp s = (pd, s')" "pd \<noteq> 0"
  shows "vm_ok s' (insert pd D)" and "pd \<notin> D" and "same_view (pmem s) (pmem s') D"
    and "\<And>pd' v. pd' \<in> D \<Longrightarrow> v \<in> window \<Longrightarrow> pte (pmem s') pd' v = pte (pmem s) pd' v"
    and "\<And>v. v \<in> window \<Longrightarrow> pte (pmem s') pd v =
      (if v = 0x8847 then tramp OR PTE_PRESENT OR PTE_USER else pte (pmem s) src v)"
    and "\<And>f. f \<in> used_set s \<Longrightarrow> frame_refs s' f = frame_refs s f" and "used_set s \<subseteq> used_set s'"
    and "\<And>x. frame x \<in> used_set s \<Longrightarrow> pmem s' x = pmem s x"
proof -
  note ok = vm_okD(2,1) [OF vm]
  have nz: "src \<noteq> 0" "tramp \<noteq> 0" using dirs_okD(2) [OF ok(1) src] tr(2) by auto
  obtain p s1 where a0: "mm_alloc_page s = (p, s1)" by force
  have p: "p \<noteq> 0" using c nz a0 by (auto simp: mm_clone_user_pd_def split: if_splits)
  obtain a: "page_aligned p" "frames_inv s1" "frame_refs s1 = (frame_refs s)(frame p := 1)"
    "pmem s1 = pmem s" "page_dir_phys s1 = page_dir_phys s" "used_set s1 = insert (frame p) (used_set s)"
    "frame p \<notin> used_set s" "total_pages s1 = total_pages s"
    using ok(2) a0 p by (cases rule: alloc_page_cases) auto
  have pz: "frame p \<noteq> 0" using p page_aligned_eq [OF a(1), of 0] by (auto simp: page_aligned_def)
  let ?t0 = "copy_table p src s1"
  obtain okb t where cl: "clone_tables src p user_pdes ?t0 = (okb, t)" by force
  have okt: okb using c nz a0 p cl by (cases okb) (auto simp: mm_clone_user_pd_def Let_def)
  have "fresh_dir s p {} ?t0"
    by (rule fresh_start [OF a(1) p a(7) pz]) (use a(2-6,8) in \<open>simp_all add: copy_table_byte [OF a(1)]\<close>)
  then have f: "fresh_dir s p (set user_pdes) t" "\<forall>d \<in> set user_pdes. cloned_slot (pmem s) src (pmem t) p d"
    using clone_tables_spec [OF ok(1) src, of p "{}" ?t0 user_pdes t] cl okt
    by (auto simp: user_pdes_def simp del: set_u32_range)
  have pte1: "pte (pmem t) p v = pte (pmem s) src v" if "v \<in> window" for v
    by (rule cloned_pte [OF f(2) that])
  have prt: "present (ent (pmem t) p (drop_bit 10 0x8847))"
    by (rule pte_pde) (use pt pte1 [OF tramp_page(2)] in simp)
  let ?e = "tramp OR PTE_PRESENT OR PTE_USER"
  let ?s = "set_ent (ent (pmem t) p (drop_bit 10 0x8847) AND PAGE_MASK) (0x8847 AND 0x3FF) ?e t"
  have res: "pd = p" "s' = ?s"
    using c nz a0 p cl okt by (auto simp: mm_clone_user_pd_def Let_def tramp_index)
  note st = fresh_store [OF f(1) tramp_page(2) prt, where e = ?e]
  have pv: "pte (pmem s') pd v = (if v = 0x8847 then ?e else pte (pmem s) src v)" if "v \<in> window" for v
    unfolding res using st(3) [OF that] pte1 [OF that] by simp
  then show "\<And>v. v \<in> window \<Longrightarrow> pte (pmem s') pd v = (if v = 0x8847 then ?e else pte (pmem s) src v)" .
  have fr: "fresh_dir s pd (set user_pdes) s'" unfolding res by (rule st(1))
  have kdn: "pd \<noteq> page_dir_phys s" using kd fresh_dirD(7) [OF fr] by (auto simp: kernel_dir_ok_def)
  have mp: "frame (pte (pmem s') pd v) \<in> used_set s - insert 0 (struct_frames (pmem s) D)"
    if "v \<in> window" "present (pte (pmem s') pd v)" for v
    using that pv [OF that(1)] tr(2) tramp_entry(2) [OF tr(1)] dirs_okD(6-8) [OF ok(1) src that(1)]
    by (auto split: if_splits)
  note ad = add_dir [OF fr ok(1) kdn mp]
  show "vm_ok s' (insert pd D)" using ad(1) fresh_dirD(1) [OF fr] by (simp add: vm_ok_def)
  show "pd \<notin> D" by (rule ad(2))
  show "same_view (pmem s) (pmem s') D" by (rule ad(3))
  show "\<And>pd' v. pd' \<in> D \<Longrightarrow> v \<in> window \<Longrightarrow> pte (pmem s') pd' v = pte (pmem s) pd' v" by (rule ad(4))
  show "\<And>f. f \<in> used_set s \<Longrightarrow> frame_refs s' f = frame_refs s f" "used_set s \<subseteq> used_set s'"
    "\<And>x. frame x \<in> used_set s \<Longrightarrow> pmem s' x = pmem s x"
    by (rule fresh_dirD [OF fr], assumption | rule fresh_dirD(5) [OF fr])+
qed

section \<open>Creating\<close>

lemma user_entry:
  assumes "page_aligned p"
  shows "present (p OR PAGE_KERNEL OR PDE_USER)" "frame (p OR PAGE_KERNEL OR PDE_USER) = frame p"
    "writable (p OR PAGE_KERNEL OR PDE_USER)"
proof -
  have k: "bit PAGE_KERNEL n \<longleftrightarrow> n = 0 \<or> n = 1" for n
    by (simp only: PAGE_KERNEL_def bit_or_iff bit_PTE_PRESENT [unfolded PTE_PRESENT_def] bit_PTE_WRITABLE)
  note u = bit_PTE_USER [unfolded PTE_USER_def]
  show "frame (p OR PAGE_KERNEL OR PDE_USER) = frame p"
    by (rule bit_word_eqI) (simp add: bit_drop_bit_eq bit_or_iff k u)
  show "present (p OR PAGE_KERNEL OR PDE_USER)" "writable (p OR PAGE_KERNEL OR PDE_USER)"
    by (simp_all add: present_bit writable_bit bit_or_iff k u)
qed

lemma new_table_spec:
  assumes f: "fresh_dir s pd (set user_pdes) t" and d: "d \<in> set user_pdes"
    and np: "\<not> present (ent (pmem t) pd d)"
    and n: "new_table pd d (PAGE_KERNEL OR PDE_USER) t = (True, t')"
  shows "fresh_dir s pd (set user_pdes) t'" and "present (ent (pmem t') pd d)"
    and "v \<in> window \<Longrightarrow> pte (pmem t') pd v = pte (pmem t) pd v"
    and "i < 1024 \<Longrightarrow> i \<notin> set user_pdes \<Longrightarrow> ent (pmem t') pd i = ent (pmem t) pd i"
proof -
  note fd = fresh_dirD [OF f]
  obtain p t1 where a0: "mm_alloc_page t = (p, t1)" by force
  have p: "p \<noteq> 0" using n a0 by (auto simp: new_table_def split: if_splits)
  obtain a: "page_aligned p" "frames_inv t1" "frame_refs t1 = (frame_refs t)(frame p := 1)"
    "pmem t1 = pmem t" "page_dir_phys t1 = page_dir_phys t" "used_set t1 = insert (frame p) (used_set t)"
    "frame p \<notin> used_set t" "total_pages t1 = total_pages t"
    using fd(1) a0 p by (cases rule: alloc_page_cases) auto
  have pz: "frame p \<noteq> 0" using p page_aligned_eq [OF a(1), of 0] by (auto simp: page_aligned_def)
  have pn: "frame p \<noteq> frame pd" using a(7) fd(6) by auto
  have dl: "d < 1024" by (rule user_pdes_lt [OF d])
  let ?e = "p OR PAGE_KERNEL OR PDE_USER"
  have t': "t' = set_ent pd d ?e (zero_table p t1)"
    using n a0 p by (simp add: new_table_def or.assoc)
  note e = user_entry [OF a(1)]
  have bt: "pmem t' x = pmem t x" if "frame x \<noteq> frame p" "frame x \<noteq> frame pd" for x
    unfolding t' by (simp add: set_ent_byte [OF fd(3) dl that(2)] zero_table_byte [OF a(1) that(1)] a(4))
  have edl: "ent (pmem t') pd d' = (if d' = d then ?e else ent (pmem t) pd d')" if l: "d' < 1024" for d'
  proof -
    have "ent (pmem (zero_table p t1)) pd d' = ent (pmem t) pd d'"
      using zero_table_ent [OF a(1) fd(3) l, of t1] pn a(4) by auto
    then show ?thesis unfolding t' using ent_set_ent [OF fd(3,3) dl l, of ?e "zero_table p t1"] by auto
  qed
  note ed = edl [OF user_pdes_lt]
  show "ent (pmem t') pd i = ent (pmem t) pd i" if "i < 1024" "i \<notin> set user_pdes"
    using edl [OF that(1)] that(2) d by auto
  have "fresh_dir s pd (insert d (set user_pdes)) t'"
    by (rule fresh_table [OF f a(7) pz _ _ _ _ bt])
      (use a(2-6,8) ed [OF d] ed e np in \<open>auto simp: t'\<close>)
  then show "fresh_dir s pd (set user_pdes) t'" using d by (simp add: insert_absorb)
  show "present (ent (pmem t') pd d)" using ed [OF d] e(1) by simp
  show "pte (pmem t') pd v = pte (pmem t) pd v" if "v \<in> window"
  proof (cases "drop_bit 10 v = d")
    case True
    have "?e AND PAGE_MASK = p" using page_aligned_eq [OF page_aligned_mask a(1), of ?e] e(2) by simp
    moreover have "ent (pmem t') p (v AND 0x3FF) = 0"
      unfolding t' using ent_set_ent [OF fd(3) a(1) dl pt_index_lt, of ?e "zero_table p t1" v]
        zero_table_ent [OF a(1) a(1) pt_index_lt, of t1 v] pn by auto
    ultimately show ?thesis using True ed [OF d] np by (simp add: pte_def)
  next
    case False
    have dv: "drop_bit 10 v \<in> set user_pdes" using that by (simp add: window_def)
    have "ent (pmem t') (ent (pmem t) pd (drop_bit 10 v) AND PAGE_MASK) (v AND 0x3FF) =
        ent (pmem t) (ent (pmem t) pd (drop_bit 10 v) AND PAGE_MASK) (v AND 0x3FF)"
      if "present (ent (pmem t) pd (drop_bit 10 v))"
    proof -
      have "frame (ent (pmem t) pd (drop_bit 10 v)) \<noteq> frame p" using fd(11) [OF dv that] a(7) by auto
      then show ?thesis by (intro ent_cong) (use fd(11) [OF dv that] bt pt_index_lt in auto)
    qed
    then show ?thesis using False ed [OF dv] by (auto simp: pte_def)
  qed
qed

lemma map_user_page_spec:
  assumes f: "fresh_dir s pd (set user_pdes) t" and v: "frame va \<in> window"
    and m: "map_user_page pd va e t = (True, t')"
  shows "fresh_dir s pd (set user_pdes) t'"
    and "v' \<in> window \<Longrightarrow> pte (pmem t') pd v' = (if v' = frame va then e else pte (pmem t) pd v')"
    and "i < 1024 \<Longrightarrow> i \<notin> set user_pdes \<Longrightarrow> ent (pmem t') pd i = ent (pmem t) pd i"
proof -
  let ?d = "drop_bit 10 (frame va)"
  have d: "?d \<in> set user_pdes" using v by (simp add: window_def)
  obtain u where u: "fresh_dir s pd (set user_pdes) u" "present (ent (pmem u) pd ?d)"
    "\<And>v. v \<in> window \<Longrightarrow> pte (pmem u) pd v = pte (pmem t) pd v"
    "\<And>i. i < 1024 \<Longrightarrow> i \<notin> set user_pdes \<Longrightarrow> ent (pmem u) pd i = ent (pmem t) pd i"
    "t' = set_ent (ent (pmem u) pd ?d AND PAGE_MASK) (frame va AND 0x3FF) e u"
  proof (cases "present (ent (pmem t) pd ?d)")
    case True
    then show ?thesis using that [of t] f m by (auto simp: map_user_page_def present_def)
  next
    case False
    obtain okb u where n: "new_table pd ?d (PAGE_KERNEL OR PDE_USER) t = (okb, u)" by force
    have okb and t': "t' = set_ent (ent (pmem u) pd ?d AND PAGE_MASK) (frame va AND 0x3FF) e u"
      using m n False by (auto simp: map_user_page_def present_def split: if_splits)
    then show ?thesis using that [OF new_table_spec [OF f d False, of u]] n by simp
  qed
  note st = fresh_store [OF u(1) v u(2), where e = e]
  show "fresh_dir s pd (set user_pdes) t'" unfolding u(5) by (rule st(1))
  show "v' \<in> window \<Longrightarrow> pte (pmem t') pd v' = (if v' = frame va then e else pte (pmem t) pd v')"
    unfolding u(5) using st(3) u(3) by simp
  show "i < 1024 \<Longrightarrow> i \<notin> set user_pdes \<Longrightarrow> ent (pmem t') pd i = ent (pmem t) pd i"
    unfolding u(5) using st(2) u(4) by simp
qed

lemma map_user_page_fail:
  assumes "frames_inv t" and "map_user_page pd va e t = (False, t')"
  shows "t' = t"
proof -
  obtain p t1 where a: "mm_alloc_page t = (p, t1)" by force
  have "p = 0 \<Longrightarrow> t1 = t" using assms(1) a by (cases rule: alloc_page_cases) auto
  then show ?thesis using assms(2) a by (auto simp: map_user_page_def new_table_def split: if_splits)
qed

lemma user_page_frame:
  assumes "i < 0x7FF"
  shows "frame (USER_BASE + i * PAGE_SIZE) = 0x8048 + i" and "0x8048 + i \<in> window"
proof -
  have i: "unat i < 0x7FF" using assms by (simp add: word_less_nat_alt)
  then have "unat (i * 4096) = unat i * 4096" using unat_mult_small [of i 4096] by simp
  then have "unat (USER_BASE + i * PAGE_SIZE) = 4096 * (0x8048 + unat i)"
    using unat_add_small [of USER_BASE "i * PAGE_SIZE"] i by (simp add: USER_BASE_def PAGE_SIZE_def)
  moreover have u: "unat (0x8048 + i) = 0x8048 + unat i" using unat_add_small [of "0x8048" i] i by simp
  ultimately show "frame (USER_BASE + i * PAGE_SIZE) = 0x8048 + i" by (simp add: word_unat_eq_iff unat_frame)
  show "0x8048 + i \<in> window" using u i by (simp add: window_iff word_le_nat_alt word_less_nat_alt)
qed

definition block_entry :: "u32 \<Rightarrow> u32 \<Rightarrow> u32" where
  "block_entry block_phys i = (block_phys + i * PAGE_SIZE) OR PAGE_KERNEL OR PTE_USER"

lemma map_user_block_spec:
  assumes "fresh_dir s pd (set user_pdes) t" and "\<forall>i \<in> set is. i < 0x7FF"
    and "map_user_block pd block_phys is t = (okb, t')" and "distinct is"
  shows "fresh_dir s pd (set user_pdes) t' \<and>
    (\<forall>i < 1024. i \<notin> set user_pdes \<longrightarrow> ent (pmem t') pd i = ent (pmem t) pd i) \<and>
    (okb \<longrightarrow> (\<forall>v \<in> window. pte (pmem t') pd v =
      (if v - 0x8048 \<in> set is then block_entry block_phys (v - 0x8048) else pte (pmem t) pd v)))"
  using assms
proof (induction "is" arbitrary: t)
  case (Cons i "is")
  let ?va = "USER_BASE + i * PAGE_SIZE"
  have i: "frame ?va = 0x8048 + i" "0x8048 + i \<in> window" using Cons.prems(2) user_page_frame by simp_all
  obtain c u where u: "map_user_page pd ?va (block_entry block_phys i) t = (c, u)" by force
  show ?case
  proof (cases c)
    case False
    then have "u = t" using u map_user_page_fail [OF fresh_dirD(1) [OF Cons.prems(1)]] by simp
    then show ?thesis using Cons.prems(1,3) u False by (simp add: block_entry_def)
  next
    case True
    then have m: "map_user_page pd ?va (block_entry block_phys i) t = (True, u)" using u by simp
    then have r: "map_user_block pd block_phys is u = (okb, t')"
      using Cons.prems(3) by (simp add: block_entry_def)
    note mp = map_user_page_spec [OF Cons.prems(1) _ m, unfolded i(1), OF i(2)]
    have "fresh_dir s pd (set user_pdes) t' \<and>
      (\<forall>i < 1024. i \<notin> set user_pdes \<longrightarrow> ent (pmem t') pd i = ent (pmem u) pd i) \<and>
      (okb \<longrightarrow> (\<forall>v \<in> window. pte (pmem t') pd v =
        (if v - 0x8048 \<in> set is then block_entry block_phys (v - 0x8048) else pte (pmem u) pd v)))"
      by (rule Cons.IH [OF mp(1)]) (use Cons.prems r in auto)
    moreover have "v = 0x8048 + i \<longleftrightarrow> v - 0x8048 = i" for v by (auto simp: algebra_simps)
    ultimately show ?thesis using mp(2,3) by auto
  qed
qed simp

text \<open>Freeing the directory gives back exactly the frames it was built from.\<close>

lemma free_tables_used:
  fixes t :: "'a mm_state_scheme"
  assumes "distinct ds" and "\<forall>d \<in> set ds. present (ent m pd d) \<longrightarrow> frame_refs t (frame (ent m pd d)) = 1"
    and "\<forall>d \<in> set ds. \<forall>d' \<in> set ds. present (ent m pd d) \<and> present (ent m pd d') \<and>
      frame (ent m pd d) = frame (ent m pd d') \<longrightarrow> d = d'" and "pmem t = m"
  defines "u \<equiv> fold (\<lambda>d s. if ent (pmem s) pd d AND PDE_PRESENT \<noteq> 0
      then mm_free_page (ent (pmem s) pd d AND PAGE_MASK) s else s) ds t"
  shows "used_set u = used_set t - {frame (ent m pd d) | d. d \<in> set ds \<and> present (ent m pd d)}"
    and "\<And>f. (\<forall>d \<in> set ds. present (ent m pd d) \<longrightarrow> f \<noteq> frame (ent m pd d)) \<Longrightarrow> frame_refs u f = frame_refs t f"
    and "total_pages u = total_pages t"
proof -
  let ?step = "\<lambda>d s. if ent (pmem s) pd d AND PDE_PRESENT \<noteq> 0
      then mm_free_page (ent (pmem s) pd d AND PAGE_MASK) s else s"
  have "used_set (fold ?step ds t) = used_set t - {frame (ent m pd d) | d. d \<in> set ds \<and> present (ent m pd d)} \<and>
    (\<forall>f. (\<forall>d \<in> set ds. present (ent m pd d) \<longrightarrow> f \<noteq> frame (ent m pd d)) \<longrightarrow>
      frame_refs (fold ?step ds t) f = frame_refs t f) \<and> total_pages (fold ?step ds t) = total_pages t"
    using assms(1-4)
  proof (induction ds arbitrary: t)
    case (Cons d ds)
    show ?case
    proof (cases "present (ent m pd d)")
      case False
      then show ?thesis using Cons by (auto simp: present_def)
    next
      case True
      let ?f = "frame (ent m pd d)"
      let ?t = "page_unref ?f t"
      have one: "frame_refs t ?f = 1" using Cons.prems(2) True by simp
      have keep: "frame_refs ?t f = frame_refs t f" if "f \<noteq> ?f" for f
        using that by (simp add: page_unref_refs)
      have "?step d t = ?t" using True Cons.prems(4) by (simp add: present_def mm_free_page_unref)
      moreover have "used_set (fold ?step ds ?t) =
          used_set ?t - {frame (ent m pd d) | d. d \<in> set ds \<and> present (ent m pd d)} \<and>
        (\<forall>f. (\<forall>d \<in> set ds. present (ent m pd d) \<longrightarrow> f \<noteq> frame (ent m pd d)) \<longrightarrow>
          frame_refs (fold ?step ds ?t) f = frame_refs ?t f) \<and> total_pages (fold ?step ds ?t) = total_pages ?t"
      proof (rule Cons.IH)
        show "\<forall>d' \<in> set ds. present (ent m pd d') \<longrightarrow> frame_refs ?t (frame (ent m pd d')) = 1"
          using Cons.prems(1-3) True keep by (metis distinct.simps(2) list.set_intros)
      qed (use Cons.prems in auto)
      ultimately show ?thesis using keep one True by (auto simp: used_set_unref)
    qed
  qed simp
  then show "used_set u = used_set t - {frame (ent m pd d) | d. d \<in> set ds \<and> present (ent m pd d)}"
    "\<And>f. (\<forall>d \<in> set ds. present (ent m pd d) \<longrightarrow> f \<noteq> frame (ent m pd d)) \<Longrightarrow> frame_refs u f = frame_refs t f"
    "total_pages u = total_pages t"
    by (simp_all add: u_def)
qed

lemma free_fresh_dir:
  assumes f: "fresh_dir s pd (set user_pdes) t" and kd: "pd \<noteq> page_dir_phys s"
  shows "free_set (mm_free_user_pd pd t) = free_set s"
proof -
  note fd = fresh_dirD [OF f]
  let ?m = "pmem t"
  let ?T = "{frame (ent ?m pd d) | d. d \<in> set user_pdes \<and> present (ent ?m pd d)}"
  note fr = free_tables_used [where t = t and m = ?m and pd = pd and ds = user_pdes]
  have d: "distinct user_pdes" by (simp add: user_pdes_def)
  have one: "\<forall>d \<in> set user_pdes. present (ent ?m pd d) \<longrightarrow> frame_refs t (frame (ent ?m pd d)) = 1"
    using fd(11,14) by auto
  have inj: "\<forall>d \<in> set user_pdes. \<forall>d' \<in> set user_pdes. present (ent ?m pd d) \<and> present (ent ?m pd d') \<and>
      frame (ent ?m pd d) = frame (ent ?m pd d') \<longrightarrow> d = d'" using fd(12) by blast
  note fr = free_tables_used [OF d one inj refl]
  let ?u = "fold (\<lambda>d s. if ent (pmem s) pd d AND PDE_PRESENT \<noteq> 0
      then mm_free_page (ent (pmem s) pd d AND PAGE_MASK) s else s) user_pdes t"
  have "\<forall>d \<in> set user_pdes. present (ent ?m pd d) \<longrightarrow> frame pd \<noteq> frame (ent ?m pd d)"
    using fd(11) by (metis DiffD2 singletonI)
  then have "frame_refs ?u (frame pd) = 1" using fr(2) [of "frame pd"] fd(14) [OF fd(6,7)] by simp
  then have "used_set (page_unref (frame pd) ?u) = used_set t - ?T - {frame pd}"
    using fr(1) by (simp add: used_set_unref)
  also have "\<dots> = used_set s" using fd(5,7,11,15) by blast
  finally have "used_set (mm_free_user_pd pd t) = used_set s"
    using fd(2,4) kd by (simp add: mm_free_user_pd_def mm_free_page_unref)
  moreover have "total_pages (mm_free_user_pd pd t) = total_pages s"
    using fd(2,4,13) kd fr(3) by (simp add: mm_free_user_pd_def mm_free_page_unref)
  moreover have "free_set r = {f. f < total_pages r} - used_set r" for r :: "'a mm_state_scheme"
    by (auto simp: free_set_def used_set_def)
  ultimately show ?thesis by simp
qed

text \<open>The user entries after \<^verbatim>\<open>mm_create_user_pd\<close>.\<close>

definition created_pte :: "u32 \<Rightarrow> u32 \<Rightarrow> u32 \<Rightarrow> u32" where
  "created_pte block_phys tramp v =
     (if v = 0x8847 then tramp OR PTE_PRESENT OR PTE_USER
      else if 0x8048 \<le> v \<and> v < 0x8847 then block_entry block_phys (v - 0x8048) else 0)"

lemma user_index_iff:
  assumes "v \<in> window"
  shows "v - 0x8048 < 0x7FF \<longleftrightarrow> 0x8048 \<le> v \<and> v < 0x8847"
proof (cases "0x8048 \<le> v")
  case True
  then have "unat (v - 0x8048) = unat v - 0x8048" by (simp add: unat_sub)
  with True show ?thesis by (auto simp: word_less_nat_alt word_le_nat_alt)
next
  case False
  then have "unat (v - 0x8048) = 4294967296 + unat v - 0x8048"
    using unat_diff_wrap [of v "0x8048"] by (simp add: word_less_nat_alt word_le_nat_alt)
  with False show ?thesis by (simp add: word_less_nat_alt)
qed

lemma create_user_pd_cases:
  fixes s :: "'a mm_state_scheme"
  assumes inv: "frames_inv s" and kd: "kernel_dir_ok s"
    and b: "block_phys \<noteq> 0" "page_aligned block_phys" and tr: "tramp \<noteq> 0" "page_aligned tramp"
  obtains (fail) s' where "mm_create_user_pd block_phys tramp s = (0, s')" and "free_set s' = free_set s"
  | (made) pd s' where "mm_create_user_pd block_phys tramp s = (pd, s')" and "pd \<noteq> 0"
    and "fresh_dir s pd (set user_pdes) s'" and "pd \<noteq> page_dir_phys s"
    and "\<And>v. v \<in> window \<Longrightarrow> pte (pmem s') pd v = created_pte block_phys tramp v"
    and "\<And>i. i < 1024 \<Longrightarrow> i \<notin> set user_pdes \<Longrightarrow> ent (pmem s') pd i = ent (pmem s) (page_dir_phys s) i"
proof -
  have g: "block_phys AND (PAGE_SIZE - 1) = 0" "tramp AND (PAGE_SIZE - 1) = 0"
    using b(2) tr(2) by (simp_all add: page_aligned_def PAGE_SIZE_def)
  have k: "page_aligned (page_dir_phys s)" "frame (page_dir_phys s) \<in> used_set s"
    using kd by (simp_all add: kernel_dir_ok_def)
  show ?thesis using inv
  proof (cases rule: alloc_page_cases)
    case fail
    then show ?thesis using that(1) [of s] b(1) tr(1) g by (simp add: mm_create_user_pd_def)
  next
    case (ok p s1)
    let ?t0 = "fold (\<lambda>d. set_ent p d 0) user_pdes (copy_table p (page_dir_phys s1) s1)"
    have pk: "p \<noteq> page_dir_phys s" using ok(14) k(2) by auto
    have pf: "frame p \<noteq> 0" using ok(2) page_aligned_eq [OF ok(3), of 0] by (auto simp: page_aligned_def)
    have zf: "fold (\<lambda>d. set_ent p d 0) ds t = t\<lparr>pmem := pmem (fold (\<lambda>d. set_ent p d 0) ds t)\<rparr>"
      for ds and t :: "'a mm_state_scheme" by (rule table_loop_frame [of p "\<lambda>_ _. 0"])
    have keeps: "frames_inv ?t0" "page_dir_phys ?t0 = page_dir_phys s" "total_pages ?t0 = total_pages s"
      "used_set ?t0 = insert (frame p) (used_set s)" "frame_refs ?t0 = (frame_refs s)(frame p := 1)"
      using ok(6,7,9,11,13) by (subst zf; simp)+
    have bt: "pmem ?t0 x = pmem s x" if "frame x \<noteq> frame p" for x
      using table_loop_byte [OF ok(3) that, of user_pdes "\<lambda>_ _. 0" "copy_table p (page_dir_phys s1) s1"]
        user_pdes_lt by (simp add: copy_table_byte [OF ok(3) that] ok(8))
    have e0: "ent (pmem ?t0) p i = (if i \<in> set user_pdes then 0 else ent (pmem s) (page_dir_phys s) i)"
      if "i < 1024" for i
      using zero_loop_ent [OF ok(3,3) that, of user_pdes "copy_table p (page_dir_phys s1) s1"] user_pdes_lt
        copy_table_ent [OF ok(3) k(1) pk ok(3) that, of s1] by (simp add: ok(8,9))
    have f0: "fresh_dir s p (set user_pdes) ?t0"
      by (rule fresh_start [OF ok(3,2,14) pf keeps(1,2,4,5) bt])
        (use keeps(3) e0 user_pdes_lt in \<open>auto simp: present_def\<close>)
    have p0: "pte (pmem ?t0) p v = 0" if "v \<in> window" for v
    proof -
      have "drop_bit 10 v \<in> set user_pdes" using that by (simp add: window_def)
      then show ?thesis using e0 [OF user_pdes_lt] by (simp add: pte_def present_def)
    qed
    let ?n = "USER_SIZE div PAGE_SIZE - 1"
    have n: "?n = 0x7FF" by (simp add: user_window PAGE_SIZE_def)
    obtain c1 t1 where m1: "map_user_block p block_phys (u32_range 0 ?n) ?t0 = (c1, t1)" by force
    have b1: "fresh_dir s p (set user_pdes) t1"
      "\<And>i. i < 1024 \<Longrightarrow> i \<notin> set user_pdes \<Longrightarrow> ent (pmem t1) p i = ent (pmem s) (page_dir_phys s) i"
      "\<And>v. c1 \<Longrightarrow> v \<in> window \<Longrightarrow> pte (pmem t1) p v =
        (if v - 0x8048 < 0x7FF then block_entry block_phys (v - 0x8048) else 0)"
      using map_user_block_spec [OF f0 _ m1] e0 p0 unfolding n by auto
    have lost: "free_set (mm_free_user_pd p t) = free_set s" if "fresh_dir s p (set user_pdes) t" for t
      by (rule free_fresh_dir [OF that pk])
    obtain c2 t2 where m2: "map_user_page p USER_SIGTRAMP (tramp OR PTE_PRESENT OR PTE_USER) t1 = (c2, t2)" by force
    have run: "mm_create_user_pd block_phys tramp s =
        (if \<not> c1 then (0, mm_free_user_pd p t1) else if \<not> c2 then (0, mm_free_user_pd p t2) else (p, t2))"
      using b(1) tr(1) g ok(1,2,9) m1 m2 by (simp add: mm_create_user_pd_def Let_def)
    consider "\<not> c1" | "c1" "\<not> c2" | "c1" "c2" by blast
    then show ?thesis
    proof cases
      case 1
      then show ?thesis using that(1) [OF _ lost [OF b1(1)]] run by simp
    next
      case 2
      with m2 have "t2 = t1" using map_user_page_fail [OF fresh_dirD(1) [OF b1(1)]] by simp
      then show ?thesis using that(1) [OF _ lost [OF b1(1)]] run 2 by simp
    next
      case 3
      then have m: "map_user_page p USER_SIGTRAMP (tramp OR PTE_PRESENT OR PTE_USER) t1 = (True, t2)" using m2 by simp
      note mp = map_user_page_spec [OF b1(1) _ m, unfolded tramp_page(1), OF tramp_page(2)]
      have "pte (pmem t2) p v = created_pte block_phys tramp v" if "v \<in> window" for v
        using mp(2) [OF that] b1(3) [OF 3(1) that] user_index_iff [OF that] by (auto simp: created_pte_def)
      then show ?thesis using that(2) [OF _ ok(2) mp(1) pk] 3 run mp(3) b1(2) by auto
    qed
  qed
qed

end
