(* ===== verification/Fork.thy ===== *)
theory Fork
  imports Spaces
begin

text \<open>
  The memory side of \<^verbatim>\<open>fork\<close>: the child gets a clone of the parent's directory, both are write
  protected, and every shared frame gains a reference (\<^verbatim>\<open>proc_space_cow\<close> of \<^verbatim>\<open>src/proc.c\<close>).  The
  result is again a system of copy-on-write spaces, in which the child reads what the parent read
  and a later write by either is private to it.
\<close>

definition ref_page :: "u32 \<Rightarrow> u32 \<Rightarrow> 'a mm_state_scheme \<Rightarrow> 'a mm_state_scheme" where
  "ref_page pd va s =
     (let phys = mm_user_translate pd va s in if phys \<noteq> 0 then mm_page_ref_inc phys s else s)"

definition share_pages :: "u32 \<Rightarrow> 'a mm_state_scheme \<Rightarrow> 'a mm_state_scheme" where
  "share_pages pd s = fold (ref_page pd) user_pages s"

lemma ref_page_spec:
  fixes s :: "'a mm_state_scheme"
  assumes ok: "dirs_ok (pmem s) (used_set s) (page_dir_phys s) D" and pd: "pd \<in> D" and v: "frame va \<in> window"
  defines "e \<equiv> pte (pmem s) pd (frame va)"
  shows "ref_page pd va s = (if present e \<and> frame_refs s (frame e) < 255
    then s\<lparr>frame_refs := (frame_refs s)(frame e := frame_refs s (frame e) + 1)\<rparr> else s)"
proof -
  note up = user_pte_window [OF ok pd v]
  have k: "va AND 0xFFF < 4096" by (simp add: and_fff word_less_nat_alt unat_mod)
  show ?thesis
  proof (cases "present e")
    case False
    then show ?thesis using up(4) by (auto simp: ref_page_def mm_user_translate_def Let_def e_def)
  next
    case True
    then have t: "mm_user_translate pd va s = (e AND PAGE_MASK) + (va AND 0xFFF)"
      using up(4) up(3) pte_pde [of "pmem s" pd "frame va"] by (simp add: mm_user_translate_def Let_def e_def)
    have f: "frame ((e AND PAGE_MASK) + (va AND 0xFFF)) = frame e" by (rule frame_offset [OF k])
    have "frame e \<noteq> 0" "frame e < total_pages s"
      using dirs_okD(6,8) [OF ok pd v] True by (simp_all add: e_def used_set_def)
    then have "mm_user_translate pd va s \<noteq> 0" using f t by auto
    then show ?thesis using True f t \<open>frame e < total_pages s\<close>
      by (simp add: ref_page_def mm_page_ref_inc_def Let_def not_le)
  qed
qed

lemma unat_u8_inc: "(r::u8) < 255 \<Longrightarrow> unat (r + 1) = unat r + 1"
  by (simp add: unat_word_ariths word_less_nat_alt)

lemma share_loop:
  fixes s :: "'a mm_state_scheme"
  assumes "dirs_ok (pmem s) (used_set s) (page_dir_phys s) D" and pd: "pd \<in> D"
    and "\<forall>va \<in> set vas. frame va \<in> window" and "distinct (map (drop_bit 12) vas)"
  shows "\<exists>r. fold (ref_page pd) vas s = s\<lparr>frame_refs := r\<rparr> \<and>
    (\<forall>f. unat (r f) = min 255 (unat (frame_refs s f) +
       card {v \<in> frame ` set vas. present (pte (pmem s) pd v) \<and> frame (pte (pmem s) pd v) = f}))"
  using assms(1,3,4)
proof (induction vas arbitrary: s)
  case Nil
  have "unat (frame_refs s f) \<le> 255" for f
    using unsigned_less [of "frame_refs s f", where ?'a = nat] by simp
  then show ?case by (intro exI [of _ "frame_refs s"]) simp
next
  case (Cons va vas)
  let ?e = "pte (pmem s) pd (frame va)"
  have v: "frame va \<in> window" using Cons.prems(2) by simp
  obtain r0 where r0: "ref_page pd va s = s\<lparr>frame_refs := r0\<rparr>"
    "\<And>f. unat (r0 f) = min 255 (unat (frame_refs s f) + (if present ?e \<and> frame ?e = f then 1 else 0))"
  proof -
    have le: "unat (frame_refs s f) \<le> 255" for f
      using unsigned_less [of "frame_refs s f", where ?'a = nat] by simp
    show ?thesis
    proof (cases "present ?e \<and> frame_refs s (frame ?e) < 255")
      case True
      show ?thesis
      proof (rule that)
        show "ref_page pd va s = s\<lparr>frame_refs := (frame_refs s)(frame ?e := frame_refs s (frame ?e) + 1)\<rparr>"
          using True ref_page_spec [OF Cons.prems(1) pd v] by simp
        show "unat (((frame_refs s)(frame ?e := frame_refs s (frame ?e) + 1)) f) =
            min 255 (unat (frame_refs s f) + (if present ?e \<and> frame ?e = f then 1 else 0))" for f
          using True le [of f] unat_u8_inc [of "frame_refs s (frame ?e)"]
          by (auto simp: word_less_nat_alt min_def)
      qed
    next
      case False
      have "unat (frame_refs s (frame ?e)) = 255" if "present ?e"
        using False that le [of "frame ?e"] by (simp add: word_less_nat_alt)
      then have full: "unat (frame_refs s f) =
          min 255 (unat (frame_refs s f) + (if present ?e \<and> frame ?e = f then 1 else 0))" for f
        using le [of f] by (auto simp: min_def)
      have "ref_page pd va s = s\<lparr>frame_refs := frame_refs s\<rparr>"
        using False ref_page_spec [OF Cons.prems(1) pd v] by auto
      then show ?thesis using full by (rule that)
    qed
  qed
  have "dirs_ok (pmem (s\<lparr>frame_refs := r0\<rparr>)) (used_set (s\<lparr>frame_refs := r0\<rparr>)) (page_dir_phys (s\<lparr>frame_refs := r0\<rparr>)) D"
    using Cons.prems(1) by simp
  then obtain r where r: "fold (ref_page pd) vas (s\<lparr>frame_refs := r0\<rparr>) = s\<lparr>frame_refs := r0\<rparr>\<lparr>frame_refs := r\<rparr>"
    "\<forall>f. unat (r f) = min 255 (unat (r0 f) +
       card {v \<in> frame ` set vas. present (pte (pmem s) pd v) \<and> frame (pte (pmem s) pd v) = f})"
    using Cons.IH [of "s\<lparr>frame_refs := r0\<rparr>"] Cons.prems(2,3) by auto
  have "card {v \<in> frame ` set (va # vas). present (pte (pmem s) pd v) \<and> frame (pte (pmem s) pd v) = f} =
      (if present ?e \<and> frame ?e = f then 1 else 0) +
      card {v \<in> frame ` set vas. present (pte (pmem s) pd v) \<and> frame (pte (pmem s) pd v) = f}" for f
  proof -
    define A where "A = {v \<in> frame ` set vas. present (pte (pmem s) pd v) \<and> frame (pte (pmem s) pd v) = f}"
    have n: "frame va \<notin> A" "finite A" using Cons.prems(3) by (auto simp: A_def)
    have "{v \<in> frame ` set (va # vas). present (pte (pmem s) pd v) \<and> frame (pte (pmem s) pd v) = f} =
        (if present ?e \<and> frame ?e = f then insert (frame va) A else A)" by (auto simp: A_def)
    then show ?thesis unfolding A_def [symmetric] using n by simp
  qed
  then show ?case using r r0 by (intro exI [of _ r]) (simp add: min_def)
qed

lemma write_protect_spec:
  assumes vm: "vm_ok s D" and pd: "pd \<in> D"
  obtains m c where "mm_user_write_protect pd s = s\<lparr>pmem := m, cr3 := c\<rparr>"
    and "vm_ok (s\<lparr>pmem := m, cr3 := c\<rparr>) D" and "same_view (pmem s) m D"
    and "\<And>pd' v'. pd' \<in> D \<Longrightarrow> v' \<in> window \<Longrightarrow> pte m pd' v' =
      (if pd' = pd \<and> v' \<in> frame ` set user_pages \<and> present (pte (pmem s) pd' v')
       then pte (pmem s) pd' v' AND NOT PTE_WRITABLE else pte (pmem s) pd' v')"
proof -
  obtain m where m: "fold (protect_page pd) user_pages s = s\<lparr>pmem := m\<rparr>" "vm_ok (s\<lparr>pmem := m\<rparr>) D"
    "same_view (pmem s) m D"
    "\<forall>pd' \<in> D. \<forall>v' \<in> window. pte m pd' v' =
      (if pd' = pd \<and> v' \<in> frame ` set user_pages \<and> present (pte (pmem s) pd' v')
       then pte (pmem s) pd' v' AND NOT PTE_WRITABLE else pte (pmem s) pd' v')"
    using protect_loop [OF vm pd user_pages_window] by blast
  obtain c where c: "(if mm_get_current_pd (s\<lparr>pmem := m\<rparr>) = pd then mm_switch_pd pd (s\<lparr>pmem := m\<rparr>)
      else s\<lparr>pmem := m\<rparr>) = s\<lparr>pmem := m\<rparr>\<lparr>cr3 := c\<rparr>" by (rule reload_frame)
  have "pd \<noteq> 0" by (rule dirs_okD(2) [OF vm_okD(2) [OF vm] pd])
  then have "mm_user_write_protect pd s = (if mm_get_current_pd (s\<lparr>pmem := m\<rparr>) = pd
      then mm_switch_pd pd (s\<lparr>pmem := m\<rparr>) else s\<lparr>pmem := m\<rparr>)"
    by (simp add: mm_user_write_protect_def m(1) Let_def)
  then have "mm_user_write_protect pd s = s\<lparr>pmem := m\<rparr>\<lparr>cr3 := c\<rparr>" unfolding c .
  then show ?thesis using that m(2-4) by (auto simp: vm_ok_def)
qed

text \<open>All of the memory work of \<^verbatim>\<open>proc_space_cow\<close> after the clone.\<close>

definition share_space :: "u32 \<Rightarrow> u32 \<Rightarrow> 'a mm_state_scheme \<Rightarrow> 'a mm_state_scheme" where
  "share_space child parent s =
     share_pages child (mm_user_write_protect parent (mm_user_write_protect child s))"

lemma share_space_spec:
  assumes vm: "vm_ok s D" and pd: "child \<in> D" "parent \<in> D"
  obtains m c r where "share_space child parent s = s\<lparr>pmem := m, cr3 := c, frame_refs := r\<rparr>"
    and "vm_ok (s\<lparr>pmem := m, cr3 := c, frame_refs := r\<rparr>) D" and "same_view (pmem s) m D"
    and "\<And>pd' v'. pd' \<in> D \<Longrightarrow> v' \<in> window \<Longrightarrow> pte m pd' v' =
      (if pd' \<in> {child, parent} \<and> v' \<in> frame ` set user_pages \<and> present (pte (pmem s) pd' v')
       then pte (pmem s) pd' v' AND NOT PTE_WRITABLE else pte (pmem s) pd' v')"
    and "\<And>f. unat (r f) = min 255 (unat (frame_refs s f) +
       card {v \<in> frame ` set user_pages. present (pte (pmem s) child v) \<and> frame (pte (pmem s) child v) = f})"
proof -
  obtain m1 c1 where 1: "mm_user_write_protect child s = s\<lparr>pmem := m1, cr3 := c1\<rparr>"
    "vm_ok (s\<lparr>pmem := m1, cr3 := c1\<rparr>) D" "same_view (pmem s) m1 D"
    "\<And>pd' v'. pd' \<in> D \<Longrightarrow> v' \<in> window \<Longrightarrow> pte m1 pd' v' =
      (if pd' = child \<and> v' \<in> frame ` set user_pages \<and> present (pte (pmem s) pd' v')
       then pte (pmem s) pd' v' AND NOT PTE_WRITABLE else pte (pmem s) pd' v')"
    by (rule write_protect_spec [OF vm pd(1)]) blast
  obtain m c where 2: "mm_user_write_protect parent (s\<lparr>pmem := m1, cr3 := c1\<rparr>) = s\<lparr>pmem := m, cr3 := c\<rparr>"
    "vm_ok (s\<lparr>pmem := m, cr3 := c\<rparr>) D" "same_view m1 m D"
    "\<And>pd' v'. pd' \<in> D \<Longrightarrow> v' \<in> window \<Longrightarrow> pte m pd' v' =
      (if pd' = parent \<and> v' \<in> frame ` set user_pages \<and> present (pte m1 pd' v')
       then pte m1 pd' v' AND NOT PTE_WRITABLE else pte m1 pd' v')"
    by (rule write_protect_spec [OF 1(2) pd(2)]) (simp cong: if_cong)
  let ?s = "s\<lparr>pmem := m, cr3 := c\<rparr>"
  obtain r where r: "fold (ref_page child) user_pages ?s = ?s\<lparr>frame_refs := r\<rparr>"
    "\<forall>f. unat (r f) = min 255 (unat (frame_refs ?s f) +
       card {v \<in> frame ` set user_pages. present (pte (pmem ?s) child v) \<and> frame (pte (pmem ?s) child v) = f})"
    using share_loop [OF vm_okD(2) [OF 2(2)] pd(1) user_pages_window user_pages_distinct] by blast
  have p: "pte m pd' v' =
      (if pd' \<in> {child, parent} \<and> v' \<in> frame ` set user_pages \<and> present (pte (pmem s) pd' v')
       then pte (pmem s) pd' v' AND NOT PTE_WRITABLE else pte (pmem s) pd' v')"
    if "pd' \<in> D" "v' \<in> window" for pd' v'
    using 1(4) [OF that] 2(4) [OF that] by (auto simp: protect_flags)
  have "{v \<in> frame ` set user_pages. present (pte m child v) \<and> frame (pte m child v) = f} =
      {v \<in> frame ` set user_pages. present (pte (pmem s) child v) \<and> frame (pte (pmem s) child v) = f}" for f
    using p [OF pd(1)] user_pages_window by (auto simp: protect_flags split: if_splits)
  then have rr: "unat (r f) = min 255 (unat (frame_refs s f) +
       card {v \<in> frame ` set user_pages. present (pte (pmem s) child v) \<and> frame (pte (pmem s) child v) = f})" for f
    using r(2) by simp
  have "share_space child parent s = s\<lparr>pmem := m, cr3 := c, frame_refs := r\<rparr>"
    using r(1) by (simp add: share_space_def share_pages_def 1(1) 2(1))
  moreover have "vm_ok (s\<lparr>pmem := m, cr3 := c, frame_refs := r\<rparr>) D"
    using 2(2) by (simp add: vm_ok_def frames_inv_def mm_inv_def)
  moreover have "same_view (pmem s) m D" by (rule same_view_trans [OF 1(3) 2(3)])
  ultimately show ?thesis using that p rr by blast
qed

lemma user_vpns_pages: "user_vpns = insert 0x8847 (frame ` set user_pages)"
  unfolding user_vpns_def user_pages_frames
  by (rule set_eqI) (auto simp: word_less_nat_alt word_le_nat_alt word_unat_eq_iff)

text \<open>Where the frames are mapped after a fork.\<close>

lemma fork_sites:
  assumes cow: "cow_ok s D" and p: "parent \<in> D" and n: "child \<notin> D"
    and tr: "present e" "frame e = ft"
    and D: "\<And>pd v. pd \<in> D \<Longrightarrow> v \<in> window \<Longrightarrow> present (pte m pd v) = present (pte (pmem s) pd v) \<and>
      frame (pte m pd v) = frame (pte (pmem s) pd v)"
    and c: "\<And>v. v \<in> window \<Longrightarrow> present (pte m child v) = present (if v = 0x8847 then e else pte (pmem s) parent v) \<and>
      frame (pte m child v) = frame (if v = 0x8847 then e else pte (pmem s) parent v)"
  shows "sites m (insert child D) f = sites (pmem s) D f \<union>
    {child} \<times> {v \<in> frame ` set user_pages. present (pte (pmem s) parent v) \<and> frame (pte (pmem s) parent v) = f} \<union>
    (if f = ft then {(child, 0x8847)} else {})"
proof -
  have child: "(child, v) \<in> sites m (insert child D) f \<longleftrightarrow>
      v \<in> frame ` set user_pages \<and> present (pte (pmem s) parent v) \<and> frame (pte (pmem s) parent v) = f \<or>
      v = 0x8847 \<and> f = ft" for v
  proof (cases "v = 0x8847")
    case True
    then show ?thesis using c [of v] tramp_page(2,3) tr by (auto simp: sites_def)
  next
    case False
    have "v \<in> window \<Longrightarrow> present (pte (pmem s) parent v) \<Longrightarrow> v \<in> frame ` set user_pages"
      using cow_okD(4) [OF cow p] False by (auto simp: user_vpns_pages)
    moreover have "v \<in> frame ` set user_pages \<Longrightarrow> v \<in> window" using user_pages_window by auto
    ultimately show ?thesis using False c [of v] by (auto simp: sites_def)
  qed
  have other: "(pd, v) \<in> sites m (insert child D) f \<longleftrightarrow> (pd, v) \<in> sites (pmem s) D f" if "pd \<noteq> child" for pd v
    using that D [of pd v] by (auto simp: sites_def)
  have "(pd, v) \<in> sites m (insert child D) f \<longleftrightarrow> (pd, v) \<in> sites (pmem s) D f \<union>
    {child} \<times> {v \<in> frame ` set user_pages. present (pte (pmem s) parent v) \<and> frame (pte (pmem s) parent v) = f} \<union>
    (if f = ft then {(child, 0x8847)} else {})" for pd v
  proof (cases "pd = child")
    case True
    have "(child, v) \<notin> sites (pmem s) D f" using n by (simp add: sites_def)
    with True child show ?thesis by auto
  qed (use other in auto)
  then show ?thesis by (intro set_eqI) (simp only: split_paired_all)
qed

lemma fork_writable:
  assumes cow: "cow_ok s D" and p: "parent \<in> D" and n: "child \<notin> D" and ft: "sites (pmem s) D ft = {}"
    and pd: "pd \<in> insert child D" and v: "v \<in> window" and pr: "present x" and w: "writable x"
    and x: "x = (if pd \<in> {child, parent} \<and> v \<in> frame ` set user_pages \<and> present y
      then y AND NOT PTE_WRITABLE else y)"
    and y: "y = (if pd = child then if v = 0x8847 then e else pte (pmem s) parent v else pte (pmem s) pd v)"
    and e: "\<not> writable e"
  shows "pd \<in> D \<and> sites (pmem s) D (frame x) = {(pd, v)} \<and> frame x \<noteq> ft \<and>
    {v' \<in> frame ` set user_pages. present (pte (pmem s) parent v') \<and> frame (pte (pmem s) parent v') = frame x} = {}"
proof -
  have xy: "x = y" "present y" using x pr w by (auto simp: protect_flags split: if_splits)
  have nu: "\<not> (pd \<in> {child, parent} \<and> v \<in> frame ` set user_pages)"
    using x w xy(2) by (auto simp: protect_flags)
  have ne: "pd \<noteq> child"
  proof
    assume "pd = child"
    then have "v \<noteq> 0x8847" "y = pte (pmem s) parent v" using y xy w e by auto
    with cow_okD(4) [OF cow p v] xy(2) nu \<open>pd = child\<close> show False by (auto simp: user_vpns_pages)
  qed
  then have d: "pd \<in> D" "x = pte (pmem s) pd v" using pd xy y by auto
  have one: "sites (pmem s) D (frame x) = {(pd, v)}"
    using cow_okD(3) [OF cow d(1) v] pr w d(2) by simp
  have "v' \<notin> frame ` set user_pages" if "present (pte (pmem s) parent v')" "frame (pte (pmem s) parent v') = frame x"
    "v' \<in> window" for v'
  proof -
    have "(parent, v') \<in> sites (pmem s) D (frame x)" using that p by (simp add: sites_def)
    then have "parent = pd" "v' = v" using one by auto
    then show ?thesis using nu by auto
  qed
  then have "{v' \<in> frame ` set user_pages. present (pte (pmem s) parent v') \<and> frame (pte (pmem s) parent v') = frame x} = {}"
    using user_pages_window by auto
  moreover have "frame x \<noteq> ft" using one ft by auto
  ultimately show ?thesis using d(1) one by blast
qed

lemma fork_cow_ok:
  assumes cow: "cow_ok s D" and kd: "kernel_dir_ok s" and p: "parent \<in> D"
    and tr: "page_aligned tramp" "frame tramp \<in> used_set s - insert 0 (struct_frames (pmem s) D)"
      "sites (pmem s) D (frame tramp) = {}" "1 \<le> frame_refs s (frame tramp)"
    and pt: "present (pte (pmem s) parent 0x8847)"
    and c: "mm_clone_user_pd parent tramp s = (child, s1)" "child \<noteq> 0"
    and lim: "\<forall>f. card (sites (pmem s) D f) \<le> 127"
  shows "cow_ok (share_space child parent s1) (insert child D)"
    and "same_view (pmem s) (pmem (share_space child parent s1)) D"
    and "v \<in> frame ` set user_pages \<Longrightarrow> k < 4096 \<Longrightarrow>
      uread (pmem (share_space child parent s1)) child v k = uread (pmem s) parent v k"
proof -
  note ok = vm_okD(2,1) [OF cow_okD(1) [OF cow]]
  let ?e = "tramp OR PTE_PRESENT OR PTE_USER"
  note cl = clone_user_pd_spec [OF cow_okD(1) [OF cow] kd p tr(1,2) pt c]
  have cD: "child \<in> insert child D" "parent \<in> insert child D" using p by auto
  obtain m c' r where sh: "share_space child parent s1 = s1\<lparr>pmem := m, cr3 := c', frame_refs := r\<rparr>"
    "vm_ok (s1\<lparr>pmem := m, cr3 := c', frame_refs := r\<rparr>) (insert child D)" "same_view (pmem s1) m (insert child D)"
    "\<And>pd' v'. pd' \<in> insert child D \<Longrightarrow> v' \<in> window \<Longrightarrow> pte m pd' v' =
      (if pd' \<in> {child, parent} \<and> v' \<in> frame ` set user_pages \<and> present (pte (pmem s1) pd' v')
       then pte (pmem s1) pd' v' AND NOT PTE_WRITABLE else pte (pmem s1) pd' v')"
    "\<And>f. unat (r f) = min 255 (unat (frame_refs s1 f) +
       card {v \<in> frame ` set user_pages. present (pte (pmem s1) child v) \<and> frame (pte (pmem s1) child v) = f})"
    by (rule share_space_spec [OF cl(1) cD]) blast
  let ?s = "share_space child parent s1"
  define C where "C f = {v \<in> frame ` set user_pages. present (pte (pmem s) parent v) \<and> frame (pte (pmem s) parent v) = f}" for f
  have C1: "{v \<in> frame ` set user_pages. present (pte (pmem s1) child v) \<and> frame (pte (pmem s1) child v) = f} = C f" for f
  proof -
    have "pte (pmem s1) child v = pte (pmem s) parent v" if "v \<in> frame ` set user_pages" for v
    proof -
      have "v \<in> window" "v \<noteq> 0x8847" using that user_pages_window tramp_page(3) by blast+
      then show ?thesis using cl(5) by simp
    qed
    then show ?thesis unfolding C_def by (intro Collect_cong) auto
  qed
  have y: "pte (pmem s1) pd v = (if pd = child then if v = 0x8847 then ?e else pte (pmem s) parent v else pte (pmem s) pd v)"
    if "pd \<in> insert child D" "v \<in> window" for pd v
    using that cl(2,4,5) by auto
  have flags: "present (pte m pd v) = present (pte (pmem s1) pd v)" "frame (pte m pd v) = frame (pte (pmem s1) pd v)"
    if "pd \<in> insert child D" "v \<in> window" for pd v
    using sh(4) [OF that] by (auto simp: protect_flags)
  have si: "sites m (insert child D) f = sites (pmem s) D f \<union> {child} \<times> C f \<union>
      (if f = frame tramp then {(child, 0x8847)} else {})" for f
    unfolding C_def
    by (rule fork_sites [OF cow p cl(2) tramp_entry(1,2) [OF tr(1)]])
      (use y flags cl(2) in \<open>auto split: if_splits\<close>)
  have Csub: "{parent} \<times> C f \<subseteq> sites (pmem s) D f" for f
    using p user_pages_window by (auto simp: C_def sites_def)
  have used: "f \<in> used_set s" if "sites (pmem s) D f \<noteq> {}" for f
    using that dirs_okD(6) [OF ok(1)] by (auto simp: sites_def)
  have count: "card (sites m (insert child D) f) \<le> unat (r f)" for f
  proof (cases "f \<in> used_set s")
    case False
    then have "sites (pmem s) D f = {}" "f \<noteq> frame tramp" using used tr(2) by auto
    then show ?thesis using Csub [of f] by (simp add: si)
  next
    case True
    have rf: "unat (r f) = min 255 (unat (frame_refs s f) + card (C f))" using sh(5) cl(6) [OF True] C1 by simp
    have "card (sites m (insert child D) f) \<le> unat (frame_refs s f) + card (C f)"
    proof (cases "f = frame tramp")
      case True
      then have "C f = {}" using Csub [of f] tr(3) by auto
      then show ?thesis using True tr(3,4) by (simp add: si word_le_nat_alt)
    next
      case False
      have "card (sites (pmem s) D f \<union> {child} \<times> C f) \<le> card (sites (pmem s) D f) + card ({child} \<times> C f)"
        by (rule card_Un_le)
      then show ?thesis using False cow_okD(2) [OF cow, of f] by (simp add: si card_cartesian_product)
    qed
    moreover have "card (sites m (insert child D) f) \<le> 255"
    proof -
      have "card ({child} \<times> C f) \<le> 127"
        using card_mono [OF finite_sites Csub [of f]] lim by (simp add: card_cartesian_product order.trans)
      moreover have "card (sites m (insert child D) f) \<le>
          card (sites (pmem s) D f) + card ({child} \<times> C f) + card (if f = frame tramp then {(child, 0x8847::u32)} else {})"
        unfolding si by (rule order.trans [OF card_Un_le add_right_mono [OF card_Un_le]])
      moreover have "card (if f = frame tramp then {(child, 0x8847::u32)} else {}) \<le> 1" by simp
      ultimately show ?thesis using lim [rule_format, of f] by linarith
    qed
    ultimately show ?thesis using rf by simp
  qed
  have excl: "sites m (insert child D) (frame (pte m pd v)) = {(pd, v)}"
    if "pd \<in> insert child D" "v \<in> window" "present (pte m pd v)" "writable (pte m pd v)" for pd v
    using fork_writable [OF cow p cl(2) tr(3) that sh(4) [OF that(1,2)] y [OF that(1,2)] tramp_entry(3) [OF tr(1)],
      folded C_def]
    unfolding si by simp
  have vp: "v \<in> user_vpns" if "pd \<in> insert child D" "v \<in> window" "present (pte m pd v)" for pd v
    using that flags [OF that(1,2)] y [OF that(1,2)] cow_okD(4) [OF cow] p
    by (auto simp: user_vpns_pages split: if_splits)
  show "cow_ok ?s (insert child D)"
    unfolding cow_ok_def sh(1) using sh(2) count excl vp by simp
  show "same_view (pmem s) (pmem ?s) D"
    using cl(3) sh(3) by (auto simp: same_view_def sh(1))
  show "uread (pmem ?s) child v k = uread (pmem s) parent v k" if "v \<in> frame ` set user_pages" "k < 4096"
  proof -
    have v: "v \<in> window" "v \<noteq> 0x8847" using that(1) user_pages_window tramp_page(3) by auto
    have "uread (pmem ?s) child v k = uread (pmem s1) child v k"
      using sh(3) v(1) that(2) by (simp add: same_view_def sh(1))
    also have "\<dots> = uread (pmem s) parent v k"
      using cl(5) [OF v(1)] v(2) cl(8) [of "(pte (pmem s) parent v AND PAGE_MASK) + k"]
        dirs_okD(6) [OF ok(1) p v(1)] frame_offset [OF that(2)] by (simp add: uread_def)
    finally show ?thesis .
  qed
qed

section \<open>A write after a page fault\<close>

lemma user_write:
  fixes b :: u8
  assumes cow: "cow_ok s D" and pd: "pd \<in> D" and v: "frame va \<in> window"
    and e: "present (pte (pmem s) pd (frame va))" "writable (pte (pmem s) pd (frame va))"
  defines "m \<equiv> (pmem s)(mm_user_translate pd va s := b)"
  shows "pd' \<in> D \<Longrightarrow> v' \<in> window \<Longrightarrow> pte m pd' v' = pte (pmem s) pd' v'"
    and "pd' \<in> D \<Longrightarrow> v' \<in> window \<Longrightarrow> k < 4096 \<Longrightarrow> uread m pd' v' k =
      (if pd' = pd \<and> v' = frame va \<and> k = va AND 0xFFF then Some b else uread (pmem s) pd' v' k)"
proof -
  note ok = vm_okD(2) [OF cow_okD(1) [OF cow]]
  let ?e = "pte (pmem s) pd (frame va)"
  have k: "va AND 0xFFF < 4096" by (simp add: and_fff word_less_nat_alt unat_mod)
  note up = user_pte_window [OF ok pd v]
  have t: "mm_user_translate pd va s = (?e AND PAGE_MASK) + (va AND 0xFFF)"
    using up(4) up(3) [OF pte_pde [OF e(1)]] e(1) by (simp add: mm_user_translate_def Let_def)
  have tf: "frame (mm_user_translate pd va s) = frame ?e" unfolding t by (rule frame_offset [OF k])
  have al: "\<forall>pd \<in> D. page_aligned pd" using dirs_okD(1) [OF ok] by blast
  have "frame ?e \<notin> struct_frames (pmem s) D" by (rule dirs_okD(7) [OF ok pd v e(1)])
  then have agree: "\<forall>x. frame x \<in> struct_frames (pmem s) D \<longrightarrow> m x = pmem s x"
    using tf by (auto simp: m_def)
  show pt: "pte m pd' v' = pte (pmem s) pd' v'" if "pd' \<in> D" "v' \<in> window" for pd' v'
    by (rule same_spaces(2) [OF al agree that])
  show "uread m pd' v' k = (if pd' = pd \<and> v' = frame va \<and> k = va AND 0xFFF then Some b else uread (pmem s) pd' v' k)"
    if "pd' \<in> D" "v' \<in> window" "k < 4096"
  proof (cases "pd' = pd \<and> v' = frame va")
    case True
    then show ?thesis using e(1) pt [OF that(1,2)] by (auto simp: uread_def m_def t)
  next
    case False
    show ?thesis
    proof (cases "present (pte (pmem s) pd' v')")
      case True
      have "frame (pte (pmem s) pd' v') \<noteq> frame ?e"
      proof
        assume "frame (pte (pmem s) pd' v') = frame ?e"
        then have "(pd', v') \<in> sites (pmem s) D (frame ?e)" using True that by (simp add: sites_def)
        with cow_okD(3) [OF cow pd v e] False show False by auto
      qed
      then have "(pte (pmem s) pd' v' AND PAGE_MASK) + k \<noteq> mm_user_translate pd va s"
        using tf frame_offset [OF that(3), of "pte (pmem s) pd' v'"] by auto
      with False show ?thesis using pt [OF that(1,2)] by (auto simp: uread_def m_def)
    next
      case absent: False
      with False show ?thesis using pt [OF that(1,2)] by (auto simp: uread_def)
    qed
  qed
qed

section \<open>Detaching all pages\<close>

lemma detach_pages_spec:
  assumes "cow_ok s D" and pd: "pd \<in> D" and "\<forall>va \<in> set vas. frame va \<in> window"
    and "detach_pages pd vas s = (okb, s')"
  shows "cow_ok s' D \<and> same_view (pmem s) (pmem s') D \<and>
    (\<forall>pd' \<in> D. \<forall>v \<in> window. present (pte (pmem s') pd' v) = present (pte (pmem s) pd' v)) \<and>
    (\<forall>v \<in> window. writable (pte (pmem s) pd v) \<longrightarrow> writable (pte (pmem s') pd v)) \<and>
    (okb \<longrightarrow> (\<forall>va \<in> set vas. present (pte (pmem s) pd (frame va)) \<longrightarrow> writable (pte (pmem s') pd (frame va))))"
  using assms(1,3,4)
proof (induction vas arbitrary: s)
  case (Cons va vas)
  note ok = vm_okD(2) [OF cow_okD(1) [OF Cons.prems(1)]]
  have v: "frame va \<in> window" using Cons.prems(2) by simp
  note up = user_pte_window [OF ok pd v]
  let ?e = "pte (pmem s) pd (frame va)"
  show ?case
  proof (cases "present ?e \<and> \<not> writable ?e")
    case False
    then have "user_pte pd va s = 0 \<or> load32 (pmem s) (user_pte pd va s) AND PTE_PRESENT = 0 \<or>
        load32 (pmem s) (user_pte pd va s) AND PTE_WRITABLE \<noteq> 0"
      using up(4) up(3) [OF pte_pde [of "pmem s" pd "frame va"]] by (auto simp: writable_def)
    then have "detach_pages pd vas s = (okb, s')" using Cons.prems(3) by (auto simp: Let_def split: if_splits)
    with Cons.IH [of s] Cons.prems(1,2) False v show ?thesis by auto
  next
    case True
    then have c: "user_pte pd va s \<noteq> 0 \<and> load32 (pmem s) (user_pte pd va s) AND PTE_PRESENT \<noteq> 0 \<and>
        load32 (pmem s) (user_pte pd va s) AND PTE_WRITABLE = 0"
      using up(4) up(3) [OF pte_pde [of "pmem s" pd "frame va"]] by (auto simp: writable_def)
    from Cons.prems(1) pd v show ?thesis
    proof (cases rule: make_writable_cases)
      case absent
      with True show ?thesis by simp
    next
      case nomem
      then have "okb = False" "s' = s" using Cons.prems(3) c by (auto simp: Let_def)
      then show ?thesis using Cons.prems(1) by simp
    next
      case (made t)
      then have d: "detach_pages pd vas t = (okb, s')" using Cons.prems(3) c by (auto simp: Let_def)
      have t: "cow_ok t D" "same_view (pmem s) (pmem t) D" "present (pte (pmem t) pd (frame va))"
        "writable (pte (pmem t) pd (frame va))"
        "\<And>pd' v'. pd' \<in> D \<Longrightarrow> v' \<in> window \<Longrightarrow> pd' \<noteq> pd \<or> v' \<noteq> frame va \<Longrightarrow>
          pte (pmem t) pd' v' = pte (pmem s) pd' v'"
        using made(2) by (auto simp: cow_step_def)
      have same: "present (pte (pmem t) pd' v') = present (pte (pmem s) pd' v')"
        "writable (pte (pmem s) pd v') \<longrightarrow> writable (pte (pmem t) pd v')"
        if "pd' \<in> D" "v' \<in> window" for pd' v'
        using t(3-5) True that pd by metis+
      have ih: "cow_ok s' D \<and> same_view (pmem t) (pmem s') D \<and>
        (\<forall>pd' \<in> D. \<forall>v \<in> window. present (pte (pmem s') pd' v) = present (pte (pmem t) pd' v)) \<and>
        (\<forall>v \<in> window. writable (pte (pmem t) pd v) \<longrightarrow> writable (pte (pmem s') pd v)) \<and>
        (okb \<longrightarrow> (\<forall>va \<in> set vas. present (pte (pmem t) pd (frame va)) \<longrightarrow> writable (pte (pmem s') pd (frame va))))"
        by (rule Cons.IH [OF t(1) _ d]) (use Cons.prems(2) in auto)
      have "\<forall>va \<in> set vas. frame va \<in> window" using Cons.prems(2) by simp
      with ih same pd t(2,4) v show ?thesis using same_view_trans [of "pmem s" "pmem t" D "pmem s'"] by auto
    qed
  qed
qed simp

section \<open>Enough memory\<close>

lemma alloc_enough:
  assumes "frames_inv s" and "0 < card (free_set s)"
  obtains p s' where "mm_alloc_page s = (p, s')" and "p \<noteq> 0" and "frames_inv s'"
    and "card (free_set s') = card (free_set s) - 1"
  using assms(1)
proof (cases rule: alloc_page_cases)
  case fail
  with assms(2) show ?thesis by simp
next
  case (ok p s')
  then have "card (free_set s') = card (free_set s) - 1" by simp
  with ok show ?thesis using that by simp
qed

lemma clone_tables_enough:
  "frames_inv s \<Longrightarrow> length ds \<le> card (free_set s) \<Longrightarrow> fst (clone_tables src pd ds s)"
proof (induction ds arbitrary: s)
  case (Cons d ds)
  obtain p s' where a: "mm_alloc_page s = (p, s')" "p \<noteq> 0" "frames_inv s'"
    "card (free_set s') = card (free_set s) - 1"
    by (rule alloc_enough [OF Cons.prems(1)]) (use Cons.prems(2) in auto)
  show ?case
  proof (cases "ent (pmem s) src d AND PDE_PRESENT = 0")
    case True
    then show ?thesis using Cons.IH [of "set_ent pd d 0 s"] Cons.prems by simp
  next
    case False
    have "free_set (copy_table p q t) = free_set t" for q and t :: "'a mm_state_scheme"
      by (subst copy_table_frame) simp
    then show ?thesis using False a Cons.prems(2) by (simp add: Let_def Cons.IH)
  qed
qed simp

lemma clone_enough:
  assumes "frames_inv s" and "4 \<le> card (free_set s)" and "src \<noteq> 0" and "tramp \<noteq> 0"
  shows "fst (mm_clone_user_pd src tramp s) \<noteq> 0"
proof -
  obtain p s' where a: "mm_alloc_page s = (p, s')" "p \<noteq> 0" "frames_inv s'"
    "card (free_set s') = card (free_set s) - 1"
    by (rule alloc_enough [OF assms(1)]) (use assms(2) in auto)
  have "free_set (copy_table p src s') = free_set s'" by (subst copy_table_frame) simp
  moreover have "length user_pdes = 3" by (simp add: user_pdes_def user_window)
  ultimately have "fst (clone_tables src p user_pdes (copy_table p src s'))"
    using a(3,4) assms(2) by (intro clone_tables_enough) auto
  then show ?thesis using a(1,2) assms(3,4) by (simp add: mm_clone_user_pd_def Let_def split_beta)
qed

end
