(* ===== verification/Vm_Properties.thy ===== *)
theory Vm_Properties
  imports Fork
begin

text \<open>
  The properties of the address spaces of \<^verbatim>\<open>src/mm.c\<close>: page faults, fork, teardown, creation, detaching
  and kernel mappings.  They are applied to a concrete machine with two processes: 32 frames,
  of which 20 to 31 are free; the directories at \<open>0x2000\<close> and \<open>0x5000\<close> share frame 16 read-only at
  the first user page and have a trampoline page each (frames 17 and 18); frame 19 is a spare page.
\<close>

definition put_ent :: "u32 \<Rightarrow> u32 \<Rightarrow> u32 \<Rightarrow> memory \<Rightarrow> memory" where
  "put_ent p i v m = store32 m (p + 4 * i) v"

definition vm_mem :: memory where
  "vm_mem = (put_ent 0x2000 32 0x3007 \<circ> put_ent 0x2000 34 0x4007 \<circ> put_ent 0x5000 32 0x6007 \<circ>
     put_ent 0x5000 34 0x7007 \<circ> put_ent 0x3000 72 0x10005 \<circ> put_ent 0x6000 72 0x10005 \<circ>
     put_ent 0x4000 71 0x11005 \<circ> put_ent 0x7000 71 0x12005) (\<lambda>_. 0)"

definition vm_demo :: mm_state where
  "vm_demo = \<lparr>bitmap = (\<lambda>i. if i = 0 then 0x000FFFFF else 0), total_pages = 32, free_pages = 12,
     frame_refs = (\<lambda>f. if f = 16 then 2 else 1), mmap_region_count = 0, reported_mem_upper_kb = 0,
     page_dir_phys = 0x1000, cr3 = 0x2000, pmem = vm_mem\<rparr>"

lemma zero_ent: "ent (\<lambda>_. 0) p i = 0"
  by (simp add: ent_def load32_def)

lemma ent_put:
  "page_aligned p \<Longrightarrow> page_aligned q \<Longrightarrow> i < 1024 \<Longrightarrow> j < 1024 \<Longrightarrow>
    ent (put_ent p i v m) q j = (if p = q \<and> i = j then v else ent m q j)"
  by (simp add: put_ent_def ent_store)

lemma vm_ents:
  assumes "i < 1024"
  shows "ent vm_mem 0x2000 i = (if i = 32 then 0x3007 else if i = 34 then 0x4007 else 0)"
    and "ent vm_mem 0x5000 i = (if i = 32 then 0x6007 else if i = 34 then 0x7007 else 0)"
    and "ent vm_mem 0x3000 i = (if i = 72 then 0x10005 else 0)"
    and "ent vm_mem 0x6000 i = (if i = 72 then 0x10005 else 0)"
    and "ent vm_mem 0x4000 i = (if i = 71 then 0x11005 else 0)"
    and "ent vm_mem 0x7000 i = (if i = 71 then 0x12005 else 0)"
  unfolding vm_mem_def using assms
  by (simp_all add: ent_put page_aligned_def zero_ent)

lemma vm_tables:
  "d \<in> set user_pdes \<Longrightarrow> present (ent vm_mem 0x2000 d) \<longleftrightarrow> d \<in> {32, 34}"
  "d \<in> set user_pdes \<Longrightarrow> present (ent vm_mem 0x5000 d) \<longleftrightarrow> d \<in> {32, 34}"
  using user_pdes_lt [of d] by (auto simp: vm_ents present_def page_flags)

lemma window_split: "v \<in> window \<Longrightarrow> v = 0x8048 \<longleftrightarrow> drop_bit 10 v = 32 \<and> v AND 0x3FF = 72"
  "v \<in> window \<Longrightarrow> v = 0x8847 \<longleftrightarrow> drop_bit 10 v = 34 \<and> v AND 0x3FF = 71"
  using vpn_split [of v "0x8048"] vpn_split [of v "0x8847"] by auto

lemma vm_pte:
  assumes "v \<in> window"
  shows "pte vm_mem 0x2000 v = (if v = 0x8048 then 0x10005 else if v = 0x8847 then 0x11005 else 0)"
    and "pte vm_mem 0x5000 v = (if v = 0x8048 then 0x10005 else if v = 0x8847 then 0x12005 else 0)"
proof -
  have d: "drop_bit 10 v < 1024" by (rule window_index [OF assms])
  have n: "(0x3007::u32) AND PAGE_MASK = 0x3000" "(0x4007::u32) AND PAGE_MASK = 0x4000"
    "(0x6007::u32) AND PAGE_MASK = 0x6000" "(0x7007::u32) AND PAGE_MASK = 0x7000"
    by (simp_all add: PAGE_MASK_def)
  show "pte vm_mem 0x2000 v = (if v = 0x8048 then 0x10005 else if v = 0x8847 then 0x11005 else 0)"
    unfolding window_split [OF assms]
    by (auto simp: pte_def vm_ents [OF d] vm_ents [OF pt_index_lt] vm_ents n present_def page_flags)
  show "pte vm_mem 0x5000 v = (if v = 0x8048 then 0x10005 else if v = 0x8847 then 0x12005 else 0)"
    unfolding window_split [OF assms]
    by (auto simp: pte_def vm_ents [OF d] vm_ents [OF pt_index_lt] vm_ents n present_def page_flags)
qed

lemma vm_test: "f < 32 \<Longrightarrow> bitmap_test f vm_demo \<longleftrightarrow> f < 20"
proof -
  assume f: "f < 32"
  have "f \<in> set (u32_range 0 32)" using f by simp
  then show ?thesis
    by (simp add: u32_range_def upt_conv_Cons del: set_u32_range)
      (elim disjE; simp add: bitmap_test_def vm_demo_def)
qed

abbreviation vm_dirs :: "u32 set" where
  "vm_dirs \<equiv> {0x2000, 0x5000}"

lemma vm_used: "used_set vm_demo = {f. f < 20}" "free_set vm_demo = {f. 20 \<le> f \<and> f < 32}"
proof -
  have t: "total_pages vm_demo = 32" by (simp add: vm_demo_def)
  have l: "f < 20 \<Longrightarrow> f < 32" for f :: u32 by (simp add: word_less_nat_alt)
  show "used_set vm_demo = {f. f < 20}" using vm_test l by (auto simp: used_set_def t)
  show "free_set vm_demo = {f. 20 \<le> f \<and> f < 32}" using vm_test by (auto simp: free_set_def t)
qed

lemma vm_frames: "frames_inv vm_demo"
proof -
  have "{f::u32. 20 \<le> f \<and> f < 32} = set (u32_range 20 32)" by simp
  then have "card (free_set vm_demo) = 12" unfolding vm_used by (simp add: distinct_card del: set_u32_range)
  moreover have "bitmap_test 0 vm_demo" using vm_test [of 0] by simp
  ultimately show ?thesis by (simp add: frames_inv_def mm_inv_def) (simp add: vm_demo_def MM_MAX_PAGES_def)
qed

lemma vm_struct: "struct_frames vm_mem vm_dirs = {2, 3, 4, 5, 6, 7}"
proof -
  have pd: "set user_pdes = {32, 33, 34}"
    by (simp add: user_pdes_def user_window u32_range_def upt_conv_Cons del: set_u32_range)
  have "{frame (ent vm_mem p d) | p d. p \<in> vm_dirs \<and> d \<in> set user_pdes \<and> present (ent vm_mem p d)} = {3, 4, 6, 7}"
    unfolding pd by (auto simp: vm_ents present_def page_flags)
      (rule exI [of _ "0x2000"], rule exI [of _ 32], simp add: vm_ents,
       rule exI [of _ "0x2000"], rule exI [of _ 34], simp add: vm_ents,
       rule exI [of _ "0x5000"], rule exI [of _ 32], simp add: vm_ents,
       rule exI [of _ "0x5000"], rule exI [of _ 34], simp add: vm_ents)
  then show ?thesis by (auto simp: struct_frames_def)
qed

lemma vm_pmem: "pmem vm_demo = vm_mem" "page_dir_phys vm_demo = 0x1000"
  "frame_refs vm_demo f = (if f = 16 then 2 else 1)"
  by (simp_all add: vm_demo_def)

lemma vm_pdes: "set user_pdes = {32, 33, 34}"
  by (simp add: user_pdes_def user_window u32_range_def upt_conv_Cons del: set_u32_range)

lemma vm_present:
  assumes "v \<in> window" and "pd \<in> vm_dirs"
  shows "present (pte vm_mem pd v) \<longleftrightarrow> v = 0x8048 \<or> v = 0x8847"
    and "\<not> writable (pte vm_mem pd v)"
    and "present (pte vm_mem pd v) \<Longrightarrow> frame (pte vm_mem pd v) =
      (if v = 0x8048 then 16 else if pd = 0x2000 then 17 else 18)"
  using assms by (auto simp: vm_pte present_def writable_def page_flags split: if_splits)

lemma vm_vm_ok: "vm_ok vm_demo vm_dirs"
proof -
  have "dirs_ok vm_mem (used_set vm_demo) 0x1000 vm_dirs"
    unfolding dirs_ok_def vm_struct vm_used vm_pdes
  proof (intro conjI ballI impI)
    fix pd v assume "pd \<in> vm_dirs" "v \<in> window" "present (pte vm_mem pd v)"
    then show "frame (pte vm_mem pd v) \<in> {f. f < 20} - insert 0 {2, 3, 4, 5, 6, 7}"
      by (simp add: vm_present)
  next
    fix pd pd' d d' assume "pd \<in> vm_dirs" "pd' \<in> vm_dirs" "d \<in> {32, 33, 34::u32}" "d' \<in> {32, 33, 34::u32}"
      "present (ent vm_mem pd d) \<and> present (ent vm_mem pd' d') \<and> frame (ent vm_mem pd d) = frame (ent vm_mem pd' d')"
    then have "pd = pd' \<and> d = d'" by (auto simp: vm_ents present_def)
    then show "pd = pd'" "d = d'" by simp_all
  qed (auto simp: page_aligned_def vm_ents present_def page_flags)
  then show ?thesis using vm_frames by (simp add: vm_ok_def vm_pmem)
qed

lemma vm_sites:
  "sites vm_mem vm_dirs f = (if f = 16 then {(0x2000, 0x8048), (0x5000, 0x8048)}
     else if f = 17 then {(0x2000, 0x8847)} else if f = 18 then {(0x5000, 0x8847)} else {})"
proof -
  have w: "(0x8048::u32) \<in> window" "(0x8847::u32) \<in> window" by (simp_all add: window_iff)
  have "(pd, v) \<in> sites vm_mem vm_dirs f \<longleftrightarrow> pd \<in> vm_dirs \<and> (v = 0x8048 \<and> f = 16 \<or>
      v = 0x8847 \<and> f = (if pd = 0x2000 then 17 else 18))" for pd v
    using vm_present [of v pd] w by (auto simp: sites_def)
  then show ?thesis by (auto split: if_splits)
qed

lemma vm_cow: "cow_ok vm_demo vm_dirs"
  unfolding cow_ok_def
proof (intro conjI ballI allI impI)
  show "vm_ok vm_demo vm_dirs" by (rule vm_vm_ok)
  show "card (sites (pmem vm_demo) vm_dirs f) \<le> unat (frame_refs vm_demo f)" for f
    by (simp add: vm_sites vm_pmem)
  fix pd v assume a: "pd \<in> vm_dirs" "v \<in> window"
  show "sites (pmem vm_demo) vm_dirs (frame (pte (pmem vm_demo) pd v)) = {(pd, v)}"
    if "present (pte (pmem vm_demo) pd v) \<and> writable (pte (pmem vm_demo) pd v)"
    using that vm_present(2) [OF a(2,1)] by (simp add: vm_pmem)
  show "v \<in> user_vpns" if "present (pte (pmem vm_demo) pd v)"
    using that vm_present(1) [OF a(2,1)] by (auto simp: vm_pmem user_vpns_def)
qed

lemma vm_kernel: "kernel_dir_ok vm_demo"
  by (simp add: kernel_dir_ok_def vm_used vm_pmem page_aligned_def)

lemma vm_total: "total_pages vm_demo = 32"
  by (simp add: vm_demo_def)

section \<open>What a teardown releases\<close>

text \<open>How many references a space holds on a frame: one for every page that maps it, one when it is one of the
  page tables, one when it is the directory.\<close>

definition uses :: "memory \<Rightarrow> u32 \<Rightarrow> u32 \<Rightarrow> nat" where
  "uses m pd f = card {v \<in> window. present (pte m pd v) \<and> frame (pte m pd v) = f} +
     card {d \<in> set user_pdes. present (ent m pd d) \<and> frame (ent m pd d) = f} + (if frame pd = f then 1 else 0)"

text \<open>The state after \<open>n f\<close> references have been given up on each frame \<open>f\<close>.\<close>

definition drops :: "(u32 \<Rightarrow> nat) \<Rightarrow> 'a mm_state_scheme \<Rightarrow> 'a mm_state_scheme \<Rightarrow> bool" where
  "drops n s s' \<longleftrightarrow> total_pages s' = total_pages s \<and>
     (\<forall>f < total_pages s. unat (frame_refs s' f) = unat (frame_refs s f) - n f \<and>
        (bitmap_test f s' \<longleftrightarrow> bitmap_test f s \<and> (n f = 0 \<or> n f < unat (frame_refs s f))))"

lemma drops_used: "drops n s s' \<Longrightarrow> used_set s' = {f \<in> used_set s. n f = 0 \<or> n f < unat (frame_refs s f)}"
  by (auto simp: drops_def used_set_def)

lemma drops_unref: "drops n s t \<Longrightarrow> drops (n(f := Suc (n f))) s (page_unref f t)"
proof -
  assume d: "drops n s t"
  have u: "unat (frame_refs t f - 1) = unat (frame_refs t f) - 1" if "1 < frame_refs t f"
    using that by (simp add: unat_sub word_le_nat_alt word_less_nat_alt)
  have "(frame_refs t g \<le> 1) = (unat (frame_refs t g) \<le> 1)" for g by (simp add: word_le_nat_alt)
  then show ?thesis using d u by (auto simp: drops_def page_unref_test page_unref_refs word_less_nat_alt)
qed

lemma drops_fold: "drops (count_list L) s (fold page_unref L s)"
proof (induction L rule: rev_induct)
  case (snoc f L)
  have "count_list (L @ [f]) = (count_list L)(f := Suc (count_list L f))" by auto
  with drops_unref [OF snoc.IH, of f] show ?case by (simp only: fold_append comp_def fold.simps id_apply)
qed (simp add: drops_def)

lemma count_list_map_filter:
  "distinct xs \<Longrightarrow> count_list (map g (filter P xs)) f = card {x \<in> set xs. P x \<and> g x = f}"
proof (induction xs)
  case (Cons x xs)
  then have "{y \<in> set (x # xs). P y \<and> g y = f} = {y \<in> set xs. P y \<and> g y = f} \<union> (if P x \<and> g x = f then {x} else {})" by auto
  then show ?case using Cons by auto
qed simp

lemma fold_release:
  assumes "dirs_ok (pmem s) used kd D" and "pd \<in> D" and "\<forall>va \<in> set vas. frame va \<in> window"
  shows "fold (release_page pd) vas s =
    fold page_unref (map (\<lambda>va. frame (pte (pmem s) pd (frame va))) (filter (\<lambda>va. present (pte (pmem s) pd (frame va))) vas)) s"
  using assms
proof (induction vas arbitrary: s)
  case (Cons va vas)
  have v: "frame va \<in> window" using Cons.prems(3) by simp
  note up = user_pte_window [OF Cons.prems(1,2) v]
  have "release_page pd va s = (if present (pte (pmem s) pd (frame va)) then page_unref (frame (pte (pmem s) pd (frame va))) s else s)"
    using up(4) up(3) [OF pte_pde] by (auto simp: release_page_def Let_def)
  then show ?case using Cons by simp
qed simp

lemma fold_tables:
  "fold (\<lambda>d s. if ent (pmem s) pd d AND PDE_PRESENT \<noteq> 0 then mm_free_page (ent (pmem s) pd d AND PAGE_MASK) s else s) ds s =
     fold page_unref (map (\<lambda>d. frame (ent (pmem s) pd d)) (filter (\<lambda>d. present (ent (pmem s) pd d)) ds)) s"
  by (induction ds arbitrary: s) (simp_all add: mm_free_page_unref present_def)

lemma fold_unref_pmem: "pmem (fold page_unref L s) = pmem s"
  by (induction L arbitrary: s) simp_all

lemma user_pdes_distinct: "distinct user_pdes"
  by (simp add: user_pdes_def)

lemma teardown_drops:
  assumes cow: "cow_ok s D" and pd: "pd \<in> D" and tr: "present (pte (pmem s) pd 0x8847)"
    and ft: "frame tramp = frame (pte (pmem s) pd 0x8847)"
  shows "drops (uses (pmem s) pd) s (mm_free_page tramp (mm_free_user_pd pd (mm_user_release_pages pd s)))"
proof -
  let ?m = "pmem s"
  note ok = vm_okD(2) [OF cow_okD(1) [OF cow]]
  define P where "P = map (\<lambda>va. frame (pte ?m pd (frame va))) (filter (\<lambda>va. present (pte ?m pd (frame va))) user_pages)"
  define T where "T = map (\<lambda>d. frame (ent ?m pd d)) (filter (\<lambda>d. present (ent ?m pd d)) user_pdes)"
  have "mm_user_release_pages pd s = fold page_unref P s"
    using fold_release [OF ok pd user_pages_window] dirs_okD(2) [OF ok pd] by (simp add: mm_user_release_pages_def P_def)
  then have "mm_free_page tramp (mm_free_user_pd pd (mm_user_release_pages pd s)) =
      fold page_unref (P @ T @ [frame pd, frame tramp]) s"
    using dirs_okD(2,3) [OF ok pd] release_pages_kd [of pd s]
    by (simp add: mm_free_user_pd_def fold_tables fold_unref_pmem mm_free_page_unref T_def)
  moreover have "count_list (P @ T @ [frame pd, frame tramp]) = uses ?m pd"
  proof
    fix f
    let ?V = "{va \<in> set user_pages. present (pte ?m pd (frame va)) \<and> frame (pte ?m pd (frame va)) = f}"
    let ?W = "{v \<in> window. present (pte ?m pd v) \<and> frame (pte ?m pd v) = f}"
    have W: "?W = frame ` ?V \<union> (if frame tramp = f then {0x8847} else {})"
      using cow_okD(4) [OF cow pd] user_pages_window tramp_page(2) tr ft by (auto simp: user_vpns_pages)
    have ds: "distinct user_pages" "inj_on (drop_bit 12) (set user_pages)" using user_pages_distinct unfolding distinct_map by blast+
    have "?V \<subseteq> set user_pages" by blast
    then have "card (frame ` ?V) = card ?V" by (rule card_image [OF inj_on_subset [OF ds(2)]])
    moreover have "0x8847 \<notin> frame ` ?V" using tramp_page(3) by blast
    ultimately have "card ?W = card ?V + (if frame tramp = f then 1 else 0)" unfolding W by simp
    then show "count_list (P @ T @ [frame pd, frame tramp]) f = uses ?m pd f"
      by (simp add: uses_def P_def T_def count_list_map_filter [OF ds(1)] count_list_map_filter [OF user_pdes_distinct])
  qed
  ultimately show ?thesis using drops_fold by metis
qed

lemma vm_uses: "uses vm_mem 0x2000 f = (if f \<in> {2, 3, 4, 16, 17} then 1 else 0)"
proof -
  have "{v \<in> window. present (pte vm_mem 0x2000 v) \<and> frame (pte vm_mem 0x2000 v) = f} =
      (if f = 16 then {0x8048} else if f = 17 then {0x8847} else {})"
    using vm_present(1,3) [of _ "0x2000"] by (auto simp: window_iff)
  moreover have "{d \<in> set user_pdes. present (ent vm_mem 0x2000 d) \<and> frame (ent vm_mem 0x2000 d) = f} =
      (if f = 3 then {32} else if f = 4 then {34} else {})"
    unfolding vm_pdes by (auto simp: vm_ents present_def page_flags)
  ultimately show ?thesis by (simp add: uses_def)
qed

section \<open>Properties\<close>

lemma user_translate_pte:
  assumes "dirs_ok (pmem s) used kd D" and "pd \<in> D" and "frame va \<in> window" and "present (pte (pmem s) pd (frame va))"
  shows "mm_user_translate pd va s = (pte (pmem s) pd (frame va) AND PAGE_MASK) + (va AND 0xFFF)"
  using user_pte_window(3,4) [OF assms(1-3)] pte_pde [OF assms(4)] assms(4) by (simp add: mm_user_translate_def Let_def)

text \<open>A store by a process: the processor writes only through an entry that is present and writable.\<close>

definition ustore :: "memory \<Rightarrow> u32 \<Rightarrow> u32 \<Rightarrow> u8 \<Rightarrow> memory option" where
  "ustore m pd va b =
     (let e = pte m pd (frame va)
      in if present e \<and> writable e then Some (m((e AND PAGE_MASK) + (va AND 0xFFF) := b)) else None)"

text \<open>C2: The page-fault path.  \<^verbatim>\<open>mm_user_make_writable\<close> fails only when the page is not mapped or no frame is
  free, and then changes nothing.  When it succeeds, the entry is present and writable, the frame behind it
  is mapped by no other page of any process, and all other entries are as before; so the store that faulted
  now goes through, its byte is read back, and every other byte of every process, its own included, reads as
  before the fault: copy-on-write sharing is invisible.\<close>

theorem cow_fault_isolated:
  assumes "cow_ok s D" and "pd \<in> D" and "frame va \<in> window" and "mm_user_make_writable pd va s = (okb, s')"
  shows "if okb
    then cow_ok s' D \<and> present (pte (pmem s') pd (frame va)) \<and> writable (pte (pmem s') pd (frame va)) \<and>
      sites (pmem s') D (frame (pte (pmem s') pd (frame va))) = {(pd, frame va)} \<and>
      (\<forall>pd' \<in> D. \<forall>v \<in> window. (pd', v) \<noteq> (pd, frame va) \<longrightarrow> pte (pmem s') pd' v = pte (pmem s) pd' v) \<and>
      (\<exists>m. ustore (pmem s') pd va b = Some m \<and>
        (\<forall>pd' \<in> D. \<forall>v \<in> window. \<forall>k < 4096. uread m pd' v k =
          (if pd' = pd \<and> v = frame va \<and> k = va AND 0xFFF then Some b else uread (pmem s) pd' v k)))
    else s' = s \<and> (\<not> present (pte (pmem s) pd (frame va)) \<or> free_set s = {})"
  using assms(1-3)
proof (cases rule: make_writable_cases)
  case (made t)
  then have t: "t = s'" "okb" "cow_step s s' D pd (frame va)" using assms(4) by auto
  then have st: "cow_ok s' D" "same_view (pmem s) (pmem s') D" "present (pte (pmem s') pd (frame va))"
    "writable (pte (pmem s') pd (frame va))" by (simp_all add: cow_step_def)
  have "ustore (pmem s') pd va b = Some ((pmem s')(mm_user_translate pd va s' := b))"
    using user_translate_pte [OF vm_okD(2) [OF cow_okD(1) [OF st(1)]] assms(2,3) st(3)] st(3,4)
    by (simp add: ustore_def Let_def)
  then show ?thesis
    using user_write(2) [OF st(1) assms(2,3) st(3,4), of _ _ _ b] cow_okD(3) [OF st(1) assms(2,3) st(3,4)] st t(2,3)
    by (auto simp: same_view_def cow_step_def)
qed (use assms(4) in auto)

theorem cow_fault_isolated_witness:
  "\<exists>s' m. mm_user_make_writable 0x2000 0x08048010 vm_demo = (True, s') \<and> cow_ok s' vm_dirs \<and>
    ustore (pmem s') 0x2000 0x08048010 7 = Some m \<and> uread m 0x2000 0x8048 16 = Some 7 \<and>
    uread m 0x5000 0x8048 16 = uread (pmem vm_demo) 0x5000 0x8048 16"
proof -
  have w: "frame 0x08048010 \<in> window" by (simp add: window_iff)
  have f: "frame (0x08048010::u32) = 0x8048" by simp
  have "free_set vm_demo \<noteq> {}" unfolding vm_used by (auto intro: exI [of _ 20])
  moreover have "present (pte (pmem vm_demo) 0x2000 (frame 0x08048010))"
    using vm_present(1) [OF w, of "0x2000"] by (simp add: vm_pmem)
  moreover have "0x2000 \<in> vm_dirs" by simp
  ultimately obtain t where t: "mm_user_make_writable 0x2000 0x08048010 vm_demo = (True, t)"
    using make_writable_cases [OF vm_cow _ w, of "0x2000"] by blast
  then show ?thesis
    using cow_fault_isolated [OF vm_cow _ w t, of 7] by (fastforce simp: window_iff)
qed

text \<open>C1: Fork.  After \<^verbatim>\<open>mm_clone_user_pd\<close>, write protection of both sides and the reference counts
  (the memory part of \<^verbatim>\<open>proc_space_cow\<close>), the child and all old processes form a sound system of
  copy-on-write spaces, the child reads what the parent read, and nobody's memory has changed.\<close>

theorem fork_shares_memory:
  assumes "cow_ok s D" and "kernel_dir_ok s" and "parent \<in> D" and "page_aligned tramp"
    and "frame tramp \<in> used_set s - insert 0 (struct_frames (pmem s) D)"
    and "sites (pmem s) D (frame tramp) = {}" and "1 \<le> frame_refs s (frame tramp)"
    and "present (pte (pmem s) parent 0x8847)" and "\<forall>f. card (sites (pmem s) D f) \<le> 127"
    and "mm_clone_user_pd parent tramp s = (child, s1)" and "child \<noteq> 0"
  shows "cow_ok (share_space child parent s1) (insert child D) \<and>
    same_view (pmem s) (pmem (share_space child parent s1)) D \<and>
    (\<forall>v \<in> frame ` set user_pages. \<forall>k < 4096.
      uread (pmem (share_space child parent s1)) child v k = uread (pmem s) parent v k)"
  using fork_cow_ok [OF assms(1-8,10,11,9)] by blast

theorem fork_shares_memory_witness:
  "\<exists>child s1. mm_clone_user_pd 0x2000 0x13000 vm_demo = (child, s1) \<and> child \<noteq> 0 \<and>
    cow_ok (share_space child 0x2000 s1) (insert child vm_dirs)"
proof -
  obtain child s1 where c: "mm_clone_user_pd 0x2000 0x13000 vm_demo = (child, s1)" by force
  have "{f::u32. 20 \<le> f \<and> f < 32} = set (u32_range 20 32)" by simp
  then have "4 \<le> card (free_set vm_demo)"
    unfolding vm_used by (simp add: distinct_card del: set_u32_range)
  then have n: "child \<noteq> 0" using clone_enough [OF vm_frames, of "0x2000" "0x13000"] c by simp
  have "frame (0x13000::u32) = 19" by simp
  then have "cow_ok (share_space child 0x2000 s1) (insert child vm_dirs)"
    using fork_shares_memory [OF vm_cow vm_kernel, of "0x2000" "0x13000" child s1] c n
    by (simp add: page_aligned_def vm_used vm_pmem vm_struct vm_sites vm_present window_iff)
  with c n show ?thesis by blast
qed

text \<open>C3: Teardown.  Releasing a process's pages, its tables and directory and its trampoline gives up exactly
  the references of that process: the count of every frame drops by the number of times the process used it (its
  pages, its tables, its directory), a frame becomes free exactly when that was all its count, and no other frame
  is touched.  The other processes keep a sound system of spaces: nothing they map is freed and no byte of
  memory changes.\<close>

theorem teardown_keeps_others:
  assumes "cow_ok s D" and "pd \<in> D" and "present (pte (pmem s) pd 0x8847)"
    and "frame tramp = frame (pte (pmem s) pd 0x8847)"
  shows "case mm_free_page tramp (mm_free_user_pd pd (mm_user_release_pages pd s)) of
    s' \<Rightarrow> cow_ok s' (D - {pd}) \<and> pmem s' = pmem s \<and>
      (\<forall>f < total_pages s. unat (frame_refs s' f) = unat (frame_refs s f) - uses (pmem s) pd f) \<and>
      used_set s' = {f \<in> used_set s. uses (pmem s) pd f = 0 \<or> uses (pmem s) pd f < unat (frame_refs s f)}"
  using teardown [OF assms] teardown_drops [OF assms] by (simp add: drops_def drops_used)

theorem teardown_keeps_others_witness:
  "case mm_free_page 0x11000 (mm_free_user_pd 0x2000 (mm_user_release_pages 0x2000 vm_demo)) of
    s' \<Rightarrow> cow_ok s' (vm_dirs - {0x2000}) \<and> pmem s' = pmem vm_demo \<and>
      frame_refs s' 16 = 1 \<and> 16 \<in> used_set s' \<and> {2, 3, 4, 17} \<inter> used_set s' = {}"
proof -
  let ?s = "mm_free_page 0x11000 (mm_free_user_pd 0x2000 (mm_user_release_pages 0x2000 vm_demo))"
  have t: "cow_ok ?s (vm_dirs - {0x2000}) \<and> pmem ?s = pmem vm_demo \<and>
      (\<forall>f < total_pages vm_demo. unat (frame_refs ?s f) = unat (frame_refs vm_demo f) - uses (pmem vm_demo) 0x2000 f) \<and>
      used_set ?s = {f \<in> used_set vm_demo. uses (pmem vm_demo) 0x2000 f = 0 \<or> uses (pmem vm_demo) 0x2000 f < unat (frame_refs vm_demo f)}"
    using teardown_keeps_others [OF vm_cow, of "0x2000" "0x11000"] by (simp add: vm_pmem vm_present window_iff)
  have "frame_refs ?s 16 = 1"
    using t vm_uses [of 16] by (simp add: vm_pmem vm_total word_unat_eq_iff)
  then show ?thesis using t vm_uses by (auto simp: vm_pmem vm_used)
qed

text \<open>C7: \<^verbatim>\<open>mm_create_user_pd\<close> either fails and leaves the set of free frames as it was, or returns a
  directory in which the user window maps the block page by page, the trampoline is read-only,
  nothing else in the window is mapped and the kernel's slots are shared; freeing it gives back
  exactly the frames it took.\<close>

theorem create_user_pd_correct:
  assumes "frames_inv s" and "kernel_dir_ok s" and "block_phys \<noteq> 0" and "page_aligned block_phys"
    and "tramp \<noteq> 0" and "page_aligned tramp"
  shows "case mm_create_user_pd block_phys tramp s of (pd, s') \<Rightarrow>
    (if pd = 0 then free_set s' = free_set s
     else (\<forall>v \<in> window. pte (pmem s') pd v = created_pte block_phys tramp v) \<and>
       (\<forall>i < 1024. i \<notin> set user_pdes \<longrightarrow> ent (pmem s') pd i = ent (pmem s) (page_dir_phys s) i) \<and>
       free_set (mm_free_user_pd pd s') = free_set s)"
  using assms
proof (cases rule: create_user_pd_cases)
  case (made pd s')
  then show ?thesis using free_fresh_dir [OF made(3,4)] by auto
qed simp

theorem create_user_pd_correct_witness:
  "case mm_create_user_pd 0x10000 0x13000 vm_demo of (pd, s') \<Rightarrow>
    (if pd = 0 then free_set s' = free_set vm_demo
     else (\<forall>v \<in> window. pte (pmem s') pd v = created_pte 0x10000 0x13000 v) \<and>
       (\<forall>i < 1024. i \<notin> set user_pdes \<longrightarrow> ent (pmem s') pd i = ent (pmem vm_demo) (page_dir_phys vm_demo) i) \<and>
       free_set (mm_free_user_pd pd s') = free_set vm_demo)"
  by (rule create_user_pd_correct [OF vm_frames vm_kernel]) (simp_all add: page_aligned_def)

text \<open>C8: \<^verbatim>\<open>mm_user_detach_pages\<close> (run before \<^verbatim>\<open>execve\<close> rewrites the image) gives the process a private,
  writable copy of every page it maps, without a visible change for anybody; it fails only for
  lack of frames and then leaves a sound state.\<close>

theorem detach_makes_private:
  assumes "cow_ok s D" and "pd \<in> D" and "mm_user_detach_pages pd s = (okb, s')"
  shows "cow_ok s' D \<and> same_view (pmem s) (pmem s') D \<and>
    (okb \<longrightarrow> (\<forall>va \<in> set user_pages. present (pte (pmem s') pd (frame va)) \<longrightarrow>
      sites (pmem s') D (frame (pte (pmem s') pd (frame va))) = {(pd, frame va)}))"
proof -
  obtain t where t: "detach_pages pd user_pages s = (okb, t)" "\<exists>c. s' = t\<lparr>cr3 := c\<rparr>"
  proof -
    obtain b t where t: "detach_pages pd user_pages s = (b, t)" by force
    have "pd \<noteq> 0" by (rule dirs_okD(2) [OF vm_okD(2) [OF cow_okD(1) [OF assms(1)]] assms(2)])
    then have "okb = b" "s' = t \<or> s' = mm_switch_pd pd t"
      using assms(3) t by (auto simp: mm_user_detach_pages_def split: if_splits)
    moreover have "\<exists>c. t = t\<lparr>cr3 := c\<rparr>" by (rule exI [of _ "cr3 t"]) simp
    ultimately show ?thesis using that [of t] t by (auto simp: mm_switch_pd_def)
  qed
  have d: "cow_ok s' D \<and> same_view (pmem s) (pmem s') D \<and>
      (\<forall>pd' \<in> D. \<forall>v \<in> window. present (pte (pmem s') pd' v) = present (pte (pmem s) pd' v)) \<and>
      (okb \<longrightarrow> (\<forall>va \<in> set user_pages. present (pte (pmem s) pd (frame va)) \<longrightarrow> writable (pte (pmem s') pd (frame va))))"
    using detach_pages_spec [OF assms(1,2) user_pages_window t(1)] t(2) by (auto simp: cow_ok_def vm_ok_def)
  have "sites (pmem s') D (frame (pte (pmem s') pd (frame va))) = {(pd, frame va)}"
    if "okb" "va \<in> set user_pages" "present (pte (pmem s') pd (frame va))" for va
    using d that user_pages_window assms(2) by (intro cow_okD(3)) auto
  then show ?thesis using d by blast
qed

theorem detach_makes_private_witness:
  "\<exists>okb s'. mm_user_detach_pages 0x2000 vm_demo = (okb, s') \<and>
    cow_ok s' vm_dirs \<and> same_view (pmem vm_demo) (pmem s') vm_dirs \<and>
    (okb \<longrightarrow> (\<forall>va \<in> set user_pages. present (pte (pmem s') 0x2000 (frame va)) \<longrightarrow>
      sites (pmem s') vm_dirs (frame (pte (pmem s') 0x2000 (frame va))) = {(0x2000, frame va)}))"
proof -
  obtain okb s' where "mm_user_detach_pages 0x2000 vm_demo = (okb, s')" by force
  with detach_makes_private [OF vm_cow _ this] show ?thesis by blast
qed

section \<open>Kernel mappings\<close>

text \<open>The entry of a page in the kernel's directory.\<close>

definition kernel_entry :: "u32 \<Rightarrow> 'a mm_state_scheme \<Rightarrow> u32" where
  "kernel_entry virt s =
     (let pde = ent (pmem s) (page_dir_phys s) (pd_index virt)
      in if present pde then ent (pmem s) (pde AND PAGE_MASK) (pt_index virt) else 0)"

lemma present_pte: "present e \<longleftrightarrow> e AND PTE_PRESENT \<noteq> 0"
  by (simp add: present_def PTE_PRESENT_def PDE_PRESENT_def)

lemma map_page_entry: "present e \<Longrightarrow> kernel_entry virt s = e \<Longrightarrow> mm_virt_to_phys virt s = (e AND PAGE_MASK) + (virt AND 0xFFF)"
  by (auto simp: kernel_entry_def mm_virt_to_phys_def Let_def PDE_PRESENT_def PTE_PRESENT_def present_def split: if_splits)

lemma new_entry:
  fixes phys flags :: u32
  defines "e \<equiv> (phys AND PAGE_MASK) OR (flags AND 0xFFF) OR PTE_PRESENT"
  shows "present e" "e AND PAGE_MASK = phys AND PAGE_MASK"
proof -
  have m: "(0xFFF::u32) = mask 12" by (simp add: mask_eq_exp_minus_1)
  show "present e" by (simp add: e_def present_bit bit_or_iff bit_PTE_PRESENT)
  show "e AND PAGE_MASK = phys AND PAGE_MASK"
    by (rule bit_word_eqI) (auto simp: e_def m PAGE_MASK_not bit_or_iff bit_and_iff bit_not_iff bit_mask_iff bit_PTE_PRESENT)
qed

lemma new_pde: "page_aligned p \<Longrightarrow> present (p OR PAGE_KERNEL) \<and> (p OR PAGE_KERNEL) AND PAGE_MASK = p"
proof -
  assume p: "page_aligned p"
  have k: "bit PAGE_KERNEL n \<longleftrightarrow> n = 0 \<or> n = 1" for n
    by (simp only: PAGE_KERNEL_def bit_or_iff bit_PTE_PRESENT [unfolded PTE_PRESENT_def] bit_PTE_WRITABLE)
  have "frame (p OR PAGE_KERNEL) = frame p" by (rule bit_word_eqI) (simp add: bit_drop_bit_eq bit_or_iff k)
  then show ?thesis
    using page_aligned_eq [OF page_aligned_mask p, of "p OR PAGE_KERNEL"] by (simp add: present_bit bit_or_iff k)
qed

lemma set_kernel_entry:
  assumes "page_aligned (page_dir_phys t)" and "present (ent (pmem t) (page_dir_phys t) (pd_index virt))"
    and "frame (ent (pmem t) (page_dir_phys t) (pd_index virt)) \<noteq> frame (page_dir_phys t)"
  shows "kernel_entry virt (set_ent (ent (pmem t) (page_dir_phys t) (pd_index virt) AND PAGE_MASK) (pt_index virt) e t) = e"
proof -
  have "ent (pmem t) (page_dir_phys t) (pd_index virt) AND PAGE_MASK \<noteq> page_dir_phys t" using assms(3) frame_mask by metis
  then show ?thesis using assms(1,2) by (simp add: kernel_entry_def Let_def ent_set_ent pt_index_lt pd_index_lt)
qed

text \<open>C9: \<^verbatim>\<open>mm_map_page\<close>.  A page that is already mapped is refused and nothing changes.  Otherwise the mapping is
  made unless a page table is missing and no frame is free for it, in which case nothing changes either: the page then
  has an entry with the frame and the flags asked for, and \<^verbatim>\<open>mm_virt_to_phys\<close> translates its addresses to that
  frame.\<close>

theorem map_page_translates:
  assumes "frames_inv s" and "kernel_dir_ok s"
    and "present (ent (pmem s) (page_dir_phys s) (pd_index virt)) \<Longrightarrow>
      frame (ent (pmem s) (page_dir_phys s) (pd_index virt)) \<noteq> frame (page_dir_phys s)"
    and "mm_map_page phys virt flags s = (okb, s')"
  shows "if present (kernel_entry virt s) then \<not> okb \<and> s' = s
    else if present (ent (pmem s) (page_dir_phys s) (pd_index virt)) \<or> free_set s \<noteq> {}
    then okb \<and> kernel_entry virt s' = (phys AND PAGE_MASK) OR (flags AND 0xFFF) OR PTE_PRESENT \<and>
      mm_virt_to_phys virt s' = (phys AND PAGE_MASK) + (virt AND 0xFFF)
    else \<not> okb \<and> s' = s"
proof -
  let ?pd = "page_dir_phys s" and ?d = "pd_index virt" and ?j = "pt_index virt"
  have kd: "page_aligned ?pd" "frame ?pd \<in> used_set s" using assms(2) by (simp_all add: kernel_dir_ok_def)
  define e where "e = (phys AND PAGE_MASK) OR (flags AND 0xFFF) OR PTE_PRESENT"
  note e = new_entry [of phys flags, folded e_def]
  show ?thesis
  proof (cases "present (ent (pmem s) ?pd ?d)")
    case True
    let ?t = "set_ent (ent (pmem s) ?pd ?d AND PAGE_MASK) ?j e s"
    have k: "kernel_entry virt s = ent (pmem s) (ent (pmem s) ?pd ?d AND PAGE_MASK) ?j" using True by (simp add: kernel_entry_def)
    have "mm_map_page phys virt flags s = (if present (kernel_entry virt s) then (False, s) else (True, ?t))"
      using True by (simp add: mm_map_page_def Let_def k present_pte e_def) (simp add: PDE_PRESENT_def PTE_PRESENT_def)
    then show ?thesis
      using assms(4) True set_kernel_entry [OF kd(1) True assms(3) [OF True], of e] map_page_entry [OF e(1), of virt ?t] e(2)
      by (auto simp flip: e_def split: if_splits)
  next
    case False
    then have n: "\<not> present (kernel_entry virt s)" by (simp add: kernel_entry_def present_def)
    from assms(1) show ?thesis
    proof (cases rule: alloc_page_cases)
      case fail
      then show ?thesis using assms(4) False n by (auto simp: mm_map_page_def new_table_def present_def)
    next
      case (ok p s1)
      have pf: "frame p \<noteq> frame ?pd" using ok(14) kd(2) by metis
      note ke = new_pde [OF ok(3)]
      let ?t = "set_ent ?pd ?d (p OR PAGE_KERNEL) (zero_table p s1)"
      have t: "ent (pmem ?t) ?pd ?d = p OR PAGE_KERNEL" "ent (pmem ?t) p ?j = 0" "page_dir_phys ?t = ?pd"
        using kd(1) ok(3,9) pf by (auto simp: ent_set_ent zero_table_ent pt_index_lt pd_index_lt)
      have "frame (p OR PAGE_KERNEL) \<noteq> frame ?pd" using ke pf frame_mask [of "p OR PAGE_KERNEL"] by simp
      then have "kernel_entry virt (set_ent p ?j e ?t) = e"
        using set_kernel_entry [of ?t virt e] t kd(1) ke by simp
      moreover have "mm_map_page phys virt flags s = (True, set_ent p ?j e ?t)"
        using False ok(1,2) t ke by (simp add: mm_map_page_def new_table_def present_def e_def Let_def)
      ultimately show ?thesis
        using assms(4) n ok(4) map_page_entry [OF e(1), of virt s'] e(2) by (auto simp flip: e_def)
    qed
  qed
qed

theorem map_page_translates_witness:
  "\<exists>s'. mm_map_page 0x14000 0xD0000000 3 vm_demo = (True, s') \<and> kernel_entry 0xD0000000 s' = 0x14003 \<and>
    mm_virt_to_phys 0xD0000000 s' = 0x14000"
proof -
  obtain okb s' where m: "mm_map_page 0x14000 0xD0000000 3 vm_demo = (okb, s')" by force
  have "ent vm_mem 0x1000 (pd_index 0xD0000000) = 0"
    unfolding vm_mem_def by (simp add: ent_put page_aligned_def zero_ent)
  then have n: "\<not> present (ent (pmem vm_demo) (page_dir_phys vm_demo) (pd_index 0xD0000000))" by (simp add: vm_pmem present_def)
  then have k: "\<not> present (kernel_entry 0xD0000000 vm_demo)" by (simp add: kernel_entry_def present_def)
  have "free_set vm_demo \<noteq> {}" unfolding vm_used by (auto intro: exI [of _ 20])
  then have "okb \<and> kernel_entry 0xD0000000 s' = (0x14000 AND PAGE_MASK) OR (3 AND 0xFFF) OR PTE_PRESENT \<and>
      mm_virt_to_phys 0xD0000000 s' = (0x14000 AND PAGE_MASK) + (0xD0000000 AND 0xFFF)"
    using map_page_translates [OF vm_frames vm_kernel _ m] n k by simp
  then show ?thesis using m by (simp add: PAGE_MASK_def PTE_PRESENT_def PDE_PRESENT_def)
qed

section \<open>A failed clone\<close>

lemma fold_used_mono:
  assumes "\<And>d u. used_set (f d u) \<subseteq> used_set u \<and> total_pages (f d u) = total_pages u"
  shows "used_set (fold f ds u) \<subseteq> used_set u \<and> total_pages (fold f ds u) = total_pages u"
proof (induction ds arbitrary: u)
  case (Cons d ds)
  show ?case using Cons.IH [of "f d u"] assms [of d u] by auto
qed simp

text \<open>When \<^verbatim>\<open>mm_clone_user_pd\<close> runs out of frames after the directory has been allocated, it frees the
  half-built directory with \<^verbatim>\<open>mm_free_user_pd\<close>.  Its slots still hold the parent's entries, so the
  parent's own page tables are freed while the parent keeps using them.\<close>

theorem failed_clone_frees_parent_table:
  assumes vm: "vm_ok s D" and kd: "kernel_dir_ok s" and src: "src \<in> D" and tr: "tramp \<noteq> 0"
    and one: "card (free_set s) = 1" and pr: "present (ent (pmem s) src 32)"
    and refs: "frame_refs s (frame (ent (pmem s) src 32)) = 1"
  shows "\<exists>s'. mm_clone_user_pd src tramp s = (0, s') \<and> frame (ent (pmem s) src 32) \<in> free_set s'"
proof -
  note ok = vm_okD(2,1) [OF vm]
  let ?f = "frame (ent (pmem s) src 32)"
  have d: "32 \<in> set user_pdes" "user_pdes = [32, 33, 34]"
    by (simp_all add: user_pdes_def user_window u32_range_def upt_conv_Cons del: set_u32_range)
  have src0: "src \<noteq> 0" "page_aligned src" using dirs_okD(1,2) [OF ok(1) src] by auto
  have fu: "?f \<in> used_set s" using dirs_okD(5) [OF ok(1) src d(1) pr] by simp
  from ok(2) show ?thesis
  proof (cases rule: alloc_page_cases)
    case fail
    with one show ?thesis by simp
  next
    case (ok p s1)
    have nofree: "free_set s1 = {}" using ok(4,5) one by (auto simp: card_Suc_eq)
    let ?t = "copy_table p src s1"
    have ps: "p \<noteq> src" using ok(14) dirs_okD(4) [OF vm_okD(2) [OF vm] src] by auto
    have t: "frames_inv ?t" "free_set ?t = {}" "page_dir_phys ?t = page_dir_phys s" "total_pages ?t = total_pages s"
      "frame_refs ?t = (frame_refs s)(frame p := 1)" "used_set ?t = insert (frame p) (used_set s)"
      using ok(6,7,9,11,13) nofree by (simp_all, subst copy_table_frame, simp)
    have e: "ent (pmem ?t) p 32 = ent (pmem s) src 32" "ent (pmem ?t) src 32 = ent (pmem s) src 32"
      using copy_table_ent [OF ok(3) src0(2) ps ok(3), of 32 s1] copy_table_ent [OF ok(3) src0(2) ps src0(2), of 32 s1]
        ps ok(8) by simp_all
    have "mm_alloc_page ?t = (0, ?t)"
      using t(1,2) by (simp add: mm_alloc_page_none frames_inv_def)
    then have cl: "clone_tables src p user_pdes ?t = (False, ?t)"
      using pr e(2) by (simp add: d(2) present_def)
    have pk: "p \<noteq> page_dir_phys s" using kd ok(14) by (auto simp: kernel_dir_ok_def)
    let ?step = "\<lambda>d s. if ent (pmem s) p d AND PDE_PRESENT \<noteq> 0
        then mm_free_page (ent (pmem s) p d AND PAGE_MASK) s else s"
    have mono: "used_set (fold ?step ds u) \<subseteq> used_set u \<and> total_pages (fold ?step ds u) = total_pages u" for ds u
      by (rule fold_used_mono) (auto simp: mm_free_page_unref used_set_unref)
    have "?f \<noteq> frame p" using fu ok(14) by auto
    then have gone: "?f \<notin> used_set (?step 32 ?t)" "total_pages (?step 32 ?t) = total_pages s"
      using pr e(1) refs t(4,5) by (simp_all add: present_def mm_free_page_unref used_set_unref)
    let ?u = "mm_free_user_pd p ?t"
    have u: "?u = page_unref (frame p) (fold ?step [33, 34] (?step 32 ?t))"
      using ok(2) pk t(3) by (simp add: mm_free_user_pd_def d(2) mm_free_page_unref)
    have "?f \<notin> used_set ?u" "total_pages ?u = total_pages s"
      unfolding u using mono [of "[33, 34]" "?step 32 ?t"] gone by (auto simp: used_set_unref)
    moreover have "?f < total_pages s" using fu by (simp add: used_set_def)
    ultimately have "?f \<in> free_set ?u" by (auto simp: used_set_def free_set_def)
    moreover have "mm_clone_user_pd src tramp s = (0, ?u)"
      using src0(1) tr ok(1,2) cl by (simp add: mm_clone_user_pd_def Let_def)
    ultimately show ?thesis by blast
  qed
qed

end
