(* ===== verification/Boot.thy ===== *)
theory Boot
  imports Spaces "HOL-Library.Monad_Syntax"
begin

text \<open>
  Boot-time memory setup: the Multiboot module table of \<^verbatim>\<open>src/module.c\<close> and \<^verbatim>\<open>mm_init\<close> with
  \<^verbatim>\<open>mm_enable_paging\<close> of \<^verbatim>\<open>src/mm.c\<close>.  The loader's structures are read from physical memory at
  the offsets of \<^verbatim>\<open>include/multiboot.h\<close>.  The walk over the memory map advances by a size field
  of the table and need not end for a corrupt one, so it is a \<open>partial_function\<close>; for a
  well-formed table it visits the entries once.  The main facts are that only usable RAM above
  the kernel becomes free and that all RAM is identity-mapped, with an alias at 3 GiB.
\<close>

declare drop_bit_and [simp del] drop_bit_or [simp del]

section \<open>Multiboot structures\<close>

definition MULTIBOOT_FLAG_MEM :: u32 where "MULTIBOOT_FLAG_MEM = 0x00000001"
definition MULTIBOOT_FLAG_MODS :: u32 where "MULTIBOOT_FLAG_MODS = 0x00000008"
definition MULTIBOOT_FLAG_MMAP :: u32 where "MULTIBOOT_FLAG_MMAP = 0x00000040"

definition load64 :: "memory \<Rightarrow> u32 \<Rightarrow> u64" where
  "load64 m a = ucast (load32 m a) OR push_bit 32 (ucast (load32 m (a + 4)))"

definition mb_flags :: "memory \<Rightarrow> u32 \<Rightarrow> u32" where "mb_flags m mb = load32 m mb"
definition mb_mem_upper :: "memory \<Rightarrow> u32 \<Rightarrow> u32" where "mb_mem_upper m mb = load32 m (mb + 8)"
definition mb_mods_count :: "memory \<Rightarrow> u32 \<Rightarrow> u32" where "mb_mods_count m mb = load32 m (mb + 20)"
definition mb_mods_addr :: "memory \<Rightarrow> u32 \<Rightarrow> u32" where "mb_mods_addr m mb = load32 m (mb + 24)"
definition mb_mmap_length :: "memory \<Rightarrow> u32 \<Rightarrow> u32" where "mb_mmap_length m mb = load32 m (mb + 44)"
definition mb_mmap_addr :: "memory \<Rightarrow> u32 \<Rightarrow> u32" where "mb_mmap_addr m mb = load32 m (mb + 48)"

definition e_size :: "memory \<Rightarrow> u32 \<Rightarrow> u32" where "e_size m p = load32 m p"
definition e_base :: "memory \<Rightarrow> u32 \<Rightarrow> u64" where "e_base m p = load64 m (p + 4)"
definition e_length :: "memory \<Rightarrow> u32 \<Rightarrow> u64" where "e_length m p = load64 m (p + 12)"
definition e_type :: "memory \<Rightarrow> u32 \<Rightarrow> u32" where "e_type m p = load32 m (p + 20)"

definition has_flag :: "memory \<Rightarrow> u32 \<Rightarrow> u32 \<Rightarrow> bool" where
  "has_flag m mb flag \<longleftrightarrow> mb \<noteq> NULL \<and> mb_flags m mb AND flag \<noteq> 0"

section \<open>Modules\<close>

record module_t =
  m_start :: u32
  m_end :: u32
  m_name :: "u8 list"

record module_state =
  modules :: "module_t list"
  module_count :: u32

definition MODULE_MAX :: u32 where "MODULE_MAX = 8"

text \<open>The bytes at an address, as many as a bounded string operation may read.\<close>

definition bytes_at :: "memory \<Rightarrow> u32 \<Rightarrow> nat \<Rightarrow> u8 list" where
  "bytes_at m a n = map (\<lambda>i. m (a + word_of_nat i)) [0..<n]"

text \<open>\<^verbatim>\<open>name\<close> is a 64-byte array: byte 0 is cleared, or a bounded copy overwrites the first 63
  bytes and byte 63 is cleared.\<close>

definition copy_module_name :: "memory \<Rightarrow> u32 \<Rightarrow> u8 list \<Rightarrow> u8 list" where
  "copy_module_name m str old =
     (let name = old[0 := 0]
      in if str = 0 then name
         else case strncpy (bytes_at m str 63) 63 of
                Some bs \<Rightarrow> (bs @ drop 63 name)[63 := 0]
              | None \<Rightarrow> name)"

definition add_module :: "memory \<Rightarrow> u32 \<Rightarrow> u32 \<Rightarrow> module_state \<Rightarrow> module_state" where
  "add_module m raw i st =
     (let r = raw + 16 * i; s = load32 m r; e = load32 m (r + 4)
      in if e \<le> s then st
         else
           let k = unat (module_count st); old = modules st ! k
           in st\<lparr>modules := (modules st)[k := \<lparr>m_start = s, m_end = e,
                    m_name = copy_module_name m (load32 m (r + 8)) (m_name old)\<rparr>],
                 module_count := module_count st + 1\<rparr>)"

definition modules_init :: "memory \<Rightarrow> u32 \<Rightarrow> module_state \<Rightarrow> module_state" where
  "modules_init m mb st =
     (let st = st\<lparr>module_count := 0\<rparr>
      in if \<not> has_flag m mb MULTIBOOT_FLAG_MODS \<or> mb_mods_count m mb = 0 \<or> mb_mods_addr m mb = 0
         then st
         else fold (add_module m (mb_mods_addr m mb)) (u32_range 0 (min (mb_mods_count m mb) MODULE_MAX)) st)"

definition modules_count :: "module_state \<Rightarrow> u32" where
  "modules_count st = module_count st"

definition modules_get :: "module_state \<Rightarrow> u32 \<Rightarrow> (u32 \<times> u32) option" where
  "modules_get st index =
     (if index \<ge> module_count st then None
      else Some (m_start (modules st ! unat index), m_end (modules st ! unat index)))"

definition modules_name :: "module_state \<Rightarrow> u32 \<Rightarrow> u8 list option" where
  "modules_name st index =
     (if index \<ge> module_count st then None
      else let name = m_name (modules st ! unat index)
           in if name ! 0 = 0 then None else Some (cstr name))"

section \<open>The memory map\<close>

definition MM_MAX_RAM_MB :: u64 where "MM_MAX_RAM_MB = 1024"
definition ram_cap :: u64 where "ram_cap = MM_MAX_RAM_MB * 1024 * 1024"
definition MM_USER_WINDOW_START :: u32 where "MM_USER_WINDOW_START = 0x08000000"
definition MM_USER_WINDOW_END :: u32 where "MM_USER_WINDOW_END = (USER_END + 0x3FFFFF) AND NOT 0x3FFFFF"
definition KERNEL_VBASE :: u32 where "KERNEL_VBASE = 0xC0000000"

text \<open>The loop \<^verbatim>\<open>while (p + 4 <= end) { ...; p += e->size + 4; }\<close>.\<close>

partial_function (option) mmap_walk ::
  "memory \<Rightarrow> (u32 \<Rightarrow> 's \<Rightarrow> 's) \<Rightarrow> u32 \<Rightarrow> u32 \<Rightarrow> 's \<Rightarrow> 's option" where
  "mmap_walk m f stop p s =
     (if p + 4 \<le> stop then mmap_walk m f stop (p + (e_size m p + 4)) (f p s) else Some s)"

definition entry_end :: "memory \<Rightarrow> u32 \<Rightarrow> u64" where
  "entry_end m p =
     (let e_end = e_base m p + e_length m p in if e_end > ram_cap then ram_cap else e_end)"

definition top_entry :: "memory \<Rightarrow> u32 \<Rightarrow> u64 \<times> u32 \<Rightarrow> u64 \<times> u32" where
  "top_entry m p = (\<lambda>(ram_top, count).
     if e_type m p = 1
     then (if e_base m p < ram_cap \<and> entry_end m p > ram_top then entry_end m p else ram_top, count + 1)
     else (ram_top, count))"

definition walk_mmap :: "memory \<Rightarrow> u32 \<Rightarrow> (u32 \<Rightarrow> 's \<Rightarrow> 's) \<Rightarrow> 's \<Rightarrow> 's option" where
  "walk_mmap m mb f s =
     (if has_flag m mb MULTIBOOT_FLAG_MMAP
      then mmap_walk m f (mb_mmap_addr m mb + mb_mmap_length m mb) (mb_mmap_addr m mb) s
      else Some s)"

definition default_top :: "memory \<Rightarrow> u32 \<Rightarrow> u64" where
  "default_top m mb =
     (let kb = if has_flag m mb MULTIBOOT_FLAG_MEM then mb_mem_upper m mb else 0;
          kb = if kb = 0 then 32768 else kb;
          ram_top = ((ucast kb :: u64) + 1024) * 1024
      in if ram_top > ram_cap then ram_cap else ram_top)"

definition free_frames :: "u32 \<Rightarrow> u32 \<Rightarrow> 'a mm_state_scheme \<Rightarrow> 'a mm_state_scheme" where
  "free_frames lo hi s =
     fold (\<lambda>f s. (bitmap_clear f s)\<lparr>free_pages := free_pages s + 1\<rparr>) (u32_range lo hi) s"

definition free_entry :: "memory \<Rightarrow> u32 \<Rightarrow> u32 \<Rightarrow> 'a mm_state_scheme \<Rightarrow> 'a mm_state_scheme" where
  "free_entry m reserved_pages p s =
     (if e_type m p = 1
      then
        let first = ucast ((e_base m p + 4096 - 1) div 4096);
            last = ucast (entry_end m p div 4096);
            first = if first < reserved_pages then reserved_pages else first;
            last = if last > total_pages s then total_pages s else last
        in free_frames first last s
      else s)"

section \<open>Bootstrapping the page tables\<close>

fun identity_map :: "u32 list \<Rightarrow> 'a mm_state_scheme \<Rightarrow> bool \<times> 'a mm_state_scheme" where
  "identity_map [] s = (True, s)"
| "identity_map (pfn # pfns) s =
     (let pd = page_dir_phys s;
          pde = drop_bit 10 pfn;
          (ok, s) = (if ent (pmem s) pd pde AND PDE_PRESENT = 0
                     then new_table pd pde PAGE_KERNEL s else (True, s))
      in if \<not> ok then (False, s)
         else identity_map pfns
           (set_ent (ent (pmem s) pd pde AND PAGE_MASK) (pfn AND 0x3FF) ((pfn * PAGE_SIZE) OR PAGE_KERNEL) s))"

definition alias_pde :: "u32 \<Rightarrow> 'a mm_state_scheme \<Rightarrow> 'a mm_state_scheme" where
  "alias_pde pde s =
     (let e = ent (pmem s) (page_dir_phys s) pde
      in if e AND PDE_PRESENT = 0 then s
         else set_ent (page_dir_phys s) (drop_bit 22 KERNEL_VBASE OR pde) e s)"

definition reserve_modules :: "module_state \<Rightarrow> 'a mm_state_scheme \<Rightarrow> 'a mm_state_scheme" where
  "reserve_modules mods s =
     fold (\<lambda>i s. case modules_get mods i of
             Some (a, b) \<Rightarrow> snd (mm_reserve_range a b s)
           | None \<Rightarrow> s) (u32_range 0 (modules_count mods)) s"

definition all_used :: "'a mm_state_scheme \<Rightarrow> 'a mm_state_scheme" where
  "all_used s = fold (\<lambda>i s. s\<lparr>bitmap := (bitmap s)(i := 0xFFFFFFFF)\<rparr>) (u32_range 0 (bitmap_words s)) s"

text \<open>The page directory and the mappings: the part of \<^verbatim>\<open>mm_init\<close> after the frame bitmap is set up.\<close>

definition init_paging :: "'a mm_state_scheme \<Rightarrow> 'a mm_state_scheme" where
  "init_paging s =
     (case mm_alloc_page s of (pd, s) \<Rightarrow>
        if pd = NULL then s
        else
          let s = zero_table pd (s\<lparr>page_dir_phys := pd\<rparr>);
              (ok, s) = identity_map (u32_range 0 (total_pages s)) s
          in if \<not> ok then s else fold alias_pde (u32_range 0 256) s)"

definition mm_init ::
  "u32 \<Rightarrow> u32 \<Rightarrow> module_state \<Rightarrow> 'a mm_state_scheme \<Rightarrow> 'a mm_state_scheme option" where
  "mm_init mb kernel_end mods s =
     do {
       let m = pmem s;
       let s = (if has_flag m mb MULTIBOOT_FLAG_MEM then s\<lparr>reported_mem_upper_kb := mb_mem_upper m mb\<rparr> else s);
       (ram_top, count) \<leftarrow> walk_mmap m mb (top_entry m) (0, mmap_region_count s);
       let s = s\<lparr>mmap_region_count := count\<rparr>;
       let ram_top = (if ram_top = 0 then default_top m mb else ram_top);
       let s = s\<lparr>total_pages := ucast (ram_top div 4096)\<rparr>;
       let reserved_pages = (kernel_end + PAGE_SIZE - 1) div PAGE_SIZE;
       let s = (all_used s)\<lparr>free_pages := 0\<rparr>;
       s \<leftarrow> (if has_flag m mb MULTIBOOT_FLAG_MMAP
             then walk_mmap m mb (free_entry m reserved_pages) s
             else Some (free_frames reserved_pages (total_pages s) s));
       let s = reserve_modules mods s;
       let s = snd (mm_reserve_range MM_USER_WINDOW_START MM_USER_WINDOW_END s);
       Some (init_paging s)
     }"

text \<open>\<^verbatim>\<open>CR0\<close>, \<^verbatim>\<open>CR3\<close> and \<^verbatim>\<open>CR4\<close> are returned; \<open>cpuid\<close> gives \<^verbatim>\<open>EAX\<close> of leaf 0 and \<^verbatim>\<open>EBX\<close> of leaf 7.\<close>

definition mm_enable_paging ::
  "u32 \<Rightarrow> u32 \<Rightarrow> u32 \<times> u32 \<Rightarrow> 'a mm_state_scheme \<Rightarrow> (u32 \<times> u32) \<times> 'a mm_state_scheme" where
  "mm_enable_paging max_leaf ebx7 = (\<lambda>(cr0, cr4) s.
     ((cr0 OR 0x80000000 OR 0x00010000,
       if max_leaf \<ge> 7 \<and> ebx7 AND push_bit 7 1 \<noteq> 0 then cr4 OR push_bit 20 1 else cr4),
      s\<lparr>cr3 := page_dir_phys s\<rparr>))"

section \<open>Walking the memory map\<close>

text \<open>The addresses of the entries the walk visits.\<close>

fun mmap_table :: "memory \<Rightarrow> u32 \<Rightarrow> u32 \<Rightarrow> u32 list \<Rightarrow> bool" where
  "mmap_table m stop p [] \<longleftrightarrow> \<not> p + 4 \<le> stop"
| "mmap_table m stop p (q # qs) \<longleftrightarrow> q = p \<and> p + 4 \<le> stop \<and> mmap_table m stop (p + (e_size m p + 4)) qs"

lemma mmap_walk_fold:
  "mmap_table m stop p ps \<Longrightarrow> mmap_walk m f stop p s = Some (fold f ps s)"
proof (induction ps arbitrary: p s)
  case Nil
  then show ?case by (subst mmap_walk.simps) simp
next
  case (Cons q qs)
  then show ?case by (subst mmap_walk.simps) simp
qed

text \<open>A table whose size fields stay below the end of the address space is finite.\<close>

lemma mmap_table_exists:
  assumes "\<forall>q. unat q + 4 \<le> unat stop \<longrightarrow> unat q + unat (e_size m q) + 8 < 4294967296"
    and "unat p + 4 < 4294967296"
  shows "\<exists>ps. mmap_table m stop p ps"
  using assms(2)
proof (induction "4294967296 - unat p" arbitrary: p rule: less_induct)
  case less
  have p4: "unat (p + 4) = unat p + 4" using unat_add_small [of p 4] less.prems by simp
  show ?case
  proof (cases "p + 4 \<le> stop")
    case False
    then have "mmap_table m stop p []" by simp
    then show ?thesis ..
  next
    case True
    then have b: "unat p + unat (e_size m p) + 8 < 4294967296" using assms(1) p4 by (simp add: word_le_nat_alt)
    have e: "unat (e_size m p + 4) = unat (e_size m p) + 4" using unat_add_small [of "e_size m p" 4] b by simp
    have n: "unat (p + (e_size m p + 4)) = unat p + unat (e_size m p) + 4"
      using unat_add_small [of p "e_size m p + 4"] b e by simp
    have "\<exists>ps. mmap_table m stop (p + (e_size m p + 4)) ps"
      by (rule less.hyps) (use n b in linarith)+
    with True show ?thesis by (metis mmap_table.simps(2))
  qed
qed

section \<open>The frames that become free\<close>

definition usable :: "memory \<Rightarrow> u32 \<Rightarrow> u32 \<Rightarrow> bool" where
  "usable m p f \<longleftrightarrow> e_type m p = 1 \<and> unat (e_base m p) \<le> 4096 * unat f \<and>
     4096 * unat f + 4096 \<le> unat (e_base m p) + unat (e_length m p)"

text \<open>Regions end below 16 TiB, so that no 64-bit sum wraps and frame numbers fit 32 bits, and the
  usable ones do not overlap.\<close>

definition region_ok :: "memory \<Rightarrow> u32 \<Rightarrow> bool" where
  "region_ok m p \<longleftrightarrow> unat (e_base m p) + unat (e_length m p) < 2 ^ 43"

definition apart_regions :: "memory \<Rightarrow> u32 \<Rightarrow> u32 \<Rightarrow> bool" where
  "apart_regions m p q \<longleftrightarrow> e_type m p \<noteq> 1 \<or> e_type m q \<noteq> 1 \<or>
     unat (e_base m p) + unat (e_length m p) \<le> unat (e_base m q) \<or>
     unat (e_base m q) + unat (e_length m q) \<le> unat (e_base m p)"

lemma unat_u64_add: "unat (a::u64) + unat b < 2 ^ 64 \<Longrightarrow> unat (a + b) = unat a + unat b"
  by (simp add: unat_word_ariths)

lemma unat_ram_cap: "unat ram_cap = 2 ^ 30"
  by (simp add: ram_cap_def MM_MAX_RAM_MB_def)

lemma unat_entry_end:
  assumes "region_ok m p"
  shows "unat (entry_end m p) = min (2 ^ 30) (unat (e_base m p) + unat (e_length m p))"
  using unat_u64_add [of "e_base m p" "e_length m p"] assms unat_ram_cap
  by (simp add: entry_end_def region_ok_def Let_def word_less_nat_alt)

lemma unat_ucast_u32: "unat (x::u64) < 4294967296 \<Longrightarrow> unat (ucast x :: u32) = unat x"
  by (simp add: unsigned_ucast_eq take_bit_nat_eq_self)

definition entry_frames :: "memory \<Rightarrow> u32 \<Rightarrow> u32 \<Rightarrow> u32 \<Rightarrow> u32 set" where
  "entry_frames m reserved tot p = {f. usable m p f \<and> reserved \<le> f \<and> f < tot}"

lemma entry_frames_range:
  assumes "region_ok m p" and "e_type m p = 1" and "unat tot \<le> 262144"
  defines "first \<equiv> (ucast ((e_base m p + 4096 - 1) div 4096) :: u32)"
    and "final \<equiv> (ucast (entry_end m p div 4096) :: u32)"
  shows "{f. (if first < reserved then reserved else first) \<le> f \<and> f < (if final > tot then tot else final)} =
    entry_frames m reserved tot p"
proof -
  let ?b = "unat (e_base m p)" and ?l = "unat (e_length m p)"
  have bl: "?b + ?l < 8796093022208" using assms(1) by (simp add: region_ok_def)
  have "unat (4095 + e_base m p) = ?b + 4095" using unat_u64_add [of 4095 "e_base m p"] bl by simp
  then have d: "unat ((e_base m p + 4096 - 1) div 4096) = (?b + 4095) div 4096" by (simp add: unat_div)
  have first: "unat first = (?b + 4095) div 4096"
    unfolding first_def d [symmetric] by (rule unat_ucast_u32) (use d bl in linarith)
  have e: "unat (entry_end m p div 4096) = min 1073741824 (?b + ?l) div 4096"
    using unat_entry_end [OF assms(1)] by (simp add: unat_div)
  have final: "unat final = min 1073741824 (?b + ?l) div 4096"
    unfolding final_def e [symmetric] by (rule unat_ucast_u32) (use e in simp)
  have "unat first \<le> unat f \<longleftrightarrow> ?b \<le> 4096 * unat f" for f unfolding first by linarith
  moreover have "unat f < unat final \<and> unat f < unat tot \<longleftrightarrow>
      4096 * unat f + 4096 \<le> ?b + ?l \<and> unat f < unat tot" for f
    unfolding final using assms(3) by linarith
  moreover have "(if first < reserved then reserved else first) \<le> f \<and> f < (if final > tot then tot else final) \<longleftrightarrow>
      (unat first \<le> unat f \<and> unat reserved \<le> unat f) \<and> unat f < unat final \<and> unat f < unat tot" for f
    by (auto simp: word_less_nat_alt word_le_nat_alt)
  ultimately show ?thesis
    using assms(2) by (auto simp: entry_frames_def usable_def word_less_nat_alt word_le_nat_alt)
qed

lemma free_loop:
  assumes "\<forall>f \<in> set xs. f < total_pages s" and "distinct xs" and "set xs \<inter> free_set s = {}" and "mm_inv s"
  defines "s' \<equiv> fold (\<lambda>f s. (bitmap_clear f s)\<lparr>free_pages := free_pages s + 1\<rparr>) xs s"
  shows "mm_inv s' \<and> free_set s' = set xs \<union> free_set s \<and> total_pages s' = total_pages s \<and> pmem s' = pmem s \<and>
    (\<forall>f. bitmap_test f s' \<longleftrightarrow> bitmap_test f s \<and> f \<notin> set xs)"
  unfolding s'_def using assms(1-4)
proof (induction xs arbitrary: s)
  case (Cons f xs)
  let ?s = "(bitmap_clear f s)\<lparr>free_pages := free_pages s + 1\<rparr>"
  have f: "f < total_pages s" using Cons.prems(1) by simp
  have fs: "free_set ?s = insert f (free_set s)" using free_set_bitmap_clear [OF f] by simp
  have c: "unat (free_pages s) = card (free_set s)" "unat (total_pages s) \<le> 262144"
    using Cons.prems(4) mm_inv_total by (auto simp: mm_inv_def)
  then have "unat (free_pages s + 1) = Suc (card (free_set s))"
    using unat_add_small [of "free_pages s" 1] card_free_le [of s] by simp
  then have inv: "mm_inv ?s" using Cons.prems(3,4) f by (auto simp: mm_inv_def free_set_bitmap_clear)
  have "set xs \<inter> free_set ?s = {}" using Cons.prems(2,3) fs by auto
  from Cons.IH [OF _ _ this inv] Cons.prems(1,2) fs show ?case by (auto)
qed simp

lemma free_entry_spec:
  assumes "region_ok m p" and "mm_inv s" and "entry_frames m reserved (total_pages s) p \<inter> free_set s = {}"
  defines "s' \<equiv> free_entry m reserved p s"
  shows "mm_inv s' \<and> free_set s' = entry_frames m reserved (total_pages s) p \<union> free_set s \<and>
    total_pages s' = total_pages s \<and> pmem s' = pmem s \<and>
    (\<forall>f. bitmap_test f s' \<longleftrightarrow> bitmap_test f s \<and> f \<notin> entry_frames m reserved (total_pages s) p)"
proof (cases "e_type m p = 1")
  case True
  let ?first = "ucast ((e_base m p + 4096 - 1) div 4096) :: u32"
  let ?last = "ucast (entry_end m p div 4096) :: u32"
  define lo where "lo = (if ?first < reserved then reserved else ?first)"
  define hi where "hi = (if ?last > total_pages s then total_pages s else ?last)"
  have r: "set (u32_range lo hi) = entry_frames m reserved (total_pages s) p"
    using entry_frames_range [OF assms(1) True mm_inv_total [OF assms(2)], of reserved] by (simp add: lo_def hi_def)
  have "s' = free_frames lo hi s" unfolding s'_def free_entry_def lo_def hi_def using True by (simp add: Let_def)
  then show ?thesis
    using free_loop [of "u32_range lo hi" s] assms(2,3) r
    by (simp add: free_frames_def entry_frames_def del: set_u32_range)
next
  case False
  then show ?thesis using assms(2) by (simp add: s'_def free_entry_def entry_frames_def usable_def)
qed

lemma apart_regions_frames:
  "apart_regions m p q \<Longrightarrow> entry_frames m r t p \<inter> entry_frames m r t q = {}"
  by (auto simp: apart_regions_def entry_frames_def usable_def)

lemma free_entries_spec:
  assumes "\<forall>p \<in> set ps. region_ok m p" and "sorted_wrt (apart_regions m) ps" and "mm_inv s"
    and "\<forall>p \<in> set ps. entry_frames m reserved (total_pages s) p \<inter> free_set s = {}"
  defines "s' \<equiv> fold (free_entry m reserved) ps s"
  shows "mm_inv s' \<and> free_set s' = (\<Union>p \<in> set ps. entry_frames m reserved (total_pages s) p) \<union> free_set s \<and>
    total_pages s' = total_pages s \<and> pmem s' = pmem s \<and>
    (\<forall>f. bitmap_test f s' \<longleftrightarrow> bitmap_test f s \<and> f \<notin> (\<Union>p \<in> set ps. entry_frames m reserved (total_pages s) p))"
  unfolding s'_def using assms(1-4)
proof (induction ps arbitrary: s)
  case (Cons p ps)
  let ?s = "free_entry m reserved p s"
  have h: "mm_inv ?s" "free_set ?s = entry_frames m reserved (total_pages s) p \<union> free_set s"
    "total_pages ?s = total_pages s" "pmem ?s = pmem s"
    "\<forall>f. bitmap_test f ?s \<longleftrightarrow> bitmap_test f s \<and> f \<notin> entry_frames m reserved (total_pages s) p"
    using free_entry_spec [of m p s reserved] Cons.prems by auto
  have "\<forall>q \<in> set ps. entry_frames m reserved (total_pages ?s) q \<inter> free_set ?s = {}"
    using Cons.prems(2,4) h(2,3) apart_regions_frames [of m p _ reserved "total_pages s"] by fastforce
  from Cons.IH [OF _ _ h(1) this] Cons.prems(1,2) h(2-5) show ?case by auto
qed simp

section \<open>The top of RAM\<close>

lemma top_entries_bound:
  assumes "fst t \<le> ram_cap"
  shows "fst (fold (top_entry m) ps t) \<le> ram_cap"
  using assms
proof (induction ps arbitrary: t)
  case (Cons p ps)
  have "entry_end m p \<le> ram_cap" by (simp add: entry_end_def Let_def not_less)
  then have "fst (top_entry m p t) \<le> ram_cap" using Cons.prems by (auto simp: top_entry_def split: prod.splits)
  from Cons.IH [OF this] show ?case by simp
qed simp

lemma top_entry_mono: "fst t \<le> fst (top_entry m p t)"
  by (auto simp: top_entry_def split: prod.splits)

lemma top_entries_mono: "fst t \<le> fst (fold (top_entry m) ps t)"
proof (induction ps arbitrary: t)
  case (Cons p ps)
  from top_entry_mono [of t m p] Cons.IH [of "top_entry m p t"] show ?case by simp
qed simp

lemma top_entries_cover:
  assumes "p \<in> set ps" and "e_type m p = 1" and "e_base m p < ram_cap"
  shows "entry_end m p \<le> fst (fold (top_entry m) ps t)"
  using assms(1)
proof (induction ps arbitrary: t)
  case (Cons q ps)
  show ?case
  proof (cases "p = q")
    case True
    have "entry_end m p \<le> fst (top_entry m p t)" using assms(2,3) by (auto simp: top_entry_def split: prod.splits)
    also have "\<dots> \<le> fst (fold (top_entry m) ps (top_entry m p t))" by (rule top_entries_mono)
    finally show ?thesis using True by simp
  next
    case False
    with Cons show ?thesis by simp
  qed
qed simp

lemma default_top_bound: "default_top m mb \<le> ram_cap"
  by (simp add: default_top_def Let_def not_less)

lemma total_pages_bound:
  assumes "t \<le> ram_cap"
  shows "unat (ucast (t div 4096) :: u32) = unat t div 4096" and "unat (ucast (t div 4096) :: u32) \<le> 262144"
proof -
  have t: "unat t \<le> 1073741824" using assms unat_ram_cap by (simp add: word_le_nat_alt)
  then show "unat (ucast (t div 4096) :: u32) = unat t div 4096"
    using unat_ucast_u32 [of "t div 4096"] by (simp add: unat_div)
  with t show "unat (ucast (t div 4096) :: u32) \<le> 262144" by simp
qed

section \<open>The initial bitmap and the reservations\<close>

lemma all_used_loop:
  "fold (\<lambda>i s. s\<lparr>bitmap := (bitmap s)(i := v)\<rparr>) xs s =
     s\<lparr>bitmap := (\<lambda>i. if i \<in> set xs then v else bitmap s i)\<rparr>"
proof (induction xs arbitrary: s)
  case (Cons x xs)
  show ?case unfolding fold_simps comp_apply Cons.IH by (simp add: fun_eq_iff)
qed (simp add: fun_eq_iff)

lemma all_used_frame: "all_used s = s\<lparr>bitmap := bitmap (all_used s)\<rparr>"
  unfolding all_used_def all_used_loop by simp

lemma all_used_test:
  assumes "unat (total_pages s) \<le> 262144" and "f < total_pages s"
  shows "bitmap_test f (all_used s)"
proof -
  have b: "unat (total_pages s + 31) = unat (total_pages s) + 31"
    using unat_add_small [of "total_pages s" 31] assms(1) by simp
  have "unat (f div 32) < unat (bitmap_words s)"
    using assms(2) unfolding bitmap_words_def unat_div b by (simp add: word_less_nat_alt)
  then have "f div 32 \<in> set (u32_range 0 (bitmap_words s))" by (simp add: word_less_nat_alt)
  then have "bitmap (all_used s) (f div 32) = - 1" unfolding all_used_def all_used_loop by simp
  then show ?thesis using mod32_lt [of f] by (simp add: bitmap_test_bit)
qed

lemma all_used_inv:
  assumes "unat (total_pages s) \<le> 262144"
  defines "s' \<equiv> (all_used s)\<lparr>free_pages := 0\<rparr>"
  shows "mm_inv s'" and "free_set s' = {}" and "total_pages s' = total_pages s" and "pmem s' = pmem s"
    and "f < total_pages s \<Longrightarrow> bitmap_test f s'"
proof -
  show t: "total_pages s' = total_pages s" and "pmem s' = pmem s"
    unfolding s'_def by (subst all_used_frame, simp)+
  show b: "bitmap_test f s'" if "f < total_pages s" for f
    using all_used_test [OF assms(1) that] by (simp add: s'_def)
  then show e: "free_set s' = {}" using t by (auto simp: free_set_def)
  show "mm_inv s'" using t e assms(1) by (simp add: mm_inv_def MM_MAX_PAGES_def word_le_nat_alt s'_def)
qed

text \<open>Reservations only take frames away.\<close>

definition only_takes :: "'a mm_state_scheme \<Rightarrow> 'a mm_state_scheme \<Rightarrow> bool" where
  "only_takes s s' \<longleftrightarrow> (frames_inv s \<longrightarrow> frames_inv s') \<and> free_set s' \<subseteq> free_set s \<and>
     total_pages s' = total_pages s \<and> pmem s' = pmem s"

lemma only_takes_trans: "only_takes s t \<Longrightarrow> only_takes t u \<Longrightarrow> only_takes s u"
  by (auto simp: only_takes_def)

lemma only_takes_refl [simp]: "only_takes s s"
  by (simp add: only_takes_def)

lemma reserve_loop_fields:
  defines "f \<equiv> (\<lambda>f s. (bitmap_set f s)\<lparr>free_pages := free_pages s - 1\<rparr>)"
  shows "total_pages (fold f xs s) = total_pages s" and "pmem (fold f xs s) = pmem s"
  unfolding f_def by (induction xs arbitrary: s) auto

lemma only_takes_reserve: "only_takes s (snd (mm_reserve_range a b s))"
proof -
  have "total_pages (snd (mm_reserve_range a b s)) = total_pages s" "pmem (snd (mm_reserve_range a b s)) = pmem s"
    "bitmap_test g s \<Longrightarrow> bitmap_test g (snd (mm_reserve_range a b s))" for g
    by (auto simp: mm_reserve_range_def Let_def reserve_loop_fields reserve_loop)
  with mm_reserve_range_inv [of s a b] show ?thesis by (auto simp: only_takes_def frames_inv_def free_set_def)
qed

lemma only_takes_fold: "(\<And>x s. only_takes s (f x s)) \<Longrightarrow> only_takes s (fold f xs s)"
  by (induction xs arbitrary: s) (auto intro: only_takes_trans)

lemma only_takes_modules: "only_takes s (reserve_modules mods s)"
  unfolding reserve_modules_def
  by (rule only_takes_fold) (auto simp: only_takes_reserve split: option.splits prod.splits)

section \<open>The identity map\<close>

lemma kernel_entry:
  assumes "page_aligned p"
  shows "present (p OR PAGE_KERNEL)" and "(p OR PAGE_KERNEL) AND PAGE_MASK = p" and "frame (p OR PAGE_KERNEL) = frame p"
proof -
  have k: "bit PAGE_KERNEL n \<longleftrightarrow> n = 0 \<or> n = 1" for n
    by (simp only: PAGE_KERNEL_def bit_or_iff bit_PTE_PRESENT [unfolded PTE_PRESENT_def] bit_PTE_WRITABLE)
  show "present (p OR PAGE_KERNEL)" by (simp add: present_bit bit_or_iff k)
  show f: "frame (p OR PAGE_KERNEL) = frame p" by (rule bit_word_eqI) (simp add: bit_drop_bit_eq bit_or_iff k)
  then show "(p OR PAGE_KERNEL) AND PAGE_MASK = p"
    using page_aligned_eq [OF page_aligned_mask assms, of "p OR PAGE_KERNEL"] by simp
qed

text \<open>Directory slots \<open>P\<close> have tables and frames below \<open>n\<close> are mapped to themselves.\<close>

definition kmaps :: "'a mm_state_scheme \<Rightarrow> u32 set \<Rightarrow> nat \<Rightarrow> bool" where
  "kmaps s P n \<longleftrightarrow> frames_inv s \<and> kernel_dir_ok s \<and>
     (\<forall>d < 1024. present (ent (pmem s) (page_dir_phys s) d) \<longleftrightarrow> d \<in> P) \<and>
     (\<forall>d \<in> P. d < 1024 \<and> frame (ent (pmem s) (page_dir_phys s) d) \<in> used_set s - {frame (page_dir_phys s)}) \<and>
     (\<forall>d \<in> P. \<forall>d' \<in> P. frame (ent (pmem s) (page_dir_phys s) d) = frame (ent (pmem s) (page_dir_phys s) d') \<longrightarrow> d = d') \<and>
     (\<forall>f. unat f < n \<longrightarrow> drop_bit 10 f \<in> P \<and>
        ent (pmem s) (ent (pmem s) (page_dir_phys s) (drop_bit 10 f) AND PAGE_MASK) (f AND 0x3FF) =
          (f * PAGE_SIZE) OR PAGE_KERNEL)"

lemma kmapsD:
  assumes "kmaps s P n"
  shows "frames_inv s" and "kernel_dir_ok s"
    and "\<And>d. d < 1024 \<Longrightarrow> present (ent (pmem s) (page_dir_phys s) d) \<longleftrightarrow> d \<in> P"
    and "\<And>d. d \<in> P \<Longrightarrow> d < 1024"
    and "\<And>d. d \<in> P \<Longrightarrow> frame (ent (pmem s) (page_dir_phys s) d) \<in> used_set s"
    and "\<And>d. d \<in> P \<Longrightarrow> frame (ent (pmem s) (page_dir_phys s) d) \<noteq> frame (page_dir_phys s)"
    and "\<And>d d'. d \<in> P \<Longrightarrow> d' \<in> P \<Longrightarrow>
      frame (ent (pmem s) (page_dir_phys s) d) = frame (ent (pmem s) (page_dir_phys s) d') \<Longrightarrow> d = d'"
    and "\<And>f. unat f < n \<Longrightarrow> drop_bit 10 f \<in> P"
    and "\<And>f. unat f < n \<Longrightarrow>
      ent (pmem s) (ent (pmem s) (page_dir_phys s) (drop_bit 10 f) AND PAGE_MASK) (f AND 0x3FF) =
        (f * PAGE_SIZE) OR PAGE_KERNEL"
  using assms unfolding kmaps_def by blast+

lemma kmaps_map_frame:
  assumes k: "kmaps s P (unat pfn)" and d: "drop_bit 10 pfn \<in> P"
  shows "kmaps (set_ent (ent (pmem s) (page_dir_phys s) (drop_bit 10 pfn) AND PAGE_MASK) (pfn AND 0x3FF)
    ((pfn * PAGE_SIZE) OR PAGE_KERNEL) s) P (Suc (unat pfn))"
proof -
  note K = kmapsD [OF k]
  let ?pd = "page_dir_phys s"
  let ?pt = "\<lambda>d. ent (pmem s) ?pd d AND PAGE_MASK"
  let ?e = "(pfn * PAGE_SIZE) OR PAGE_KERNEL"
  let ?s = "set_ent (?pt (drop_bit 10 pfn)) (pfn AND 0x3FF) ?e s"
  have al: "page_aligned ?pd" using K(2) by (simp add: kernel_dir_ok_def)
  have ne: "?pt d \<noteq> ?pd" if "d \<in> P" for d using K(6) [OF that] frame_mask by metis
  have pde: "ent (pmem ?s) ?pd d' = ent (pmem s) ?pd d'" if "d' < 1024" for d'
    using ne [OF d] al that by (simp add: ent_set_ent pt_index_lt)
  have map: "drop_bit 10 f \<in> P \<and> ent (pmem ?s) (?pt (drop_bit 10 f)) (f AND 0x3FF) = (f * PAGE_SIZE) OR PAGE_KERNEL"
    if "unat f < Suc (unat pfn)" for f
  proof (cases "f = pfn")
    case True
    then show ?thesis using d by (simp add: ent_set_ent pt_index_lt)
  next
    case False
    then have f: "unat f < unat pfn" using that by (simp add: less_Suc_eq word_unat_eq_iff)
    have "\<not> (?pt (drop_bit 10 pfn) = ?pt (drop_bit 10 f) \<and> pfn AND 0x3FF = f AND 0x3FF)"
    proof
      assume "?pt (drop_bit 10 pfn) = ?pt (drop_bit 10 f) \<and> pfn AND 0x3FF = f AND 0x3FF"
      moreover then have "drop_bit 10 pfn = drop_bit 10 f" using K(7) [OF d K(8) [OF f]] by (metis frame_mask)
      ultimately show False using vpn_split [of pfn f] False by simp
    qed
    then show ?thesis using K(8,9) [OF f] by (auto simp: ent_set_ent pt_index_lt)
  qed
  have fi: "frames_inv ?s" "kernel_dir_ok ?s" "used_set ?s = used_set s"
    using K(1,2) by (simp_all add: set_ent_def frames_inv_def mm_inv_def kernel_dir_ok_def)
  have P: "d < 1024" if "d \<in> P" for d by (rule K(4) [OF that])
  show ?thesis
    unfolding kmaps_def using fi map K(3-7) by (simp add: pde P)
qed

lemma kmaps_new_table:
  assumes k: "kmaps s P n" and d: "d < 1024" "d \<notin> P" and n: "new_table (page_dir_phys s) d PAGE_KERNEL s = (okb, s')"
  shows "if okb then kmaps s' (insert d P) n \<and> page_dir_phys s' = page_dir_phys s \<and>
      total_pages s' = total_pages s \<and> free_set s' \<subseteq> free_set s
    else s' = s \<and> free_set s = {}"
proof -
  note K = kmapsD [OF k]
  let ?pd = "page_dir_phys s"
  have al: "page_aligned ?pd" "frame ?pd \<in> used_set s" using K(2) by (simp_all add: kernel_dir_ok_def)
  from K(1) show ?thesis
  proof (cases rule: alloc_page_cases)
    case fail
    with n show ?thesis by (simp add: new_table_def)
  next
    case (ok p s1)
    let ?t = "set_ent ?pd d (p OR PAGE_KERNEL) (zero_table p s1)"
    have s': "s' = ?t" "okb" using n ok(1,2) by (simp_all add: new_table_def)
    have pn: "p \<noteq> ?pd" using ok(14) al(2) by auto
    note ke = kernel_entry [OF ok(3)]
    have other: "ent (pmem ?t) q j = ent (pmem s) q j" if "page_aligned q" "q \<noteq> p" "q \<noteq> ?pd" "j < 1024" for q j
      using that al(1) ok(3,8) d(1) by (simp add: ent_set_ent zero_table_ent)
    have pde: "ent (pmem ?t) ?pd d' = (if d' = d then p OR PAGE_KERNEL else ent (pmem s) ?pd d')" if "d' < 1024" for d'
      using that al(1) pn ok(3,8) d(1) by (simp add: ent_set_ent zero_table_ent)
    define m where "m = pmem ?t"
    have "?t = (zero_table p s1)\<lparr>pmem := m\<rparr>" by (simp add: set_ent_def m_def)
    also have "\<dots> = s1\<lparr>pmem := m\<rparr>" by (subst zero_table_frame) simp
    finally have tm: "?t = s1\<lparr>pmem := m\<rparr>" .
    have t: "page_dir_phys ?t = ?pd" "total_pages ?t = total_pages s" "free_set ?t \<subseteq> free_set s"
      "used_set ?t = insert (frame p) (used_set s)" "frames_inv ?t"
      unfolding tm using ok(5,6,9,11,13) by (auto simp: frames_inv_def mm_inv_def)
    have kd: "kernel_dir_ok ?t" using t(1,4) al by (simp add: kernel_dir_ok_def)
    have fresh: "frame (ent (pmem s) ?pd d') \<noteq> frame p" if "d' \<in> P" for d' using K(5) [OF that] ok(14) by metis
    have old: "ent (pmem ?t) (ent (pmem s) ?pd d' AND PAGE_MASK) j = ent (pmem s) (ent (pmem s) ?pd d' AND PAGE_MASK) j"
      if "d' \<in> P" "j < 1024" for d' j
    proof (rule other)
      show "ent (pmem s) ?pd d' AND PAGE_MASK \<noteq> p" using fresh [OF that(1)] frame_mask by metis
      show "ent (pmem s) ?pd d' AND PAGE_MASK \<noteq> ?pd" using K(6) [OF that(1)] frame_mask by metis
    qed (use that in simp_all)
    have lt: "d' < 1024" "d' \<noteq> d" if "d' \<in> P" for d' using K(4) [OF that] that d(2) by auto
    have map: "drop_bit 10 f \<in> insert d P \<and> ent (pmem ?t) (ent (pmem ?t) ?pd (drop_bit 10 f) AND PAGE_MASK) (f AND 0x3FF) =
        (f * PAGE_SIZE) OR PAGE_KERNEL" if "unat f < n" for f
      using K(8,9) [OF that] lt [OF K(8) [OF that]] by (simp add: pde old pt_index_lt)
    have slots: "d' < 1024 \<and> frame (ent (pmem ?t) ?pd d') \<in> used_set ?t - {frame ?pd}" if "d' \<in> insert d P" for d'
      using that d(1) lt K(5,6) pn ke(3) t(4) ok(14) al(2) by (auto simp: pde)
    have inj: "d1 = d2" if "d1 \<in> insert d P" "d2 \<in> insert d P"
      "frame (ent (pmem ?t) ?pd d1) = frame (ent (pmem ?t) ?pd d2)" for d1 d2
      using that d(1) lt [of d1] lt [of d2] K(7) [of d1 d2] ke(3) fresh [of d1] fresh [of d2] by (auto simp: pde)
    have pr: "present (ent (pmem ?t) ?pd d') \<longleftrightarrow> d' \<in> insert d P" if "d' < 1024" for d'
      using pde [OF that] K(3) [OF that] ke(1) by auto
    have "kmaps ?t (insert d P) n"
      unfolding kmaps_def t(1)
      by (intro conjI allI ballI impI t(5) kd)
        (use pr slots map inj in \<open>(blast | metis)+\<close>)
    then show ?thesis using s' t by simp
  qed
qed

definition pdes_below :: "nat \<Rightarrow> u32 set" where
  "pdes_below n = {d. d < 1024 \<and> 1024 * unat d < n}"

lemma unat_pde: "unat (drop_bit 10 (f::u32)) = unat f div 1024"
  by (simp add: unat_drop_bit_eq drop_bit_eq_div unat_div)

lemma pdes_below_Suc:
  assumes "unat f < 262144"
  shows "pdes_below (Suc (unat f)) = insert (drop_bit 10 f) (pdes_below (unat f))"
proof -
  have "1024 * unat d < Suc (unat f) \<longleftrightarrow> 1024 * unat d < unat f \<or> d = drop_bit 10 f" if "unat d < 1024" for d :: u32
    unfolding word_unat_eq_iff unat_pde
  proof (cases "1024 * unat d = unat f")
    case False
    moreover have "1024 * unat d < unat f" if "unat d = unat f div 1024" using that False by simp
    ultimately show "1024 * unat d < Suc (unat f) \<longleftrightarrow> 1024 * unat d < unat f \<or> unat d = unat f div 1024" by auto
  qed auto
  moreover have "drop_bit 10 f < (1024::u32)" using assms by (simp add: word_less_nat_alt unat_pde)
  ultimately show ?thesis by (auto simp: pdes_below_def word_less_nat_alt)
qed

lemma identity_map_step:
  assumes k: "kmaps s (pdes_below (unat f)) (unat f)" and f: "unat f < 262144"
    and i: "identity_map [f] s = (okb, s')"
  shows "if okb then kmaps s' (pdes_below (Suc (unat f))) (Suc (unat f)) \<and> page_dir_phys s' = page_dir_phys s \<and>
      total_pages s' = total_pages s \<and> free_set s' \<subseteq> free_set s
    else s' = s \<and> free_set s = {}"
proof -
  let ?P = "pdes_below (unat f)" and ?d = "drop_bit 10 f" and ?pd = "page_dir_phys s"
  have d: "?d < 1024" using f by (simp add: word_less_nat_alt unat_pde)
  have pres: "present (ent (pmem s) ?pd ?d) \<longleftrightarrow> ?d \<in> ?P" by (rule kmapsD(3) [OF k d])
  let ?set = "\<lambda>s. set_ent (ent (pmem s) (page_dir_phys s) ?d AND PAGE_MASK) (f AND 0x3FF) ((f * PAGE_SIZE) OR PAGE_KERNEL) s"
  show ?thesis
  proof (cases "?d \<in> ?P")
    case True
    then have "okb" "s' = ?set s" using i pres by (simp_all add: present_def)
    moreover have "kmaps (?set s) (insert ?d ?P) (Suc (unat f))"
      using kmaps_map_frame [OF k True] True by (simp add: insert_absorb)
    ultimately show ?thesis by (simp add: pdes_below_Suc [OF f])
  next
    case False
    obtain ok1 s1 where n: "new_table ?pd ?d PAGE_KERNEL s = (ok1, s1)" by force
    note t = kmaps_new_table [OF k d False n]
    show ?thesis
    proof (cases ok1)
      case True
      then have t: "kmaps s1 (insert ?d ?P) (unat f)" "page_dir_phys s1 = ?pd" "total_pages s1 = total_pages s"
        "free_set s1 \<subseteq> free_set s" using t by simp_all
      have "okb" "s' = ?set s1" using i pres False n True t(2) by (simp_all add: present_def)
      then show ?thesis using kmaps_map_frame [OF t(1)] t(2-4) by (simp add: pdes_below_Suc [OF f])
    next
      case nok: False
      with t i pres False n show ?thesis by (auto simp: present_def)
    qed
  qed
qed

lemma identity_map_Cons:
  "identity_map (f # fs) s = (case identity_map [f] s of (okb, s) \<Rightarrow> if okb then identity_map fs s else (False, s))"
  by (simp add: Let_def split: prod.split)

lemma identity_map_loop:
  assumes "kmaps s (pdes_below n) n" and "n \<le> unat (total_pages s)" and "unat (total_pages s) \<le> 262144"
    and "identity_map (u32_range (word_of_nat n) (total_pages s)) s = (okb, s')"
  shows "frames_inv s' \<and> total_pages s' = total_pages s \<and> free_set s' \<subseteq> free_set s \<and>
    (if okb then kmaps s' (pdes_below (unat (total_pages s))) (unat (total_pages s)) else free_set s' = {})"
  using assms
proof (induction "unat (total_pages s) - n" arbitrary: n s)
  case 0
  then have "n = unat (total_pages s)" by simp
  then show ?case using 0 kmapsD(1) [OF 0(2)] by simp
next
  case (Suc k)
  then have n: "n < unat (total_pages s)" "unat (word_of_nat n :: u32) = n" by auto
  obtain ok1 s1 where i: "identity_map [word_of_nat n] s = (ok1, s1)" by force
  note st = identity_map_step [OF _ _ i, unfolded n(2)]
  have r: "u32_range (word_of_nat n) (total_pages s) = word_of_nat n # u32_range (word_of_nat (Suc n)) (total_pages s)"
    by (rule u32_range_step [OF n(1)])
  show ?case
  proof (cases ok1)
    case True
    then have t: "kmaps s1 (pdes_below (Suc n)) (Suc n)" "total_pages s1 = total_pages s" "free_set s1 \<subseteq> free_set s"
      using st [OF Suc.prems(1)] n Suc.prems(3) by simp_all
    have "identity_map (u32_range (word_of_nat (Suc n)) (total_pages s1)) s1 = (okb, s')"
      using Suc.prems(4) i True t(2) unfolding r identity_map_Cons [of _ "u32_range _ _"] by simp
    from Suc.hyps(1) [OF _ t(1) _ _ this] have "frames_inv s' \<and> total_pages s' = total_pages s1 \<and> free_set s' \<subseteq> free_set s1 \<and>
      (if okb then kmaps s' (pdes_below (unat (total_pages s1))) (unat (total_pages s1)) else free_set s' = {})"
      using Suc.hyps(2) Suc.prems(3) n t(2) by (simp cong: if_cong)
    with t(2,3) show ?thesis by auto
  next
    case False
    then have "s1 = s" "free_set s = {}" using st [OF Suc.prems(1)] n Suc.prems(3) by auto
    moreover have "s' = s1" "\<not> okb"
      using Suc.prems(4) i False unfolding r identity_map_Cons [of _ "u32_range _ _"] by auto
    ultimately show ?thesis using kmapsD(1) [OF Suc.prems(1)] by simp
  qed
qed

section \<open>The alias at 3 GiB\<close>

lemma unat_high_pde:
  assumes "(d::u32) < 256"
  shows "drop_bit 22 KERNEL_VBASE OR d = 768 + d" and "unat (768 + d) = 768 + unat d"
proof -
  have u: "unat d < 256" using assms by (simp add: word_less_nat_alt)
  show "unat (768 + d) = 768 + unat d" using unat_add_small [of 768 d] u by simp
  have "d mod 256 = d" using u by (simp add: word_unat_eq_iff unat_mod)
  then have "d AND 255 = d" using take_bit_eq_mask [of 8 d] by (simp add: take_bit_eq_mod mask_eq_exp_minus_1)
  then have "768 AND d = 768 AND (255 AND d)" by (simp add: and.commute)
  also have "\<dots> = 0" unfolding and.assoc [symmetric] by simp
  finally have "768 AND d = 0" .
  then show "drop_bit 22 KERNEL_VBASE OR d = 768 + d"
    using word_plus_and_or [of 768 d] by (simp add: KERNEL_VBASE_def)
qed

definition aliased :: "'a mm_state_scheme \<Rightarrow> nat \<Rightarrow> 'a mm_state_scheme \<Rightarrow> bool" where
  "aliased s n t \<longleftrightarrow> (\<exists>m. t = s\<lparr>pmem := m\<rparr>) \<and>
     (\<forall>d < 1024. ent (pmem t) (page_dir_phys s) d =
       (if 768 \<le> unat d \<and> unat d < 768 + n \<and> present (ent (pmem s) (page_dir_phys s) (d - 768))
        then ent (pmem s) (page_dir_phys s) (d - 768) else ent (pmem s) (page_dir_phys s) d)) \<and>
     (\<forall>q j. page_aligned q \<and> q \<noteq> page_dir_phys s \<and> j < 1024 \<longrightarrow> ent (pmem t) q j = ent (pmem s) q j)"

lemma aliased_step:
  assumes al: "page_aligned (page_dir_phys s)" and n: "n < 256" and t: "aliased s n t"
  shows "aliased s (Suc n) (alias_pde (word_of_nat n) t)"
proof -
  let ?pd = "page_dir_phys s" and ?n = "word_of_nat n :: u32"
  have un: "?n < 256" "unat ?n = n" "?n < 1024" using n by (simp_all add: word_less_nat_alt)
  note hi = unat_high_pde [OF un(1)]
  have h: "768 + ?n < 1024" using n hi(2) un(2) by (simp add: word_less_nat_alt)
  obtain m where m: "t = s\<lparr>pmem := m\<rparr>" using t by (auto simp: aliased_def)
  then have pd: "page_dir_phys t = ?pd" by simp
  have old: "ent (pmem t) ?pd d = (if 768 \<le> unat d \<and> unat d < 768 + n \<and> present (ent (pmem s) ?pd (d - 768))
      then ent (pmem s) ?pd (d - 768) else ent (pmem s) ?pd d)" if "d < 1024" for d
    using t that by (simp add: aliased_def)
  have e: "ent (pmem t) ?pd ?n = ent (pmem s) ?pd ?n" using old [OF un(3)] un(2) n by simp
  have d: "768 \<le> unat d \<and> unat d < 768 + Suc n \<longleftrightarrow> (768 \<le> unat d \<and> unat d < 768 + n) \<or> d = 768 + ?n" for d
    using hi(2) un(2) by (auto simp: word_unat_eq_iff)
  show ?thesis
  proof (cases "present (ent (pmem s) ?pd ?n)")
    case True
    then have a: "alias_pde ?n t = set_ent ?pd (768 + ?n) (ent (pmem s) ?pd ?n) t"
      using e by (simp add: alias_pde_def present_def pd hi(1) Let_def)
    have "ent (pmem (alias_pde ?n t)) ?pd d = (if 768 \<le> unat d \<and> unat d < 768 + Suc n \<and>
        present (ent (pmem s) ?pd (d - 768)) then ent (pmem s) ?pd (d - 768) else ent (pmem s) ?pd d)"
      if "d < 1024" for d
    proof (cases "d = 768 + ?n")
      case True
      then show ?thesis using \<open>present _\<close> al h hi(2) un(2) unfolding a by (simp add: ent_set_ent)
    next
      case False
      then show ?thesis unfolding a using old [OF that] al h that d [of d] by (auto simp: ent_set_ent)
    qed
    moreover have "ent (pmem (alias_pde ?n t)) q j = ent (pmem s) q j" if "page_aligned q" "q \<noteq> ?pd" "j < 1024" for q j
      using that t al h unfolding a by (auto simp: ent_set_ent aliased_def)
    moreover have "alias_pde ?n t = s\<lparr>pmem := pmem (alias_pde ?n t)\<rparr>" unfolding a by (simp add: set_ent_def m)
    ultimately show ?thesis unfolding aliased_def by blast
  next
    case False
    then have "alias_pde ?n t = t" using e by (simp add: alias_pde_def present_def pd Let_def)
    moreover have "(768 \<le> unat d \<and> unat d < 768 + Suc n \<and> present (ent (pmem s) ?pd (d - 768))) =
        (768 \<le> unat d \<and> unat d < 768 + n \<and> present (ent (pmem s) ?pd (d - 768)))" for d
      using False d [of d] by auto
    ultimately show ?thesis using t unfolding aliased_def by simp
  qed
qed

lemma aliased_loop:
  assumes "page_aligned (page_dir_phys s)" and "n \<le> 256"
  shows "aliased s n (fold alias_pde (map word_of_nat [0..<n]) s)"
  using assms(2)
proof (induction n)
  case 0
  have "s = s\<lparr>pmem := pmem s\<rparr>" by simp
  then show ?case unfolding aliased_def by (auto intro: exI [of _ "pmem s"])
next
  case (Suc n)
  then show ?case using aliased_step [OF assms(1), of n] by simp
qed

section \<open>After \<^verbatim>\<open>mm_init\<close>\<close>

text \<open>All RAM is mapped at its own address and again at 3 GiB.\<close>

definition ram_mapped :: "'a mm_state_scheme \<Rightarrow> bool" where
  "ram_mapped s \<longleftrightarrow> (\<forall>v. frame v < total_pages s \<longrightarrow>
     mm_virt_to_phys v s = v \<and> mm_virt_to_phys (v + KERNEL_VBASE) s = v)"

lemma page_split: "(v AND PAGE_MASK) + (v AND 0xFFF) = (v::u32)"
proof -
  have "unat (v AND PAGE_MASK) + unat (v AND 0xFFF) = unat v"
    unfolding unat_page_mask by (simp add: and_fff unat_mod)
  then show ?thesis using unat_add_small [of "v AND PAGE_MASK" "v AND 0xFFF"] unat_u32_lt [of v]
    by (simp add: word_unat_eq_iff)
qed

lemma frame_page: "unat (frame v) < 262144 \<Longrightarrow> frame v * PAGE_SIZE = v AND PAGE_MASK"
  using frame_addr_div(3) [of "frame v"] by (simp add: word_unat_eq_iff unat_page_mask unat_frame)

lemma high_address:
  assumes "unat (frame v) < 262144"
  shows "pd_index (v + KERNEL_VBASE) = 768 + pd_index v" and "pt_index (v + KERNEL_VBASE) = pt_index v"
    and "(v + KERNEL_VBASE) AND 0xFFF = v AND 0xFFF" and "pd_index v < 256"
proof -
  have v: "unat v < 1073741824" using assms by (simp add: unat_frame)
  have pd: "unat (pd_index x) = unat x div 4194304" for x :: u32 by (simp add: unat_drop_bit_eq drop_bit_eq_div unat_div)
  have w: "unat (v + KERNEL_VBASE) = unat v + 3221225472"
    using unat_add_small [of v KERNEL_VBASE] v by (simp add: KERNEL_VBASE_def)
  show d: "pd_index v < 256" using v by (simp add: word_less_nat_alt pd)
  show "pd_index (v + KERNEL_VBASE) = 768 + pd_index v"
    using unat_high_pde(2) [OF d] v by (simp add: word_unat_eq_iff pd w)
  show "pt_index (v + KERNEL_VBASE) = pt_index v"
  proof -
    have "(unat v + 786432 * 4096) div 4096 = unat v div 4096 + 768 * 1024" by (subst div_mult_self1) simp_all
    then have "(unat v + 3221225472) div 4096 = unat v div 4096 + 768 * 1024" by simp
    then have "(unat v + 3221225472) div 4096 mod 1024 = unat v div 4096 mod 1024" by (simp only: mod_mult_self1)
    then show ?thesis unfolding word_unat_eq_iff unat_pt_index unat_frame w .
  qed
  show "(v + KERNEL_VBASE) AND 0xFFF = v AND 0xFFF"
  proof -
    have "(unat v + 786432 * 4096) mod 4096 = unat v mod 4096" by (rule mod_mult_self1)
    then show ?thesis unfolding and_fff word_unat_eq_iff unat_mod w by simp
  qed
qed

lemma kmaps_translate:
  assumes k: "kmaps s P (unat (total_pages s))" and t: "unat (total_pages s) \<le> 262144"
    and al: "aliased s 256 u" and v: "frame v < total_pages s"
  shows "mm_virt_to_phys v u = v \<and> mm_virt_to_phys (v + KERNEL_VBASE) u = v"
proof -
  note K = kmapsD [OF k]
  let ?pd = "page_dir_phys s" and ?d = "pd_index v"
  have f: "unat (frame v) < unat (total_pages s)" "unat (frame v) < 262144"
    using v t by (simp_all add: word_less_nat_alt)
  note hi = high_address [OF f(2)]
  have db: "drop_bit 10 (frame v) = ?d" by (simp add: drop_bit_drop_bit)
  have dP: "?d \<in> P" using K(8) [OF f(1)] unfolding db .
  have dl: "?d < 1024" "unat ?d < 256" using hi(4) by (simp_all add: word_less_nat_alt)
  have pd: "page_dir_phys u = ?pd" using al by (auto simp: aliased_def)
  have pr: "present (ent (pmem s) ?pd ?d)" using K(3) [OF dl(1)] dP by simp
  have e1: "ent (pmem u) ?pd ?d = ent (pmem s) ?pd ?d" using al dl by (simp add: aliased_def)
  have h: "768 + ?d < 1024" using unat_high_pde(2) [OF hi(4)] dl(2) by (simp add: word_less_nat_alt)
  have e2: "ent (pmem u) ?pd (768 + ?d) = ent (pmem s) ?pd ?d"
    using al h pr unat_high_pde(2) [OF hi(4)] dl(2) by (simp add: aliased_def)
  have ne: "ent (pmem s) ?pd ?d AND PAGE_MASK \<noteq> ?pd" using K(6) [OF dP] frame_mask by metis
  have "ent (pmem u) (ent (pmem s) ?pd ?d AND PAGE_MASK) (pt_index v) =
      ent (pmem s) (ent (pmem s) ?pd ?d AND PAGE_MASK) (pt_index v)"
    using al ne by (simp add: aliased_def pt_index_lt)
  then have pte: "ent (pmem u) (ent (pmem s) ?pd ?d AND PAGE_MASK) (pt_index v) = (v AND PAGE_MASK) OR PAGE_KERNEL"
    using K(9) [OF f(1)] unfolding db frame_page [OF f(2)] by simp
  note ke = kernel_entry [OF page_aligned_mask [of v]]
  show ?thesis
    using pr ke(1,2) page_split [of v]
    by (simp add: mm_virt_to_phys_def Let_def pd e1 e2 pte hi(1-3) present_def PTE_PRESENT_def)
qed

lemma init_paging_spec:
  assumes inv: "frames_inv s" and tot: "unat (total_pages s) \<le> 262144"
  defines "s' \<equiv> init_paging s"
  shows "frames_inv s' \<and> total_pages s' = total_pages s \<and> free_set s' \<subseteq> free_set s \<and>
    (free_set s' = {} \<or> kernel_dir_ok s' \<and> ram_mapped s')"
  using inv
proof (cases rule: alloc_page_cases)
  case fail
  then show ?thesis using inv by (simp add: s'_def init_paging_def)
next
  case (ok p s1)
  define t where "t = zero_table p (s1\<lparr>page_dir_phys := p\<rparr>)"
  define m where "m = pmem t"
  have tm: "t = s1\<lparr>page_dir_phys := p, pmem := m\<rparr>"
    unfolding m_def t_def by (subst zero_table_frame) simp
  have t: "frames_inv t" "kernel_dir_ok t" "page_dir_phys t = p" "total_pages t = total_pages s" "free_set t \<subseteq> free_set s"
    unfolding tm using ok(3,4,5,6,11,13) by (auto simp: frames_inv_def mm_inv_def kernel_dir_ok_def used_set_def)
  have "ent (pmem t) p d = 0" if "d < 1024" for d
    unfolding t_def using zero_table_ent [OF ok(3,3) that] by simp
  then have k: "kmaps t (pdes_below 0) 0"
    unfolding kmaps_def t(3) using t(1,2) by (simp add: pdes_below_def present_def)
  obtain okb u where i: "identity_map (u32_range 0 (total_pages t)) t = (okb, u)" by force
  have l: "frames_inv u \<and> total_pages u = total_pages t \<and> free_set u \<subseteq> free_set t \<and>
      (if okb then kmaps u (pdes_below (unat (total_pages t))) (unat (total_pages t)) else free_set u = {})"
    by (rule identity_map_loop [OF k]) (use i t(4) tot in simp_all)
  let ?w = "fold alias_pde (u32_range 0 256) u"
  have s': "s' = (if okb then ?w else u)"
    using ok(1,2) i by (simp add: s'_def init_paging_def t_def Let_def)
  show ?thesis
  proof (cases okb)
    case False
    then show ?thesis using s' l t by auto
  next
    case True
    have ku: "kmaps u (pdes_below (unat (total_pages t))) (unat (total_pages u))" using True l by simp
    have "aliased u 256 ?w"
      using aliased_loop [of u 256] kmapsD(2) [OF ku] by (simp add: kernel_dir_ok_def u32_range_def)
    moreover obtain m' where m': "?w = u\<lparr>pmem := m'\<rparr>" using calculation by (auto simp: aliased_def)
    ultimately have "ram_mapped ?w"
      unfolding ram_mapped_def using kmaps_translate [OF ku, of ?w] l t(4) tot by (metis mm_state.select_convs(2) mm_state.surjective mm_state.update_convs(9))
    moreover have "frames_inv ?w" "kernel_dir_ok ?w" "total_pages ?w = total_pages u" "free_set ?w = free_set u"
      unfolding m' using kmapsD(1,2) [OF ku] by (simp_all add: frames_inv_def mm_inv_def kernel_dir_ok_def)
    ultimately show ?thesis using s' l t True by auto
  qed
qed

text \<open>The frames left free by the second pass and the reservations.\<close>

lemma free_pass:
  assumes "\<forall>p \<in> set ps. region_ok m p" and "sorted_wrt (apart_regions m) ps"
    and tot: "unat (total_pages s) \<le> 262144" and res: "reserved \<noteq> 0"
    and pos: "0 < total_pages s"
  defines "s' \<equiv> fold (free_entry m reserved) ps ((all_used s)\<lparr>free_pages := 0\<rparr>)"
  shows "frames_inv s' \<and> total_pages s' = total_pages s \<and>
    free_set s' = (\<Union>p \<in> set ps. entry_frames m reserved (total_pages s) p)"
proof -
  note a = all_used_inv [OF tot]
  have f0: "0 \<notin> entry_frames m reserved (total_pages s) p" for p
    using res by (simp add: entry_frames_def word_le_nat_alt word_unat_eq_iff)
  have "mm_inv s' \<and> free_set s' = (\<Union>p \<in> set ps. entry_frames m reserved (total_pages s) p) \<and>
    total_pages s' = total_pages s \<and>
    (\<forall>f. bitmap_test f s' \<longleftrightarrow> bitmap_test f ((all_used s)\<lparr>free_pages := 0\<rparr>) \<and>
      f \<notin> (\<Union>p \<in> set ps. entry_frames m reserved (total_pages s) p))"
    unfolding s'_def using free_entries_spec [OF assms(1,2) a(1), of reserved] a(2,3) by simp
  moreover have "bitmap_test 0 ((all_used s)\<lparr>free_pages := 0\<rparr>)" by (rule a(5)) (rule pos)
  ultimately show ?thesis using f0 by (auto simp: frames_inv_def)
qed

lemma ram_top_positive:
  assumes "p \<in> set ps" and "region_ok m p" and "usable m p f" and "unat f < 262144"
  shows "4096 \<le> unat (fst (fold (top_entry m) ps (0, c)))"
proof -
  have u: "e_type m p = 1" "unat (e_base m p) \<le> 4096 * unat f"
    "4096 * unat f + 4096 \<le> unat (e_base m p) + unat (e_length m p)" using assms(3) by (simp_all add: usable_def)
  have "e_base m p < ram_cap" using u(2) assms(4) unat_ram_cap by (simp add: word_less_nat_alt)
  from top_entries_cover [OF assms(1) u(1) this] have "unat (entry_end m p) \<le> unat (fst (fold (top_entry m) ps (0, c)))"
    by (simp add: word_le_nat_alt)
  moreover have "4096 \<le> unat (entry_end m p)" using unat_entry_end [OF assms(2)] u(3) by simp
  ultimately show ?thesis by linarith
qed


text \<open>A loader that reports one usable region, from 1 MiB to 2 MiB.\<close>

definition boot_mem :: memory where
  "boot_mem = fold (\<lambda>(a, v) m. store32 m a v)
     [(0x1000, 0x40), (0x102C, 24), (0x1030, 0x2000),
      (0x2000, 20), (0x2004, 0x100000), (0x200C, 0x100000), (0x2014, 1)] (\<lambda>_. 0)"

definition boot_state :: mm_state where
  "boot_state = \<lparr>bitmap = (\<lambda>_. 0), total_pages = 0, free_pages = 0, frame_refs = (\<lambda>_. 0), mmap_region_count = 0,
     reported_mem_upper_kb = 0, page_dir_phys = 0, cr3 = 0, pmem = boot_mem\<rparr>"

lemma boot_mem_fields:
  "mb_flags boot_mem 0x1000 = 0x40" "mb_mmap_length boot_mem 0x1000 = 24" "mb_mmap_addr boot_mem 0x1000 = 0x2000"
  "e_size boot_mem 0x2000 = 20" "e_base boot_mem 0x2000 = 0x100000" "e_length boot_mem 0x2000 = 0x100000"
  "e_type boot_mem 0x2000 = 1"
  by (simp_all add: boot_mem_def mb_flags_def mb_mmap_length_def mb_mmap_addr_def e_size_def e_base_def e_length_def
      e_type_def load64_def load32_def store32_def)




section \<open>The module table\<close>

text \<open>The table has eight slots; the recorded ones are non-empty ranges with terminated names.\<close>

definition modules_ok :: "module_state \<Rightarrow> bool" where
  "modules_ok st \<longleftrightarrow> length (modules st) = 8 \<and> (\<forall>m \<in> set (modules st). length (m_name m) = 64) \<and>
     unat (module_count st) \<le> 8 \<and>
     (\<forall>i < unat (module_count st). m_start (modules st ! i) < m_end (modules st ! i) \<and> 0 \<in> set (m_name (modules st ! i)))"

lemma strncpy_full: "length src = n \<Longrightarrow> \<exists>bs. strncpy src n = Some bs \<and> length bs = n"
proof (induction src n rule: strncpy.induct)
  case (3 c cs n)
  then show ?case by (cases "c = 0") auto
qed auto

lemma copy_module_name_ok:
  assumes "length old = 64"
  shows "length (copy_module_name m str old) = 64 \<and> 0 \<in> set (copy_module_name m str old)"
proof (cases "str = 0")
  case True
  then show ?thesis using assms by (simp add: copy_module_name_def set_update_memI)
next
  case False
  obtain bs where bs: "strncpy (bytes_at m str 63) 63 = Some bs" "length bs = 63"
    using strncpy_full [of "bytes_at m str 63" 63] by (auto simp: bytes_at_def)
  have "0 \<in> set ((bs @ drop 63 (old[0 := 0]))[63 := 0])"
    by (rule set_update_memI) (use bs(2) assms in simp)
  with False bs assms show ?thesis by (simp add: copy_module_name_def)
qed

lemma add_module_ok:
  assumes "modules_ok st" and "unat (module_count st) < 8"
  shows "modules_ok (add_module m raw i st) \<and> unat (module_count (add_module m raw i st)) \<le> Suc (unat (module_count st))"
proof (cases "load32 m (raw + 16 * i + 4) \<le> load32 m (raw + 16 * i)")
  case True
  then show ?thesis using assms(1) by (simp add: add_module_def Let_def)
next
  case False
  let ?k = "unat (module_count st)"
  let ?old = "m_name (modules st ! ?k)"
  have l: "length (modules st) = 8" "length ?old = 64" using assms by (simp_all add: modules_ok_def)
  note n = copy_module_name_ok [OF l(2), of m "load32 m (raw + 16 * i + 8)"]
  have c: "unat (module_count st + 1) = Suc ?k" using unat_add_small [of "module_count st" 1] assms(2) by simp
  show ?thesis using False assms n c l
    by (auto simp: add_module_def Let_def modules_ok_def not_le nth_list_update less_Suc_eq
        dest!: set_update_subset_insert [THEN subsetD])
qed

text \<open>C38: The module table is well formed after \<^verbatim>\<open>modules_init\<close> whatever the loader left in memory: at most
  eight entries, each a non-empty range with a NUL-terminated name.\<close>

theorem modules_init_ok:
  assumes "length (modules st) = 8" and "\<forall>m \<in> set (modules st). length (m_name m) = 64"
  shows "modules_ok (modules_init m mb st)"
proof -
  have loop: "modules_ok (fold (add_module m raw) xs t)"
    if "modules_ok t" "unat (module_count t) + length xs \<le> 8" for raw xs t
    using that
  proof (induction xs arbitrary: t)
    case (Cons x xs)
    from Cons.prems add_module_ok [OF Cons.prems(1), of m raw x] show ?case by (simp add: Cons.IH)
  qed simp
  let ?st = "st\<lparr>module_count := 0\<rparr>"
  have "modules_ok ?st" using assms by (simp add: modules_ok_def)
  moreover have "unat (min (mb_mods_count m mb) MODULE_MAX) \<le> 8"
    by (simp add: MODULE_MAX_def min_def word_le_nat_alt)
  ultimately show ?thesis by (simp add: modules_init_def Let_def loop)
qed

theorem modules_init_ok_witness:
  "modules_ok (modules_init boot_mem 0x1000
    \<lparr>modules = replicate 8 \<lparr>m_start = 0, m_end = 0, m_name = replicate 64 0\<rparr>, module_count = 3\<rparr>)"
  by (rule modules_init_ok) simp_all

end
