(* ===== verification/Ata.thy ===== *)
theory Ata
  imports Muos_Prelude
begin

text \<open>
  The polled PIO driver of \<^verbatim>\<open>src/ata.c\<close>.  Port accesses go through the record \<open>ports\<close>, which acts
  on the state of the machine behind the ports.  What a drive does is not part of the program:
  the theorems assume that the ports behave like a drive with the registers of the ATA task file
  (\<open>drives\<close>), seen through an abstraction of the hardware state.
\<close>

record 'h ports =
  p_inb :: "'h inb"
  p_outb :: "'h outb"
  p_inw :: "u16 \<Rightarrow> 'h \<Rightarrow> u16 \<times> 'h"
  p_outw :: "u16 \<Rightarrow> u16 \<Rightarrow> 'h \<Rightarrow> 'h"

record 'h ata_state =
  ata_is_present :: bool
  ata_sectors :: u32
  ata_model_buf :: "u8 list"
  ata_hw :: 'h

definition ATA_CTRL :: u16 where "ATA_CTRL = 0x3F6"
definition ATA_DATA :: u16 where "ATA_DATA = 0x1F0"
definition ATA_FEAT :: u16 where "ATA_FEAT = 0x1F1"
definition ATA_SECCNT :: u16 where "ATA_SECCNT = 0x1F2"
definition ATA_LBA0 :: u16 where "ATA_LBA0 = 0x1F3"
definition ATA_LBA1 :: u16 where "ATA_LBA1 = 0x1F4"
definition ATA_LBA2 :: u16 where "ATA_LBA2 = 0x1F5"
definition ATA_DRIVE :: u16 where "ATA_DRIVE = 0x1F6"
definition ATA_STATUS :: u16 where "ATA_STATUS = 0x1F7"
definition ATA_CMD :: u16 where "ATA_CMD = 0x1F7"
definition ST_BSY :: u8 where "ST_BSY = 0x80"
definition ST_DF :: u8 where "ST_DF = 0x20"
definition ST_DRQ :: u8 where "ST_DRQ = 0x08"
definition ST_ERR :: u8 where "ST_ERR = 0x01"
definition CMD_IDENTIFY :: u8 where "CMD_IDENTIFY = 0xEC"
definition CMD_READ :: u8 where "CMD_READ = 0x20"
definition CMD_WRITE :: u8 where "CMD_WRITE = 0x30"

lemmas ata_ports = ATA_CTRL_def ATA_DATA_def ATA_FEAT_def ATA_SECCNT_def ATA_LBA0_def ATA_LBA1_def
  ATA_LBA2_def ATA_DRIVE_def ATA_STATUS_def ATA_CMD_def
lemmas ata_bits = ST_BSY_def ST_DF_def ST_DRQ_def ST_ERR_def

section \<open>Polling\<close>

definition ata_status :: "'h ports \<Rightarrow> 'h \<Rightarrow> u8 \<times> 'h" where
  "ata_status P h = p_inb P ATA_STATUS h"

definition ctrl_reads :: "nat \<Rightarrow> 'h ports \<Rightarrow> 'h \<Rightarrow> 'h" where
  "ctrl_reads n P h = ((\<lambda>h. snd (p_inb P ATA_CTRL h)) ^^ n) h"

definition ata_delay :: "'h ports \<Rightarrow> 'h \<Rightarrow> 'h" where
  "ata_delay P h = ctrl_reads 4 P h"

text \<open>The polling loop with \<open>n\<close> tries left.\<close>

fun ata_poll :: "nat \<Rightarrow> 'h ports \<Rightarrow> bool \<Rightarrow> 'h \<Rightarrow> int \<times> 'h" where
  "ata_poll 0 P want_drq h = (- 16, h)"
| "ata_poll (Suc n) P want_drq h =
     (case ata_status P h of (st, h) \<Rightarrow>
        if st AND ST_BSY = 0
        then if st AND ST_DF \<noteq> 0 then (- 5, h)
             else if st AND ST_ERR \<noteq> 0 then (- 5, h)
             else if \<not> want_drq \<or> st AND ST_DRQ \<noteq> 0 then (0, h)
             else ata_poll n P want_drq h
        else ata_poll n P want_drq h)"

definition ata_wait :: "'h ports \<Rightarrow> bool \<Rightarrow> 'h \<Rightarrow> int \<times> 'h" where
  "ata_wait P want_drq h = ata_poll 2000000 P want_drq h"

section \<open>Sectors\<close>

fun read_words :: "nat \<Rightarrow> 'h ports \<Rightarrow> 'h \<Rightarrow> u16 list \<times> 'h" where
  "read_words 0 P h = ([], h)"
| "read_words (Suc n) P h =
     (case p_inw P ATA_DATA h of (w, h) \<Rightarrow> case read_words n P h of (ws, h) \<Rightarrow> (w # ws, h))"

definition write_words :: "'h ports \<Rightarrow> u16 list \<Rightarrow> 'h \<Rightarrow> 'h" where
  "write_words P ws h = fold (p_outw P ATA_DATA) ws h"

text \<open>A \<^verbatim>\<open>uint16_t\<close> array seen as bytes, and back.\<close>

fun bytes_of_words :: "u16 list \<Rightarrow> u8 list" where
  "bytes_of_words [] = []"
| "bytes_of_words (w # ws) = ucast w # ucast (drop_bit 8 w) # bytes_of_words ws"

fun words_of_bytes :: "u8 list \<Rightarrow> u16 list" where
  "words_of_bytes (a # b # bs) = (ucast a OR push_bit 8 (ucast b)) # words_of_bytes bs"
| "words_of_bytes _ = []"

text \<open>The task-file writes shared by \<^verbatim>\<open>ata_read_sector\<close> and \<^verbatim>\<open>ata_write_sector\<close>.\<close>

definition ata_command :: "'h ports \<Rightarrow> u32 \<Rightarrow> u8 \<Rightarrow> 'h \<Rightarrow> 'h" where
  "ata_command P lba cmd h =
     (let h = p_outb P ATA_DRIVE (0xE0 OR ucast (drop_bit 24 lba AND 0x0F)) h;
          h = ata_delay P h;
          h = p_outb P ATA_FEAT 0 h;
          h = p_outb P ATA_SECCNT 1 h;
          h = p_outb P ATA_LBA0 (ucast (lba AND 0xFF)) h;
          h = p_outb P ATA_LBA1 (ucast (drop_bit 8 lba AND 0xFF)) h;
          h = p_outb P ATA_LBA2 (ucast (drop_bit 16 lba AND 0xFF)) h
      in p_outb P ATA_CMD cmd h)"

text \<open>The result code and the bytes stored in the caller's buffer.\<close>

definition ata_read_sector ::
  "'h ports \<Rightarrow> u32 \<Rightarrow> 'h ata_state \<Rightarrow> (int \<times> u8 list) \<times> 'h ata_state" where
  "ata_read_sector P lba s =
     (if lba \<ge> ata_sectors s then ((- 22, []), s)
      else case ata_wait P True (ata_command P lba CMD_READ (ata_hw s)) of (rc, h) \<Rightarrow>
        if rc \<noteq> 0 then ((rc, []), s\<lparr>ata_hw := h\<rparr>)
        else case read_words 256 P h of (ws, h) \<Rightarrow> ((0, bytes_of_words ws), s\<lparr>ata_hw := h\<rparr>))"

definition ata_write_sector ::
  "'h ports \<Rightarrow> u32 \<Rightarrow> u8 list \<Rightarrow> 'h ata_state \<Rightarrow> int \<times> 'h ata_state" where
  "ata_write_sector P lba sec s =
     (if lba \<ge> ata_sectors s then (- 22, s)
      else case ata_wait P True (ata_command P lba CMD_WRITE (ata_hw s)) of (rc, h) \<Rightarrow>
        if rc \<noteq> 0 then (rc, s\<lparr>ata_hw := h\<rparr>)
        else
          let h = write_words P (words_of_bytes sec) h;
              h = ctrl_reads 4 P h;
              h = p_outb P ATA_CMD 0xE7 h
          in case ata_wait P False h of (rc, h) \<Rightarrow> (rc, s\<lparr>ata_hw := h\<rparr>))"

section \<open>Detection\<close>

fun ata_reset_wait :: "nat \<Rightarrow> 'h ports \<Rightarrow> 'h \<Rightarrow> 'h" where
  "ata_reset_wait 0 P h = h"
| "ata_reset_wait (Suc n) P h =
     (case ata_status P h of (st, h) \<Rightarrow> if st AND ST_BSY = 0 then h else ata_reset_wait n P h)"

text \<open>Words 27 to 46 hold the model, high byte first; trailing blanks and NULs become NULs.\<close>

definition model_string :: "u16 list \<Rightarrow> u8 list" where
  "model_string ids =
     (let raw = concat (map (\<lambda>i. [ucast (drop_bit 8 (ids ! (27 + i))), ucast (ids ! (27 + i) AND 0xFF)]) [0..<20]);
          keep = dropWhile (\<lambda>c. c = 0x20 \<or> c = 0) (rev raw)
      in rev keep @ replicate (40 - length keep) 0 @ [0])"

definition identify_sectors :: "u16 list \<Rightarrow> u32" where
  "identify_sectors ids =
     (let n = push_bit 16 (ucast (ids ! 61)) OR ucast (ids ! 60)
      in if n > 0x0FFFFFFF then 0x0FFFFFFF else n)"

definition ata_init :: "'h ports \<Rightarrow> 'h ata_state \<Rightarrow> bool \<times> 'h ata_state" where
  "ata_init P s =
     (let s = s\<lparr>ata_is_present := False, ata_sectors := 0, ata_model_buf := (ata_model_buf s)[0 := 0]\<rparr>;
          h = p_outb P ATA_CTRL 0x04 (ata_hw s);
          h = ctrl_reads 8 P h;
          h = p_outb P ATA_CTRL 0x02 h;
          h = ata_reset_wait 200000 P h;
          h = ata_delay P h;
          h = p_outb P ATA_DRIVE 0xA0 h;
          h = ata_delay P h;
          h = p_outb P ATA_SECCNT 0 h;
          h = p_outb P ATA_LBA0 0 h;
          h = p_outb P ATA_LBA1 0 h;
          h = p_outb P ATA_LBA2 0 h;
          h = p_outb P ATA_CMD CMD_IDENTIFY h;
          (st, h) = ata_status P h
      in if st = 0 \<or> st = 0xFF then (False, s\<lparr>ata_hw := h\<rparr>)
         else case ata_wait P True h of (rc, h) \<Rightarrow>
           if rc \<noteq> 0 then (False, s\<lparr>ata_hw := h\<rparr>)
           else case p_inb P ATA_LBA1 h of (l1, h) \<Rightarrow>
             if l1 \<noteq> 0 then (False, s\<lparr>ata_hw := h\<rparr>)
             else case p_inb P ATA_LBA2 h of (l2, h) \<Rightarrow>
               if l2 \<noteq> 0 then (False, s\<lparr>ata_hw := h\<rparr>)
               else case read_words 256 P h of (ids, h) \<Rightarrow>
                 let s = s\<lparr>ata_model_buf := model_string ids, ata_sectors := identify_sectors ids, ata_hw := h\<rparr>
                 in if ata_sectors s = 0 then (False, s) else (True, s\<lparr>ata_is_present := True\<rparr>))"

definition ata_present :: "'h ata_state \<Rightarrow> bool" where
  "ata_present s = ata_is_present s"

definition ata_sector_count :: "'h ata_state \<Rightarrow> u32" where
  "ata_sector_count s = ata_sectors s"

definition ata_model :: "'h ata_state \<Rightarrow> u8 list" where
  "ata_model s = ata_model_buf s"

section \<open>Byte ranges\<close>

definition chunk :: "u32 \<Rightarrow> u32 \<Rightarrow> u32 \<Rightarrow> u32 \<times> u32 \<times> u32" where
  "chunk offset count k =
     (let pos = offset + k; lba = pos div 512; off = pos mod 512; n = 512 - off
      in (lba, off, if n > count - k then count - k else n))"

lemma chunk_progress:
  assumes "k < count" and "chunk offset count k = (lba, off, n)"
  shows "unat n > 0" and "unat n \<le> unat count - unat k" and "unat (k + n) = unat k + unat n"
    and "unat off + unat n \<le> 512"
proof -
  let ?off = "(offset + k) mod 512"
  have o: "unat ?off < 512" by (simp add: unat_mod)
  then have m: "unat (512 - ?off) = 512 - unat ?off"
    using unat_sub [of ?off 512] by (simp add: word_le_nat_alt)
  have c: "unat (count - k) = unat count - unat k" using assms(1) by (simp add: unat_sub word_le_nat_alt word_less_nat_alt)
  have n: "off = ?off" "n = (if 512 - ?off > count - k then count - k else 512 - ?off)"
    using assms(2) by (auto simp: chunk_def Let_def)
  then show "unat n > 0" "unat n \<le> unat count - unat k" "unat off + unat n \<le> 512"
    using o m c assms(1) by (auto simp: word_less_nat_alt)
  then show "unat (k + n) = unat k + unat n"
    using unat_add_small [of k n] unat_u32_lt [of count] assms(1) by (simp add: word_less_nat_alt)
qed

lemma chunk_decreases:
  assumes "(lba, off, n) = chunk offset count k" and "k < count"
  shows "unat count - unat (k + n) < unat count - unat k"
  using chunk_progress [OF assms(2) assms(1) [symmetric]] assms(2) by (simp add: word_less_nat_alt)

function ata_read_loop ::
  "'h ports \<Rightarrow> u32 \<Rightarrow> u32 \<Rightarrow> u32 \<Rightarrow> u8 list \<Rightarrow> 'h ata_state \<Rightarrow> (int \<times> u8 list) \<times> 'h ata_state" where
  "ata_read_loop P offset count k buf s =
     (if k < count
      then case chunk offset count k of (lba, off, n) \<Rightarrow>
        case ata_read_sector P lba s of ((rc, sec), s) \<Rightarrow>
          if rc \<noteq> 0 then ((rc, buf), s)
          else ata_read_loop P offset count (k + n) (buf @ take (unat n) (drop (unat off) sec)) s
      else ((sint count, buf), s))"
  by pat_completeness auto
termination
  by (relation "measure (\<lambda>(P, offset, count, k, buf, s). unat count - unat k)") (auto dest: chunk_decreases)

definition ata_read_bytes ::
  "'h ports \<Rightarrow> u32 \<Rightarrow> u32 \<Rightarrow> 'h ata_state \<Rightarrow> (int \<times> u8 list) \<times> 'h ata_state" where
  "ata_read_bytes P offset count s =
     (if \<not> ata_is_present s then ((- 19, []), s)
      else if count = 0 then ((0, []), s)
      else if count > 0xFFFFFFFF - offset then ((- 22, []), s)
      else if offset + count > ata_sectors s * 512 then ((- 22, []), s)
      else ata_read_loop P offset count 0 [] s)"

function ata_write_loop ::
  "'h ports \<Rightarrow> u32 \<Rightarrow> u8 list \<Rightarrow> u32 \<Rightarrow> u32 \<Rightarrow> 'h ata_state \<Rightarrow> int \<times> 'h ata_state" where
  "ata_write_loop P offset buf count k s =
     (if k < count
      then case chunk offset count k of (lba, off, n) \<Rightarrow>
        case (if n \<noteq> 512 then ata_read_sector P lba s else ((0, replicate 512 0), s)) of ((rc, sec), s) \<Rightarrow>
          if rc \<noteq> 0 then (rc, s)
          else
            let sec = take (unat off) sec @ take (unat n) (drop (unat k) buf) @ drop (unat off + unat n) sec
            in case ata_write_sector P lba sec s of (rc, s) \<Rightarrow>
                 if rc \<noteq> 0 then (rc, s) else ata_write_loop P offset buf count (k + n) s
      else (sint count, s))"
  by pat_completeness auto
termination
  by (relation "measure (\<lambda>(P, offset, buf, count, k, s). unat count - unat k)") (auto dest: chunk_decreases)

definition ata_write_bytes ::
  "'h ports \<Rightarrow> u32 \<Rightarrow> u8 list \<Rightarrow> u32 \<Rightarrow> 'h ata_state \<Rightarrow> int \<times> 'h ata_state" where
  "ata_write_bytes P offset buf count s =
     (if \<not> ata_is_present s then (- 19, s)
      else if count = 0 then (0, s)
      else if count > 0xFFFFFFFF - offset then (- 22, s)
      else if offset + count > ata_sectors s * 512 then (- 22, s)
      else ata_write_loop P offset buf count 0 s)"

declare ata_read_loop.simps [simp del] ata_write_loop.simps [simp del]

section \<open>The drive behind the ports\<close>

text \<open>The registers of a drive: the sectors, how many status reads it stays busy after a command and after the last
  word of a written sector, for how many it is still busy, the address latch, the words offered by a read and the words
  received by a write.\<close>

record drive =
  d_disk :: "u32 \<Rightarrow> u8 list"
  d_delay :: nat
  d_settle :: nat
  d_busy :: nat
  d_lba :: u32
  d_out :: "u16 list"
  d_in :: "u16 list option"

definition d_idle :: "drive \<Rightarrow> bool" where
  "d_idle d \<longleftrightarrow> d_busy d = 0 \<and> d_out d = [] \<and> d_in d = None"

definition drive_outb :: "u16 \<Rightarrow> u8 \<Rightarrow> drive \<Rightarrow> drive" where
  "drive_outb p v d =
     (if p = ATA_LBA0 then d\<lparr>d_lba := (d_lba d AND 0xFFFFFF00) OR ucast v\<rparr>
      else if p = ATA_LBA1 then d\<lparr>d_lba := (d_lba d AND 0xFFFF00FF) OR push_bit 8 (ucast v)\<rparr>
      else if p = ATA_LBA2 then d\<lparr>d_lba := (d_lba d AND 0xFF00FFFF) OR push_bit 16 (ucast v)\<rparr>
      else if p = ATA_DRIVE then d\<lparr>d_lba := (d_lba d AND 0x00FFFFFF) OR push_bit 24 (ucast (v AND 0x0F))\<rparr>
      else if p = ATA_CMD \<and> v = CMD_READ
      then d\<lparr>d_busy := d_delay d, d_out := words_of_bytes (d_disk d (d_lba d)), d_in := None\<rparr>
      else if p = ATA_CMD \<and> v = CMD_WRITE then d\<lparr>d_busy := d_delay d, d_out := [], d_in := Some []\<rparr>
      else if p = ATA_CMD \<and> v = 0xE7 then d\<lparr>d_busy := d_delay d, d_out := [], d_in := None\<rparr>
      else d)"

text \<open>The status and the alternate status register hold the same value: busy, else ready, with DRQ while a
  transfer is open.\<close>

definition drive_inb :: "u16 \<Rightarrow> drive \<Rightarrow> u8 \<times> drive" where
  "drive_inb p d =
     (if p = ATA_STATUS \<or> p = ATA_CTRL
      then if d_busy d > 0 then (0x80, d\<lparr>d_busy := d_busy d - 1\<rparr>)
           else (if d_out d \<noteq> [] \<or> d_in d \<noteq> None then 0x48 else 0x40, d)
      else (0, d))"

definition drive_inw :: "u16 \<Rightarrow> drive \<Rightarrow> u16 \<times> drive" where
  "drive_inw p d =
     (if p = ATA_DATA then case d_out d of w # ws \<Rightarrow> (w, d\<lparr>d_out := ws\<rparr>) | [] \<Rightarrow> (0, d) else (0, d))"

text \<open>With the last word of a sector the drive becomes busy again while it stores the sector.\<close>

definition drive_outw :: "u16 \<Rightarrow> u16 \<Rightarrow> drive \<Rightarrow> drive" where
  "drive_outw p w d =
     (if p = ATA_DATA
      then case d_in d of
             None \<Rightarrow> d
           | Some ws \<Rightarrow>
               if length ws = 255
               then d\<lparr>d_disk := (d_disk d)(d_lba d := bytes_of_words (ws @ [w])), d_in := None, d_busy := d_settle d\<rparr>
               else d\<lparr>d_in := Some (ws @ [w])\<rparr>
      else d)"

definition drive_ports :: "drive ports" where
  "drive_ports = \<lparr>p_inb = drive_inb, p_outb = drive_outb, p_inw = drive_inw, p_outw = drive_outw\<rparr>"

text \<open>The ports behave like a drive, seen through \<open>view\<close>, as far as the ATA protocol says: the task file may be written
  only while the drive is neither busy nor in a transfer, and the data port used only while it is not busy and asks for
  data.  What any other access does is left open.\<close>

definition task_file :: "u16 set" where
  "task_file = {ATA_FEAT, ATA_SECCNT, ATA_LBA0, ATA_LBA1, ATA_LBA2, ATA_DRIVE}"

definition drives :: "'h ports \<Rightarrow> ('h \<Rightarrow> drive) \<Rightarrow> bool" where
  "drives P view \<longleftrightarrow>
     (\<forall>p v h. d_idle (view h) \<and> (p \<in> task_file \<or> p = ATA_CMD \<and> v \<in> {CMD_READ, CMD_WRITE, 0xE7}) \<longrightarrow>
        view (p_outb P p v h) = drive_outb p v (view h)) \<and>
     (\<forall>p h. p \<in> {ATA_STATUS, ATA_CTRL} \<longrightarrow> (fst (p_inb P p h), view (snd (p_inb P p h))) = drive_inb p (view h)) \<and>
     (\<forall>h. d_busy (view h) = 0 \<and> d_out (view h) \<noteq> [] \<longrightarrow>
        (fst (p_inw P ATA_DATA h), view (snd (p_inw P ATA_DATA h))) = drive_inw ATA_DATA (view h)) \<and>
     (\<forall>w h. d_busy (view h) = 0 \<and> d_in (view h) \<noteq> None \<longrightarrow> view (p_outw P ATA_DATA w h) = drive_outw ATA_DATA w (view h))"

definition drive_ok :: "drive \<Rightarrow> bool" where
  "drive_ok d \<longleftrightarrow> (\<forall>lba. length (d_disk d lba) = 512) \<and> d_delay d < 2000000 \<and> d_idle d"

lemma drives_ports: "drives drive_ports id"
  by (simp add: drives_def drive_ports_def)

section \<open>Word and byte lists\<close>

lemma word_split: "ucast (ucast w :: u8) OR push_bit 8 (ucast (ucast (drop_bit 8 w) :: u8)) = (w :: u16)"
proof (rule bit_word_eqI)
  fix n assume "n < LENGTH(16)"
  then consider "n < 8" | "8 \<le> n" "n < 16" by force
  then show "bit (ucast (ucast w :: u8) OR push_bit 8 (ucast (ucast (drop_bit 8 w) :: u8)) :: u16) n = bit w n"
    by cases (auto simp: bit_or_iff bit_push_bit_iff bit_ucast_iff bit_drop_bit_eq)
qed

lemma byte_join:
  "ucast (ucast a OR push_bit 8 (ucast b) :: u16) = (a::u8)"
  "ucast (drop_bit 8 (ucast a OR push_bit 8 (ucast b) :: u16)) = (b::u8)"
proof -
  have a: "bit a n \<Longrightarrow> n < 8" and b: "bit b n \<Longrightarrow> n < 8" for n
    using bit_imp_le_length [of a n] bit_imp_le_length [of b n] by simp_all
  show "ucast (ucast a OR push_bit 8 (ucast b) :: u16) = a"
    by (rule bit_word_eqI) (auto simp: bit_or_iff bit_push_bit_iff bit_ucast_iff)
  show "ucast (drop_bit 8 (ucast a OR push_bit 8 (ucast b) :: u16)) = b"
    by (rule bit_word_eqI) (auto simp: bit_or_iff bit_push_bit_iff bit_ucast_iff bit_drop_bit_eq dest: a)
qed

lemma words_of_bytes_of_words [simp]: "words_of_bytes (bytes_of_words ws) = ws"
  by (induction ws) (simp_all add: word_split)

lemma bytes_of_words_of_bytes [simp]: "even (length bs) \<Longrightarrow> bytes_of_words (words_of_bytes bs) = bs"
  by (induction bs rule: words_of_bytes.induct) (simp_all add: byte_join del: drop_bit_or)

lemma length_bytes_of_words [simp]: "length (bytes_of_words ws) = 2 * length ws"
  by (induction ws) simp_all

lemma length_words_of_bytes [simp]: "length (words_of_bytes bs) = length bs div 2"
  by (induction bs rule: words_of_bytes.induct) simp_all

section \<open>The driver on a drive\<close>

lemma drivesD:
  assumes "drives P view"
  shows "d_idle (view h) \<Longrightarrow> p \<in> task_file \<or> p = ATA_CMD \<and> v \<in> {CMD_READ, CMD_WRITE, 0xE7} \<Longrightarrow>
      view (p_outb P p v h) = drive_outb p v (view h)"
    and "p \<in> {ATA_STATUS, ATA_CTRL} \<Longrightarrow> p_inb P p h = (x, h') \<Longrightarrow> drive_inb p (view h) = (x, view h')"
    and "d_busy (view h) = 0 \<Longrightarrow> d_out (view h) \<noteq> [] \<Longrightarrow> p_inw P ATA_DATA h = (y, h') \<Longrightarrow> drive_inw ATA_DATA (view h) = (y, view h')"
    and "d_busy (view h) = 0 \<Longrightarrow> d_in (view h) \<noteq> None \<Longrightarrow> view (p_outw P ATA_DATA w h) = drive_outw ATA_DATA w (view h)"
proof -
  have a: "p \<in> {ATA_STATUS, ATA_CTRL} \<Longrightarrow> (fst (p_inb P p h), view (snd (p_inb P p h))) = drive_inb p (view h)"
    and b: "d_busy (view h) = 0 \<Longrightarrow> d_out (view h) \<noteq> [] \<Longrightarrow>
      (fst (p_inw P ATA_DATA h), view (snd (p_inw P ATA_DATA h))) = drive_inw ATA_DATA (view h)"
    using assms unfolding drives_def by blast+
  show "p \<in> {ATA_STATUS, ATA_CTRL} \<Longrightarrow> p_inb P p h = (x, h') \<Longrightarrow> drive_inb p (view h) = (x, view h')" using a by simp
  show "d_busy (view h) = 0 \<Longrightarrow> d_out (view h) \<noteq> [] \<Longrightarrow> p_inw P ATA_DATA h = (y, h') \<Longrightarrow> drive_inw ATA_DATA (view h) = (y, view h')"
    using b by simp
  show "d_idle (view h) \<Longrightarrow> p \<in> task_file \<or> p = ATA_CMD \<and> v \<in> {CMD_READ, CMD_WRITE, 0xE7} \<Longrightarrow>
      view (p_outb P p v h) = drive_outb p v (view h)"
    using assms unfolding drives_def by blast
  show "d_busy (view h) = 0 \<Longrightarrow> d_in (view h) \<noteq> None \<Longrightarrow> view (p_outw P ATA_DATA w h) = drive_outw ATA_DATA w (view h)"
    using assms unfolding drives_def by blast
qed

lemma ctrl_reads_view:
  assumes "drives P view"
  shows "view (ctrl_reads n P h) = (view h)\<lparr>d_busy := d_busy (view h) - n\<rparr>"
proof (induction n)
  case (Suc n)
  obtain x h' where i: "p_inb P ATA_CTRL (ctrl_reads n P h) = (x, h')" by force
  have "ctrl_reads (Suc n) P h = h'" using i by (simp add: ctrl_reads_def)
  moreover have "view h' = (view (ctrl_reads n P h))\<lparr>d_busy := d_busy (view (ctrl_reads n P h)) - 1\<rparr>"
    using drivesD(2) [OF assms _ i] by (auto simp: drive_inb_def split: if_splits)
  ultimately show ?case using Suc by simp
qed (simp add: ctrl_reads_def)

text \<open>Writes to the task file while the drive is idle leave it idle.\<close>

lemma task_file_view:
  assumes "drives P view" and "d_idle (view h)" and "p \<in> task_file"
  shows "view (p_outb P p v h) = drive_outb p v (view h)" "d_idle (drive_outb p v (view h))"
proof -
  show "view (p_outb P p v h) = drive_outb p v (view h)" by (rule drivesD(1) [OF assms(1,2)]) (use assms(3) in simp)
  have "p \<noteq> ATA_CMD" using assms(3) by (auto simp: task_file_def ata_ports)
  then show "d_idle (drive_outb p v (view h))" using assms(2) by (simp add: drive_outb_def d_idle_def)
qed

lemma bit_E0: "bit (0xE0 :: 'a::semiring_bit_operations) n \<Longrightarrow> 5 \<le> n"
proof -
  have "(0xE0 :: 'a) = push_bit 5 7" by (simp add: push_bit_eq_mult)
  then show "bit (0xE0 :: 'a) n \<Longrightarrow> 5 \<le> n" by (simp only: bit_push_bit_iff)
qed

lemma lba_latch:
  fixes x lba :: u32
  assumes "unat lba < 2 ^ 28"
  defines "x1 \<equiv> (x AND 0x00FFFFFF) OR push_bit 24 (ucast ((0xE0 OR ucast (drop_bit 24 lba AND 0x0F) :: u8) AND 0x0F))"
  defines "x2 \<equiv> (x1 AND 0xFFFFFF00) OR ucast (ucast (lba AND 0xFF) :: u8)"
  defines "x3 \<equiv> (x2 AND 0xFFFF00FF) OR push_bit 8 (ucast (ucast (drop_bit 8 lba AND 0xFF) :: u8))"
  shows "(x3 AND 0xFF00FFFF) OR push_bit 16 (ucast (ucast (drop_bit 16 lba AND 0xFF) :: u8)) = lba"
proof (rule bit_word_eqI)
  have m: "(0x00FFFFFF::u32) = mask 24" "(0xFFFFFF00::u32) = NOT (mask 8)" "(0xFF::u32) = mask 8" "(0x0F::u32) = mask 4"
    "(0xFFFF00FF::u32) = NOT (push_bit 8 (mask 8))" "(0xFF00FFFF::u32) = NOT (push_bit 16 (mask 8))" "(0x0F::u8) = mask 4"
    by (simp_all add: mask_eq_exp_minus_1)
  have hi: "bit lba n \<Longrightarrow> n < 28" for n
  proof (rule ccontr)
    assume b: "bit lba n" "\<not> n < 28"
    have "2 ^ 28 \<le> (2::nat) ^ n" using power_increasing [of 28 n "2::nat"] b(2) by linarith
    then have "unat lba div 2 ^ n = 0" using assms(1) by simp
    moreover have "bit (unat lba) n" using b(1) bit_imp_le_length [OF b(1)] by (simp add: bit_unsigned_iff)
    ultimately show False by (simp add: bit_iff_odd)
  qed
  fix n assume "n < LENGTH(32)"
  then consider "n < 8" | "8 \<le> n" "n < 16" | "16 \<le> n" "n < 24" | "24 \<le> n" "n < 32" by force
  then show "bit ((x3 AND 0xFF00FFFF) OR push_bit 16 (ucast (ucast (drop_bit 16 lba AND 0xFF) :: u8))) n = bit lba n"
    unfolding x3_def x2_def x1_def m
    by cases (auto simp: bit_or_iff bit_and_iff bit_not_iff bit_push_bit_iff bit_ucast_iff bit_drop_bit_eq bit_mask_iff dest: hi bit_E0)
qed

lemma ata_command_view:
  assumes P: "drives P view" and "unat lba < 2 ^ 28" and idle: "d_idle (view h)" and c: "cmd \<in> {CMD_READ, CMD_WRITE, 0xE7}"
  shows "view (ata_command P lba cmd h) = drive_outb ATA_CMD cmd ((view h)\<lparr>d_lba := lba\<rparr>)"
proof -
  have tf: "ATA_FEAT \<in> task_file" "ATA_SECCNT \<in> task_file" "ATA_LBA0 \<in> task_file" "ATA_LBA1 \<in> task_file"
    "ATA_LBA2 \<in> task_file" "ATA_DRIVE \<in> task_file" by (simp_all add: task_file_def)
  let ?o = "p_outb P"
  define h1 where "h1 = ata_delay P (?o ATA_DRIVE (0xE0 OR ucast (drop_bit 24 lba AND 0x0F)) h)"
  note t1 = task_file_view [OF P idle tf(6), of "0xE0 OR ucast (drop_bit 24 lba AND 0x0F)"]
  have v1: "view h1 = drive_outb ATA_DRIVE (0xE0 OR ucast (drop_bit 24 lba AND 0x0F)) (view h)"
    using t1 by (simp add: h1_def ata_delay_def ctrl_reads_view [OF P]) (simp add: d_idle_def)
  have i1: "d_idle (view h1)" using t1(2) v1 by simp
  note t2 = task_file_view [OF P i1 tf(1), of 0]
  note t3 = task_file_view [OF P t2(2) [folded t2(1)] tf(2), of 1]
  note t4 = task_file_view [OF P t3(2) [folded t3(1)] tf(3), of "ucast (lba AND 0xFF)"]
  note t5 = task_file_view [OF P t4(2) [folded t4(1)] tf(4), of "ucast (drop_bit 8 lba AND 0xFF)"]
  note t6 = task_file_view [OF P t5(2) [folded t5(1)] tf(5), of "ucast (drop_bit 16 lba AND 0xFF)"]
  have "view (ata_command P lba cmd h) = drive_outb ATA_CMD cmd (drive_outb ATA_LBA2 (ucast (drop_bit 16 lba AND 0xFF))
      (drive_outb ATA_LBA1 (ucast (drop_bit 8 lba AND 0xFF)) (drive_outb ATA_LBA0 (ucast (lba AND 0xFF))
      (drive_outb ATA_SECCNT 1 (drive_outb ATA_FEAT 0 (drive_outb ATA_DRIVE (0xE0 OR ucast (drop_bit 24 lba AND 0x0F)) (view h)))))))"
    unfolding ata_command_def Let_def h1_def [symmetric]
    using drivesD(1) [OF P t6(2) [folded t6(1)], of ATA_CMD cmd] c t6(1) t5(1) t4(1) t3(1) t2(1) v1 by simp
  also have "\<dots> = drive_outb ATA_CMD cmd ((view h)\<lparr>d_lba := lba\<rparr>)"
    using lba_latch [OF assms(2), of "d_lba (view h)"] by (simp add: drive_outb_def ata_ports)
  finally show ?thesis .
qed

lemma ata_poll_ready:
  assumes "drives P view" and "d_busy (view h) < n" and "want \<longrightarrow> d_out (view h) \<noteq> [] \<or> d_in (view h) \<noteq> None"
  shows "\<exists>h'. ata_poll n P want h = (0, h') \<and> view h' = (view h)\<lparr>d_busy := 0\<rparr>"
  using assms(2,3)
proof (induction n arbitrary: h)
  case (Suc n)
  obtain st h1 where i: "p_inb P ATA_STATUS h = (st, h1)" by force
  have d: "drive_inb ATA_STATUS (view h) = (st, view h1)" by (rule drivesD(2) [OF assms(1) _ i]) simp
  show ?case
  proof (cases "d_busy (view h) = 0")
    case True
    then have "view h1 = view h" "st = (if d_out (view h) \<noteq> [] \<or> d_in (view h) \<noteq> None then 0x48 else 0x40)"
      using d by (auto simp: drive_inb_def)
    with True Suc.prems(2) i show ?thesis by (auto simp: ata_status_def ata_bits)
  next
    case False
    then have h1: "view h1 = (view h)\<lparr>d_busy := d_busy (view h) - 1\<rparr>" "st = 0x80"
      using d by (auto simp: drive_inb_def)
    have "\<exists>h'. ata_poll n P want h1 = (0, h') \<and> view h' = (view h1)\<lparr>d_busy := 0\<rparr>"
      by (rule Suc.IH) (use Suc.prems False h1 in auto)
    with i h1 show ?thesis by (auto simp: ata_status_def ata_bits)
  qed
qed simp

lemma read_words_view:
  assumes "drives P view" and "d_out (view h) = ws" and "d_busy (view h) = 0"
  shows "\<exists>h'. read_words (length ws) P h = (ws, h') \<and> view h' = (view h)\<lparr>d_out := []\<rparr>"
  using assms(2,3)
proof (induction ws arbitrary: h)
  case Nil
  have "(view h)\<lparr>d_out := []\<rparr> = view h" using Nil(1) [symmetric] by simp
  then show ?case by simp
next
  case (Cons w ws)
  obtain y h1 where i: "p_inw P ATA_DATA h = (y, h1)" by force
  have "y = w" "view h1 = (view h)\<lparr>d_out := ws\<rparr>" using drivesD(3) [OF assms(1) _ _ i] Cons.prems by (simp_all add: drive_inw_def)
  with Cons.IH [of h1] Cons.prems(2) i show ?case by auto
qed

lemma write_words_view:
  assumes "drives P view" and "d_in (view h) = Some acc" and "length acc + length ws = 256" and "ws \<noteq> []" and "d_busy (view h) = 0"
  shows "view (write_words P ws h) = (view h)\<lparr>d_disk := (d_disk (view h))(d_lba (view h) := bytes_of_words (acc @ ws)),
    d_in := None, d_busy := d_settle (view h)\<rparr>"
  using assms(2-5)
proof (induction ws arbitrary: h acc)
  case (Cons w ws)
  let ?h = "p_outw P ATA_DATA w h"
  have v: "view ?h = drive_outw ATA_DATA w (view h)" using drivesD(4) [OF assms(1)] Cons.prems by simp
  show ?case
  proof (cases "ws = []")
    case True
    then show ?thesis using v Cons.prems by (simp add: write_words_def drive_outw_def fun_upd_def)
  next
    case False
    then have n: "length acc \<noteq> 255" using Cons.prems(2) by (cases ws) auto
    then have v': "view ?h = (view h)\<lparr>d_in := Some (acc @ [w])\<rparr>" using v Cons.prems(1) by (simp add: drive_outw_def)
    have "view (write_words P ws ?h) = (view ?h)\<lparr>d_disk := (d_disk (view ?h))(d_lba (view ?h) := bytes_of_words ((acc @ [w]) @ ws)),
        d_in := None, d_busy := d_settle (view ?h)\<rparr>"
      by (rule Cons.IH) (use v' Cons.prems False in auto)
    then show ?thesis using v' by (simp add: write_words_def fun_upd_def)
  qed
qed simp

section \<open>Sectors of the drive\<close>

definition ata_ok :: "'h ports \<Rightarrow> ('h \<Rightarrow> drive) \<Rightarrow> 'h ata_state \<Rightarrow> bool" where
  "ata_ok P view s \<longleftrightarrow> drives P view \<and> drive_ok (view (ata_hw s)) \<and> ata_is_present s \<and>
     unat (ata_sectors s) < 2 ^ 28"

lemma ata_read_sector_ok:
  assumes ok: "ata_ok P view s" and lba: "lba < ata_sectors s"
  shows "\<exists>h. ata_read_sector P lba s = ((0, d_disk (view (ata_hw s)) lba), s\<lparr>ata_hw := h\<rparr>) \<and>
    ata_ok P view (s\<lparr>ata_hw := h\<rparr>) \<and> d_disk (view h) = d_disk (view (ata_hw s)) \<and> d_settle (view h) = d_settle (view (ata_hw s))"
proof -
  let ?d = "view (ata_hw s)"
  have P: "drives P view" and d: "\<And>l. length (d_disk ?d l) = 512" "d_delay ?d < 2000000" "d_idle ?d" and n: "unat lba < 2 ^ 28"
    using ok lba by (auto simp: ata_ok_def drive_ok_def word_less_nat_alt)
  define h1 where "h1 = ata_command P lba CMD_READ (ata_hw s)"
  let ?ws = "words_of_bytes (d_disk ?d lba)"
  have lw: "length ?ws = 256" using d(1) by simp
  then have ne: "?ws \<noteq> []" by (metis list.size(3) zero_neq_numeral)
  have v1: "view h1 = ?d\<lparr>d_lba := lba, d_busy := d_delay ?d, d_out := ?ws, d_in := None\<rparr>"
    unfolding h1_def using ata_command_view [OF P n d(3), of CMD_READ] by (simp add: drive_outb_def ata_ports)
  obtain h2 where w: "ata_wait P True h1 = (0, h2)" "view h2 = (view h1)\<lparr>d_busy := 0\<rparr>"
    using ata_poll_ready [OF P, of h1 2000000 True] v1 d(2) ne unfolding ata_wait_def by auto
  obtain h3 where r: "read_words 256 P h2 = (?ws, h3)" "view h3 = (view h2)\<lparr>d_out := []\<rparr>"
    using read_words_view [OF P, of h2 ?ws] w(2) v1 lw by auto
  have "ata_read_sector P lba s = ((0, d_disk ?d lba), s\<lparr>ata_hw := h3\<rparr>)"
    using lba w(1) r(1) d(1) by (simp add: ata_read_sector_def h1_def [symmetric])
  moreover have "d_disk (view h3) = d_disk ?d" "d_settle (view h3) = d_settle ?d" "drive_ok (view h3)"
    using r(2) w(2) v1 d by (simp_all add: drive_ok_def d_idle_def)
  ultimately show ?thesis using ok by (auto simp: ata_ok_def)
qed

text \<open>The transfer of a sector, up to the point where the driver flushes the cache.\<close>

lemma write_transfer:
  assumes ok: "ata_ok P view s" and lba: "lba < ata_sectors s" and sec: "length sec = 512"
  shows "\<exists>h. ata_wait P True (ata_command P lba CMD_WRITE (ata_hw s)) = (0, h) \<and>
    view (ctrl_reads 4 P (write_words P (words_of_bytes sec) h)) =
      (view (ata_hw s))\<lparr>d_lba := lba, d_disk := (d_disk (view (ata_hw s)))(lba := sec), d_in := None, d_out := [],
        d_busy := d_settle (view (ata_hw s)) - 4\<rparr>"
proof -
  let ?d = "view (ata_hw s)"
  have P: "drives P view" and d: "\<And>l. length (d_disk ?d l) = 512" "d_delay ?d < 2000000" "d_idle ?d" and n: "unat lba < 2 ^ 28"
    using ok lba by (auto simp: ata_ok_def drive_ok_def word_less_nat_alt)
  define h1 where "h1 = ata_command P lba CMD_WRITE (ata_hw s)"
  have v1: "view h1 = ?d\<lparr>d_lba := lba, d_busy := d_delay ?d, d_out := [], d_in := Some []\<rparr>"
    unfolding h1_def using ata_command_view [OF P n d(3), of CMD_WRITE]
    by (simp add: drive_outb_def ata_ports CMD_READ_def CMD_WRITE_def)
  obtain h2 where w: "ata_wait P True h1 = (0, h2)" "view h2 = (view h1)\<lparr>d_busy := 0\<rparr>"
    using ata_poll_ready [OF P, of h1 2000000 True] v1 d(2) unfolding ata_wait_def by auto
  have lw: "length (words_of_bytes sec) = 256" using sec by simp
  then have ne: "words_of_bytes sec \<noteq> []" by (metis list.size(3) zero_neq_numeral)
  have v3: "view (write_words P (words_of_bytes sec) h2) =
      (view h2)\<lparr>d_disk := (d_disk ?d)(lba := sec), d_in := None, d_busy := d_settle ?d\<rparr>"
    using write_words_view [OF P, of h2 "[]" "words_of_bytes sec"] w(2) v1 lw ne sec by simp
  then show ?thesis using w v1 by (auto simp: ctrl_reads_view [OF P] simp flip: h1_def)
qed

lemma ata_write_sector_ok:
  assumes ok: "ata_ok P view s" and lba: "lba < ata_sectors s" and sec: "length sec = 512"
    and fast: "d_settle (view (ata_hw s)) \<le> 4"
  shows "\<exists>h. ata_write_sector P lba sec s = (0, s\<lparr>ata_hw := h\<rparr>) \<and> ata_ok P view (s\<lparr>ata_hw := h\<rparr>) \<and>
    d_disk (view h) = (d_disk (view (ata_hw s)))(lba := sec) \<and> d_settle (view h) = d_settle (view (ata_hw s))"
proof -
  let ?d = "view (ata_hw s)"
  have P: "drives P view" and d: "\<And>l. length (d_disk ?d l) = 512" "d_delay ?d < 2000000"
    using ok by (auto simp: ata_ok_def drive_ok_def)
  obtain h2 where w: "ata_wait P True (ata_command P lba CMD_WRITE (ata_hw s)) = (0, h2)" and
    v3: "view (ctrl_reads 4 P (write_words P (words_of_bytes sec) h2)) =
      ?d\<lparr>d_lba := lba, d_disk := (d_disk ?d)(lba := sec), d_in := None, d_out := [], d_busy := 0\<rparr>"
    using write_transfer [OF ok lba sec] fast by auto
  define h4 where "h4 = p_outb P ATA_CMD 0xE7 (ctrl_reads 4 P (write_words P (words_of_bytes sec) h2))"
  have v4: "view h4 = ?d\<lparr>d_lba := lba, d_disk := (d_disk ?d)(lba := sec), d_busy := d_delay ?d, d_out := [], d_in := None\<rparr>"
    unfolding h4_def using drivesD(1) [OF P, of _ ATA_CMD "0xE7"] v3
    by (simp add: d_idle_def drive_outb_def ata_ports CMD_READ_def CMD_WRITE_def)
  obtain h5 where w5: "ata_wait P False h4 = (0, h5)" "view h5 = (view h4)\<lparr>d_busy := 0\<rparr>"
    using ata_poll_ready [OF P, of h4 2000000 False] v4 d(2) unfolding ata_wait_def by auto
  have "ata_write_sector P lba sec s = (0, s\<lparr>ata_hw := h5\<rparr>)"
    using lba w w5(1) by (simp add: ata_write_sector_def Let_def flip: h4_def)
  moreover have "d_disk (view h5) = (d_disk ?d)(lba := sec)" "d_settle (view h5) = d_settle ?d" using w5(2) v4 by simp_all
  moreover have "drive_ok (view h5)" using w5(2) v4 d sec by (simp add: drive_ok_def d_idle_def)
  ultimately show ?thesis using ok by (auto simp: ata_ok_def)
qed

text \<open>The driver waits for four reads of the alternate status, not for the drive: if the drive takes longer to store the
  sector, the flush command is written while it is still busy, which the protocol does not allow.\<close>

theorem flush_while_busy:
  assumes "ata_ok P view s" and "lba < ata_sectors s" and "length sec = 512" and "4 < d_settle (view (ata_hw s))"
  shows "\<exists>h h'. ata_wait P True (ata_command P lba CMD_WRITE (ata_hw s)) = (0, h) \<and>
    h' = ctrl_reads 4 P (write_words P (words_of_bytes sec) h) \<and> d_busy (view h') \<noteq> 0 \<and>
    ata_write_sector P lba sec s = (case ata_wait P False (p_outb P ATA_CMD 0xE7 h') of (rc, h) \<Rightarrow> (rc, s\<lparr>ata_hw := h\<rparr>))"
  using write_transfer [OF assms(1-3)] assms(2,4) by (auto simp: ata_write_sector_def Let_def)

section \<open>Byte ranges of the drive\<close>

definition disk_at :: "(u32 \<Rightarrow> u8 list) \<Rightarrow> nat \<Rightarrow> u8" where
  "disk_at disk a = disk (word_of_nat (a div 512)) ! (a mod 512)"

text \<open>The ranges the code accepts: the size of the disk in bytes is computed modulo 4 GiB.\<close>

definition in_disk :: "'h ata_state \<Rightarrow> u32 \<Rightarrow> u32 \<Rightarrow> bool" where
  "in_disk s offset count \<longleftrightarrow> unat offset + unat count \<le> unat (ata_sectors s * 512)"

lemma in_disk_le: "in_disk s offset count \<Longrightarrow> unat offset + unat count \<le> 512 * unat (ata_sectors s)"
proof -
  have "unat (ata_sectors s * 512) \<le> unat (ata_sectors s) * 512" by (simp add: unat_word_ariths(2))
  then show "in_disk s offset count \<Longrightarrow> ?thesis" by (simp add: in_disk_def)
qed

lemma chunk_nat:
  assumes "chunk offset count k = (lba, off, n)" and "k < count" and "unat offset + unat count < 2 ^ 32"
  shows "lba = word_of_nat ((unat offset + unat k) div 512)" and "unat off = (unat offset + unat k) mod 512"
    and "unat lba = (unat offset + unat k) div 512"
proof -
  have pos: "unat (offset + k) = unat offset + unat k"
    using unat_add_small [of offset k] assms(2,3) by (simp add: word_less_nat_alt)
  have c: "lba = (offset + k) div 512" "off = (offset + k) mod 512" using assms(1) by (auto simp: chunk_def Let_def)
  show "unat lba = (unat offset + unat k) div 512" by (simp add: c unat_div pos)
  then show "lba = word_of_nat ((unat offset + unat k) div 512)" by (metis unat_of_nat_u32 unat_u32_lt word_unat_eq_iff)
  show "unat off = (unat offset + unat k) mod 512" by (simp add: c unat_mod pos)
qed

lemma disk_chunk:
  assumes "\<And>l. length (disk l) = 512" and "a mod 512 + n \<le> 512"
  shows "take n (drop (a mod 512) (disk (word_of_nat (a div 512)))) = map (disk_at disk) [a..<a + n]"
proof (rule nth_equalityI)
  fix i assume "i < length (take n (drop (a mod 512) (disk (word_of_nat (a div 512)))))"
  then have i: "i < n" by simp
  define q r where "q = a div 512" and "r = a mod 512"
  have "a + i = (r + i) + q * 512" by (simp add: q_def r_def)
  moreover have "r + i < 512" using assms(2) i by (simp add: r_def)
  ultimately have "(a + i) div 512 = q" "(a + i) mod 512 = r + i"
    by (simp_all only: mod_mult_self1 mod_less div_mult_self1 div_less)
  then show "take n (drop (a mod 512) (disk (word_of_nat (a div 512)))) ! i = map (disk_at disk) [a..<a + n] ! i"
    using i assms by (simp add: disk_at_def q_def r_def)
qed (use assms in simp)

lemma disk_at_update:
  fixes bs :: "u8 list"
  assumes len: "pos mod 512 + length bs \<le> 512" "length sec = 512"
    and sec: "length bs < 512 \<Longrightarrow> sec = disk (word_of_nat (pos div 512))"
    and a: "a < 2 ^ 32" "pos < 2 ^ 32"
  shows "disk_at (disk(word_of_nat (pos div 512) := take (pos mod 512) sec @ bs @ drop (pos mod 512 + length bs) sec)) a =
    (if pos \<le> a \<and> a < pos + length bs then bs ! (a - pos) else disk_at disk a)"
proof (cases "a div 512 = pos div 512")
  case True
  define q where "q = pos div 512"
  have "pos = pos mod 512 + pos div 512 * 512" "a = a mod 512 + a div 512 * 512" by simp_all
  then have pa: "pos = pos mod 512 + q * 512" "a = a mod 512 + q * 512" unfolding True q_def .
  have r: "pos \<le> a \<longleftrightarrow> pos mod 512 \<le> a mod 512" "a < pos + length bs \<longleftrightarrow> a mod 512 < pos mod 512 + length bs"
    "a - pos = a mod 512 - pos mod 512" using pa by linarith+
  have am: "a mod 512 < 512" by simp
  have "sec ! (a mod 512) = disk_at disk a" if "\<not> (pos mod 512 \<le> a mod 512 \<and> a mod 512 < pos mod 512 + length bs)"
  proof -
    have "length bs < 512" using that am len(1) by (cases "pos mod 512 \<le> a mod 512") linarith+
    then show ?thesis using sec True by (simp add: disk_at_def)
  qed
  then show ?thesis using len am True unfolding r by (auto simp: disk_at_def nth_append)
next
  case False
  have "a div 512 < 4294967296" "pos div 512 < 4294967296" using a by simp_all
  then have "word_of_nat (a div 512) \<noteq> (word_of_nat (pos div 512) :: u32)"
    using False word_of_nat_u32_eq by blast
  moreover have "\<not> (pos \<le> a \<and> a < pos + length bs)"
  proof
    assume r: "pos \<le> a \<and> a < pos + length bs"
    have p: "pos = pos mod 512 + pos div 512 * 512" by simp
    have "pos div 512 * 512 \<le> a" "a < (pos div 512 + 1) * 512" using r len(1) p by (simp_all, linarith+)
    then have "a div 512 = pos div 512" by (metis div_nat_eqI mult.commute Suc_eq_plus1)
    with False show False ..
  qed
  ultimately show ?thesis by (auto simp: disk_at_def)
qed

lemma in_disk_no_wrap: "in_disk s offset count \<Longrightarrow> unat offset + unat count < 2 ^ 32"
  using unat_u32_lt [of "ata_sectors s * 512"] by (simp add: in_disk_def)

lemma chunk_in_disk:
  assumes "in_disk s offset count" and "k < count" and "chunk offset count k = (lba, off, n)"
  shows "lba < ata_sectors s"
proof -
  have "(unat offset + unat k) div 512 < unat (ata_sectors s)"
    using in_disk_le [OF assms(1)] assms(2) by (auto simp: word_less_nat_alt less_mult_imp_div_less)
  then show ?thesis using chunk_nat(3) [OF assms(3,2) in_disk_no_wrap [OF assms(1)]] by (simp add: word_less_nat_alt)
qed

lemma ata_read_loop_ok:
  assumes "ata_ok P view s" and "in_disk s offset count" and "k \<le> count"
  shows "\<exists>h. ata_read_loop P offset count k buf s =
      ((sint count, buf @ map (disk_at (d_disk (view (ata_hw s)))) [unat offset + unat k..<unat offset + unat count]),
       s\<lparr>ata_hw := h\<rparr>) \<and> ata_ok P view (s\<lparr>ata_hw := h\<rparr>) \<and> d_disk (view h) = d_disk (view (ata_hw s))"
  using assms
proof (induction "unat count - unat k" arbitrary: k buf s rule: less_induct)
  case less
  let ?disk = "d_disk (view (ata_hw s))"
  show ?case
  proof (cases "k < count")
    case False
    then have "k = count" using less.prems(3) by simp
    moreover have "s\<lparr>ata_hw := ata_hw s\<rparr> = s" by simp
    ultimately show ?thesis using less.prems(1) by (subst ata_read_loop.simps) (auto intro!: exI [of _ "ata_hw s"])
  next
    case True
    obtain lba off n where c: "chunk offset count k = (lba, off, n)" by (metis prod_cases3)
    note pr = chunk_progress [OF True c]
    note cn = chunk_nat [OF c True in_disk_no_wrap [OF less.prems(2)]]
    obtain h where r: "ata_read_sector P lba s = ((0, ?disk lba), s\<lparr>ata_hw := h\<rparr>)"
      "ata_ok P view (s\<lparr>ata_hw := h\<rparr>)" "d_disk (view h) = ?disk"
      using ata_read_sector_ok [OF less.prems(1) chunk_in_disk [OF less.prems(2) True c]] by blast
    let ?p = "unat offset + unat k"
    have t: "take (unat n) (drop (unat off) (?disk lba)) = map (disk_at ?disk) [?p..<?p + unat n]"
      unfolding cn(1,2) using disk_chunk [of ?disk ?p "unat n"] less.prems(1) pr(4) cn(2) by (simp add: ata_ok_def drive_ok_def)
    have "\<exists>h'. ata_read_loop P offset count (k + n) (buf @ map (disk_at ?disk) [?p..<?p + unat n]) (s\<lparr>ata_hw := h\<rparr>) =
      ((sint count, (buf @ map (disk_at ?disk) [?p..<?p + unat n]) @
         map (disk_at (d_disk (view h))) [unat offset + unat (k + n)..<unat offset + unat count]), s\<lparr>ata_hw := h'\<rparr>) \<and>
       ata_ok P view (s\<lparr>ata_hw := h'\<rparr>) \<and> d_disk (view h') = d_disk (view h)"
      using less.hyps [of "k + n" "s\<lparr>ata_hw := h\<rparr>" "buf @ map (disk_at ?disk) [?p..<?p + unat n]"] r(2) less.prems(2) pr True
      by (simp add: in_disk_def word_le_nat_alt word_less_nat_alt)
    then obtain h' where h': "ata_read_loop P offset count (k + n) (buf @ map (disk_at ?disk) [?p..<?p + unat n]) (s\<lparr>ata_hw := h\<rparr>) =
      ((sint count, (buf @ map (disk_at ?disk) [?p..<?p + unat n]) @
         map (disk_at ?disk) [?p + unat n..<unat offset + unat count]), s\<lparr>ata_hw := h'\<rparr>)"
      "ata_ok P view (s\<lparr>ata_hw := h'\<rparr>)" "d_disk (view h') = ?disk" using r(3) pr(3) by (auto simp: add.assoc)
    have le: "?p + unat n \<le> unat offset + unat count" using pr(2) True by (simp add: word_less_nat_alt)
    have sp: "map (disk_at ?disk) [?p..<?p + unat n] @ map (disk_at ?disk) [?p + unat n..<unat offset + unat count] =
        map (disk_at ?disk) [?p..<unat offset + unat count]"
      unfolding map_append [symmetric]
      using upt_add_eq_append [of ?p "?p + unat n" "unat offset + unat count - (?p + unat n)"] le by simp
    show ?thesis
      using True c r(1) t h' sp by (subst ata_read_loop.simps) auto
  qed
qed

lemma ata_write_loop_ok:
  assumes "ata_ok P view s" and "in_disk s offset count" and "k \<le> count" and "d_settle (view (ata_hw s)) \<le> 4"
    and "unat count \<le> length buf"
  shows "\<exists>h. ata_write_loop P offset buf count k s = (sint count, s\<lparr>ata_hw := h\<rparr>) \<and> ata_ok P view (s\<lparr>ata_hw := h\<rparr>) \<and>
    (\<forall>a < 2 ^ 32. disk_at (d_disk (view h)) a =
      (if unat offset + unat k \<le> a \<and> a < unat offset + unat count then buf ! (a - unat offset)
       else disk_at (d_disk (view (ata_hw s))) a))"
  using assms(1-4)
proof (induction "unat count - unat k" arbitrary: k s rule: less_induct)
  case less
  let ?disk = "d_disk (view (ata_hw s))"
  show ?case
  proof (cases "k < count")
    case False
    then have "k = count" using less.prems(3) by simp
    moreover have "s\<lparr>ata_hw := ata_hw s\<rparr> = s" by simp
    ultimately show ?thesis using less.prems(1) by (subst ata_write_loop.simps) (auto intro!: exI [of _ "ata_hw s"])
  next
    case True
    obtain lba off n where c: "chunk offset count k = (lba, off, n)" by (metis prod_cases3)
    note pr = chunk_progress [OF True c]
    note cn = chunk_nat [OF c True in_disk_no_wrap [OF less.prems(2)]]
    have lba: "lba < ata_sectors s" by (rule chunk_in_disk [OF less.prems(2) True c])
    let ?p = "unat offset + unat k" and ?bs = "take (unat n) (drop (unat k) buf)"
    obtain sec h where r: "(if n \<noteq> 512 then ata_read_sector P lba s else ((0, replicate 512 0), s)) = ((0, sec), s\<lparr>ata_hw := h\<rparr>)"
      "ata_ok P view (s\<lparr>ata_hw := h\<rparr>)" "d_disk (view h) = ?disk" "length sec = 512" "n \<noteq> 512 \<Longrightarrow> sec = ?disk lba"
      "d_settle (view h) \<le> 4"
    proof (cases "n = 512")
      case True
      then show ?thesis using that [of "replicate 512 0" "ata_hw s"] less.prems(1,4) by simp
    next
      case False
      moreover have "length (?disk lba) = 512" using less.prems(1) by (simp add: ata_ok_def drive_ok_def)
      ultimately show ?thesis using that [of "?disk lba"] ata_read_sector_ok [OF less.prems(1) lba] less.prems(4) by auto
    qed
    have lb: "length ?bs = unat n" using pr(2) assms(5) True by (simp add: word_less_nat_alt)
    let ?sec = "take (unat off) sec @ ?bs @ drop (unat off + unat n) sec"
    have ls: "length ?sec = 512" using r(4) lb pr(4) by simp
    obtain h2 where w: "ata_write_sector P lba ?sec (s\<lparr>ata_hw := h\<rparr>) = (0, s\<lparr>ata_hw := h2\<rparr>)"
      "ata_ok P view (s\<lparr>ata_hw := h2\<rparr>)" "d_disk (view h2) = ?disk(lba := ?sec)"
      "d_settle (view h2) \<le> 4"
      using ata_write_sector_ok [OF r(2) _ ls, of lba] lba r(3,6) by auto
    have pl: "?p < 2 ^ 32" using in_disk_no_wrap [OF less.prems(2)] True by (simp add: word_less_nat_alt)
    have "unat n = 512 \<longleftrightarrow> n = 512" by (simp add: word_unat_eq_iff)
    then have d2: "disk_at (d_disk (view h2)) a = (if ?p \<le> a \<and> a < ?p + unat n then buf ! (a - unat offset) else disk_at ?disk a)"
      if "a < 2 ^ 32" for a
      using disk_at_update [of ?p ?bs sec ?disk a] that pl r(4,5) lb pr(4) cn w(3) assms(5)
      by (auto simp: add.assoc)
    obtain h3 where h3: "ata_write_loop P offset buf count (k + n) (s\<lparr>ata_hw := h2\<rparr>) = (sint count, s\<lparr>ata_hw := h3\<rparr>)"
      "ata_ok P view (s\<lparr>ata_hw := h3\<rparr>)" "\<forall>a < 2 ^ 32. disk_at (d_disk (view h3)) a =
      (if unat offset + unat (k + n) \<le> a \<and> a < unat offset + unat count then buf ! (a - unat offset)
       else disk_at (d_disk (view h2)) a)"
    proof -
      have "unat count - unat (k + n) < unat count - unat k" "k + n \<le> count"
        using pr True by (simp_all add: word_le_nat_alt word_less_nat_alt)
      moreover have "in_disk (s\<lparr>ata_hw := h2\<rparr>) offset count" using less.prems(2) by (simp add: in_disk_def)
      ultimately show ?thesis using less.hyps [of "k + n" "s\<lparr>ata_hw := h2\<rparr>"] w(2,4) that by auto
    qed
    have "ata_write_loop P offset buf count k s = (sint count, s\<lparr>ata_hw := h3\<rparr>)"
      using True c r(1) w(1) h3(1) by (subst ata_write_loop.simps) (simp add: Let_def)
    moreover have "\<forall>a < 2 ^ 32. disk_at (d_disk (view h3)) a =
      (if ?p \<le> a \<and> a < unat offset + unat count then buf ! (a - unat offset) else disk_at ?disk a)"
      using h3(3) d2 pr(2,3) True by (auto simp: word_less_nat_alt)
    ultimately show ?thesis using h3(2) by blast
  qed
qed

lemma in_disk_guards: "in_disk s offset count \<longleftrightarrow> \<not> count > 0xFFFFFFFF - offset \<and> \<not> offset + count > ata_sectors s * 512"
proof -
  have c: "count > 0xFFFFFFFF - offset \<longleftrightarrow> 4294967296 \<le> unat offset + unat count"
    using unat_sub [of offset "0xFFFFFFFF"] unat_u32_lt [of offset] by (auto simp: word_le_nat_alt word_less_nat_alt)
  have "unat (offset + count) = unat offset + unat count" if "unat offset + unat count < 4294967296"
    using unat_add_small [of offset count] that by simp
  then show ?thesis using in_disk_no_wrap [of s offset count] unfolding c by (auto simp: in_disk_def word_less_nat_alt)
qed

lemma ata_write_bytes_ok:
  assumes "ata_ok P view s" and "d_settle (view (ata_hw s)) \<le> 4" and "count = 0 \<or> in_disk s offset count" and "unat count \<le> length buf"
  shows "\<exists>h. ata_write_bytes P offset buf count s = (sint count, s\<lparr>ata_hw := h\<rparr>) \<and> ata_ok P view (s\<lparr>ata_hw := h\<rparr>) \<and>
    (\<forall>a < 2 ^ 32. disk_at (d_disk (view h)) a =
      (if unat offset \<le> a \<and> a < unat offset + unat count then buf ! (a - unat offset)
       else disk_at (d_disk (view (ata_hw s))) a))"
proof (cases "count = 0")
  case True
  moreover have "s\<lparr>ata_hw := ata_hw s\<rparr> = s" by simp
  ultimately show ?thesis using assms(1) by (auto simp: ata_write_bytes_def ata_ok_def intro!: exI [of _ "ata_hw s"])
next
  case False
  then have i: "in_disk s offset count" using assms(3) by simp
  then have "ata_write_bytes P offset buf count s = ata_write_loop P offset buf count 0 s"
    using False assms(1) by (simp add: in_disk_guards ata_write_bytes_def ata_ok_def)
  then show ?thesis using ata_write_loop_ok [OF assms(1) i _ assms(2,4), of 0] by simp
qed

lemma ata_read_bytes_ok:
  assumes "ata_ok P view s" and "count = 0 \<or> in_disk s offset count"
  shows "\<exists>h. ata_read_bytes P offset count s =
      ((sint count, map (disk_at (d_disk (view (ata_hw s)))) [unat offset..<unat offset + unat count]),
       s\<lparr>ata_hw := h\<rparr>) \<and> ata_ok P view (s\<lparr>ata_hw := h\<rparr>) \<and> d_disk (view h) = d_disk (view (ata_hw s))"
proof (cases "count = 0")
  case True
  moreover have "s\<lparr>ata_hw := ata_hw s\<rparr> = s" by simp
  ultimately show ?thesis using assms(1) by (auto simp: ata_read_bytes_def ata_ok_def intro!: exI [of _ "ata_hw s"])
next
  case False
  then have i: "in_disk s offset count" using assms(2) by simp
  then have "ata_read_bytes P offset count s = ata_read_loop P offset count 0 [] s"
    using False assms(1) by (simp add: in_disk_guards ata_read_bytes_def ata_ok_def)
  then show ?thesis using ata_read_loop_ok [OF assms(1) i, of 0 "[]"] by simp
qed

lemma ata_refused:
  assumes "ata_is_present s" and "count \<noteq> 0" and "\<not> in_disk s offset count"
  shows "ata_write_bytes P offset buf count s = (- 22, s)" "ata_read_bytes P offset count s = ((- 22, []), s)"
  using assms by (auto simp: in_disk_guards ata_write_bytes_def ata_read_bytes_def)

text \<open>The size is computed modulo 4 GiB: on a disk of exactly 4 GiB every transfer is refused.\<close>

theorem four_gib_refused:
  assumes "ata_is_present s" and "ata_sectors s = 0x800000" and "count \<noteq> 0"
  shows "ata_write_bytes P offset buf count s = (- 22, s) \<and> ata_read_bytes P offset count s = ((- 22, []), s)"
proof -
  have "0 < unat count" using assms(3) by (simp add: unat_gt_0)
  then have "\<not> in_disk s offset count" by (simp add: in_disk_def assms(2))
  then show ?thesis using ata_refused [OF assms(1,3)] by blast
qed


definition drive_demo :: "drive ata_state" where
  "drive_demo = \<lparr>ata_is_present = True, ata_sectors = 8, ata_model_buf = [], ata_hw =
     \<lparr>d_disk = (\<lambda>_. replicate 512 0), d_delay = 3, d_settle = 2, d_busy = 0, d_lba = 0, d_out = [], d_in = None\<rparr>\<rparr>"


end
