(* ===== verification/Part.thy ===== *)
theory Part
  imports Ata
begin

text \<open>
  Partition tables of \<^verbatim>\<open>src/part.c\<close>: the MBR in sector 0 and the GPT behind a protective MBR, read
  through the disk driver.  The messages the code writes to the serial line are not part of the
  state.
\<close>

definition PART_MAX :: nat where "PART_MAX = 8"

record part_t =
  start_lba :: u64
  pt_sectors :: u64
  pt_type :: u8
  pt_gpt :: bool
  pt_name :: "u8 list"

record part_state =
  parts :: "part_t list"
  nparts :: nat
  part_is_present :: bool
  partitioned :: bool

section \<open>Little-endian fields of a buffer\<close>

definition le16 :: "u8 list \<Rightarrow> nat \<Rightarrow> u16" where
  "le16 b i = ucast (b ! i) OR push_bit 8 (ucast (b ! (i + 1)))"

definition le32 :: "u8 list \<Rightarrow> nat \<Rightarrow> u32" where
  "le32 b i = ucast (b ! i) OR push_bit 8 (ucast (b ! (i + 1))) OR push_bit 16 (ucast (b ! (i + 2))) OR
     push_bit 24 (ucast (b ! (i + 3)))"

definition le64 :: "u8 list \<Rightarrow> nat \<Rightarrow> u64" where
  "le64 b i = ucast (le32 b i) OR push_bit 32 (ucast (le32 b (i + 4)))"

section \<open>Tables\<close>

definition read_sector :: "'h ports \<Rightarrow> u64 \<Rightarrow> 'h ata_state \<Rightarrow> (int \<times> u8 list) \<times> 'h ata_state" where
  "read_sector P lba s =
     (if lba > 0xFFFFFFFF then ((- 1, []), s) else ata_read_bytes P (ucast lba * 512) 512 s)"

definition guid_basic_data :: "u8 list" where
  "guid_basic_data = [0xA2, 0xA0, 0xD0, 0xEB, 0xE5, 0xB9, 0x33, 0x44,
     0x87, 0xC0, 0x68, 0xB6, 0xB7, 0x26, 0x99, 0xC7]"

text \<open>The low bytes of the UTF-16 name up to a NUL, at most 18 of them, stored over the old array.\<close>

definition guid_name :: "u8 list \<Rightarrow> u8 list \<Rightarrow> u8 list" where
  "guid_name entry old =
     (let cs = takeWhile (\<lambda>c. c \<noteq> 0) (map (\<lambda>i. entry ! (56 + 2 * i)) [0..<18])
      in cs @ [0] @ drop (length cs + 1) old)"

definition add_part :: "u64 \<Rightarrow> u64 \<Rightarrow> u8 \<Rightarrow> bool \<Rightarrow> (u8 list \<Rightarrow> u8 list) \<Rightarrow> part_state \<Rightarrow> part_state" where
  "add_part first count ty gpt name ps =
     ps\<lparr>parts := (parts ps)[nparts ps := \<lparr>start_lba = first, pt_sectors = count, pt_type = ty, pt_gpt = gpt,
          pt_name = name (pt_name (parts ps ! nparts ps))\<rparr>],
        nparts := nparts ps + 1\<rparr>"

definition add_gpt_entry :: "u8 list \<Rightarrow> part_state \<Rightarrow> part_state" where
  "add_gpt_entry e ps =
     (if take 16 e \<noteq> guid_basic_data then ps
      else if le64 e 40 < le64 e 32 then ps
      else add_part (le64 e 32) (le64 e 40 - le64 e 32 + 1) 0xEE True (guid_name e) ps)"

fun gpt_entries ::
  "'h ports \<Rightarrow> u64 \<Rightarrow> u32 \<Rightarrow> u32 list \<Rightarrow> part_state \<Rightarrow> 'h ata_state \<Rightarrow> bool \<times> part_state \<times> 'h ata_state" where
  "gpt_entries P entries_lba esz [] ps s = (nparts ps > 0, ps, s)"
| "gpt_entries P entries_lba esz (i # is) ps s =
     (if nparts ps \<ge> PART_MAX then (nparts ps > 0, ps, s)
      else
        let pos = ucast i * ucast esz :: u64;
            lba = entries_lba + pos div 512;
            off = ucast (pos mod 512) :: u32
        in case read_sector P lba s of ((rc, ent), s) \<Rightarrow>
          if rc \<noteq> 512 then (False, ps, s)
          else if off + esz > 512
          then case read_sector P (lba + 1) s of ((rc, ent2), s) \<Rightarrow>
                 if rc \<noteq> 512 then (False, ps, s)
                 else gpt_entries P entries_lba esz is (add_gpt_entry (drop (unat off) (ent @ ent2)) ps) s
          else gpt_entries P entries_lba esz is (add_gpt_entry (drop (unat off) ent) ps) s)"

text \<open>\<^verbatim>\<open>"EFI PART"\<close>\<close>

definition gpt_signature :: "u8 list" where
  "gpt_signature = [0x45, 0x46, 0x49, 0x20, 0x50, 0x41, 0x52, 0x54]"

definition parse_gpt :: "'h ports \<Rightarrow> part_state \<Rightarrow> 'h ata_state \<Rightarrow> bool \<times> part_state \<times> 'h ata_state" where
  "parse_gpt P ps s =
     (case read_sector P 1 s of ((rc, hdr), s) \<Rightarrow>
        if rc \<noteq> 512 then (False, ps, s)
        else if take 8 hdr \<noteq> gpt_signature then (False, ps, s)
        else
          let num = le32 hdr 80; esz = le32 hdr 84
          in if esz < 128 \<or> esz > 512 \<or> num = 0 \<or> num > 128 then (False, ps, s)
             else gpt_entries P (le64 hdr 72) esz (u32_range 0 num) ps s)"

definition add_mbr_entry :: "u8 list \<Rightarrow> nat \<Rightarrow> part_state \<Rightarrow> part_state" where
  "add_mbr_entry mbr i ps =
     (if nparts ps \<ge> PART_MAX then ps
      else
        let e = 446 + i * 16; type = mbr ! (e + 4); first = le32 mbr (e + 8); count = le32 mbr (e + 12)
        in if type = 0 \<or> first = 0 \<or> count = 0 then ps
           else add_part (ucast first) (ucast count) type False (\<lambda>old. old[0 := 0]) ps)"

definition part_init :: "'h ports \<Rightarrow> part_state \<Rightarrow> 'h ata_state \<Rightarrow> bool \<times> part_state \<times> 'h ata_state" where
  "part_init P ps s =
     (let ps = ps\<lparr>nparts := 0, part_is_present := False, partitioned := False\<rparr>
      in if \<not> ata_present s then (False, ps, s)
         else case read_sector P 0 s of ((rc, mbr), s) \<Rightarrow>
           if rc \<noteq> 512 then (False, ps, s)
           else if mbr ! 510 \<noteq> 0x55 \<or> mbr ! 511 \<noteq> 0xAA then (False, ps, s)
           else
             let ps = ps\<lparr>partitioned := True, part_is_present := True\<rparr>;
                 has_gpt = list_ex (\<lambda>i. mbr ! (446 + i * 16 + 4) = 0xEE) [0..<4];
                 (ok, ps, s) = (if has_gpt then parse_gpt P ps s else (False, ps, s))
             in if ok then (True, ps, s)
                else (True, fold (add_mbr_entry mbr) [0..<4] ps, s))"

definition part_present :: "part_state \<Rightarrow> bool" where
  "part_present ps = part_is_present ps"

definition part_is_partitioned :: "part_state \<Rightarrow> bool" where
  "part_is_partitioned ps = partitioned ps"

definition part_count :: "part_state \<Rightarrow> nat" where
  "part_count ps = nparts ps"

definition part_get :: "part_state \<Rightarrow> int \<Rightarrow> part_t option" where
  "part_get ps index =
     (if index < 0 \<or> index \<ge> int (nparts ps) then None else Some (parts ps ! nat index))"

definition part_find_type :: "part_state \<Rightarrow> u8 \<Rightarrow> nat option" where
  "part_find_type ps ty =
     find_idx (\<lambda>p. \<not> pt_gpt p \<and> pt_type p = ty) (take (nparts ps) (parts ps))"

section \<open>The table is well formed\<close>

definition parts_ok :: "part_state \<Rightarrow> bool" where
  "parts_ok ps \<longleftrightarrow> length (parts ps) = PART_MAX \<and> nparts ps \<le> PART_MAX \<and>
     (\<forall>p \<in> set (parts ps). length (pt_name p) = 24) \<and>
     (\<forall>p \<in> set (take (nparts ps) (parts ps)). 0 \<in> set (pt_name p))"

lemma add_part_ok:
  assumes "parts_ok ps" and "nparts ps < PART_MAX"
    and "\<And>old. length old = 24 \<Longrightarrow> length (name old) = 24 \<and> 0 \<in> set (name old)"
  shows "parts_ok (add_part first count ty gpt name ps)"
proof -
  have l: "length (parts ps) = PART_MAX" "\<forall>p \<in> set (parts ps). length (pt_name p) = 24"
    using assms(1) by (simp_all add: parts_ok_def)
  let ?old = "pt_name (parts ps ! nparts ps)"
  have "length ?old = 24" using l assms(2) by simp
  note n = assms(3) [OF this]
  have "take (Suc (nparts ps)) ((parts ps)[nparts ps := x]) = take (nparts ps) (parts ps) @ [x]" for x
    using l(1) assms(2) by (simp add: take_Suc_conv_app_nth)
  then show ?thesis using assms(1,2) l n
    by (auto simp: parts_ok_def add_part_def dest!: set_update_subset_insert [THEN subsetD])
qed

lemma guid_name_ok:
  assumes "length old = 24"
  shows "length (guid_name e old) = 24 \<and> 0 \<in> set (guid_name e old)"
proof -
  let ?cs = "takeWhile (\<lambda>c. c \<noteq> 0) (map (\<lambda>i. e ! (56 + 2 * i)) [0..<18])"
  have "length ?cs \<le> 18" using length_takeWhile_le [of "\<lambda>c. c \<noteq> 0" "map (\<lambda>i. e ! (56 + 2 * i)) [0..<18]"] by simp
  with assms show ?thesis by (simp add: guid_name_def Let_def)
qed

lemma add_gpt_entry_ok:
  "parts_ok ps \<Longrightarrow> nparts ps < PART_MAX \<Longrightarrow> parts_ok (add_gpt_entry e ps)"
  by (auto simp: add_gpt_entry_def intro!: add_part_ok guid_name_ok)

lemma gpt_entries_ok:
  "parts_ok ps \<Longrightarrow> gpt_entries P l esz is ps s = (r, ps', s') \<Longrightarrow> parts_ok ps' \<and> partitioned ps' = partitioned ps"
proof (induction "is" arbitrary: ps s)
  case (Cons i "is")
  have ge: "partitioned (add_gpt_entry e ps) = partitioned ps" for e by (simp add: add_gpt_entry_def add_part_def)
  from Cons.prems show ?case
    by (auto simp: Let_def ge not_le split: prod.splits if_splits dest!: Cons.IH [rotated] intro: add_gpt_entry_ok)
qed auto

lemma add_mbr_entry_ok: "parts_ok ps \<Longrightarrow> parts_ok (add_mbr_entry mbr i ps)"
  unfolding add_mbr_entry_def Let_def not_le
  by (auto simp: PART_MAX_def set_update_memI intro!: add_part_ok)

lemma add_mbr_entries_ok: "parts_ok ps \<Longrightarrow> parts_ok (fold (add_mbr_entry mbr) is ps)"
  by (induction "is" arbitrary: ps) (auto simp: add_mbr_entry_ok)

text \<open>C35: Whatever the disk holds, \<^verbatim>\<open>part_init\<close> leaves at most eight partitions with NUL-terminated names in the
  table.\<close>

theorem part_init_ok:
  assumes "parts_ok ps" and "part_init P ps s = (r, ps', s')"
  shows "parts_ok ps'"
proof -
  have z: "parts_ok (ps\<lparr>nparts := 0, part_is_present := False, partitioned := False\<rparr>)"
    "parts_ok (ps\<lparr>nparts := 0, partitioned := True, part_is_present := True\<rparr>)"
    using assms(1) by (simp_all add: parts_ok_def)
  have g: "parts_ok q'" if "parts_ok q" "parse_gpt P q t = (r, q', t')" for q q' t t' r
    using that by (auto simp: parse_gpt_def Let_def split: prod.splits if_splits dest: gpt_entries_ok)
  show ?thesis
    using assms(2) z unfolding part_init_def Let_def
    by (auto split: prod.splits if_splits intro!: add_mbr_entries_ok dest: g [rotated])
qed

section \<open>MBR partitions\<close>

text \<open>What a partition table entry of the MBR says.\<close>

definition mbr_entry :: "u8 list \<Rightarrow> nat \<Rightarrow> u32 \<times> u32 \<times> u8" where
  "mbr_entry mbr i = (le32 mbr (446 + i * 16 + 8), le32 mbr (446 + i * 16 + 12), mbr ! (446 + i * 16 + 4))"

definition mbr_used :: "u8 list \<Rightarrow> nat \<Rightarrow> bool" where
  "mbr_used mbr i \<longleftrightarrow> (case mbr_entry mbr i of (first, count, ty) \<Rightarrow> ty \<noteq> 0 \<and> first \<noteq> 0 \<and> count \<noteq> 0)"

definition listed :: "part_state \<Rightarrow> (u64 \<times> u64 \<times> u8) list" where
  "listed ps = map (\<lambda>p. (start_lba p, pt_sectors p, pt_type p)) (take (nparts ps) (parts ps))"

lemma listed_add_mbr_entry:
  assumes "parts_ok ps" and "nparts ps < PART_MAX"
  shows "listed (add_mbr_entry mbr i ps) = listed ps @
      (if mbr_used mbr i then [case mbr_entry mbr i of (first, count, ty) \<Rightarrow> (ucast first, ucast count, ty)] else []) \<and>
    nparts (add_mbr_entry mbr i ps) \<le> Suc (nparts ps)"
proof -
  have "length (parts ps) = PART_MAX" using assms(1) by (simp add: parts_ok_def)
  then have "take (Suc (nparts ps)) ((parts ps)[nparts ps := x]) = take (nparts ps) (parts ps) @ [x]" for x
    using assms(2) by (simp add: take_Suc_conv_app_nth)
  then show ?thesis using assms(2)
    by (simp add: listed_def add_mbr_entry_def Let_def mbr_used_def mbr_entry_def add_part_def)
qed

lemma listed_mbr_entries:
  assumes "parts_ok ps" and "nparts ps + length is \<le> PART_MAX"
  shows "listed (fold (add_mbr_entry mbr) is ps) = listed ps @
    map (\<lambda>i. case mbr_entry mbr i of (first, count, ty) \<Rightarrow> (ucast first, ucast count, ty)) (filter (mbr_used mbr) is)"
  using assms
proof (induction "is" arbitrary: ps)
  case (Cons i "is")
  have n: "nparts ps < PART_MAX" using Cons.prems(2) by simp
  note l = listed_add_mbr_entry [OF Cons.prems(1) n, of mbr i]
  have "nparts (add_mbr_entry mbr i ps) + length is \<le> PART_MAX" using l Cons.prems(2) by simp
  from Cons.IH [OF add_mbr_entry_ok [OF Cons.prems(1)] this] l show ?case by simp
qed simp


section \<open>An example\<close>

definition mbr_demo :: "u8 list" where
  "mbr_demo = (replicate 512 0)[450 := 0x0C, 455 := 0x08, 458 := 0x10, 510 := 0x55, 511 := 0xAA]"

definition mbr_drive :: "drive ata_state" where
  "mbr_drive = drive_demo\<lparr>ata_hw := (ata_hw drive_demo)\<lparr>d_disk := (\<lambda>_. replicate 512 0)(0 := mbr_demo)\<rparr>\<rparr>"

definition parts_empty :: part_state where
  "parts_empty = \<lparr>parts = replicate 8 \<lparr>start_lba = 0, pt_sectors = 0, pt_type = 0, pt_gpt = False, pt_name = replicate 24 0\<rparr>,
     nparts = 0, part_is_present = False, partitioned = False\<rparr>"

lemma parts_empty_ok: "parts_ok parts_empty"
  by (simp add: parts_ok_def parts_empty_def PART_MAX_def)

theorem part_init_ok_witness:
  "parts_ok (fst (snd (part_init drive_ports parts_empty mbr_drive)))"
proof -
  obtain r ps s where p: "part_init drive_ports parts_empty mbr_drive = (r, ps, s)" by (metis prod_cases3)
  with part_init_ok [OF parts_empty_ok p] show ?thesis by simp
qed


end
