(* ===== verification/Rtc.thy ===== *)
theory Rtc
  imports Muos_Prelude
begin

text \<open>
  The real-time clock of \<^verbatim>\<open>src/rtc.c\<close>: reading the CMOS registers through the index and data
  ports, decoding them, and the conversion of a civil date to seconds since 1970.  The
  era-based day count is proved equal to counting days month by month and year by year.
\<close>

record rtc_datetime_t =
  dt_year :: u16
  dt_month :: u8
  dt_day :: u8
  dt_hour :: u8
  dt_minute :: u8
  dt_second :: u8

record rtc_time_t =
  t_hour :: u8
  t_minute :: u8
  t_second :: u8

section \<open>Calendar\<close>

definition bcd_to_bin :: "u8 \<Rightarrow> u8" where
  "bcd_to_bin v = (v AND 0x0F) + drop_bit 4 v * 10"

definition is_leap :: "int \<Rightarrow> bool" where
  "is_leap y \<longleftrightarrow> (y mod 4 = 0 \<and> y mod 100 \<noteq> 0) \<or> y mod 400 = 0"

definition days_in_month :: "int \<Rightarrow> int \<Rightarrow> u8" where
  "days_in_month y m =
     (if m < 1 \<or> m > 12 then 0
      else if m = 2 \<and> is_leap y then 29
      else [31, 28, 31, 30, 31, 30, 31, 31, 30, 31, 30, 31] ! nat (m - 1))"

text \<open>C division truncates: \<^verbatim>\<open>(y - 399) / 400\<close> on a negative \<open>y\<close> is the negated quotient of the
  absolute value.\<close>

definition days_from_civil :: "int \<Rightarrow> int \<Rightarrow> int \<Rightarrow> int" where
  "days_from_civil y m d =
     (let y = y - (if m \<le> 2 then 1 else 0);
          era = (if y \<ge> 0 then y div 400 else - ((399 - y) div 400));
          yoe = y - era * 400;
          doy = (153 * (m + (if m > 2 then - 3 else 9)) + 2) div 5 + d - 1;
          doe = yoe * 365 + yoe div 4 - yoe div 100 + doy
      in era * 146097 + doe - 719468)"

definition rtc_datetime_to_epoch :: "rtc_datetime_t \<Rightarrow> u32" where
  "rtc_datetime_to_epoch dt =
     (if dt_month dt < 1 \<or> dt_month dt > 12 \<or> dt_day dt < 1 \<or>
         dt_day dt > days_in_month (uint (dt_year dt)) (uint (dt_month dt)) \<or>
         dt_hour dt > 23 \<or> dt_minute dt > 59 \<or> dt_second dt > 59 then 0
      else
        let days = days_from_civil (uint (dt_year dt)) (uint (dt_month dt)) (uint (dt_day dt))
        in if days < 0 then 0
           else word_of_int days * 86400 + ucast (dt_hour dt) * 3600 + ucast (dt_minute dt) * 60 +
             ucast (dt_second dt))"

section \<open>CMOS\<close>

definition cmos_read :: "'h inb \<Rightarrow> 'h outb \<Rightarrow> u8 \<Rightarrow> 'h \<Rightarrow> u8 \<times> 'h" where
  "cmos_read inb outb reg h = inb 0x71 (outb 0x70 (reg OR 0x80) h)"

definition rtc_updating :: "'h inb \<Rightarrow> 'h outb \<Rightarrow> 'h \<Rightarrow> bool \<times> 'h" where
  "rtc_updating inb outb h = (case cmos_read inb outb 0x0A h of (v, h) \<Rightarrow> (v AND 0x80 \<noteq> 0, h))"

text \<open>The loop that waits for the update flag to clear, at most \<open>n\<close> times.\<close>

fun rtc_settle :: "nat \<Rightarrow> 'h inb \<Rightarrow> 'h outb \<Rightarrow> 'h \<Rightarrow> 'h" where
  "rtc_settle 0 inb outb h = h"
| "rtc_settle (Suc n) inb outb h =
     (case rtc_updating inb outb h of (busy, h) \<Rightarrow> if busy then rtc_settle n inb outb h else h)"

text \<open>Decode the raw registers: seconds, minutes, hours, day, month, year, century, status B.\<close>

definition rtc_decode :: "u8 \<Rightarrow> u8 \<Rightarrow> u8 \<Rightarrow> u8 \<Rightarrow> u8 \<Rightarrow> u8 \<Rightarrow> u8 \<Rightarrow> u8 \<Rightarrow> rtc_datetime_t option" where
  "rtc_decode sec mins hour day month year century status =
     (let pm = hour AND 0x80 \<noteq> 0;
          h12 = status AND 0x02 = 0;
          bcd = status AND 0x04 = 0;
          conv = (\<lambda>v. if bcd then bcd_to_bin v else v);
          sec = conv sec; mins = conv mins; hour = conv (hour AND 0x7F);
          day = conv day; month = conv month; year = conv year; century = conv century;
          hour = (if h12 then (if hour = 12 then 0 else hour) + (if pm then 12 else 0) else hour)
      in if month < 1 \<or> month > 12 \<or> day < 1 \<or> day > days_in_month (2000 + uint year) (uint month) \<or>
            hour \<ge> 24 \<or> mins \<ge> 60 \<or> sec \<ge> 60 then None
         else Some \<lparr>dt_year = (if century \<ge> 19 \<and> century \<le> 21 then ucast century * 100 + ucast year
                               else 2000 + ucast year),
                dt_month = month, dt_day = day, dt_hour = hour, dt_minute = mins, dt_second = sec\<rparr>)"

definition rtc_read_datetime :: "'h inb \<Rightarrow> 'h outb \<Rightarrow> 'h \<Rightarrow> rtc_datetime_t option \<times> 'h" where
  "rtc_read_datetime inb outb h =
     (let h = rtc_settle 1000 inb outb h;
          (busy, h) = rtc_updating inb outb h
      in if busy then (None, h)
         else
           let (sec, h) = cmos_read inb outb 0x00 h;
               (mins, h) = cmos_read inb outb 0x02 h;
               (hour, h) = cmos_read inb outb 0x04 h;
               (day, h) = cmos_read inb outb 0x07 h;
               (month, h) = cmos_read inb outb 0x08 h;
               (year, h) = cmos_read inb outb 0x09 h;
               (century, h) = cmos_read inb outb 0x32 h;
               (status, h) = cmos_read inb outb 0x0B h;
               (busy, h) = rtc_updating inb outb h
           in if busy then (None, h) else (rtc_decode sec mins hour day month year century status, h))"

definition rtc_read_time :: "'h inb \<Rightarrow> 'h outb \<Rightarrow> 'h \<Rightarrow> rtc_time_t option \<times> 'h" where
  "rtc_read_time inb outb h =
     (case rtc_read_datetime inb outb h of (dt, h) \<Rightarrow>
        (map_option (\<lambda>dt. \<lparr>t_hour = dt_hour dt, t_minute = dt_minute dt, t_second = dt_second dt\<rparr>) dt, h))"

definition rtc_now :: "'h inb \<Rightarrow> 'h outb \<Rightarrow> 'h \<Rightarrow> u32 \<times> 'h" where
  "rtc_now inb outb h =
     (case rtc_read_datetime inb outb h of
        (None, h) \<Rightarrow> (0, h)
      | (Some dt, h) \<Rightarrow> (rtc_datetime_to_epoch dt, h))"

section \<open>Counting days\<close>

text \<open>The reference: whole years since 1970, whole months of the year, days of the month.\<close>

fun days_of_years :: "nat \<Rightarrow> int" where
  "days_of_years 0 = 0"
| "days_of_years (Suc n) = days_of_years n + (if is_leap (1970 + int n) then 366 else 365)"

fun days_of_months :: "int \<Rightarrow> nat \<Rightarrow> int" where
  "days_of_months y 0 = 0"
| "days_of_months y (Suc m) = days_of_months y m + uint (days_in_month y (int m + 1))"

definition calendar_days :: "int \<Rightarrow> int \<Rightarrow> int \<Rightarrow> int" where
  "calendar_days y m d = days_of_years (nat (y - 1970)) + days_of_months y (nat (m - 1)) + (d - 1)"

lemma era_days:
  assumes "0 \<le> y"
  shows "y div 400 * 146097 + ((y - y div 400 * 400) * 365 + (y - y div 400 * 400) div 4 - (y - y div 400 * 400) div 100) =
    y * 365 + y div 4 - y div 100 + (y::int) div 400"
proof -
  define e r where "e = y div 400" and "r = y mod 400"
  have y: "y = 400 * e + r" and r: "y - y div 400 * 400 = r" by (simp_all add: e_def r_def minus_div_mult_eq_mod)
  have "y div 4 = 100 * e + r div 4" "y div 100 = 4 * e + r div 100" unfolding y by simp_all
  then show ?thesis unfolding r e_def [symmetric] by (simp add: y)
qed

lemma div_Suc_int:
  assumes "0 < (k::int)"
  shows "(y + 1) div k = y div k + (if (y + 1) mod k = 0 then 1 else 0)"
proof -
  define q r where "q = y div k" and "r = y mod k"
  have y: "y = k * q + r" and r: "0 \<le> r" "r < k" using assms by (simp_all add: q_def r_def)
  show ?thesis
  proof (cases "r + 1 = k")
    case True
    then have y1: "y + 1 = k * (q + 1) + 0" using y by (simp add: algebra_simps)
    have "(y + 1) div k = q + 1" "(y + 1) mod k = 0"
      by (rule int_div_pos_eq [OF y1], use assms in simp_all) (rule int_mod_pos_eq [OF y1], use assms in simp_all)
    then show ?thesis by (simp add: q_def)
  next
    case False
    then have y1: "y + 1 = k * q + (r + 1)" using y by simp
    have "(y + 1) div k = q" "(y + 1) mod k = r + 1"
      by (rule int_div_pos_eq [OF y1], use r False in simp_all) (rule int_mod_pos_eq [OF y1], use r False in simp_all)
    then show ?thesis using r(1) by (simp add: q_def)
  qed
qed

lemma month_cases:
  assumes "1 \<le> m" "m \<le> (12::int)"
  obtains "m = 1" | "m = 2" | "m = 3" | "m = 4" | "m = 5" | "m = 6" | "m = 7" | "m = 8" | "m = 9"
    | "m = 10" | "m = 11" | "m = 12"
  using assms by atomize_elim presburger

definition year_start :: "int \<Rightarrow> int" where
  "year_start y = (y - 1) * 365 + (y - 1) div 4 - (y - 1) div 100 + (y - 1) div 400"

lemma year_start_step: "year_start (y + 1) = year_start y + (if is_leap y then 366 else 365)"
proof -
  define A B C where "A = (y mod 4 = 0)" and "B = (y mod 100 = 0)" and "C = (y mod 400 = 0)"
  have m: "C \<Longrightarrow> B" "B \<Longrightarrow> A"
    unfolding A_def B_def C_def mod_eq_0_iff_dvd by (erule dvd_trans [rotated], simp)+
  have s: "(y - 1 + 1) = y" by simp
  have d: "y div 4 = (y - 1) div 4 + (if A then 1 else 0)" "y div 100 = (y - 1) div 100 + (if B then 1 else 0)"
    "y div 400 = (y - 1) div 400 + (if C then 1 else 0)"
    unfolding A_def B_def C_def
    by (rule div_Suc_int [of 4 "y - 1", unfolded s], simp) (rule div_Suc_int [of _ "y - 1", unfolded s], simp)+
  have "year_start (y + 1) = y * 365 + y div 4 - y div 100 + y div 400" by (simp add: year_start_def)
  then have "year_start (y + 1) = year_start y + 365 + (if A then 1 else 0) - (if B then 1 else 0) + (if C then 1 else 0)"
    unfolding d by (simp add: year_start_def)
  moreover have "is_leap y \<longleftrightarrow> A \<and> \<not> B \<or> C" by (simp add: is_leap_def A_def B_def C_def)
  ultimately show ?thesis using m by (cases A; cases B; cases C) simp_all
qed

lemma days_of_years_start: "days_of_years n = year_start (1970 + int n) - 719162"
proof (induction n)
  case 0
  then show ?case by (simp add: year_start_def)
next
  case (Suc n)
  then show ?case using year_start_step [of "1970 + int n"] by (simp add: algebra_simps)
qed

text \<open>Days of the year before a month, from the month lengths.\<close>

lemma days_of_months_numeral:
  "days_of_months y (numeral k) =
     days_of_months y (pred_numeral k) + uint (days_in_month y (int (pred_numeral k) + 1))"
  by (simp add: numeral_eq_Suc)

lemma days_of_months_table:
  assumes "1 \<le> m" "m \<le> 12"
  shows "days_of_months y (nat (m - 1)) =
    [0, 31, 59, 90, 120, 151, 181, 212, 243, 273, 304, 334] ! nat (m - 1) + (if m > 2 \<and> is_leap y then 1 else 0)"
  using assms by (cases rule: month_cases) (simp_all add: days_in_month_def days_of_months_numeral)

lemma civil_day_of_year:
  assumes "1 \<le> m" "m \<le> 12"
  shows "(153 * (m + (if m > 2 then - 3 else 9)) + 2) div 5 =
    [306, 337, 0, 31, 61, 92, 122, 153, 184, 214, 245, 275] ! nat (m - 1)"
  using assms by (cases rule: month_cases) simp_all

text \<open>The quotients are abstracted so that the remaining arithmetic is linear.\<close>

lemma days_from_civil_calendar:
  assumes "1970 \<le> y" and "1 \<le> m" "m \<le> 12"
  shows "days_from_civil y m d = calendar_days y m d"
proof -
  define Y where "Y = y - (if m \<le> 2 then 1 else 0)"
  define era where "era = Y div 400"
  define yoe where "yoe = Y - era * 400"
  define q4 where "q4 = yoe div 4"
  define q100 where "q100 = yoe div 100"
  define doy where "doy = (153 * (m + (if m > 2 then - 3 else 9)) + 2) div 5"
  define start where "start = year_start (Y + 1)"
  have Y: "0 \<le> Y" using assms(1) by (simp add: Y_def)
  have civ: "days_from_civil y m d = era * 146097 + (yoe * 365 + q4 - q100 + (doy + d - 1)) - 719468"
    unfolding days_from_civil_def Let_def Y_def [symmetric] if_P [OF Y] era_def [symmetric] yoe_def [symmetric]
      q4_def [symmetric] q100_def [symmetric] doy_def [symmetric] ..
  have E: "era * 146097 + (yoe * 365 + q4 - q100) = start"
    using era_days [OF Y] unfolding era_def [symmetric] yoe_def [symmetric] q4_def [symmetric] q100_def [symmetric]
    by (simp only: start_def year_start_def add_diff_cancel_right' era_def)
  have cal: "days_of_years (nat (y - 1970)) = year_start y - 719162"
    using days_of_years_start [of "nat (y - 1970)"] assms(1) by simp
  have st: "start = (if m \<le> 2 then year_start y else year_start y + (if is_leap y then 366 else 365))"
    unfolding start_def Y_def using year_start_step [of y] by simp
  have mon: "days_of_months y (nat (m - 1)) + (if m \<le> 2 then 306 else if is_leap y then - 60 else - 59) = doy"
    unfolding doy_def days_of_months_table [OF assms(2,3)] civil_day_of_year [OF assms(2,3)]
    using assms(2,3) by (cases rule: month_cases) simp_all
  show ?thesis
    unfolding civ calendar_days_def cal using E st mon by (simp split: if_splits)
qed

text \<open>C39: The epoch of a valid date from 1970 on is the number of seconds obtained by counting days year by
  year and month by month, as long as that number fits 32 bits.\<close>

theorem rtc_epoch_correct:
  assumes "1970 \<le> uint (dt_year dt)" and "1 \<le> dt_month dt" "dt_month dt \<le> 12"
    and "1 \<le> dt_day dt" "dt_day dt \<le> days_in_month (uint (dt_year dt)) (uint (dt_month dt))"
    and "dt_hour dt < 24" "dt_minute dt < 60" "dt_second dt < 60"
    and "calendar_days (uint (dt_year dt)) (uint (dt_month dt)) (uint (dt_day dt)) < 49710"
  shows "uint (rtc_datetime_to_epoch dt) =
    calendar_days (uint (dt_year dt)) (uint (dt_month dt)) (uint (dt_day dt)) * 86400 +
    uint (dt_hour dt) * 3600 + uint (dt_minute dt) * 60 + uint (dt_second dt)"
proof -
  let ?d = "calendar_days (uint (dt_year dt)) (uint (dt_month dt)) (uint (dt_day dt))"
  have m: "1 \<le> uint (dt_month dt)" "uint (dt_month dt) \<le> 12" "1 \<le> uint (dt_day dt)"
    using assms(2-4) by (simp_all add: word_le_def)
  have t: "uint (dt_hour dt) < 24" "uint (dt_minute dt) < 60" "uint (dt_second dt) < 60"
    using assms(6-8) by (simp_all add: word_less_def)
  have "0 \<le> days_of_years n" for n by (induction n) auto
  moreover have "0 \<le> days_of_months y n" for y n by (induction n) auto
  ultimately have d: "0 \<le> ?d" using m(3) by (simp add: calendar_days_def)
  have g: "\<not> dt_month dt < 1" "\<not> 12 < dt_month dt" "\<not> dt_day dt < 1" "\<not> 23 < dt_hour dt" "\<not> 59 < dt_minute dt" "\<not> 59 < dt_second dt"
    "\<not> days_in_month (uint (dt_year dt)) (uint (dt_month dt)) < dt_day dt"
    using assms(2-8) by (simp_all add: word_less_def word_le_def)
  define n where "n = ?d * 86400 + uint (dt_hour dt) * 3600 + uint (dt_minute dt) * 60 + uint (dt_second dt)"
  have e: "rtc_datetime_to_epoch dt = word_of_int (?d * 86400 + uint (dt_hour dt) * 3600 + uint (dt_minute dt) * 60 + uint (dt_second dt))"
    using g d days_from_civil_calendar [OF assms(1) m(1,2), of "uint (dt_day dt)"]
    by (simp add: rtc_datetime_to_epoch_def Let_def unsigned_of_int)
  have "n < 4294967296" "0 \<le> n" using assms(9) t d by (simp_all add: n_def)
  then have "uint (word_of_int n :: u32) = n" by (simp add: unsigned_of_int take_bit_int_eq_self)
  then show ?thesis unfolding e n_def .
qed

theorem rtc_epoch_correct_witness:
  "uint (rtc_datetime_to_epoch \<lparr>dt_year = 2024, dt_month = 2, dt_day = 29, dt_hour = 12, dt_minute = 30, dt_second = 5\<rparr>) =
    calendar_days 2024 2 29 * 86400 + 12 * 3600 + 30 * 60 + 5"
proof -
  let ?dt = "\<lparr>dt_year = 2024, dt_month = 2, dt_day = 29, dt_hour = 12, dt_minute = 30, dt_second = 5\<rparr>"
  have "calendar_days 2024 2 29 < 49710"
    using days_from_civil_calendar [of 2024 2 29] by (simp add: days_from_civil_def)
  then show ?thesis using rtc_epoch_correct [of ?dt] by (simp add: days_in_month_def is_leap_def)
qed

end
