(* ===== verification/Fs.thy ===== *)
theory Fs
  imports Part Rtc Kstring
begin

text \<open>
  The file system of \<^verbatim>\<open>src/fs.c\<close>: sixteen file slots and sixteen directories in memory, addressed
  by full path names, with an optional image on the disk (MuFS).  Paths passed in are lists of
  the characters before the terminating NUL; the arrays inside the tables keep all 64 bytes.
  Every mutation writes the metadata tables through a small journal, and the data of the file
  concerned, with the disk driver; the clock is read through the same ports.
\<close>

section \<open>Data\<close>

definition FS_MAX_FILES :: nat where "FS_MAX_FILES = 16"
definition FS_MAX_DIRS :: nat where "FS_MAX_DIRS = 16"
definition FS_MAX_NAME :: nat where "FS_MAX_NAME = 64"
definition FS_MAX_SIZE :: u32 where "FS_MAX_SIZE = 65536"

record fs_file_t =
  f_name :: "u8 list"
  f_data :: "u8 list"
  f_size :: u32
  f_used :: u32
  f_deleted :: u32
  f_refs :: u32
  f_atime :: u32
  f_mtime :: u32
  f_ctime :: u32
  f_uid :: u32
  f_gid :: u32
  f_mode :: u16

record fs_dir_t =
  d_name :: "u8 list"
  d_used :: u32
  d_uid :: u32
  d_gid :: u32
  d_mode :: u16

record fs_dirent_t =
  de_name :: "u8 list"
  de_is_dir :: bool
  de_size :: u32
  de_slot :: int

record mufs_file_meta_t =
  mf_name :: "u8 list"
  mf_size :: u32
  mf_used :: u32
  mf_deleted :: u32
  mf_atime :: u32
  mf_mtime :: u32
  mf_ctime :: u32
  mf_uid :: u32
  mf_gid :: u32
  mf_mode :: u16
  mf_pad :: u16

record mufs_dir_meta_t =
  md_name :: "u8 list"
  md_used :: u32
  md_uid :: u32
  md_gid :: u32
  md_mode :: u16
  md_pad :: u16

record 'h fs_state =
  files :: "fs_file_t list"
  dirs :: "fs_dir_t list"
  persist_active :: bool
  persist_gen :: u32
  meta_buf :: "mufs_file_meta_t list"
  dmeta_buf :: "mufs_dir_meta_t list"
  fs_ata :: "'h ata_state"
  fs_part :: part_state

text \<open>The fields \<^verbatim>\<open>used\<close> and \<^verbatim>\<open>deleted\<close> are truth values.\<close>

definition live :: "fs_file_t \<Rightarrow> bool" where
  "live f \<longleftrightarrow> f_used f \<noteq> 0 \<and> f_deleted f = 0"

definition upd_file :: "nat \<Rightarrow> (fs_file_t \<Rightarrow> fs_file_t) \<Rightarrow> 'h fs_state \<Rightarrow> 'h fs_state" where
  "upd_file i g s = s\<lparr>files := (files s)[i := g (files s ! i)]\<rparr>"

definition upd_dir :: "nat \<Rightarrow> (fs_dir_t \<Rightarrow> fs_dir_t) \<Rightarrow> 'h fs_state \<Rightarrow> 'h fs_state" where
  "upd_dir i g s = s\<lparr>dirs := (dirs s)[i := g (dirs s ! i)]\<rparr>"

definition fs_now :: "'h ports \<Rightarrow> 'h fs_state \<Rightarrow> u32 \<times> 'h fs_state" where
  "fs_now P s =
     (case rtc_now (p_inb P) (p_outb P) (ata_hw (fs_ata s)) of (t, h) \<Rightarrow>
        (t, s\<lparr>fs_ata := (fs_ata s)\<lparr>ata_hw := h\<rparr>\<rparr>))"

definition fs_ata_write :: "'h ports \<Rightarrow> u32 \<Rightarrow> u8 list \<Rightarrow> u32 \<Rightarrow> 'h fs_state \<Rightarrow> 'h fs_state" where
  "fs_ata_write P offset buf count s = s\<lparr>fs_ata := snd (ata_write_bytes P offset buf count (fs_ata s))\<rparr>"

definition fs_ata_read :: "'h ports \<Rightarrow> u32 \<Rightarrow> u32 \<Rightarrow> 'h fs_state \<Rightarrow> (int \<times> u8 list) \<times> 'h fs_state" where
  "fs_ata_read P offset count s =
     (case ata_read_bytes P offset count (fs_ata s) of (r, a) \<Rightarrow> (r, s\<lparr>fs_ata := a\<rparr>))"

section \<open>On-disk layout\<close>

definition MUFS_MAGIC :: "u8 list" where "MUFS_MAGIC = [0x4D, 0x55, 0x46, 0x53]"
definition MUFS_VERSION :: u32 where "MUFS_VERSION = 2"
definition MUFS_SB_LBA :: u32 where "MUFS_SB_LBA = 0"
definition MUFS_META_LBA :: u32 where "MUFS_META_LBA = 2"
definition MUFS_DIR_LBA :: u32 where "MUFS_DIR_LBA = 6"
definition MUFS_DATA_LBA :: u32 where "MUFS_DATA_LBA = 16"
definition MUFS_SLOT_SECTORS :: u32 where "MUFS_SLOT_SECTORS = 128"
definition MUFS_JL_LBA :: u32 where "MUFS_JL_LBA = 9"
definition MUFS_JMETA_LBA :: u32 where "MUFS_JMETA_LBA = 10"
definition MUFS_JDIR_LBA :: u32 where "MUFS_JDIR_LBA = 13"
definition MUFS_J_MAGIC :: u32 where "MUFS_J_MAGIC = 0x4D554C4A"

lemmas mufs_layout = MUFS_SB_LBA_def MUFS_META_LBA_def MUFS_DIR_LBA_def MUFS_DATA_LBA_def
  MUFS_SLOT_SECTORS_def MUFS_JL_LBA_def MUFS_JMETA_LBA_def MUFS_JDIR_LBA_def

definition enc16 :: "u16 \<Rightarrow> u8 list" where
  "enc16 v = [ucast v, ucast (drop_bit 8 v)]"

definition enc32 :: "u32 \<Rightarrow> u8 list" where
  "enc32 v = [ucast v, ucast (drop_bit 8 v), ucast (drop_bit 16 v), ucast (drop_bit 24 v)]"

definition enc_file :: "mufs_file_meta_t \<Rightarrow> u8 list" where
  "enc_file m = mf_name m @ enc32 (mf_size m) @ enc32 (mf_used m) @ enc32 (mf_deleted m) @ enc32 (mf_atime m) @
     enc32 (mf_mtime m) @ enc32 (mf_ctime m) @ enc32 (mf_uid m) @ enc32 (mf_gid m) @ enc16 (mf_mode m) @ enc16 (mf_pad m)"

definition dec_file :: "u8 list \<Rightarrow> mufs_file_meta_t" where
  "dec_file b = \<lparr>mf_name = take 64 b, mf_size = le32 b 64, mf_used = le32 b 68, mf_deleted = le32 b 72,
     mf_atime = le32 b 76, mf_mtime = le32 b 80, mf_ctime = le32 b 84, mf_uid = le32 b 88, mf_gid = le32 b 92,
     mf_mode = le16 b 96, mf_pad = le16 b 98\<rparr>"

definition enc_dir :: "mufs_dir_meta_t \<Rightarrow> u8 list" where
  "enc_dir m = md_name m @ enc32 (md_used m) @ enc32 (md_uid m) @ enc32 (md_gid m) @ enc16 (md_mode m) @ enc16 (md_pad m)"

definition dec_dir :: "u8 list \<Rightarrow> mufs_dir_meta_t" where
  "dec_dir b = \<lparr>md_name = take 64 b, md_used = le32 b 64, md_uid = le32 b 68, md_gid = le32 b 72,
     md_mode = le16 b 76, md_pad = le16 b 78\<rparr>"

text \<open>Arrays of packed structures, \<open>w\<close> bytes each.\<close>

definition enc_table :: "('a \<Rightarrow> u8 list) \<Rightarrow> 'a list \<Rightarrow> u8 list" where
  "enc_table enc xs = concat (map enc xs)"

definition dec_table :: "(u8 list \<Rightarrow> 'a) \<Rightarrow> nat \<Rightarrow> nat \<Rightarrow> u8 list \<Rightarrow> 'a list" where
  "dec_table dec w n b = map (\<lambda>i. dec (take w (drop (w * i) b))) [0..<n]"

definition meta_bytes :: "'h fs_state \<Rightarrow> u8 list" where
  "meta_bytes s = enc_table enc_file (meta_buf s)"

definition dmeta_bytes :: "'h fs_state \<Rightarrow> u8 list" where
  "dmeta_bytes s = enc_table enc_dir (dmeta_buf s)"

definition META_SIZE :: u32 where "META_SIZE = 1600"
definition DMETA_SIZE :: u32 where "DMETA_SIZE = 1280"

text \<open>The superblock: magic, version, geometry, generation and 28 reserved bytes.\<close>

definition superblock :: "u32 \<Rightarrow> u8 list" where
  "superblock gen = MUFS_MAGIC @ enc32 MUFS_VERSION @ enc32 MUFS_SLOT_SECTORS @ enc32 16 @ enc32 16 @ enc32 gen @
     replicate 28 0"

definition slot_lba :: "nat \<Rightarrow> u32" where
  "slot_lba i = MUFS_DATA_LBA + word_of_nat i * MUFS_SLOT_SECTORS"

section \<open>Writing through\<close>

definition file_meta :: "fs_file_t \<Rightarrow> mufs_file_meta_t \<Rightarrow> mufs_file_meta_t" where
  "file_meta f m = m\<lparr>mf_name := f_name f, mf_size := f_size f, mf_used := f_used f, mf_deleted := f_deleted f,
     mf_atime := f_atime f, mf_mtime := f_mtime f, mf_ctime := f_ctime f, mf_uid := f_uid f, mf_gid := f_gid f,
     mf_mode := f_mode f\<rparr>"

definition dir_meta :: "fs_dir_t \<Rightarrow> mufs_dir_meta_t \<Rightarrow> mufs_dir_meta_t" where
  "dir_meta d m = m\<lparr>md_name := d_name d, md_used := d_used d, md_uid := d_uid d, md_gid := d_gid d, md_mode := d_mode d\<rparr>"

definition fill_meta :: "'h fs_state \<Rightarrow> 'h fs_state" where
  "fill_meta s = s\<lparr>meta_buf := map2 file_meta (files s) (meta_buf s), dmeta_buf := map2 dir_meta (dirs s) (dmeta_buf s)\<rparr>"

definition journal_header :: "u32 \<Rightarrow> u32 \<Rightarrow> u8 list" where
  "journal_header magic gen = enc32 magic @ enc32 gen @ replicate 24 0"

text \<open>The six disk writes of \<^verbatim>\<open>persist_meta\<close>, in order.\<close>

definition meta_writes :: "'h fs_state \<Rightarrow> (u32 \<times> u8 list \<times> u32) list" where
  "meta_writes s =
     [(MUFS_JMETA_LBA * 512, meta_bytes s, META_SIZE), (MUFS_JDIR_LBA * 512, dmeta_bytes s, DMETA_SIZE),
      (MUFS_JL_LBA * 512, journal_header MUFS_J_MAGIC (persist_gen s), 32),
      (MUFS_META_LBA * 512, meta_bytes s, META_SIZE), (MUFS_DIR_LBA * 512, dmeta_bytes s, DMETA_SIZE),
      (MUFS_JL_LBA * 512, journal_header 0 (persist_gen s), 32)]"

definition fs_ata_writes :: "'h ports \<Rightarrow> (u32 \<times> u8 list \<times> u32) list \<Rightarrow> 'h fs_state \<Rightarrow> 'h fs_state" where
  "fs_ata_writes P ws s = fold (\<lambda>(offset, buf, count). fs_ata_write P offset buf count) ws s"

definition persist_meta :: "'h ports \<Rightarrow> 'h fs_state \<Rightarrow> 'h fs_state" where
  "persist_meta P s =
     (if \<not> persist_active s then s
      else let s = fill_meta s in fs_ata_writes P (meta_writes s) s)"

definition persist_slot :: "'h ports \<Rightarrow> nat \<Rightarrow> 'h fs_state \<Rightarrow> 'h fs_state" where
  "persist_slot P i s =
     (if \<not> persist_active s \<or> i \<ge> FS_MAX_FILES then s
      else
        let n = (f_size (files s ! i) + 511) AND NOT 511
        in if n = 0 then s else fs_ata_write P (slot_lba i * 512) (f_data (files s ! i)) n s)"

definition persist_slot_range :: "'h ports \<Rightarrow> nat \<Rightarrow> u32 \<Rightarrow> u32 \<Rightarrow> 'h fs_state \<Rightarrow> 'h fs_state" where
  "persist_slot_range P i offset len s =
     (if \<not> persist_active s \<or> i \<ge> FS_MAX_FILES \<or> len = 0 then s
      else
        let first = offset AND NOT 511;
            stop = (offset + len + 511) AND NOT 511;
            stop = if stop > FS_MAX_SIZE then FS_MAX_SIZE else stop
        in if stop \<le> first then s
           else fs_ata_write P (slot_lba i * 512 + first) (drop (unat first) (f_data (files s ! i))) (stop - first) s)"

section \<open>Names\<close>

abbreviation slash :: u8 where "slash \<equiv> 0x2F"

definition has_slash :: "u8 list \<Rightarrow> bool" where
  "has_slash p \<longleftrightarrow> slash \<in> set p"

definition file_exists :: "u8 list \<Rightarrow> 'h fs_state \<Rightarrow> bool" where
  "file_exists path s \<longleftrightarrow> path \<noteq> [] \<and> list_ex (\<lambda>f. live f \<and> cstr (f_name f) = path) (files s)"

definition dir_exists :: "u8 list \<Rightarrow> 'h fs_state \<Rightarrow> bool" where
  "dir_exists path s \<longleftrightarrow> path = [] \<or> list_ex (\<lambda>d. d_used d \<noteq> 0 \<and> cstr (d_name d) = path) (dirs s)"

text \<open>A slash must stand between two characters that are not slashes.\<close>

definition bad_slash :: "u8 list \<Rightarrow> nat \<Rightarrow> bool" where
  "bad_slash path i \<longleftrightarrow> path ! i = slash \<and> (i = 0 \<or> i + 1 = length path \<or> path ! (i + 1) = slash)"

definition split_parent :: "u8 list \<Rightarrow> (u8 list \<times> u8 list) option" where
  "split_parent path =
     (if path = [] \<or> path ! 0 = slash \<or> length path \<ge> FS_MAX_NAME then None
      else if list_ex (bad_slash path) [0..<length path] then None
      else case find (\<lambda>i. path ! i = slash) (rev [0..<length path]) of
             None \<Rightarrow> Some ([], path)
           | Some n \<Rightarrow> Some (take n path, drop (n + 1) path))"

text \<open>\<^verbatim>\<open>strncpy(name, path, FS_MAX_NAME - 1); name[FS_MAX_NAME - 1] = 0\<close>\<close>

definition copy_name :: "u8 list \<Rightarrow> u8 list" where
  "copy_name path = (case strncpy (path @ [0]) 63 of Some bs \<Rightarrow> bs @ [0] | None \<Rightarrow> [])"

text \<open>\<^verbatim>\<open>strncmp(name, path, strlen(path)) == 0 && name[strlen(path)] == '/'\<close>\<close>

definition under :: "u8 list \<Rightarrow> u8 list \<Rightarrow> bool" where
  "under path name \<longleftrightarrow> take (length path) name = path \<and> length path < length name \<and> name ! length path = slash"

section \<open>Directory operations\<close>

definition fs_init :: "'h fs_state \<Rightarrow> 'h fs_state" where
  "fs_init s = s\<lparr>
     files := map (\<lambda>f. f\<lparr>f_used := 0, f_size := 0, f_name := (f_name f)[0 := 0], f_deleted := 0, f_refs := 0,
       f_atime := 0, f_mtime := 0, f_ctime := 0\<rparr>) (files s),
     dirs := map (\<lambda>d. d\<lparr>d_used := 0, d_name := (d_name d)[0 := 0]\<rparr>) (dirs s)\<rparr>"

definition fs_is_file :: "u8 list \<Rightarrow> 'h fs_state \<Rightarrow> bool" where
  "fs_is_file path s = file_exists path s"

definition fs_is_dir :: "u8 list \<Rightarrow> 'h fs_state \<Rightarrow> bool" where
  "fs_is_dir path s = dir_exists path s"

definition fs_parent_is_dir :: "u8 list \<Rightarrow> 'h fs_state \<Rightarrow> bool" where
  "fs_parent_is_dir path s \<longleftrightarrow> (case split_parent path of None \<Rightarrow> False | Some (parent, base) \<Rightarrow> dir_exists parent s)"

text \<open>The checks shared by \<^verbatim>\<open>fs_create\<close> and \<^verbatim>\<open>fs_mkdir\<close>.\<close>

definition can_add :: "u8 list \<Rightarrow> 'h fs_state \<Rightarrow> bool" where
  "can_add path s \<longleftrightarrow> fs_parent_is_dir path s \<and> \<not> (file_exists path s \<or> dir_exists path s)"

definition fs_create :: "'h ports \<Rightarrow> u8 list \<Rightarrow> 'h fs_state \<Rightarrow> int \<times> 'h fs_state" where
  "fs_create P path s =
     (if \<not> can_add path s then (- 1, s)
      else case find_idx (\<lambda>f. f_used f = 0) (files s) of
        None \<Rightarrow> (- 1, s)
      | Some i \<Rightarrow>
          let (t, s) = fs_now P s;
              s = upd_file i (\<lambda>f. f\<lparr>f_name := copy_name path, f_size := 0, f_used := 1, f_deleted := 0, f_refs := 0,
                f_atime := t, f_mtime := t, f_ctime := t, f_uid := 0, f_gid := 0, f_mode := 0x1A4\<rparr>) s
          in (int i, persist_slot P i (persist_meta P s)))"

definition fs_mkdir :: "'h ports \<Rightarrow> u8 list \<Rightarrow> 'h fs_state \<Rightarrow> int \<times> 'h fs_state" where
  "fs_mkdir P path s =
     (if \<not> can_add path s then (- 1, s)
      else case find_idx (\<lambda>d. d_used d = 0) (dirs s) of
        None \<Rightarrow> (- 1, s)
      | Some i \<Rightarrow>
          (0, persist_meta P (upd_dir i (\<lambda>d. d\<lparr>d_name := copy_name path, d_used := 1, d_uid := 0, d_gid := 0,
             d_mode := 0x1ED\<rparr>) s)))"

definition fs_dir_is_empty :: "u8 list \<Rightarrow> 'h fs_state \<Rightarrow> bool" where
  "fs_dir_is_empty path s \<longleftrightarrow> dir_exists path s \<and>
     \<not> list_ex (\<lambda>f. live f \<and> under path (cstr (f_name f))) (files s) \<and>
     \<not> list_ex (\<lambda>d. d_used d \<noteq> 0 \<and> under path (cstr (d_name d))) (dirs s)"

definition fs_rmdir :: "'h ports \<Rightarrow> u8 list \<Rightarrow> 'h fs_state \<Rightarrow> int \<times> 'h fs_state" where
  "fs_rmdir P path s =
     (if path = [] \<or> \<not> dir_exists path s \<or> \<not> fs_dir_is_empty path s then (- 1, s)
      else case find_idx (\<lambda>d. d_used d \<noteq> 0 \<and> cstr (d_name d) = path) (dirs s) of
        None \<Rightarrow> (- 1, s)
      | Some i \<Rightarrow> (0, persist_meta P (upd_dir i (\<lambda>d. d\<lparr>d_used := 0, d_name := (d_name d)[0 := 0]\<rparr>) s)))"

definition child_name :: "u8 list \<Rightarrow> u8 list \<Rightarrow> u8 list option" where
  "child_name dir path =
     (if dir = [] then if has_slash path then None else Some path
      else if \<not> under dir path then None
      else let rest = drop (length dir + 1) path
           in if rest = [] \<or> has_slash rest then None else Some rest)"

definition child_dirs :: "u8 list \<Rightarrow> 'h fs_state \<Rightarrow> u8 list list" where
  "child_dirs path s = List.map_filter (\<lambda>d. if d_used d \<noteq> 0 then child_name path (cstr (d_name d)) else None) (dirs s)"

definition child_files :: "u8 list \<Rightarrow> 'h fs_state \<Rightarrow> (u8 list \<times> nat) list" where
  "child_files path s = List.map_filter (\<lambda>i. let f = files s ! i
      in if live f then map_option (\<lambda>n. (n, i)) (child_name path (cstr (f_name f))) else None) [0..<length (files s)]"

definition fs_dir_count :: "u8 list \<Rightarrow> 'h fs_state \<Rightarrow> int" where
  "fs_dir_count path s =
     (if \<not> dir_exists path s then - 1
      else int (length (child_dirs path s)) + int (length (child_files path s)))"

definition fs_dir_get :: "u8 list \<Rightarrow> int \<Rightarrow> 'h fs_state \<Rightarrow> fs_dirent_t option" where
  "fs_dir_get path idx s =
     (if \<not> dir_exists path s \<or> idx < 0 then None
      else
        let ds = child_dirs path s; fs = child_files path s; k = nat idx
        in if k < length ds
           then Some \<lparr>de_name = copy_name (ds ! k), de_is_dir = True, de_size = 0, de_slot = - 1\<rparr>
           else if k - length ds < length fs
           then case fs ! (k - length ds) of (name, i) \<Rightarrow>
             Some \<lparr>de_name = copy_name name, de_is_dir = False, de_size = f_size (files s ! i), de_slot = int i\<rparr>
           else None)"

section \<open>File operations\<close>

definition fd_ok :: "int \<Rightarrow> 'h fs_state \<Rightarrow> bool" where
  "fd_ok fd s \<longleftrightarrow> 0 \<le> fd \<and> fd < int FS_MAX_FILES \<and> f_used (files s ! nat fd) \<noteq> 0"

text \<open>\<^verbatim>\<open>memcpy\<close> of \<open>bs\<close> to offset \<open>off\<close> of an array.\<close>

definition overlay :: "nat \<Rightarrow> u8 list \<Rightarrow> u8 list \<Rightarrow> u8 list" where
  "overlay off bs a = take off a @ bs @ drop (off + length bs) a"

definition fs_write :: "'h ports \<Rightarrow> int \<Rightarrow> u8 list \<Rightarrow> u32 \<Rightarrow> 'h fs_state \<Rightarrow> int \<times> 'h fs_state" where
  "fs_write P fd buf len s =
     (if \<not> fd_ok fd s then (- 1, s)
      else
        let len = (if len > FS_MAX_SIZE then FS_MAX_SIZE else len);
            (t, s) = fs_now P s;
            s = upd_file (nat fd) (\<lambda>f. f\<lparr>f_data := overlay 0 (take (unat len) buf) (f_data f), f_size := len,
                  f_mtime := t, f_ctime := t\<rparr>) s
        in (sint len, persist_slot P (nat fd) (persist_meta P s)))"

definition fs_read :: "'h ports \<Rightarrow> int \<Rightarrow> u32 \<Rightarrow> 'h fs_state \<Rightarrow> (int \<times> u8 list) \<times> 'h fs_state" where
  "fs_read P fd maxlen s =
     (if \<not> fd_ok fd s then ((- 1, []), s)
      else
        let n = f_size (files s ! nat fd);
            n = (if n > maxlen then maxlen else n);
            out = take (unat n) (f_data (files s ! nat fd));
            (t, s) = fs_now P s
        in ((sint n, out), upd_file (nat fd) (\<lambda>f. f\<lparr>f_atime := t\<rparr>) s))"

definition named :: "u8 list \<Rightarrow> fs_file_t \<Rightarrow> bool" where
  "named path f \<longleftrightarrow> live f \<and> cstr (f_name f) = path"

definition fs_delete :: "'h ports \<Rightarrow> u8 list \<Rightarrow> 'h fs_state \<Rightarrow> int \<times> 'h fs_state" where
  "fs_delete P name s =
     (case find_idx (named name) (files s) of
        None \<Rightarrow> (- 1, s)
      | Some i \<Rightarrow>
          let (t, s) = fs_now P s;
              s = upd_file i (\<lambda>f. f\<lparr>f_name := (f_name f)[0 := 0], f_deleted := 1, f_ctime := t\<rparr>) s;
              s = (if f_refs (files s ! i) = 0
                   then upd_file i (\<lambda>f. f\<lparr>f_used := 0, f_size := 0, f_deleted := 0, f_atime := 0, f_mtime := 0, f_ctime := 0\<rparr>) s
                   else s)
          in (0, persist_meta P s))"

definition fs_open :: "u8 list \<Rightarrow> 'h fs_state \<Rightarrow> int" where
  "fs_open name s = (case find_idx (named name) (files s) of None \<Rightarrow> - 1 | Some i \<Rightarrow> int i)"

definition fs_ref :: "int \<Rightarrow> 'h fs_state \<Rightarrow> int \<times> 'h fs_state" where
  "fs_ref slot s =
     (if \<not> fd_ok slot s then (- 1, s) else (0, upd_file (nat slot) (\<lambda>f. f\<lparr>f_refs := f_refs f + 1\<rparr>) s))"

definition fs_unref :: "'h ports \<Rightarrow> int \<Rightarrow> 'h fs_state \<Rightarrow> int \<times> 'h fs_state" where
  "fs_unref P slot s =
     (if \<not> fd_ok slot s then (- 1, s)
      else
        let s = (if f_refs (files s ! nat slot) > 0
                 then upd_file (nat slot) (\<lambda>f. f\<lparr>f_refs := f_refs f - 1\<rparr>) s else s)
        in if f_refs (files s ! nat slot) = 0 \<and> f_deleted (files s ! nat slot) \<noteq> 0
           then (0, persist_meta P (upd_file (nat slot)
                  (\<lambda>f. f\<lparr>f_used := 0, f_size := 0, f_deleted := 0, f_atime := 0, f_mtime := 0, f_ctime := 0\<rparr>) s))
           else (0, s))"

definition fs_rename :: "'h ports \<Rightarrow> int \<Rightarrow> u8 list \<Rightarrow> 'h fs_state \<Rightarrow> int \<times> 'h fs_state" where
  "fs_rename P slot new_name s =
     (if \<not> fd_ok slot s \<or> f_deleted (files s ! nat slot) \<noteq> 0 then (- 1, s)
      else if \<not> fs_parent_is_dir new_name s \<or> dir_exists new_name s then (- 1, s)
      else if list_ex (\<lambda>i. i \<noteq> nat slot \<and> named new_name (files s ! i)) [0..<FS_MAX_FILES] then (- 1, s)
      else
        let (t, s) = fs_now P s
        in (0, persist_meta P (upd_file (nat slot) (\<lambda>f. f\<lparr>f_name := copy_name new_name, f_ctime := t\<rparr>) s)))"

text \<open>\<^verbatim>\<open>name_under\<close>: the name is the prefix or lies below it; the tail starts after the prefix.\<close>

definition name_under :: "u8 list \<Rightarrow> u8 list \<Rightarrow> bool" where
  "name_under name prefix \<longleftrightarrow> name = prefix \<or> under prefix name"

text \<open>The new array after copying \<open>new_path\<close>, the tail of the old name and a NUL over it.\<close>

definition move_name :: "u8 list \<Rightarrow> u8 list \<Rightarrow> u8 list \<Rightarrow> u8 list" where
  "move_name old_path new_path a =
     (let rest = drop (length old_path) (cstr a)
      in overlay 0 (new_path @ rest @ [0]) a)"

fun move_files :: "'h ports \<Rightarrow> u8 list \<Rightarrow> u8 list \<Rightarrow> nat list \<Rightarrow> 'h fs_state \<Rightarrow> 'h fs_state" where
  "move_files P old_path new_path [] s = s"
| "move_files P old_path new_path (i # is) s =
     (if live (files s ! i) \<and> name_under (cstr (f_name (files s ! i))) old_path
      then let (t, s) = fs_now P (upd_file i (\<lambda>f. f\<lparr>f_name := move_name old_path new_path (f_name f)\<rparr>) s)
           in move_files P old_path new_path is (upd_file i (\<lambda>f. f\<lparr>f_ctime := t\<rparr>) s)
      else move_files P old_path new_path is s)"

definition too_long :: "u8 list \<Rightarrow> u8 list \<Rightarrow> u8 list \<Rightarrow> bool" where
  "too_long old_path new_path a \<longleftrightarrow> name_under (cstr a) old_path \<and>
     length new_path + length (drop (length old_path) (cstr a)) \<ge> FS_MAX_NAME"

definition fs_rename_dir :: "'h ports \<Rightarrow> u8 list \<Rightarrow> u8 list \<Rightarrow> 'h fs_state \<Rightarrow> int \<times> 'h fs_state" where
  "fs_rename_dir P old_path new_path s =
     (if old_path = [] \<or> new_path = [] then (- 1, s)
      else if \<not> dir_exists old_path s then (- 1, s)
      else if length old_path \<ge> FS_MAX_NAME \<or> length new_path \<ge> FS_MAX_NAME then (- 1, s)
      else if \<not> fs_parent_is_dir new_path s then (- 1, s)
      else if file_exists new_path s \<or> dir_exists new_path s then (- 1, s)
      else if name_under new_path old_path then (- 1, s)
      else if list_ex (\<lambda>d. d_used d \<noteq> 0 \<and> too_long old_path new_path (d_name d)) (dirs s) then (- 1, s)
      else if list_ex (\<lambda>f. live f \<and> too_long old_path new_path (f_name f)) (files s) then (- 1, s)
      else
        let s = s\<lparr>dirs := map (\<lambda>d. if d_used d \<noteq> 0 \<and> name_under (cstr (d_name d)) old_path
                  then d\<lparr>d_name := move_name old_path new_path (d_name d)\<rparr> else d) (dirs s)\<rparr>;
            s = move_files P old_path new_path [0..<FS_MAX_FILES] s
        in (0, persist_meta P s))"

definition fs_count :: "'h fs_state \<Rightarrow> nat" where
  "fs_count s = length (filter live (files s))"

definition fs_used_slots :: "'h fs_state \<Rightarrow> nat" where
  "fs_used_slots s = length (filter (\<lambda>f. f_used f \<noteq> 0) (files s))"

definition fs_name :: "int \<Rightarrow> 'h fs_state \<Rightarrow> u8 list option" where
  "fs_name idx s =
     (let fs = filter live (files s)
      in if 0 \<le> idx \<and> idx < int (length fs) then Some (cstr (f_name (fs ! nat idx))) else None)"

definition fs_size :: "int \<Rightarrow> 'h fs_state \<Rightarrow> u32" where
  "fs_size idx s =
     (let fs = filter live (files s)
      in if 0 \<le> idx \<and> idx < int (length fs) then f_size (fs ! nat idx) else 0)"

definition fs_fd_data :: "int \<Rightarrow> 'h fs_state \<Rightarrow> u8 list option" where
  "fs_fd_data fd s = (if fd_ok fd s then Some (f_data (files s ! nat fd)) else None)"

definition fs_fd_size :: "int \<Rightarrow> 'h fs_state \<Rightarrow> u32" where
  "fs_fd_size fd s = (if fd_ok fd s then f_size (files s ! nat fd) else 0)"

definition fs_fd_truncate :: "'h ports \<Rightarrow> int \<Rightarrow> 'h fs_state \<Rightarrow> int \<times> 'h fs_state" where
  "fs_fd_truncate P fd s =
     (if \<not> fd_ok fd s then (- 1, s)
      else
        let (t, s) = fs_now P s;
            s = upd_file (nat fd) (\<lambda>f. f\<lparr>f_size := 0, f_mtime := t, f_ctime := t\<rparr>) s
        in (0, persist_slot P (nat fd) (persist_meta P s)))"

definition fs_truncate :: "'h ports \<Rightarrow> int \<Rightarrow> u32 \<Rightarrow> 'h fs_state \<Rightarrow> int \<times> 'h fs_state" where
  "fs_truncate P fd len s =
     (if \<not> fd_ok fd s then (- 1, s)
      else if len > FS_MAX_SIZE then (- 1, s)
      else
        let (t, s) = fs_now P s;
            s = upd_file (nat fd) (\<lambda>f. f\<lparr>f_data := (if len > f_size f
                    then overlay (unat (f_size f)) (replicate (unat (len - f_size f)) 0) (f_data f) else f_data f),
                  f_size := len, f_mtime := t, f_ctime := t\<rparr>) s
        in (0, persist_slot P (nat fd) (persist_meta P s)))"

definition fs_fd_atime :: "int \<Rightarrow> 'h fs_state \<Rightarrow> u32" where
  "fs_fd_atime fd s = (if fd_ok fd s then f_atime (files s ! nat fd) else 0)"

definition fs_fd_mtime :: "int \<Rightarrow> 'h fs_state \<Rightarrow> u32" where
  "fs_fd_mtime fd s = (if fd_ok fd s then f_mtime (files s ! nat fd) else 0)"

definition fs_fd_ctime :: "int \<Rightarrow> 'h fs_state \<Rightarrow> u32" where
  "fs_fd_ctime fd s = (if fd_ok fd s then f_ctime (files s ! nat fd) else 0)"

definition fs_set_times :: "'h ports \<Rightarrow> int \<Rightarrow> u32 \<Rightarrow> u32 \<Rightarrow> 'h fs_state \<Rightarrow> 'h fs_state" where
  "fs_set_times P fd atime mtime s =
     (if \<not> fd_ok fd s then s
      else
        let (t, s) = fs_now P s
        in persist_meta P (upd_file (nat fd) (\<lambda>f. f\<lparr>f_atime := atime, f_mtime := mtime, f_ctime := t\<rparr>) s))"

definition fs_read_at :: "'h ports \<Rightarrow> int \<Rightarrow> u32 \<Rightarrow> u32 \<Rightarrow> 'h fs_state \<Rightarrow> (int \<times> u8 list) \<times> 'h fs_state" where
  "fs_read_at P fd offset len s =
     (if \<not> fd_ok fd s then ((- 1, []), s)
      else if offset \<ge> f_size (files s ! nat fd) then ((0, []), s)
      else
        let n = f_size (files s ! nat fd) - offset;
            n = (if n > len then len else n);
            out = take (unat n) (drop (unat offset) (f_data (files s ! nat fd)));
            (t, s) = fs_now P s
        in ((sint n, out), upd_file (nat fd) (\<lambda>f. f\<lparr>f_atime := t\<rparr>) s))"

definition fs_write_at :: "'h ports \<Rightarrow> int \<Rightarrow> u32 \<Rightarrow> u8 list \<Rightarrow> u32 \<Rightarrow> 'h fs_state \<Rightarrow> int \<times> 'h fs_state" where
  "fs_write_at P fd offset buf len s =
     (if \<not> fd_ok fd s then (- 1, s)
      else if offset \<ge> FS_MAX_SIZE then (- 1, s)
      else
        let len = (if len > FS_MAX_SIZE - offset then FS_MAX_SIZE - offset else len);
            (t, s) = fs_now P s;
            s = upd_file (nat fd) (\<lambda>f. f\<lparr>f_data := overlay (unat offset) (take (unat len) buf) (f_data f),
                  f_size := (if offset + len > f_size f then offset + len else f_size f),
                  f_mtime := t, f_ctime := t\<rparr>) s
        in (sint len, persist_slot_range P (nat fd) offset len (persist_meta P s)))"

section \<open>Ownership and permissions\<close>

definition file_slot_of :: "u8 list \<Rightarrow> 'h fs_state \<Rightarrow> int" where
  "file_slot_of path s = (case find_idx (named path) (files s) of None \<Rightarrow> - 1 | Some i \<Rightarrow> int i)"

definition dir_slot_of :: "u8 list \<Rightarrow> 'h fs_state \<Rightarrow> int" where
  "dir_slot_of path s =
     (if path = [] then - 2
      else case find_idx (\<lambda>d. d_used d \<noteq> 0 \<and> cstr (d_name d) = path) (dirs s) of None \<Rightarrow> - 1 | Some i \<Rightarrow> int i)"

definition fs_perm_slot :: "int \<Rightarrow> 'h fs_state \<Rightarrow> (u32 \<times> u32 \<times> u16) option" where
  "fs_perm_slot slot s =
     (if \<not> fd_ok slot s then None
      else let f = files s ! nat slot in Some (f_uid f, f_gid f, f_mode f))"

definition fs_perm_path :: "u8 list \<Rightarrow> 'h fs_state \<Rightarrow> (u32 \<times> u32 \<times> u16 \<times> bool) option" where
  "fs_perm_path path s =
     (let fi = file_slot_of path s; di = dir_slot_of path s
      in if fi \<ge> 0 then let f = files s ! nat fi in Some (f_uid f, f_gid f, f_mode f, False)
         else if di = - 1 then None
         else if di = - 2 then Some (0, 0, 0x1ED, True)
         else let d = dirs s ! nat di in Some (d_uid d, d_gid d, d_mode d, True))"

definition fs_chmod_slot :: "'h ports \<Rightarrow> int \<Rightarrow> u16 \<Rightarrow> 'h fs_state \<Rightarrow> int \<times> 'h fs_state" where
  "fs_chmod_slot P slot mode s =
     (if \<not> fd_ok slot s then (- 1, s)
      else
        let (t, s) = fs_now P s
        in (0, persist_meta P (upd_file (nat slot) (\<lambda>f. f\<lparr>f_mode := mode, f_ctime := t\<rparr>) s)))"

definition fs_chmod_path :: "'h ports \<Rightarrow> u8 list \<Rightarrow> u16 \<Rightarrow> 'h fs_state \<Rightarrow> int \<times> 'h fs_state" where
  "fs_chmod_path P path mode s =
     (let fi = file_slot_of path s; di = dir_slot_of path s
      in if fi \<ge> 0 then fs_chmod_slot P fi mode s
         else if di < 0 then (- 1, s)
         else (0, persist_meta P (upd_dir (nat di) (\<lambda>d. d\<lparr>d_mode := mode\<rparr>) s)))"

definition fs_chown_slot :: "'h ports \<Rightarrow> int \<Rightarrow> u32 \<Rightarrow> u32 \<Rightarrow> 'h fs_state \<Rightarrow> int \<times> 'h fs_state" where
  "fs_chown_slot P slot uid gid s =
     (if \<not> fd_ok slot s then (- 1, s)
      else
        let (t, s) = fs_now P s
        in (0, persist_meta P (upd_file (nat slot) (\<lambda>f. f\<lparr>f_uid := uid, f_gid := gid, f_ctime := t\<rparr>) s)))"

definition fs_chown_path :: "'h ports \<Rightarrow> u8 list \<Rightarrow> u32 \<Rightarrow> u32 \<Rightarrow> 'h fs_state \<Rightarrow> int \<times> 'h fs_state" where
  "fs_chown_path P path uid gid s =
     (let fi = file_slot_of path s; di = dir_slot_of path s
      in if fi \<ge> 0 then fs_chown_slot P fi uid gid s
         else if di < 0 then (- 1, s)
         else (0, persist_meta P (upd_dir (nat di) (\<lambda>d. d\<lparr>d_uid := uid, d_gid := gid\<rparr>) s)))"

section \<open>Mounting\<close>

text \<open>A read into an array stores what the driver delivered, also when it reports an error.\<close>

definition read_meta :: "'h ports \<Rightarrow> u32 \<Rightarrow> 'h fs_state \<Rightarrow> bool \<times> 'h fs_state" where
  "read_meta P offset s =
     (case fs_ata_read P offset META_SIZE s of ((rc, got), s) \<Rightarrow>
        (rc = sint META_SIZE, s\<lparr>meta_buf := dec_table dec_file 100 16 (overlay 0 got (meta_bytes s))\<rparr>))"

definition read_dmeta :: "'h ports \<Rightarrow> u32 \<Rightarrow> 'h fs_state \<Rightarrow> bool \<times> 'h fs_state" where
  "read_dmeta P offset s =
     (case fs_ata_read P offset DMETA_SIZE s of ((rc, got), s) \<Rightarrow>
        (rc = sint DMETA_SIZE, s\<lparr>dmeta_buf := dec_table dec_dir 80 16 (overlay 0 got (dmeta_bytes s))\<rparr>))"

definition replay_journal :: "'h ports \<Rightarrow> 'h fs_state \<Rightarrow> 'h fs_state" where
  "replay_journal P s =
     (case fs_ata_read P (MUFS_JL_LBA * 512) 32 s of ((rc, jh), s) \<Rightarrow>
        if rc = 32 \<and> le32 jh 0 = MUFS_J_MAGIC
        then
          let (ok1, s) = read_meta P (MUFS_JMETA_LBA * 512) s;
              (ok2, s) = (if ok1 then read_dmeta P (MUFS_JDIR_LBA * 512) s else (False, s));
              s = (if ok1 \<and> ok2
                   then fs_ata_writes P [(MUFS_META_LBA * 512, meta_bytes s, META_SIZE),
                          (MUFS_DIR_LBA * 512, dmeta_bytes s, DMETA_SIZE)] s
                   else s)
          in fs_ata_write P (MUFS_JL_LBA * 512) (overlay 0 (enc32 0) jh) 32 s
        else s)"

definition sb_valid :: "u8 list \<Rightarrow> bool" where
  "sb_valid sb \<longleftrightarrow> take 4 sb = MUFS_MAGIC \<and> le32 sb 4 = MUFS_VERSION \<and> le32 sb 8 = MUFS_SLOT_SECTORS \<and>
     le32 sb 12 = 16 \<and> le32 sb 16 = 16"

definition load_file :: "'h ports \<Rightarrow> nat \<Rightarrow> 'h fs_state \<Rightarrow> 'h fs_state" where
  "load_file P i s =
     (let m = meta_buf s ! i;
          size = (if mf_size m > FS_MAX_SIZE then FS_MAX_SIZE else mf_size m);
          s = upd_file i (\<lambda>f. f\<lparr>f_name := (mf_name m)[63 := 0], f_used := mf_used m, f_deleted := mf_deleted m, f_refs := 0,
                f_size := size, f_atime := mf_atime m, f_mtime := mf_mtime m, f_ctime := mf_ctime m,
                f_uid := mf_uid m, f_gid := mf_gid m, f_mode := mf_mode m\<rparr>) s
      in if mf_used m \<noteq> 0 \<and> size \<noteq> 0
         then case fs_ata_read P (slot_lba i * 512) size s of ((rc, got), s) \<Rightarrow>
                upd_file i (\<lambda>f. f\<lparr>f_data := overlay 0 got (f_data f)\<rparr>) s
         else s)"

definition load_dir :: "nat \<Rightarrow> 'h fs_state \<Rightarrow> 'h fs_state" where
  "load_dir i s =
     (let m = dmeta_buf s ! i
      in upd_dir i (\<lambda>d. \<lparr>d_name = (md_name m)[63 := 0], d_used = md_used m, d_uid = md_uid m, d_gid = md_gid m,
           d_mode = md_mode m\<rparr>) s)"

definition zero_file :: fs_file_t where
  "zero_file = \<lparr>f_name = replicate 64 0, f_data = replicate 65536 0, f_size = 0, f_used = 0, f_deleted = 0, f_refs = 0,
     f_atime = 0, f_mtime = 0, f_ctime = 0, f_uid = 0, f_gid = 0, f_mode = 0\<rparr>"

definition zero_dir :: fs_dir_t where
  "zero_dir = \<lparr>d_name = replicate 64 0, d_used = 0, d_uid = 0, d_gid = 0, d_mode = 0\<rparr>"

definition zero_meta :: mufs_file_meta_t where
  "zero_meta = \<lparr>mf_name = replicate 64 0, mf_size = 0, mf_used = 0, mf_deleted = 0, mf_atime = 0, mf_mtime = 0, mf_ctime = 0,
     mf_uid = 0, mf_gid = 0, mf_mode = 0, mf_pad = 0\<rparr>"

definition zero_dmeta :: mufs_dir_meta_t where
  "zero_dmeta = \<lparr>md_name = replicate 64 0, md_used = 0, md_uid = 0, md_gid = 0, md_mode = 0, md_pad = 0\<rparr>"

definition format_image :: "'h ports \<Rightarrow> 'h fs_state \<Rightarrow> 'h fs_state" where
  "format_image P s =
     (let s = s\<lparr>files := replicate FS_MAX_FILES zero_file, meta_buf := replicate FS_MAX_FILES zero_meta,
            dirs := replicate FS_MAX_DIRS zero_dir, dmeta_buf := replicate FS_MAX_DIRS zero_dmeta,
            persist_gen := 1, persist_active := True\<rparr>
      in persist_meta P (fs_ata_write P (MUFS_SB_LBA * 512) (superblock 1) 52 s))"

definition fs_persist_mount :: "'h ports \<Rightarrow> 'h fs_state \<Rightarrow> 'h fs_state" where
  "fs_persist_mount P s =
     (let s = s\<lparr>persist_active := False, persist_gen := 0\<rparr>
      in if \<not> ata_present (fs_ata s) then s
         else
           let s = replay_journal P s;
               ((rc, sb), s) = fs_ata_read P (MUFS_SB_LBA * 512) 52 s
           in if rc = 52 \<and> sb_valid sb
              then case read_meta P (MUFS_META_LBA * 512) s of (ok, s) \<Rightarrow>
                if \<not> ok then s
                else case read_dmeta P (MUFS_DIR_LBA * 512) s of (ok, s) \<Rightarrow>
                  if \<not> ok then s
                  else
                    let s = fold (load_file P) [0..<FS_MAX_FILES] s;
                        s = fold load_dir [0..<FS_MAX_DIRS] s
                    in s\<lparr>persist_gen := le32 sb 20, persist_active := True\<rparr>
              else if part_is_partitioned (fs_part s) then s
              else format_image P s)"

definition fs_sync :: "'h ports \<Rightarrow> 'h fs_state \<Rightarrow> int \<times> 'h fs_state" where
  "fs_sync P s =
     (if \<not> persist_active s then (0, s)
      else
        let s = s\<lparr>persist_gen := persist_gen s + 1\<rparr>;
            s = fs_ata_write P (MUFS_SB_LBA * 512) (superblock (persist_gen s)) 52 s
        in (0, fold (persist_slot P) [0..<FS_MAX_FILES] (persist_meta P s)))"

definition fs_persist_active :: "'h fs_state \<Rightarrow> bool" where
  "fs_persist_active s = persist_active s"

definition fs_persist_generation :: "'h fs_state \<Rightarrow> u32" where
  "fs_persist_generation s = persist_gen s"

end
