(* ===== verification/Fs_Names.thy ===== *)
theory Fs_Names
  imports Fs
begin

text \<open>
  The name space of the file system.  The tables are read as two partial maps from slots to
  path names (\<open>file_at\<close>, \<open>dir_at\<close>); each operation acts on them by a point update, and the tree
  invariant says that names are unique and well formed and that every parent is a directory.
\<close>

section \<open>What the helpers leave alone\<close>

lemma fs_now_keeps [simp]:
  "files (snd (fs_now P s)) = files s" "dirs (snd (fs_now P s)) = dirs s"
  "persist_active (snd (fs_now P s)) = persist_active s" "meta_buf (snd (fs_now P s)) = meta_buf s"
  "dmeta_buf (snd (fs_now P s)) = dmeta_buf s" "persist_gen (snd (fs_now P s)) = persist_gen s"
  "fs_part (snd (fs_now P s)) = fs_part s"
  by (simp_all add: fs_now_def split_beta)

lemma fs_ata_write_keeps [simp]:
  "files (fs_ata_write P o' b n s) = files s" "dirs (fs_ata_write P o' b n s) = dirs s"
  "persist_active (fs_ata_write P o' b n s) = persist_active s" "meta_buf (fs_ata_write P o' b n s) = meta_buf s"
  "dmeta_buf (fs_ata_write P o' b n s) = dmeta_buf s" "persist_gen (fs_ata_write P o' b n s) = persist_gen s"
  "fs_part (fs_ata_write P o' b n s) = fs_part s"
  by (simp_all add: fs_ata_write_def)

lemma fs_ata_writes_keeps [simp]:
  "files (fs_ata_writes P ws s) = files s \<and> dirs (fs_ata_writes P ws s) = dirs s \<and>
   persist_active (fs_ata_writes P ws s) = persist_active s \<and> meta_buf (fs_ata_writes P ws s) = meta_buf s \<and>
   dmeta_buf (fs_ata_writes P ws s) = dmeta_buf s \<and> persist_gen (fs_ata_writes P ws s) = persist_gen s \<and>
   fs_part (fs_ata_writes P ws s) = fs_part s"
  unfolding fs_ata_writes_def by (induction ws arbitrary: s) (auto simp: split_beta)

lemma persist_keeps [simp]:
  "files (persist_meta P s) = files s" "dirs (persist_meta P s) = dirs s" "files (persist_slot P i s) = files s"
  "dirs (persist_slot P i s) = dirs s" "files (persist_slot_range P i a b s) = files s"
  "dirs (persist_slot_range P i a b s) = dirs s" "persist_active (persist_meta P s) = persist_active s"
  by (simp_all add: persist_meta_def persist_slot_def persist_slot_range_def fill_meta_def Let_def)

lemma upd_keeps [simp]:
  "dirs (upd_file i g s) = dirs s" "files (upd_dir i h s) = files s"
  "files (upd_file i g s) = (files s)[i := g (files s ! i)]" "dirs (upd_dir i h s) = (dirs s)[i := h (dirs s ! i)]"
  by (simp_all add: upd_file_def upd_dir_def)

section \<open>Paths\<close>

definition good :: "u8 list \<Rightarrow> bool" where
  "good p \<longleftrightarrow> p \<noteq> [] \<and> length p < 64 \<and>
     (\<forall>i < length p. p ! i = slash \<longrightarrow> 0 < i \<and> i + 1 < length p \<and> p ! (i + 1) \<noteq> slash)"

lemma split_parent_good: "split_parent p \<noteq> None \<longleftrightarrow> good p"
proof -
  have "bad_slash p i \<longleftrightarrow> p ! i = slash \<and> \<not> (0 < i \<and> i + 1 < length p \<and> p ! (i + 1) \<noteq> slash)"
    if "i < length p" for i using that by (auto simp: bad_slash_def)
  then have "list_ex (bad_slash p) [0..<length p] \<longleftrightarrow>
      (\<exists>i < length p. p ! i = slash \<and> \<not> (0 < i \<and> i + 1 < length p \<and> p ! (i + 1) \<noteq> slash))"
    by (force simp: list_ex_iff)
  moreover have "p \<noteq> [] \<Longrightarrow> p ! 0 = slash \<Longrightarrow>
      \<exists>i < length p. p ! i = slash \<and> \<not> (0 < i \<and> i + 1 < length p \<and> p ! (i + 1) \<noteq> slash)" by (rule exI [of _ 0]) simp
  ultimately show ?thesis by (auto simp: split_parent_def good_def FS_MAX_NAME_def split: option.splits)
qed

lemma find_last_slash:
  "find (\<lambda>i. p ! i = slash) (rev [0..<length p]) = Some n \<longleftrightarrow>
     n < length p \<and> p ! n = slash \<and> slash \<notin> set (drop (n + 1) p)"
proof (induction p rule: rev_induct)
  case (snoc c p)
  have eq: "find (\<lambda>i. (p @ [c]) ! i = slash) (rev [0..<length p]) = find (\<lambda>i. p ! i = slash) (rev [0..<length p])"
    by (rule find_cong) (auto simp: nth_append)
  show ?case
  proof (cases "c = slash")
    case True
    then have "n < length (p @ [c]) \<and> (p @ [c]) ! n = slash \<and> slash \<notin> set (drop (n + 1) (p @ [c])) \<longleftrightarrow> n = length p"
      by (auto simp: nth_append drop_append split: if_splits)
    then show ?thesis using True by auto
  next
    case False
    then show ?thesis using snoc.IH eq by (auto simp: nth_append drop_append)
  qed
qed simp

lemma find_no_slash: "find (\<lambda>i. p ! i = slash) (rev [0..<length p]) = None \<longleftrightarrow> slash \<notin> set p"
  by (auto simp: find_None_iff in_set_conv_nth)

lemma split_parent_iff:
  "split_parent p = Some (a, b) \<longleftrightarrow> good p \<and>
     (a = [] \<and> b = p \<and> slash \<notin> set p \<or> p = a @ slash # b \<and> a \<noteq> [] \<and> slash \<notin> set b)"
proof (cases "good p")
  case False
  then show ?thesis using split_parent_good [of p] by auto
next
  case True
  then have ns: "split_parent p = (case find (\<lambda>i. p ! i = slash) (rev [0..<length p]) of
      None \<Rightarrow> Some ([], p) | Some n \<Rightarrow> Some (take n p, drop (n + 1) p))"
    using split_parent_good [of p] unfolding split_parent_def by (auto split: if_splits)
  show ?thesis
  proof (cases "slash \<in> set p")
    case False
    then show ?thesis using True ns find_no_slash [of p] by auto
  next
    case sl: True
    then obtain n where n: "find (\<lambda>i. p ! i = slash) (rev [0..<length p]) = Some n" using find_no_slash [of p] by blast
    note nn = n [unfolded find_last_slash]
    have n0: "0 < n" using nn True by (auto simp: good_def)
    have p: "p = take n p @ slash # drop (n + 1) p" using nn by (metis Suc_eq_plus1 id_take_nth_drop)
    have un: "a = take n p \<and> b = drop (n + 1) p" if "p = a @ slash # b" "slash \<notin> set b" for a b
    proof -
      have "find (\<lambda>i. p ! i = slash) (rev [0..<length p]) = Some (length a)"
        unfolding find_last_slash using that by (simp add: nth_append)
      then have "n = length a" using n by simp
      then show ?thesis using that by simp
    qed
    show ?thesis
    proof
      assume "split_parent p = Some (a, b)"
      then have "a = take n p" "b = drop (n + 1) p" using ns n by auto
      then show "good p \<and> (a = [] \<and> b = p \<and> slash \<notin> set p \<or> p = a @ slash # b \<and> a \<noteq> [] \<and> slash \<notin> set b)"
        using True p nn n0 by auto
    next
      assume "good p \<and> (a = [] \<and> b = p \<and> slash \<notin> set p \<or> p = a @ slash # b \<and> a \<noteq> [] \<and> slash \<notin> set b)"
      then show "split_parent p = Some (a, b)" using sl un ns n by auto
    qed
  qed
qed

lemma under_iff: "under d p \<longleftrightarrow> (\<exists>r. p = d @ slash # r)"
proof
  assume "under d p"
  then have u: "take (length d) p = d" "length d < length p" "p ! length d = slash" by (simp_all add: under_def)
  have "p = take (length d) p @ p ! length d # drop (Suc (length d)) p" by (rule id_take_nth_drop [OF u(2)])
  then show "\<exists>r. p = d @ slash # r" using u by metis
qed (auto simp: under_def)

lemma copy_name_eq: "copy_name p = take 63 p @ replicate (63 - length p) 0 @ [0]" if "0 \<notin> set p"
proof -
  have "strncpy (p @ [0]) n = Some (take n p @ replicate (n - length p) 0)" for n
    using that
  proof (induction p arbitrary: n)
    case Nil
    then show ?case by (cases n) auto
  next
    case (Cons c p)
    then show ?case by (cases n) auto
  qed
  then show ?thesis by (simp add: copy_name_def)
qed

lemma copy_name_cstr:
  assumes "0 \<notin> set p" and "length p < 64"
  shows "cstr (copy_name p) = p" and "length (copy_name p) = 64" and "0 \<in> set (copy_name p)"
proof -
  have e: "copy_name p = p @ replicate (63 - length p) 0 @ [0]" using copy_name_eq [OF assms(1)] assms(2) by simp
  have "takeWhile (\<lambda>c. c \<noteq> 0) (replicate k (0::u8) @ [0]) = []" for k by (cases k) simp_all
  then show "cstr (copy_name p) = p" unfolding e cstr_def by (subst takeWhile_append2) (use assms(1) in auto)
  show "length (copy_name p) = 64" "0 \<in> set (copy_name p)" using e assms(2) by simp_all
qed

section \<open>The name space\<close>

definition file_at :: "'h fs_state \<Rightarrow> nat \<rightharpoonup> u8 list" where
  "file_at s i = (if i < length (files s) \<and> live (files s ! i) then Some (cstr (f_name (files s ! i))) else None)"

definition dir_at :: "'h fs_state \<Rightarrow> nat \<rightharpoonup> u8 list" where
  "dir_at s i = (if i < length (dirs s) \<and> d_used (dirs s ! i) \<noteq> 0 then Some (cstr (d_name (dirs s ! i))) else None)"

text \<open>The shape of the tables.\<close>

definition fs_shape :: "'h fs_state \<Rightarrow> bool" where
  "fs_shape s \<longleftrightarrow> length (files s) = FS_MAX_FILES \<and> length (dirs s) = FS_MAX_DIRS \<and>
     (\<forall>f \<in> set (files s). length (f_name f) = 64 \<and> 0 \<in> set (f_name f) \<and> length (f_data f) = 65536 \<and> f_size f \<le> FS_MAX_SIZE) \<and>
     (\<forall>d \<in> set (dirs s). length (d_name d) = 64 \<and> 0 \<in> set (d_name d))"

text \<open>Names are unique, well formed, and lie in an existing directory.\<close>

definition one_to_one :: "('a \<rightharpoonup> 'b) \<Rightarrow> bool" where
  "one_to_one F \<longleftrightarrow> (\<forall>i j p. F i = Some p \<and> F j = Some p \<longrightarrow> i = j)"

definition tree :: "(nat \<rightharpoonup> u8 list) \<Rightarrow> (nat \<rightharpoonup> u8 list) \<Rightarrow> bool" where
  "tree F D \<longleftrightarrow> one_to_one F \<and> one_to_one D \<and> ran F \<inter> ran D = {} \<and>
     (\<forall>p \<in> ran F \<union> ran D. \<exists>a b. split_parent p = Some (a, b) \<and> a \<in> insert [] (ran D))"

definition fs_inv :: "'h fs_state \<Rightarrow> bool" where
  "fs_inv s \<longleftrightarrow> fs_shape s \<and> tree (file_at s) (dir_at s)"

lemma one_to_one_upd: "one_to_one F \<Longrightarrow> p \<notin> ran (F(i := None)) \<Longrightarrow> one_to_one (F(i \<mapsto> p))"
  unfolding one_to_one_def ran_def by (auto split: if_splits)

lemma one_to_one_del: "one_to_one F \<Longrightarrow> one_to_one (F(i := None))"
  unfolding one_to_one_def by auto

lemma ran_del_subset: "ran (F(i := None)) \<subseteq> ran F"
  by (auto simp: ran_def split: if_splits)

lemma ran_upd: "ran (F(i \<mapsto> p)) = insert p (ran (F(i := None)))"
  by (auto simp: ran_def split: if_splits)

lemma tree_parent:
  assumes "tree F D" and "q \<in> ran F \<union> ran D"
  obtains a b where "split_parent q = Some (a, b)" and "a \<in> insert [] (ran D)"
  using assms unfolding tree_def by blast

lemma tree_set_file:
  assumes "tree F D" and "p \<notin> ran (F(i := None))" and "p \<notin> ran D" and "split_parent p = Some (a, b)" "a \<in> insert [] (ran D)"
  shows "tree (F(i \<mapsto> p)) D"
  using assms ran_del_subset [of F i] unfolding tree_def ran_upd by (auto intro: one_to_one_upd)

lemma tree_del_file: "tree F D \<Longrightarrow> tree (F(i := None)) D"
  using ran_del_subset [of F i] unfolding tree_def by (auto intro: one_to_one_del)

lemma tree_add_dir:
  assumes "tree F D" and "D i = None" and "p \<notin> ran F" and "p \<notin> ran D" and "split_parent p = Some (a, b)" "a \<in> insert [] (ran D)"
  shows "tree F (D(i \<mapsto> p))"
proof -
  have "D(i := None) = D" using assms(2) by auto
  with assms show ?thesis unfolding tree_def ran_upd by (fastforce intro: one_to_one_upd)
qed

lemma tree_del_dir:
  assumes "tree F D" and "D i = Some p" and "\<forall>q \<in> ran F \<union> ran D. \<not> under p q"
  shows "tree F (D(i := None))"
proof -
  have "one_to_one D" using assms(1) by (simp add: tree_def)
  then have r: "ran (D(i := None)) = ran D - {p}"
    using assms(2) unfolding one_to_one_def ran_def by (auto split: if_splits) (metis option.inject)
  have "\<exists>a b. split_parent q = Some (a, b) \<and> a \<in> insert [] (ran D - {p})" if q: "q \<in> ran F \<union> ran D" for q
  proof -
    obtain a b where ab: "split_parent q = Some (a, b)" "a \<in> insert [] (ran D)" by (rule tree_parent [OF assms(1) q])
    have "a \<noteq> p \<or> a = []" using ab(1) assms(3) q by (auto simp: split_parent_iff under_iff)
    then show ?thesis using ab by auto
  qed
  then show ?thesis using assms(1) unfolding tree_def r by (auto intro: one_to_one_del)
qed

text \<open>Every directory on the way to a name exists.\<close>

lemma tree_prefix:
  assumes "tree F D" and "q \<in> ran F \<union> ran D" and "under d q" and "d \<noteq> []"
  shows "d \<in> ran D"
  using assms(2,3)
proof (induction "length q" arbitrary: q rule: less_induct)
  case less
  obtain a b where ab: "split_parent q = Some (a, b)" "a \<in> insert [] (ran D)" by (rule tree_parent [OF assms(1) less.prems(1)])
  obtain r where r: "q = d @ slash # r" using less.prems(2) by (auto simp: under_iff)
  then have q: "q = a @ slash # b" "a \<noteq> []" "slash \<notin> set b" using ab(1) by (auto simp: split_parent_iff)
  show ?case
  proof (cases "a = d")
    case True
    then show ?thesis using ab(2) q(2) by simp
  next
    case False
    have "\<exists>us. d @ us = a \<and> slash # r = us @ slash # b \<or> d = a @ us \<and> us @ slash # r = slash # b"
      using r q(1) by (auto simp: append_eq_append_conv2)
    then obtain us where "d @ us = a \<and> slash # r = us @ slash # b \<or> d = a @ us \<and> us @ slash # r = slash # b" by blast
    then have "under d a" using False q(3) by (cases us) (auto simp: under_iff)
    then show ?thesis using less.hyps [of a] ab(2) q by auto
  qed
qed

section \<open>Operations on the name space\<close>

lemma file_at_cong: "files s' = files s \<Longrightarrow> file_at s' = file_at s"
  by (simp add: file_at_def fun_eq_iff)

lemma dir_at_cong: "dirs s' = dirs s \<Longrightarrow> dir_at s' = dir_at s"
  by (simp add: dir_at_def fun_eq_iff)

lemma file_at_files:
  assumes "i < length (files s)" and "files s' = (files s)[i := f]"
  shows "file_at s' = (file_at s)(i := if live f then Some (cstr (f_name f)) else None)"
  using assms by (auto simp: file_at_def fun_eq_iff nth_list_update)

lemma dir_at_dirs:
  assumes "i < length (dirs s)" and "dirs s' = (dirs s)[i := d]"
  shows "dir_at s' = (dir_at s)(i := if d_used d \<noteq> 0 then Some (cstr (d_name d)) else None)"
  using assms by (auto simp: dir_at_def fun_eq_iff nth_list_update)

lemma ran_file_at: "p \<in> ran (file_at s) \<longleftrightarrow> (\<exists>f \<in> set (files s). live f \<and> cstr (f_name f) = p)"
proof -
  have "p \<in> ran (file_at s) \<longleftrightarrow> (\<exists>i < length (files s). live (files s ! i) \<and> cstr (f_name (files s ! i)) = p)"
    by (auto simp: ran_def file_at_def)
  then show ?thesis by (metis in_set_conv_nth)
qed

lemma ran_dir_at: "p \<in> ran (dir_at s) \<longleftrightarrow> (\<exists>d \<in> set (dirs s). d_used d \<noteq> 0 \<and> cstr (d_name d) = p)"
proof -
  have "p \<in> ran (dir_at s) \<longleftrightarrow> (\<exists>i < length (dirs s). d_used (dirs s ! i) \<noteq> 0 \<and> cstr (d_name (dirs s ! i)) = p)"
    by (auto simp: ran_def dir_at_def)
  then show ?thesis by (metis in_set_conv_nth)
qed

lemma file_exists_iff: "file_exists p s \<longleftrightarrow> p \<noteq> [] \<and> p \<in> ran (file_at s)"
  by (simp add: file_exists_def list_ex_iff ran_file_at)

lemma dir_exists_iff: "dir_exists p s \<longleftrightarrow> p \<in> insert [] (ran (dir_at s))"
  by (simp add: dir_exists_def list_ex_iff ran_dir_at)

lemma parent_is_dir_iff:
  "fs_parent_is_dir p s \<longleftrightarrow> (\<exists>a b. split_parent p = Some (a, b) \<and> a \<in> insert [] (ran (dir_at s)))"
  by (auto simp: fs_parent_is_dir_def dir_exists_iff split: option.splits)

lemma find_file_named:
  assumes "find_idx (named p) (files s) = Some i"
  shows "i < length (files s)" and "file_at s i = Some p"
  using find_idx_SomeD [OF assms] by (auto simp: file_at_def named_def)

lemma find_file_none: "find_idx (named p) (files s) = None \<longleftrightarrow> p \<notin> ran (file_at s)"
  by (simp add: find_idx_None named_def ran_file_at)

lemma find_dir_named:
  assumes "find_idx (\<lambda>d. d_used d \<noteq> 0 \<and> cstr (d_name d) = p) (dirs s) = Some i"
  shows "i < length (dirs s)" and "dir_at s i = Some p"
  using find_idx_SomeD [OF assms] by (auto simp: dir_at_def)

lemma find_dir_none:
  "find_idx (\<lambda>d. d_used d \<noteq> 0 \<and> cstr (d_name d) = p) (dirs s) = None \<longleftrightarrow> p \<notin> ran (dir_at s)"
  by (auto simp: find_idx_None ran_dir_at)

lemma good_lt: "split_parent p = Some ab \<Longrightarrow> length p < 64 \<and> p \<noteq> []"
  using split_parent_good [of p] by (auto simp: good_def)

text \<open>The abstract operations: what each call does to the two maps.\<close>

definition ns_create where
  "ns_create p F D i F' D' \<longleftrightarrow> i < 16 \<and> F i = None \<and> p \<notin> ran F \<and> p \<notin> insert [] (ran D) \<and>
     (\<exists>a b. split_parent p = Some (a, b) \<and> a \<in> insert [] (ran D)) \<and> F' = F(i \<mapsto> p) \<and> D' = D"

lemma fs_create_names:
  assumes "fs_shape s" and "0 \<notin> set p" and "fs_create P p s = (r, s')"
  shows "r = - 1 \<and> s' = s \<or>
    (\<exists>i. r = int i \<and> ns_create p (file_at s) (dir_at s) i (file_at s') (dir_at s') \<and> f_used (files s ! i) = 0 \<and>
      files s' = (files s)[i := files s' ! i] \<and> f_size (files s' ! i) = 0 \<and> f_refs (files s' ! i) = 0 \<and>
      f_mode (files s' ! i) = 0x1A4 \<and> f_data (files s' ! i) = f_data (files s ! i) \<and> f_name (files s' ! i) = copy_name p)"
proof (cases "can_add p s")
  case False
  then show ?thesis using assms(3) by (simp add: fs_create_def)
next
  case True
  show ?thesis
  proof (cases "find_idx (\<lambda>f. f_used f = 0) (files s)")
    case None
    then show ?thesis using assms(3) True by (simp add: fs_create_def)
  next
    case (Some i)
    have i: "i < length (files s)" "f_used (files s ! i) = 0" using find_idx_SomeD [OF Some] by auto
    obtain t s1 where n: "fs_now P s = (t, s1)" by force
    have s1: "files s1 = files s" "dirs s1 = dirs s" using fs_now_keeps [of P s] n by simp_all
    define f where "f = (files s ! i)\<lparr>f_name := copy_name p, f_size := 0, f_used := 1, f_deleted := 0, f_refs := 0,
                f_atime := t, f_mtime := t, f_ctime := t, f_uid := 0, f_gid := 0, f_mode := 0x1A4\<rparr>"
    have rs: "r = int i" "files s' = (files s)[i := f]" "dirs s' = dirs s"
      using assms(3) True Some n s1 by (auto simp: fs_create_def Let_def f_def)
    obtain a b where ab: "split_parent p = Some (a, b)" "a \<in> insert [] (ran (dir_at s))"
      and ne: "p \<notin> ran (file_at s)" "p \<notin> insert [] (ran (dir_at s))"
      using True good_lt [of p] by (auto simp: can_add_def parent_is_dir_iff file_exists_iff dir_exists_iff)
    have "live f" "cstr (f_name f) = p"
      using copy_name_cstr(1) [OF assms(2)] good_lt [OF ab(1)] by (simp_all add: f_def live_def)
    then have "file_at s' = (file_at s)(i \<mapsto> p)" using file_at_files [OF i(1) rs(2)] by simp
    moreover have "dir_at s' = dir_at s" by (rule dir_at_cong [OF rs(3)])
    moreover have "file_at s i = None" using i by (simp add: file_at_def live_def)
    moreover have "i < 16" using i(1) assms(1) by (simp add: fs_shape_def FS_MAX_FILES_def)
    ultimately have "ns_create p (file_at s) (dir_at s) i (file_at s') (dir_at s')"
      unfolding ns_create_def using ab ne by blast
    moreover have "files s' ! i = f" using rs(2) i(1) by simp
    ultimately show ?thesis using rs(1,2) i(2) by (intro disjI2 exI [of _ i]) (simp add: f_def)
  qed
qed

definition ns_mkdir where
  "ns_mkdir p F D F' D' \<longleftrightarrow> (\<exists>i < 16. D i = None \<and> p \<notin> ran F \<and> p \<notin> insert [] (ran D) \<and>
     (\<exists>a b. split_parent p = Some (a, b) \<and> a \<in> insert [] (ran D)) \<and> F' = F \<and> D' = D(i \<mapsto> p))"

lemma fs_mkdir_names:
  assumes "fs_shape s" and "0 \<notin> set p" and "fs_mkdir P p s = (r, s')"
  shows "r = - 1 \<and> s' = s \<or> r = 0 \<and> ns_mkdir p (file_at s) (dir_at s) (file_at s') (dir_at s') \<and> files s' = files s \<and>
    (\<exists>i. dirs s' = (dirs s)[i := \<lparr>d_name = copy_name p, d_used = 1, d_uid = 0, d_gid = 0, d_mode = 0x1ED\<rparr>])"
proof (cases "can_add p s \<and> find_idx (\<lambda>d. d_used d = 0) (dirs s) \<noteq> None")
  case False
  then show ?thesis using assms(3) by (auto simp: fs_mkdir_def split: if_splits)
next
  case True
  then obtain i where Some: "find_idx (\<lambda>d. d_used d = 0) (dirs s) = Some i" by blast
  have i: "i < length (dirs s)" "d_used (dirs s ! i) = 0" using find_idx_SomeD [OF Some] by auto
  define d where "d = \<lparr>d_name = copy_name p, d_used = 1, d_uid = 0, d_gid = 0, d_mode = 0x1ED\<rparr>"
  have rs: "r = 0" "files s' = files s" "dirs s' = (dirs s)[i := d]"
    using assms(3) True Some by (cases "dirs s ! i"; auto simp: fs_mkdir_def d_def)+
  obtain a b where ab: "split_parent p = Some (a, b)" "a \<in> insert [] (ran (dir_at s))"
    and ne: "p \<notin> ran (file_at s)" "p \<notin> insert [] (ran (dir_at s))"
    using True good_lt [of p] by (auto simp: can_add_def parent_is_dir_iff file_exists_iff dir_exists_iff)
  have "cstr (d_name d) = p" using copy_name_cstr(1) [OF assms(2)] good_lt [OF ab(1)] by (simp add: d_def)
  then have "dir_at s' = (dir_at s)(i \<mapsto> p)" using dir_at_dirs [OF i(1) rs(3)] by (simp add: d_def)
  moreover have "file_at s' = file_at s" by (rule file_at_cong [OF rs(2)])
  moreover have "dir_at s i = None" using i by (simp add: dir_at_def)
  moreover have "i < 16" using i(1) assms(1) by (simp add: fs_shape_def FS_MAX_DIRS_def)
  ultimately have "ns_mkdir p (file_at s) (dir_at s) (file_at s') (dir_at s')"
    unfolding ns_mkdir_def using ab ne by blast
  then show ?thesis using rs by (auto simp: d_def)
qed

definition ns_rmdir where
  "ns_rmdir p F D F' D' \<longleftrightarrow> (\<exists>i. D i = Some p \<and> p \<noteq> [] \<and> (\<forall>q \<in> ran F \<union> ran D. \<not> under p q) \<and> F' = F \<and> D' = D(i := None))"

lemma dir_is_empty_iff:
  "fs_dir_is_empty p s \<longleftrightarrow> dir_exists p s \<and> (\<forall>q \<in> ran (file_at s) \<union> ran (dir_at s). \<not> under p q)"
  by (auto simp: fs_dir_is_empty_def list_ex_iff Ball_def ran_file_at ran_dir_at)

lemma fs_rmdir_names:
  assumes "fs_rmdir P p s = (r, s')"
  shows "r = - 1 \<and> s' = s \<or> r = 0 \<and> ns_rmdir p (file_at s) (dir_at s) (file_at s') (dir_at s') \<and> files s' = files s \<and>
    (\<exists>i < length (dirs s). dirs s' = (dirs s)[i := (dirs s ! i)\<lparr>d_used := 0, d_name := (d_name (dirs s ! i))[0 := 0]\<rparr>])"
proof (cases "(p = [] \<or> \<not> dir_exists p s \<or> \<not> fs_dir_is_empty p s) \<or>
    find_idx (\<lambda>d. d_used d \<noteq> 0 \<and> cstr (d_name d) = p) (dirs s) = None")
  case True
  then show ?thesis using assms by (auto simp: fs_rmdir_def split: if_splits)
next
  case False
  then obtain i where Some: "find_idx (\<lambda>d. d_used d \<noteq> 0 \<and> cstr (d_name d) = p) (dirs s) = Some i" by blast
  note i = find_dir_named [OF Some]
  have rs: "r = 0" "files s' = files s"
    "dirs s' = (dirs s)[i := (dirs s ! i)\<lparr>d_used := 0, d_name := (d_name (dirs s ! i))[0 := 0]\<rparr>]"
    using assms False Some by (auto simp: fs_rmdir_def)
  have "dir_at s' = (dir_at s)(i := None)" using dir_at_dirs [OF i(1) rs(3)] by simp
  moreover have "file_at s' = file_at s" by (rule file_at_cong [OF rs(2)])
  moreover have "\<forall>q \<in> ran (file_at s) \<union> ran (dir_at s). \<not> under p q" "p \<noteq> []" using False by (auto simp: dir_is_empty_iff)
  ultimately have "ns_rmdir p (file_at s) (dir_at s) (file_at s') (dir_at s')" unfolding ns_rmdir_def using i(2) by blast
  then show ?thesis using rs i(1) by blast
qed

definition ns_delete where
  "ns_delete p F D F' D' \<longleftrightarrow> (\<exists>i. F i = Some p \<and> F' = F(i := None) \<and> D' = D)"

text \<open>An unlinked file keeps its slot while it is open.\<close>

definition unlinked :: "fs_file_t \<Rightarrow> fs_file_t \<Rightarrow> bool" where
  "unlinked f f' \<longleftrightarrow> f_name f' = (f_name f)[0 := 0] \<and> f_data f' = f_data f \<and> f_refs f' = f_refs f \<and>
     (if f_refs f = 0 then f_used f' = 0 \<and> f_size f' = 0 \<and> f_deleted f' = 0
      else f_used f' = f_used f \<and> f_size f' = f_size f \<and> f_deleted f' = 1)"

lemma fs_delete_names:
  assumes "fs_delete P p s = (r, s')"
  shows "r = - 1 \<and> s' = s \<and> p \<notin> ran (file_at s) \<or> r = 0 \<and> ns_delete p (file_at s) (dir_at s) (file_at s') (dir_at s') \<and>
    dirs s' = dirs s \<and> (\<exists>i f. file_at s i = Some p \<and> files s' = (files s)[i := f] \<and> unlinked (files s ! i) f)"
proof (cases "find_idx (named p) (files s)")
  case None
  then have "p \<notin> ran (file_at s)" by (simp add: find_file_none)
  with None show ?thesis using assms by (simp add: fs_delete_def)
next
  case (Some i)
  note i = find_file_named [OF Some]
  obtain t s1 where n: "fs_now P s = (t, s1)" by force
  have s1: "files s1 = files s" "dirs s1 = dirs s" using fs_now_keeps [of P s] n by simp_all
  obtain f where f: "files s' = (files s)[i := f]" "unlinked (files s ! i) f" "dirs s' = dirs s" "r = 0"
    using assms Some n s1 i(1) by (auto simp: fs_delete_def Let_def unlinked_def split: if_splits)
  have "\<not> live f" using f(2) by (auto simp: unlinked_def live_def split: if_splits)
  then have "file_at s' = (file_at s)(i := None)" using file_at_files [OF i(1) f(1)] by simp
  moreover have "dir_at s' = dir_at s" by (rule dir_at_cong [OF f(3)])
  ultimately have "ns_delete p (file_at s) (dir_at s) (file_at s') (dir_at s')" unfolding ns_delete_def using i(2) by blast
  then show ?thesis using f i(2) by blast
qed

definition ns_rename where
  "ns_rename i p F D F' D' \<longleftrightarrow> F i \<noteq> None \<and> p \<notin> ran (F(i := None)) \<and> p \<notin> insert [] (ran D) \<and>
     (\<exists>a b. split_parent p = Some (a, b) \<and> a \<in> insert [] (ran D)) \<and> F' = F(i \<mapsto> p) \<and> D' = D"

lemma fs_rename_names:
  assumes "fs_shape s" and "0 \<notin> set p" and "fs_rename P slot p s = (r, s')"
  shows "r = - 1 \<and> s' = s \<or> r = 0 \<and> ns_rename (nat slot) p (file_at s) (dir_at s) (file_at s') (dir_at s') \<and>
    dirs s' = dirs s \<and> (\<exists>t. files s' = (files s)[nat slot := (files s ! nat slot)\<lparr>f_name := copy_name p, f_ctime := t\<rparr>])"
proof (cases "\<not> fd_ok slot s \<or> f_deleted (files s ! nat slot) \<noteq> 0 \<or> \<not> fs_parent_is_dir p s \<or> dir_exists p s \<or>
    list_ex (\<lambda>i. i \<noteq> nat slot \<and> named p (files s ! i)) [0..<FS_MAX_FILES]")
  case True
  then show ?thesis using assms(3) by (auto simp: fs_rename_def split: if_splits)
next
  case False
  obtain t s1 where n: "fs_now P s = (t, s1)" by force
  have s1: "files s1 = files s" "dirs s1 = dirs s" using fs_now_keeps [of P s] n by simp_all
  let ?i = "nat slot"
  have l: "length (files s) = 16" using assms(1) by (simp add: fs_shape_def FS_MAX_FILES_def)
  have i: "?i < length (files s)" "live (files s ! ?i)" using False l by (auto simp: fd_ok_def live_def FS_MAX_FILES_def)
  define f where "f = (files s ! ?i)\<lparr>f_name := copy_name p, f_ctime := t\<rparr>"
  have rs: "r = 0" "files s' = (files s)[?i := f]" "dirs s' = dirs s"
    using assms(3) False n s1 by (auto simp: fs_rename_def f_def)
  obtain a b where ab: "split_parent p = Some (a, b)" "a \<in> insert [] (ran (dir_at s))" and ne: "p \<notin> insert [] (ran (dir_at s))"
    using False by (auto simp: parent_is_dir_iff dir_exists_iff)
  have uniq: "p \<notin> ran ((file_at s)(?i := None))"
  proof
    assume "p \<in> ran ((file_at s)(?i := None))"
    then obtain j where j: "j \<noteq> ?i" "file_at s j = Some p" by (auto simp: ran_def split: if_splits)
    then have "j < 16" "named p (files s ! j)" using l by (auto simp: file_at_def named_def split: if_splits)
    then show False using False j(1) by (auto simp: list_ex_iff FS_MAX_FILES_def)
  qed
  have "live f" "cstr (f_name f) = p"
    using copy_name_cstr(1) [OF assms(2)] good_lt [OF ab(1)] i(2) by (simp_all add: f_def live_def)
  then have "file_at s' = (file_at s)(?i \<mapsto> p)" using file_at_files [OF i(1) rs(2)] by simp
  moreover have "dir_at s' = dir_at s" by (rule dir_at_cong [OF rs(3)])
  moreover have "file_at s ?i \<noteq> None" using i by (simp add: file_at_def)
  ultimately have "ns_rename ?i p (file_at s) (dir_at s) (file_at s') (dir_at s')"
    unfolding ns_rename_def using ab ne uniq by blast
  then show ?thesis using rs by (auto simp: f_def)
qed

section \<open>Moving a subtree\<close>

definition moved :: "u8 list \<Rightarrow> u8 list \<Rightarrow> u8 list \<Rightarrow> u8 list" where
  "moved old new p = (if name_under p old then new @ drop (length old) p else p)"

lemma name_under_iff: "name_under p d \<longleftrightarrow> (\<exists>t. p = d @ t \<and> (t = [] \<or> hd t = slash))"
proof
  assume "name_under p d"
  then consider "p = d" | r where "p = d @ slash # r" unfolding name_under_def under_iff by blast
  then show "\<exists>t. p = d @ t \<and> (t = [] \<or> hd t = slash)" by cases auto
next
  assume "\<exists>t. p = d @ t \<and> (t = [] \<or> hd t = slash)"
  then obtain t where "p = d @ t" "t = [] \<or> hd t = slash" by blast
  then show "name_under p d" unfolding name_under_def under_iff by (cases t) auto
qed

lemma moved_under: "p = old @ t \<Longrightarrow> t = [] \<or> hd t = slash \<Longrightarrow> moved old new p = new @ t"
  by (auto simp: moved_def name_under_iff)

lemma good_move:
  assumes g: "good (old @ t)" "good new" and t: "t = [] \<or> hd t = slash" and l: "length (new @ t) < 64"
  shows "good (new @ t)"
proof -
  have "0 < i \<and> i + 1 < length (new @ t) \<and> (new @ t) ! (i + 1) \<noteq> slash"
    if i: "i < length (new @ t)" "(new @ t) ! i = slash" for i
  proof (cases "i < length new")
    case True
    then have "0 < i \<and> i + 1 < length new \<and> new ! (i + 1) \<noteq> slash" using g(2) i(2) by (auto simp: good_def nth_append)
    then show ?thesis by (simp add: nth_append)
  next
    case False
    define j where "j = i - length new"
    have j: "i = length new + j" "j < length t" "t ! j = slash" using False i by (auto simp: j_def nth_append)
    have "length old + j < length (old @ t)" "(old @ t) ! (length old + j) = slash" using j by (simp_all add: nth_append)
    then have "length old + j + 1 < length (old @ t) \<and> (old @ t) ! (length old + j + 1) \<noteq> slash" using g(1) unfolding good_def by blast
    then have "j + 1 < length t" "t ! (j + 1) \<noteq> slash" by (auto simp: nth_append)
    moreover have "0 < length new" using g(2) by (simp add: good_def)
    ultimately show ?thesis using j(1) by (auto simp: nth_append)
  qed
  then show ?thesis using g(2) l unfolding good_def by auto
qed

lemma split_parent_moved:
  assumes p: "split_parent p = Some (a, b)" and u: "under old p" and new: "good new" and l: "length (moved old new p) < 64"
    and old: "old \<noteq> []"
  shows "split_parent (moved old new p) = Some (moved old new a, b) \<and> name_under a old"
proof -
  obtain r where r: "p = old @ slash # r" using u by (auto simp: under_iff)
  have ab: "p = a @ slash # b" "a \<noteq> []" "slash \<notin> set b" and g: "good p" using p r by (auto simp: split_parent_iff)
  have m: "moved old new p = new @ slash # r" using r moved_under [of p old "slash # r" new] by simp
  have "\<exists>us. old @ us = a \<and> slash # r = us @ slash # b \<or> old = a @ us \<and> us @ slash # r = slash # b"
    using r ab(1) by (auto simp: append_eq_append_conv2)
  then obtain us where us: "old @ us = a \<and> slash # r = us @ slash # b \<or> old = a @ us \<and> us @ slash # r = slash # b" by blast
  then have h: "a = old @ us \<and> slash # r = us @ slash # b \<and> (us = [] \<or> hd us = slash)"
    using ab(3) by (cases us) auto
  then have ma: "moved old new a = new @ us" using moved_under [of a old us new] by simp
  have "good (new @ slash # r)" by (rule good_move [of old]) (use g r new l m in simp_all)
  moreover have "new \<noteq> []" using new by (simp add: good_def)
  ultimately show ?thesis using h ab(3) unfolding m ma split_parent_iff by (auto simp: name_under_iff)
qed

lemma tree_move:
  assumes T: "tree F D" and old: "old \<noteq> []"
    and new: "split_parent new = Some (np, nb)" "np \<in> insert [] (ran D)" and free: "new \<notin> ran F \<union> ran D"
    and out: "\<not> name_under new old" and len: "\<forall>p \<in> ran F \<union> ran D. length (moved old new p) < 64"
  shows "tree (map_option (moved old new) \<circ> F) (map_option (moved old new) \<circ> D)"
proof -
  let ?m = "moved old new"
  have gn: "good new" using new(1) by (simp add: split_parent_iff)
  then have nn: "new \<noteq> []" by (simp add: good_def)
  have ran: "ran (map_option ?m \<circ> G) = ?m ` ran G" for G :: "nat \<rightharpoonup> u8 list" by (auto simp: ran_def)
  have fresh: "\<not> name_under q new" if "q \<in> ran F \<union> ran D" for q
    using tree_prefix [OF T that _ nn] free that by (auto simp: name_under_def)
  have inj: "p = q" if "p \<in> ran F \<union> ran D" "q \<in> ran F \<union> ran D" "?m p = ?m q" for p q
  proof -
    have d: "?m x = x \<and> \<not> name_under x old \<or> (\<exists>t. x = old @ t \<and> (t = [] \<or> hd t = slash) \<and> ?m x = new @ t)" for x
      by (cases "name_under x old") (auto simp: moved_def name_under_iff)
    from d [of p] d [of q] that(3) fresh [OF that(1)] fresh [OF that(2)] show ?thesis
      by (elim disjE) (auto simp: name_under_iff)
  qed
  have oto: "one_to_one (map_option ?m \<circ> G)" if "one_to_one G" "ran G \<subseteq> ran F \<union> ran D" for G :: "nat \<rightharpoonup> u8 list"
    unfolding one_to_one_def
  proof (intro allI impI)
    fix i j p assume "(map_option ?m \<circ> G) i = Some p \<and> (map_option ?m \<circ> G) j = Some p"
    then obtain x y where xy: "G i = Some x" "G j = Some y" "?m x = ?m y" by auto
    then have "x = y" using inj [of x y] that(2) by (auto simp: ran_def)
    then show "i = j" using xy that(1) by (auto simp: one_to_one_def)
  qed
  have par: "\<exists>a b. split_parent (?m p) = Some (a, b) \<and> a \<in> insert [] (?m ` ran D)" if p: "p \<in> ran F \<union> ran D" for p
  proof -
    obtain a b where ab: "split_parent p = Some (a, b)" "a \<in> insert [] (ran D)" by (rule tree_parent [OF T p])
    consider "p = old" | "under old p" | "\<not> name_under p old" unfolding name_under_def by blast
    then show ?thesis
    proof cases
      case 1
      have "\<not> name_under np old"
      proof
        assume "name_under np old"
        then obtain t where t: "np = old @ t" "t = [] \<or> hd t = slash" unfolding name_under_iff by blast
        then have "new = old @ (t @ slash # nb)" using new(1) old by (auto simp: split_parent_iff)
        then show False using out t(2) unfolding name_under_iff by (cases t) auto
      qed
      then have "?m np = np" by (simp add: moved_def)
      moreover have "?m p = new" using 1 moved_under [of p old "[]" new] by simp
      ultimately show ?thesis using new by (metis image_eqI insert_iff)
    next
      case 2
      have "split_parent (?m p) = Some (?m a, b)" "a \<noteq> []"
        using split_parent_moved [OF ab(1) 2 gn _ old] len p old by (auto simp: name_under_iff)
      then show ?thesis using ab(2) by blast
    next
      case 3
      have "\<not> name_under a old" if "a \<noteq> []"
      proof
        assume "name_under a old"
        then obtain t where t: "a = old @ t" "t = [] \<or> hd t = slash" unfolding name_under_iff by blast
        then have "p = old @ (t @ slash # b)" using ab(1) \<open>a \<noteq> []\<close> by (auto simp: split_parent_iff)
        then show False using 3 t(2) unfolding name_under_iff by (cases t) auto
      qed
      then have "a \<in> insert [] (?m ` ran D)" using ab(2) by (cases "a = []") (auto simp: moved_def image_iff)
      moreover have "?m p = p" using 3 by (simp add: moved_def)
      ultimately show ?thesis using ab(1) by auto
    qed
  qed
  have "?m ` ran F \<inter> ?m ` ran D = {}" using inj T by (auto simp: tree_def)
  then show ?thesis using T oto par unfolding tree_def ran by auto
qed

lemma cstr_no_nul: "0 \<notin> set (cstr a)"
  unfolding cstr_def by (auto dest: set_takeWhileD)

lemma cstr_append_nul: "0 \<notin> set p \<Longrightarrow> cstr (p @ 0 # a) = p"
  unfolding cstr_def by (induction p) auto

lemma cstr_short:
  assumes "length a = n" and "0 \<in> set a"
  shows "length (cstr a) < n"
proof -
  have "cstr a \<noteq> a" using assms(2) unfolding cstr_def takeWhile_eq_all_conv by blast
  then have "length (cstr a) \<noteq> length a" unfolding cstr_def by (metis takeWhile_eq_take take_all order_refl)
  then show ?thesis using assms(1) length_takeWhile_le [of "\<lambda>c. c \<noteq> 0" a] by (simp add: cstr_def)
qed

lemma move_name_cstr:
  assumes "0 \<notin> set new" and "length (new @ drop (length old) (cstr a)) < 64" and "length a = 64"
  shows "cstr (move_name old new a) = new @ drop (length old) (cstr a)" and "length (move_name old new a) = 64"
    and "0 \<in> set (move_name old new a)"
proof -
  let ?r = "new @ drop (length old) (cstr a)"
  have e: "move_name old new a = ?r @ 0 # drop (length ?r + 1) a" by (simp add: move_name_def overlay_def Let_def)
  have "0 \<notin> set ?r" using assms(1) cstr_no_nul [of a] by (auto dest: in_set_dropD)
  then show "cstr (move_name old new a) = ?r" unfolding e by (rule cstr_append_nul)
  show "length (move_name old new a) = 64" "0 \<in> set (move_name old new a)" unfolding e using assms(2,3) by simp_all
qed

definition moved_file :: "u8 list \<Rightarrow> u8 list \<Rightarrow> fs_file_t \<Rightarrow> fs_file_t \<Rightarrow> bool" where
  "moved_file old new f f' \<longleftrightarrow>
     (if live f \<and> name_under (cstr (f_name f)) old
      then \<exists>t. f' = f\<lparr>f_name := move_name old new (f_name f), f_ctime := t\<rparr> else f' = f)"

lemma move_files_spec:
  fixes P :: "'h ports" and old new :: "u8 list"
  assumes "distinct is" and "set is \<subseteq> {..<length (files s)}"
  defines "s' \<equiv> move_files P old new is s"
  shows "dirs s' = dirs s \<and> length (files s') = length (files s) \<and>
    (\<forall>j < length (files s). if j \<in> set is then moved_file old new (files s ! j) (files s' ! j) else files s' ! j = files s ! j)"
  unfolding s'_def using assms(1,2)
proof (induction "is" arbitrary: s)
  case (Cons i "is")
  show ?case
  proof (cases "live (files s ! i) \<and> name_under (cstr (f_name (files s ! i))) old")
    case True
    obtain t s1 where n: "fs_now P (upd_file i (\<lambda>f. f\<lparr>f_name := move_name old new (f_name f)\<rparr>) s) = (t, s1)" by force
    let ?f = "(files s ! i)\<lparr>f_name := move_name old new (f_name (files s ! i)), f_ctime := t\<rparr>"
    define u where "u = upd_file i (\<lambda>f. f\<lparr>f_ctime := t\<rparr>) s1"
    have i: "i < length (files s)" using Cons.prems(2) by simp
    have "files s1 = files (upd_file i (\<lambda>f. f\<lparr>f_name := move_name old new (f_name f)\<rparr>) s)" "dirs s1 = dirs s"
      using fs_now_keeps(1,2) [of P "upd_file i (\<lambda>f. f\<lparr>f_name := move_name old new (f_name f)\<rparr>) s"] n by simp_all
    then have s2: "files u = (files s)[i := ?f]" "dirs u = dirs s" using i by (simp_all add: u_def)
    have m: "moved_file old new (files s ! i) ?f" using True by (auto simp: moved_file_def)
    have "dirs (move_files P old new is u) = dirs u \<and> length (files (move_files P old new is u)) = length (files u) \<and>
      (\<forall>j < length (files u). if j \<in> set is then moved_file old new (files u ! j) (files (move_files P old new is u) ! j)
        else files (move_files P old new is u) ! j = files u ! j)"
      by (rule Cons.IH) (use Cons.prems s2 in auto)
    moreover have "move_files P old new (i # is) s = move_files P old new is u" using True n by (simp add: u_def)
    moreover have "files u ! j = files s ! j" if "j \<in> set is" for j
      using that s2(1) Cons.prems(1) by (cases "i = j") auto
    ultimately show ?thesis using s2 m i Cons.prems(1) by (auto simp: nth_list_update simp del: move_files.simps)
  next
    case False
    then have m: "moved_file old new (files s ! i) (files s ! i)" unfolding moved_file_def by (rule if_not_P [THEN iffD2]) simp
    have "move_files P old new (i # is) s = move_files P old new is s" unfolding move_files.simps by (rule if_not_P [OF False])
    then show ?thesis using Cons.IH [of s] Cons.prems m by auto
  qed
qed simp

definition ns_rename_dir where
  "ns_rename_dir old new F D F' D' \<longleftrightarrow> old \<in> ran D \<and> new \<notin> ran F \<union> ran D \<and> \<not> name_under new old \<and>
     (\<exists>a b. split_parent new = Some (a, b) \<and> a \<in> insert [] (ran D)) \<and>
     (\<forall>p \<in> ran F \<union> ran D. length (moved old new p) < 64) \<and>
     F' = map_option (moved old new) \<circ> F \<and> D' = map_option (moved old new) \<circ> D"

lemma fs_rename_dir_names:
  assumes sh: "fs_shape s" and new: "0 \<notin> set new" and r: "fs_rename_dir P old new s = (r, s')"
  shows "r = - 1 \<and> s' = s \<or> r = 0 \<and> ns_rename_dir old new (file_at s) (dir_at s) (file_at s') (dir_at s') \<and> fs_shape s' \<and>
    (\<forall>i < 16. moved_file old new (files s ! i) (files s' ! i))"
proof -
  let ?md = "\<lambda>d. if d_used d \<noteq> 0 \<and> name_under (cstr (d_name d)) old then d\<lparr>d_name := move_name old new (d_name d)\<rparr> else d"
  let ?bad = "(old = [] \<or> new = []) \<or> \<not> dir_exists old s \<or> (length old \<ge> FS_MAX_NAME \<or> length new \<ge> FS_MAX_NAME) \<or>
      \<not> fs_parent_is_dir new s \<or> (file_exists new s \<or> dir_exists new s) \<or> name_under new old \<or>
      list_ex (\<lambda>d. d_used d \<noteq> 0 \<and> too_long old new (d_name d)) (dirs s) \<or>
      list_ex (\<lambda>f. live f \<and> too_long old new (f_name f)) (files s)"
  show ?thesis
  proof (cases ?bad)
    case True
    then show ?thesis using r by (auto simp: fs_rename_dir_def split: if_splits)
  next
    case False
    define s1 where "s1 = s\<lparr>dirs := map ?md (dirs s)\<rparr>"
    define s2 where "s2 = move_files P old new [0..<FS_MAX_FILES] s1"
    have rs: "r = 0" "s' = persist_meta P s2" using r False by (auto simp: fs_rename_dir_def Let_def s1_def s2_def)
    have l: "length (files s) = 16" "length (dirs s) = 16"
      using sh by (simp_all add: fs_shape_def FS_MAX_FILES_def FS_MAX_DIRS_def)
    have mf: "length (files s') = 16" "dirs s' = map ?md (dirs s)"
      "\<And>i. i < 16 \<Longrightarrow> moved_file old new (files s ! i) (files s' ! i)"
    proof -
      have s1: "files s1 = files s" "dirs s1 = map ?md (dirs s)" by (simp_all add: s1_def)
      have "distinct [0..<FS_MAX_FILES]" "set [0..<FS_MAX_FILES] \<subseteq> {..<length (files s1)}" using l s1 by (auto simp: FS_MAX_FILES_def)
      from move_files_spec [OF this, of P old new] s1 l show "length (files s') = 16" "dirs s' = map ?md (dirs s)"
        "\<And>i. i < 16 \<Longrightarrow> moved_file old new (files s ! i) (files s' ! i)"
        unfolding s2_def [symmetric] rs(2) by (simp_all add: FS_MAX_FILES_def)
    qed
    have old: "old \<noteq> []" "old \<in> ran (dir_at s)" using False by (auto simp: dir_exists_iff)
    have lenf: "length (new @ drop (length old) (cstr (f_name f))) < 64"
      if "f \<in> set (files s)" "live f" "name_under (cstr (f_name f)) old" for f
      using False that by (auto simp: list_ex_iff too_long_def FS_MAX_NAME_def)
    have lend: "length (new @ drop (length old) (cstr (d_name d))) < 64"
      if "d \<in> set (dirs s)" "d_used d \<noteq> 0" "name_under (cstr (d_name d)) old" for d
      using False that by (auto simp: list_ex_iff too_long_def FS_MAX_NAME_def)
    have shf: "length (f_name f) = 64" "0 \<in> set (f_name f)" "length (f_data f) = 65536" "f_size f \<le> FS_MAX_SIZE"
      if "f \<in> set (files s)" for f using sh that by (simp_all add: fs_shape_def)
    have shd: "length (d_name d) = 64" "0 \<in> set (d_name d)" if "d \<in> set (dirs s)" for d using sh that by (simp_all add: fs_shape_def)
    have f: "live (files s' ! i) = live (files s ! i) \<and>
        (live (files s ! i) \<longrightarrow> cstr (f_name (files s' ! i)) = moved old new (cstr (f_name (files s ! i)))) \<and>
        length (f_name (files s' ! i)) = 64 \<and> 0 \<in> set (f_name (files s' ! i)) \<and> length (f_data (files s' ! i)) = 65536 \<and>
        f_size (files s' ! i) \<le> FS_MAX_SIZE" if i: "i < 16" for i
    proof -
      have m: "files s ! i \<in> set (files s)" using i l by simp
      show ?thesis
      proof (cases "live (files s ! i) \<and> name_under (cstr (f_name (files s ! i))) old")
        case True
        then obtain t where "files s' ! i = (files s ! i)\<lparr>f_name := move_name old new (f_name (files s ! i)), f_ctime := t\<rparr>"
          using mf(3) [OF i] unfolding moved_file_def by (auto)
        then show ?thesis using True move_name_cstr [OF new lenf [OF m] shf(1) [OF m]] shf [OF m] by (auto simp: live_def moved_def)
      next
        case False
        then have "files s' ! i = files s ! i" using mf(3) [OF i] unfolding moved_file_def by (simp only: if_False)
        then show ?thesis using False shf [OF m] by (auto simp: moved_def)
      qed
    qed
    have d: "d_used (?md d) = d_used d \<and> (d_used d \<noteq> 0 \<longrightarrow> cstr (d_name (?md d)) = moved old new (cstr (d_name d))) \<and>
        length (d_name (?md d)) = 64 \<and> 0 \<in> set (d_name (?md d))" if "d \<in> set (dirs s)" for d
      using move_name_cstr [OF new lend [OF that] shd(1) [OF that]] shd [OF that] by (auto simp: moved_def)
    have "file_at s' = map_option (moved old new) \<circ> file_at s"
      using f l(1) mf(1) by (auto simp: file_at_def fun_eq_iff)
    moreover have "dir_at s' = map_option (moved old new) \<circ> dir_at s"
      using d mf(2) by (auto simp: dir_at_def fun_eq_iff)
    moreover have "\<forall>p \<in> ran (file_at s) \<union> ran (dir_at s). length (moved old new p) < 64"
    proof -
      have "length (moved old new (cstr (f_name f))) < 64" if "f \<in> set (files s)" "live f" for f
        using lenf [OF that] cstr_short [OF shf(1,2) [OF that(1)]] by (auto simp: moved_def)
      moreover have "length (moved old new (cstr (d_name d))) < 64" if "d \<in> set (dirs s)" "d_used d \<noteq> 0" for d
        using lend [OF that] cstr_short [OF shd(1,2) [OF that(1)]] by (auto simp: moved_def)
      ultimately show ?thesis by (auto simp: ran_file_at ran_dir_at)
    qed
    moreover obtain a b where "split_parent new = Some (a, b)" "a \<in> insert [] (ran (dir_at s))"
      "new \<notin> ran (file_at s) \<union> ran (dir_at s)" "\<not> name_under new old"
      using False by (auto simp: parent_is_dir_iff file_exists_iff dir_exists_iff)
    ultimately have "ns_rename_dir old new (file_at s) (dir_at s) (file_at s') (dir_at s')"
      unfolding ns_rename_dir_def using old(2) by blast
    moreover have "fs_shape s'"
    proof -
      have "\<forall>g \<in> set (files s'). length (f_name g) = 64 \<and> 0 \<in> set (f_name g) \<and> length (f_data g) = 65536 \<and> f_size g \<le> FS_MAX_SIZE"
        using f mf(1) by (metis in_set_conv_nth)
      moreover have "\<forall>g \<in> set (dirs s'). length (d_name g) = 64 \<and> 0 \<in> set (d_name g)" unfolding mf(2) set_map using d by blast
      ultimately show ?thesis using mf(1,2) l by (simp add: fs_shape_def FS_MAX_FILES_def FS_MAX_DIRS_def)
    qed
    ultimately show ?thesis using rs(1) mf(3) by blast
  qed
qed

section \<open>The tree invariant under any sequence of operations\<close>

datatype fs_op =
  FCreate "u8 list" | FMkdir "u8 list" | FRmdir "u8 list" | FDelete "u8 list" | FRename int "u8 list"
  | FRenameDir "u8 list" "u8 list" | FRef int | FUnref int | FWrite int "u8 list" u32 | FRead int u32
  | FWriteAt int u32 "u8 list" u32 | FReadAt int u32 u32 | FFdTruncate int | FTruncate int u32 | FSetTimes int u32 u32
  | FChmodSlot int u16 | FChmodPath "u8 list" u16 | FChownSlot int u32 u32 | FChownPath "u8 list" u32 u32 | FSync

fun fs_step :: "'h ports \<Rightarrow> fs_op \<Rightarrow> 'h fs_state \<Rightarrow> 'h fs_state" where
  "fs_step P (FCreate p) s = snd (fs_create P p s)"
| "fs_step P (FMkdir p) s = snd (fs_mkdir P p s)"
| "fs_step P (FRmdir p) s = snd (fs_rmdir P p s)"
| "fs_step P (FDelete p) s = snd (fs_delete P p s)"
| "fs_step P (FRename i p) s = snd (fs_rename P i p s)"
| "fs_step P (FRenameDir p q) s = snd (fs_rename_dir P p q s)"
| "fs_step P (FRef i) s = snd (fs_ref i s)"
| "fs_step P (FUnref i) s = snd (fs_unref P i s)"
| "fs_step P (FWrite i b n) s = snd (fs_write P i b n s)"
| "fs_step P (FRead i n) s = snd (fs_read P i n s)"
| "fs_step P (FWriteAt i a b n) s = snd (fs_write_at P i a b n s)"
| "fs_step P (FReadAt i a n) s = snd (fs_read_at P i a n s)"
| "fs_step P (FFdTruncate i) s = snd (fs_fd_truncate P i s)"
| "fs_step P (FTruncate i n) s = snd (fs_truncate P i n s)"
| "fs_step P (FSetTimes i a m) s = fs_set_times P i a m s"
| "fs_step P (FChmodSlot i m) s = snd (fs_chmod_slot P i m s)"
| "fs_step P (FChmodPath p m) s = snd (fs_chmod_path P p m s)"
| "fs_step P (FChownSlot i u g) s = snd (fs_chown_slot P i u g s)"
| "fs_step P (FChownPath p u g) s = snd (fs_chown_path P p u g s)"
| "fs_step P FSync s = snd (fs_sync P s)"

text \<open>Paths contain no NUL and buffers hold at least the bytes to be written.\<close>

fun fs_op_ok :: "fs_op \<Rightarrow> bool" where
  "fs_op_ok (FCreate p) \<longleftrightarrow> 0 \<notin> set p"
| "fs_op_ok (FMkdir p) \<longleftrightarrow> 0 \<notin> set p"
| "fs_op_ok (FRename i p) \<longleftrightarrow> 0 \<notin> set p"
| "fs_op_ok (FRenameDir p q) \<longleftrightarrow> 0 \<notin> set q"
| "fs_op_ok (FWrite i b n) \<longleftrightarrow> unat n \<le> length b"
| "fs_op_ok (FWriteAt i a b n) \<longleftrightarrow> unat n \<le> length b"
| "fs_op_ok _ \<longleftrightarrow> True"

definition file_ok :: "fs_file_t \<Rightarrow> bool" where
  "file_ok f \<longleftrightarrow> length (f_name f) = 64 \<and> 0 \<in> set (f_name f) \<and> length (f_data f) = 65536 \<and> f_size f \<le> FS_MAX_SIZE"

lemma fs_shapeD:
  assumes "fs_shape s"
  shows "length (files s) = 16" and "length (dirs s) = 16" and "\<And>i. i < 16 \<Longrightarrow> file_ok (files s ! i)"
    and "\<And>i. i < 16 \<Longrightarrow> length (d_name (dirs s ! i)) = 64 \<and> 0 \<in> set (d_name (dirs s ! i))"
  using assms by (simp_all add: fs_shape_def file_ok_def FS_MAX_FILES_def FS_MAX_DIRS_def)

lemma fs_shape_upd_file:
  assumes "fs_shape s" and "files s' = (files s)[i := f]" and "dirs s' = dirs s" and "file_ok f"
  shows "fs_shape s'"
  using assms by (auto simp: fs_shape_def file_ok_def dest!: set_update_subset_insert [THEN subsetD])

lemma fs_shape_upd_dir:
  assumes "fs_shape s" and "files s' = files s" and "dirs s' = (dirs s)[i := d]" and "length (d_name d) = 64" "0 \<in> set (d_name d)"
  shows "fs_shape s'"
  using assms by (auto simp: fs_shape_def dest!: set_update_subset_insert [THEN subsetD])

text \<open>Operations that keep names: at most one slot changes, and not its name.\<close>

definition fs_kept :: "'h fs_state \<Rightarrow> 'h fs_state \<Rightarrow> bool" where
  "fs_kept s s' \<longleftrightarrow> fs_inv s' \<and> file_at s' = file_at s \<and> dir_at s' = dir_at s"

lemma fs_kept_refl: "fs_inv s \<Longrightarrow> fs_kept s s"
  by (simp add: fs_kept_def)

lemma fs_inv_keep_file:
  assumes "fs_inv s" and "i < 16" and "files s' = (files s)[i := f]" and "dirs s' = dirs s"
    and "live f = live (files s ! i)" "f_name f = f_name (files s ! i)" "length (f_data f) = 65536" "f_size f \<le> FS_MAX_SIZE"
  shows "fs_kept s s'"
proof -
  have sh: "fs_shape s" using assms(1) by (simp add: fs_inv_def)
  have "file_ok f" using fs_shapeD(3) [OF sh assms(2)] assms(6-8) by (simp add: file_ok_def)
  then have "fs_shape s'" by (rule fs_shape_upd_file [OF sh assms(3,4)])
  moreover have "file_at s' = file_at s"
    using file_at_files [OF _ assms(3)] fs_shapeD(1) [OF sh] assms(2,5,6) by (auto simp: file_at_def fun_eq_iff)
  ultimately show ?thesis using assms(1) dir_at_cong [OF assms(4)] by (simp add: fs_inv_def fs_kept_def)
qed

lemma fs_inv_keep_dir:
  assumes "fs_inv s" and "i < 16" and "files s' = files s" and "dirs s' = (dirs s)[i := d]"
    and "d_used d = d_used (dirs s ! i)" "d_name d = d_name (dirs s ! i)"
  shows "fs_kept s s'"
proof -
  have sh: "fs_shape s" using assms(1) by (simp add: fs_inv_def)
  have "fs_shape s'" by (rule fs_shape_upd_dir [OF sh assms(3,4)]) (use fs_shapeD(4) [OF sh assms(2)] assms(6) in simp_all)
  moreover have "dir_at s' = dir_at s"
    using dir_at_dirs [OF _ assms(4)] fs_shapeD(2) [OF sh] assms(2,5,6) by (auto simp: dir_at_def fun_eq_iff)
  ultimately show ?thesis using assms(1) file_at_cong [OF assms(3)] by (simp add: fs_inv_def fs_kept_def)
qed

lemma fs_inv_cong: "fs_inv s \<Longrightarrow> files s' = files s \<Longrightarrow> dirs s' = dirs s \<Longrightarrow> fs_kept s s'"
  using file_at_cong [of s' s] dir_at_cong [of s' s] by (simp add: fs_inv_def fs_kept_def fs_shape_def)

lemma fd_ok_lt: "fd_ok fd s \<Longrightarrow> nat fd < 16"
  by (auto simp: fd_ok_def FS_MAX_FILES_def)

lemma length_overlay [simp]: "off + length bs \<le> length a \<Longrightarrow> length (overlay off bs a) = length a"
  by (simp add: overlay_def)

lemma length_list_update_0: "0 \<in> set a \<Longrightarrow> 0 \<in> set (a[0 := 0::u8])"
  by (cases a) auto

lemma fs_now_cases:
  obtains t s1 where "fs_now P s = (t, s1)" and "files s1 = files s" and "dirs s1 = dirs s"
  using fs_now_keeps(1,2) [of P s] by (cases "fs_now P s") auto

lemma fs_create_inv:
  assumes "fs_inv s" and "0 \<notin> set p"
  shows "fs_inv (snd (fs_create P p s))"
proof -
  obtain r s' where c: "fs_create P p s = (r, s')" by force
  have I: "fs_shape s" "tree (file_at s) (dir_at s)" using assms(1) by (simp_all add: fs_inv_def)
  from fs_create_names [OF I(1) assms(2) c] consider "s' = s"
    | i where "ns_create p (file_at s) (dir_at s) i (file_at s') (dir_at s')" "files s' = (files s)[i := files s' ! i]"
      "f_data (files s' ! i) = f_data (files s ! i)" "f_size (files s' ! i) = 0" "f_name (files s' ! i) = copy_name p" by blast
  then show ?thesis
  proof cases
    case 2
    then obtain a b where n: "i < 16" "file_at s i = None" "p \<notin> ran (file_at s)" "p \<notin> insert [] (ran (dir_at s))"
      "split_parent p = Some (a, b)" "a \<in> insert [] (ran (dir_at s))" "file_at s' = (file_at s)(i \<mapsto> p)" "dir_at s' = dir_at s"
      unfolding ns_create_def by blast
    have "(file_at s)(i := None) = file_at s" using n(2) by auto
    then have "tree (file_at s') (dir_at s')" unfolding n(7,8) using n(3-6) by (intro tree_set_file [OF I(2)]) auto
    moreover have "dirs s' = dirs s" using c by (auto simp: fs_create_def Let_def split_beta split: if_splits option.splits)
    moreover have "file_ok (files s' ! i)"
      using fs_shapeD(3) [OF I(1) n(1)] copy_name_cstr [OF assms(2)] good_lt [OF n(5)] 2(3-5) by (simp add: file_ok_def)
    ultimately show ?thesis using c fs_shape_upd_file [OF I(1) 2(2)] by (simp add: fs_inv_def)
  qed (use assms c in simp)
qed

lemma fs_mkdir_inv:
  assumes "fs_inv s" and "0 \<notin> set p"
  shows "fs_inv (snd (fs_mkdir P p s))"
proof -
  obtain r s' where c: "fs_mkdir P p s = (r, s')" by force
  have I: "fs_shape s" "tree (file_at s) (dir_at s)" using assms(1) by (simp_all add: fs_inv_def)
  from fs_mkdir_names [OF I(1) assms(2) c] consider "s' = s"
    | k where "ns_mkdir p (file_at s) (dir_at s) (file_at s') (dir_at s')" "files s' = files s"
      "dirs s' = (dirs s)[k := \<lparr>d_name = copy_name p, d_used = 1, d_uid = 0, d_gid = 0, d_mode = 0x1ED\<rparr>]" by blast
  then show ?thesis
  proof cases
    case 2
    then obtain i a b where n: "dir_at s i = None" "p \<notin> ran (file_at s)" "p \<notin> insert [] (ran (dir_at s))"
      "split_parent p = Some (a, b)" "a \<in> insert [] (ran (dir_at s))" "file_at s' = file_at s" "dir_at s' = (dir_at s)(i \<mapsto> p)"
      unfolding ns_mkdir_def by blast
    have "tree (file_at s') (dir_at s')" unfolding n(6,7) using n by (intro tree_add_dir [OF I(2)]) auto
    moreover have "fs_shape s'"
      by (rule fs_shape_upd_dir [OF I(1) 2(2,3)]) (use copy_name_cstr [OF assms(2)] good_lt [OF n(4)] in simp_all)
    ultimately show ?thesis using c by (simp add: fs_inv_def)
  qed (use assms c in simp)
qed

lemma fs_rmdir_inv:
  assumes "fs_inv s"
  shows "fs_inv (snd (fs_rmdir P p s))"
proof -
  obtain r s' where c: "fs_rmdir P p s = (r, s')" by force
  have I: "fs_shape s" "tree (file_at s) (dir_at s)" using assms(1) by (simp_all add: fs_inv_def)
  from fs_rmdir_names [OF c] consider "s' = s"
    | k where "ns_rmdir p (file_at s) (dir_at s) (file_at s') (dir_at s')" "files s' = files s" "k < length (dirs s)"
      "dirs s' = (dirs s)[k := (dirs s ! k)\<lparr>d_used := 0, d_name := (d_name (dirs s ! k))[0 := 0]\<rparr>]" by blast
  then show ?thesis
  proof cases
    case 2
    then obtain i where n: "dir_at s i = Some p" "\<forall>q \<in> ran (file_at s) \<union> ran (dir_at s). \<not> under p q"
      "file_at s' = file_at s" "dir_at s' = (dir_at s)(i := None)" unfolding ns_rmdir_def by blast
    have "tree (file_at s') (dir_at s')" unfolding n(3,4) by (rule tree_del_dir [OF I(2) n(1,2)])
    moreover have "fs_shape s'"
      by (rule fs_shape_upd_dir [OF I(1) 2(2,4)])
        (use fs_shapeD(4) [OF I(1), of k] fs_shapeD(2) [OF I(1)] 2(3) length_list_update_0 in auto)
    ultimately show ?thesis using c by (simp add: fs_inv_def)
  qed (use assms c in simp)
qed

lemma fs_delete_inv:
  assumes "fs_inv s"
  shows "fs_inv (snd (fs_delete P p s))"
proof -
  obtain r s' where c: "fs_delete P p s = (r, s')" by force
  have I: "fs_shape s" "tree (file_at s) (dir_at s)" using assms(1) by (simp_all add: fs_inv_def)
  from fs_delete_names [OF c] consider "s' = s"
    | i f where "ns_delete p (file_at s) (dir_at s) (file_at s') (dir_at s')" "dirs s' = dirs s" "file_at s i = Some p"
      "files s' = (files s)[i := f]" "unlinked (files s ! i) f" by blast
  then show ?thesis
  proof cases
    case 2
    have i: "i < 16" using 2(3) fs_shapeD(1) [OF I(1)] by (auto simp: file_at_def split: if_splits)
    have "tree (file_at s') (dir_at s')" using 2(1) tree_del_file [OF I(2)] by (auto simp: ns_delete_def)
    moreover have "file_ok f" using 2(5) fs_shapeD(3) [OF I(1) i] length_list_update_0 [of "f_name (files s ! i)"]
      by (auto simp: unlinked_def file_ok_def split: if_splits)
    ultimately show ?thesis using c fs_shape_upd_file [OF I(1) 2(4,2)] by (simp add: fs_inv_def)
  qed (use assms c in simp)
qed

lemma fs_rename_inv:
  assumes "fs_inv s" and "0 \<notin> set p"
  shows "fs_inv (snd (fs_rename P slot p s))"
proof -
  obtain r s' where c: "fs_rename P slot p s = (r, s')" by force
  have I: "fs_shape s" "tree (file_at s) (dir_at s)" using assms(1) by (simp_all add: fs_inv_def)
  from fs_rename_names [OF I(1) assms(2) c] consider "s' = s"
    | t where "ns_rename (nat slot) p (file_at s) (dir_at s) (file_at s') (dir_at s')" "dirs s' = dirs s"
      "files s' = (files s)[nat slot := (files s ! nat slot)\<lparr>f_name := copy_name p, f_ctime := t\<rparr>]" by blast
  then show ?thesis
  proof cases
    case 2
    then obtain a b where n: "file_at s (nat slot) \<noteq> None" "p \<notin> ran ((file_at s)(nat slot := None))" "p \<notin> insert [] (ran (dir_at s))"
      "split_parent p = Some (a, b)" "a \<in> insert [] (ran (dir_at s))" "file_at s' = (file_at s)(nat slot \<mapsto> p)" "dir_at s' = dir_at s"
      unfolding ns_rename_def by blast
    have i: "nat slot < 16" using n(1) fs_shapeD(1) [OF I(1)] by (auto simp: file_at_def split: if_splits)
    have "tree (file_at s') (dir_at s')" unfolding n(6,7) using n by (intro tree_set_file [OF I(2)]) auto
    moreover have "fs_shape s'"
      by (rule fs_shape_upd_file [OF I(1) 2(3,2)])
        (use fs_shapeD(3) [OF I(1) i] copy_name_cstr [OF assms(2)] good_lt [OF n(4)] in \<open>simp add: file_ok_def\<close>)
    ultimately show ?thesis using c by (simp add: fs_inv_def)
  qed (use assms c in simp)
qed

lemma fs_rename_dir_inv:
  assumes "fs_inv s" and "0 \<notin> set new"
  shows "fs_inv (snd (fs_rename_dir P old new s))"
proof -
  obtain r s' where c: "fs_rename_dir P old new s = (r, s')" by force
  have I: "fs_shape s" "tree (file_at s) (dir_at s)" using assms(1) by (simp_all add: fs_inv_def)
  from fs_rename_dir_names [OF I(1) assms(2) c] consider "s' = s"
    | "ns_rename_dir old new (file_at s) (dir_at s) (file_at s') (dir_at s')" "fs_shape s'" by blast
  then show ?thesis
  proof cases
    case 2
    then obtain a b where n: "old \<in> ran (dir_at s)" "new \<notin> ran (file_at s) \<union> ran (dir_at s)" "\<not> name_under new old"
      "split_parent new = Some (a, b)" "a \<in> insert [] (ran (dir_at s))"
      "\<forall>p \<in> ran (file_at s) \<union> ran (dir_at s). length (moved old new p) < 64"
      "file_at s' = map_option (moved old new) \<circ> file_at s" "dir_at s' = map_option (moved old new) \<circ> dir_at s"
      unfolding ns_rename_dir_def by blast
    obtain x y where "split_parent old = Some (x, y)" using tree_parent [OF I(2), of old] n(1) by blast
    then have "old \<noteq> []" using good_lt [of old] by simp
    then have "tree (file_at s') (dir_at s')" unfolding n(7,8) using n(2-6) by (intro tree_move [OF I(2)]) auto
    then show ?thesis using c 2(2) by (simp add: fs_inv_def)
  qed (use assms c in simp)
qed

lemma fs_inv_upd:
  assumes "fs_inv s" and "fd_ok fd s" and "files s1 = files s" and "dirs s1 = dirs s"
    and "files s' = files (upd_file (nat fd) g s1)" and "dirs s' = dirs s1"
    and "\<And>f. file_ok f \<Longrightarrow> f = files s ! nat fd \<Longrightarrow>
      live (g f) = live f \<and> f_name (g f) = f_name f \<and> length (f_data (g f)) = 65536 \<and> f_size (g f) \<le> FS_MAX_SIZE"
  shows "fs_kept s s'"
proof -
  have i: "nat fd < 16" by (rule fd_ok_lt [OF assms(2)])
  have "file_ok (files s ! nat fd)" by (rule fs_shapeD(3) [OF _ i]) (use assms(1) in \<open>simp add: fs_inv_def\<close>)
  with assms(7) [of "files s ! nat fd"] show ?thesis
    by (intro fs_inv_keep_file [OF assms(1) i, of s' "g (files s ! nat fd)"]) (use assms(3-6) in auto)
qed

lemma file_okD: "file_ok f \<Longrightarrow> length (f_data f) = 65536 \<and> unat (f_size f) \<le> 65536 \<and> f_size f \<le> FS_MAX_SIZE"
  by (simp add: file_ok_def FS_MAX_SIZE_def word_le_nat_alt)

lemma fs_ref_kept: 
  assumes "fs_inv s"
  shows "fs_kept s (snd (fs_ref fd s))"
proof (cases "fd_ok fd s")
  case True
  show ?thesis
    by (rule fs_inv_upd [OF assms True refl refl, of _ "\<lambda>f. f\<lparr>f_refs := f_refs f + 1\<rparr>"])
      (use True in \<open>auto simp: fs_ref_def live_def dest: file_okD\<close>)
qed (simp add: fs_ref_def assms fs_kept_refl)

lemma fs_unref_kept:
  assumes "fs_inv s"
  shows "fs_kept s (snd (fs_unref P fd s))"
proof (cases "fd_ok fd s")
  case True
  define k where "k = (if f_refs (files s ! nat fd) > 0 then f_refs (files s ! nat fd) - 1 else f_refs (files s ! nat fd))"
  define u where "u = (if f_refs (files s ! nat fd) > 0 then upd_file (nat fd) (\<lambda>f. f\<lparr>f_refs := f_refs f - 1\<rparr>) s else s)"
  have i: "nat fd < length (files s)" using fd_ok_lt [OF True] fs_shapeD(1) [of s] assms by (simp add: fs_inv_def)
  have u: "files u ! nat fd = (files s ! nat fd)\<lparr>f_refs := k\<rparr>" using i by (simp add: u_def k_def)
  have kept: "fs_kept s u"
    by (intro fs_inv_upd [OF assms True refl refl, of u "\<lambda>f. f\<lparr>f_refs := k\<rparr>"])
      (auto simp: u_def k_def live_def list_update_id dest: file_okD)
  then have inv: "fs_inv u" by (simp add: fs_kept_def)
  have ok: "fd_ok fd u" using True u by (simp add: fd_ok_def)
  show ?thesis
  proof (cases "f_refs (files u ! nat fd) = 0 \<and> f_deleted (files u ! nat fd) \<noteq> 0")
    case t: True
    have "snd (fs_unref P fd s) = persist_meta P (upd_file (nat fd)
            (\<lambda>f. f\<lparr>f_used := 0, f_size := 0, f_deleted := 0, f_atime := 0, f_mtime := 0, f_ctime := 0\<rparr>) u)"
      using True t by (simp add: fs_unref_def Let_def flip: u_def)
    then have "fs_kept u (snd (fs_unref P fd s))"
      by (intro fs_inv_upd [OF inv ok refl refl,
            of _ "\<lambda>f. f\<lparr>f_used := 0, f_size := 0, f_deleted := 0, f_atime := 0, f_mtime := 0, f_ctime := 0\<rparr>"])
        (use t in \<open>auto simp: live_def dest: file_okD\<close>)
    then show ?thesis using kept by (simp add: fs_kept_def)
  next
    case False
    then have "snd (fs_unref P fd s) = u" using True by (auto simp: fs_unref_def Let_def simp flip: u_def)
    then show ?thesis using kept by simp
  qed
qed (simp add: fs_unref_def assms fs_kept_refl)

lemma fs_write_kept:
  assumes "fs_inv s" and "unat n \<le> length b"
  shows "fs_kept s (snd (fs_write P fd b n s))"
proof (cases "fd_ok fd s")
  case True
  obtain t s1 where n: "fs_now P s = (t, s1)" "files s1 = files s" "dirs s1 = dirs s" by (rule fs_now_cases)
  define l where "l = (if n > FS_MAX_SIZE then FS_MAX_SIZE else n)"
  have l: "l \<le> FS_MAX_SIZE" "unat l \<le> 65536" by (auto simp: l_def FS_MAX_SIZE_def word_le_nat_alt not_less)
  have "length (take (unat l) b) = unat l" using assms(2) by (auto simp: l_def FS_MAX_SIZE_def word_less_nat_alt)
  then show ?thesis
    using True l n by (intro fs_inv_upd [OF assms(1) True n(2,3), of _ "\<lambda>f. f\<lparr>f_data := overlay 0 (take (unat l) b) (f_data f),
      f_size := l, f_mtime := t, f_ctime := t\<rparr>"]) (auto simp: fs_write_def Let_def l_def live_def dest: file_okD)
qed (simp add: fs_write_def assms fs_kept_refl)

lemma fs_atime_kept:
  assumes "fs_inv s" and "fd_ok fd s"
  shows "fs_kept s (upd_file (nat fd) (\<lambda>f. f\<lparr>f_atime := t\<rparr>) (snd (fs_now P s)))"
  by (rule fs_inv_upd [OF assms, of "snd (fs_now P s)" _ "\<lambda>f. f\<lparr>f_atime := t\<rparr>"]) (auto simp: live_def dest: file_okD)

lemma fs_read_kept: "fs_inv s \<Longrightarrow> fs_kept s (snd (fs_read P fd n s))"
  by (cases "fd_ok fd s") (simp_all add: fs_read_def Let_def split_beta fs_atime_kept fs_kept_refl)

lemma fs_read_at_kept: "fs_inv s \<Longrightarrow> fs_kept s (snd (fs_read_at P fd a n s))"
  by (cases "fd_ok fd s") (simp_all add: fs_read_at_def Let_def split_beta fs_atime_kept fs_kept_refl)

lemma fs_write_at_kept:
  assumes "fs_inv s" and "unat n \<le> length b"
  shows "fs_kept s (snd (fs_write_at P fd a b n s))"
proof (cases "fd_ok fd s \<and> a < FS_MAX_SIZE")
  case True
  then have fd: "fd_ok fd s" and a: "a < FS_MAX_SIZE" by auto
  obtain t s1 where n: "fs_now P s = (t, s1)" "files s1 = files s" "dirs s1 = dirs s" by (rule fs_now_cases)
  define l where "l = (if n > FS_MAX_SIZE - a then FS_MAX_SIZE - a else n)"
  have sub: "unat (FS_MAX_SIZE - a) = 65536 - unat a"
    using a by (simp add: FS_MAX_SIZE_def unat_sub order_less_imp_le)
  have l: "unat a + unat l \<le> 65536"
    using a sub by (auto simp: l_def word_less_nat_alt not_less FS_MAX_SIZE_def)
  have "length (take (unat l) b) = unat l" using assms(2) by (auto simp: l_def word_less_nat_alt)
  moreover have "a + l \<le> FS_MAX_SIZE"
    using l by (simp add: word_le_nat_alt FS_MAX_SIZE_def unat_word_ariths)
  ultimately show ?thesis
    using True l n by (intro fs_inv_upd [OF assms(1) fd n(2,3), of _ "\<lambda>f. f\<lparr>f_data := overlay (unat a) (take (unat l) b) (f_data f),
      f_size := (if a + l > f_size f then a + l else f_size f), f_mtime := t, f_ctime := t\<rparr>"])
      (auto simp: fs_write_at_def Let_def l_def live_def dest: file_okD)
qed (auto simp: fs_write_at_def assms fs_kept_refl)

lemma fs_truncate_kept:
  assumes "fs_inv s"
  shows "fs_kept s (snd (fs_truncate P fd n s))"
proof (cases "fd_ok fd s \<and> n \<le> FS_MAX_SIZE")
  case True
  then have fd: "fd_ok fd s" and n16: "unat n \<le> 65536" by (auto simp: FS_MAX_SIZE_def word_le_nat_alt)
  obtain t s1 where n: "fs_now P s = (t, s1)" "files s1 = files s" "dirs s1 = dirs s" by (rule fs_now_cases)
  define g where "g f = f\<lparr>f_data := (if n > f_size f
                    then overlay (unat (f_size f)) (replicate (unat (n - f_size f)) 0) (f_data f) else f_data f),
                  f_size := n, f_mtime := t, f_ctime := t\<rparr>" for f :: fs_file_t
  have "length (f_data (g f)) = 65536" if "file_ok f" for f
  proof -
    have "unat (f_size f) + unat (n - f_size f) \<le> 65536" if "f_size f < n"
      using that n16 by (simp add: unat_sub order_less_imp_le word_less_nat_alt)
    then show ?thesis using file_okD [OF \<open>file_ok f\<close>] by (simp add: g_def)
  qed
  then show ?thesis using True n by (intro fs_inv_upd [OF assms fd n(2,3), of _ g]) (auto simp: fs_truncate_def Let_def g_def live_def)
qed (auto simp: fs_truncate_def assms fs_kept_refl)

lemma fs_meta_ops_kept:
  fixes s :: "'a fs_state"
  assumes "fs_inv s"
  shows "fs_kept s (snd (fs_fd_truncate P fd s))" and "fs_kept s (fs_set_times P fd a m s)"
    and "fs_kept s (snd (fs_chmod_slot P fd mode s))" and "fs_kept s (snd (fs_chown_slot P fd u g s))"
proof -
  obtain t s1 where n: "fs_now P s = (t, s1)" "files s1 = files s" "dirs s1 = dirs s" by (rule fs_now_cases)
  have upd: "fs_kept s s'" if "fd_ok fd s" "files s' = files (upd_file (nat fd) w s1)" "dirs s' = dirs s1"
    "\<And>f. live (w f) = live f \<and> f_name (w f) = f_name f \<and> f_data (w f) = f_data f \<and> f_size (w f) \<le> f_size f"
    for s' :: "'a fs_state" and w
    using that by (intro fs_inv_upd [OF assms that(1) n(2,3) that(2,3)]) (auto dest!: file_okD intro: order_trans)
  show "fs_kept s (snd (fs_fd_truncate P fd s))"
    using n(1) fs_kept_refl [OF assms] by (cases "fd_ok fd s") (auto simp: fs_fd_truncate_def live_def
      intro!: upd [of _  "\<lambda>f. f\<lparr>f_size := 0, f_mtime := t, f_ctime := t\<rparr>"])
  show "fs_kept s (fs_set_times P fd a m s)"
    using n(1) fs_kept_refl [OF assms] by (cases "fd_ok fd s") (auto simp: fs_set_times_def live_def
      intro!: upd [of _  "\<lambda>f. f\<lparr>f_atime := a, f_mtime := m, f_ctime := t\<rparr>"])
  show "fs_kept s (snd (fs_chmod_slot P fd mode s))"
    using n(1) fs_kept_refl [OF assms] by (cases "fd_ok fd s") (auto simp: fs_chmod_slot_def live_def
      intro!: upd [of _  "\<lambda>f. f\<lparr>f_mode := mode, f_ctime := t\<rparr>"])
  show "fs_kept s (snd (fs_chown_slot P fd u g s))"
    using n(1) fs_kept_refl [OF assms] by (cases "fd_ok fd s") (auto simp: fs_chown_slot_def live_def
      intro!: upd [of _  "\<lambda>f. f\<lparr>f_uid := u, f_gid := g, f_ctime := t\<rparr>"])
qed

lemma dir_slot_lt: "fs_inv s \<Longrightarrow> 0 \<le> dir_slot_of p s \<Longrightarrow> nat (dir_slot_of p s) < 16"
  using fs_shapeD(2) [of s] by (auto simp: dir_slot_of_def fs_inv_def dest!: find_idx_SomeD split: if_splits option.splits)

lemma fs_path_ops_kept:
  assumes "fs_inv s"
  shows "fs_kept s (snd (fs_chmod_path P p mode s))" and "fs_kept s (snd (fs_chown_path P p u g s))"
proof -
  have "fs_kept s (persist_meta P (upd_dir (nat (dir_slot_of p s)) h s))"
    if "0 \<le> dir_slot_of p s" "\<And>d. d_used (h d) = d_used d \<and> d_name (h d) = d_name d" for h
    by (rule fs_inv_keep_dir [OF assms dir_slot_lt [OF assms that(1)],
        where d = "h (dirs s ! nat (dir_slot_of p s))"]) (use that(2) in simp_all)
  then show "fs_kept s (snd (fs_chmod_path P p mode s))" "fs_kept s (snd (fs_chown_path P p u g s))"
    using fs_meta_ops_kept [OF assms] fs_kept_refl [OF assms] by (simp_all add: fs_chmod_path_def fs_chown_path_def Let_def)
qed

lemma fs_sync_kept:
  assumes "fs_inv s"
  shows "fs_kept s (snd (fs_sync P s))"
proof -
  have "files (fold (persist_slot P) xs u) = files u \<and> dirs (fold (persist_slot P) xs u) = dirs u" for xs u
    by (induction xs arbitrary: u) simp_all
  then show ?thesis by (intro fs_inv_cong [OF assms]) (simp_all add: fs_sync_def Let_def)
qed

fun names_op :: "fs_op \<Rightarrow> bool" where
  "names_op (FCreate p) \<longleftrightarrow> True"
| "names_op (FMkdir p) \<longleftrightarrow> True"
| "names_op (FRmdir p) \<longleftrightarrow> True"
| "names_op (FDelete p) \<longleftrightarrow> True"
| "names_op (FRename i p) \<longleftrightarrow> True"
| "names_op (FRenameDir p q) \<longleftrightarrow> True"
| "names_op _ \<longleftrightarrow> False"

lemma fs_step_kept: "fs_inv s \<Longrightarrow> fs_op_ok op \<Longrightarrow> \<not> names_op op \<Longrightarrow> fs_kept s (fs_step P op s)"
  by (cases op) (simp_all add: fs_ref_kept fs_unref_kept fs_write_kept fs_read_kept fs_write_at_kept fs_read_at_kept
      fs_truncate_kept fs_meta_ops_kept fs_path_ops_kept fs_sync_kept)

lemma fs_step_inv:
  assumes "fs_inv s" and "fs_op_ok op"
  shows "fs_inv (fs_step P op s)"
proof (cases "names_op op")
  case True
  then show ?thesis using assms by (cases op) (simp_all add: fs_create_inv fs_mkdir_inv fs_rmdir_inv fs_delete_inv
        fs_rename_inv fs_rename_dir_inv)
next
  case False
  then show ?thesis using fs_step_kept [OF assms] by (simp add: fs_kept_def)
qed

end
