(* ===== verification/Segments.thy ===== *)
theory Segments
  imports Frames
begin

text \<open>
  Segmentation: the seven descriptors of \<^verbatim>\<open>src/gdt.c\<close> and the task state segment of \<^verbatim>\<open>src/tss.c\<close>.
  The addresses the linker gives the tables are arguments; \<^verbatim>\<open>lgdt\<close>, \<^verbatim>\<open>ltr\<close> and the reload of the
  segment registers are actions of the processor and leave the tables alone.  The lemmas read
  a descriptor back the way the processor does.
\<close>

section \<open>Descriptors\<close>

record gdt_entry =
  g_limit_low :: u16
  g_base_low :: u16
  g_base_mid :: u8
  g_access :: u8
  g_granularity :: u8
  g_base_high :: u8

record gdt_ptr =
  gp_limit :: u16
  gp_base :: u32

record tss_t =
  t_prev_tss :: u32
  t_esp0 :: u32
  t_ss0 :: u32
  t_esp1 :: u32
  t_ss1 :: u32
  t_esp2 :: u32
  t_ss2 :: u32
  t_cr3 :: u32
  t_eip :: u32
  t_eflags :: u32
  t_eax :: u32
  t_ecx :: u32
  t_edx :: u32
  t_ebx :: u32
  t_esp :: u32
  t_ebp :: u32
  t_esi :: u32
  t_edi :: u32
  t_es :: u32
  t_cs :: u32
  t_ss :: u32
  t_ds :: u32
  t_fs :: u32
  t_gs :: u32
  t_ldt :: u32
  t_trap :: u16
  t_iomap_base :: u16

record seg_state =
  gdt :: "gdt_entry list"
  gdtr :: gdt_ptr
  tls_base :: u32
  tls_limit :: u32
  tls_flags :: u32
  tss :: tss_t
  kernel_stack_top :: u32

definition GDT_KERNEL_CODE :: u32 where "GDT_KERNEL_CODE = 0x08"
definition GDT_KERNEL_DATA :: u32 where "GDT_KERNEL_DATA = 0x10"
definition GDT_USER_CODE :: u32 where "GDT_USER_CODE = 0x18"
definition GDT_USER_DATA :: u32 where "GDT_USER_DATA = 0x20"
definition GDT_TSS :: u32 where "GDT_TSS = 0x28"
definition GDT_TLS :: u32 where "GDT_TLS = 0x30"
definition TSS_KERNEL_STACK_PAGES :: u32 where "TSS_KERNEL_STACK_PAGES = 2"

definition gdt_set_gate :: "nat \<Rightarrow> u32 \<Rightarrow> u32 \<Rightarrow> u8 \<Rightarrow> u8 \<Rightarrow> seg_state \<Rightarrow> seg_state" where
  "gdt_set_gate num base limit access gran s =
     s\<lparr>gdt := (gdt s)[num := \<lparr>
        g_limit_low = ucast (limit AND 0xFFFF),
        g_base_low = ucast (base AND 0xFFFF),
        g_base_mid = ucast (drop_bit 16 base AND 0xFF),
        g_access = access,
        g_granularity = (ucast (drop_bit 16 limit AND 0x0F) OR (gran AND 0xF0)),
        g_base_high = ucast (drop_bit 24 base AND 0xFF)\<rparr>]\<rparr>"

text \<open>\<open>gdt_addr\<close> is the address of the table.\<close>

definition gdt_init :: "u32 \<Rightarrow> seg_state \<Rightarrow> seg_state" where
  "gdt_init gdt_addr s =
     (let s = s\<lparr>gdtr := \<lparr>gp_limit = 7 * 8 - 1, gp_base = gdt_addr\<rparr>\<rparr>;
          s = gdt_set_gate 0 0 0 0 0 s;
          s = gdt_set_gate 1 0 0xFFFFFFFF 0x9A 0xCF s;
          s = gdt_set_gate 2 0 0xFFFFFFFF 0x92 0xCF s;
          s = gdt_set_gate 3 0 0xFFFFFFFF 0xFA 0xCF s
      in gdt_set_gate 4 0 0xFFFFFFFF 0xF2 0xCF s)"

definition gdt_set_tss :: "u32 \<Rightarrow> u32 \<Rightarrow> seg_state \<Rightarrow> seg_state" where
  "gdt_set_tss base limit s = gdt_set_gate 5 base limit 0x89 0x00 s"

definition gdt_set_user_tls :: "u32 \<Rightarrow> u32 \<Rightarrow> u32 \<Rightarrow> seg_state \<Rightarrow> seg_state" where
  "gdt_set_user_tls base limit flags s =
     (let s = s\<lparr>tls_base := base, tls_limit := limit AND 0xFFFFF, tls_flags := flags\<rparr>;
          access = (if flags AND 0x08 \<noteq> 0 then 0xF0 else 0xF2);
          access = (if flags AND 0x20 \<noteq> 0 then access AND NOT 0x80 else access);
          gran = (if flags AND 0x10 \<noteq> 0 then 0x40 OR 0x80 else 0x40)
      in gdt_set_gate 6 (tls_base s) (tls_limit s) access gran s)"

definition gdt_get_user_tls :: "seg_state \<Rightarrow> u32 \<times> u32 \<times> u32" where
  "gdt_get_user_tls s = (tls_base s, tls_limit s, tls_flags s)"

section \<open>The task state segment\<close>

definition zero_tss :: tss_t where
  "zero_tss = \<lparr>t_prev_tss = 0, t_esp0 = 0, t_ss0 = 0, t_esp1 = 0, t_ss1 = 0, t_esp2 = 0, t_ss2 = 0, t_cr3 = 0, t_eip = 0,
     t_eflags = 0, t_eax = 0, t_ecx = 0, t_edx = 0, t_ebx = 0, t_esp = 0, t_ebp = 0, t_esi = 0, t_edi = 0, t_es = 0,
     t_cs = 0, t_ss = 0, t_ds = 0, t_fs = 0, t_gs = 0, t_ldt = 0, t_trap = 0, t_iomap_base = 0\<rparr>"

definition TSS_SIZE :: u32 where "TSS_SIZE = 104"

text \<open>\<open>tss_addr\<close> is the address of the segment.\<close>

definition tss_init ::
  "u32 \<Rightarrow> 'a mm_state_scheme \<Rightarrow> seg_state \<Rightarrow> (bool \<times> 'a mm_state_scheme \<times> seg_state) option" where
  "tss_init tss_addr m s =
     (case mm_alloc_pages TSS_KERNEL_STACK_PAGES m of
        None \<Rightarrow> None
      | Some (stack, m) \<Rightarrow>
          if stack = 0 then Some (False, m, s)
          else
            let top = stack + TSS_KERNEL_STACK_PAGES * PAGE_SIZE;
                s = s\<lparr>kernel_stack_top := top,
                      tss := zero_tss\<lparr>t_ss0 := GDT_KERNEL_DATA, t_esp0 := top, t_iomap_base := ucast TSS_SIZE\<rparr>\<rparr>
            in Some (True, m, gdt_set_tss tss_addr (TSS_SIZE - 1) s))"

definition tss_set_esp0 :: "u32 \<Rightarrow> seg_state \<Rightarrow> seg_state" where
  "tss_set_esp0 esp0 s = s\<lparr>tss := (tss s)\<lparr>t_esp0 := esp0\<rparr>\<rparr>"

definition tss_get_esp0 :: "seg_state \<Rightarrow> u32" where
  "tss_get_esp0 s = t_esp0 (tss s)"

definition tss_get_kernel_stack_top :: "seg_state \<Rightarrow> u32" where
  "tss_get_kernel_stack_top s = kernel_stack_top s"

section \<open>What the processor reads\<close>

definition desc_base :: "gdt_entry \<Rightarrow> u32" where
  "desc_base e = ucast (g_base_low e) OR push_bit 16 (ucast (g_base_mid e)) OR push_bit 24 (ucast (g_base_high e))"

definition desc_limit :: "gdt_entry \<Rightarrow> u32" where
  "desc_limit e = ucast (g_limit_low e) OR push_bit 16 (ucast (g_granularity e AND 0x0F))"

definition desc_dpl :: "gdt_entry \<Rightarrow> u8" where
  "desc_dpl e = drop_bit 5 (g_access e) AND 3"

definition desc_present :: "gdt_entry \<Rightarrow> bool" where
  "desc_present e \<longleftrightarrow> bit (g_access e) 7"

text \<open>A code or data segment (not a gate or a task state segment), and an executable one.\<close>

definition desc_segment :: "gdt_entry \<Rightarrow> bool" where
  "desc_segment e \<longleftrightarrow> bit (g_access e) 4"

definition desc_code :: "gdt_entry \<Rightarrow> bool" where
  "desc_code e \<longleftrightarrow> bit (g_access e) 3"

lemma mask_consts: "(0xFFFF::u32) = mask 16" "(0xFF::u32) = mask 8" "(0x0F::u32) = mask 4" "(0x0F::u8) = mask 4"
  "(0xF0::u8) = push_bit 4 (mask 4)" "(0xFFFFF::u32) = mask 20"
  by (simp_all add: mask_eq_exp_minus_1)

lemma desc_base_join:
  "ucast (ucast (base AND 0xFFFF) :: u16) OR push_bit 16 (ucast (ucast (drop_bit 16 base AND 0xFF) :: u8)) OR
   push_bit 24 (ucast (ucast (drop_bit 24 base AND 0xFF) :: u8)) = (base :: u32)" (is "?l = _")
proof (rule bit_word_eqI)
  fix n :: nat
  assume n: "n < LENGTH(32)"
  then consider "n < 16" | "16 \<le> n" "n < 24" | "24 \<le> n" by linarith
  then show "bit ?l n = bit base n"
    unfolding mask_consts using n
    by cases (auto simp: bit_or_iff bit_and_iff bit_push_bit_iff bit_ucast_iff bit_drop_bit_eq bit_mask_iff)
qed

lemma desc_limit_join:
  "ucast (ucast (limit AND 0xFFFF) :: u16) OR
   push_bit 16 (ucast ((ucast (drop_bit 16 limit AND 0x0F) OR (gran AND 0xF0)) AND 0x0F :: u8)) = (limit AND 0xFFFFF :: u32)" (is "?l = _")
proof (rule bit_word_eqI)
  fix n :: nat
  assume n: "n < LENGTH(32)"
  then consider "n < 16" | "16 \<le> n" "n < 20" | "20 \<le> n" by linarith
  then show "bit ?l n = bit (limit AND 0xFFFFF) n"
    unfolding mask_consts using n
    by cases (auto simp: bit_or_iff bit_and_iff bit_push_bit_iff bit_ucast_iff bit_drop_bit_eq bit_mask_iff)
qed

lemma gate_fields:
  assumes "num < length (gdt s)" and "t = gdt_set_gate num base limit access gran s"
  shows "desc_base (gdt t ! num) = base" and "desc_limit (gdt t ! num) = limit AND 0xFFFFF" and "g_access (gdt t ! num) = access"
  using assms desc_base_join desc_limit_join by (simp_all add: gdt_set_gate_def desc_base_def desc_limit_def)

lemma gate_other: "k \<noteq> num \<Longrightarrow> gdt (gdt_set_gate num base limit access gran s) ! k = gdt s ! k"
  by (simp add: gdt_set_gate_def)

lemma gate_keeps [simp]:
  "length (gdt (gdt_set_gate num base limit access gran s)) = length (gdt s)"
  "tss (gdt_set_gate num base limit access gran s) = tss s"
  "kernel_stack_top (gdt_set_gate num base limit access gran s) = kernel_stack_top s"
  "gdtr (gdt_set_gate num base limit access gran s) = gdtr s"
  "tls_base (gdt_set_gate num base limit access gran s) = tls_base s"
  "tls_limit (gdt_set_gate num base limit access gran s) = tls_limit s"
  "tls_flags (gdt_set_gate num base limit access gran s) = tls_flags s"
  by (simp_all add: gdt_set_gate_def)

text \<open>The table user code runs under: kernel segments of ring 0, user segments of ring 3, the task state
  segment reserved to the kernel, and a thread-local segment that is data of ring 3.\<close>

definition ring3_data :: "gdt_entry \<Rightarrow> bool" where
  "ring3_data e \<longleftrightarrow> desc_segment e \<and> \<not> desc_code e \<and> desc_dpl e = 3"

definition gdt_ok :: "u32 \<Rightarrow> seg_state \<Rightarrow> bool" where
  "gdt_ok tss_addr s \<longleftrightarrow> length (gdt s) = 7 \<and> g_access (gdt s ! 0) = 0 \<and>
     g_access (gdt s ! 1) = 0x9A \<and> g_access (gdt s ! 2) = 0x92 \<and> g_access (gdt s ! 3) = 0xFA \<and> ring3_data (gdt s ! 4) \<and>
     g_access (gdt s ! 5) = 0x89 \<and> desc_base (gdt s ! 5) = tss_addr \<and> desc_limit (gdt s ! 5) = 103 \<and>
     t_ss0 (tss s) = GDT_KERNEL_DATA \<and> t_iomap_base (tss s) = 104"

lemma access_bits:
  "bit (0xF2::u8) 4" "\<not> bit (0xF2::u8) 3" "bit (0xF0::u8) 4" "\<not> bit (0xF0::u8) 3" "drop_bit 5 (0xF2::u8) AND 3 = 3"
  "drop_bit 5 (0xF0::u8) AND 3 = 3" "bit (0x72::u8) 4" "\<not> bit (0x72::u8) 3" "bit (0x70::u8) 4" "\<not> bit (0x70::u8) 3"
  "drop_bit 5 (0x72::u8) AND 3 = 3" "drop_bit 5 (0x70::u8) AND 3 = 3" "(0xF2::u8) AND NOT 0x80 = 0x72"
  "(0xF0::u8) AND NOT 0x80 = 0x70" "bit (0xF2::u8) 7" "bit (0xF0::u8) 7" "\<not> bit (0x72::u8) 7" "\<not> bit (0x70::u8) 7"
  by code_simp+

lemma user_tls_slot:
  fixes s :: seg_state and base limit flags :: u32
  assumes "length (gdt s) = 7"
  defines "t \<equiv> gdt_set_user_tls base limit flags s"
  shows "ring3_data (gdt t ! 6)" and "desc_base (gdt t ! 6) = base" and "desc_limit (gdt t ! 6) = limit AND 0xFFFFF"
    and "desc_present (gdt t ! 6) \<longleftrightarrow> flags AND 0x20 = 0" and "gdt_get_user_tls t = (base, limit AND 0xFFFFF, flags)"
    and "\<And>k. k \<noteq> 6 \<Longrightarrow> gdt t ! k = gdt s ! k" and "length (gdt t) = 7" and "tss t = tss s"
proof -
  define u where "u = s\<lparr>tls_base := base, tls_limit := limit AND 0xFFFFF, tls_flags := flags\<rparr>"
  define access :: u8 where "access = (if flags AND 0x20 \<noteq> 0 then (if flags AND 0x08 \<noteq> 0 then 0xF0 else 0xF2) AND NOT 0x80
    else (if flags AND 0x08 \<noteq> 0 then 0xF0 else 0xF2))"
  obtain gran where t: "t = gdt_set_gate 6 base (limit AND 0xFFFFF) access gran u"
    by (simp add: t_def gdt_set_user_tls_def Let_def access_def u_def)
  have len: "6 < length (gdt u)" using assms(1) by (simp add: u_def)
  note f = gate_fields [OF len t]
  show "ring3_data (gdt t ! 6)" using f(3)
    by (simp add: ring3_data_def desc_segment_def desc_code_def desc_dpl_def access_def access_bits)
  show "desc_base (gdt t ! 6) = base" by (rule f)
  show "desc_limit (gdt t ! 6) = limit AND 0xFFFFF" using f(2) by (simp add: and.assoc)
  show "desc_present (gdt t ! 6) \<longleftrightarrow> flags AND 0x20 = 0" using f(3) by (simp add: desc_present_def access_def access_bits)
  show "gdt_get_user_tls t = (base, limit AND 0xFFFFF, flags)" by (simp add: gdt_get_user_tls_def t u_def)
  show "gdt t ! k = gdt s ! k" if "k \<noteq> 6" for k using that by (simp add: t gate_other u_def)
  show "length (gdt t) = 7" "tss t = tss s" using assms(1) by (simp_all add: t u_def)
qed

lemma boot_gdt_ok:
  assumes "length (gdt s) = 7" and "tss_init tss_addr m (gdt_init gdt_addr s) = Some (True, m', s')"
  shows "gdt_ok tss_addr s'"
proof -
  define i where "i = gdt_init gdt_addr s"
  have L: "length (gdt i) = 7" using assms(1) by (simp add: i_def gdt_init_def Let_def gdt_set_gate_def)
  have A: "g_access (gdt i ! 0) = 0" "g_access (gdt i ! 1) = 0x9A" "g_access (gdt i ! 2) = 0x92" "g_access (gdt i ! 3) = 0xFA"
    "g_access (gdt i ! 4) = 0xF2" using assms(1) by (simp_all add: i_def gdt_init_def Let_def gdt_set_gate_def)
  obtain top where s': "s' = gdt_set_gate 5 tss_addr 103 0x89 0 (i\<lparr>kernel_stack_top := top,
      tss := zero_tss\<lparr>t_ss0 := GDT_KERNEL_DATA, t_esp0 := top, t_iomap_base := 104\<rparr>\<rparr>)"
    using assms(2) by (auto simp: tss_init_def i_def [symmetric] gdt_set_tss_def TSS_SIZE_def Let_def
        split: option.splits prod.splits if_splits)
  define u where "u = i\<lparr>kernel_stack_top := top, tss := zero_tss\<lparr>t_ss0 := GDT_KERNEL_DATA, t_esp0 := top, t_iomap_base := 104\<rparr>\<rparr>"
  have g: "gdt u = gdt i" by (simp add: u_def)
  have s5: "s' = gdt_set_gate 5 tss_addr 103 0x89 0 u" by (simp add: s' u_def)
  note f = gate_fields [OF _ s5]
  have other: "gdt s' ! k = gdt i ! k" if "k \<noteq> 5" for k using that by (simp add: s5 gate_other g)
  have "(103::u32) AND 0xFFFFF = 103" by code_simp
  moreover have "t_ss0 (tss s') = GDT_KERNEL_DATA" "t_iomap_base (tss s') = 104" by (simp_all add: s5 u_def)
  moreover have "length (gdt s') = 7" using L by (simp add: s5 g)
  ultimately show ?thesis using f A L other [of 0] other [of 1] other [of 2] other [of 3] other [of 4] g
    by (simp add: gdt_ok_def ring3_data_def desc_segment_def desc_code_def desc_dpl_def access_bits)
qed

text \<open>C40: after boot, whatever thread-local segments programs install, the kernel descriptors keep ring 0, the
  user descriptors ring 3, the task state segment stays the kernel's with no I/O bitmap, and the slot the
  program controls is a ring-3 data segment with the base and limit it asked for.\<close>

theorem user_segments_safe:
  assumes "length (gdt s) = 7" and "tss_init tss_addr m (gdt_init gdt_addr s) = Some (True, m', s0)"
    and "s1 = fold (\<lambda>(b, l, f). gdt_set_user_tls b l f) reqs s0"
  shows "gdt_ok tss_addr s1 \<and> (reqs \<noteq> [] \<longrightarrow> ring3_data (gdt s1 ! 6) \<and> desc_base (gdt s1 ! 6) = fst (List.last reqs) \<and>
    desc_limit (gdt s1 ! 6) = fst (snd (List.last reqs)) AND 0xFFFFF)"
proof -
  have step: "gdt_ok tss_addr (gdt_set_user_tls b l f u)" if "gdt_ok tss_addr u" for b l f u
    using that user_tls_slot(6-8) [of u] by (simp add: gdt_ok_def)
  have fold: "gdt_ok tss_addr (fold (\<lambda>(b, l, f). gdt_set_user_tls b l f) rs u)" if "gdt_ok tss_addr u" for rs u
    using that by (induction rs arbitrary: u) (auto simp: step)
  have b: "gdt_ok tss_addr s0" by (rule boot_gdt_ok [OF assms(1,2)])
  have "ring3_data (gdt s1 ! 6) \<and> desc_base (gdt s1 ! 6) = fst (List.last reqs) \<and>
      desc_limit (gdt s1 ! 6) = fst (snd (List.last reqs)) AND 0xFFFFF" if ne: "reqs \<noteq> []"
  proof -
    obtain rs x where r: "reqs = rs @ [x]" using ne by (metis append_butlast_last_id)
    obtain bb ll ff where x: "x = (bb, ll, ff)" by (cases x)
    define u where "u = fold (\<lambda>(b, l, f). gdt_set_user_tls b l f) rs s0"
    have "length (gdt u) = 7" using fold [OF b, of rs] by (simp add: u_def gdt_ok_def)
    moreover have "s1 = gdt_set_user_tls bb ll ff u" using assms(3) by (simp add: r x u_def)
    ultimately show ?thesis using user_tls_slot(1-3) [of u bb ll ff] by (simp add: r x)
  qed
  then show ?thesis using fold [OF b, of reqs] assms(3) by blast
qed

lemma mm_small_alloc: "\<exists>m'. mm_alloc_pages TSS_KERNEL_STACK_PAGES mm_small = Some (0x2000, m')"
proof -
  have r: "u32_range 0 2 = [0, 1]" by (simp add: u32_range_def upt_conv_Cons)
  have t: "bitmap_test 0 mm_small" "bitmap_test 1 mm_small" "\<not> bitmap_test 2 mm_small" "\<not> bitmap_test 3 mm_small"
    by (simp_all add: bitmap_test_def mm_small_def)
  have tot: "total_pages mm_small = 4" "free_pages mm_small = 2" by (simp_all add: mm_small_def)
  have "alloc_scan mm_small 2 2 = Some (Some 2)" by (subst alloc_scan.simps) (simp add: r t tot)
  then have "alloc_scan mm_small 2 1 = Some (Some 2)" by (subst alloc_scan.simps) (simp add: r t tot)
  then have "alloc_scan mm_small 2 0 = Some (Some 2)" by (subst alloc_scan.simps) (simp add: r t tot)
  then show ?thesis by (simp add: mm_alloc_pages_def TSS_KERNEL_STACK_PAGES_def tot PAGE_SIZE_def Let_def)
qed

definition seg_demo :: seg_state where
  "seg_demo = \<lparr>gdt = replicate 7 \<lparr>g_limit_low = 0, g_base_low = 0, g_base_mid = 0, g_access = 0, g_granularity = 0, g_base_high = 0\<rparr>,
     gdtr = \<lparr>gp_limit = 0, gp_base = 0\<rparr>, tls_base = 0, tls_limit = 0, tls_flags = 0, tss = zero_tss, kernel_stack_top = 0\<rparr>"

theorem user_segments_safe_witness:
  "\<exists>m' s0. tss_init 0x9000 mm_small (gdt_init 0x8000 seg_demo) = Some (True, m', s0) \<and>
    gdt_ok 0x9000 (gdt_set_user_tls 0x08050000 0xFFFFFFFF 0x51 s0) \<and>
    desc_base (gdt (gdt_set_user_tls 0x08050000 0xFFFFFFFF 0x51 s0) ! 6) = 0x08050000"
proof -
  obtain m' where "mm_alloc_pages TSS_KERNEL_STACK_PAGES mm_small = Some (0x2000, m')" using mm_small_alloc by blast
  then obtain s0 where i: "tss_init 0x9000 mm_small (gdt_init 0x8000 seg_demo) = Some (True, m', s0)"
    by (simp add: tss_init_def Let_def)
  have "length (gdt seg_demo) = 7" by (simp add: seg_demo_def)
  from user_segments_safe [OF this i, of _ "[(0x08050000, 0xFFFFFFFF, 0x51)]"] i show ?thesis by auto
qed

end
