(* ===== verification/Kernel_State.thy ===== *)
theory Kernel_State
  imports Keyboard Interrupts Kheap Fork Boot Fs_Names Segments
begin

text \<open>
  The state the process layer works on: the file-descriptor table of \<^verbatim>\<open>src/user.c\<close>, the process table of
  \<^verbatim>\<open>src/proc.c\<close> and the components they call, as one record that extends the state of the pipes and the
  keyboard.  A process is named by its index in the table.  Address spaces and saved descriptor
  tables live in blocks of the kernel heap: the allocator works on the real heap, and the contents
  are kept in typed stores indexed by the address of the block.
\<close>

section \<open>Descriptors\<close>

definition USER_FD_MAX :: nat where "USER_FD_MAX = 11"
definition USER_FD_PATH_MAX :: nat where "USER_FD_PATH_MAX = 64"
definition USER_FD_VBUF_MAX :: nat where "USER_FD_VBUF_MAX = 512"

datatype user_fd_kind_t =
    USER_FD_FREE | USER_FD_STDIN | USER_FD_STDOUT | USER_FD_STDERR | USER_FD_FILE | USER_FD_DIR
  | USER_FD_DEV_NULL | USER_FD_DEV_ZERO | USER_FD_DEV_CONSOLE | USER_FD_DEV_ATA | USER_FD_VFILE
  | USER_FD_PIPE_READ | USER_FD_PIPE_WRITE

record user_fd_t =
  fd_kind :: user_fd_kind_t
  fd_fs_slot :: int
  fd_offset :: u32
  fd_pipe_id :: int
  fd_path :: "u8 list"
  fd_vbuf :: "u8 list"
  fd_vlen :: u32

section \<open>Processes\<close>

definition PROC_MAX :: nat where "PROC_MAX = 8"
definition PROC_NAME_MAX :: nat where "PROC_NAME_MAX = 32"
definition PROC_CMDLINE_MAX :: nat where "PROC_CMDLINE_MAX = 96"
definition PROC_NSIG :: nat where "PROC_NSIG = 32"
definition PROC_SIG_DFL :: u32 where "PROC_SIG_DFL = 0"
definition PROC_SIG_IGN :: u32 where "PROC_SIG_IGN = 1"
definition PROC_SIGFRAME_MAX :: nat where "PROC_SIGFRAME_MAX = 4"

datatype proc_state_t = PROC_FREE | PROC_RUNNING | PROC_READY | PROC_BLOCKED | PROC_ZOMBIE

datatype proc_wait_t =
  PROC_WAIT_NONE | PROC_WAIT_WAIT4 | PROC_WAIT_WAITID | PROC_WAIT_POLL | PROC_WAIT_SIGSUSP | PROC_WAIT_READ

record proc_space_t =
  sp_mem :: u32
  sp_mem_pages :: u32
  sp_pd_phys :: u32
  sp_tramp_phys :: u32
  sp_refs :: u32

text \<open>A saved descriptor table with the header in front of it.\<close>

record proc_fdstate_t =
  fds_refs :: u32
  fds_tab :: "user_fd_t list"

record proc_t =
  p_used :: bool
  p_pid :: u32
  p_ppid :: u32
  p_tgid :: u32
  p_state :: proc_state_t
  p_exit_code :: int
  p_faulted :: bool
  p_is_thread :: bool
  p_name :: "u8 list"
  p_cmdline :: "u8 list"
  p_start_ticks :: u32
  p_space :: u32
  p_mem :: u32
  p_mem_pages :: u32
  p_pd_phys :: u32
  p_kstack :: u32
  p_kstack_top :: u32
  p_fd_state :: u32
  p_fds_retained :: bool
  p_cwd :: "u8 list"
  p_brk_base :: u32
  p_brk_cur :: u32
  p_tls_base :: u32
  p_tls_limit :: u32
  p_tls_flags :: u32
  p_uid :: u32
  p_gid :: u32
  p_eip :: u32
  p_esp :: u32
  p_eflags :: u32
  p_eax :: u32
  p_ebx :: u32
  p_ecx :: u32
  p_edx :: u32
  p_esi :: u32
  p_edi :: u32
  p_ebp :: u32
  p_fs_sel :: u32
  p_gs_sel :: u32
  p_has_ctx :: bool
  p_wait_kind :: proc_wait_t
  p_wait_pid :: int
  p_wait_status_ptr :: u32
  p_wait_infop :: u32
  p_last_wait_pid :: u32
  p_blk_ptr :: u32
  p_blk_len :: int
  p_blk_fd :: int
  p_blk_deadline :: u32
  p_blk_has_deadline :: bool
  p_sig_pending :: u32
  p_sig_blocked :: u32
  p_sig_handler :: "u32 list"
  p_sig_flags :: "u32 list"
  p_sig_restorer :: "u32 list"
  p_sig_frame_sp :: "u32 list"
  p_sig_depth :: int
  p_alarm_tick :: u32

definition zero_proc :: proc_t where
  "zero_proc = \<lparr>p_used = False, p_pid = 0, p_ppid = 0, p_tgid = 0, p_state = PROC_FREE, p_exit_code = 0, p_faulted = False,
     p_is_thread = False, p_name = replicate 32 0, p_cmdline = replicate 96 0, p_start_ticks = 0, p_space = 0, p_mem = 0,
     p_mem_pages = 0, p_pd_phys = 0, p_kstack = 0, p_kstack_top = 0, p_fd_state = 0, p_fds_retained = False,
     p_cwd = replicate 64 0, p_brk_base = 0, p_brk_cur = 0, p_tls_base = 0, p_tls_limit = 0, p_tls_flags = 0, p_uid = 0,
     p_gid = 0, p_eip = 0, p_esp = 0, p_eflags = 0, p_eax = 0, p_ebx = 0, p_ecx = 0, p_edx = 0, p_esi = 0, p_edi = 0,
     p_ebp = 0, p_fs_sel = 0, p_gs_sel = 0, p_has_ctx = False, p_wait_kind = PROC_WAIT_NONE, p_wait_pid = 0,
     p_wait_status_ptr = 0, p_wait_infop = 0, p_last_wait_pid = 0, p_blk_ptr = 0, p_blk_len = 0, p_blk_fd = 0,
     p_blk_deadline = 0, p_blk_has_deadline = False, p_sig_pending = 0, p_sig_blocked = 0, p_sig_handler = replicate 32 0,
     p_sig_flags = replicate 32 0, p_sig_restorer = replicate 32 0, p_sig_frame_sp = replicate 4 0, p_sig_depth = 0,
     p_alarm_tick = 0\<rparr>"

text \<open>The frame the interrupt stubs build.\<close>

record registers_t =
  r_gs :: u32
  r_fs :: u32
  r_es :: u32
  r_ds :: u32
  r_edi :: u32
  r_esi :: u32
  r_ebp :: u32
  r_esp :: u32
  r_ebx :: u32
  r_edx :: u32
  r_ecx :: u32
  r_eax :: u32
  r_int_no :: u32
  r_err_code :: u32
  r_eip :: u32
  r_cs :: u32
  r_eflags :: u32
  r_useresp :: u32
  r_ss :: u32

section \<open>The kernel\<close>

text \<open>\<open>console\<close> is what has been sent to the screen and the serial line.\<close>

record 'h kernel = kbd_state +
  k_mm :: kheap_state
  k_fs :: "'h fs_state"
  k_pit :: pit_t
  k_seg :: seg_state
  k_modules :: module_state
  task_count :: u32
  console :: "u8 list"
  user_fds :: "user_fd_t list"
  cwd_path :: "u8 list"
  u_active :: bool
  u_faulted :: bool
  u_exit_code :: int
  brk_base :: u32
  brk_current :: u32
  esp_save :: u32
  esp_launch :: u32
  procs :: "proc_t list"
  current_proc :: "nat option"
  next_pid :: u32
  frame_switched :: bool
  spaces :: "u32 \<Rightarrow> proc_space_t"
  fdstates :: "u32 \<Rightarrow> proc_fdstate_t"

definition upd_proc :: "nat \<Rightarrow> (proc_t \<Rightarrow> proc_t) \<Rightarrow> 'h kernel \<Rightarrow> 'h kernel" where
  "upd_proc i f k = k\<lparr>procs := (procs k)[i := f (procs k ! i)]\<rparr>"

text \<open>Calls into the memory manager.\<close>

definition mm_call :: "(kheap_state \<Rightarrow> 'r \<times> kheap_state) \<Rightarrow> 'h kernel \<Rightarrow> 'r \<times> 'h kernel" where
  "mm_call f k = (case f (k_mm k) of (r, m) \<Rightarrow> (r, k\<lparr>k_mm := m\<rparr>))"

definition mm_upd :: "(kheap_state \<Rightarrow> kheap_state) \<Rightarrow> 'h kernel \<Rightarrow> 'h kernel" where
  "mm_upd f k = k\<lparr>k_mm := f (k_mm k)\<rparr>"

definition mm_try :: "(kheap_state \<Rightarrow> ('r \<times> kheap_state) option) \<Rightarrow> 'h kernel \<Rightarrow> ('r \<times> 'h kernel) option" where
  "mm_try f k = (case f (k_mm k) of None \<Rightarrow> None | Some (r, m) \<Rightarrow> Some (r, k\<lparr>k_mm := m\<rparr>))"

definition mm_free_try :: "(kheap_state \<Rightarrow> kheap_state option) \<Rightarrow> 'h kernel \<Rightarrow> 'h kernel option" where
  "mm_free_try f k = (case f (k_mm k) of None \<Rightarrow> None | Some m \<Rightarrow> Some (k\<lparr>k_mm := m\<rparr>))"

section \<open>Accesses through the active page directory\<close>

text \<open>
  What a load or store of the kernel at a virtual address does, with \<^verbatim>\<open>CR0.WP\<close> set by
  \<^verbatim>\<open>mm_enable_paging\<close>: a present page is read; a present writable page is written; any other store raises
  a page fault, which \<^verbatim>\<open>isr_handler\<close> resolves for a copy-on-write page of the running process
  (the store is then retried) and which halts the machine otherwise (\<open>None\<close>).
\<close>

definition cow_fault :: "u32 \<Rightarrow> 'h kernel \<Rightarrow> 'h kernel option" where
  "cow_fault cr2 k =
     (case current_proc k of
        None \<Rightarrow> None
      | Some i \<Rightarrow>
          let pd = p_pd_phys (procs k ! i)
          in if u_active k \<and> pd \<noteq> 0 \<and> USER_BASE \<le> cr2 \<and> cr2 < USER_SIGTRAMP
             then case mm_call (mm_user_make_writable pd cr2) k of (ok, k) \<Rightarrow> if ok then Some k else None
             else None)"

definition active_pd :: "'h kernel \<Rightarrow> u32" where
  "active_pd k = mm_get_current_pd (k_mm k)"

definition vm_entry :: "u32 \<Rightarrow> 'h kernel \<Rightarrow> u32 option" where
  "vm_entry va k =
     (let a = user_pte (active_pd k) va (k_mm k); e = load32 (pmem (k_mm k)) a
      in if a = NULL \<or> e AND PTE_PRESENT = 0 then None else Some e)"

definition vload8 :: "u32 \<Rightarrow> 'h kernel \<Rightarrow> u8 option" where
  "vload8 va k =
     (case vm_entry va k of None \<Rightarrow> None
      | Some e \<Rightarrow> Some (pmem (k_mm k) ((e AND PAGE_MASK) + (va AND 0xFFF))))"

definition vput8 :: "u32 \<Rightarrow> u8 \<Rightarrow> 'h kernel \<Rightarrow> 'h kernel option" where
  "vput8 va b k =
     (case vm_entry va k of
        Some e \<Rightarrow> if e AND PTE_WRITABLE \<noteq> 0
                  then Some (k\<lparr>k_mm := (k_mm k)\<lparr>pmem := (pmem (k_mm k))((e AND PAGE_MASK) + (va AND 0xFFF) := b)\<rparr>\<rparr>)
                  else None
      | None \<Rightarrow> None)"

definition vstore8 :: "u32 \<Rightarrow> u8 \<Rightarrow> 'h kernel \<Rightarrow> 'h kernel option" where
  "vstore8 va b k =
     (case vput8 va b k of
        Some k' \<Rightarrow> Some k'
      | None \<Rightarrow> (case cow_fault va k of None \<Rightarrow> None | Some k \<Rightarrow> vput8 va b k))"

fun vstore :: "u32 \<Rightarrow> u8 list \<Rightarrow> 'h kernel \<Rightarrow> 'h kernel option" where
  "vstore va [] k = Some k"
| "vstore va (b # bs) k = (case vstore8 va b k of None \<Rightarrow> None | Some k \<Rightarrow> vstore (va + 1) bs k)"

fun vload :: "u32 \<Rightarrow> nat \<Rightarrow> 'h kernel \<Rightarrow> u8 list option" where
  "vload va 0 k = Some []"
| "vload va (Suc n) k = (case vload8 va k of None \<Rightarrow> None
      | Some b \<Rightarrow> (case vload (va + 1) n k of None \<Rightarrow> None | Some bs \<Rightarrow> Some (b # bs)))"

definition vstore32 :: "u32 \<Rightarrow> u32 \<Rightarrow> 'h kernel \<Rightarrow> 'h kernel option" where
  "vstore32 va v k = vstore va (enc32 v) k"

definition vload32 :: "u32 \<Rightarrow> 'h kernel \<Rightarrow> u32 option" where
  "vload32 va k = map_option (\<lambda>bs. le32 bs 0) (vload va 4 k)"

text \<open>The dwords of an array at \<open>va\<close>.\<close>

fun vstore32s :: "u32 \<Rightarrow> u32 list \<Rightarrow> 'h kernel \<Rightarrow> 'h kernel option" where
  "vstore32s va [] k = Some k"
| "vstore32s va (v # vs) k = (case vstore32 va v k of None \<Rightarrow> None | Some k \<Rightarrow> vstore32s (va + 4) vs k)"

fun vload32s :: "u32 \<Rightarrow> nat \<Rightarrow> 'h kernel \<Rightarrow> u32 list option" where
  "vload32s va 0 k = Some []"
| "vload32s va (Suc n) k = (case vload32 va k of None \<Rightarrow> None
      | Some v \<Rightarrow> (case vload32s (va + 4) n k of None \<Rightarrow> None | Some vs \<Rightarrow> Some (v # vs)))"

end
