(* ===== verification/Ufd.thy ===== *)
theory Ufd
  imports Kernel_State
begin

text \<open>
  The per-process file descriptors of \<^verbatim>\<open>src/user.c\<close>: a table of eleven entries, of which 0, 1 and 2 start as
  the standard streams, the reference counts they hold on files and pipe writers, the saved tables
  of other processes, and the program break.  Paths are passed as the characters before the NUL;
  \<open>notify\<close> is \<^verbatim>\<open>proc_notify_pipe\<close>.
\<close>

section \<open>The live table\<close>

definition zero_fd :: user_fd_t where
  "zero_fd = \<lparr>fd_kind = USER_FD_FREE, fd_fs_slot = 0, fd_offset = 0, fd_pipe_id = 0, fd_path = replicate 64 0,
     fd_vbuf = replicate 512 0, fd_vlen = 0\<rparr>"

definition free_fd :: user_fd_t where
  "free_fd = zero_fd\<lparr>fd_fs_slot := - 1\<rparr>"

definition align_up_page :: "u32 \<Rightarrow> u32" where
  "align_up_page v = (v + PAGE_SIZE - 1) AND PAGE_MASK"

definition fd_index :: "int \<Rightarrow> nat option" where
  "fd_index fd = (if fd < 0 \<or> fd \<ge> int USER_FD_MAX then None else Some (nat fd))"

definition set_fd :: "nat \<Rightarrow> user_fd_t \<Rightarrow> 'h kernel \<Rightarrow> 'h kernel" where
  "set_fd i e k = k\<lparr>user_fds := (user_fds k)[i := e]\<rparr>"

definition fd_alloc_raw :: "'h kernel \<Rightarrow> nat option" where
  "fd_alloc_raw k = find (\<lambda>i. fd_kind (user_fds k ! i) = USER_FD_FREE) [3..<USER_FD_MAX]"

definition fd_alloc_kind :: "user_fd_kind_t \<Rightarrow> 'h kernel \<Rightarrow> nat option \<times> 'h kernel" where
  "fd_alloc_kind kind k =
     (case fd_alloc_raw k of None \<Rightarrow> (None, k)
      | Some i \<Rightarrow> (Some i, set_fd i (zero_fd\<lparr>fd_kind := kind, fd_fs_slot := - 1\<rparr>) k))"

definition fs_upd :: "('h fs_state \<Rightarrow> 'r \<times> 'h fs_state) \<Rightarrow> 'h kernel \<Rightarrow> 'h kernel" where
  "fs_upd f k = k\<lparr>k_fs := snd (f (k_fs k))\<rparr>"

definition fd_entry_ref ::
  "'h ports \<Rightarrow> (int \<Rightarrow> 'h kernel \<Rightarrow> 'h kernel) \<Rightarrow> int \<Rightarrow> user_fd_t \<Rightarrow> 'h kernel \<Rightarrow> 'h kernel" where
  "fd_entry_ref P notify delta e k =
     (if fd_kind e = USER_FD_FILE \<and> fd_fs_slot e \<ge> 0
      then if delta > 0 then fs_upd (fs_ref (fd_fs_slot e)) k else fs_upd (fs_unref P (fd_fs_slot e)) k
      else if fd_kind e = USER_FD_PIPE_WRITE then pipe_writer_add notify (fd_pipe_id e) delta k
      else k)"

definition user_fds_reset :: "'h kernel \<Rightarrow> 'h kernel" where
  "user_fds_reset k = k\<lparr>
     user_fds := [free_fd\<lparr>fd_kind := USER_FD_STDIN\<rparr>, free_fd\<lparr>fd_kind := USER_FD_STDOUT\<rparr>,
       free_fd\<lparr>fd_kind := USER_FD_STDERR\<rparr>] @ replicate (USER_FD_MAX - 3) free_fd,
     cwd_path := copy_name [0x2F]\<rparr>"

definition user_fd_alloc :: "int \<Rightarrow> 'h kernel \<Rightarrow> int \<times> 'h kernel" where
  "user_fd_alloc fs_slot k =
     (case fd_alloc_kind USER_FD_FILE k of
        (None, k) \<Rightarrow> (- 1, k)
      | (Some i, k) \<Rightarrow> (int i, fs_upd (fs_ref fs_slot) (set_fd i ((user_fds k ! i)\<lparr>fd_fs_slot := fs_slot\<rparr>) k)))"

text \<open>\<open>None\<close> is the null pointer.\<close>

definition user_fd_alloc_dir :: "u8 list option \<Rightarrow> 'h kernel \<Rightarrow> int \<times> 'h kernel" where
  "user_fd_alloc_dir path k =
     (case fd_alloc_kind USER_FD_DIR k of
        (None, k) \<Rightarrow> (- 1, k)
      | (Some i, k) \<Rightarrow>
          let p = (case path of None \<Rightarrow> [slash] | Some p \<Rightarrow> if p = [] \<or> p ! 0 \<noteq> slash then [slash] else p)
          in (int i, set_fd i ((user_fds k ! i)\<lparr>fd_path := copy_name p\<rparr>) k))"

definition user_fd_alloc_dev :: "user_fd_kind_t \<Rightarrow> 'h kernel \<Rightarrow> int \<times> 'h kernel" where
  "user_fd_alloc_dev kind k =
     (if kind \<noteq> USER_FD_DEV_NULL \<and> kind \<noteq> USER_FD_DEV_ZERO \<and> kind \<noteq> USER_FD_DEV_CONSOLE \<and> kind \<noteq> USER_FD_DEV_ATA then (- 1, k)
      else case fd_alloc_kind kind k of (None, k) \<Rightarrow> (- 1, k) | (Some i, k) \<Rightarrow> (int i, k))"

definition user_fd_alloc_vfile :: "u8 list \<Rightarrow> u32 \<Rightarrow> 'h kernel \<Rightarrow> int \<times> 'h kernel" where
  "user_fd_alloc_vfile data len k =
     (case fd_alloc_kind USER_FD_VFILE k of
        (None, k) \<Rightarrow> (- 1, k)
      | (Some i, k) \<Rightarrow>
          let len = (if len > word_of_nat USER_FD_VBUF_MAX then word_of_nat USER_FD_VBUF_MAX else len);
              e = user_fds k ! i
          in (int i, set_fd i (e\<lparr>fd_vbuf := overlay 0 (take (unat len) data) (fd_vbuf e), fd_vlen := len\<rparr>) k))"

definition user_fd_alloc_pipe ::
  "(int \<Rightarrow> 'h kernel \<Rightarrow> 'h kernel) \<Rightarrow> int \<Rightarrow> bool \<Rightarrow> 'h kernel \<Rightarrow> int \<times> 'h kernel" where
  "user_fd_alloc_pipe notify pipe_id write_end k =
     (case fd_alloc_kind (if write_end then USER_FD_PIPE_WRITE else USER_FD_PIPE_READ) k of
        (None, k) \<Rightarrow> (- 1, k)
      | (Some i, k) \<Rightarrow>
          let k = set_fd i ((user_fds k ! i)\<lparr>fd_pipe_id := pipe_id\<rparr>) k
          in (int i, if write_end then pipe_writer_add notify pipe_id 1 k else k))"

definition is_pipe :: "user_fd_t \<Rightarrow> bool" where
  "is_pipe e \<longleftrightarrow> fd_kind e = USER_FD_PIPE_READ \<or> fd_kind e = USER_FD_PIPE_WRITE"

definition user_fd_pipe_id :: "int \<Rightarrow> 'h kernel \<Rightarrow> int" where
  "user_fd_pipe_id fd k =
     (case fd_index fd of None \<Rightarrow> - 1
      | Some i \<Rightarrow> if is_pipe (user_fds k ! i) then fd_pipe_id (user_fds k ! i) else - 1)"

text \<open>A kind, or \<open>None\<close> for \<^verbatim>\<open>-1\<close>.\<close>

definition user_fd_kind :: "int \<Rightarrow> 'h kernel \<Rightarrow> user_fd_kind_t option" where
  "user_fd_kind fd k =
     (case fd_index fd of None \<Rightarrow> None
      | Some i \<Rightarrow> if fd_kind (user_fds k ! i) = USER_FD_FREE then None else Some (fd_kind (user_fds k ! i)))"

definition user_fd_is_dir :: "int \<Rightarrow> 'h kernel \<Rightarrow> bool" where
  "user_fd_is_dir fd k \<longleftrightarrow> (case fd_index fd of None \<Rightarrow> False | Some i \<Rightarrow> fd_kind (user_fds k ! i) = USER_FD_DIR)"

definition user_fd_dir_path :: "int \<Rightarrow> 'h kernel \<Rightarrow> u8 list" where
  "user_fd_dir_path fd k =
     (case fd_index fd of None \<Rightarrow> []
      | Some i \<Rightarrow> if fd_kind (user_fds k ! i) \<noteq> USER_FD_DIR then [] else cstr (fd_path (user_fds k ! i)))"

definition user_fd_vfile :: "int \<Rightarrow> 'h kernel \<Rightarrow> u32 \<times> u8 list option" where
  "user_fd_vfile fd k =
     (case fd_index fd of None \<Rightarrow> (0, None)
      | Some i \<Rightarrow> if fd_kind (user_fds k ! i) \<noteq> USER_FD_VFILE then (0, None)
                  else (fd_vlen (user_fds k ! i), Some (fd_vbuf (user_fds k ! i))))"

definition user_fd_dup ::
  "'h ports \<Rightarrow> (int \<Rightarrow> 'h kernel \<Rightarrow> 'h kernel) \<Rightarrow> int \<Rightarrow> 'h kernel \<Rightarrow> int \<times> 'h kernel" where
  "user_fd_dup P notify oldfd k =
     (case fd_index oldfd of None \<Rightarrow> (- 1, k)
      | Some oi \<Rightarrow>
          if fd_kind (user_fds k ! oi) = USER_FD_FREE then (- 1, k)
          else case fd_alloc_raw k of None \<Rightarrow> (- 1, k)
            | Some ni \<Rightarrow> (int ni, fd_entry_ref P notify 1 (user_fds k ! oi) (set_fd ni (user_fds k ! oi) k)))"

definition user_fd_dup2 ::
  "'h ports \<Rightarrow> (int \<Rightarrow> 'h kernel \<Rightarrow> 'h kernel) \<Rightarrow> int \<Rightarrow> int \<Rightarrow> 'h kernel \<Rightarrow> bool \<times> 'h kernel" where
  "user_fd_dup2 P notify oldfd newfd k =
     (case (fd_index oldfd, fd_index newfd) of
        (Some oi, Some ni) \<Rightarrow>
          if fd_kind (user_fds k ! oi) = USER_FD_FREE then (False, k)
          else if oi = ni then (True, k)
          else
            let k = fd_entry_ref P notify (- 1) (user_fds k ! ni) k;
                k = set_fd ni (user_fds k ! oi) k
            in (True, fd_entry_ref P notify 1 (user_fds k ! ni) k)
      | _ \<Rightarrow> (False, k))"

definition user_fd_slot :: "int \<Rightarrow> 'h kernel \<Rightarrow> int" where
  "user_fd_slot fd k =
     (case fd_index fd of None \<Rightarrow> - 1
      | Some i \<Rightarrow> if fd_kind (user_fds k ! i) \<noteq> USER_FD_FILE then - 1 else fd_fs_slot (user_fds k ! i))"

definition user_fd_offset :: "int \<Rightarrow> 'h kernel \<Rightarrow> u32" where
  "user_fd_offset fd k = (case fd_index fd of None \<Rightarrow> 0 | Some i \<Rightarrow> fd_offset (user_fds k ! i))"

definition user_fd_set_offset :: "int \<Rightarrow> u32 \<Rightarrow> 'h kernel \<Rightarrow> bool \<times> 'h kernel" where
  "user_fd_set_offset fd offset k =
     (case fd_index fd of None \<Rightarrow> (False, k)
      | Some i \<Rightarrow> if fd_kind (user_fds k ! i) = USER_FD_FREE then (False, k)
                  else (True, set_fd i ((user_fds k ! i)\<lparr>fd_offset := offset\<rparr>) k))"

definition user_fd_close :: "'h ports \<Rightarrow> (int \<Rightarrow> 'h kernel \<Rightarrow> 'h kernel) \<Rightarrow> int \<Rightarrow> 'h kernel \<Rightarrow> 'h kernel" where
  "user_fd_close P notify fd k =
     (case fd_index fd of None \<Rightarrow> k
      | Some i \<Rightarrow> set_fd i free_fd (fd_entry_ref P notify (- 1) (user_fds k ! i) k))"

definition user_cwd_get :: "'h kernel \<Rightarrow> u8 list" where
  "user_cwd_get k = cstr (cwd_path k)"

definition user_cwd_set :: "u8 list option \<Rightarrow> 'h kernel \<Rightarrow> bool \<times> 'h kernel" where
  "user_cwd_set path k =
     (case path of None \<Rightarrow> (False, k)
      | Some p \<Rightarrow> if p = [] \<or> p ! 0 \<noteq> slash \<or> length p \<ge> USER_FD_PATH_MAX then (False, k)
                  else (True, k\<lparr>cwd_path := copy_name p\<rparr>))"

section \<open>Saved tables\<close>

text \<open>\<open>sizeof(user_fds)\<close>: eleven entries of 596 bytes.\<close>

definition user_fd_state_bytes :: u32 where
  "user_fd_state_bytes = 11 * 596"

definition set_fdstate :: "u32 \<Rightarrow> proc_fdstate_t \<Rightarrow> 'h kernel \<Rightarrow> 'h kernel" where
  "set_fdstate h f k = k\<lparr>fdstates := (fdstates k)(h := f)\<rparr>"

text \<open>\<open>state\<close> points behind the four-byte header.\<close>

definition saved_tab :: "u32 \<Rightarrow> 'h kernel \<Rightarrow> user_fd_t list" where
  "saved_tab state k = fds_tab (fdstates k (state - 4))"

definition user_fd_state_save :: "u32 \<Rightarrow> 'h kernel \<Rightarrow> 'h kernel" where
  "user_fd_state_save dst k =
     (if dst = 0 then k else set_fdstate (dst - 4) ((fdstates k (dst - 4))\<lparr>fds_tab := user_fds k\<rparr>) k)"

definition user_fd_state_restore :: "u32 \<Rightarrow> 'h kernel \<Rightarrow> 'h kernel" where
  "user_fd_state_restore src k = (if src = 0 then k else k\<lparr>user_fds := saved_tab src k\<rparr>)"

definition user_fd_state_retain ::
  "'h ports \<Rightarrow> (int \<Rightarrow> 'h kernel \<Rightarrow> 'h kernel) \<Rightarrow> u32 \<Rightarrow> 'h kernel \<Rightarrow> 'h kernel" where
  "user_fd_state_retain P notify state k =
     (if state = 0 then k else fold (\<lambda>i k. fd_entry_ref P notify 1 (saved_tab state k ! i) k) [0..<USER_FD_MAX] k)"

definition user_fd_state_release ::
  "'h ports \<Rightarrow> (int \<Rightarrow> 'h kernel \<Rightarrow> 'h kernel) \<Rightarrow> u32 \<Rightarrow> 'h kernel \<Rightarrow> 'h kernel" where
  "user_fd_state_release P notify state k =
     (if state = 0 then k else fold (\<lambda>i k. fd_entry_ref P notify (- 1) (saved_tab state k ! i) k) [0..<USER_FD_MAX] k)"

definition USER_POLLIN :: u32 where "USER_POLLIN = 0x001"
definition USER_POLLOUT :: u32 where "USER_POLLOUT = 0x004"
definition USER_POLLERR :: u32 where "USER_POLLERR = 0x008"
definition USER_POLLHUP :: u32 where "USER_POLLHUP = 0x010"
definition USER_POLLNVAL :: u32 where "USER_POLLNVAL = 0x020"

definition ev :: "bool \<Rightarrow> u32 \<Rightarrow> u32" where
  "ev c m = (if c then m else 0)"

fun entry_events :: "user_fd_t \<Rightarrow> u32 \<Rightarrow> 'h kernel \<Rightarrow> u32" where
  "entry_events e events k =
     (let wants_in = events AND USER_POLLIN \<noteq> 0; wants_out = events AND USER_POLLOUT \<noteq> 0; id = fd_pipe_id e
      in case fd_kind e of
           USER_FD_FREE \<Rightarrow> USER_POLLNVAL
         | USER_FD_STDIN \<Rightarrow> ev (wants_in \<and> keyboard_haschar k) USER_POLLIN
         | USER_FD_DEV_CONSOLE \<Rightarrow> ev (wants_in \<and> keyboard_haschar k) USER_POLLIN
         | USER_FD_STDOUT \<Rightarrow> ev wants_out USER_POLLOUT
         | USER_FD_STDERR \<Rightarrow> ev wants_out USER_POLLOUT
         | USER_FD_PIPE_READ \<Rightarrow>
             if pipe_valid id k
             then ev (wants_in \<and> (pipe_fill id k > 0 \<or> pipe_writers id k = 0)) USER_POLLIN OR
                  ev (pipe_writers id k = 0) USER_POLLHUP
             else USER_POLLERR
         | USER_FD_PIPE_WRITE \<Rightarrow>
             if pipe_valid id k
             then ev (wants_out \<and> pipe_fill id k < PIPE_BUF_SIZE) USER_POLLOUT OR ev (pipe_writers id k = 0) USER_POLLERR
             else USER_POLLERR
         | _ \<Rightarrow> ev wants_in USER_POLLIN OR ev wants_out USER_POLLOUT)"

definition user_fd_state_events :: "u32 \<Rightarrow> int \<Rightarrow> u32 \<Rightarrow> 'h kernel \<Rightarrow> u32" where
  "user_fd_state_events state fd events k =
     (if state = 0 \<or> fd < 0 \<or> fd \<ge> int USER_FD_MAX then USER_POLLNVAL
      else entry_events (saved_tab state k ! nat fd) events k)"

definition user_fd_state_kind :: "u32 \<Rightarrow> int \<Rightarrow> 'h kernel \<Rightarrow> user_fd_kind_t option" where
  "user_fd_state_kind state fd k =
     (if state = 0 \<or> fd < 0 \<or> fd \<ge> int USER_FD_MAX then None
      else let e = saved_tab state k ! nat fd in if fd_kind e = USER_FD_FREE then None else Some (fd_kind e))"

definition user_fd_state_pipe :: "u32 \<Rightarrow> int \<Rightarrow> 'h kernel \<Rightarrow> int" where
  "user_fd_state_pipe state fd k =
     (if state = 0 \<or> fd < 0 \<or> fd \<ge> int USER_FD_MAX then - 1
      else let e = saved_tab state k ! nat fd in if is_pipe e then fd_pipe_id e else - 1)"

section \<open>The program break\<close>

definition USER_STACK_RESERVE :: u32 where "USER_STACK_RESERVE = 0x00010000"

definition user_get_brk_state :: "'h kernel \<Rightarrow> u32 \<times> u32" where
  "user_get_brk_state k = (brk_base k, brk_current k)"

definition user_restore_brk_state :: "u32 \<Rightarrow> u32 \<Rightarrow> 'h kernel \<Rightarrow> bool \<times> 'h kernel" where
  "user_restore_brk_state base cur k =
     (if base < USER_BASE \<or> cur < base \<or> cur > USER_END then (False, k)
      else (True, k\<lparr>brk_base := base, brk_current := cur\<rparr>))"

definition user_last_exit_code :: "'h kernel \<Rightarrow> int" where
  "user_last_exit_code k = u_exit_code k"

definition user_last_faulted :: "'h kernel \<Rightarrow> bool" where
  "user_last_faulted k = u_faulted k"

definition user_clear_exit_state :: "'h kernel \<Rightarrow> 'h kernel" where
  "user_clear_exit_state k = k\<lparr>u_exit_code := 0, u_faulted := False\<rparr>"

definition user_set_active :: "bool \<Rightarrow> 'h kernel \<Rightarrow> 'h kernel" where
  "user_set_active v k = k\<lparr>u_active := v\<rparr>"

text \<open>\<^verbatim>\<open>memset\<close> of the new area goes through the page directory of the process.\<close>

definition user_mmap_anon :: "u32 \<Rightarrow> 'h kernel \<Rightarrow> (u32 \<times> 'h kernel) option" where
  "user_mmap_anon len k =
     (if len = 0 then Some (0, k)
      else
        let rounded = (len + PAGE_SIZE - 1) AND PAGE_MASK
        in if rounded < len then Some (0, k)
           else
             let start = align_up_page (brk_current k); limit = USER_END - USER_STACK_RESERVE
             in if start \<ge> limit \<or> rounded > limit - start then Some (0, k)
                else case vstore start (replicate (unat rounded) 0) (k\<lparr>brk_current := start + rounded\<rparr>) of
                       None \<Rightarrow> None | Some k \<Rightarrow> Some (start, k))"

definition user_is_active :: "'h kernel \<Rightarrow> bool" where
  "user_is_active k = u_active k"

definition user_ptr_ok :: "u32 \<Rightarrow> u32 \<Rightarrow> bool" where
  "user_ptr_ok ptr len \<longleftrightarrow> \<not> ptr < USER_BASE \<and> \<not> ptr > USER_END \<and> len \<le> USER_END - ptr"

definition user_get_brk :: "'h kernel \<Rightarrow> u32" where
  "user_get_brk k = brk_current k"

definition user_set_brk :: "u32 \<Rightarrow> 'h kernel \<Rightarrow> bool \<times> 'h kernel" where
  "user_set_brk addr k =
     (if addr < brk_base k \<or> addr > USER_END - USER_STACK_RESERVE then (False, k)
      else (True, k\<lparr>brk_current := addr\<rparr>))"

end
