(* ===== verification/Wakeup.thy ===== *)
theory Wakeup
  imports Ufd "HOL-Library.Monad_Syntax"
begin

declare drop_bit_and [simp del] drop_bit_or [simp del]

text \<open>
  Wakeups for blocking input and output, the last part of \<^verbatim>\<open>src/proc.c\<close>: a blocked poller or reader is
  served by whoever makes its descriptor ready, through the page table of the sleeping process.
  Serving a reader takes bytes out of a pipe, which notifies the sleepers again: the operations are
  recursive.  Each nested notification finds fewer bytes in the pipes, so the recursion is bounded by
  their number; \<open>proc_notify_pipe_eq\<close> shows that the bound is never reached.
\<close>

section \<open>The memory of another process\<close>

text \<open>The kernel address of a user pointer of process \<open>i\<close>, \<open>NULL\<close> when there is none.\<close>

definition proc_user_ptr :: "nat \<Rightarrow> u32 \<Rightarrow> 'h kernel \<Rightarrow> u32 \<times> 'h kernel" where
  "proc_user_ptr i uptr k =
     (let p = procs k ! i
      in if uptr < USER_BASE \<or> uptr \<ge> USER_END then (NULL, k)
         else if p_pd_phys p \<noteq> 0
         then case mm_call (mm_user_make_writable (p_pd_phys p) uptr) k of (ok, k) \<Rightarrow>
                (mm_user_translate (p_pd_phys p) uptr (k_mm k), k)
         else if p_mem p = 0 then (NULL, k)
         else (p_mem p + (uptr - USER_BASE), k))"

definition phys_upd :: "(memory \<Rightarrow> memory) \<Rightarrow> 'h kernel \<Rightarrow> 'h kernel" where
  "phys_upd f k = mm_upd (\<lambda>m. m\<lparr>pmem := f (pmem m)\<rparr>) k"

definition store_bytes :: "u32 \<Rightarrow> u8 list \<Rightarrow> memory \<Rightarrow> memory" where
  "store_bytes a bs m = (\<lambda>x. if unat (x - a) < length bs then bs ! unat (x - a) else m x)"

definition proc_write_user_u32 :: "nat \<Rightarrow> u32 \<Rightarrow> u32 \<Rightarrow> 'h kernel \<Rightarrow> 'h kernel" where
  "proc_write_user_u32 i uptr v k =
     (if uptr < USER_BASE \<or> uptr > USER_END - 4 then k
      else case proc_user_ptr i uptr k of (dst, k) \<Rightarrow>
        if dst \<noteq> NULL then phys_upd (\<lambda>m. store32 m dst v) k else k)"

section \<open>Pollers\<close>

text \<open>One element of the array: descriptor, events, returned events.\<close>

definition poll_entry :: "nat \<Rightarrow> nat \<Rightarrow> int \<times> 'h kernel \<Rightarrow> int \<times> 'h kernel" where
  "poll_entry i n rk =
     (case rk of (ready, k) \<Rightarrow>
      case proc_user_ptr i (p_blk_ptr (procs k ! i) + word_of_nat n * 8) k of (e, k) \<Rightarrow>
        if e = NULL then (ready, k)
        else
          let fd = sint (load32 (pmem (k_mm k)) e);
              events = load16 (pmem (k_mm k)) (e + 4);
              rev = (if fd \<ge> 0 then ucast (user_fd_state_events (p_fd_state (procs k ! i)) fd (scast events) k) else 0 :: u16);
              k = phys_upd (store_bytes (e + 6) (enc16 rev)) k
          in (if rev \<noteq> 0 then ready + 1 else ready, k))"

definition proc_poll_scan :: "nat \<Rightarrow> 'h kernel \<Rightarrow> int \<times> 'h kernel" where
  "proc_poll_scan i k =
     (let p = procs k ! i
      in if p_fd_state p = 0 \<or> p_blk_len p \<le> 0 \<or> p_blk_len p > 64 then (0, k)
         else fold (poll_entry i) [0..<nat (p_blk_len p)] (0, k))"

definition proc_poll_finish :: "nat \<Rightarrow> int \<Rightarrow> 'h kernel \<Rightarrow> 'h kernel" where
  "proc_poll_finish i ready k =
     upd_proc i (\<lambda>p. p\<lparr>p_eax := word_of_int ready, p_wait_kind := PROC_WAIT_NONE, p_blk_has_deadline := False,
       p_state := PROC_READY\<rparr>) k"

definition expire_entry :: "nat \<Rightarrow> nat \<Rightarrow> 'h kernel \<Rightarrow> 'h kernel" where
  "expire_entry i n k =
     (case proc_user_ptr i (p_blk_ptr (procs k ! i) + word_of_nat n * 8) k of (e, k) \<Rightarrow>
        if e = NULL then k else phys_upd (store_bytes (e + 6) (enc16 0)) k)"

definition proc_poll_expire :: "nat \<Rightarrow> 'h kernel \<Rightarrow> 'h kernel" where
  "proc_poll_expire i k =
     proc_poll_finish i 0 (fold (expire_entry i) [0..<nat (min (p_blk_len (procs k ! i)) 64)] k)"

definition blocked_in :: "proc_wait_t \<Rightarrow> proc_t \<Rightarrow> bool" where
  "blocked_in kind p \<longleftrightarrow> p_used p \<and> p_pid p \<noteq> 1 \<and> p_state p = PROC_BLOCKED \<and> p_wait_kind p = kind"

definition wake_poller :: "nat \<Rightarrow> 'h kernel \<Rightarrow> 'h kernel" where
  "wake_poller i k =
     (if \<not> blocked_in PROC_WAIT_POLL (procs k ! i) then k
      else case proc_poll_scan i k of (ready, k) \<Rightarrow> if ready > 0 then proc_poll_finish i ready k else k)"

definition proc_wake_pollers :: "'h kernel \<Rightarrow> 'h kernel" where
  "proc_wake_pollers k = fold wake_poller [0..<PROC_MAX] k"

section \<open>Readers\<close>

text \<open>The copy loop of \<^verbatim>\<open>proc_read_check\<close>; every round but the last takes at least one byte, so \<open>fill\<close> rounds
  are enough.\<close>

fun read_loop ::
  "(int \<Rightarrow> 'h kernel \<Rightarrow> 'h kernel) \<Rightarrow> nat \<Rightarrow> int \<Rightarrow> u32 \<Rightarrow> nat \<Rightarrow> u32 \<Rightarrow> 'h kernel \<Rightarrow> u32 \<times> 'h kernel" where
  "read_loop notify i pd fill 0 got_so_far k = (got_so_far, k)"
| "read_loop notify i pd fill (Suc n) got_so_far k =
     (if \<not> got_so_far < fill then (got_so_far, k)
      else
        let chunk = (if fill - got_so_far > 128 then 128 else fill - got_so_far)
        in case pipe_read notify pd chunk k of (got, tmp, k) \<Rightarrow>
             if got \<le> 0 then (got_so_far, k)
             else case proc_user_ptr i (p_blk_ptr (procs k ! i) + got_so_far) k of (dst, k) \<Rightarrow>
               let k = (if dst \<noteq> NULL then phys_upd (store_bytes dst tmp) k else k)
               in read_loop notify i pd fill n (got_so_far + word_of_int got) k)"

definition reader_done :: "nat \<Rightarrow> u32 \<Rightarrow> 'h kernel \<Rightarrow> 'h kernel" where
  "reader_done i eax k =
     upd_proc i (\<lambda>p. p\<lparr>p_eax := eax, p_wait_kind := PROC_WAIT_NONE, p_state := PROC_READY\<rparr>) k"

text \<open>A character is taken only when there is one, so \<^verbatim>\<open>keyboard_getchar\<close> does not wait.\<close>

definition proc_read_check :: "(int \<Rightarrow> 'h kernel \<Rightarrow> 'h kernel) \<Rightarrow> nat \<Rightarrow> 'h kernel \<Rightarrow> 'h kernel" where
  "proc_read_check notify i k =
     (let p = procs k ! i
      in if p_fd_state p = 0 \<or> p_blk_ptr p = 0 \<or> p_blk_len p \<le> 0 \<or> p_blk_fd p < 0 then k
         else
           let kind = user_fd_state_kind (p_fd_state p) (p_blk_fd p) k
           in if kind = Some USER_FD_PIPE_READ
              then
                let pd = user_fd_state_pipe (p_fd_state p) (p_blk_fd p) k
                in if pd < 0 \<or> \<not> pipe_valid pd k then reader_done i (- 9) k
                   else
                     let fill = pipe_fill pd k
                     in if fill = 0 \<and> pipe_writers pd k > 0 then k
                        else
                          let want = word_of_int (p_blk_len p);
                              fill = (if fill > want then want else fill)
                          in case read_loop notify i pd fill (unat fill) 0 k of (n, k) \<Rightarrow> reader_done i n k
              else if kind = Some USER_FD_STDIN \<or> kind = Some USER_FD_DEV_CONSOLE
              then
                if \<not> keyboard_haschar k then k
                else case kbd_ring_get k of (c, k) \<Rightarrow>
                  case proc_user_ptr i (p_blk_ptr p) k of (dst, k) \<Rightarrow>
                    let k = (if dst \<noteq> NULL then phys_upd (store_bytes dst [c]) k else k)
                    in reader_done i 1 k
              else k)"

definition wake_reader :: "(int \<Rightarrow> 'h kernel \<Rightarrow> 'h kernel) \<Rightarrow> nat \<Rightarrow> 'h kernel \<Rightarrow> 'h kernel" where
  "wake_reader notify i k =
     (if blocked_in PROC_WAIT_READ (procs k ! i) then proc_read_check notify i k else k)"

definition proc_wake_readers :: "(int \<Rightarrow> 'h kernel \<Rightarrow> 'h kernel) \<Rightarrow> 'h kernel \<Rightarrow> 'h kernel" where
  "proc_wake_readers notify k = fold (wake_reader notify) [0..<PROC_MAX] k"

section \<open>Notification\<close>

fun notify_depth :: "nat \<Rightarrow> int \<Rightarrow> 'h kernel \<Rightarrow> 'h kernel" where
  "notify_depth 0 pipe_id k = k"
| "notify_depth (Suc n) pipe_id k = proc_wake_readers (notify_depth n) (proc_wake_pollers k)"

definition queued_bytes :: "'h kernel \<Rightarrow> nat" where
  "queued_bytes k = sum_list (map (\<lambda>p. unat (count p)) (pipes k))"

definition proc_notify_pipe :: "int \<Rightarrow> 'h kernel \<Rightarrow> 'h kernel" where
  "proc_notify_pipe pipe_id k = notify_depth (Suc (queued_bytes k)) pipe_id k"

definition proc_notify_console :: "'h kernel \<Rightarrow> 'h kernel" where
  "proc_notify_console k = proc_wake_readers proc_notify_pipe (proc_wake_pollers k)"

section \<open>What a wakeup changes\<close>

text \<open>Memory, the positions of the rings and, of a sleeping process, its result and its state.\<close>

definition sleepless :: "proc_t \<Rightarrow> proc_t" where
  "sleepless p = p\<lparr>p_eax := 0, p_wait_kind := PROC_WAIT_NONE, p_blk_has_deadline := False, p_state := PROC_FREE\<rparr>"

definition woken :: "proc_t \<Rightarrow> proc_t \<Rightarrow> bool" where
  "woken p p' \<longleftrightarrow> sleepless p' = sleepless p \<and>
     (p_state p' = p_state p \<or> p_state p = PROC_BLOCKED \<and> p_state p' = PROC_READY)"

definition ring_moved :: "pipe_t \<Rightarrow> pipe_t \<Rightarrow> bool" where
  "ring_moved p p' \<longleftrightarrow> used p' = used p \<and> writers p' = writers p \<and> count p' \<le> count p"

definition wake_frame :: "'h kernel \<Rightarrow> 'h kernel \<Rightarrow> bool" where
  "wake_frame k k' \<longleftrightarrow> k'\<lparr>k_mm := k_mm k, procs := procs k, pipes := pipes k, kbd_tail := kbd_tail k\<rparr> = k \<and>
     list_all2 woken (procs k) (procs k') \<and> list_all2 ring_moved (pipes k) (pipes k')"

lemma woken_refl [simp]: "woken p p"
  by (simp add: woken_def)

lemma woken_trans: "woken p q \<Longrightarrow> woken q r \<Longrightarrow> woken p r"
  by (auto simp: woken_def)

lemma ring_moved_refl [simp]: "ring_moved p p"
  by (simp add: ring_moved_def)

lemma ring_moved_trans: "ring_moved p q \<Longrightarrow> ring_moved q r \<Longrightarrow> ring_moved p r"
  by (auto simp: ring_moved_def)

lemma wake_frame_refl [simp]: "wake_frame k k"
  by (simp add: wake_frame_def list_all2_same)

lemma wake_frame_trans: "wake_frame a b \<Longrightarrow> wake_frame b c \<Longrightarrow> wake_frame a c"
proof -
  assume ab: "wake_frame a b" and bc: "wake_frame b c"
  have "c\<lparr>k_mm := k_mm a, procs := procs a, pipes := pipes a, kbd_tail := kbd_tail a\<rparr> =
      c\<lparr>k_mm := k_mm b, procs := procs b, pipes := pipes b, kbd_tail := kbd_tail b\<rparr>
       \<lparr>k_mm := k_mm a, procs := procs a, pipes := pipes a, kbd_tail := kbd_tail a\<rparr>" by simp
  also have "\<dots> = a" using ab bc by (simp add: wake_frame_def)
  moreover have "list_all2 woken (procs a) (procs c)"
    using ab bc by (auto simp: wake_frame_def intro: list_all2_trans [of woken woken woken, OF woken_trans])
  moreover have "list_all2 ring_moved (pipes a) (pipes c)"
    using ab bc by (auto simp: wake_frame_def intro: list_all2_trans [of ring_moved ring_moved ring_moved, OF ring_moved_trans])
  ultimately show ?thesis by (simp add: wake_frame_def)
qed

lemma fold_frame:
  assumes "\<And>i k. wake_frame k (f i k)"
  shows "wake_frame k (fold f is k)"
proof (induction "is" arbitrary: k)
  case (Cons i "is")
  show ?case using wake_frame_trans [OF assms [of k i] Cons] by simp
qed simp

lemma wake_frame_mm: "wake_frame k (k\<lparr>k_mm := m\<rparr>)"
  by (simp add: wake_frame_def list_all2_same)

lemma wake_frame_call: "wake_frame k (snd (mm_call f k))"
  by (simp add: mm_call_def split_beta wake_frame_mm)

lemma wake_frame_phys: "wake_frame k (phys_upd f k)"
  by (simp add: phys_upd_def mm_upd_def wake_frame_mm)

lemma wake_frame_ptr: "wake_frame k (snd (proc_user_ptr i a k))"
  by (simp add: proc_user_ptr_def Let_def split_beta wake_frame_call)

lemma wake_frame_len: "wake_frame k k' \<Longrightarrow> length (procs k') = length (procs k) \<and> length (pipes k') = length (pipes k)"
  by (auto simp: wake_frame_def dest: list_all2_lengthD)

lemma wake_frame_proc: "wake_frame k k' \<Longrightarrow> i < length (procs k) \<Longrightarrow> woken (procs k ! i) (procs k' ! i)"
  by (simp add: wake_frame_def list_all2_nthD)

text \<open>Waking a process that was asleep to begin with.\<close>

lemma wake_frame_wake:
  assumes "wake_frame k k'" and "p_state (procs k ! i) = PROC_BLOCKED"
    and "\<And>p. sleepless (g p) = sleepless p \<and> p_state (g p) = PROC_READY"
  shows "wake_frame k (upd_proc i g k')"
proof -
  have "list_all2 woken (procs k) (procs (upd_proc i g k'))"
  proof (rule list_all2_all_nthI)
    show "length (procs k) = length (procs (upd_proc i g k'))" using wake_frame_len [OF assms(1)] by (simp add: upd_proc_def)
    fix j assume j: "j < length (procs k)"
    have w: "woken (procs k ! j) (procs k' ! j)" by (rule wake_frame_proc [OF assms(1) j])
    show "woken (procs k ! j) (procs (upd_proc i g k') ! j)"
    proof (cases "j = i")
      case True
      then show ?thesis using w j assms(2) assms(3) [of "procs k' ! i"] wake_frame_len [OF assms(1)]
        by (simp add: upd_proc_def woken_def)
    next
      case False
      then show ?thesis using w by (simp add: upd_proc_def)
    qed
  qed
  then show ?thesis using assms(1) by (simp add: wake_frame_def upd_proc_def)
qed

lemma queued_mono: "wake_frame k k' \<Longrightarrow> queued_bytes k' \<le> queued_bytes k"
proof -
  assume "wake_frame k k'"
  then have "list_all2 ring_moved (pipes k) (pipes k')" by (simp add: wake_frame_def)
  then show ?thesis unfolding queued_bytes_def
    by (induction rule: list_all2_induct) (auto simp: ring_moved_def word_le_nat_alt intro: add_mono)
qed

lemma poll_entry_frame: "wake_frame k (snd rk) \<Longrightarrow> wake_frame k (snd (poll_entry i n rk))"
  using wake_frame_trans [OF _ wake_frame_trans [OF wake_frame_ptr wake_frame_phys]] wake_frame_trans [OF _ wake_frame_ptr]
  by (auto simp: poll_entry_def split_beta Let_def)

lemma poll_scan_frame: "wake_frame k (snd (proc_poll_scan i k))"
proof -
  have "wake_frame k (snd (fold (poll_entry i) ns rk))" if "wake_frame k (snd rk)" for ns rk
    using that by (induction ns arbitrary: rk) (simp_all add: poll_entry_frame)
  then show ?thesis by (simp add: proc_poll_scan_def Let_def)
qed

lemma sleepless_finish:
  "sleepless (p\<lparr>p_eax := e, p_wait_kind := w, p_blk_has_deadline := d, p_state := st\<rparr>) = sleepless p"
  "sleepless (p\<lparr>p_eax := e, p_wait_kind := w, p_state := st\<rparr>) = sleepless p"
  by (simp_all add: sleepless_def)

lemma poll_finish_frame:
  "wake_frame k k' \<Longrightarrow> p_state (procs k ! i) = PROC_BLOCKED \<Longrightarrow> wake_frame k (proc_poll_finish i r k')"
  unfolding proc_poll_finish_def by (rule wake_frame_wake) (simp_all add: sleepless_finish)

lemma reader_done_frame:
  "wake_frame k k' \<Longrightarrow> p_state (procs k ! i) = PROC_BLOCKED \<Longrightarrow> wake_frame k (reader_done i e k')"
  unfolding reader_done_def by (rule wake_frame_wake) (simp_all add: sleepless_finish)

lemma wake_poller_frame: "wake_frame k (wake_poller i k)"
  by (auto simp: wake_poller_def blocked_in_def split_beta poll_finish_frame poll_scan_frame)

lemma wake_pollers_frame: "wake_frame k (proc_wake_pollers k)"
proof -
  have "wake_frame k (fold wake_poller is k)" for "is"
    by (rule fold_frame) (rule wake_poller_frame)
  then show ?thesis by (simp add: proc_wake_pollers_def)
qed

section \<open>The depth of nested notifications\<close>

definition frames :: "(int \<Rightarrow> 'h kernel \<Rightarrow> 'h kernel) \<Rightarrow> bool" where
  "frames f \<longleftrightarrow> (\<forall>pd k. wake_frame k (f pd k))"

definition agree :: "nat \<Rightarrow> (int \<Rightarrow> 'h kernel \<Rightarrow> 'h kernel) \<Rightarrow> (int \<Rightarrow> 'h kernel \<Rightarrow> 'h kernel) \<Rightarrow> bool" where
  "agree N f g \<longleftrightarrow> (\<forall>pd k. length (pipes k) = 8 \<and> queued_bytes k < N \<longrightarrow> f pd k = g pd k)"

lemma take_moved:
  assumes "pipe_take len p = (out, p')"
  shows "ring_moved p p'" and "unat (count p') + length out = unat (count p)"
    and "length out = min (unat len) (unat (count p))"
proof -
  define l where "l = (if len > count p then count p else len)"
  have l: "l \<le> count p" "unat l = min (unat len) (unat (count p))" by (auto simp: l_def word_less_nat_alt word_le_nat_alt)
  have e: "out = map (\<lambda>i. buf p ((read_pos p + i) mod PIPE_BUF_SIZE)) (u32_range 0 l)"
    "p' = p\<lparr>read_pos := (read_pos p + l) mod PIPE_BUF_SIZE, count := count p - l\<rparr>"
    using assms by (simp_all add: pipe_take_def Let_def l_def [symmetric])
  have len: "length out = unat l" by (simp add: e u32_range_def)
  show "ring_moved p p'" using l(1) by (simp add: ring_moved_def e word_sub_le)
  show "unat (count p') + length out = unat (count p)" using l(1) len by (simp add: e unat_sub word_le_nat_alt)
  show "length out = min (unat len) (unat (count p))" using len l(2) by simp
qed

definition pipe_taken :: "int \<Rightarrow> pipe_t \<Rightarrow> 'h kernel \<Rightarrow> 'h kernel" where
  "pipe_taken pd p k = k\<lparr>pipes := (pipes k)[nat pd := p]\<rparr>"

lemma pipe_read_taken:
  "pipe_read f pd len k = (if \<not> pipe_valid pd k then (- 1, [], k)
     else case pipe_take len (pipes k ! nat pd) of (out, p) \<Rightarrow> (int (length out), out, f pd (pipe_taken pd p k)))"
  by (simp add: pipe_read_def pipe_taken_def)

lemma taken_frame:
  assumes "pipe_take len (pipes k ! nat pd) = (out, p)"
  shows "wake_frame k (pipe_taken pd p k)"
proof -
  have "list_all2 ring_moved (pipes k) ((pipes k)[nat pd := p])"
    using take_moved(1) [OF assms] by (auto simp: list_all2_conv_all_nth) (metis nth_list_update_eq nth_list_update_neq ring_moved_refl)
  then show ?thesis by (simp add: wake_frame_def pipe_taken_def list_all2_same)
qed

lemma taken_queued:
  assumes "pipe_take len (pipes k ! nat pd) = (out, p)" and "nat pd < length (pipes k)"
  shows "queued_bytes (pipe_taken pd p k) + length out = queued_bytes k"
proof -
  define ps where "ps = pipes k"
  have "sum_list (map (\<lambda>p. unat (count p)) (ps[n := p])) + length out = sum_list (map (\<lambda>p. unat (count p)) ps)"
    if "n < length ps" "unat (count p) + length out = unat (count (ps ! n))" for n
    using that
  proof (induction ps arbitrary: n)
    case (Cons q qs)
    then show ?case by (cases n) auto
  qed simp
  then show ?thesis using take_moved(2) [OF assms(1)] assms(2) by (simp add: queued_bytes_def pipe_taken_def ps_def)
qed

lemma pipe_read_frame: "frames f \<Longrightarrow> wake_frame k (snd (snd (pipe_read f pd len k)))"
proof -
  assume f: "frames f"
  obtain out p where t: "pipe_take len (pipes k ! nat pd) = (out, p)" by force
  have "wake_frame k (f pd (pipe_taken pd p k))"
    using wake_frame_trans [OF taken_frame [OF t]] f by (simp add: frames_def)
  then show ?thesis by (simp add: pipe_read_taken t)
qed

lemma copy_frame: "wake_frame k (let (dst, k) = proc_user_ptr i a k in if dst \<noteq> NULL then phys_upd (g dst) k else k)"
  using wake_frame_ptr [of k i a] wake_frame_trans [OF wake_frame_ptr [of k i a] wake_frame_phys] by (simp add: split_beta)

text \<open>One round of the loop, on the state after the bytes have been taken.\<close>

definition deliver_chunk :: "nat \<Rightarrow> u32 \<Rightarrow> u8 list \<Rightarrow> 'h kernel \<Rightarrow> 'h kernel" where
  "deliver_chunk i d tmp k =
     (let (dst, k) = proc_user_ptr i (p_blk_ptr (procs k ! i) + d) k
      in if dst \<noteq> NULL then phys_upd (store_bytes dst tmp) k else k)"

lemma deliver_chunk_frame: "wake_frame k (deliver_chunk i d tmp k)"
  unfolding deliver_chunk_def by (rule copy_frame)

lemma read_loop_Suc:
  "read_loop f i pd fill (Suc n) d k =
     (if \<not> d < fill then (d, k)
      else case pipe_read f pd (if fill - d > 128 then 128 else fill - d) k of (got, tmp, k) \<Rightarrow>
        if got \<le> 0 then (d, k) else read_loop f i pd fill n (d + word_of_int got) (deliver_chunk i d tmp k))"
  by (simp add: deliver_chunk_def Let_def split_beta)

declare read_loop.simps(2) [simp del]

lemma read_loop_frame: "frames f \<Longrightarrow> wake_frame k (snd (read_loop f i pd fill n d k))"
proof (induction n arbitrary: d k)
  case (Suc n)
  obtain got tmp k1 where r: "pipe_read f pd (if fill - d > 128 then 128 else fill - d) k = (got, tmp, k1)" by (metis prod_cases3)
  have k1: "wake_frame k k1" using pipe_read_frame [OF Suc.prems, of k pd "if fill - d > 128 then 128 else fill - d"] r by simp
  have "wake_frame k (snd (read_loop f i pd fill n (d + word_of_int got) (deliver_chunk i d tmp k1)))"
    by (rule wake_frame_trans [OF k1 wake_frame_trans [OF deliver_chunk_frame Suc.IH [OF Suc.prems]]])
  then show ?case using k1 r by (simp add: read_loop_Suc)
qed simp

lemma pipe_read_agree:
  assumes "frames g" "agree N f g" and "length (pipes k) = 8"
    and "queued_bytes k < N \<or> queued_bytes k \<le> N \<and> 0 < len \<and> 0 < pipe_fill pd k"
  shows "pipe_read f pd len k = pipe_read g pd len k"
    and "pipe_read g pd len k = (got, tmp, k1) \<Longrightarrow> pipe_valid pd k \<Longrightarrow> queued_bytes k1 < N"
proof -
  obtain out p where t: "pipe_take len (pipes k ! nat pd) = (out, p)" by force
  have less: "queued_bytes (pipe_taken pd p k) < N" if v: "pipe_valid pd k"
  proof (cases "queued_bytes k < N")
    case True
    then show ?thesis using queued_mono [OF taken_frame [OF t]] by simp
  next
    case False
    then have a: "queued_bytes k \<le> N" "nat pd < length (pipes k)" "0 < len" "0 < count (pipes k ! nat pd)"
      using assms(3,4) v by (auto simp: pipe_fill_def pipe_valid_def PIPE_MAX_def)
    then have "0 < length out" using take_moved(3) [OF t] by (simp add: unat_gt_0 word_gt_0)
    then show ?thesis using taken_queued [OF t a(2)] a(1) by linarith
  qed
  then have "f pd (pipe_taken pd p k) = g pd (pipe_taken pd p k)" if "pipe_valid pd k"
    using assms(2,3) that by (simp add: agree_def pipe_taken_def)
  then show "pipe_read f pd len k = pipe_read g pd len k" by (simp add: pipe_read_taken t)
  show "queued_bytes k1 < N" if "pipe_read g pd len k = (got, tmp, k1)" "pipe_valid pd k"
  proof -
    have "k1 = g pd (pipe_taken pd p k)" using that by (simp add: pipe_read_taken t)
    then show ?thesis using queued_mono [of "pipe_taken pd p k" k1] assms(1) less [OF that(2)] by (simp add: frames_def)
  qed
qed

lemma read_loop_agree:
  assumes "frames g" "agree N f g" "length (pipes k) = 8" "queued_bytes k < N"
  shows "read_loop f i pd fill n d k = read_loop g i pd fill n d k"
  using assms(3,4)
proof (induction n arbitrary: d k)
  case (Suc n)
  let ?len = "if fill - d > 128 then 128 else fill - d"
  obtain got tmp k1 where r: "pipe_read g pd ?len k = (got, tmp, k1)" by (metis prod_cases3)
  have eq: "pipe_read f pd ?len k = (got, tmp, k1)" using pipe_read_agree(1) [OF assms(1,2)] Suc.prems r by simp
  have "wake_frame k (deliver_chunk i d tmp k1)"
    using wake_frame_trans [OF _ deliver_chunk_frame] pipe_read_frame [OF assms(1), of k pd ?len] r by simp
  then have "queued_bytes (deliver_chunk i d tmp k1) < N" "length (pipes (deliver_chunk i d tmp k1)) = 8"
    using queued_mono wake_frame_len Suc.prems le_less_trans by (blast, metis)
  then show ?case using r eq Suc.IH by (simp add: read_loop_Suc)
qed simp

lemma read_loop_first:
  assumes "frames g" "agree N f g" "queued_bytes k \<le> N" "length (pipes k) = 8" "pipe_valid pd k"
    and "fill \<le> pipe_fill pd k"
  shows "read_loop f i pd fill (unat fill) 0 k = read_loop g i pd fill (unat fill) 0 k"
proof (cases "unat fill")
  case (Suc n)
  let ?len = "if fill > 128 then 128 else fill :: u32"
  have pos: "0 < fill" using Suc by (simp add: word_gt_0 unat_eq_zero [symmetric])
  then have len: "0 < ?len" "0 < pipe_fill pd k" using assms(6) by auto
  obtain got tmp k1 where r: "pipe_read g pd ?len k = (got, tmp, k1)" by (metis prod_cases3)
  note ag = pipe_read_agree [OF assms(1,2), of k ?len pd]
  have eq: "pipe_read f pd ?len k = (got, tmp, k1)" using ag(1) assms(3,4) len r by simp
  have "queued_bytes k1 < N" by (rule ag(2) [OF assms(4) _ r assms(5)]) (use assms(3) len in simp)
  then have "queued_bytes (deliver_chunk i 0 tmp k1) < N" using queued_mono [OF deliver_chunk_frame] le_less_trans by blast
  moreover have "wake_frame k (deliver_chunk i 0 tmp k1)"
    using wake_frame_trans [OF _ deliver_chunk_frame] pipe_read_frame [OF assms(1), of k pd ?len] r by simp
  then have "length (pipes (deliver_chunk i 0 tmp k1)) = 8" using wake_frame_len assms(4) by metis
  ultimately show ?thesis using r eq Suc read_loop_agree [OF assms(1,2)] by (cases "128 < fill") (simp_all add: read_loop_Suc)
qed simp

lemma read_check_frame:
  assumes "frames f" and "p_state (procs k ! i) = PROC_BLOCKED"
  shows "wake_frame k (proc_read_check f i k)"
proof -
  have "wake_frame k (reader_done i (fst rk) (snd rk))" if "wake_frame k (snd rk)" for rk :: "u32 \<times> 'a kernel"
    by (rule reader_done_frame [OF that assms(2)])
  note fin = this [OF read_loop_frame [OF assms(1)]]
  define k1 where "k1 = snd (kbd_ring_get k)"
  have "wake_frame k k1" by (simp add: k1_def kbd_ring_get_def wake_frame_def list_all2_same)
  then have con: "wake_frame k (reader_done i 1 (let (dst, k) = proc_user_ptr i a k1
      in if dst \<noteq> NULL then phys_upd (store_bytes dst [c]) k else k))" for a c
    by (intro reader_done_frame [OF _ assms(2)]) (rule wake_frame_trans [OF _ copy_frame])
  then show ?thesis
    using fin reader_done_frame [OF wake_frame_refl assms(2)] unfolding k1_def
    by (simp add: proc_read_check_def Let_def split_beta)
qed

lemma wake_reader_frame: "frames f \<Longrightarrow> wake_frame k (wake_reader f i k)"
  by (simp add: wake_reader_def blocked_in_def read_check_frame)

lemma wake_readers_frame: "frames f \<Longrightarrow> wake_frame k (proc_wake_readers f k)"
  unfolding proc_wake_readers_def by (rule fold_frame) (rule wake_reader_frame)

lemma read_check_agree:
  assumes "frames g" "agree N f g" "queued_bytes k \<le> N" "length (pipes k) = 8"
  shows "proc_read_check f i k = proc_read_check g i k"
proof -
  have "read_loop f i pd (if fill > want then want else fill) (unat (if fill > want then want else fill)) 0 k =
      read_loop g i pd (if fill > want then want else fill) (unat (if fill > want then want else fill)) 0 k"
    if "pipe_valid pd k" "fill = pipe_fill pd k" for pd fill and want :: u32
    by (rule read_loop_first [OF assms(1-3)]) (use that assms(4) in \<open>auto simp: pipe_valid_def PIPE_MAX_def\<close>)
  then show ?thesis by (simp add: proc_read_check_def Let_def)
qed

lemma wake_readers_agree:
  assumes "frames g" "agree N f g" "queued_bytes k \<le> N" "length (pipes k) = 8"
  shows "proc_wake_readers f k = proc_wake_readers g k"
proof -
  have "fold (wake_reader f) is k = fold (wake_reader g) is k" for "is"
    using assms(3,4)
  proof (induction "is" arbitrary: k)
    case (Cons i "is")
    have eq: "wake_reader f i k = wake_reader g i k"
      using read_check_agree [OF assms(1,2) Cons.prems] by (simp add: wake_reader_def)
    have fr: "wake_frame k (wake_reader g i k)" by (rule wake_reader_frame [OF assms(1)])
    show ?case using Cons.IH [of "wake_reader g i k"] queued_mono [OF fr] wake_frame_len [OF fr] Cons.prems eq by simp
  qed simp
  then show ?thesis by (simp add: proc_wake_readers_def)
qed

lemma notify_depth_frames: "frames (notify_depth n)"
proof (induction n)
  case (Suc n)
  show ?case unfolding frames_def using wake_frame_trans [OF wake_pollers_frame wake_readers_frame [OF Suc]] by simp
qed (simp add: frames_def)

lemma notify_depth_enough:
  fixes k :: "'a kernel"
  assumes "length (pipes k) = 8" and "queued_bytes k < n" and "queued_bytes k < m"
  shows "notify_depth n pd k = notify_depth m pd k"
  using assms
proof (induction n arbitrary: m k pd)
  case (Suc n)
  then obtain m' where m: "m = Suc m'" by (cases m) auto
  have fr: "wake_frame k (proc_wake_pollers k)" by (rule wake_pollers_frame)
  have len: "length (pipes (proc_wake_pollers k)) = 8" "queued_bytes (proc_wake_pollers k) \<le> queued_bytes k"
    using wake_frame_len [OF fr] queued_mono [OF fr] Suc.prems by simp_all
  have "agree (queued_bytes k) (notify_depth n :: int \<Rightarrow> 'a kernel \<Rightarrow> 'a kernel) (notify_depth m')"
    unfolding agree_def by (intro allI impI Suc.IH) (use Suc.prems m in auto)
  then show ?case using wake_readers_agree [OF notify_depth_frames _ len(2,1)] m by simp
qed simp

lemma notify_frames: "frames proc_notify_pipe"
  using notify_depth_frames [unfolded frames_def] unfolding frames_def proc_notify_pipe_def by blast

text \<open>The bound on the nesting is never reached: the notification is the recursion of the source.\<close>

lemma proc_notify_pipe_eq:
  assumes "length (pipes k) = 8"
  shows "proc_notify_pipe pd k = proc_wake_readers proc_notify_pipe (proc_wake_pollers k)"
proof -
  have fr: "wake_frame k (proc_wake_pollers k)" by (rule wake_pollers_frame)
  have len: "length (pipes (proc_wake_pollers k)) = 8" "queued_bytes (proc_wake_pollers k) \<le> queued_bytes k"
    using wake_frame_len [OF fr] queued_mono [OF fr] assms by simp_all
  have ag: "agree (queued_bytes k) (notify_depth (queued_bytes k)) proc_notify_pipe"
    unfolding agree_def proc_notify_pipe_def by (intro allI impI notify_depth_enough) auto
  from wake_readers_agree [OF notify_frames ag len(2,1)] show ?thesis by (simp add: proc_notify_pipe_def)
qed

end
