(* ===== verification/Proc.thy ===== *)
theory Proc
  imports Wakeup
begin

text \<open>
  The process table of \<^verbatim>\<open>src/proc.c\<close>: address spaces and descriptor tables with their reference counts,
  allocation and reaping, the round-robin scheduler that rewrites the interrupt frame, and blocking.
  \<open>None\<close> stands for a call that does not return; a call that leaves user mode for good, through
  \<^verbatim>\<open>user_return_to_kernel\<close>, ends in \<open>Shell\<close>.
\<close>

datatype ('r, 's) flow = Back 'r 's | Shell 's

section \<open>Address spaces\<close>

definition kernel_stack_pages :: u32 where
  "kernel_stack_pages = (TSS_KERNEL_STACK_PAGES * 4096) div PAGE_SIZE"

definition set_space :: "u32 \<Rightarrow> proc_space_t \<Rightarrow> 'h kernel \<Rightarrow> 'h kernel" where
  "set_space a sp k = k\<lparr>spaces := (spaces k)(a := sp)\<rparr>"

definition proc_space_unref :: "u32 \<Rightarrow> 'h kernel \<Rightarrow> 'h kernel option" where
  "proc_space_unref s k =
     (if s = 0 then Some k
      else
        let sp = spaces k s
        in if sp_refs sp > 1 then Some (set_space s (sp\<lparr>sp_refs := sp_refs sp - 1\<rparr>) k)
           else
             let k = (if sp_pd_phys sp \<noteq> 0 then mm_upd (mm_user_release_pages (sp_pd_phys sp)) k else k);
                 k = (if sp_pd_phys sp \<noteq> 0 then mm_upd (mm_free_user_pd (sp_pd_phys sp)) k else k);
                 k = (if sp_tramp_phys sp \<noteq> 0 then mm_upd (mm_free_page (sp_tramp_phys sp)) k else k)
             in mm_free_try (kfree s) k)"

text \<open>\<^verbatim>\<open>mov eax, 173; int 0x80\<close>\<close>

definition write_sig_trampoline :: "u32 \<Rightarrow> 'h kernel \<Rightarrow> 'h kernel" where
  "write_sig_trampoline phys k =
     phys_upd (\<lambda>m. store_bytes phys [0xB8, 173, 0, 0, 0, 0xCD, 0x80] (memset phys 0 PAGE_SIZE m)) k"

definition zero_space :: proc_space_t where
  "zero_space = \<lparr>sp_mem = 0, sp_mem_pages = 0, sp_pd_phys = 0, sp_tramp_phys = 0, sp_refs = 0\<rparr>"

definition SPACE_SIZE :: u32 where "SPACE_SIZE = 20"

text \<open>The last lines of \<^verbatim>\<open>proc_space_alloc\<close> and \<^verbatim>\<open>proc_space_cow\<close>: one owner, cached in the process.\<close>

definition adopt_space :: "nat \<Rightarrow> u32 \<Rightarrow> proc_space_t \<Rightarrow> 'h kernel \<Rightarrow> 'h kernel" where
  "adopt_space i s sp k =
     upd_proc i (\<lambda>p. p\<lparr>p_space := s, p_mem := sp_mem sp, p_mem_pages := sp_mem_pages sp, p_pd_phys := sp_pd_phys sp\<rparr>)
       (set_space s (sp\<lparr>sp_refs := 1\<rparr>) k)"

definition proc_space_alloc :: "nat \<Rightarrow> 'h kernel \<Rightarrow> (bool \<times> 'h kernel) option" where
  "proc_space_alloc i k =
     (if p_space (procs k ! i) \<noteq> 0 then Some (True, k)
      else do {
        (s, k) \<leftarrow> mm_try (kmalloc SPACE_SIZE) k;
        if s = 0 then Some (False, k)
        else do {
          let n = USER_SIZE div PAGE_SIZE;
          (mem, k) \<leftarrow> mm_try (mm_alloc_pages n) k;
          if mem = 0 then do { k \<leftarrow> mm_free_try (kfree s) k; Some (False, k) }
          else do {
            let (tramp, k) = mm_call mm_alloc_page k;
            if tramp = 0
            then do { k \<leftarrow> mm_free_try (kfree s) (mm_upd (mm_free_pages mem n) k); Some (False, k) }
            else do {
              let k = write_sig_trampoline tramp k;
              let (pd, k) = mm_call (mm_create_user_pd mem tramp) k;
              if pd = 0
              then do {
                k \<leftarrow> mm_free_try (kfree s) (mm_upd (mm_free_pages mem n) (mm_upd (mm_free_page tramp) k));
                Some (False, k) }
              else Some (True, adopt_space i s (zero_space\<lparr>sp_mem := mem, sp_mem_pages := n, sp_pd_phys := pd,
                     sp_tramp_phys := tramp\<rparr>) k) } } } })"

definition proc_space_cow :: "nat \<Rightarrow> nat \<Rightarrow> 'h kernel \<Rightarrow> (bool \<times> 'h kernel) option" where
  "proc_space_cow child parent k =
     (if p_space (procs k ! parent) = 0 then Some (False, k)
      else do {
        (s, k) \<leftarrow> mm_try (kmalloc SPACE_SIZE) k;
        if s = 0 then Some (False, k)
        else do {
          let pp = procs k ! parent;
          let (tramp, k) = mm_call mm_alloc_page k;
          if tramp = 0 then do { k \<leftarrow> mm_free_try (kfree s) k; Some (False, k) }
          else do {
            let k = write_sig_trampoline tramp k;
            let (pd, k) = mm_call (mm_clone_user_pd (p_pd_phys pp) tramp) k;
            if pd = 0
            then do { k \<leftarrow> mm_free_try (kfree s) (mm_upd (mm_free_page tramp) k); Some (False, k) }
            else do {
              let k = mm_upd (share_space pd (p_pd_phys pp)) k;
              Some (True, adopt_space child s (zero_space\<lparr>sp_mem := p_mem pp, sp_mem_pages := p_mem_pages pp,
                sp_pd_phys := pd, sp_tramp_phys := tramp\<rparr>) k) } } } })"

definition proc_detach_current :: "'h kernel \<Rightarrow> bool \<times> 'h kernel" where
  "proc_detach_current k =
     (case current_proc k of
        None \<Rightarrow> (False, k)
      | Some i \<Rightarrow> if p_pd_phys (procs k ! i) = 0 then (False, k)
                  else mm_call (mm_user_detach_pages (p_pd_phys (procs k ! i))) k)"

definition proc_space_share :: "nat \<Rightarrow> nat \<Rightarrow> 'h kernel \<Rightarrow> bool \<times> 'h kernel" where
  "proc_space_share child parent k =
     (let pp = procs k ! parent; s = p_space pp
      in if s = 0 then (False, k)
         else (True, upd_proc child (\<lambda>p. p\<lparr>p_space := s, p_mem := p_mem pp, p_mem_pages := p_mem_pages pp,
                 p_pd_phys := p_pd_phys pp\<rparr>) (set_space s ((spaces k s)\<lparr>sp_refs := sp_refs (spaces k s) + 1\<rparr>) k)))"

section \<open>Saved descriptor tables\<close>

definition proc_fdstate_alloc :: "nat \<Rightarrow> 'h kernel \<Rightarrow> (bool \<times> 'h kernel) option" where
  "proc_fdstate_alloc i k =
     (if p_fd_state (procs k ! i) \<noteq> 0 then Some (True, k)
      else if user_fd_state_bytes = 0 then Some (False, k)
      else do {
        (h, k) \<leftarrow> mm_try (kmalloc (4 + user_fd_state_bytes)) k;
        if h = 0 then Some (False, k)
        else Some (True, upd_proc i (\<lambda>p. p\<lparr>p_fd_state := h + 4\<rparr>) (set_fdstate h ((fdstates k h)\<lparr>fds_refs := 1\<rparr>) k)) })"

definition proc_fdstate_share :: "nat \<Rightarrow> nat \<Rightarrow> 'h kernel \<Rightarrow> bool \<times> 'h kernel" where
  "proc_fdstate_share child parent k =
     (let pp = procs k ! parent; h = p_fd_state pp - 4
      in if p_fd_state pp = 0 then (False, k)
         else (True, upd_proc child (\<lambda>p. p\<lparr>p_fd_state := p_fd_state pp, p_fds_retained := p_fds_retained pp\<rparr>)
                 (set_fdstate h ((fdstates k h)\<lparr>fds_refs := fds_refs (fdstates k h) + 1\<rparr>) k)))"

definition proc_fdstate_free :: "'h ports \<Rightarrow> nat \<Rightarrow> 'h kernel \<Rightarrow> 'h kernel option" where
  "proc_fdstate_free P i k =
     (let p = procs k ! i; h = p_fd_state p - 4
      in if p_fd_state p = 0 then Some k
         else do {
           k \<leftarrow> (if fds_refs (fdstates k h) > 1
                then Some (set_fdstate h ((fdstates k h)\<lparr>fds_refs := fds_refs (fdstates k h) - 1\<rparr>) k)
                else mm_free_try (kfree h)
                       (if p_fds_retained p then user_fd_state_release P proc_notify_pipe (p_fd_state p) k else k));
           Some (upd_proc i (\<lambda>p. p\<lparr>p_fd_state := 0\<rparr>) k) })"

section \<open>The table\<close>

text \<open>\<^verbatim>\<open>strncpy\<close> of at most \<open>n\<close> characters into an array whose last byte stays zero.\<close>

definition str_field :: "nat \<Rightarrow> u8 list \<Rightarrow> u8 list" where
  "str_field n s = (case strncpy (s @ [0]) n of Some bs \<Rightarrow> bs @ [0] | None \<Rightarrow> [])"

definition proc_init :: "'h kernel \<Rightarrow> 'h kernel" where
  "proc_init k =
     (let kname = [0x6B, 0x65, 0x72, 0x6E, 0x65, 0x6C];
          p = zero_proc\<lparr>p_used := True, p_pid := 1, p_tgid := 1, p_ppid := 0, p_state := PROC_RUNNING, p_exit_code := 0,
                p_name := str_field (PROC_NAME_MAX - 1) kname, p_cmdline := str_field (PROC_CMDLINE_MAX - 1) kname\<rparr>
      in k\<lparr>procs := p # replicate (PROC_MAX - 1) zero_proc, next_pid := 2, current_proc := Some 0\<rparr>)"

definition proc_current :: "'h kernel \<Rightarrow> nat option" where
  "proc_current k = current_proc k"

definition proc_set_current :: "nat option \<Rightarrow> 'h kernel \<Rightarrow> 'h kernel" where
  "proc_set_current p k = k\<lparr>current_proc := p\<rparr>"

definition proc_find :: "u32 \<Rightarrow> 'h kernel \<Rightarrow> nat option" where
  "proc_find pid k = find_idx (\<lambda>p. p_used p \<and> p_pid p = pid) (procs k)"

definition proc_get_index :: "int \<Rightarrow> 'h kernel \<Rightarrow> nat option" where
  "proc_get_index idx k =
     (let us = filter (\<lambda>i. p_used (procs k ! i)) [0..<PROC_MAX]
      in if 0 \<le> idx \<and> idx < int (length us) then Some (us ! nat idx) else None)"

definition proc_count :: "'h kernel \<Rightarrow> nat" where
  "proc_count k = length (filter p_used (procs k))"

definition proc_alloc :: "u8 list option \<Rightarrow> u32 \<Rightarrow> 'h kernel \<Rightarrow> (nat option \<times> 'h kernel) option" where
  "proc_alloc name ppid k =
     (case find_idx (\<lambda>p. \<not> p_used p) (procs k) of
        None \<Rightarrow> Some (None, k)
      | Some i \<Rightarrow> do {
          let nm = (case name of None \<Rightarrow> [0x61, 0x70, 0x70] | Some n \<Rightarrow> n);
          let pid = next_pid k;
          let k = upd_proc i (\<lambda>_. zero_proc\<lparr>p_used := True, p_pid := pid, p_ppid := ppid, p_tgid := pid, p_state := PROC_READY,
                p_start_ticks := pit_get_ticks (k_pit k), p_mem_pages := USER_SIZE div PAGE_SIZE, p_fs_sel := 0x23,
                p_gs_sel := 0x23, p_name := str_field (PROC_NAME_MAX - 1) nm,
                p_cmdline := str_field (PROC_CMDLINE_MAX - 1) nm\<rparr>) (k\<lparr>next_pid := pid + 1\<rparr>);
          (ks, k) \<leftarrow> mm_try (mm_alloc_pages kernel_stack_pages) k;
          if ks = 0 then Some (None, upd_proc i (\<lambda>p. p\<lparr>p_used := False\<rparr>) k)
          else Some (Some i, upd_proc i (\<lambda>p. p\<lparr>p_kstack := ks, p_kstack_top := ks + TSS_KERNEL_STACK_PAGES * 4096\<rparr>) k) })"

definition proc_snapshot_alloc :: "nat \<Rightarrow> 'h kernel \<Rightarrow> (bool \<times> 'h kernel) option" where
  "proc_snapshot_alloc i k = proc_space_alloc i k"

definition proc_snapshot_free :: "nat \<Rightarrow> 'h kernel \<Rightarrow> 'h kernel option" where
  "proc_snapshot_free i k =
     (if p_space (procs k ! i) = 0 then Some k
      else do {
        k \<leftarrow> proc_space_unref (p_space (procs k ! i)) k;
        Some (upd_proc i (\<lambda>p. p\<lparr>p_space := 0, p_mem := 0, p_mem_pages := 0, p_pd_phys := 0\<rparr>) k) })"

definition seg_upd :: "(seg_state \<Rightarrow> seg_state) \<Rightarrow> 'h kernel \<Rightarrow> 'h kernel" where
  "seg_upd f k = k\<lparr>k_seg := f (k_seg k)\<rparr>"

definition proc_switch_space :: "nat option \<Rightarrow> 'h kernel \<Rightarrow> 'h kernel" where
  "proc_switch_space p k =
     (case p of
        Some i \<Rightarrow> if p_pd_phys (procs k ! i) \<noteq> 0
                  then seg_upd (tss_set_esp0 (p_kstack_top (procs k ! i))) (mm_upd (mm_switch_pd (p_pd_phys (procs k ! i))) k)
                  else seg_upd (tss_set_esp0 (tss_get_kernel_stack_top (k_seg k))) (mm_upd (mm_switch_pd 0) k)
      | None \<Rightarrow> seg_upd (tss_set_esp0 (tss_get_kernel_stack_top (k_seg k))) (mm_upd (mm_switch_pd 0) k))"

section \<open>Scheduling\<close>

definition proc_frame_switched :: "'h kernel \<Rightarrow> bool" where
  "proc_frame_switched k = frame_switched k"

definition proc_clear_frame_switched :: "'h kernel \<Rightarrow> 'h kernel" where
  "proc_clear_frame_switched k = k\<lparr>frame_switched := False\<rparr>"

definition runnable :: "proc_t \<Rightarrow> bool" where
  "runnable p \<longleftrightarrow> p_used p \<and> p_pid p \<noteq> 1 \<and> p_state p = PROC_READY \<and> p_has_ctx p"

definition sched_pick_next :: "nat option \<Rightarrow> proc_t list \<Rightarrow> nat option" where
  "sched_pick_next cur ps =
     (let start = (case cur of None \<Rightarrow> 0 | Some i \<Rightarrow> i + 1)
      in find (\<lambda>i. runnable (ps ! i)) (map (\<lambda>n. (start + n) mod PROC_MAX) [0..<PROC_MAX]))"

definition save_ctx :: "registers_t \<Rightarrow> proc_t \<Rightarrow> proc_t" where
  "save_ctx r p = p\<lparr>p_eip := r_eip r, p_esp := r_useresp r, p_eflags := r_eflags r, p_eax := r_eax r, p_ebx := r_ebx r,
     p_ecx := r_ecx r, p_edx := r_edx r, p_esi := r_esi r, p_edi := r_edi r, p_ebp := r_ebp r,
     p_fs_sel := r_fs r AND 0xFFFF, p_gs_sel := r_gs r AND 0xFFFF, p_has_ctx := True\<rparr>"

definition proc_save_ctx :: "nat \<Rightarrow> registers_t \<Rightarrow> 'h kernel \<Rightarrow> 'h kernel" where
  "proc_save_ctx i r k = upd_proc i (save_ctx r) k"

definition proc_save_state :: "nat \<Rightarrow> 'h kernel \<Rightarrow> 'h kernel" where
  "proc_save_state i k =
     (let k = (if p_fd_state (procs k ! i) \<noteq> 0 then user_fd_state_save (p_fd_state (procs k ! i)) k else k);
          k = upd_proc i (\<lambda>p. p\<lparr>p_cwd := copy_name (user_cwd_get k)\<rparr>) k;
          k = (if \<not> p_is_thread (procs k ! i)
               then case user_get_brk_state k of (b, c) \<Rightarrow> upd_proc i (\<lambda>p. p\<lparr>p_brk_base := b, p_brk_cur := c\<rparr>) k else k)
      in case gdt_get_user_tls (k_seg k) of (b, l, f) \<Rightarrow>
           upd_proc i (\<lambda>p. p\<lparr>p_tls_base := b, p_tls_limit := l, p_tls_flags := f\<rparr>) k)"

text \<open>The frame a process resumes with: ring 3, interrupts on, no I/O privilege.\<close>

definition load_regs :: "proc_t \<Rightarrow> registers_t \<Rightarrow> registers_t" where
  "load_regs p r = r\<lparr>r_eip := p_eip p, r_useresp := p_esp p, r_eflags := (p_eflags p OR 0x200) AND NOT 0x3000,
     r_eax := p_eax p, r_ebx := p_ebx p, r_ecx := p_ecx p, r_edx := p_edx p, r_esi := p_esi p, r_edi := p_edi p,
     r_ebp := p_ebp p, r_cs := 0x1B, r_ss := 0x23, r_ds := 0x23, r_es := 0x23,
     r_fs := (if p_fs_sel p \<noteq> 0 then p_fs_sel p else 0x23), r_gs := (if p_gs_sel p \<noteq> 0 then p_gs_sel p else 0x23)\<rparr>"

definition sched_load :: "nat \<Rightarrow> registers_t \<Rightarrow> 'h kernel \<Rightarrow> registers_t \<times> 'h kernel" where
  "sched_load i r k =
     (let k = proc_switch_space (Some i) k;
          p = procs k ! i;
          k = (if p_fd_state p \<noteq> 0 then user_fd_state_restore (p_fd_state p) k else k);
          k = snd (user_cwd_set (Some (cstr (p_cwd p))) k);
          k = (if \<not> p_is_thread p then snd (user_restore_brk_state (p_brk_base p) (p_brk_cur p) k) else k);
          k = seg_upd (gdt_set_user_tls (p_tls_base p) (p_tls_limit p) (p_tls_flags p)) k;
          k = proc_set_current (Some i) k;
          k = upd_proc i (\<lambda>p. p\<lparr>p_state := PROC_RUNNING\<rparr>) k;
          k = user_set_active True k
      in (load_regs p r, k\<lparr>frame_switched := True\<rparr>))"

definition wait_result :: "nat \<Rightarrow> proc_t \<Rightarrow> 'h kernel \<Rightarrow> 'h kernel" where
  "wait_result i child k =
     (let p = procs k ! i; code = word_of_int (p_exit_code child) AND 0xFF
      in if p_wait_kind p = PROC_WAIT_WAIT4
         then
           let k = (if p_wait_status_ptr p \<noteq> 0 then proc_write_user_u32 i (p_wait_status_ptr p) (push_bit 8 code) k else k)
           in upd_proc i (\<lambda>p. p\<lparr>p_eax := p_pid child, p_last_wait_pid := p_pid child\<rparr>) k
         else if p_wait_kind p = PROC_WAIT_WAITID
         then
           let base = p_wait_infop p;
               k = proc_write_user_u32 i base 17 k;
               k = proc_write_user_u32 i (base + 4) 0 k;
               k = proc_write_user_u32 i (base + 8) 1 k;
               k = proc_write_user_u32 i (base + 12) (p_pid child) k;
               k = proc_write_user_u32 i (base + 16) 0 k;
               k = proc_write_user_u32 i (base + 20) code k
           in upd_proc i (\<lambda>p. p\<lparr>p_eax := 0, p_last_wait_pid := p_pid child\<rparr>) k
         else k)"

definition proc_wake_parent :: "nat \<Rightarrow> 'h kernel \<Rightarrow> 'h kernel" where
  "proc_wake_parent c k =
     (let child = procs k ! c
      in case proc_find (p_ppid child) k of
           None \<Rightarrow> k
         | Some i \<Rightarrow>
             let p = procs k ! i
             in if p_state p \<noteq> PROC_BLOCKED then k
                else if p_wait_pid p > 0 \<and> word_of_int (p_wait_pid p) \<noteq> p_pid child then k
                else upd_proc i (\<lambda>p. p\<lparr>p_wait_kind := PROC_WAIT_NONE, p_state := PROC_READY\<rparr>) (wait_result i child k))"

section \<open>Blocking, exit and reaping\<close>

definition proc_exit_current :: "registers_t \<Rightarrow> int \<Rightarrow> bool \<Rightarrow> 'h kernel \<Rightarrow> (registers_t, 'h kernel) flow" where
  "proc_exit_current r code flt k =
     (case current_proc k of
        None \<Rightarrow> Shell (user_set_active False k)
      | Some i \<Rightarrow>
          if p_pid (procs k ! i) = 1 then Shell (user_set_active False k)
          else
            let k = (if p_fd_state (procs k ! i) \<noteq> 0 then user_fd_state_save (p_fd_state (procs k ! i)) k else k);
                k = upd_proc i (\<lambda>p. p\<lparr>p_exit_code := code, p_faulted := flt, p_state := PROC_ZOMBIE, p_has_ctx := False,
                      p_blk_has_deadline := False, p_wait_kind := PROC_WAIT_NONE\<rparr>) k;
                k = proc_wake_parent i (user_set_active False k)
            in case sched_pick_next None (procs k) of
                 Some n \<Rightarrow> (case sched_load n r k of (r, k) \<Rightarrow> Back r k)
               | None \<Rightarrow>
                   let k = proc_set_current (proc_find 1 k) (proc_switch_space None k)
                   in Shell (k\<lparr>esp_save := esp_launch k\<rparr>))"

definition proc_block_current_ext ::
  "registers_t \<Rightarrow> proc_wait_t \<Rightarrow> u32 \<Rightarrow> int \<Rightarrow> u32 \<Rightarrow> bool \<Rightarrow> int \<Rightarrow> 'h kernel \<Rightarrow>
   (bool \<times> registers_t \<times> 'h kernel) option" where
  "proc_block_current_ext r kind ptr len deadline has_deadline fd k =
     (case current_proc k of
        None \<Rightarrow> Some (False, r, k)
      | Some i \<Rightarrow>
          if p_pid (procs k ! i) = 1 then Some (False, r, k)
          else do {
            (ok, k) \<leftarrow> proc_fdstate_alloc i k;
            if \<not> ok then Some (False, r, k)
            else do {
              let waits = (kind = PROC_WAIT_WAIT4 \<or> kind = PROC_WAIT_WAITID);
              let k = proc_save_state i (proc_save_ctx i r k);
              let k = upd_proc i (\<lambda>p. p\<lparr>p_wait_kind := kind, p_wait_pid := (if waits then len else 0),
                    p_wait_status_ptr := (if kind = PROC_WAIT_WAIT4 then ptr else 0),
                    p_wait_infop := (if kind = PROC_WAIT_WAITID then ptr else 0), p_blk_ptr := ptr, p_blk_len := len,
                    p_blk_fd := fd, p_blk_deadline := deadline, p_blk_has_deadline := has_deadline,
                    p_state := PROC_BLOCKED\<rparr>) k;
              let k = user_set_active False k;
              case sched_pick_next (Some i) (procs k) of
                None \<Rightarrow> Some (False, r, user_set_active True (upd_proc i (\<lambda>p. p\<lparr>p_state := PROC_RUNNING,
                          p_wait_kind := PROC_WAIT_NONE, p_blk_has_deadline := False\<rparr>) k))
              | Some n \<Rightarrow> (case sched_load n r k of (r, k) \<Rightarrow> Some (True, r, k)) } })"

definition proc_block_current ::
  "registers_t \<Rightarrow> proc_wait_t \<Rightarrow> int \<Rightarrow> u32 \<Rightarrow> 'h kernel \<Rightarrow> (bool \<times> registers_t \<times> 'h kernel) option" where
  "proc_block_current r kind pid status_ptr k = proc_block_current_ext r kind status_ptr pid 0 False (- 1) k"

definition proc_reap :: "'h ports \<Rightarrow> nat \<Rightarrow> 'h kernel \<Rightarrow> 'h kernel option" where
  "proc_reap P i k =
     (if \<not> p_used (procs k ! i) then Some k
      else do {
        k \<leftarrow> (if p_space (procs k ! i) \<noteq> 0
             then do { k \<leftarrow> proc_space_unref (p_space (procs k ! i)) k; Some (upd_proc i (\<lambda>p. p\<lparr>p_space := 0\<rparr>) k) }
             else Some k);
        let k = upd_proc i (\<lambda>p. p\<lparr>p_mem := 0, p_pd_phys := 0\<rparr>) k;
        k \<leftarrow> proc_fdstate_free P i k;
        let k = (if p_kstack (procs k ! i) \<noteq> 0
                 then mm_upd (mm_free_pages (p_kstack (procs k ! i)) kernel_stack_pages) k else k);
        let k = (if current_proc k = Some i then proc_set_current (proc_find 1 k) k else k);
        Some (upd_proc i (\<lambda>_. zero_proc) k) })"

text \<open>The recursion over the children, as one function of the loop counter \<open>i\<close>.\<close>

partial_function (option) cleanup_from :: "'h ports \<Rightarrow> u32 \<Rightarrow> nat \<Rightarrow> 'h kernel \<Rightarrow> 'h kernel option" where
  "cleanup_from P pid i k =
     (if i \<ge> PROC_MAX then Some k
      else if \<not> p_used (procs k ! i) \<or> p_pid (procs k ! i) = pid \<or> p_ppid (procs k ! i) \<noteq> pid then cleanup_from P pid (i + 1) k
      else do {
        k \<leftarrow> cleanup_from P (p_pid (procs k ! i)) 0 k;
        k \<leftarrow> proc_reap P i k;
        cleanup_from P pid (i + 1) k })"

definition proc_cleanup_children :: "'h ports \<Rightarrow> u32 \<Rightarrow> 'h kernel \<Rightarrow> 'h kernel option" where
  "proc_cleanup_children P pid k = cleanup_from P pid 0 k"

definition proc_state_char :: "proc_t option \<Rightarrow> char" where
  "proc_state_char p =
     (case p of None \<Rightarrow> CHR ''?''
      | Some p \<Rightarrow> (case p_state p of PROC_RUNNING \<Rightarrow> CHR ''R'' | PROC_READY \<Rightarrow> CHR ''S'' | PROC_ZOMBIE \<Rightarrow> CHR ''Z''
                   | _ \<Rightarrow> CHR ''?''))"

end
