(* ===== verification/Signals.thy ===== *)
theory Signals
  imports Proc
begin

text \<open>
  Signals, the timer and exceptions (\<^verbatim>\<open>src/proc.c\<close>, \<^verbatim>\<open>src/isr.c\<close>): sending wakes a sleeper, delivery builds a frame on
  the user stack and redirects the interrupted process to its handler, \<^verbatim>\<open>proc_sigreturn\<close> undoes it; the
  timer interrupt raises alarms, expires polls and preempts; a fault in user mode ends the process.
\<close>

section \<open>Dispositions\<close>

definition proc_sig_default_terminates :: "nat \<Rightarrow> bool" where
  "proc_sig_default_terminates sig \<longleftrightarrow>
     sig \<in> set [1, 2, 3, 4, 5, 6, 7, 8, 9, 10, 11, 12, 13, 14, 15, 16, 24, 25, 26, 27, 29, 30, 31]"

definition proc_signal_reset :: "nat \<Rightarrow> 'h kernel \<Rightarrow> 'h kernel" where
  "proc_signal_reset i k =
     upd_proc i (\<lambda>p. p\<lparr>p_sig_pending := 0, p_sig_blocked := 0, p_sig_depth := 0, p_alarm_tick := 0,
       p_sig_handler := replicate PROC_NSIG PROC_SIG_DFL, p_sig_flags := replicate PROC_NSIG 0,
       p_sig_restorer := replicate PROC_NSIG 0\<rparr>) k"

definition proc_signal_inherit :: "nat \<Rightarrow> nat \<Rightarrow> 'h kernel \<Rightarrow> 'h kernel" where
  "proc_signal_inherit child parent k =
     (let k = proc_signal_reset child k; pp = procs k ! parent
      in upd_proc child (\<lambda>p. p\<lparr>p_sig_handler := p_sig_handler pp, p_sig_flags := p_sig_flags pp,
           p_sig_restorer := p_sig_restorer pp, p_sig_blocked := p_sig_blocked pp\<rparr>) k)"

definition sig_bit :: "nat \<Rightarrow> u32" where
  "sig_bit sig = push_bit sig 1"

definition raise_sig :: "u32 \<Rightarrow> proc_t \<Rightarrow> proc_t" where
  "raise_sig b p = p\<lparr>p_sig_pending := p_sig_pending p OR b\<rparr>"

text \<open>A signal to every process only makes sleepers runnable.\<close>

definition broadcast_one :: "u32 \<Rightarrow> proc_t \<Rightarrow> proc_t" where
  "broadcast_one b p =
     (if \<not> p_used p \<or> p_pid p = 1 \<or> p_state p = PROC_ZOMBIE then p
      else let p = raise_sig b p in if p_state p = PROC_BLOCKED then p\<lparr>p_state := PROC_READY\<rparr> else p)"

text \<open>A signal to one process ends its wait with \<^verbatim>\<open>-EINTR\<close>.\<close>

definition interrupt_wait :: "proc_t \<Rightarrow> proc_t" where
  "interrupt_wait p =
     (if p_state p = PROC_BLOCKED
      then (if p_wait_kind p \<noteq> PROC_WAIT_NONE
            then p\<lparr>p_eax := - 4, p_wait_kind := PROC_WAIT_NONE, p_blk_has_deadline := False\<rparr> else p)\<lparr>p_state := PROC_READY\<rparr>
      else p)"

definition proc_signal_send :: "u32 \<Rightarrow> int \<Rightarrow> 'h kernel \<Rightarrow> int \<times> 'h kernel" where
  "proc_signal_send pid sig k =
     (if sig < 0 \<or> sig \<ge> int PROC_NSIG then (- 22, k)
      else if sig = 0
      then (if pid = 0 \<or> pid = - 1 then 0 else if proc_find pid k \<noteq> None then 0 else - 3, k)
      else
        let b = sig_bit (nat sig)
        in if pid = 0
           then case current_proc k of
                  None \<Rightarrow> (- 3, k)
                | Some i \<Rightarrow> if p_pid (procs k ! i) = 1 then (- 3, k) else (0, upd_proc i (raise_sig b) k)
           else if pid = - 1
           then (if list_ex (\<lambda>p. p_used p \<and> p_pid p \<noteq> 1 \<and> p_state p \<noteq> PROC_ZOMBIE) (procs k) then 0 else - 3,
                 k\<lparr>procs := map (broadcast_one b) (procs k)\<rparr>)
           else case proc_find pid k of
                  None \<Rightarrow> (- 3, k)
                | Some i \<Rightarrow>
                    if p_pid (procs k ! i) = 1 then (- 1, k)
                    else if p_state (procs k ! i) = PROC_ZOMBIE then (0, k)
                    else (0, upd_proc i (\<lambda>p. interrupt_wait (raise_sig b p)) k))"

definition proc_signal_pending :: "'h kernel \<Rightarrow> bool" where
  "proc_signal_pending k \<longleftrightarrow>
     (case current_proc k of None \<Rightarrow> False
      | Some i \<Rightarrow> p_pid (procs k ! i) \<noteq> 1 \<and> p_sig_pending (procs k ! i) AND NOT (p_sig_blocked (procs k ! i)) \<noteq> 0)"

definition proc_signal_set_action :: "nat \<Rightarrow> int \<Rightarrow> u32 \<Rightarrow> u32 \<Rightarrow> u32 \<Rightarrow> 'h kernel \<Rightarrow> u32 \<times> 'h kernel" where
  "proc_signal_set_action i sig handler fl restorer k =
     (if sig \<le> 0 \<or> sig \<ge> int PROC_NSIG then (22, k)
      else if sig = 9 \<or> sig = 19 then (22, k)
      else
        let n = nat sig; old = p_sig_handler (procs k ! i) ! n
        in (old, upd_proc i (\<lambda>p. p\<lparr>p_sig_handler := (p_sig_handler p)[n := handler], p_sig_flags := (p_sig_flags p)[n := fl],
              p_sig_restorer := (p_sig_restorer p)[n := restorer],
              p_sig_pending := (if handler = PROC_SIG_DFL \<or> handler = PROC_SIG_IGN
                                then p_sig_pending p AND NOT (sig_bit n) else p_sig_pending p)\<rparr>) k))"

definition proc_signal_get_action :: "nat \<Rightarrow> int \<Rightarrow> 'h kernel \<Rightarrow> u32 \<times> (u32 \<times> u32) option" where
  "proc_signal_get_action i sig k =
     (if sig \<le> 0 \<or> sig \<ge> int PROC_NSIG then (22, None)
      else let p = procs k ! i; n = nat sig
           in (p_sig_handler p ! n, Some (p_sig_flags p ! n, p_sig_restorer p ! n)))"

section \<open>Delivery\<close>

definition next_signal :: "proc_t \<Rightarrow> nat option" where
  "next_signal p =
     (let ready = p_sig_pending p AND NOT (p_sig_blocked p)
      in find (\<lambda>i. ready AND sig_bit i \<noteq> 0) [1..<PROC_NSIG])"

definition saved_regs :: "registers_t \<Rightarrow> u32 list" where
  "saved_regs r = [r_eax r, r_ebx r, r_ecx r, r_edx r, r_esi r, r_edi r, r_ebp r, r_useresp r, r_eflags r, r_fs r, r_gs r, r_eip r]"

text \<open>The frame on the user stack and the redirection to handler \<open>h\<close>.\<close>

definition push_signal_frame ::
  "nat \<Rightarrow> nat \<Rightarrow> u32 \<Rightarrow> registers_t \<Rightarrow> 'h kernel \<Rightarrow> (registers_t \<times> 'h kernel) option" where
  "push_signal_frame i sig h r k =
     (let base = r_useresp r - 48;
          p = procs k ! i;
          restorer = (if p_sig_flags p ! sig AND 0x04000000 \<noteq> 0 \<and> p_sig_restorer p ! sig \<noteq> 0 then p_sig_restorer p ! sig else 0)
      in do {
        k \<leftarrow> vstore32s base (saved_regs r) k;
        k \<leftarrow> vstore32 (base - 4) (word_of_nat sig) k;
        k \<leftarrow> vstore32 (base - 8) (if restorer \<noteq> 0 then restorer else USER_SIGTRAMP) k;
        let k = upd_proc i (\<lambda>p. p\<lparr>p_sig_frame_sp := (p_sig_frame_sp p)[nat (p_sig_depth p) := base],
              p_sig_depth := p_sig_depth p + 1\<rparr>) k;
        Some (r\<lparr>r_eip := h, r_useresp := base - 8, r_eax := word_of_nat sig\<rparr>, k) })"

text \<open>A killed process either hands the frame to another process or leaves for the shell.\<close>

definition kill_current :: "registers_t \<Rightarrow> int \<Rightarrow> bool \<Rightarrow> 'h kernel \<Rightarrow> (bool \<times> registers_t, 'h kernel) flow" where
  "kill_current r code flt k =
     (case proc_exit_current r code flt k of Back r k \<Rightarrow> Back (True, r) k | Shell k \<Rightarrow> Shell k)"

partial_function (option) deliver_loop ::
  "nat \<Rightarrow> registers_t \<Rightarrow> 'h kernel \<Rightarrow> (bool \<times> registers_t, 'h kernel) flow option" where
  "deliver_loop i r k =
     (case next_signal (procs k ! i) of
        None \<Rightarrow> Some (Back (False, r) k)
      | Some sig \<Rightarrow>
          let k = upd_proc i (\<lambda>p. p\<lparr>p_sig_pending := p_sig_pending p AND NOT (sig_bit sig)\<rparr>) k;
              h = p_sig_handler (procs k ! i) ! sig
          in if h = PROC_SIG_IGN then deliver_loop i r k
             else if h = PROC_SIG_DFL
             then if proc_sig_default_terminates sig then Some (kill_current r (128 + int sig) False k)
                  else deliver_loop i r k
             else if p_sig_depth (procs k ! i) \<ge> int PROC_SIGFRAME_MAX then Some (kill_current r (128 + int sig) True k)
             else if r_useresp r - 48 < USER_BASE \<or> r_useresp r - 48 \<ge> USER_SIGTRAMP
             then Some (kill_current r 139 True k)
             else do { (r, k) \<leftarrow> push_signal_frame i sig h r k; Some (Back (True, r) k) })"

definition proc_signal_deliver :: "registers_t \<Rightarrow> 'h kernel \<Rightarrow> (bool \<times> registers_t, 'h kernel) flow option" where
  "proc_signal_deliver r k =
     (case current_proc k of
        None \<Rightarrow> Some (Back (False, r) k)
      | Some i \<Rightarrow>
          if p_pid (procs k ! i) = 1 then Some (Back (False, r) k)
          else if r_cs r AND 3 \<noteq> 3 then Some (Back (False, r) k)
          else deliver_loop i r k)"

definition restored_regs :: "u32 list \<Rightarrow> registers_t \<Rightarrow> registers_t" where
  "restored_regs f r = r\<lparr>r_eax := f ! 0, r_ebx := f ! 1, r_ecx := f ! 2, r_edx := f ! 3, r_esi := f ! 4, r_edi := f ! 5,
     r_ebp := f ! 6, r_useresp := f ! 7, r_eflags := (f ! 8 OR 0x200) AND NOT 0x3000,
     r_fs := (if f ! 9 \<noteq> 0 then f ! 9 AND 0xFFFF else 0x23), r_gs := (if f ! 10 \<noteq> 0 then f ! 10 AND 0xFFFF else 0x23),
     r_eip := f ! 11, r_cs := 0x1B, r_ss := 0x23, r_ds := 0x23, r_es := 0x23\<rparr>"

definition proc_sigreturn :: "registers_t \<Rightarrow> 'h kernel \<Rightarrow> (bool \<times> registers_t \<times> 'h kernel) option" where
  "proc_sigreturn r k =
     (case current_proc k of
        None \<Rightarrow> Some (False, r, k)
      | Some i \<Rightarrow>
          if p_sig_depth (procs k ! i) \<le> 0 then Some (False, r, k)
          else do {
            let k = upd_proc i (\<lambda>p. p\<lparr>p_sig_depth := p_sig_depth p - 1\<rparr>) k;
            let base = p_sig_frame_sp (procs k ! i) ! nat (p_sig_depth (procs k ! i));
            if base < USER_BASE \<or> base \<ge> USER_SIGTRAMP then Some (False, r, k)
            else do { f \<leftarrow> vload32s base 12 k; Some (True, restored_regs f r, k) } })"

section \<open>The timer\<close>

definition reached :: "u32 \<Rightarrow> u32 \<Rightarrow> bool" where
  "reached now t \<longleftrightarrow> sint (now - t) \<ge> 0"

definition ring_alarm :: "u32 \<Rightarrow> proc_t \<Rightarrow> proc_t" where
  "ring_alarm now p =
     (if p_alarm_tick p \<noteq> 0 \<and> reached now (p_alarm_tick p)
      then
        let p = raise_sig (sig_bit 14) (p\<lparr>p_alarm_tick := 0\<rparr>)
        in if p_state p = PROC_BLOCKED \<and> p_wait_kind p \<noteq> PROC_WAIT_NONE then interrupt_wait p else p
      else p)"

definition tick_one :: "u32 \<Rightarrow> nat \<Rightarrow> 'h kernel \<Rightarrow> 'h kernel" where
  "tick_one now i k =
     (if \<not> p_used (procs k ! i) \<or> p_pid (procs k ! i) = 1 then k
      else
        let k = upd_proc i (ring_alarm now) k; p = procs k ! i
        in if p_state p = PROC_BLOCKED \<and> p_wait_kind p = PROC_WAIT_POLL \<and> p_blk_has_deadline p \<and> reached now (p_blk_deadline p)
           then proc_poll_expire i k else k)"

definition proc_tick_all :: "'h kernel \<Rightarrow> 'h kernel" where
  "proc_tick_all k = fold (tick_one (pit_get_ticks (k_pit k))) [0..<PROC_MAX] k"

text \<open>The preemption itself: the running process goes to the back of the queue.\<close>

definition preempt :: "nat \<Rightarrow> registers_t \<Rightarrow> 'h kernel \<Rightarrow> registers_t \<times> 'h kernel" where
  "preempt i r k =
     (let k = upd_proc i (\<lambda>p. p\<lparr>p_state := PROC_READY\<rparr>) (proc_save_state i (proc_save_ctx i r k))
      in case sched_pick_next (Some i) (procs k) of
           None \<Rightarrow> (r, upd_proc i (\<lambda>p. p\<lparr>p_state := PROC_RUNNING\<rparr>) k)
         | Some n \<Rightarrow> if n = i then (r, upd_proc i (\<lambda>p. p\<lparr>p_state := PROC_RUNNING\<rparr>) k) else sched_load n r k)"

definition proc_sched_tick :: "registers_t \<Rightarrow> 'h kernel \<Rightarrow> (registers_t, 'h kernel) flow option" where
  "proc_sched_tick r k =
     (case current_proc k of
        None \<Rightarrow> Some (Back r k)
      | Some i \<Rightarrow>
          if p_pid (procs k ! i) = 1 \<or> r_cs r AND 3 \<noteq> 3 \<or> p_state (procs k ! i) \<noteq> PROC_RUNNING then Some (Back r k)
          else do {
            (ok, k) \<leftarrow> proc_fdstate_alloc i k;
            if \<not> ok then Some (Back r k)
            else do {
              d \<leftarrow> proc_signal_deliver r k;
              case d of
                Shell k \<Rightarrow> Some (Shell k)
              | Back (changed, r) k \<Rightarrow>
                  if changed \<and> (frame_switched k \<or> current_proc k \<noteq> Some i) then Some (Back r k)
                  else (case preempt i r k of (r, k) \<Rightarrow> Some (Back r k)) } })"

section \<open>Exceptions\<close>

datatype 'h isr_result = Iret registers_t "'h kernel" | Resume_shell "'h kernel" | Panic

definition user_handle_fault :: "registers_t \<Rightarrow> 'h kernel \<Rightarrow> 'h isr_result" where
  "user_handle_fault r k =
     (case proc_exit_current r 139 True (k\<lparr>u_faulted := True, u_active := False\<rparr>) of
        Back r k \<Rightarrow> Iret r k | Shell k \<Rightarrow> Resume_shell k)"

text \<open>\<open>cr2\<close> is the faulting address the processor reports; the messages to screen and serial line are left out.\<close>

definition isr_handler :: "u32 \<Rightarrow> registers_t \<Rightarrow> 'h kernel \<Rightarrow> 'h isr_result" where
  "isr_handler cr2 r k =
     (let fatal = (\<lambda>k. if r_cs r AND 3 = 3 \<and> user_is_active k then user_handle_fault r k else Panic)
      in if r_int_no r = 14 \<and> user_is_active k \<and> r_err_code r AND 2 \<noteq> 0
         then case current_proc k of
                None \<Rightarrow> fatal k
              | Some i \<Rightarrow>
                  let pd = p_pd_phys (procs k ! i)
                  in if pd \<noteq> 0 \<and> cr2 \<ge> USER_BASE \<and> cr2 < USER_SIGTRAMP
                     then case mm_call (mm_user_make_writable pd cr2) k of (ok, k) \<Rightarrow> if ok then Iret r k else fatal k
                     else fatal k
         else fatal k)"

definition user_exit :: "int \<Rightarrow> 'h kernel \<Rightarrow> (unit, 'h kernel) flow" where
  "user_exit code k = Shell (k\<lparr>u_exit_code := code, u_faulted := False, u_active := False\<rparr>)"

end
