(* ===== verification/Fs_Properties.thy ===== *)
theory Fs_Properties
  imports Fs_Names
begin

text \<open>
  What the file system promises: the tree invariant over any sequence of calls, the refinement of
  the name space, the exact condition under which a creation fails, the round trip of positioned
  writes and reads, and the life of a file that is unlinked while open.  The theorems hold for
  every disk and clock behind the ports.
\<close>

section \<open>The tree invariant\<close>

definition fs_blank :: "drive fs_state" where
  "fs_blank = \<lparr>files = replicate 16 zero_file, dirs = replicate 16 zero_dir, persist_active = False, persist_gen = 0,
     meta_buf = replicate 16 zero_meta, dmeta_buf = replicate 16 zero_dmeta, fs_ata = drive_demo,
     fs_part = \<lparr>parts = [], nparts = 0, part_is_present = False, partitioned = False\<rparr>\<rparr>"

lemma fs_blank_inv: "fs_inv fs_blank"
proof -
  have "file_at fs_blank = Map.empty" "dir_at fs_blank = Map.empty"
    by (simp_all add: file_at_def dir_at_def fs_blank_def zero_file_def zero_dir_def live_def fun_eq_iff)
  moreover have "fs_shape fs_blank"
    by (simp add: fs_shape_def fs_blank_def FS_MAX_FILES_def FS_MAX_DIRS_def FS_MAX_SIZE_def zero_file_def zero_dir_def)
  ultimately show ?thesis by (simp add: fs_inv_def tree_def one_to_one_def)
qed

text \<open>C28: Whatever sequence of file-system calls a running kernel makes (creation, deletion, renaming, reads, writes,
  truncation, permissions, sync; not the mount at boot, which copies the tables of the disk unchecked), and whatever the
  disk answers, the tables keep the tree invariant: the arrays have their shape, no two live entries share a name, no name is both a
  file and a directory, every name is well formed and every parent is an existing directory.\<close>

theorem fs_tree_inv:
  assumes "fs_inv s" and "\<forall>op \<in> set ops. fs_op_ok op"
  shows "fs_inv (fold (fs_step P) ops s)"
  using assms by (induction ops arbitrary: s) (simp_all add: fs_step_inv)

theorem fs_tree_inv_witness:
  "fs_inv (fold (fs_step drive_ports) [FMkdir [0x61], FCreate [0x61, 0x2F, 0x62], FWrite 0 [1, 2] 2,
     FRenameDir [0x61] [0x63], FDelete [0x63, 0x2F, 0x62], FRmdir [0x63], FSync] fs_blank)"
  by (rule fs_tree_inv [OF fs_blank_inv]) simp

section \<open>Refinement of the name space\<close>

text \<open>The abstract step: a call that names entries either leaves both maps alone or acts on them
  as specified; every other call leaves them alone.\<close>

fun ns_next :: "fs_op \<Rightarrow> (nat \<rightharpoonup> u8 list) \<Rightarrow> (nat \<rightharpoonup> u8 list) \<Rightarrow> (nat \<rightharpoonup> u8 list) \<Rightarrow> (nat \<rightharpoonup> u8 list) \<Rightarrow> bool" where
  "ns_next (FCreate p) F D F' D' \<longleftrightarrow> (\<exists>i. ns_create p F D i F' D')"
| "ns_next (FMkdir p) F D F' D' \<longleftrightarrow> ns_mkdir p F D F' D'"
| "ns_next (FRmdir p) F D F' D' \<longleftrightarrow> ns_rmdir p F D F' D'"
| "ns_next (FDelete p) F D F' D' \<longleftrightarrow> ns_delete p F D F' D'"
| "ns_next (FRename i p) F D F' D' \<longleftrightarrow> ns_rename (nat i) p F D F' D'"
| "ns_next (FRenameDir p q) F D F' D' \<longleftrightarrow> ns_rename_dir p q F D F' D'"
| "ns_next _ F D F' D' \<longleftrightarrow> False"

text \<open>C29: the tables refine the abstract name space of two partial maps: seen through \<open>file_at\<close> and \<open>dir_at\<close>,
  every call either changes no name or performs the abstract operation it stands for
  (a creation adds one name in an existing directory, a directory rename moves the whole subtree).\<close>

theorem fs_refines_names:
  assumes "fs_inv s" and "fs_op_ok op" and "s' = fs_step P op s"
  shows "file_at s' = file_at s \<and> dir_at s' = dir_at s \<or> ns_next op (file_at s) (dir_at s) (file_at s') (dir_at s')"
proof (cases "names_op op")
  case True
  have sh: "fs_shape s" using assms(1) by (simp add: fs_inv_def)
  show ?thesis
  proof (cases op)
    case (FCreate p)
    then show ?thesis using fs_create_names [OF sh, of p P "fst (fs_create P p s)" s'] assms(2,3) by auto
  next
    case (FMkdir p)
    then show ?thesis using fs_mkdir_names [OF sh, of p P "fst (fs_mkdir P p s)" s'] assms(2,3) by auto
  next
    case (FRmdir p)
    then show ?thesis using fs_rmdir_names [of P p s "fst (fs_rmdir P p s)" s'] assms(3) by auto
  next
    case (FDelete p)
    then show ?thesis using fs_delete_names [of P p s "fst (fs_delete P p s)" s'] assms(3) by auto
  next
    case (FRename i p)
    then show ?thesis using fs_rename_names [OF sh, of p P i "fst (fs_rename P i p s)" s'] assms(2,3) by auto
  next
    case (FRenameDir p q)
    then show ?thesis using fs_rename_dir_names [OF sh, of q P p "fst (fs_rename_dir P p q s)" s'] assms(2,3) by auto
  qed (use True in simp_all)
next
  case False
  then show ?thesis using fs_step_kept [OF assms(1,2)] assms(3) by (simp add: fs_kept_def)
qed

theorem fs_refines_names_witness:
  "let s' = fs_step drive_ports (FCreate [0x61]) fs_blank
   in file_at s' = file_at fs_blank \<and> dir_at s' = dir_at fs_blank \<or>
      ns_next (FCreate [0x61]) (file_at fs_blank) (dir_at fs_blank) (file_at s') (dir_at s')"
  unfolding Let_def by (rule fs_refines_names [OF fs_blank_inv _ refl]) simp

section \<open>When a creation fails\<close>

text \<open>C30: creating a file fails exactly when the path is malformed, its parent is not a directory, the name is
  taken by a file or a directory, or all sixteen slots are in use; a failed creation changes nothing, and a
  successful one returns a slot that was free and that opening the path finds.\<close>

theorem fs_create_error:
  assumes "fs_inv s" and "0 \<notin> set p" and "fs_create P p s = (r, s')"
  shows "if \<not> good p \<or> \<not> fs_parent_is_dir p s \<or> fs_is_file p s \<or> fs_is_dir p s \<or> fs_used_slots s = 16
         then r = - 1 \<and> s' = s
         else 0 \<le> r \<and> r < 16 \<and> f_used (files s ! nat r) = 0 \<and> fs_open p s' = r \<and> fs_fd_size r s' = 0"
proof -
  have sh: "fs_shape s" and tr: "tree (file_at s) (dir_at s)" using assms(1) by (simp_all add: fs_inv_def)
  have full: "fs_used_slots s = 16 \<longleftrightarrow> find_idx (\<lambda>f. f_used f = 0) (files s) = None"
    using fs_shapeD(1) [OF sh] length_filter_less [of _ "files s" "\<lambda>f. f_used f \<noteq> 0"]
    by (fastforce simp: fs_used_slots_def find_idx_None intro: arg_cong [where f = length])
  have add: "can_add p s \<longleftrightarrow> good p \<and> fs_parent_is_dir p s \<and> \<not> fs_is_file p s \<and> \<not> fs_is_dir p s"
    using split_parent_good [of p]
    by (auto simp: can_add_def fs_is_file_def fs_is_dir_def fs_parent_is_dir_def split: option.splits)
  show ?thesis
  proof (cases "can_add p s \<and> fs_used_slots s \<noteq> 16")
    case False
    then have "r = - 1 \<and> s' = s" using assms(3) full by (cases "can_add p s") (auto simp: fs_create_def)
    then show ?thesis using False add by auto
  next
    case True
    obtain j where "find_idx (\<lambda>f. f_used f = 0) (files s) = Some j" using True full by auto
    then have "r \<noteq> - 1" using assms(3) True by (auto simp: fs_create_def Let_def split_beta)
    then obtain i where i: "r = int i" "ns_create p (file_at s) (dir_at s) i (file_at s') (dir_at s')"
        "f_used (files s ! i) = 0" "f_size (files s' ! i) = 0"
      using fs_create_names [OF sh assms(2,3)] by auto
    have at: "file_at s' i = Some p" "i < 16" using i(2) by (simp_all add: ns_create_def)
    then have live: "live (files s' ! i)" "cstr (f_name (files s' ! i)) = p" "i < length (files s')"
      by (auto simp: file_at_def split: if_splits)
    have "fs_inv s'" using fs_create_inv [OF assms(1,2), of P] assms(3) by simp
    then have "one_to_one (file_at s')" by (simp add: fs_inv_def tree_def)
    then have uniq: "k = i" if "k < length (files s')" "named p (files s' ! k)" for k
      using that at(1) by (auto simp: one_to_one_def file_at_def named_def)
    have "find_idx (named p) (files s') = Some i"
    proof (rule find_idx_SomeI [OF live(3)])
      show "named p (files s' ! i)" using live by (simp add: named_def)
      show "\<not> named p (files s' ! j)" if "j < i" for j using uniq [of j] live(3) that by linarith
    qed
    then have "fs_open p s' = r" by (simp add: fs_open_def i(1))
    moreover have "fs_fd_size r s' = 0" using i(1,4) by (simp add: fs_fd_size_def)
    ultimately show ?thesis using True add i(1,3) at(2) by auto
  qed
qed

theorem fs_create_error_witness:
  "let (r, s') = fs_create drive_ports [0x2F, 0x61] fs_blank in r = - 1 \<and> s' = fs_blank"
proof -
  have "\<not> good [0x2F, 0x61]" by (auto simp: good_def intro!: exI [of _ 0])
  then show ?thesis
    using fs_create_error [OF fs_blank_inv, of "[0x2F, 0x61]" drive_ports "fst (fs_create drive_ports [0x2F, 0x61] fs_blank)"
      "snd (fs_create drive_ports [0x2F, 0x61] fs_blank)"] by (auto simp: split_beta)
qed

section \<open>Positioned writes and reads\<close>

lemma sint_small: "unat (w :: u32) \<le> 65536 \<Longrightarrow> sint w = int (unat w)"
proof -
  assume le: "unat w \<le> 65536"
  have eq: "uint w = int (unat w)" by (rule uint_nat)
  then have u: "0 \<le> uint w" "uint w \<le> 65536" using le by linarith+
  have "(2::int) ^ 31 = 2147483648" by simp
  then have "- (2 ^ 31) \<le> uint w" "uint w < 2 ^ 31" using u by linarith+
  then have "signed_take_bit 31 (uint w) = uint w" by (rule signed_take_bit_int_eq_self)
  moreover have "sint w = signed_take_bit 31 (uint w)" by (simp add: sint_uint)
  ultimately show ?thesis using eq by argo
qed

lemma overlay_nth:
  assumes "off + length bs \<le> length a" and "k < length a"
  shows "overlay off bs a ! k = (if off \<le> k \<and> k < off + length bs then bs ! (k - off) else a ! k)"
  using assms by (auto simp: overlay_def nth_append min_def)

lemma fs_write_at_result:
  assumes "fs_inv s" and "fd_ok fd s" and "off < FS_MAX_SIZE" and "unat len \<le> length buf"
    and "fs_write_at P fd off buf len s = (r, s1)"
  defines "n \<equiv> min (unat len) (65536 - unat off)"
  shows "r = int n" and "fd_ok fd s1"
    and "f_data (files s1 ! nat fd) = overlay (unat off) (take n buf) (f_data (files s ! nat fd))"
    and "unat (f_size (files s1 ! nat fd)) = max (unat off + n) (unat (f_size (files s ! nat fd)))"
    and "\<And>i. i \<noteq> nat fd \<Longrightarrow> files s1 ! i = files s ! i"
proof -
  obtain t s0 where t: "fs_now P s = (t, s0)" "files s0 = files s" "dirs s0 = dirs s" by (rule fs_now_cases)
  have i: "nat fd < length (files s)" using fd_ok_lt [OF assms(2)] fs_shapeD(1) [of s] assms(1) by (simp add: fs_inv_def)
  define l where "l = (if len > FS_MAX_SIZE - off then FS_MAX_SIZE - off else len)"
  have o: "unat off < 65536" using assms(3) by (simp add: FS_MAX_SIZE_def word_less_nat_alt)
  have "unat (FS_MAX_SIZE - off) = 65536 - unat off"
    using assms(3) by (simp add: FS_MAX_SIZE_def unat_sub order_less_imp_le)
  then have l: "unat l = n" by (auto simp: l_def n_def word_less_nat_alt)
  have le: "unat off + n \<le> 65536" using o by (auto simp: n_def)
  have sum: "unat (off + l) = unat off + n" using le l by (simp add: unat_word_ariths)
  have sl: "sint l = int n" using le l by (simp add: sint_small)
  define g where "g f = f\<lparr>f_data := overlay (unat off) (take (unat l) buf) (f_data f),
    f_size := (if off + l > f_size f then off + l else f_size f), f_mtime := t, f_ctime := t\<rparr>" for f :: fs_file_t
  have w: "fs_write_at P fd off buf len s =
      (sint l, persist_slot_range P (nat fd) off l (persist_meta P (upd_file (nat fd) (\<lambda>f. g f) s0)))"
    using assms(2,3) t(1) by (simp only: fs_write_at_def Let_def l_def [symmetric] g_def) (simp add: not_le [symmetric])
  have "r = sint l" "files s1 = (files s)[nat fd := g (files s ! nat fd)]"
    using assms(5) w t by (auto simp: upd_file_def)
  then show "r = int n" "fd_ok fd s1"
      "f_data (files s1 ! nat fd) = overlay (unat off) (take n buf) (f_data (files s ! nat fd))"
      "unat (f_size (files s1 ! nat fd)) = max (unat off + n) (unat (f_size (files s ! nat fd)))"
      "\<And>i. i \<noteq> nat fd \<Longrightarrow> files s1 ! i = files s ! i"
    using i l sl sum assms(2) by (auto simp: g_def fd_ok_def word_less_nat_alt max_def)
qed

text \<open>What a reader sees of a slot: the bytes up to the size.\<close>

definition fcontents :: "int \<Rightarrow> 'h fs_state \<Rightarrow> u8 list" where
  "fcontents fd s = take (unat (f_size (files s ! nat fd))) (f_data (files s ! nat fd))"

lemma fs_read_at_contents:
  assumes "fd_ok fd s" and "unat (f_size (files s ! nat fd)) \<le> 65536" and "length (f_data (files s ! nat fd)) = 65536"
  shows "fst (fs_read_at P fd off len s) =
    (let d = take (unat len) (drop (unat off) (fcontents fd s)) in (int (length d), d))"
proof -
  define f where "f = files s ! nat fd"
  define k where "k = min (unat len) (unat (f_size f) - unat off)"
  have d: "take (unat len) (drop (unat off) (fcontents fd s)) = take k (drop (unat off) (f_data f))"
    by (simp add: fcontents_def k_def drop_take min.commute flip: f_def)
  have lk: "length (take k (drop (unat off) (f_data f))) = k" using assms(2,3) by (auto simp: k_def f_def)
  have "fst (fs_read_at P fd off len s) = (int k, take k (drop (unat off) (f_data f)))"
  proof (cases "off \<ge> f_size f")
    case True
    then show ?thesis using assms(1) by (simp add: fs_read_at_def f_def [symmetric] k_def word_le_nat_alt)
  next
    case False
    define m where "m = (if f_size f - off > len then len else f_size f - off)"
    have m: "unat m = k" using False by (auto simp: m_def k_def word_less_nat_alt unat_sub not_le order_less_imp_le)
    have "sint m = int k" using m assms(2) by (simp add: sint_small k_def f_def)
    then show ?thesis using assms(1) False m by (simp add: fs_read_at_def f_def [symmetric] Let_def split_beta flip: m_def)
  qed
  then show ?thesis unfolding d Let_def lk .
qed

lemma fs_inv_file: "fs_inv s \<Longrightarrow> fd_ok fd s \<Longrightarrow> length (f_data (files s ! nat fd)) = 65536 \<and> unat (f_size (files s ! nat fd)) \<le> 65536"
  using file_okD [OF fs_shapeD(3) [OF _ fd_ok_lt, of s fd s]] by (simp add: fs_inv_def)

lemma overlay_contents:
  assumes "off \<le> z" and "z \<le> length a" and "off + length bs \<le> length a"
  shows "take (max (off + length bs) z) (overlay off bs a) = take off (take z a) @ bs @ drop (off + length bs) (take z a)"
proof -
  have "max (off + length bs) z - (off + length bs) = z - (off + length bs)" by simp
  then show ?thesis using assms by (simp add: overlay_def min_absorb1 drop_take)
qed


definition fs_demo :: "drive fs_state" where
  "fs_demo = upd_file 3 (\<lambda>f. f\<lparr>f_used := 1, f_refs := 2, f_name := copy_name [0x61]\<rparr>) fs_blank"

lemma fs_demo_inv: "fs_inv fs_demo"
proof -
  define f where "f = (files fs_blank ! 3)\<lparr>f_used := 1, f_refs := 2, f_name := copy_name [0x61]\<rparr>"
  have len: "length (files fs_blank) = 16" by (simp add: fs_blank_def)
  have sh: "fs_shape fs_blank" using fs_blank_inv by (simp add: fs_inv_def)
  have none: "file_at fs_blank = Map.empty" "dir_at fs_blank = Map.empty"
    by (simp_all add: file_at_def dir_at_def fs_blank_def zero_file_def zero_dir_def live_def fun_eq_iff)
  have c: "cstr (copy_name [0x61]) = [0x61]" "length (copy_name [0x61]) = 64" "0 \<in> set (copy_name [0x61])"
    using copy_name_cstr [of "[0x61]"] by simp_all
  have z: "files fs_blank ! 3 = zero_file" by (simp add: fs_blank_def)
  have lf: "live f" "cstr (f_name f) = [0x61]" using c by (simp_all add: f_def live_def z zero_file_def)
  have up: "files fs_demo = (files fs_blank)[3 := f]" "dirs fs_demo = dirs fs_blank" by (simp_all add: fs_demo_def f_def)
  have F: "file_at fs_demo = [3 \<mapsto> [0x61]]" using file_at_files [OF _ up(1)] len lf none by simp
  have D: "dir_at fs_demo = Map.empty" using dir_at_cong [OF up(2)] none by simp
  have "split_parent [0x61] = Some ([], [0x61])"
    by (simp add: split_parent_iff good_def)
  then have "tree (file_at fs_demo) (dir_at fs_demo)" unfolding F D by (auto simp: tree_def one_to_one_def)
  moreover have "file_ok f" using fs_shapeD(3) [OF sh, of 3] c by (simp add: f_def file_ok_def)
  ultimately show ?thesis using fs_shape_upd_file [OF sh up] by (simp add: fs_inv_def)
qed

lemma fs_demo_fd: "fd_ok 3 fs_demo"
  by (simp add: fd_ok_def FS_MAX_FILES_def fs_demo_def fs_blank_def)


text \<open>A write beyond the end makes the bytes in between readable without clearing them.  So truncating a file does
  not keep its old contents from being read: after \<^verbatim>\<open>fs_fd_truncate\<close>, a one-byte write at an offset inside the old
  file brings all the bytes before that offset back.\<close>

lemma fs_truncate_result:
  fixes P :: "'h ports"
  assumes "fs_inv s" and "fd_ok fd s"
  defines "s1 \<equiv> snd (fs_fd_truncate P fd s)"
  shows "fd_ok fd s1" and "f_size (files s1 ! nat fd) = 0" and "f_data (files s1 ! nat fd) = f_data (files s ! nat fd)"
    and "fs_inv s1"
proof -
  obtain t s0 where t: "fs_now P s = (t, s0)" "files s0 = files s" "dirs s0 = dirs s" by (rule fs_now_cases)
  have i: "nat fd < length (files s)" using fd_ok_lt [OF assms(2)] fs_shapeD(1) [of s] assms(1) by (simp add: fs_inv_def)
  have "files s1 = (files s)[nat fd := (files s ! nat fd)\<lparr>f_size := 0, f_mtime := t, f_ctime := t\<rparr>]"
    using assms(2) t by (simp add: s1_def fs_fd_truncate_def upd_file_def)
  then show "fd_ok fd s1" "f_size (files s1 ! nat fd) = 0" "f_data (files s1 ! nat fd) = f_data (files s ! nat fd)"
    using i assms(2) by (simp_all add: fd_ok_def)
  show "fs_inv s1" using fs_step_inv [OF assms(1), of "FFdTruncate fd" P] by (simp add: s1_def)
qed

theorem truncated_bytes_come_back:
  assumes "fs_inv s" and "fd_ok fd s" and "0 < off" and "off < f_size (files s ! nat fd)"
  shows "let s1 = snd (fs_fd_truncate P fd s); s2 = snd (fs_write_at P fd off [b] 1 s1)
    in fst (fs_read_at P fd 0 off s2) = (int (unat off), take (unat off) (fcontents fd s))"
proof -
  define s1 where "s1 = snd (fs_fd_truncate P fd s)"
  define s2 where "s2 = snd (fs_write_at P fd off [b] 1 s1)"
  note tr = fs_truncate_result [OF assms(1,2), of P, folded s1_def]
  note fo = fs_inv_file [OF assms(1,2)]
  have off: "unat off < unat (f_size (files s ! nat fd))" "unat off < 65536" "off < FS_MAX_SIZE"
    using assms(4) fo by (auto simp: word_less_nat_alt FS_MAX_SIZE_def)
  have "fs_write_at P fd off [b] 1 s1 = (fst (fs_write_at P fd off [b] 1 s1), s2)" by (simp add: s2_def)
  note w = fs_write_at_result [OF tr(4,1) off(3) _ this]
  have c: "fcontents fd s2 = take (unat off) (f_data (files s ! nat fd)) @ [b]"
    using w(3,4) tr(2,3) off fo by (simp add: fcontents_def overlay_def min_absorb1)
  have "fst (fs_read_at P fd 0 off s2) = (int (unat off), take (unat off) (f_data (files s ! nat fd)))"
    using fs_read_at_contents [OF w(2), of P 0 off] w(3,4) tr(2,3) off fo by (simp add: c length_overlay min_absorb1)
  then show ?thesis using off by (simp add: fcontents_def min_absorb1 flip: s1_def s2_def)
qed

section \<open>Files unlinked while open\<close>

lemma fs_unref_refs:
  fixes P :: "'h ports" and s :: "'h fs_state"
  assumes "nat fd < length (files s)" and "fd_ok fd s" and "f_deleted (files s ! nat fd) \<noteq> 0" and "f_refs (files s ! nat fd) \<noteq> 0"
  defines "s' \<equiv> snd (fs_unref P fd s)"
  shows "length (files s') = length (files s)"
    and "f_refs (files s ! nat fd) = 1 \<Longrightarrow> \<not> fd_ok fd s'"
    and "f_refs (files s ! nat fd) \<noteq> 1 \<Longrightarrow> fd_ok fd s' \<and> f_deleted (files s' ! nat fd) \<noteq> 0 \<and>
      f_refs (files s' ! nat fd) = f_refs (files s ! nat fd) - 1 \<and>
      f_data (files s' ! nat fd) = f_data (files s ! nat fd) \<and> f_size (files s' ! nat fd) = f_size (files s ! nat fd)"
  using assms by (auto simp: fs_unref_def Let_def fd_ok_def word_gt_0)

lemma fs_unref_dead: "\<not> fd_ok fd s \<Longrightarrow> ((\<lambda>s. snd (fs_unref P fd s)) ^^ j) s = s"
  by (induction j) (simp_all add: fs_unref_def)

lemma fs_unref_times:
  fixes P :: "'h ports"
  assumes "nat fd < length (files s)" and "fd_ok fd s" and "f_deleted (files s ! nat fd) \<noteq> 0" and "f_refs (files s ! nat fd) \<noteq> 0"
  defines "u \<equiv> \<lambda>s. snd (fs_unref P fd s)"
  shows "(fd_ok fd ((u ^^ j) s) \<longleftrightarrow> j < unat (f_refs (files s ! nat fd))) \<and>
    (j < unat (f_refs (files s ! nat fd)) \<longrightarrow> f_data (files ((u ^^ j) s) ! nat fd) = f_data (files s ! nat fd) \<and>
      f_size (files ((u ^^ j) s) ! nat fd) = f_size (files s ! nat fd))"
  using assms(1-4)
proof (induction j arbitrary: s)
  case 0
  then show ?case by (simp add: unat_gt_0)
next
  case (Suc j)
  have us: "snd (fs_unref P fd s) = u s" by (simp add: u_def)
  note u = fs_unref_refs [OF Suc.prems, of P, unfolded us]
  have step: "(u ^^ Suc j) s = (u ^^ j) (u s)"
    by (simp only: funpow_Suc_right o_apply)
  show ?case
  proof (cases "f_refs (files s ! nat fd) = 1")
    case True
    then show ?thesis unfolding step using fs_unref_dead [OF u(2) [OF True], of j P] u(2) [OF True] by (simp add: u_def)
  next
    case False
    note u3 = u(3) [OF False]
    have n0: "unat (f_refs (files s ! nat fd)) \<noteq> 0" "unat (f_refs (files s ! nat fd)) \<noteq> 1"
      using Suc.prems(4) False by (simp_all add: unat_eq_zero) (metis One_nat_def unsigned_1 unsigned_word_eqI)
    have sub: "unat (f_refs (files s ! nat fd) - 1) = unat (f_refs (files s ! nat fd)) - 1"
      using n0(1) by (simp add: unat_sub word_le_nat_alt)
    have "f_refs (files s ! nat fd) - 1 \<noteq> 0" using False by simp
    then show ?thesis unfolding step using Suc.IH [of "u s"] u(1) u3 Suc.prems(1) sub n0 by auto
  qed
qed

text \<open>C32: Deleting a file that is still open removes its name at once.  However many references are then dropped, as long
  as fewer than were held have been, the slot stays in use and every read through it returns what it returned before the
  deletion; when the last one is dropped, the slot is free.\<close>

theorem fs_unlink_open:
  assumes "fs_inv s" and "fs_open p s = fd" and "0 \<le> fd" and "f_refs (files s ! nat fd) \<noteq> 0"
    and "fs_delete P p s = (r, s1)"
  shows "r = 0 \<and> fs_open p s1 = - 1 \<and>
    (let sj = ((\<lambda>s. snd (fs_unref P fd s)) ^^ j) s1
     in if j < unat (f_refs (files s ! nat fd))
        then fd_ok fd sj \<and> (\<forall>off len. fst (fs_read_at P fd off len sj) = fst (fs_read_at P fd off len s))
        else \<not> fd_ok fd sj)"
proof -
  obtain i where i: "find_idx (named p) (files s) = Some i" "fd = int i"
    using assms(2,3) by (auto simp: fs_open_def split: option.splits)
  note fi = find_file_named [OF i(1)]
  have one: "one_to_one (file_at s)" using assms(1) by (simp add: fs_inv_def tree_def)
  have ran: "p \<in> ran (file_at s)" using fi(2) by (auto simp: ran_def)
  then obtain k f where d: "r = 0" "ns_delete p (file_at s) (dir_at s) (file_at s1) (dir_at s1)" "file_at s k = Some p"
      "files s1 = (files s)[k := f]" "unlinked (files s ! k) f"
    using fs_delete_names [OF assms(5)] by blast
  have k: "k = i" using one d(3) fi(2) by (auto simp: one_to_one_def)
  have lt: "i < length (files s)" "i < 16" using fi(1) fs_shapeD(1) [of s] assms(1) by (simp_all add: fs_inv_def)
  have f: "files s1 ! i = f" "length (files s1) = length (files s)" using d(4) k lt by simp_all
  have un: "f_data f = f_data (files s ! i)" "f_size f = f_size (files s ! i)" "f_used f = f_used (files s ! i)"
      "f_refs f = f_refs (files s ! i)" "f_deleted f = 1"
    using d(5) k assms(4) i(2) by (auto simp: unlinked_def split: if_splits)
  have "live (files s ! i)" using fi(2) lt by (auto simp: file_at_def split: if_splits)
  then have ok: "fd_ok fd s" "fd_ok fd s1" using lt(2) i(2) f un by (auto simp: fd_ok_def live_def FS_MAX_FILES_def)
  have "p \<notin> ran (file_at s1)"
    using d(2) one fi(2) by (auto simp: ns_delete_def one_to_one_def ran_def split: if_splits)
  then have "fs_open p s1 = - 1" by (simp add: fs_open_def find_file_none [THEN iffD2])
  moreover have "fst (fs_read_at P fd off len t) = fst (fs_read_at P fd off len s)"
    if "fd_ok fd t" "f_data (files t ! nat fd) = f_data (files s ! nat fd)" "f_size (files t ! nat fd) = f_size (files s ! nat fd)"
    for off len t
    using ok(1) that by (simp add: fs_read_at_def Let_def split_beta)
  ultimately show ?thesis
    using d(1) fs_unref_times [of fd s1 j P] lt f un ok(2) i(2) assms(4) by (simp add: Let_def)
qed

theorem fs_unlink_open_witness:
  "let (r, s1) = fs_delete drive_ports [0x61] fs_demo
   in r = 0 \<and> fs_open [0x61] s1 = - 1 \<and>
     fst (fs_read_at drive_ports 3 0 5 (((\<lambda>s. snd (fs_unref drive_ports 3 s)) ^^ 1) s1)) = fst (fs_read_at drive_ports 3 0 5 fs_demo) \<and>
     fd_ok 3 (((\<lambda>s. snd (fs_unref drive_ports 3 s)) ^^ 1) s1) \<and> \<not> fd_ok 3 (((\<lambda>s. snd (fs_unref drive_ports 3 s)) ^^ 2) s1)"
proof -
  have refs: "f_refs (files fs_demo ! nat 3) = 2" by (simp add: fs_demo_def fs_blank_def)
  have "files fs_demo = (replicate 16 zero_file)[3 := zero_file\<lparr>f_used := 1, f_refs := 2, f_name := copy_name [0x61]\<rparr>]"
    by (simp add: fs_demo_def fs_blank_def)
  moreover have "\<not> named [0x61] zero_file" "named [0x61] (zero_file\<lparr>f_used := 1, f_refs := 2, f_name := copy_name [0x61]\<rparr>)"
    using copy_name_cstr(1) [of "[0x61]"] by (simp_all add: named_def live_def zero_file_def)
  ultimately have "find_idx (named [0x61]) (files fs_demo) = Some 3"
    by (intro find_idx_SomeI) simp_all
  then have fd: "fs_open [0x61] fs_demo = 3" by (simp add: fs_open_def)
  have w: "fs_delete drive_ports [0x61] fs_demo = (fst (fs_delete drive_ports [0x61] fs_demo), snd (fs_delete drive_ports [0x61] fs_demo))"
    by simp
  note t = fs_unlink_open [OF fs_demo_inv fd _ _ w]
  show ?thesis using t [of 1] t [of 2] refs unfolding split_beta Let_def by simp
qed

end
