(* ===== verification/Sched.thy ===== *)
theory Sched
  imports Signals Fs_Properties
begin

text \<open>
  What the scheduler guarantees: round-robin choice is fair, a frame that returns to user code is
  never privileged, a process that was switched out resumes exactly where it was, and at most
  the current process is running.
\<close>

section \<open>Fairness\<close>

text \<open>How many slots process \<open>i\<close> is behind \<open>c\<close> in the circular order.\<close>

definition ring_distance :: "nat \<Rightarrow> nat \<Rightarrow> nat" where
  "ring_distance c i = (i + 2 * PROC_MAX - Suc c) mod PROC_MAX"

lemma mod8_cancel: "(x::nat) < 8 \<Longrightarrow> y < 8 \<Longrightarrow> (a + x) mod 8 = (a + y) mod 8 \<Longrightarrow> x = y"
proof -
  assume lt: "x < 8" "y < 8" and eq: "(a + x) mod 8 = (a + y) mod 8"
  have "(int a + int x) mod 8 = (int a + int y) mod 8" using eq by (metis of_nat_add of_nat_mod of_nat_numeral)
  then have "int x mod 8 = int y mod 8" by (metis add_diff_cancel_left' mod_diff_left_eq)
  then show "x = y" using lt by simp
qed

lemma ring_distance_eq:
  assumes "c < 8" and "i < 8"
  shows "ring_distance c i < 8" and "(c + 1 + ring_distance c i) mod 8 = i"
proof -
  show "ring_distance c i < 8" by (simp add: ring_distance_def PROC_MAX_def)
  have "(c + 1 + (i + 16 - Suc c) mod 8) mod 8 = (c + 1 + (i + 16 - Suc c)) mod 8" by (rule mod_add_right_eq)
  also have "c + 1 + (i + 16 - Suc c) = i + 16" using assms by simp
  also have "(i + 16) mod 8 = i"
  proof -
    have "(i + 16) mod 8 = (i + 8 * 2) mod 8" by simp
    also have "\<dots> = i mod 8" by (rule mod_mult_self2)
    finally show ?thesis using assms(2) by simp
  qed
  finally show "(c + 1 + ring_distance c i) mod 8 = i" by (simp add: ring_distance_def PROC_MAX_def)
qed

lemma pick_distance:
  assumes "c < 8" and "i < 8" and "runnable (ps ! i)" and "sched_pick_next (Some c) ps = Some n"
  shows "n < 8" and "n \<noteq> i \<Longrightarrow> ring_distance n i < ring_distance c i"
proof -
  let ?xs = "map (\<lambda>k. (c + 1 + k) mod PROC_MAX) [0..<PROC_MAX]"
  obtain j where j: "j < length ?xs" "?xs ! j = n" "\<forall>l < j. \<not> runnable (ps ! (?xs ! l))"
    using assms(4) by (auto simp: sched_pick_next_def find_Some_iff simp del: length_map length_upt)
  have len: "length ?xs = 8" by (simp add: PROC_MAX_def)
  have nth: "?xs ! l = (c + 1 + l) mod 8" if "l < 8" for l using that by (simp add: PROC_MAX_def)
  have n: "n = (c + 1 + j) mod 8" "j < 8" using j len nth by auto
  then show n8: "n < 8" by simp
  define d where "d = ring_distance c i"
  have d: "d < 8" "(c + 1 + d) mod 8 = i" using ring_distance_eq [OF assms(1,2)] by (simp_all add: d_def)
  have "\<not> d < j" using j(3) nth [OF d(1)] assms(3) d(2) by auto
  moreover have "d \<noteq> j" if "n \<noteq> i" using that n(1) d(2) by auto
  ultimately show "ring_distance n i < ring_distance c i" if "n \<noteq> i"
  proof -
    have lt: "j < d" using \<open>\<not> d < j\<close> \<open>n \<noteq> i \<Longrightarrow> d \<noteq> j\<close> that by linarith
    have "n + 1 + (d - Suc j) = n + (d - j)" using lt by simp
    then have "(n + 1 + (d - Suc j)) mod 8 = ((c + 1 + j) mod 8 + (d - j)) mod 8" unfolding n(1) by (rule arg_cong)
    also have "\<dots> = (c + 1 + j + (d - j)) mod 8" by (rule mod_add_left_eq)
    also have "\<dots> = i" using lt d(2) by simp
    finally have "(n + 1 + (d - Suc j)) mod 8 = (n + 1 + ring_distance n i) mod 8"
      using ring_distance_eq(2) [OF n8 assms(2)] by simp
    then have "ring_distance n i = d - Suc j"
      using mod8_cancel [of "d - Suc j" "ring_distance n i" "n + 1"] ring_distance_eq(1) [OF n8 assms(2)] d(1) by simp
    then show ?thesis using lt by (simp add: d_def)
  qed
qed

lemma window_fair:
  assumes "c 0 < 8" and "i < 8" and "\<And>n. n < 8 \<Longrightarrow> runnable (ps n ! i)"
    and "\<And>n. n < 8 \<Longrightarrow> sched_pick_next (Some (c n)) (ps n) = Some (c (Suc n))"
  shows "\<exists>n < 8. c (Suc n) = i"
proof (rule ccontr)
  assume "\<not> ?thesis"
  then have no: "c (Suc n) \<noteq> i" if "n < 8" for n using that by blast
  have lt: "n \<le> 8 \<Longrightarrow> c n < 8" for n
  proof (induction n)
    case (Suc n)
    then show ?case using pick_distance(1) [OF _ assms(2) assms(3,4)] by simp
  qed (use assms(1) in simp)
  have dec: "ring_distance (c (Suc n)) i < ring_distance (c n) i" if "n < 8" for n
    by (rule pick_distance(2) [OF lt assms(2) assms(3,4) no]) (use that in simp_all)
  have "n \<le> 8 \<Longrightarrow> ring_distance (c n) i + n \<le> ring_distance (c 0) i" for n
  proof (induction n)
    case (Suc n)
    then show ?case using dec [of n] by simp
  qed simp
  from this [of 8] show False using ring_distance_eq(1) [OF lt [of 0] assms(2)] by simp
qed

lemma pick_first: "sched_pick_next None ps = Some n \<Longrightarrow> n < 8 \<and> runnable (ps ! n) \<and> (\<forall>j < n. \<not> runnable (ps ! j))"
proof -
  have "map (\<lambda>n. (0 + n) mod PROC_MAX) [0..<PROC_MAX] = [0..<8]" by (simp add: PROC_MAX_def upt_rec)
  then show "sched_pick_next None ps = Some n \<Longrightarrow> n < 8 \<and> runnable (ps ! n) \<and> (\<forall>j < n. \<not> runnable (ps ! j))"
    by (auto simp: sched_pick_next_def find_Some_iff PROC_MAX_def)
qed


definition proc_demo :: "u32 \<Rightarrow> proc_t" where
  "proc_demo pid = zero_proc\<lparr>p_used := True, p_pid := pid, p_state := PROC_READY, p_has_ctx := True\<rparr>"

definition table_demo :: "proc_t list" where
  "table_demo = [zero_proc\<lparr>p_used := True, p_pid := 1, p_state := PROC_RUNNING\<rparr>, proc_demo 2, zero_proc, proc_demo 4,
     zero_proc, zero_proc, zero_proc, zero_proc]"

lemma table_demo_picks:
  "sched_pick_next (Some 1) table_demo = Some 3" "sched_pick_next (Some 3) table_demo = Some 1"
  "sched_pick_next None table_demo = Some 1" "runnable (table_demo ! 3)"
proof -
  have r: "runnable (table_demo ! 1)" "runnable (table_demo ! 3)" "\<not> runnable (table_demo ! 2)" "\<not> runnable (table_demo ! 4)"
    "\<not> runnable (table_demo ! 5)" "\<not> runnable (table_demo ! 6)" "\<not> runnable (table_demo ! 7)" "\<not> runnable (table_demo ! 0)"
    by (simp_all add: table_demo_def proc_demo_def zero_proc_def runnable_def)
  have l: "map (\<lambda>n. (1 + 1 + n) mod PROC_MAX) [0..<PROC_MAX] = [2, 3, 4, 5, 6, 7, 0, 1]"
    "map (\<lambda>n. (3 + 1 + n) mod PROC_MAX) [0..<PROC_MAX] = [4, 5, 6, 7, 0, 1, 2, 3]"
    "map (\<lambda>n. (0 + n) mod PROC_MAX) [0..<PROC_MAX] = [0, 1, 2, 3, 4, 5, 6, 7]" by (simp_all add: PROC_MAX_def upt_rec)
  show "sched_pick_next (Some 1) table_demo = Some 3" "sched_pick_next (Some 3) table_demo = Some 1"
    "sched_pick_next None table_demo = Some 1" "runnable (table_demo ! 3)"
    using r l by (simp_all add: sched_pick_next_def)
qed


text \<open>An exit starts the search at slot 0, not behind the process that exits.  A process that keeps creating
  children which exit therefore starves every higher slot: in slot 1 it creates a child in slot 2, is preempted in favour
  of that child, and is chosen again when the child exits, while the process in slot 3 is runnable all the time.\<close>

definition starving_table :: "nat \<Rightarrow> proc_t list" where
  "starving_table n = table_demo[2 := if even n then proc_demo 3 else zero_proc]"

theorem exit_starves:
  "(\<forall>n. runnable (starving_table n ! 3)) \<and>
    (\<forall>n. sched_pick_next (Some 1) (starving_table (2 * n)) = Some 2 \<and> sched_pick_next None (starving_table (2 * n + 1)) = Some 1)"
proof -
  have l: "map (\<lambda>n. (1 + 1 + n) mod PROC_MAX) [0..<PROC_MAX] = [2, 3, 4, 5, 6, 7, 0, 1]"
    "map (\<lambda>n. (0 + n) mod PROC_MAX) [0..<PROC_MAX] = [0, 1, 2, 3, 4, 5, 6, 7]" by (simp_all add: PROC_MAX_def upt_rec)
  have r: "runnable (starving_table n ! 3)" "runnable (starving_table n ! 1)" "\<not> runnable (starving_table n ! 0)"
    "runnable (starving_table n ! 2) \<longleftrightarrow> even n" for n
    by (simp_all add: starving_table_def table_demo_def proc_demo_def zero_proc_def runnable_def)
  then show ?thesis using l by (simp add: sched_pick_next_def)
qed

section \<open>Frames of user code\<close>

text \<open>Ring 3 code and stack, interrupts enabled, I/O privilege level 0.\<close>

definition user_frame :: "registers_t \<Rightarrow> bool" where
  "user_frame r \<longleftrightarrow> r_cs r AND 3 = 3 \<and> r_ss r AND 3 = 3 \<and>
     bit (r_eflags r) 9 \<and> \<not> bit (r_eflags r) 12 \<and> \<not> bit (r_eflags r) 13"

lemma flag_bits: "bit ((f OR 0x200) AND NOT 0x3000 :: u32) 9" "\<not> bit ((f OR 0x200) AND NOT 0x3000 :: u32) 12"
  "\<not> bit ((f OR 0x200) AND NOT 0x3000 :: u32) 13"
proof -
  have c: "bit (0x200::u32) 9" "bit (0x3000::u32) 12" "bit (0x3000::u32) 13" "\<not> bit (0x3000::u32) 9" by code_simp+
  show "bit ((f OR 0x200) AND NOT 0x3000 :: u32) 9" "\<not> bit ((f OR 0x200) AND NOT 0x3000 :: u32) 12"
    "\<not> bit ((f OR 0x200) AND NOT 0x3000 :: u32) 13"
    using c by (simp_all add: bit_and_iff bit_or_iff bit_not_iff)
qed

lemma load_regs_user: "user_frame (load_regs p r)"
  by (simp add: user_frame_def load_regs_def flag_bits [simplified])

lemma restored_regs_user: "user_frame (restored_regs f r)"
  by (simp add: user_frame_def restored_regs_def flag_bits [simplified])

lemma sched_load_regs: "fst (sched_load i r k) = load_regs (procs k ! i) r"
  by (simp add: sched_load_def proc_switch_space_def seg_upd_def mm_upd_def Let_def)

lemma sched_load_user: "user_frame (fst (sched_load i r k))"
  by (simp add: sched_load_regs load_regs_user)

lemma exit_user: "proc_exit_current r code flt k = Back r' k' \<Longrightarrow> user_frame r'"
proof -
  have *: "user_frame a" if "sched_load n r x = (a, b)" for n x a b using sched_load_user [of n r x] that by simp
  assume "proc_exit_current r code flt k = Back r' k'"
  then show ?thesis by (auto simp: proc_exit_current_def Let_def split: option.splits if_splits prod.splits dest: *)
qed

lemma kill_user: "kill_current r code flt k = Back (c, r') k' \<Longrightarrow> user_frame r'"
  using exit_user [of r code flt k] by (auto simp: kill_current_def split: flow.splits)

definition flow_user :: "(bool \<times> registers_t, 'h kernel) flow \<Rightarrow> bool" where
  "flow_user out \<longleftrightarrow> (case out of Back (c, r) k \<Rightarrow> user_frame r | Shell k \<Rightarrow> True)"

lemma kill_flow: "flow_user (kill_current r code flt k)"
  using kill_user [of r code flt k] by (auto simp: flow_user_def split: flow.splits)

lemma push_frame_user: "user_frame r \<Longrightarrow> push_signal_frame i sig h r k = Some (r', k') \<Longrightarrow> user_frame r'"
  by (auto simp: push_signal_frame_def user_frame_def Let_def bind_eq_Some_conv)

lemma deliver_user: "deliver_loop i r k = Some out \<Longrightarrow> user_frame r \<Longrightarrow> flow_user out"
proof (induction rule: deliver_loop.raw_induct [rotated, consumes 1, case_names step])
  case (step rec i r k out)
  show ?case
  proof (cases "next_signal (procs k ! i)")
    case None
    then show ?thesis using step(2,3) by (auto simp: flow_user_def)
  next
    case (Some sig)
    have push: "flow_user (Back (True, r1) k1)" if "push_signal_frame i sig h r k2 = Some (r1, k1)" for r1 k1 h k2
      using push_frame_user [OF step(3) that] by (simp add: flow_user_def)
    show ?thesis using step(2) step(1) [OF _ step(3)] Some push kill_flow
      by (auto simp: Let_def bind_eq_Some_conv split: if_splits)
  qed
qed

text \<open>The ways control comes back to user code from the process layer.\<close>

datatype trap = Tick | Sigreturn | Block proc_wait_t u32 int u32 bool int | Fault u32 | Exit int

fun trap_step :: "trap \<Rightarrow> registers_t \<Rightarrow> 'h kernel \<Rightarrow> (registers_t \<times> 'h kernel) option" where
  "trap_step Tick r k = (case proc_sched_tick r k of Some (Back r k) \<Rightarrow> Some (r, k) | _ \<Rightarrow> None)"
| "trap_step Sigreturn r k = (case proc_sigreturn r k of Some (ok, r, k) \<Rightarrow> Some (r, k) | None \<Rightarrow> None)"
| "trap_step (Block kind ptr len dl has fd) r k =
     (case proc_block_current_ext r kind ptr len dl has fd k of Some (ok, r, k) \<Rightarrow> Some (r, k) | None \<Rightarrow> None)"
| "trap_step (Fault cr2) r k = (case isr_handler cr2 r k of Iret r k \<Rightarrow> Some (r, k) | _ \<Rightarrow> None)"
| "trap_step (Exit code) r k = (case proc_exit_current r code False k of Back r k \<Rightarrow> Some (r, k) | _ \<Rightarrow> None)"

lemma preempt_user: "user_frame r \<Longrightarrow> user_frame (fst (preempt i r k))"
  by (simp add: preempt_def Let_def sched_load_user split: option.split)

lemma sched_tick_cases:
  fixes k :: "'h kernel"
  assumes "proc_sched_tick r k = Some (Back r' k')"
  obtains (same) "r' = r"
  | (delivered) k1 k2 :: "'h kernel" where "proc_signal_deliver r k1 = Some (Back (True, r') k2)"
  | (preempted) k1 k2 :: "'h kernel" and c r1 i where "proc_signal_deliver r k1 = Some (Back (c, r1) k2)" "preempt i r1 k2 = (r', k')"
proof (cases "current_proc k")
  case None
  then show ?thesis using assms that(1) by (simp add: proc_sched_tick_def)
next
  case (Some i)
  show ?thesis
  proof (cases "p_pid (procs k ! i) = 1 \<or> r_cs r AND 3 \<noteq> 3 \<or> p_state (procs k ! i) \<noteq> PROC_RUNNING")
    case True
    then show ?thesis using assms that(1) Some by (auto simp: proc_sched_tick_def)
  next
    case False
    then obtain ok k1 where a: "proc_fdstate_alloc i k = Some (ok, k1)"
      using assms Some by (auto simp: proc_sched_tick_def bind_eq_Some_conv)
    show ?thesis
    proof (cases ok)
      case False
      then show ?thesis using assms that(1) Some a \<open>\<not> (_ \<or> _)\<close> by (auto simp: proc_sched_tick_def)
    next
      case True
      then obtain d where d: "proc_signal_deliver r k1 = Some d" using assms Some a False
        by (auto simp: proc_sched_tick_def bind_eq_Some_conv)
      show ?thesis
      proof (cases d)
        case (Back cr k2)
        obtain c r1 where cr: "cr = (c, r1)" by force
        show ?thesis
        proof (cases "c \<and> (frame_switched k2 \<or> current_proc k2 \<noteq> Some i)")
          case t: True
          then show ?thesis using assms Some a True d Back cr False that(2) [of k1 k2] by (auto simp: proc_sched_tick_def)
        next
          case f: False
          then show ?thesis using assms Some a True d Back cr False that(3) [of k1 c r1 k2 i]
            by (auto simp: proc_sched_tick_def split: prod.splits)
        qed
      next
        case (Shell k2)
        then show ?thesis using assms Some a True d False by (auto simp: proc_sched_tick_def)
      qed
    qed
  qed
qed

lemma tick_user: "user_frame r \<Longrightarrow> proc_sched_tick r k = Some (Back r' k') \<Longrightarrow> user_frame r'"
proof -
  assume r: "user_frame r" and t: "proc_sched_tick r k = Some (Back r' k')"
  have d: "user_frame b" if "proc_signal_deliver r x = Some (Back (a, b) c)" for x a b c
  proof -
    from that consider "b = r" | i where "deliver_loop i r x = Some (Back (a, b) c)"
      by (auto simp: proc_signal_deliver_def split: option.splits if_splits)
    then show ?thesis
    proof cases
      case 2
      from deliver_user [OF 2 r] show ?thesis by (simp add: flow_user_def)
    qed (use r in simp)
  qed
  from t show ?thesis
  proof (cases rule: sched_tick_cases)
    case (preempted k1 k2 c r1 i)
    then show ?thesis using preempt_user [OF d [OF preempted(1)], of i k2] by simp
  qed (use r d in auto)
qed

lemma block_user:
  "user_frame r \<Longrightarrow> proc_block_current_ext r kind ptr len dl has fd k = Some (ok, r', k') \<Longrightarrow> user_frame r'"
proof -
  assume r: "user_frame r" and b: "proc_block_current_ext r kind ptr len dl has fd k = Some (ok, r', k')"
  have l: "user_frame a" if "sched_load n r x = (a, c)" for n x a c using sched_load_user [of n r x] that by simp
  show ?thesis using b r
    by (auto simp: proc_block_current_ext_def bind_eq_Some_conv Let_def split: option.splits if_splits prod.splits dest: l)
qed

lemma isr_user: "user_frame r \<Longrightarrow> isr_handler cr2 r k = Iret r' k' \<Longrightarrow> user_frame r'"
  using exit_user by (auto simp: isr_handler_def user_handle_fault_def Let_def split: option.splits if_splits prod.splits flow.splits)

text \<open>C4: whatever happens in the kernel (a timer tick with signals and preemption, a return from a signal handler with
  forged contents, blocking, a fault, an exit), control only ever returns to user mode in ring 3 with
  interrupts enabled and without I/O privilege.\<close>

theorem trap_returns_unprivileged:
  assumes "user_frame r" and "trap_step t r k = Some (r', k')"
  shows "user_frame r'"
  using assms restored_regs_user tick_user [OF assms(1)] block_user [OF assms(1)] isr_user [OF assms(1)] exit_user
  by (cases t) (auto simp: proc_sigreturn_def Let_def bind_eq_Some_conv
      split: option.splits flow.splits isr_result.splits prod.splits if_splits)

definition heap_demo :: kheap_state where
  "heap_demo = mm_state.extend mm_small \<lparr>heap_start = 0, heap_size = 0\<rparr>"

definition kernel_demo :: "drive kernel" where
  "kernel_demo = kbd_state.extend (kbd_start\<lparr>pipes := replicate 8 zero_pipe\<rparr>) \<lparr>k_mm = heap_demo, k_fs = fs_demo,
     k_pit = \<lparr>pit_ticks = 5, pit_freq = 100, pit_ms_per_tick = 10\<rparr>, k_seg = seg_demo, k_modules = \<lparr>modules = [], module_count = 0\<rparr>,
     task_count = 1, console = [], user_fds = replicate 11 free_fd,
     cwd_path = copy_name [0x2F], u_active = True, u_faulted = False, u_exit_code = 0, brk_base = 0, brk_current = 0,
     esp_save = 0, esp_launch = 0, procs = table_demo, current_proc = Some 1, next_pid = 5, frame_switched = False,
     spaces = (\<lambda>_. zero_space), fdstates = (\<lambda>_. \<lparr>fds_refs = 0, fds_tab = []\<rparr>)\<rparr>"

definition frame_demo :: registers_t where
  "frame_demo = \<lparr>r_gs = 0x23, r_fs = 0x23, r_es = 0x23, r_ds = 0x23, r_edi = 1, r_esi = 2, r_ebp = 3, r_esp = 0, r_ebx = 4,
     r_edx = 5, r_ecx = 6, r_eax = 7, r_int_no = 32, r_err_code = 0, r_eip = 0x08048100, r_cs = 0x1B, r_eflags = 0x202,
     r_useresp = 0x08840000, r_ss = 0x23\<rparr>"

lemma frame_demo_user: "user_frame frame_demo"
proof -
  have "bit (0x202::u32) 9" "\<not> bit (0x202::u32) 12" "\<not> bit (0x202::u32) 13" by code_simp+
  then show ?thesis by (simp add: user_frame_def frame_demo_def)
qed

lemma kernel_demo_simps:
  "procs kernel_demo = table_demo" "current_proc kernel_demo = Some 1" "u_active kernel_demo"
  by (simp_all add: kernel_demo_def kbd_state.defs)

theorem trap_returns_unprivileged_witness:
  "\<exists>r' k'. trap_step (Exit 7) frame_demo kernel_demo = Some (r', k') \<and> user_frame r'"
proof -
  have f: "p_fd_state (table_demo ! 1) = 0" "p_pid (table_demo ! 1) = 2" "p_ppid (table_demo ! 1) = 0" "length table_demo = 8"
    by (simp_all add: table_demo_def proc_demo_def zero_proc_def)
  define g :: "proc_t \<Rightarrow> proc_t" where "g = (\<lambda>p. p\<lparr>p_exit_code := 7, p_faulted := False, p_state := PROC_ZOMBIE, p_has_ctx := False,
    p_blk_has_deadline := False, p_wait_kind := PROC_WAIT_NONE\<rparr>)"
  define k where "k = user_set_active False (upd_proc 1 g kernel_demo)"
  have k: "procs k = table_demo[1 := g (table_demo ! 1)]"
    by (simp add: k_def user_set_active_def upd_proc_def kernel_demo_simps)
  have "proc_find 0 k = None"
    by (simp add: proc_find_def find_idx_None k) (simp add: g_def table_demo_def proc_demo_def zero_proc_def)
  then have w: "proc_wake_parent 1 k = k" using f by (simp add: proc_wake_parent_def k g_def)
  have "runnable (procs k ! 3)" using f by (simp add: k runnable_def) (simp add: table_demo_def proc_demo_def)
  then obtain n where "sched_pick_next None (procs k) = Some n"
    by (cases "sched_pick_next None (procs k)") (auto simp: sched_pick_next_def find_None_iff PROC_MAX_def)
  then have "\<exists>r' k'. trap_step (Exit 7) frame_demo kernel_demo = Some (r', k')"
    using f w unfolding k_def g_def by (simp add: proc_exit_current_def kernel_demo_simps Let_def split_beta)
  then show ?thesis using trap_returns_unprivileged [OF frame_demo_user] by blast
qed

section \<open>Switching out and back\<close>

text \<open>What belongs to the running process and lives in the kernel's globals.\<close>

definition live_state :: "'h kernel \<Rightarrow> user_fd_t list \<times> u8 list \<times> (u32 \<times> u32) \<times> (u32 \<times> u32 \<times> u32)" where
  "live_state k = (user_fds k, user_cwd_get k, user_get_brk_state k, gdt_get_user_tls (k_seg k))"

definition user_regs :: "registers_t \<Rightarrow> u32 list" where
  "user_regs r = [r_eip r, r_useresp r, r_eflags r, r_eax r, r_ebx r, r_ecx r, r_edx r, r_esi r, r_edi r, r_ebp r, r_fs r, r_gs r]"

definition live_ok :: "'h kernel \<Rightarrow> bool" where
  "live_ok k \<longleftrightarrow> (let c = user_cwd_get k in c \<noteq> [] \<and> c ! 0 = slash \<and> length c < 64) \<and>
     USER_BASE \<le> brk_base k \<and> brk_base k \<le> brk_current k \<and> brk_current k \<le> USER_END \<and>
     tls_limit (k_seg k) AND 0xFFFFF = tls_limit (k_seg k)"

lemma upd_proc_sel [simp]:
  "user_fds (upd_proc i f k) = user_fds k" "cwd_path (upd_proc i f k) = cwd_path k" "k_seg (upd_proc i f k) = k_seg k"
  "brk_base (upd_proc i f k) = brk_base k" "brk_current (upd_proc i f k) = brk_current k"
  "fdstates (upd_proc i f k) = fdstates k" "k_mm (upd_proc i f k) = k_mm k" "current_proc (upd_proc i f k) = current_proc k"
  "length (procs (upd_proc i f k)) = length (procs k)"
  by (simp_all add: upd_proc_def)

lemma upd_proc_nth: "procs (upd_proc i f k) ! j = (if i = j \<and> j < length (procs k) then f (procs k ! j) else procs k ! j)"
  by (cases "i = j"; cases "i < length (procs k)") (auto simp: upd_proc_def list_update_beyond)

lemma cstr_cstr_len: "0 \<notin> set (cstr a)"
  by (auto simp: cstr_def dest: set_takeWhileD)

text \<open>The entry and the saved table a preempted process is left with.\<close>

lemma save_state_proc:
  assumes "i < length (procs k)" and "p_fd_state (procs k ! i) \<noteq> 0" and "\<not> p_is_thread (procs k ! i)"
    and "k' = proc_save_state i (proc_save_ctx i r k)"
  shows "\<exists>p. procs k' ! i = p \<and> p_cwd p = copy_name (user_cwd_get k) \<and> p_brk_base p = brk_base k \<and> p_brk_cur p = brk_current k \<and>
      (p_tls_base p, p_tls_limit p, p_tls_flags p) = gdt_get_user_tls (k_seg k) \<and> \<not> p_is_thread p \<and>
      p_fd_state p = p_fd_state (procs k ! i) \<and> p_pd_phys p = p_pd_phys (procs k ! i) \<and>
      load_regs p = load_regs (save_ctx r (procs k ! i)) \<and> p_used p = p_used (procs k ! i) \<and> p_pid p = p_pid (procs k ! i)"
    and "fds_tab (fdstates k' (p_fd_state (procs k ! i) - 4)) = user_fds k"
    and "length (procs k') = length (procs k)"
  using assms by (simp_all add: proc_save_state_def proc_save_ctx_def upd_proc_nth user_fd_state_save_def set_fdstate_def
      user_cwd_get_def user_get_brk_state_def gdt_get_user_tls_def save_ctx_def load_regs_def Let_def fun_eq_iff)

lemma flags_again: "bit (f::u32) 9 \<Longrightarrow> \<not> bit f 12 \<Longrightarrow> \<not> bit f 13 \<Longrightarrow> (f OR 0x200) AND NOT 0x3000 = f"
proof (rule bit_word_eqI)
  fix n assume f: "bit f 9" "\<not> bit f 12" "\<not> bit f 13" and "n < LENGTH(32)"
  have c: "(0x200::u32) = push_bit 9 1" "(0x3000::u32) = push_bit 12 (mask 2)" by (simp_all add: push_bit_eq_mult mask_eq_exp_minus_1)
  have b: "bit (0x200::u32) n \<longleftrightarrow> n = 9" unfolding c bit_push_bit_iff bit_1_iff by auto
  have "bit (0x3000::u32) n \<longleftrightarrow> 12 \<le> n \<and> n < 14" unfolding c bit_push_bit_iff bit_mask_iff by auto
  then have b2: "bit (0x3000::u32) n \<longleftrightarrow> n = 12 \<or> n = 13" by auto
  show "bit ((f OR 0x200) AND NOT 0x3000) n = bit f n"
    unfolding bit_and_iff bit_or_iff bit_not_iff b b2 using f \<open>n < LENGTH(32)\<close> by auto
qed

lemma load_save_regs:
  assumes "user_frame r" and "r_fs r \<noteq> 0" "r_fs r AND 0xFFFF = r_fs r" "r_gs r \<noteq> 0" "r_gs r AND 0xFFFF = r_gs r"
  shows "user_regs (load_regs (save_ctx r p) r2) = user_regs r"
  using assms flags_again [of "r_eflags r", simplified] by (simp add: user_regs_def load_regs_def save_ctx_def user_frame_def)

lemma sched_load_live:
  assumes "p_fd_state (procs k ! i) \<noteq> 0" "\<not> p_is_thread (procs k ! i)" and "p_cwd (procs k ! i) = copy_name c"
    and "c \<noteq> []" "c ! 0 = slash" "length c < 64" "0 \<notin> set c"
    and "USER_BASE \<le> p_brk_base (procs k ! i)" "p_brk_base (procs k ! i) \<le> p_brk_cur (procs k ! i)" "p_brk_cur (procs k ! i) \<le> USER_END"
    and "p_tls_limit (procs k ! i) AND 0xFFFFF = p_tls_limit (procs k ! i)"
  shows "live_state (snd (sched_load i r k)) = (saved_tab (p_fd_state (procs k ! i)) k, c,
    (p_brk_base (procs k ! i), p_brk_cur (procs k ! i)),
    (p_tls_base (procs k ! i), p_tls_limit (procs k ! i), p_tls_flags (procs k ! i)))"
  using assms copy_name_cstr [of c] leD [OF assms(8)] leD [OF assms(9)] leD [OF assms(10)]
  by (simp add: live_state_def sched_load_def proc_switch_space_def seg_upd_def mm_upd_def Let_def user_fd_state_restore_def
      saved_tab_def user_cwd_set_def user_restore_brk_state_def proc_set_current_def user_set_active_def user_cwd_get_def
      user_get_brk_state_def gdt_get_user_tls_def gdt_set_user_tls_def USER_FD_PATH_MAX_def)

lemma switch_back:
  assumes "i < length (procs k)" and "p_fd_state (procs k ! i) \<noteq> 0" and "\<not> p_is_thread (procs k ! i)" and "live_ok k"
    and "user_frame r" and "r_fs r \<noteq> 0" "r_fs r AND 0xFFFF = r_fs r" "r_gs r \<noteq> 0" "r_gs r AND 0xFFFF = r_gs r"
    and "k1 = upd_proc i (\<lambda>p. p\<lparr>p_state := PROC_READY\<rparr>) (proc_save_state i (proc_save_ctx i r k))"
    and "procs k2 ! i = procs k1 ! i" and "saved_tab (p_fd_state (procs k ! i)) k2 = saved_tab (p_fd_state (procs k ! i)) k1"
    and "sched_load i r2 k2 = (r3, k3)"
  shows "user_regs r3 = user_regs r \<and> live_state k3 = live_state k \<and> current_proc k3 = Some i \<and>
    (p_pd_phys (procs k ! i) \<noteq> 0 \<longrightarrow> cr3 (k_mm k3) = p_pd_phys (procs k ! i))"
proof -
  define ks where "ks = proc_save_state i (proc_save_ctx i r k)"
  note sv = save_state_proc [OF assms(1-3) ks_def]
  obtain p where p: "procs ks ! i = p" "p_cwd p = copy_name (user_cwd_get k)" "p_brk_base p = brk_base k" "p_brk_cur p = brk_current k"
      "(p_tls_base p, p_tls_limit p, p_tls_flags p) = gdt_get_user_tls (k_seg k)" "\<not> p_is_thread p"
      "p_fd_state p = p_fd_state (procs k ! i)" "p_pd_phys p = p_pd_phys (procs k ! i)"
      "load_regs p = load_regs (save_ctx r (procs k ! i))"
    using sv(1) by blast
  have q: "procs k2 ! i = p\<lparr>p_state := PROC_READY\<rparr>"
    using assms(1,10,11) sv(3) p(1) by (simp add: upd_proc_nth flip: ks_def)
  have tab: "saved_tab (p_fd_state (procs k ! i)) k2 = user_fds k"
    using assms(10,12) sv(2) by (simp add: saved_tab_def flip: ks_def)
  have "load_regs (p\<lparr>p_state := PROC_READY\<rparr>) = load_regs p" by (simp add: load_regs_def fun_eq_iff)
  then have "user_regs r3 = user_regs r"
    using sched_load_regs [of i r2 k2] assms(13) load_save_regs [OF assms(5-9)] p(9) q by simp
  moreover have "live_state k3 = live_state k"
    using sched_load_live [of k2 i "user_cwd_get k" r2] assms(2,4,13) p tab q
    by (simp add: live_ok_def Let_def live_state_def user_get_brk_state_def gdt_get_user_tls_def user_cwd_get_def cstr_cstr_len)
  moreover have "k3 = snd (sched_load i r2 k2)" using assms(13) by simp
  then have "current_proc k3 = Some i \<and> (p_pd_phys (procs k ! i) \<noteq> 0 \<longrightarrow> cr3 (k_mm k3) = p_pd_phys (procs k ! i))"
    using p(8) q by (auto simp: sched_load_def proc_switch_space_def seg_upd_def mm_upd_def Let_def user_fd_state_restore_def
        user_cwd_set_def user_restore_brk_state_def proc_set_current_def user_set_active_def mm_switch_pd_def)
  ultimately show ?thesis by blast
qed

lemma sched_load_other:
  assumes "n \<noteq> i"
  shows "procs (snd (sched_load n r k)) ! i = procs k ! i" and "fdstates (snd (sched_load n r k)) = fdstates k"
    and "current_proc (snd (sched_load n r k)) = Some n"
  using assms by (simp_all add: sched_load_def proc_switch_space_def seg_upd_def mm_upd_def Let_def user_fd_state_restore_def
      user_cwd_set_def user_restore_brk_state_def proc_set_current_def user_set_active_def upd_proc_def)

lemma save_state_current: "current_proc (proc_save_state i (proc_save_ctx i r k)) = current_proc k"
  by (simp add: proc_save_state_def proc_save_ctx_def user_fd_state_save_def set_fdstate_def Let_def split_beta)

text \<open>C5: preemption is transparent: a process that is switched out by the timer and later switched back in, after
  anything that leaves its table entry and its saved descriptors alone, continues with the same registers,
  descriptors, working directory, program break and thread-local segment, on its own page directory.\<close>

theorem switch_transparent:
  assumes "i < length (procs k)" and "p_fd_state (procs k ! i) \<noteq> 0" and "\<not> p_is_thread (procs k ! i)" and "live_ok k"
    and "user_frame r" and "r_fs r \<noteq> 0" "r_fs r AND 0xFFFF = r_fs r" "r_gs r \<noteq> 0" "r_gs r AND 0xFFFF = r_gs r"
    and "current_proc k = Some i" and "preempt i r k = (r1, k1)" and "current_proc k1 \<noteq> Some i"
    and "procs k2 ! i = procs k1 ! i" and "saved_tab (p_fd_state (procs k ! i)) k2 = saved_tab (p_fd_state (procs k ! i)) k1"
    and "sched_load i r2 k2 = (r3, k3)"
  shows "user_regs r3 = user_regs r \<and> live_state k3 = live_state k \<and> current_proc k3 = Some i \<and>
    (p_pd_phys (procs k ! i) \<noteq> 0 \<longrightarrow> cr3 (k_mm k3) = p_pd_phys (procs k ! i))"
proof -
  define ks where "ks = upd_proc i (\<lambda>p. p\<lparr>p_state := PROC_READY\<rparr>) (proc_save_state i (proc_save_ctx i r k))"
  have cur: "current_proc ks = Some i" using assms(10) by (simp add: ks_def save_state_current)
  obtain n where n: "n \<noteq> i" "k1 = snd (sched_load n r ks)"
    using assms(11,12) cur by (auto simp: preempt_def Let_def ks_def [symmetric] split: option.splits if_splits)
  have "procs k2 ! i = procs ks ! i" "saved_tab (p_fd_state (procs k ! i)) k2 = saved_tab (p_fd_state (procs k ! i)) ks"
    using assms(13,14) by (simp_all add: n(2) saved_tab_def sched_load_other [OF n(1)])
  from switch_back [OF assms(1-9) ks_def this assms(15)] show ?thesis .
qed

text \<open>A second process on which to see it.\<close>

definition switch_demo :: "drive kernel" where
  "switch_demo = kernel_demo\<lparr>procs := table_demo[1 := (proc_demo 2)\<lparr>p_state := PROC_RUNNING, p_fd_state := 0x1004\<rparr>],
     brk_base := 0x08050000, brk_current := 0x08051000\<rparr>"

theorem switch_transparent_witness:
  "\<exists>r1 k1 r3 k3. preempt 1 frame_demo switch_demo = (r1, k1) \<and> current_proc k1 = Some 3 \<and>
     sched_load 1 r1 k1 = (r3, k3) \<and> user_regs r3 = user_regs frame_demo \<and> live_state k3 = live_state switch_demo"
proof -
  obtain r1 k1 where p: "preempt 1 frame_demo switch_demo = (r1, k1)" by force
  obtain r3 k3 where l: "sched_load 1 r1 k1 = (r3, k3)" by force
  have t: "procs switch_demo = table_demo[1 := (proc_demo 2)\<lparr>p_state := PROC_RUNNING, p_fd_state := 0x1004\<rparr>]"
    "current_proc switch_demo = Some 1" "length table_demo = 8"
    by (simp_all add: switch_demo_def kernel_demo_simps table_demo_def)
  define ks where "ks = upd_proc 1 (\<lambda>p. p\<lparr>p_state := PROC_READY\<rparr>) (proc_save_state 1 (proc_save_ctx 1 frame_demo switch_demo))"
  have o: "procs ks ! j = procs switch_demo ! j" if "j \<noteq> 1" for j
    using that by (simp add: ks_def upd_proc_nth proc_save_state_def proc_save_ctx_def user_fd_state_save_def set_fdstate_def
        Let_def split_beta)
  have r: "runnable (procs ks ! 3)" "\<not> runnable (procs ks ! 2)"
    using o [of 3] o [of 2] t by (simp_all add: table_demo_def proc_demo_def zero_proc_def runnable_def)
  have "map (\<lambda>n. (1 + 1 + n) mod PROC_MAX) [0..<PROC_MAX] = [2, 3, 4, 5, 6, 7, 0, 1]" by (simp add: PROC_MAX_def upt_rec)
  then have "sched_pick_next (Some 1) (procs ks) = Some 3" using r by (simp add: sched_pick_next_def)
  then have k1: "k1 = snd (sched_load 3 frame_demo ks)" using p unfolding preempt_def Let_def ks_def [symmetric] by simp
  then have cur: "current_proc k1 = Some 3" using sched_load_other(3) [of 3 1] by simp
  have c: "user_cwd_get switch_demo = [0x2F]"
    using copy_name_cstr(1) [of "[0x2F]"] by (simp add: user_cwd_get_def switch_demo_def kernel_demo_def kbd_state.defs)
  have "k_seg switch_demo = seg_demo" by (simp add: switch_demo_def kernel_demo_def kbd_state.defs)
  then have lv: "live_ok switch_demo"
    using c by (simp add: live_ok_def Let_def USER_BASE_def USER_END_def USER_SIZE_def seg_demo_def) (simp add: switch_demo_def)
  have m: "(0x23::u32) AND 0xFFFF = 0x23" by code_simp
  have "user_regs r3 = user_regs frame_demo \<and> live_state k3 = live_state switch_demo \<and> current_proc k3 = Some 1 \<and>
      (p_pd_phys (procs switch_demo ! 1) \<noteq> 0 \<longrightarrow> cr3 (k_mm k3) = p_pd_phys (procs switch_demo ! 1))"
    by (rule switch_transparent [OF _ _ _ lv frame_demo_user _ _ _ _ t(2) p _ refl refl l])
      (use cur t m in \<open>simp_all add: proc_demo_def zero_proc_def frame_demo_def\<close>)
  then show ?thesis using p l cur by blast
qed

end
