(* ===== verification/Vfs.thy ===== *)
theory Vfs
  imports Signals
begin

text \<open>
  The name space of \<^verbatim>\<open>src/syscall.c\<close>: canonical paths, the lookup that joins the RAM file system with
  \<^verbatim>\<open>/dev\<close>, \<^verbatim>\<open>/proc\<close>, \<^verbatim>\<open>/etc\<close> and the boot modules, generated
  files, directory listings and the permission checks.  A C string is the list of its characters before the NUL.
\<close>

declare drop_bit_and [simp del] drop_bit_or [simp del]

section \<open>Error codes\<close>

definition ERR_EPERM :: u32 where "ERR_EPERM = 1"
definition ERR_ENOENT :: u32 where "ERR_ENOENT = 2"
definition ERR_ESRCH :: u32 where "ERR_ESRCH = 3"
definition ERR_EINTR :: u32 where "ERR_EINTR = 4"
definition ERR_ENOEXEC :: u32 where "ERR_ENOEXEC = 8"
definition ERR_EBADF :: u32 where "ERR_EBADF = 9"
definition ERR_ECHILD :: u32 where "ERR_ECHILD = 10"
definition ERR_EAGAIN :: u32 where "ERR_EAGAIN = 11"
definition ERR_ENOMEM :: u32 where "ERR_ENOMEM = 12"
definition ERR_EACCES :: u32 where "ERR_EACCES = 13"
definition ERR_EFAULT :: u32 where "ERR_EFAULT = 14"
definition ERR_EBUSY :: u32 where "ERR_EBUSY = 16"
definition ERR_EEXIST :: u32 where "ERR_EEXIST = 17"
definition ERR_ENODEV :: u32 where "ERR_ENODEV = 19"
definition ERR_ENOTDIR :: u32 where "ERR_ENOTDIR = 20"
definition ERR_EISDIR :: u32 where "ERR_EISDIR = 21"
definition ERR_EINVAL :: u32 where "ERR_EINVAL = 22"
definition ERR_EMFILE :: u32 where "ERR_EMFILE = 24"
definition ERR_ENOTTY :: u32 where "ERR_ENOTTY = 25"
definition ERR_EFBIG :: u32 where "ERR_EFBIG = 27"
definition ERR_ENOSPC :: u32 where "ERR_ENOSPC = 28"
definition ERR_ERANGE :: u32 where "ERR_ERANGE = 34"
definition ERR_ENAMETOOLONG :: u32 where "ERR_ENAMETOOLONG = 36"
definition ERR_ENOSYS :: u32 where "ERR_ENOSYS = 38"
definition ERR_ENOTEMPTY :: u32 where "ERR_ENOTEMPTY = 39"
definition ERR_EAFNOSUPPORT :: u32 where "ERR_EAFNOSUPPORT = 97"
definition ERR_ENOTCONN :: u32 where "ERR_ENOTCONN = 107"

lemmas err_defs = ERR_EPERM_def ERR_ENOENT_def ERR_ESRCH_def ERR_EINTR_def ERR_ENOEXEC_def ERR_EBADF_def ERR_ECHILD_def
  ERR_EAGAIN_def ERR_ENOMEM_def ERR_EACCES_def ERR_EFAULT_def ERR_EBUSY_def ERR_EEXIST_def ERR_ENODEV_def ERR_ENOTDIR_def
  ERR_EISDIR_def ERR_EINVAL_def ERR_EMFILE_def ERR_ENOTTY_def ERR_EFBIG_def ERR_ENOSPC_def ERR_ERANGE_def
  ERR_ENAMETOOLONG_def ERR_ENOSYS_def ERR_ENOTEMPTY_def ERR_EAFNOSUPPORT_def ERR_ENOTCONN_def

definition err :: "u32 \<Rightarrow> u32" where
  "err code = - code"

text \<open>\<^verbatim>\<open>(int32_t)rc < 0\<close>\<close>

definition failed :: "u32 \<Rightarrow> bool" where
  "failed rc \<longleftrightarrow> sint rc < 0"

section \<open>Canonical paths\<close>

text \<open>The bytes of a string literal.\<close>

definition str :: "string \<Rightarrow> u8 list" where
  "str s = map of_char s"

abbreviation dot :: u8 where "dot \<equiv> 0x2E"

text \<open>Cut a path at its last slash; without one nothing is left.\<close>

definition cut_last :: "u8 list \<Rightarrow> u8 list" where
  "cut_last tmp = rev (drop 1 (dropWhile (\<lambda>c. c \<noteq> slash) (rev tmp)))"

function norm_loop :: "u8 list \<Rightarrow> u8 list \<Rightarrow> u8 list option" where
  "norm_loop p tmp =
     (let p = dropWhile (\<lambda>c. c = slash) p
      in if p = [] then Some tmp
         else
           let comp = takeWhile (\<lambda>c. c \<noteq> slash) p; rest = dropWhile (\<lambda>c. c \<noteq> slash) p
           in if comp = [dot] then norm_loop rest tmp
              else if comp = [dot, dot] then norm_loop rest (if tmp = [] then tmp else cut_last tmp)
              else if length tmp + length comp + 2 \<ge> USER_FD_PATH_MAX then None
              else norm_loop rest (tmp @ [slash] @ comp))"
  by pat_completeness auto

lemma norm_shrinks:
  assumes "dropWhile (\<lambda>c. c = slash) p \<noteq> []"
  shows "length (dropWhile (\<lambda>c. c \<noteq> slash) (dropWhile (\<lambda>c. c = slash) p)) < length p"
proof -
  obtain c q where q: "dropWhile (\<lambda>c. c = slash) p = c # q" using assms by (cases "dropWhile (\<lambda>c. c = slash) p") auto
  then have "c \<noteq> slash" by (metis (mono_tags, lifting) dropWhile_eq_Cons_conv)
  moreover have "length (c # q) \<le> length p" by (metis length_dropWhile_le q)
  moreover have "length (dropWhile (\<lambda>c. c \<noteq> slash) q) \<le> length q" by (rule length_dropWhile_le)
  ultimately show ?thesis using q by simp
qed

termination norm_loop
  by (relation "measure (\<lambda>(p, tmp). length p)") (use norm_shrinks in auto)

declare norm_loop.simps [simp del]

definition vfs_normalize :: "u8 list \<Rightarrow> nat \<Rightarrow> 'h kernel \<Rightarrow> u32 + u8 list" where
  "vfs_normalize path lim k =
     (let cwd = user_cwd_get k;
          relative = (path = [] \<or> path ! 0 \<noteq> slash);
          below = (length cwd > 1 \<and> cwd ! 0 = slash)
      in if relative \<and> below \<and> length cwd \<ge> USER_FD_PATH_MAX then Inl (err ERR_ENAMETOOLONG)
         else case norm_loop path (if relative \<and> below then cwd else []) of
                None \<Rightarrow> Inl (err ERR_ENAMETOOLONG)
              | Some tmp \<Rightarrow>
                  if tmp = [] then if lim < 2 then Inl (err ERR_ENAMETOOLONG) else Inr [slash]
                  else if length tmp + 1 > lim then Inl (err ERR_ENAMETOOLONG)
                  else Inr tmp)"

section \<open>Lookup\<close>

datatype vfs_type = VFS_T_NONE | VFS_T_FILE | VFS_T_DIR | VFS_T_DEV | VFS_T_VFILE | VFS_T_MODULE

definition VFS_DIR_ROOT :: int where "VFS_DIR_ROOT = 1"
definition VFS_DIR_DEV :: int where "VFS_DIR_DEV = 2"
definition VFS_DIR_PROC :: int where "VFS_DIR_PROC = 3"
definition VFS_DIR_ETC :: int where "VFS_DIR_ETC = 4"
definition VFS_DIR_PID :: int where "VFS_DIR_PID = 5"
definition VFS_DIR_BIN :: int where "VFS_DIR_BIN = 6"
definition VFS_DIR_USRBIN :: int where "VFS_DIR_USRBIN = 7"
definition VFS_DIR_SBIN :: int where "VFS_DIR_SBIN = 8"
definition VFS_DIR_REAL :: int where "VFS_DIR_REAL = 9"

definition VFS_DEV_NULL :: int where "VFS_DEV_NULL = 1"
definition VFS_DEV_ZERO :: int where "VFS_DEV_ZERO = 2"
definition VFS_DEV_CONSOLE :: int where "VFS_DEV_CONSOLE = 3"
definition VFS_DEV_ATA :: int where "VFS_DEV_ATA = 4"

definition VFS_VF_MEMINFO :: int where "VFS_VF_MEMINFO = 1"
definition VFS_VF_UPTIME :: int where "VFS_VF_UPTIME = 2"
definition VFS_VF_VERSION :: int where "VFS_VF_VERSION = 3"
definition VFS_VF_CPUINFO :: int where "VFS_VF_CPUINFO = 4"
definition VFS_VF_MOUNTS :: int where "VFS_VF_MOUNTS = 5"
definition VFS_VF_MTAB :: int where "VFS_VF_MTAB = 6"
definition VFS_VF_PID_STAT :: int where "VFS_VF_PID_STAT = 7"
definition VFS_VF_PID_STATUS :: int where "VFS_VF_PID_STATUS = 8"
definition VFS_VF_PID_CMDLINE :: int where "VFS_VF_PID_CMDLINE = 9"
definition VFS_VF_PID_COMM :: int where "VFS_VF_PID_COMM = 10"
definition VFS_VF_LOADAVG :: int where "VFS_VF_LOADAVG = 11"
definition VFS_VF_STAT :: int where "VFS_VF_STAT = 12"
definition VFS_VF_MAPS :: int where "VFS_VF_MAPS = 13"
definition VFS_VF_PID_MAPS :: int where "VFS_VF_PID_MAPS = 14"

lemmas vfs_ids = VFS_DIR_ROOT_def VFS_DIR_DEV_def VFS_DIR_PROC_def VFS_DIR_ETC_def VFS_DIR_PID_def VFS_DIR_BIN_def
  VFS_DIR_USRBIN_def VFS_DIR_SBIN_def VFS_DIR_REAL_def VFS_DEV_NULL_def VFS_DEV_ZERO_def VFS_DEV_CONSOLE_def VFS_DEV_ATA_def

record vfs_ent_t =
  v_type :: vfs_type
  v_slot :: int
  v_id :: int
  v_pid :: u32
  v_path :: "u8 list"

definition vfs_proc_file_id :: "u8 list \<Rightarrow> int" where
  "vfs_proc_file_id name =
     (if name = str ''meminfo'' then VFS_VF_MEMINFO else if name = str ''uptime'' then VFS_VF_UPTIME
      else if name = str ''version'' then VFS_VF_VERSION else if name = str ''cpuinfo'' then VFS_VF_CPUINFO
      else if name = str ''mounts'' then VFS_VF_MOUNTS else if name = str ''loadavg'' then VFS_VF_LOADAVG
      else if name = str ''stat'' then VFS_VF_STAT else if name = str ''maps'' then VFS_VF_MAPS else 0)"

definition vfs_proc_pid_file_id :: "u8 list \<Rightarrow> int" where
  "vfs_proc_pid_file_id name =
     (if name = str ''stat'' then VFS_VF_PID_STAT else if name = str ''status'' then VFS_VF_PID_STATUS
      else if name = str ''cmdline'' then VFS_VF_PID_CMDLINE else if name = str ''comm'' then VFS_VF_PID_COMM
      else if name = str ''maps'' then VFS_VF_PID_MAPS else 0)"

definition digits_value :: "u8 list \<Rightarrow> u32" where
  "digits_value s = foldl (\<lambda>v c. v * 10 + (ucast c - 0x30)) 0 s"

text \<open>The pid a name stands for, if it is one.\<close>

definition vfs_parse_pid_token :: "u8 list \<Rightarrow> 'h kernel \<Rightarrow> u32 option" where
  "vfs_parse_pid_token s k =
     (if s = str ''self'' then (case current_proc k of None \<Rightarrow> None | Some i \<Rightarrow> Some (p_pid (procs k ! i)))
      else if s = [] then None
      else if list_ex (\<lambda>c. c < 0x30 \<or> c > 0x39) s then None
      else if digits_value s = 0 then None
      else Some (digits_value s))"

definition lookup_dev :: "u8 list \<Rightarrow> 'h kernel \<Rightarrow> u32 + int" where
  "lookup_dev n k =
     (if has_slash n then Inl (err ERR_ENOENT)
      else if n = str ''null'' then Inr VFS_DEV_NULL
      else if n = str ''zero'' then Inr VFS_DEV_ZERO
      else if n = str ''console'' then Inr VFS_DEV_CONSOLE
      else if n = str ''hda'' then if \<not> ata_present (fs_ata (k_fs k)) then Inl (err ERR_ENODEV) else Inr VFS_DEV_ATA
      else Inl (err ERR_ENOENT))"

definition live_pid :: "u8 list \<Rightarrow> 'h kernel \<Rightarrow> u32 option" where
  "live_pid s k = (case vfs_parse_pid_token s k of None \<Rightarrow> None | Some pid \<Rightarrow> if proc_find pid k = None then None else Some pid)"

text \<open>Below \<^verbatim>\<open>/proc/\<close>: type, id and pid.\<close>

definition lookup_proc :: "u8 list \<Rightarrow> 'h kernel \<Rightarrow> u32 + (vfs_type \<times> int \<times> u32)" where
  "lookup_proc n k =
     (if \<not> has_slash n
      then if vfs_proc_file_id n \<noteq> 0 then Inr (VFS_T_VFILE, vfs_proc_file_id n, 0)
           else (case live_pid n k of Some pid \<Rightarrow> Inr (VFS_T_DIR, VFS_DIR_PID, pid) | None \<Rightarrow> Inl (err ERR_ENOENT))
      else
        let token = takeWhile (\<lambda>c. c \<noteq> slash) n; fname = drop 1 (dropWhile (\<lambda>c. c \<noteq> slash) n)
        in if token = [] \<or> length token \<ge> 16 then Inl (err ERR_ENOENT)
           else case live_pid token k of
                  None \<Rightarrow> Inl (err ERR_ENOENT)
                | Some pid \<Rightarrow>
                    if has_slash fname \<or> vfs_proc_pid_file_id fname = 0 then Inl (err ERR_ENOENT)
                    else Inr (VFS_T_VFILE, vfs_proc_pid_file_id fname, pid))"

definition starts :: "string \<Rightarrow> u8 list \<Rightarrow> bool" where
  "starts s path \<longleftrightarrow> take (length s) path = str s"

definition vfs_dir_id :: "u8 list \<Rightarrow> int" where
  "vfs_dir_id path =
     (if path = str ''/'' then VFS_DIR_ROOT else if path = str ''/dev'' then VFS_DIR_DEV
      else if path = str ''/proc'' then VFS_DIR_PROC else if path = str ''/etc'' then VFS_DIR_ETC
      else if path = str ''/bin'' then VFS_DIR_BIN else if path = str ''/usr/bin'' then VFS_DIR_USRBIN
      else if path = str ''/sbin'' then VFS_DIR_SBIN else 0)"

text \<open>The name of a program below one of the three executable directories.\<close>

definition prog_name :: "u8 list \<Rightarrow> u8 list option" where
  "prog_name path =
     (if starts ''/bin/'' path then Some (drop 5 path)
      else if starts ''/usr/bin/'' path then Some (drop 9 path)
      else if starts ''/sbin/'' path then Some (drop 6 path) else None)"

definition vfs_lookup :: "u8 list \<Rightarrow> 'h kernel \<Rightarrow> u32 \<times> vfs_ent_t" where
  "vfs_lookup path k =
     (let e0 = \<lparr>v_type = VFS_T_NONE, v_slot = 0, v_id = 0, v_pid = 0, v_path = []\<rparr>
      in case vfs_normalize path USER_FD_PATH_MAX k of
           Inl rc \<Rightarrow> (rc, e0)
         | Inr q \<Rightarrow>
             let e = e0\<lparr>v_path := q\<rparr>
             in if vfs_dir_id q \<noteq> 0 then (0, e\<lparr>v_type := VFS_T_DIR, v_id := vfs_dir_id q\<rparr>)
                else if starts ''/dev/'' q
                then (case lookup_dev (drop 5 q) k of Inl rc \<Rightarrow> (rc, e) | Inr d \<Rightarrow> (0, e\<lparr>v_type := VFS_T_DEV, v_id := d\<rparr>))
                else if starts ''/proc/'' q
                then (case lookup_proc (drop 6 q) k of Inl rc \<Rightarrow> (rc, e)
                      | Inr (ty, d, pid) \<Rightarrow> (0, e\<lparr>v_type := ty, v_id := d, v_pid := pid\<rparr>))
                else if starts ''/etc/'' q
                then (if drop 5 q = str ''mtab'' then (0, e\<lparr>v_type := VFS_T_VFILE, v_id := VFS_VF_MTAB\<rparr>) else (err ERR_ENOENT, e))
                else case prog_name q of
                       Some prog \<Rightarrow>
                         if prog = [] \<or> has_slash prog \<or> modules_count (k_modules k) = 0 then (err ERR_ENOENT, e)
                         else (0, e\<lparr>v_type := VFS_T_MODULE, v_id := 0\<rparr>)
                     | None \<Rightarrow>
                         let name = drop 1 q
                         in if fs_is_dir name (k_fs k) then (0, e\<lparr>v_type := VFS_T_DIR, v_id := VFS_DIR_REAL\<rparr>)
                            else if fs_open name (k_fs k) < 0 then (err ERR_ENOENT, e)
                            else (0, e\<lparr>v_type := VFS_T_FILE, v_slot := fs_open name (k_fs k)\<rparr>))"

section \<open>Generated files\<close>

text \<open>A string builder over an array of \<open>lim\<close> bytes: what does not fit is dropped.\<close>

definition sb_add :: "nat \<Rightarrow> u8 list \<Rightarrow> u8 list \<Rightarrow> u8 list" where
  "sb_add lim s b = b @ take (lim - 1 - length b) s"

definition sb_dec :: "nat \<Rightarrow> u32 \<Rightarrow> u8 list \<Rightarrow> u8 list" where
  "sb_dec lim v b = (case u32_to_dec v of (tmp, n) \<Rightarrow> b @ take (min n (lim - 1 - length b)) tmp)"

definition sb_dec02 :: "nat \<Rightarrow> u32 \<Rightarrow> u8 list \<Rightarrow> u8 list" where
  "sb_dec02 lim v b = sb_dec lim v (if v < 10 then sb_add lim (str ''0'') b else b)"

definition build :: "(u8 list \<Rightarrow> u8 list) list \<Rightarrow> u8 list" where
  "build fs = foldl (\<lambda>b f. f b) [] fs"

definition meminfo_text :: "nat \<Rightarrow> 'h kernel \<Rightarrow> u8 list" where
  "meminfo_text lim k =
     (let total_kb = mm_get_total_pages (k_mm k) * (PAGE_SIZE div 1024); free_kb = mm_get_free_pages (k_mm k) * (PAGE_SIZE div 1024)
      in build [sb_add lim (str ''MemTotal:       ''), sb_dec lim total_kb, sb_add lim (str '' kB\<newline>MemFree:        ''),
           sb_dec lim free_kb, sb_add lim (str '' kB\<newline>MemAvailable:   ''), sb_dec lim free_kb,
           sb_add lim (str '' kB\<newline>Buffers:        0 kB\<newline>Cached:         0 kB\<newline>''),
           sb_add lim (str ''SwapTotal:      0 kB\<newline>SwapFree:       0 kB\<newline>'')])"

definition uptime_text :: "nat \<Rightarrow> 'h kernel \<Rightarrow> u8 list" where
  "uptime_text lim k =
     (let t = pit_get_ticks (k_pit k); secs = [sb_dec lim (t div 100), sb_add lim (str ''.''), sb_dec02 lim (t mod 100)]
      in build (secs @ [sb_add lim (str '' '')] @ secs @ [sb_add lim (str ''\<newline>'')]))"

definition tab :: u8 where "tab = 9"

definition cpuinfo_text :: "u8 list" where
  "cpuinfo_text = str ''processor'' @ [tab] @ str '': 0\<newline>model name'' @ [tab] @ str '': MuOS virtual i386\<newline>\<newline>''"

definition mounts_text :: "u8 list" where
  "mounts_text = str ''/dev/root / ext2 rw 0 0\<newline>'' @ str ''proc /proc proc rw 0 0\<newline>'' @ str ''devtmpfs /dev devtmpfs rw 0 0\<newline>''"

definition pid_stat_text :: "nat \<Rightarrow> proc_t \<Rightarrow> u8 list" where
  "pid_stat_text lim p =
     build ([sb_dec lim (p_pid p), sb_add lim (str '' (''), sb_add lim (cstr (p_name p)), sb_add lim (str '') ''),
       sb_add lim [of_char (proc_state_char (Some p))], sb_add lim (str '' ''), sb_dec lim (p_ppid p),
       sb_add lim (str '' 0 0 0 0 0 0 0 0 0 0 0 0 0 0 0 0 0 ''), sb_dec lim (p_start_ticks p), sb_add lim (str '' ''),
       sb_dec lim USER_SIZE] @ replicate 29 (sb_add lim (str '' 0'')) @ [sb_add lim (str '' \<newline>'')])"

definition state_text :: "proc_state_t \<Rightarrow> u8 list" where
  "state_text st =
     (if st = PROC_RUNNING then str ''R (running)'' else if st = PROC_ZOMBIE then str ''Z (zombie)'' else str ''S (sleeping)'')"

definition pid_status_text :: "nat \<Rightarrow> proc_t \<Rightarrow> u8 list" where
  "pid_status_text lim p =
     (let ids = [tab] @ str ''0'' @ [tab] @ str ''0'' @ [tab] @ str ''0'' @ [tab] @ str ''0\<newline>''
      in build [sb_add lim (str ''Name:'' @ [tab]), sb_add lim (cstr (p_name p)), sb_add lim (str ''\<newline>State:'' @ [tab]),
           sb_add lim (state_text (p_state p)), sb_add lim (str ''\<newline>Pid:'' @ [tab]), sb_dec lim (p_pid p),
           sb_add lim (str ''\<newline>PPid:'' @ [tab]), sb_dec lim (p_ppid p),
           sb_add lim (str ''\<newline>Uid:'' @ ids @ str ''Gid:'' @ ids @ str ''VmSize:'' @ [tab]),
           sb_dec lim (USER_SIZE div 1024), sb_add lim (str '' kB\<newline>Threads:'' @ [tab] @ str ''1\<newline>'')])"

definition loadavg_text :: "nat \<Rightarrow> 'h kernel \<Rightarrow> u8 list" where
  "loadavg_text lim k =
     build [sb_add lim (str ''0.00 0.00 0.00 1/''), sb_dec lim (word_of_nat (proc_count k)), sb_add lim (str '' ''),
       sb_dec lim (case current_proc k of None \<Rightarrow> 1 | Some i \<Rightarrow> p_pid (procs k ! i)), sb_add lim (str ''\<newline>'')]"

text \<open>\<open>now\<close> is what \<^verbatim>\<open>rtc_now\<close> returns.\<close>

definition stat_text :: "nat \<Rightarrow> u32 \<Rightarrow> 'h kernel \<Rightarrow> u8 list" where
  "stat_text lim now k =
     (let ticks = pit_get_ticks (k_pit k);
          user_t = ticks div 4; sys_t = ticks div 4; idle_t = ticks - user_t - sys_t;
          running = length (filter (\<lambda>i. case proc_get_index (int i) k of None \<Rightarrow> False
                      | Some j \<Rightarrow> p_state (procs k ! j) = PROC_RUNNING \<or> p_state (procs k ! j) = PROC_READY) [0..<proc_count k]);
          line = (\<lambda>cpu. [sb_add lim (str cpu), sb_dec lim user_t, sb_add lim (str '' 0 ''), sb_dec lim sys_t,
                    sb_add lim (str '' ''), sb_dec lim idle_t, sb_add lim (str '' 0 0 0 0 0 0\<newline>'')])
      in build (line ''cpu  '' @ line ''cpu0 '' @
           [sb_add lim (str ''intr ''), sb_dec lim ticks, sb_add lim (str ''\<newline>ctxt 0\<newline>btime ''),
            sb_dec lim (now - ticks div 100), sb_add lim (str ''\<newline>processes ''), sb_dec lim (word_of_nat (proc_count k)),
            sb_add lim (str ''\<newline>procs_running ''), sb_dec lim (word_of_nat running),
            sb_add lim (str ''\<newline>procs_blocked 0\<newline>'')]))"

definition fs_call :: "('h fs_state \<Rightarrow> 'r \<times> 'h fs_state) \<Rightarrow> 'h kernel \<Rightarrow> 'r \<times> 'h kernel" where
  "fs_call f k = (case f (k_fs k) of (r, s) \<Rightarrow> (r, k\<lparr>k_fs := s\<rparr>))"

definition vfs_vfile_text :: "'h ports \<Rightarrow> int \<Rightarrow> u32 \<Rightarrow> nat \<Rightarrow> 'h kernel \<Rightarrow> u8 list \<times> 'h kernel" where
  "vfs_vfile_text P fid pid lim k =
     (let of_pid = (\<lambda>f. case proc_find pid k of None \<Rightarrow> [] | Some i \<Rightarrow> f (procs k ! i))
      in if fid = VFS_VF_MEMINFO then (meminfo_text lim k, k)
         else if fid = VFS_VF_UPTIME then (uptime_text lim k, k)
         else if fid = VFS_VF_VERSION then (sb_add lim (str ''Linux version 1.2.0 (muos@i386) #1\<newline>'') [], k)
         else if fid = VFS_VF_CPUINFO then (sb_add lim cpuinfo_text [], k)
         else if fid = VFS_VF_MOUNTS \<or> fid = VFS_VF_MTAB then (sb_add lim mounts_text [], k)
         else if fid = VFS_VF_PID_STAT then (of_pid (pid_stat_text lim), k)
         else if fid = VFS_VF_PID_STATUS then (of_pid (pid_status_text lim), k)
         else if fid = VFS_VF_PID_COMM
         then (of_pid (\<lambda>p. build [sb_add lim (cstr (p_name p)), sb_add lim (str ''\<newline>'')]), k)
         else if fid = VFS_VF_PID_CMDLINE
         then (of_pid (\<lambda>p. build [sb_add lim (cstr (p_cmdline p)), sb_add lim (str ''\<newline>'')]), k)
         else if fid = VFS_VF_LOADAVG then (loadavg_text lim k, k)
         else if fid = VFS_VF_STAT then (case fs_call (fs_now P) k of (now, k) \<Rightarrow> (stat_text lim now k, k))
         else if fid = VFS_VF_MAPS \<or> fid = VFS_VF_PID_MAPS
         then (sb_add lim (str ''08048000-08848000 rwxp 00000000 00:00 0 [stack]\<newline>'') [], k)
         else ([], k))"

definition vfs_vfile_size :: "'h ports \<Rightarrow> int \<Rightarrow> u32 \<Rightarrow> 'h kernel \<Rightarrow> u32 \<times> 'h kernel" where
  "vfs_vfile_size P fid pid k =
     (case vfs_vfile_text P fid pid USER_FD_VBUF_MAX k of (text, k) \<Rightarrow> (word_of_nat (length text), k))"

definition vfs_module_size :: "int \<Rightarrow> 'h kernel \<Rightarrow> u32" where
  "vfs_module_size idx k =
     (case modules_get (k_modules k) (word_of_int idx) of None \<Rightarrow> 0 | Some (first, stop) \<Rightarrow> stop - first)"

section \<open>Directories\<close>

definition vfs_proc_pid_dir :: "u8 list \<Rightarrow> 'h kernel \<Rightarrow> u32 option" where
  "vfs_proc_pid_dir path k =
     (if \<not> starts ''/proc/'' path then None
      else let n = drop 6 path in if n = [] \<or> has_slash n then None else live_pid n k)"

definition vfs_dir_meta :: "u8 list \<Rightarrow> 'h kernel \<Rightarrow> (int \<times> u32) option" where
  "vfs_dir_meta path k =
     (if vfs_dir_id path \<noteq> 0 then Some (vfs_dir_id path, 0)
      else case vfs_proc_pid_dir path k of
             Some pid \<Rightarrow> Some (VFS_DIR_PID, pid)
           | None \<Rightarrow> if path \<noteq> [] \<and> path ! 0 = slash \<and> fs_is_dir (drop 1 path) (k_fs k) then Some (VFS_DIR_REAL, 0) else None)"

text \<open>The fixed entries of a generated directory: the name at an index, its inode and its type.\<close>

definition fixed_entry :: "string list \<Rightarrow> u32 \<Rightarrow> u8 \<Rightarrow> u32 \<Rightarrow> (u8 list \<times> u32 \<times> u8) option" where
  "fixed_entry names ino ty idx =
     (if unat idx < length names then Some (str (names ! unat idx), ino + idx, ty) else None)"

definition real_entry :: "u8 list \<Rightarrow> u32 \<Rightarrow> u32 \<Rightarrow> 'h kernel \<Rightarrow> (u8 list \<times> u32 \<times> u8) option" where
  "real_entry rel ino idx k =
     (case fs_dir_get rel (sint idx) (k_fs k) of None \<Rightarrow> None
      | Some de \<Rightarrow> Some (cstr (copy_name (cstr (de_name de))), if de_is_dir de then ino + idx else word_of_int (de_slot de + 3),
                       if de_is_dir de then 4 else 8))"

definition root_entry :: "u32 \<Rightarrow> 'h kernel \<Rightarrow> (u8 list \<times> u32 \<times> u8) option" where
  "root_entry idx k =
     (let entries = fs_dir_count [] (k_fs k)
      in if sint idx < entries then real_entry [] 1000 idx k
         else fixed_entry [''bin'', ''dev'', ''proc'', ''etc''] 100 4 (idx - word_of_int entries))"

definition proc_entry :: "u32 \<Rightarrow> 'h kernel \<Rightarrow> (u8 list \<times> u32 \<times> u8) option" where
  "proc_entry idx k =
     (if idx < 8 then fixed_entry [''meminfo'', ''uptime'', ''version'', ''cpuinfo'', ''mounts'', ''loadavg'', ''stat'', ''maps''] 300 8 idx
      else
        let idx = idx - 8
        in if sint idx < int (proc_count k)
           then (case proc_get_index (sint idx) k of None \<Rightarrow> None
                 | Some i \<Rightarrow> Some (cstr (fst (u32_to_dec (p_pid (procs k ! i)))), 500 + p_pid (procs k ! i) * 8, 4))
           else None)"

definition vfs_dir_entry :: "u8 list \<Rightarrow> u32 \<Rightarrow> 'h kernel \<Rightarrow> (u8 list \<times> u32 \<times> u8) option" where
  "vfs_dir_entry path idx k =
     (case vfs_dir_meta path k of
        None \<Rightarrow> None
      | Some (dir, pid) \<Rightarrow>
          if idx = 0 then Some (str ''.'', 1, 4)
          else if idx = 1 then Some (str ''..'', 1, 4)
          else
            let idx = idx - 2
            in if dir = VFS_DIR_ROOT then root_entry idx k
               else if dir = VFS_DIR_DEV
               then (if idx = 3 \<and> \<not> ata_present (fs_ata (k_fs k)) then None
                     else fixed_entry [''null'', ''zero'', ''console'', ''hda''] 200 (if idx = 3 then 6 else 2) idx)
               else if dir = VFS_DIR_PROC then proc_entry idx k
               else if dir = VFS_DIR_PID
               then fixed_entry [''stat'', ''status'', ''comm'', ''cmdline'', ''maps''] (600 + pid * 8) 8 idx
               else if dir = VFS_DIR_REAL then real_entry (if path ! 0 = slash then drop 1 path else path) 1100 idx k
               else if dir = VFS_DIR_BIN \<or> dir = VFS_DIR_USRBIN \<or> dir = VFS_DIR_SBIN
               then fixed_entry [''busybox'', ''sh'', ''ls'', ''cat'', ''ps''] (900 + word_of_int dir * 8) 8 idx
               else if dir = VFS_DIR_ETC then fixed_entry [''mtab''] 400 8 idx
               else None)"

section \<open>Permissions\<close>

definition perm_ok :: "u32 \<Rightarrow> u32 \<Rightarrow> u16 \<Rightarrow> u32 \<Rightarrow> 'h kernel \<Rightarrow> bool" where
  "perm_ok fuid fgid mode need k \<longleftrightarrow>
     (let uid = (case current_proc k of None \<Rightarrow> 0 | Some i \<Rightarrow> p_uid (procs k ! i));
          gid = (case current_proc k of None \<Rightarrow> 0 | Some i \<Rightarrow> p_gid (procs k ! i));
          bits = (if uid = fuid then drop_bit 6 mode AND 7 else if gid = fgid then drop_bit 3 mode AND 7 else mode AND 7)
      in if uid = 0 then if need AND 1 \<noteq> 0 then mode AND 0x49 \<noteq> 0 else True
         else ucast bits AND need = need)"

definition path_perm_ok :: "u8 list \<Rightarrow> u32 \<Rightarrow> 'h kernel \<Rightarrow> bool" where
  "path_perm_ok path need k \<longleftrightarrow>
     (case fs_perm_path (dropWhile (\<lambda>c. c = slash) path) (k_fs k) of
        None \<Rightarrow> True
      | Some (uid, gid, mode, is_dir) \<Rightarrow>
          perm_ok uid gid mode (if is_dir \<and> need AND 3 \<noteq> 0 then need OR 1 else need) k)"

definition parent_perm_ok :: "u8 list \<Rightarrow> u32 \<Rightarrow> 'h kernel \<Rightarrow> bool" where
  "parent_perm_ok rel need k \<longleftrightarrow>
     (if \<not> has_slash rel then path_perm_ok [] need k
      else let par = cut_last rel in if length par \<ge> FS_MAX_NAME then False else path_perm_ok par need k)"

end
