(* ===== verification/Vfs_Paths.thy ===== *)
theory Vfs_Paths
  imports Vfs Sched
begin

text \<open>
  What \<^verbatim>\<open>vfs_normalize\<close> computes: the components of a path, read one after the other as moves in
  the directory tree.
\<close>

section \<open>Components\<close>

fun split :: "u8 list \<Rightarrow> u8 list list" where
  "split [] = [[]]"
| "split (c # cs) = (if c = slash then [] # split cs else (c # hd (split cs)) # tl (split cs))"

definition comps :: "u8 list \<Rightarrow> u8 list list" where
  "comps p = filter (\<lambda>c. c \<noteq> []) (split p)"

definition path_of :: "u8 list list \<Rightarrow> u8 list" where
  "path_of cs = concat (map (\<lambda>c. slash # c) cs)"

definition resolve :: "u8 list list \<Rightarrow> u8 list \<Rightarrow> u8 list list" where
  "resolve st c = (if c = [dot] then st else if c = [dot, dot] then butlast st else st @ [c])"

text \<open>A component of a canonical path.\<close>

definition plain :: "u8 list \<Rightarrow> bool" where
  "plain c \<longleftrightarrow> c \<noteq> [] \<and> slash \<notin> set c \<and> c \<noteq> [dot] \<and> c \<noteq> [dot, dot]"

definition canonical :: "u8 list \<Rightarrow> bool" where
  "canonical q \<longleftrightarrow> q = [slash] \<or> (\<exists>cs. cs \<noteq> [] \<and> list_all plain cs \<and> q = path_of cs)"

lemma split_nonempty [simp]: "split p \<noteq> []" by (cases p) auto

lemma split_slashes: "comps (dropWhile (\<lambda>c. c = slash) p) = comps p"
  by (induction p) (auto simp: comps_def)

lemma split_word:
  assumes "slash \<notin> set w"
  shows "split (w @ p) = (w @ hd (split p)) # tl (split p)"
  using assms by (induction w) auto

lemma comps_word:
  assumes "slash \<notin> set w" and "w \<noteq> []" and "p = [] \<or> p ! 0 = slash"
  shows "comps (w @ p) = w # comps p"
proof (cases p)
  case Nil
  have "split w = [w]" using split_word [OF assms(1), of "[]"] by simp
  then show ?thesis using Nil assms by (simp add: comps_def)
next
  case (Cons c q) then show ?thesis using assms by (simp add: comps_def split_word)
qed

lemma takeWhile_no_slash: "slash \<notin> set (takeWhile (\<lambda>c. c \<noteq> slash) p)"
  by (induction p) auto

lemma comps_step:
  "comps p = (let p = dropWhile (\<lambda>c. c = slash) p
     in if p = [] then [] else takeWhile (\<lambda>c. c \<noteq> slash) p # comps (dropWhile (\<lambda>c. c \<noteq> slash) p))"
proof (cases "dropWhile (\<lambda>c. c = slash) p")
  case Nil
  have "comps p = comps []" using split_slashes [of p] unfolding Nil by simp
  then show ?thesis unfolding Nil by (simp add: comps_def)
next
  case (Cons c q)
  define p' where "p' = c # q"
  have c: "c \<noteq> slash" using Cons by (metis (mono_tags, lifting) dropWhile_eq_Cons_conv)
  have "comps p = comps p'" using split_slashes [of p] Cons by (simp add: p'_def)
  also have "\<dots> = comps (takeWhile (\<lambda>c. c \<noteq> slash) p' @ dropWhile (\<lambda>c. c \<noteq> slash) p')" by simp
  also have "\<dots> = takeWhile (\<lambda>c. c \<noteq> slash) p' # comps (dropWhile (\<lambda>c. c \<noteq> slash) p')"
  proof (rule comps_word)
    show "slash \<notin> set (takeWhile (\<lambda>c. c \<noteq> slash) p')" by (rule takeWhile_no_slash)
    show "takeWhile (\<lambda>c. c \<noteq> slash) p' \<noteq> []" using c by (simp add: p'_def)
    show "dropWhile (\<lambda>c. c \<noteq> slash) p' = [] \<or> dropWhile (\<lambda>c. c \<noteq> slash) p' ! 0 = slash"
      using hd_dropWhile [of "\<lambda>c. c \<noteq> slash" p'] by (metis hd_conv_nth)
  qed
  finally show ?thesis using Cons by (simp add: p'_def)
qed

lemma split_parts: "c \<in> set (split p) \<Longrightarrow> slash \<notin> set c"
proof (induction p arbitrary: c)
  case Nil then show ?case by simp
next
  case (Cons x p)
  have "hd (split p) \<in> set (split p)" "set (tl (split p)) \<subseteq> set (split p)" by (auto dest: list.set_sel(2) [OF split_nonempty])
  then show ?case using Cons by (auto split: if_splits)
qed

lemma comps_parts: "c \<in> set (comps p) \<Longrightarrow> c \<noteq> [] \<and> slash \<notin> set c"
  using split_parts by (auto simp: comps_def)

lemma path_of_append [simp]: "path_of (xs @ ys) = path_of xs @ path_of ys" by (simp add: path_of_def)
lemma path_of_simps [simp]: "path_of [] = []" "path_of (c # cs) = slash # c @ path_of cs" by (simp_all add: path_of_def)
lemma path_of_Nil [simp]: "path_of cs = [] \<longleftrightarrow> cs = []" by (cases cs) auto

lemma comps_path_of:
  assumes "\<And>c. c \<in> set cs \<Longrightarrow> c \<noteq> [] \<and> slash \<notin> set c"
  shows "comps (path_of cs) = cs"
  using assms
proof (induction cs)
  case Nil then show ?case by (simp add: comps_def)
next
  case (Cons c cs)
  have "comps (path_of (c # cs)) = comps (c @ path_of cs)" by (simp add: comps_def)
  also have "\<dots> = c # comps (path_of cs)"
  proof (rule comps_word)
    show "path_of cs = [] \<or> path_of cs ! 0 = slash" by (cases cs) auto
  qed (use Cons.prems in auto)
  finally show ?case using Cons by simp
qed

lemma cut_last_path:
  assumes "slash \<notin> set c"
  shows "cut_last (path_of (st @ [c])) = path_of st"
proof -
  have "dropWhile (\<lambda>x. x \<noteq> slash) (rev c @ slash # rev (path_of st)) = slash # rev (path_of st)"
    using assms by (subst dropWhile_append2) auto
  then show ?thesis by (simp add: cut_last_def)
qed

section \<open>The loop\<close>

text \<open>Walking the components with a bound on every intermediate path.\<close>

fun walk :: "u8 list list \<Rightarrow> u8 list list \<Rightarrow> u8 list list option" where
  "walk [] st = Some st"
| "walk (c # cs) st =
     (if plain c \<and> length (path_of (resolve st c)) \<ge> 63 then None else walk cs (resolve st c))"

lemma norm_loop_walk:
  assumes "list_all plain st"
  shows "norm_loop p (path_of st) = map_option path_of (walk (comps p) st)"
  using assms
proof (induction p "path_of st" arbitrary: st rule: norm_loop.induct)
  case (1 p)
  define q where "q = dropWhile (\<lambda>c. c = slash) p"
  define c where "c = takeWhile (\<lambda>c. c \<noteq> slash) q"
  define rest where "rest = dropWhile (\<lambda>c. c \<noteq> slash) q"
  show ?case
  proof (cases "q = []")
    case True
    then show ?thesis by (subst norm_loop.simps, subst comps_step) (simp add: q_def [symmetric])
  next
    case False
    have cs: "comps p = c # comps rest" by (subst comps_step) (use False in \<open>simp add: q_def [symmetric] c_def rest_def\<close>)
    then have c: "c \<noteq> []" "slash \<notin> set c" using comps_parts [of c p] by auto
    have step: "norm_loop p (path_of st) =
        (if c = [dot] then norm_loop rest (path_of st)
         else if c = [dot, dot] then norm_loop rest (if path_of st = [] then path_of st else cut_last (path_of st))
         else if length (path_of st) + length c + 2 \<ge> USER_FD_PATH_MAX then None
         else norm_loop rest (path_of st @ [slash] @ c))"
      by (subst norm_loop.simps) (use False in \<open>simp add: q_def [symmetric] c_def rest_def Let_def\<close>)
    note IH = "1.hyps" [OF q_def False c_def rest_def]
    consider "c = [dot]" | "c = [dot, dot]" | "plain c" using c by (auto simp: plain_def)
    then show ?thesis
    proof cases
      case 1
      have "norm_loop rest (path_of st) = map_option path_of (walk (comps rest) st)"
        using IH(1) [OF 1 refl] "1.prems" by simp
      then show ?thesis using step 1 cs by (simp add: plain_def resolve_def)
    next
      case 2
      then have e: "(if path_of st = [] then path_of st else cut_last (path_of st)) = path_of (butlast st)"
        using "1.prems" by (cases st rule: rev_cases) (auto simp: cut_last_path plain_def simp del: path_of_append)
      have "list_all plain (butlast st)" using "1.prems" by (auto simp: list_all_iff dest: in_set_butlastD)
      then have "norm_loop rest (path_of (butlast st)) = map_option path_of (walk (comps rest) (butlast st))"
        using IH(2) [of "butlast st"] 2 e by simp
      then show ?thesis using step 2 cs e by (simp add: plain_def resolve_def)
    next
      case 3
      then have nd: "c \<noteq> [dot]" "c \<noteq> [dot, dot]" by (auto simp: plain_def)
      have r: "resolve st c = st @ [c]" using nd by (simp add: resolve_def)
      show ?thesis
      proof (cases "length (path_of st) + length c + 2 \<ge> USER_FD_PATH_MAX")
        case True
        then show ?thesis using step nd cs 3 r by (simp add: USER_FD_PATH_MAX_def)
      next
        case False
        have "norm_loop rest (path_of (st @ [c])) = map_option path_of (walk (comps rest) (st @ [c]))"
          using IH(3) [OF nd False, of "st @ [c]"] "1.prems" 3 by simp
        then show ?thesis using step nd cs 3 r False by (simp add: USER_FD_PATH_MAX_def)
      qed
    qed
  qed
qed

lemma walk_Some:
  assumes "walk cs st = Some t" and "list_all plain st" and "\<And>c. c \<in> set cs \<Longrightarrow> c \<noteq> [] \<and> slash \<notin> set c"
  shows "t = foldl resolve st cs \<and> list_all plain t"
  using assms
proof (induction cs arbitrary: st)
  case Nil then show ?case by simp
next
  case (Cons c cs)
  have "list_all plain (resolve st c)"
    using Cons.prems by (auto simp: resolve_def list_all_iff plain_def dest: in_set_butlastD)
  then show ?case using Cons by (auto split: if_splits)
qed

lemma walk_None:
  assumes "walk cs st = None"
  shows "\<exists>n \<le> length cs. length (path_of (foldl resolve st (take n cs))) \<ge> 63"
  using assms
proof (induction cs arbitrary: st)
  case Nil then show ?case by simp
next
  case (Cons c cs)
  show ?case
  proof (cases "plain c \<and> length (path_of (resolve st c)) \<ge> 63")
    case True
    then show ?thesis by (intro exI [of _ 1]) simp
  next
    case False
    then have "walk cs (resolve st c) = None" using Cons.prems by (simp split: if_splits)
    then obtain n where "n \<le> length cs" "length (path_of (foldl resolve (resolve st c) (take n cs))) \<ge> 63"
      using Cons.IH by blast
    then show ?thesis by (intro exI [of _ "Suc n"]) simp
  qed
qed

lemma walk_plain:
  assumes "list_all plain cs" and "length (path_of (st @ cs)) < 63"
  shows "walk cs st = Some (st @ cs)"
  using assms
proof (induction cs arbitrary: st)
  case Nil then show ?case by simp
next
  case (Cons c cs)
  then have "resolve st c = st @ [c]" by (auto simp: resolve_def plain_def)
  with Cons show ?case by simp
qed

lemma path_of_butlast: "length (path_of (butlast st)) \<le> length (path_of st)"
  by (cases st rule: rev_cases) auto

lemma walk_length:
  assumes "walk cs st = Some t" and "length (path_of st) < 63" and "\<And>c. c \<in> set cs \<Longrightarrow> c \<noteq> [] \<and> slash \<notin> set c"
  shows "length (path_of t) < 63"
  using assms
proof (induction cs arbitrary: st)
  case Nil then show ?case by simp
next
  case (Cons c cs)
  have "plain c \<or> c = [dot] \<or> c = [dot, dot]" using Cons.prems(3) [of c] by (auto simp: plain_def)
  then have "length (path_of (resolve st c)) < 63"
    using Cons.prems path_of_butlast [of st] by (auto simp: resolve_def split: if_splits)
  then show ?case using Cons by (auto split: if_splits)
qed

lemma canonical_comps:
  assumes "canonical q"
  shows "q = (if comps q = [] then [slash] else path_of (comps q))" and "list_all plain (comps q)"
proof -
  have "comps [slash] = []" by (simp add: comps_def)
  moreover have "comps (path_of cs) = cs" if "list_all plain cs" for cs
    using that by (intro comps_path_of) (auto simp: list_all_iff plain_def)
  ultimately show "q = (if comps q = [] then [slash] else path_of (comps q))" "list_all plain (comps q)"
    using assms by (auto simp: canonical_def)
qed

text \<open>The components a path starts from: none if it is absolute, those of the working directory otherwise.\<close>

definition start_of :: "u8 list \<Rightarrow> 'h kernel \<Rightarrow> u8 list list" where
  "start_of path k = (if path \<noteq> [] \<and> path ! 0 = slash then [] else comps (user_cwd_get k))"

lemma normalize_walk:
  assumes "canonical (user_cwd_get k)" and "length (user_cwd_get k) < 63"
  shows "vfs_normalize path 64 k =
     (case walk (comps path) (start_of path k) of None \<Rightarrow> Inl (err ERR_ENAMETOOLONG)
      | Some t \<Rightarrow> Inr (if t = [] then [slash] else path_of t))"
    and "list_all plain (start_of path k)" and "length (path_of (start_of path k)) < 63"
proof -
  note c = canonical_comps [OF assms(1)]
  show p: "list_all plain (start_of path k)" using c(2) by (simp add: start_of_def)
  show l: "length (path_of (start_of path k)) < 63" using c(1) assms(2) by (auto simp: start_of_def split: if_splits)
  have cw: "user_cwd_get k \<noteq> []" "user_cwd_get k ! 0 = slash"
    using assms(1) by (auto simp: canonical_def neq_Nil_conv)
  have lt: "(length (user_cwd_get k) > 1) = (comps (user_cwd_get k) \<noteq> [])"
  proof
    assume g: "comps (user_cwd_get k) \<noteq> []"
    then obtain x xs where x: "comps (user_cwd_get k) = x # xs" by (cases "comps (user_cwd_get k)") auto
    then have "x \<noteq> []" using c(2) by (simp add: plain_def)
    then have "length (path_of (x # xs)) > 1" by (cases x) auto
    then show "length (user_cwd_get k) > 1" using c(1) x by (metis list.distinct(1))
  qed (use c(1) in \<open>auto split: if_splits\<close>)
  have st: "(if (path = [] \<or> path ! 0 \<noteq> slash) \<and> length (user_cwd_get k) > 1 \<and> user_cwd_get k ! 0 = slash
      then user_cwd_get k else []) = path_of (start_of path k)"
    using c(1) lt cw by (auto simp: start_of_def split: if_splits)
  have "length (path_of t) < 63" if "walk (comps path) (start_of path k) = Some t" for t
    by (rule walk_length [OF that l]) (rule comps_parts)
  then show "vfs_normalize path 64 k =
     (case walk (comps path) (start_of path k) of None \<Rightarrow> Inl (err ERR_ENAMETOOLONG)
      | Some t \<Rightarrow> Inr (if t = [] then [slash] else path_of t))"
    using assms(2) unfolding vfs_normalize_def Let_def st norm_loop_walk [OF p]
    by (fastforce simp: USER_FD_PATH_MAX_def split: option.splits)
qed

text \<open>C27: In a canonical working directory \<^verbatim>\<open>vfs_normalize\<close> reads the components of a path as moves in the
  directory tree, where a dot stays and two dots go up but never above the root.  The result is canonical (absolute, without empty
  components and dots), normalising it again changes nothing, and the only error is the one for an
  intermediate path of more than 62 characters.\<close>

theorem vfs_normalize_resolves:
  assumes "canonical (user_cwd_get k)" and "length (user_cwd_get k) < 63"
  shows "case vfs_normalize path 64 k of
      Inr q \<Rightarrow> canonical q \<and> comps q = foldl resolve (start_of path k) (comps path) \<and> vfs_normalize q 64 k = Inr q
    | Inl rc \<Rightarrow> rc = err ERR_ENAMETOOLONG \<and>
        (\<exists>n \<le> length (comps path). length (path_of (foldl resolve (start_of path k) (take n (comps path)))) > 62)"
proof (cases "walk (comps path) (start_of path k)")
  case None
  then show ?thesis using walk_None [OF None] by (simp add: normalize_walk(1) [OF assms] Suc_le_eq [symmetric])
next
  case (Some t)
  note n = normalize_walk [OF assms]
  have t: "t = foldl resolve (start_of path k) (comps path)" "list_all plain t"
    using walk_Some [OF Some n(2)] comps_parts by blast+
  have l: "length (path_of t) < 63" by (rule walk_length [OF Some n(3) comps_parts])
  define q where "q = (if t = [] then [slash] else path_of t)"
  have cq: "canonical q" using t(2) by (auto simp: canonical_def q_def)
  have "comps (path_of t) = t" using t(2) by (intro comps_path_of) (auto simp: list_all_iff plain_def)
  then have q: "comps q = t" by (simp add: q_def comps_def)
  have "q \<noteq> [] \<and> q ! 0 = slash" using cq by (auto simp: canonical_def neq_Nil_conv)
  then have "vfs_normalize q 64 k = Inr q"
    using n(1) [of q] walk_plain [of t "[]"] t(2) l q by (simp add: start_of_def) (simp add: q_def)
  moreover have "vfs_normalize path 64 k = Inr q" using n(1) [of path] Some by (simp add: q_def)
  ultimately show ?thesis using cq q t(1) by simp
qed

lemma demo_cwd: "user_cwd_get kernel_demo = [slash]"
  using copy_name_cstr(1) [of "[0x2F]"] by (simp add: user_cwd_get_def kernel_demo_def kbd_state.defs)

theorem vfs_normalize_resolves_witness:
  "\<exists>q. vfs_normalize (str ''etc/./../b'') 64 kernel_demo = Inr q \<and> canonical q \<and> comps q = [str ''b'']"
proof -
  have c: "canonical (user_cwd_get kernel_demo)" "length (user_cwd_get kernel_demo) < 63"
    by (simp_all add: demo_cwd canonical_def)
  have p: "str ''etc/./../b'' = [101, 116, 99, 47, 46, 47, 46, 46, 47, 98]" "str ''b'' = [98]" by code_simp+
  have k: "comps (str ''etc/./../b'') = [[101, 116, 99], [46], [46, 46], [98]]" unfolding p by (simp add: comps_def)
  have s: "start_of (str ''etc/./../b'') kernel_demo = []" by (simp add: start_of_def demo_cwd comps_def p)
  have "walk (comps (str ''etc/./../b'')) [] = Some [[98]]" unfolding k by (simp add: resolve_def)
  then obtain q where q: "vfs_normalize (str ''etc/./../b'') 64 kernel_demo = Inr q"
    using normalize_walk(1) [OF c, of "str ''etc/./../b''"] s by simp
  then show ?thesis
    using vfs_normalize_resolves [OF c, of "str ''etc/./../b''"] s k p by (simp add: resolve_def)
qed

end
