(* ===== verification/Elf.thy ===== *)
theory Elf
  imports Ufd
begin

text \<open>
  The ELF loader of \<^verbatim>\<open>src/elf.c\<close>.  An image is the list of its bytes, so its size is the length of the list.
  Segments and relocations are written through the active page directory.  A function returns its
  error code (\<open>Inl\<close>) or its results, with the new state; \<open>None\<close> is a page fault of the kernel.
\<close>

declare drop_bit_and [simp del] drop_bit_or [simp del]

section \<open>Headers\<close>

definition ELF_ERR_HEADER :: int where "ELF_ERR_HEADER = - 1"
definition ELF_ERR_FORMAT :: int where "ELF_ERR_FORMAT = - 2"
definition ELF_ERR_RANGE :: int where "ELF_ERR_RANGE = - 3"
definition ELF_ERR_NOLOAD :: int where "ELF_ERR_NOLOAD = - 4"
definition ELF_ERR_RELOC :: int where "ELF_ERR_RELOC = - 5"

lemmas elf_errors = ELF_ERR_HEADER_def ELF_ERR_FORMAT_def ELF_ERR_RANGE_def ELF_ERR_NOLOAD_def ELF_ERR_RELOC_def

record elf32_ehdr_t =
  e_ident :: "u8 list"
  e_type :: u16
  e_machine :: u16
  e_entry :: u32
  e_phoff :: u32
  e_ehsize :: u16
  e_phentsize :: u16
  e_phnum :: u16

record elf32_phdr_t =
  ph_type :: u32
  ph_offset :: u32
  ph_vaddr :: u32
  ph_filesz :: u32
  ph_memsz :: u32
  ph_align :: u32

record elf32_load_info_t =
  li_entry :: u32
  li_image_end :: u32
  li_phdr :: u32
  li_phent :: u32
  li_phnum :: u32
  li_base :: u32
  li_is_dyn :: bool
  li_has_interp :: bool
  li_has_dynamic :: bool
  li_interp :: "u8 list"
  li_reloc_count :: u32

definition ELF_TYPE_EXEC :: u16 where "ELF_TYPE_EXEC = 2"
definition ELF_TYPE_DYN :: u16 where "ELF_TYPE_DYN = 3"
definition ELF_PT_LOAD :: u32 where "ELF_PT_LOAD = 1"
definition ELF_PT_DYNAMIC :: u32 where "ELF_PT_DYNAMIC = 2"
definition ELF_PT_INTERP :: u32 where "ELF_PT_INTERP = 3"

definition is_power_of_two :: "u32 \<Rightarrow> bool" where
  "is_power_of_two v \<longleftrightarrow> v \<noteq> 0 \<and> v AND (v - 1) = 0"

definition range_ok :: "u32 \<Rightarrow> u32 \<Rightarrow> u32 \<Rightarrow> u32 \<Rightarrow> bool" where
  "range_ok va len base limit \<longleftrightarrow> \<not> (va < base \<or> va > limit) \<and> len \<le> limit - va"

definition img_size :: "u8 list \<Rightarrow> u32" where
  "img_size img = word_of_nat (length img)"

definition read_ehdr :: "u8 list \<Rightarrow> elf32_ehdr_t" where
  "read_ehdr b = \<lparr>e_ident = take 16 b, e_type = le16 b 16, e_machine = le16 b 18, e_entry = le32 b 24, e_phoff = le32 b 28,
     e_ehsize = le16 b 40, e_phentsize = le16 b 42, e_phnum = le16 b 44\<rparr>"

definition elf_parse :: "u8 list \<Rightarrow> int + elf32_ehdr_t" where
  "elf_parse img =
     (let eh = read_ehdr img
      in if img_size img < 52 then Inl ELF_ERR_HEADER
         else if take 4 (e_ident eh) \<noteq> [0x7F, 0x45, 0x4C, 0x46] then Inl ELF_ERR_HEADER
         else if e_ident eh ! 4 \<noteq> 1 then Inl ELF_ERR_FORMAT
         else if e_ident eh ! 5 \<noteq> 1 then Inl ELF_ERR_FORMAT
         else if e_ident eh ! 6 \<noteq> 1 then Inl ELF_ERR_FORMAT
         else if e_type eh \<noteq> ELF_TYPE_EXEC \<and> e_type eh \<noteq> ELF_TYPE_DYN then Inl ELF_ERR_FORMAT
         else if e_machine eh \<noteq> 3 then Inl ELF_ERR_FORMAT
         else if e_ehsize eh < 52 then Inl ELF_ERR_FORMAT
         else if e_phentsize eh < 32 \<or> e_phentsize eh = 0 \<or> e_phnum eh = 0 \<or> e_phnum eh > 128 then Inl ELF_ERR_FORMAT
         else if e_phoff eh > img_size img then Inl ELF_ERR_FORMAT
         else if ucast (e_phnum eh) * ucast (e_phentsize eh) > img_size img - e_phoff eh then Inl ELF_ERR_FORMAT
         else Inr eh)"

definition read_phdr :: "u8 list \<Rightarrow> nat \<Rightarrow> elf32_phdr_t" where
  "read_phdr b o' = \<lparr>ph_type = le32 b o', ph_offset = le32 b (o' + 4), ph_vaddr = le32 b (o' + 8), ph_filesz = le32 b (o' + 16),
     ph_memsz = le32 b (o' + 20), ph_align = le32 b (o' + 28)\<rparr>"

definition elf_phdr :: "u8 list \<Rightarrow> elf32_ehdr_t \<Rightarrow> nat \<Rightarrow> elf32_phdr_t" where
  "elf_phdr img eh i = read_phdr img (unat (e_phoff eh + word_of_nat i * ucast (e_phentsize eh)))"

definition elf_phdrs :: "u8 list \<Rightarrow> elf32_ehdr_t \<Rightarrow> elf32_phdr_t list" where
  "elf_phdrs img eh = map (elf_phdr img eh) [0..<unat (e_phnum eh)]"

definition is_load :: "elf32_phdr_t \<Rightarrow> bool" where
  "is_load ph \<longleftrightarrow> ph_type ph = ELF_PT_LOAD"

definition elf_load_bias :: "elf32_phdr_t list \<Rightarrow> elf32_ehdr_t \<Rightarrow> u32 \<Rightarrow> u32" where
  "elf_load_bias phs eh load_base =
     (let min_va = fold (\<lambda>ph m. if is_load ph \<and> ph_vaddr ph < m then ph_vaddr ph else m) phs 0xFFFFFFFF
      in if e_type eh \<noteq> ELF_TYPE_DYN then 0
         else if min_va = 0xFFFFFFFF \<or> min_va > load_base then 0
         else load_base - min_va)"

text \<open>The checks on one loadable segment, \<open>0\<close> when it passes.\<close>

definition check_segment :: "u8 list \<Rightarrow> u32 \<Rightarrow> u32 \<Rightarrow> u32 \<Rightarrow> elf32_phdr_t \<Rightarrow> int" where
  "check_segment img bias base limit ph =
     (if ph_filesz ph > ph_memsz ph then ELF_ERR_FORMAT
      else if ph_offset ph > img_size img \<or> ph_filesz ph > img_size img - ph_offset ph then ELF_ERR_RANGE
      else if \<not> range_ok (ph_vaddr ph + bias) (ph_memsz ph) base limit then ELF_ERR_RANGE
      else if ph_align ph \<noteq> 0 \<and> \<not> is_power_of_two (ph_align ph) then ELF_ERR_FORMAT
      else 0)"

section \<open>Relocations\<close>

definition SHN_UNDEF :: u16 where "SHN_UNDEF = 0"
definition SHN_ABS :: u16 where "SHN_ABS = 0xFFF1"
definition R_386_32 :: u32 where "R_386_32 = 1"
definition R_386_GLOB_DAT :: u32 where "R_386_GLOB_DAT = 6"
definition R_386_JMP_SLOT :: u32 where "R_386_JMP_SLOT = 7"
definition R_386_RELATIVE :: u32 where "R_386_RELATIVE = 8"

text \<open>The value of a symbol, unless it needs a shared library.\<close>

definition symbol_value :: "u32 \<Rightarrow> u32 \<Rightarrow> u32 \<Rightarrow> u32 \<Rightarrow> u32 \<Rightarrow> u32 \<Rightarrow> 'h kernel \<Rightarrow> u32 option option" where
  "symbol_value symix symtab syment bias base limit k =
     (let sym_va = symtab + symix * syment
      in if symtab = 0 \<or> syment < 16 then Some None
         else if symix > 0xFFFFF then Some None
         else if \<not> range_ok sym_va 16 base limit then Some None
         else do {
           sh \<leftarrow> vload (sym_va + 14) 2 k;
           let shndx = le16 sh 0;
           if shndx = SHN_UNDEF then Some None
           else do { v \<leftarrow> vload32 (sym_va + 4) k; Some (Some (if shndx = SHN_ABS then v else bias + v)) } })"

text \<open>One entry; the result is the error code.\<close>

definition apply_rel :: "u32 \<Rightarrow> u32 \<Rightarrow> u32 \<Rightarrow> u32 \<Rightarrow> u32 \<Rightarrow> u32 \<Rightarrow> 'h kernel \<Rightarrow> (int \<times> 'h kernel) option" where
  "apply_rel r symtab syment bias base limit k = do {
     off \<leftarrow> vload32 r k;
     inf \<leftarrow> vload32 (r + 4) k;
     let ty = inf AND 0xFF;
     let dst = off + bias;
     if dst < base \<or> dst > limit - 4 then Some (ELF_ERR_RANGE, k)
     else if ty = 0 then Some (0, k)
     else if ty = R_386_RELATIVE
     then do { v \<leftarrow> vload32 dst k; k \<leftarrow> vstore32 dst (v + bias) k; Some (0, k) }
     else if ty = R_386_GLOB_DAT \<or> ty = R_386_JMP_SLOT \<or> ty = R_386_32
     then do {
       val \<leftarrow> symbol_value (drop_bit 8 inf) symtab syment bias base limit k;
       case val of
         None \<Rightarrow> Some (ELF_ERR_RELOC, k)
       | Some val \<Rightarrow> do {
           old \<leftarrow> (if ty = R_386_32 then vload32 dst k else Some 0);
           k \<leftarrow> vstore32 dst (old + val) k;
           Some (0, k) } }
     else Some (ELF_ERR_RELOC, k) }"

primrec rel_from ::
  "nat \<Rightarrow> u32 \<Rightarrow> u32 \<Rightarrow> u32 \<Rightarrow> u32 \<Rightarrow> u32 \<Rightarrow> u32 \<Rightarrow> u32 \<Rightarrow> 'h kernel \<Rightarrow> ((int \<times> u32) \<times> 'h kernel) option" where
  "rel_from 0 r symtab syment bias base limit cnt k = Some ((0, cnt), k)"
| "rel_from (Suc n) r symtab syment bias base limit cnt k = do {
     (rc, k) \<leftarrow> apply_rel r symtab syment bias base limit k;
     if rc \<noteq> 0 then Some ((rc, cnt), k) else rel_from n (r + 8) symtab syment bias base limit (cnt + 1) k }"

definition elf_apply_rel_array ::
  "u32 \<Rightarrow> u32 \<Rightarrow> u32 \<Rightarrow> u32 \<Rightarrow> u32 \<Rightarrow> u32 \<Rightarrow> u32 \<Rightarrow> u32 \<Rightarrow> 'h kernel \<Rightarrow> ((int \<times> u32) \<times> 'h kernel) option" where
  "elf_apply_rel_array rel_va relsz symtab syment bias base limit cnt k =
     (if relsz = 0 then Some ((0, cnt), k)
      else if relsz > 256 * 1024 then Some ((ELF_ERR_RELOC, cnt), k)
      else if relsz AND 7 \<noteq> 0 then Some ((ELF_ERR_RELOC, cnt), k)
      else if \<not> range_ok rel_va relsz base limit then Some ((ELF_ERR_RANGE, cnt), k)
      else rel_from (unat (relsz div 8)) rel_va symtab syment bias base limit cnt k)"

text \<open>The dynamic table as a map from tags to values; the last entry of a tag counts.\<close>

definition DT_PLTRELSZ :: u32 where "DT_PLTRELSZ = 2"
definition DT_SYMTAB :: u32 where "DT_SYMTAB = 6"
definition DT_SYMENT :: u32 where "DT_SYMENT = 11"
definition DT_REL :: u32 where "DT_REL = 17"
definition DT_RELSZ :: u32 where "DT_RELSZ = 18"
definition DT_PLTREL :: u32 where "DT_PLTREL = 20"
definition DT_JMPREL :: u32 where "DT_JMPREL = 23"

primrec dyn_from :: "nat \<Rightarrow> u32 \<Rightarrow> u32 \<Rightarrow> u32 \<Rightarrow> (u32 \<Rightarrow> u32) \<Rightarrow> 'h kernel \<Rightarrow> (u32 \<Rightarrow> u32) option option" where
  "dyn_from 0 d base limit t k = Some (Some t)"
| "dyn_from (Suc n) d base limit t k =
     (if \<not> range_ok d 8 base limit then Some None
      else do {
        tag \<leftarrow> vload32 d k;
        if tag = 0 then Some (Some t)
        else do { v \<leftarrow> vload32 (d + 4) k; dyn_from n (d + 8) base limit (t(tag := v)) k } })"

definition elf_apply_dynamic ::
  "u32 \<Rightarrow> u32 \<Rightarrow> u32 \<Rightarrow> u32 \<Rightarrow> u32 \<Rightarrow> 'h kernel \<Rightarrow> ((int \<times> u32) \<times> 'h kernel) option" where
  "elf_apply_dynamic dyn_va bias base limit cnt k =
     (if \<not> range_ok dyn_va 8 base limit then Some ((ELF_ERR_RELOC, cnt), k)
      else do {
        t \<leftarrow> dyn_from 256 dyn_va base limit ((\<lambda>_. 0)(DT_PLTREL := DT_REL)) k;
        case t of
          None \<Rightarrow> Some ((ELF_ERR_RELOC, cnt), k)
        | Some t \<Rightarrow> do {
            let symtab = (if t DT_SYMTAB \<noteq> 0 then t DT_SYMTAB + bias else 0);
            ((rc, cnt), k) \<leftarrow>
              (if t DT_REL \<noteq> 0 \<and> t DT_RELSZ \<noteq> 0
               then elf_apply_rel_array (t DT_REL + bias) (t DT_RELSZ) symtab (t DT_SYMENT) bias base limit cnt k
               else Some ((0, cnt), k));
            if rc \<noteq> 0 then Some ((rc, cnt), k)
            else if t DT_JMPREL \<noteq> 0 \<and> t DT_PLTRELSZ \<noteq> 0
            then if t DT_PLTREL \<noteq> DT_REL then Some ((ELF_ERR_RELOC, cnt), k)
                 else elf_apply_rel_array (t DT_JMPREL + bias) (t DT_PLTRELSZ) symtab (t DT_SYMENT) bias base limit cnt k
            else Some ((0, cnt), k) } })"

section \<open>Segments\<close>

text \<open>The copy loop, with the end of the image and the number of segments so far.\<close>

primrec map_from ::
  "elf32_phdr_t list \<Rightarrow> u8 list \<Rightarrow> u32 \<Rightarrow> u32 \<Rightarrow> u32 \<Rightarrow> u32 \<Rightarrow> u32 \<Rightarrow> 'h kernel \<Rightarrow>
   ((int + u32 \<times> u32) \<times> 'h kernel) option" where
  "map_from [] img bias base limit max_end loads k = Some (Inr (max_end, loads), k)"
| "map_from (ph # phs) img bias base limit max_end loads k =
     (let rc = check_segment img bias base limit ph; va = ph_vaddr ph + bias
      in if \<not> is_load ph then map_from phs img bias base limit max_end loads k
         else if rc \<noteq> 0 then Some (Inl rc, k)
         else do {
           k \<leftarrow> vstore va (take (unat (ph_filesz ph)) (drop (unat (ph_offset ph)) img)) k;
           k \<leftarrow> vstore (va + ph_filesz ph) (replicate (unat (ph_memsz ph - ph_filesz ph)) 0) k;
           map_from phs img bias base limit (max max_end (va + ph_memsz ph)) (loads + 1) k })"

text \<open>What the second pass collects: the loaded header table, the interpreter and the dynamic table.\<close>

definition note_header ::
  "u8 list \<Rightarrow> elf32_ehdr_t \<Rightarrow> u32 \<Rightarrow> elf32_phdr_t \<Rightarrow> elf32_load_info_t \<times> u32 \<Rightarrow> elf32_load_info_t \<times> u32" where
  "note_header img eh bias ph x =
     (case x of (li, dyn) \<Rightarrow>
        let li = (if is_load ph \<and> ph_offset ph \<le> e_phoff eh \<and> e_phoff eh < ph_offset ph + ph_filesz ph
                  then li\<lparr>li_phdr := ph_vaddr ph + bias + (e_phoff eh - ph_offset ph)\<rparr> else li);
            li = (if ph_type ph = ELF_PT_INTERP \<and> ph_filesz ph > 0 \<and> ph_offset ph \<le> img_size img \<and>
                       ph_filesz ph \<le> img_size img - ph_offset ph \<and> ph_filesz ph < 64
                  then li\<lparr>li_interp := take (unat (ph_filesz ph)) (drop (unat (ph_offset ph)) img) @ [0],
                         li_has_interp := True\<rparr> else li)
        in if ph_type ph = ELF_PT_DYNAMIC \<and> ph_memsz ph \<ge> 8
           then (li\<lparr>li_has_dynamic := True\<rparr>, ph_vaddr ph + bias) else (li, dyn))"

definition elf_map_segments ::
  "u8 list \<Rightarrow> u32 \<Rightarrow> u32 \<Rightarrow> 'h kernel \<Rightarrow> ((int + elf32_load_info_t \<times> u32) \<times> 'h kernel) option" where
  "elf_map_segments img base limit k =
     (case elf_parse img of
        Inl e \<Rightarrow> Some (Inl e, k)
      | Inr eh \<Rightarrow>
          let phs = elf_phdrs img eh; bias = elf_load_bias phs eh base; entry = e_entry eh + bias
          in do {
            (res, k) \<leftarrow> map_from phs img bias base limit base 0 k;
            Some (case res of
                    Inl e \<Rightarrow> Inl e
                  | Inr (max_end, loads) \<Rightarrow>
                      if loads = 0 then Inl ELF_ERR_NOLOAD
                      else if entry < base \<or> entry \<ge> limit then Inl ELF_ERR_RANGE
                      else Inr (fold (note_header img eh bias) phs
                             (\<lparr>li_entry = entry, li_image_end = max_end, li_phdr = 0, li_phent = 32,
                               li_phnum = ucast (e_phnum eh), li_base = bias, li_is_dyn = (e_type eh = ELF_TYPE_DYN),
                               li_has_interp = False, li_has_dynamic = False, li_interp = [0], li_reloc_count = 0\<rparr>, 0)), k) })"

text \<open>Applying the relocations of a mapped image, when it has any.\<close>

definition relocate ::
  "elf32_load_info_t \<Rightarrow> u32 \<Rightarrow> u32 \<Rightarrow> u32 \<Rightarrow> 'h kernel \<Rightarrow> ((int + elf32_load_info_t) \<times> 'h kernel) option" where
  "relocate li dyn base limit k =
     (if dyn = 0 then Some (Inr li, k)
      else do {
        ((rc, cnt), k) \<leftarrow> elf_apply_dynamic dyn (li_base li) base limit (li_reloc_count li) k;
        Some (if rc \<noteq> 0 then Inl rc else Inr (li\<lparr>li_reloc_count := cnt\<rparr>), k) })"

definition elf32_load_ex :: "u8 list \<Rightarrow> u32 \<Rightarrow> u32 \<Rightarrow> 'h kernel \<Rightarrow> ((int + elf32_load_info_t) \<times> 'h kernel) option" where
  "elf32_load_ex img base limit k = do {
     (res, k) \<leftarrow> elf_map_segments img base limit k;
     case res of Inl e \<Rightarrow> Some (Inl e, k) | Inr (li, dyn) \<Rightarrow> relocate li dyn base limit k }"

definition elf32_load_program :: "u8 list \<Rightarrow> u32 \<Rightarrow> u32 \<Rightarrow> 'h kernel \<Rightarrow> ((int + elf32_load_info_t) \<times> 'h kernel) option" where
  "elf32_load_program img base limit k = do {
     (res, k) \<leftarrow> elf_map_segments img base limit k;
     case res of Inl e \<Rightarrow> Some (Inl e, k)
     | Inr (li, dyn) \<Rightarrow> if li_has_interp li then Some (Inr li, k) else relocate li dyn base limit k }"

definition elf32_load :: "u8 list \<Rightarrow> u32 \<Rightarrow> u32 \<Rightarrow> 'h kernel \<Rightarrow> ((int + u32 \<times> u32) \<times> 'h kernel) option" where
  "elf32_load img base limit k = do {
     (res, k) \<leftarrow> elf32_load_ex img base limit k;
     Some (case res of Inl e \<Rightarrow> Inl e | Inr li \<Rightarrow> Inr (li_entry li, li_image_end li), k) }"

text \<open>The same checks without the copies.\<close>

primrec check_from ::
  "elf32_phdr_t list \<Rightarrow> u8 list \<Rightarrow> u32 \<Rightarrow> u32 \<Rightarrow> u32 \<Rightarrow> u32 \<Rightarrow> u32 \<Rightarrow> int + u32 \<times> u32" where
  "check_from [] img bias base limit max_end loads = Inr (max_end, loads)"
| "check_from (ph # phs) img bias base limit max_end loads =
     (let rc = check_segment img bias base limit ph; seg_end = ph_vaddr ph + bias + ph_memsz ph
      in if \<not> is_load ph then check_from phs img bias base limit max_end loads
         else if rc \<noteq> 0 then Inl rc
         else check_from phs img bias base limit (max max_end seg_end) (loads + 1))"

definition elf32_validate :: "u8 list \<Rightarrow> u32 \<Rightarrow> u32 \<Rightarrow> int + u32 \<times> u32" where
  "elf32_validate img base limit =
     (case elf_parse img of
        Inl e \<Rightarrow> Inl e
      | Inr eh \<Rightarrow>
          let phs = elf_phdrs img eh; bias = elf_load_bias phs eh base; entry = e_entry eh + bias
          in case check_from phs img bias base limit base 0 of
               Inl e \<Rightarrow> Inl e
             | Inr (max_end, loads) \<Rightarrow>
                 if loads = 0 then Inl ELF_ERR_NOLOAD
                 else if entry < base \<or> entry \<ge> limit then Inl ELF_ERR_RANGE
                 else Inr (entry, max_end))"

end
