(* ===== verification/Sys_Io.thy ===== *)
theory Sys_Io
  imports Vfs
begin

text \<open>
  The input and output calls of \<^verbatim>\<open>src/syscall.c\<close>: reading, writing, opening and closing descriptors, and
  the socket calls.  A call returns the value for \<^verbatim>\<open>eax\<close> and the new state; \<open>None\<close> is a kernel fault
  or a wait that never ends.  What the calls rely on is an argument: the port functions, what happens to the
  machine while the processor is halted with interrupts on, the network stack of \<^verbatim>\<open>src/net.c\<close>, and the
  interpreter the build embeds in the kernel.
\<close>

declare drop_bit_and [simp del] drop_bit_or [simp del]

section \<open>The machine around the calls\<close>

record 'h net_ops =
  net_socket_ok :: "int \<Rightarrow> 'h kernel \<Rightarrow> bool"
  net_socket :: "int \<Rightarrow> int \<Rightarrow> 'h kernel \<Rightarrow> int \<times> 'h kernel"
  net_bind :: "int \<Rightarrow> u32 \<Rightarrow> u16 \<Rightarrow> 'h kernel \<Rightarrow> int \<times> 'h kernel"
  net_connect :: "int \<Rightarrow> u32 \<Rightarrow> u16 \<Rightarrow> 'h kernel \<Rightarrow> int \<times> 'h kernel"
  net_listen :: "int \<Rightarrow> 'h kernel \<Rightarrow> int \<times> 'h kernel"
  net_accept :: "int \<Rightarrow> 'h kernel \<Rightarrow> int \<times> 'h kernel"
  net_sendto :: "int \<Rightarrow> u8 list \<Rightarrow> u32 \<Rightarrow> u16 \<Rightarrow> 'h kernel \<Rightarrow> int \<times> 'h kernel"
  net_recvfrom :: "int \<Rightarrow> u32 \<Rightarrow> 'h kernel \<Rightarrow> (int \<times> u8 list \<times> u32 \<times> u16) \<times> 'h kernel"
  net_close :: "int \<Rightarrow> 'h kernel \<Rightarrow> 'h kernel"
  net_getsockname :: "int \<Rightarrow> 'h kernel \<Rightarrow> int \<times> u32 \<times> u16"
  net_getpeername :: "int \<Rightarrow> 'h kernel \<Rightarrow> int \<times> u32 \<times> u16"

record 'h env =
  e_ports :: "'h ports"
  e_idle :: "'h kernel \<Rightarrow> 'h kernel"
  e_net :: "'h net_ops"
  e_ld_mu :: "u8 list"

definition k_hw :: "'h kernel \<Rightarrow> 'h" where
  "k_hw k = ata_hw (fs_ata (k_fs k))"

definition set_hw :: "'h \<Rightarrow> 'h kernel \<Rightarrow> 'h kernel" where
  "set_hw h k = k\<lparr>k_fs := (k_fs k)\<lparr>fs_ata := (fs_ata (k_fs k))\<lparr>ata_hw := h\<rparr>\<rparr>\<rparr>"

definition k_now :: "'h env \<Rightarrow> 'h kernel \<Rightarrow> u32 \<times> 'h kernel" where
  "k_now E k = fs_call (fs_now (e_ports E)) k"

definition put_console :: "u8 list \<Rightarrow> 'h kernel \<Rightarrow> 'h kernel" where
  "put_console bs k = k\<lparr>console := console k @ bs\<rparr>"

definition get_key :: "'h env \<Rightarrow> 'h kernel \<Rightarrow> (u8 \<times> 'h kernel) option" where
  "get_key E k =
     (case keyboard_getchar (p_inb (e_ports E)) proc_notify_console
         (\<lambda>k h. let k = e_idle E (set_hw h k) in (k, k_hw k)) k (k_hw k) of
        None \<Rightarrow> None | Some (c, k, h) \<Rightarrow> Some (c, set_hw h k))"

section \<open>Reading and writing\<close>

definition read_keyboard_char :: "'h env \<Rightarrow> u32 \<Rightarrow> 'h kernel \<Rightarrow> (u32 \<times> 'h kernel) option" where
  "read_keyboard_char E ub k = do { (c, k) \<leftarrow> get_key E k; k \<leftarrow> vstore8 ub c k; Some (1, put_console [c] k) }"

definition write_file :: "'h env \<Rightarrow> int \<Rightarrow> u8 list \<Rightarrow> u32 \<Rightarrow> 'h kernel \<Rightarrow> int \<times> 'h kernel" where
  "write_file E fd data cnt k =
     (let slot = user_fd_slot fd k
      in if slot < 0 then (- 9, k)
         else
           let off = user_fd_offset fd k
           in case fs_call (fs_write_at (e_ports E) slot off data cnt) k of (n, k) \<Rightarrow>
                if n < 0 then (- 9, k) else (n, snd (user_fd_set_offset fd (off + word_of_int n) k)))"

text \<open>How much of a buffer a file or a pipe takes.\<close>

definition file_room :: "u32 \<Rightarrow> u32 \<Rightarrow> nat" where
  "file_room off cnt = (if off \<ge> FS_MAX_SIZE then 0 else min (unat cnt) (unat (FS_MAX_SIZE - off)))"

definition pipe_room :: "int \<Rightarrow> u32 \<Rightarrow> 'h kernel \<Rightarrow> nat" where
  "pipe_room pd cnt k = min (unat cnt) (unat (PIPE_BUF_SIZE - pipe_fill pd k))"

definition write_pipe :: "int \<Rightarrow> u8 list \<Rightarrow> 'h kernel \<Rightarrow> int \<times> 'h kernel" where
  "write_pipe fd data k =
     (let pd = user_fd_pipe_id fd k
      in if pd < 0 then (- 9, k)
         else case pipe_write proc_notify_pipe pd data k of (n, k) \<Rightarrow> (if n < 0 then - 9 else n, k))"

definition ata_write_call :: "'h env \<Rightarrow> u32 \<Rightarrow> u8 list \<Rightarrow> u32 \<Rightarrow> 'h kernel \<Rightarrow> int \<times> 'h kernel" where
  "ata_write_call E off data cnt k =
     fs_call (\<lambda>s. case ata_write_bytes (e_ports E) off data cnt (fs_ata s) of (n, a) \<Rightarrow> (n, s\<lparr>fs_ata := a\<rparr>)) k"

definition do_write :: "'h env \<Rightarrow> u32 \<Rightarrow> u32 \<Rightarrow> u32 \<Rightarrow> 'h kernel \<Rightarrow> (u32 \<times> 'h kernel) option" where
  "do_write E fd ub cnt k =
     (let f = sint fd
      in if cnt = 0 then Some (0, k)
         else if \<not> user_ptr_ok ub cnt then Some (err ERR_EFAULT, k)
         else case user_fd_kind f k of
                None \<Rightarrow> Some (err ERR_EBADF, k)
              | Some USER_FD_FILE \<Rightarrow> do {
                  data \<leftarrow> vload ub (file_room (user_fd_offset f k) cnt) k;
                  let (n, k) = write_file E f data cnt k;
                  Some (word_of_int n, k) }
              | Some USER_FD_DEV_NULL \<Rightarrow> Some (cnt, k)
              | Some USER_FD_DEV_ZERO \<Rightarrow> Some (cnt, k)
              | Some USER_FD_STDOUT \<Rightarrow> do { data \<leftarrow> vload ub (unat cnt) k; Some (cnt, put_console data k) }
              | Some USER_FD_STDERR \<Rightarrow> do { data \<leftarrow> vload ub (unat cnt) k; Some (cnt, put_console data k) }
              | Some USER_FD_DEV_CONSOLE \<Rightarrow> do { data \<leftarrow> vload ub (unat cnt) k; Some (cnt, put_console data k) }
              | Some USER_FD_VFILE \<Rightarrow> Some (err ERR_EACCES, k)
              | Some USER_FD_PIPE_WRITE \<Rightarrow> do {
                  data \<leftarrow> vload ub (pipe_room (user_fd_pipe_id f k) cnt k) k;
                  let (n, k) = write_pipe f data k;
                  Some (word_of_int n, k) }
              | Some USER_FD_DEV_ATA \<Rightarrow> do {
                  data \<leftarrow> vload ub (unat cnt) k;
                  let off = user_fd_offset f k;
                  let (n, k) = ata_write_call E off data cnt k;
                  if n < 0 then Some (err (word_of_int (- n)), k)
                  else Some (word_of_int n, snd (user_fd_set_offset f (off + word_of_int n) k)) }
              | Some USER_FD_DIR \<Rightarrow> Some (err ERR_EISDIR, k)
              | Some _ \<Rightarrow> Some (err ERR_EBADF, k))"

text \<open>Blocking in a read, when there is a process to block and another one to run.\<close>

definition block_read ::
  "registers_t \<Rightarrow> u32 \<Rightarrow> u32 \<Rightarrow> u32 \<Rightarrow> 'h kernel \<Rightarrow> (bool \<times> registers_t \<times> 'h kernel) option" where
  "block_read r fd ub cnt k =
     (case current_proc k of
        None \<Rightarrow> Some (False, r, k)
      | Some i \<Rightarrow> if p_pid (procs k ! i) = 1 then Some (False, r, k)
                  else proc_block_current_ext r PROC_WAIT_READ ub (sint cnt) 0 False (sint fd) k)"

definition read_pipe ::
  "registers_t \<Rightarrow> u32 \<Rightarrow> u32 \<Rightarrow> u32 \<Rightarrow> 'h kernel \<Rightarrow> (u32 \<times> registers_t \<times> 'h kernel) option" where
  "read_pipe r fd ub cnt k =
     (let pd = user_fd_pipe_id (sint fd) k
      in if pd < 0 then Some (err ERR_EBADF, r, k)
         else case pipe_read (\<lambda>_ k. k) pd cnt k of (n, out, k) \<Rightarrow>
           if n < 0 then Some (err ERR_EBADF, r, k)
           else do {
             k \<leftarrow> vstore ub out k;
             let k = proc_notify_pipe pd k;
             if n = 0 \<and> pipe_writers pd k > 0
             then do {
               (blocked, r, k) \<leftarrow> block_read r fd ub cnt k;
               Some (if blocked then 0 else word_of_int n, r, k) }
             else Some (word_of_int n, r, k) })"

definition do_read :: "'h env \<Rightarrow> registers_t \<Rightarrow> u32 \<Rightarrow> u32 \<Rightarrow> u32 \<Rightarrow> 'h kernel \<Rightarrow> (u32 \<times> registers_t \<times> 'h kernel) option" where
  "do_read E r fd ub cnt k =
     (let f = sint fd; off = user_fd_offset (sint fd) k;
          con = do {
            (blocked, r, k) \<leftarrow> (if keyboard_haschar k then Some (False, r, k) else block_read r fd ub cnt k);
            if blocked then Some (0, r, k) else do { (n, k) \<leftarrow> read_keyboard_char E ub k; Some (n, r, k) } }
      in if cnt = 0 then Some (0, r, k)
         else if \<not> user_ptr_ok ub cnt then Some (err ERR_EFAULT, r, k)
         else case user_fd_kind f k of
                None \<Rightarrow> Some (err ERR_EBADF, r, k)
              | Some USER_FD_FILE \<Rightarrow>
                  let slot = user_fd_slot f k
                  in if slot < 0 then Some (err ERR_EBADF, r, k)
                     else case fs_call (fs_read_at (e_ports E) slot off cnt) k of ((n, out), k) \<Rightarrow> do {
                       k \<leftarrow> vstore ub out k;
                       if n < 0 then Some (err ERR_EBADF, r, k)
                       else Some (word_of_int n, r, snd (user_fd_set_offset f (off + word_of_int n) k)) }
              | Some USER_FD_VFILE \<Rightarrow>
                  (case user_fd_vfile f k of (len, data) \<Rightarrow>
                     if off \<ge> len then Some (0, r, k)
                     else do {
                       let n = (if len - off > cnt then cnt else len - off);
                       k \<leftarrow> vstore ub (take (unat n) (drop (unat off) (case data of None \<Rightarrow> [] | Some d \<Rightarrow> d))) k;
                       Some (n, r, snd (user_fd_set_offset f (off + n) k)) })
              | Some USER_FD_DEV_NULL \<Rightarrow> Some (0, r, k)
              | Some USER_FD_DEV_ZERO \<Rightarrow> do { k \<leftarrow> vstore ub (replicate (unat cnt) 0) k; Some (cnt, r, k) }
              | Some USER_FD_STDIN \<Rightarrow> con
              | Some USER_FD_DEV_CONSOLE \<Rightarrow> con
              | Some USER_FD_PIPE_READ \<Rightarrow> read_pipe r fd ub cnt k
              | Some USER_FD_DEV_ATA \<Rightarrow>
                  (case fs_call (fs_ata_read (e_ports E) off cnt) k of ((n, out), k) \<Rightarrow> do {
                     k \<leftarrow> vstore ub out k;
                     if n < 0 then Some (err (word_of_int (- n)), r, k)
                     else Some (word_of_int n, r, snd (user_fd_set_offset f (off + word_of_int n) k)) })
              | Some USER_FD_DIR \<Rightarrow> Some (err ERR_EISDIR, r, k)
              | Some _ \<Rightarrow> Some (err ERR_EBADF, r, k))"

section \<open>Strings of the caller\<close>

fun scan_string :: "u32 \<Rightarrow> nat \<Rightarrow> 'h kernel \<Rightarrow> u8 list option option" where
  "scan_string ptr 0 k = Some (Some [])"
| "scan_string ptr (Suc n) k =
     (if \<not> user_ptr_ok ptr 1 then Some None
      else do {
        c \<leftarrow> vload8 ptr k;
        if c = 0 then Some (Some [])
        else do { s \<leftarrow> scan_string (ptr + 1) n k; Some (map_option (\<lambda>s. c # s) s) } })"

text \<open>The inner \<open>None\<close> is the result \<^verbatim>\<open>false\<close>.\<close>

definition copy_user_string :: "u32 \<Rightarrow> nat \<Rightarrow> 'h kernel \<Rightarrow> u8 list option option" where
  "copy_user_string ptr lim k =
     (if lim = 0 \<or> \<not> user_ptr_ok ptr 1 then Some None
      else do { s \<leftarrow> scan_string ptr lim k; Some (map_option (take (lim - 1)) s) })"

text \<open>A call with a path of at most 127 characters.\<close>

definition with_path :: "u32 \<Rightarrow> nat \<Rightarrow> (u8 list \<Rightarrow> (u32 \<times> 'h kernel) option) \<Rightarrow> 'h kernel \<Rightarrow> (u32 \<times> 'h kernel) option" where
  "with_path ptr lim f k =
     do { s \<leftarrow> copy_user_string ptr lim k; case s of None \<Rightarrow> Some (err ERR_EFAULT, k) | Some path \<Rightarrow> f path }"

section \<open>Opening and closing\<close>

definition O_WRONLY :: u32 where "O_WRONLY = 0x01"
definition O_RDWR :: u32 where "O_RDWR = 0x02"
definition O_ACCMODE :: u32 where "O_ACCMODE = 0x03"
definition O_CREAT :: u32 where "O_CREAT = 0x40"
definition O_TRUNC :: u32 where "O_TRUNC = 0x200"
definition O_DIRECTORY :: u32 where "O_DIRECTORY = 0x10000"

lemmas open_flags = O_WRONLY_def O_RDWR_def O_ACCMODE_def O_CREAT_def O_TRUNC_def O_DIRECTORY_def

definition fd_ret :: "int \<times> 'h kernel \<Rightarrow> u32 \<times> 'h kernel" where
  "fd_ret x = (case x of (fd, k) \<Rightarrow> (if fd < 0 then err ERR_EMFILE else word_of_int fd, k))"

definition open_new :: "'h env \<Rightarrow> u8 list \<Rightarrow> 'h kernel \<Rightarrow> u32 \<times> 'h kernel" where
  "open_new E name k =
     (if name = [] then (err ERR_ENOTDIR, k)
      else if length name \<ge> FS_MAX_NAME then (err ERR_ENAMETOOLONG, k)
      else if \<not> fs_parent_is_dir name (k_fs k) then (err ERR_ENOTDIR, k)
      else if \<not> parent_perm_ok name 3 k then (err ERR_EACCES, k)
      else case fs_call (fs_create (e_ports E) name) k of (slot, k) \<Rightarrow>
        if slot < 0 then (err ERR_ENOSPC, k) else fd_ret (user_fd_alloc slot k))"

definition open_need :: "u32 \<Rightarrow> u32" where
  "open_need fl = (if fl AND O_ACCMODE = O_RDWR then 6 else if fl AND O_ACCMODE = O_WRONLY then 2 else 4)"

definition dev_kind :: "int \<Rightarrow> user_fd_kind_t" where
  "dev_kind d = (if d = VFS_DEV_ZERO then USER_FD_DEV_ZERO else if d = VFS_DEV_CONSOLE then USER_FD_DEV_CONSOLE
     else if d = VFS_DEV_ATA then USER_FD_DEV_ATA else USER_FD_DEV_NULL)"

definition do_open_buf :: "'h env \<Rightarrow> u8 list \<Rightarrow> u32 \<Rightarrow> u32 \<Rightarrow> 'h kernel \<Rightarrow> u32 \<times> 'h kernel" where
  "do_open_buf E path fl mode k =
     (case vfs_lookup path k of (rc, e) \<Rightarrow>
        if failed rc
        then if - rc \<noteq> ERR_ENOENT then (rc, k)
             else if fl AND O_CREAT = 0 \<or> fl AND O_DIRECTORY \<noteq> 0 then (rc, k)
             else open_new E (drop 1 (v_path e)) k
        else case v_type e of
               VFS_T_DIR \<Rightarrow>
                 if fl AND (O_CREAT OR O_TRUNC) \<noteq> 0 then (err ERR_EISDIR, k) else fd_ret (user_fd_alloc_dir (Some (v_path e)) k)
             | VFS_T_DEV \<Rightarrow> fd_ret (user_fd_alloc_dev (dev_kind (v_id e)) k)
             | VFS_T_VFILE \<Rightarrow>
                 if fl AND O_ACCMODE \<noteq> 0 then (err ERR_EACCES, k)
                 else (case vfs_vfile_text (e_ports E) (v_id e) (v_pid e) USER_FD_VBUF_MAX k of (text, k) \<Rightarrow>
                   fd_ret (user_fd_alloc_vfile text (word_of_nat (length text)) k))
             | VFS_T_FILE \<Rightarrow>
                 if fl AND O_DIRECTORY \<noteq> 0 then (err ERR_ENOTDIR, k)
                 else if \<not> path_perm_ok path (open_need fl) k then (err ERR_EACCES, k)
                 else
                   let k = (if fl AND O_TRUNC \<noteq> 0 then snd (fs_call (fs_fd_truncate (e_ports E) (v_slot e)) k) else k)
                   in fd_ret (user_fd_alloc (v_slot e) k)
             | _ \<Rightarrow> (err ERR_ENOENT, k))"

definition do_open :: "'h env \<Rightarrow> u32 \<Rightarrow> u32 \<Rightarrow> u32 \<Rightarrow> 'h kernel \<Rightarrow> (u32 \<times> 'h kernel) option" where
  "do_open E ptr fl mode k = with_path ptr 128 (\<lambda>path. Some (do_open_buf E path fl mode k)) k"

definition NET_FD_BASE :: int where "NET_FD_BASE = 16"
definition NET_FD_MAX :: int where "NET_FD_MAX = 24"
definition NET_EAGAIN :: int where "NET_EAGAIN = - 11"

definition do_close :: "'h env \<Rightarrow> u32 \<Rightarrow> 'h kernel \<Rightarrow> u32 \<times> 'h kernel" where
  "do_close E fd k =
     (let f = sint fd
      in if f \<ge> NET_FD_BASE \<and> f < NET_FD_MAX
         then if \<not> net_socket_ok (e_net E) (f - NET_FD_BASE) k then (err ERR_EBADF, k)
              else (0, net_close (e_net E) (f - NET_FD_BASE) k)
         else if user_fd_kind f k = None then (err ERR_EBADF, k)
         else (0, user_fd_close (e_ports E) proc_notify_pipe f k))"

end
