(* ===== verification/Sys_File.thy ===== *)
theory Sys_File
  imports Sys_Io
begin

text \<open>
  The calls of \<^verbatim>\<open>src/syscall.c\<close> on sockets, on file metadata and on names: status records, directory
  listings, seeking, permissions, links and renames, with the variants that take a directory descriptor.
\<close>

declare drop_bit_and [simp del] drop_bit_or [simp del]

section \<open>Sockets\<close>

definition AF_INET :: u16 where "AF_INET = 2"

definition sock_id :: "'h env \<Rightarrow> u32 \<Rightarrow> 'h kernel \<Rightarrow> int" where
  "sock_id E fd k =
     (let f = sint fd
      in if f < NET_FD_BASE \<or> f \<ge> NET_FD_MAX then - 1
         else if net_socket_ok (e_net E) (f - NET_FD_BASE) k then f - NET_FD_BASE else - 1)"

definition swap16 :: "u16 \<Rightarrow> u16" where
  "swap16 p = drop_bit 8 p OR push_bit 8 p"

definition read_sockaddr :: "u32 \<Rightarrow> u32 \<Rightarrow> 'h kernel \<Rightarrow> (u32 \<times> u16) option option" where
  "read_sockaddr addr len k =
     (if addr = 0 \<or> len < 16 \<or> \<not> user_ptr_ok addr 16 then Some None
      else do {
        bs \<leftarrow> vload addr 8 k;
        if le16 bs 0 \<noteq> AF_INET then Some None else Some (Some (le32 bs 4, swap16 (le16 bs 2))) })"

definition write_sockaddr :: "u32 \<Rightarrow> u32 \<Rightarrow> u32 \<Rightarrow> u16 \<Rightarrow> 'h kernel \<Rightarrow> 'h kernel option" where
  "write_sockaddr addr addrlen_ptr ip port k =
     (if addr = 0 \<or> \<not> user_ptr_ok addr 16 then Some k
      else do {
        k \<leftarrow> vstore addr (replicate 16 0) k;
        k \<leftarrow> vstore addr (enc16 AF_INET @ enc16 (swap16 port) @ enc32 ip) k;
        if addrlen_ptr \<noteq> 0 \<and> user_ptr_ok addrlen_ptr 4 then vstore addrlen_ptr (enc32 16) k else Some k })"

definition do_socket :: "'h env \<Rightarrow> int \<Rightarrow> int \<Rightarrow> int \<Rightarrow> 'h kernel \<Rightarrow> u32 \<times> 'h kernel" where
  "do_socket E domain ty proto k =
     (if domain \<noteq> 2 then (err ERR_EAFNOSUPPORT, k)
      else case net_socket (e_net E) ty proto k of (sid, k) \<Rightarrow>
        if sid < 0 then (err (if sid = - 1 then ERR_EMFILE else ERR_ENOSYS), k) else (word_of_int (sid + NET_FD_BASE), k))"

definition do_bind :: "'h env \<Rightarrow> u32 \<Rightarrow> u32 \<Rightarrow> u32 \<Rightarrow> 'h kernel \<Rightarrow> (u32 \<times> 'h kernel) option" where
  "do_bind E fd addr alen k =
     (let sid = sock_id E fd k
      in if sid < 0 then Some (err ERR_EBADF, k)
         else do {
           a \<leftarrow> read_sockaddr addr alen k;
           case a of None \<Rightarrow> Some (err ERR_EINVAL, k)
           | Some (ip, port) \<Rightarrow>
               (case net_bind (e_net E) sid ip port k of (n, k) \<Rightarrow> Some (if n < 0 then err ERR_EINVAL else 0, k)) })"

definition do_connect :: "'h env \<Rightarrow> u32 \<Rightarrow> u32 \<Rightarrow> u32 \<Rightarrow> 'h kernel \<Rightarrow> (u32 \<times> 'h kernel) option" where
  "do_connect E fd addr alen k =
     (let sid = sock_id E fd k
      in if sid < 0 then Some (err ERR_EBADF, k)
         else do {
           a \<leftarrow> read_sockaddr addr alen k;
           case a of None \<Rightarrow> Some (err ERR_EINVAL, k)
           | Some (ip, port) \<Rightarrow>
               (case net_connect (e_net E) sid ip port k of (n, k) \<Rightarrow> Some (if n < 0 then err ERR_ENOTCONN else 0, k)) })"

definition do_sendto :: "'h env \<Rightarrow> u32 \<Rightarrow> u32 \<Rightarrow> u32 \<Rightarrow> u32 \<Rightarrow> u32 \<Rightarrow> 'h kernel \<Rightarrow> (u32 \<times> 'h kernel) option" where
  "do_sendto E fd ub len addr alen k =
     (let sid = sock_id E fd k; n = (if len > 1400 then 1400 else len)
      in if sid < 0 then Some (err ERR_EBADF, k)
         else if len \<noteq> 0 \<and> \<not> user_ptr_ok ub len then Some (err ERR_EFAULT, k)
         else do {
           a \<leftarrow> (if addr = 0 then Some (Some (0, 0)) else read_sockaddr addr alen k);
           case a of None \<Rightarrow> Some (err ERR_EINVAL, k)
           | Some (ip, port) \<Rightarrow> do {
               data \<leftarrow> vload ub (unat n) k;
               let (sent, k) = net_sendto (e_net E) sid data ip port k;
               Some (if sent < 0 then err ERR_EAGAIN else word_of_int sent, k) } })"

definition do_recvfrom :: "'h env \<Rightarrow> u32 \<Rightarrow> u32 \<Rightarrow> u32 \<Rightarrow> u32 \<Rightarrow> u32 \<Rightarrow> 'h kernel \<Rightarrow> (u32 \<times> 'h kernel) option" where
  "do_recvfrom E fd ub len addr alenp k =
     (let sid = sock_id E fd k
      in if sid < 0 then Some (err ERR_EBADF, k)
         else if len \<noteq> 0 \<and> \<not> user_ptr_ok ub len then Some (err ERR_EFAULT, k)
         else case net_recvfrom (e_net E) sid len k of ((n, data, ip, port), k) \<Rightarrow> do {
           k \<leftarrow> vstore ub data k;
           if n = NET_EAGAIN then Some (err ERR_EAGAIN, k)
           else if n < 0 then Some (err ERR_EBADF, k)
           else do {
             k \<leftarrow> (if addr \<noteq> 0 then write_sockaddr addr alenp ip port k else Some k);
             Some (word_of_int n, k) } })"

definition sock_name ::
  "(int \<Rightarrow> 'h kernel \<Rightarrow> int \<times> u32 \<times> u16) \<Rightarrow> u32 \<Rightarrow> 'h env \<Rightarrow> u32 \<Rightarrow> u32 \<Rightarrow> u32 \<Rightarrow> 'h kernel \<Rightarrow> (u32 \<times> 'h kernel) option" where
  "sock_name ask code E fd addr alenp k =
     (let sid = sock_id E fd k
      in if sid < 0 then Some (err ERR_EBADF, k)
         else if addr = 0 \<or> \<not> user_ptr_ok addr 16 then Some (err ERR_EFAULT, k)
         else case ask sid k of (n, ip, port) \<Rightarrow>
           if n < 0 then Some (err code, k) else do { k \<leftarrow> write_sockaddr addr alenp ip port k; Some (0, k) })"

definition do_getsockname :: "'h env \<Rightarrow> u32 \<Rightarrow> u32 \<Rightarrow> u32 \<Rightarrow> 'h kernel \<Rightarrow> (u32 \<times> 'h kernel) option" where
  "do_getsockname E fd addr alenp k = sock_name (net_getsockname (e_net E)) ERR_EBADF E fd addr alenp k"

definition do_getpeername :: "'h env \<Rightarrow> u32 \<Rightarrow> u32 \<Rightarrow> u32 \<Rightarrow> 'h kernel \<Rightarrow> (u32 \<times> 'h kernel) option" where
  "do_getpeername E fd addr alenp k = sock_name (net_getpeername (e_net E)) ERR_ENOTCONN E fd addr alenp k"

definition do_listen :: "'h env \<Rightarrow> u32 \<Rightarrow> 'h kernel \<Rightarrow> u32 \<times> 'h kernel" where
  "do_listen E fd k = (case net_listen (e_net E) (sock_id E fd k) k of (n, k) \<Rightarrow> (if n < 0 then err ERR_EBADF else 0, k))"

definition do_accept :: "'h env \<Rightarrow> u32 \<Rightarrow> 'h kernel \<Rightarrow> u32 \<times> 'h kernel" where
  "do_accept E fd k =
     (case net_accept (e_net E) (sock_id E fd k) k of (n, k) \<Rightarrow>
        (if n = NET_EAGAIN then err ERR_EAGAIN else if n < 0 then err ERR_EBADF else word_of_int (n + NET_FD_BASE), k))"

definition do_socketcall :: "'h env \<Rightarrow> u32 \<Rightarrow> u32 \<Rightarrow> 'h kernel \<Rightarrow> (u32 \<times> 'h kernel) option" where
  "do_socketcall E call args k =
     (if args = 0 \<or> \<not> user_ptr_ok args 24 then Some (err ERR_EFAULT, k)
      else do {
        a \<leftarrow> vload32s args 6 k;
        if call = 1 then Some (do_socket E (sint (a ! 0)) (sint (a ! 1)) (sint (a ! 2)) k)
        else if call = 2 then do_bind E (a ! 0) (a ! 1) (a ! 2) k
        else if call = 3 then do_connect E (a ! 0) (a ! 1) (a ! 2) k
        else if call = 4 then Some (do_listen E (a ! 0) k)
        else if call = 5 then Some (do_accept E (a ! 0) k)
        else if call = 6 then do_getsockname E (a ! 0) (a ! 1) (a ! 2) k
        else if call = 7 then do_getpeername E (a ! 0) (a ! 1) (a ! 2) k
        else if call = 9 then do_sendto E (a ! 0) (a ! 1) (a ! 2) 0 0 k
        else if call = 10 then do_recvfrom E (a ! 0) (a ! 1) (a ! 2) 0 0 k
        else if call = 11 then do_sendto E (a ! 0) (a ! 1) (a ! 2) (a ! 4) (a ! 5) k
        else if call = 12 then do_recvfrom E (a ! 0) (a ! 1) (a ! 2) (a ! 4) (a ! 5) k
        else if call = 13 \<or> call = 14 \<or> call = 15 then Some (0, k)
        else Some (err ERR_ENOSYS, k) })"

section \<open>Status records\<close>

definition enc64 :: "u64 \<Rightarrow> u8 list" where
  "enc64 v = map (\<lambda>i. ucast (drop_bit (8 * i) v)) [0..<8]"

text \<open>A zeroed record of \<open>n\<close> bytes into which fields are copied one after the other.\<close>

definition put_fields :: "nat \<Rightarrow> (nat \<times> u8 list) list \<Rightarrow> u8 list" where
  "put_fields n fs = fold (\<lambda>(off, bs). overlay off bs) fs (replicate n 0)"

record stat_info =
  st_ino :: u32
  st_mode :: u32
  st_nlink :: u32
  st_size :: u32
  st_atime :: u32
  st_mtime :: u32
  st_ctime :: u32

definition STAT64_SIZE :: u32 where "STAT64_SIZE = 96"
definition STAT_OLD_SIZE :: u32 where "STAT_OLD_SIZE = 64"
definition STATX_SIZE :: u32 where "STATX_SIZE = 256"
definition STATFS_OLD_SIZE :: u32 where "STATFS_OLD_SIZE = 64"
definition STATFS64_SIZE :: u32 where "STATFS64_SIZE = 84"
definition SYSINFO_SIZE :: u32 where "SYSINFO_SIZE = 64"
definition S_IFREG :: u32 where "S_IFREG = 0x8000"
definition S_IFDIR :: u32 where "S_IFDIR = 0x4000"
definition S_IFCHR :: u32 where "S_IFCHR = 0x2000"
definition S_IFBLK :: u32 where "S_IFBLK = 0x6000"
definition S_IFIFO :: u32 where "S_IFIFO = 0x1000"

definition blocks64 :: "u32 \<Rightarrow> u64" where
  "blocks64 n = (ucast n + 511) div 512"

definition fill_stat64 :: "stat_info \<Rightarrow> u8 list" where
  "fill_stat64 s = put_fields 96
     [(0, enc64 1), (12, enc32 (st_ino s)), (16, enc32 (st_mode s)), (20, enc32 (st_nlink s)), (24, enc32 0), (28, enc32 0),
      (32, enc64 0), (44, enc64 (ucast (st_size s))), (52, enc32 4096), (56, enc64 (blocks64 (st_size s))),
      (64, enc32 (st_atime s)), (72, enc32 (st_mtime s)), (80, enc32 (st_ctime s)), (88, enc64 (ucast (st_ino s)))]"

definition fill_stat_old :: "stat_info \<Rightarrow> u8 list" where
  "fill_stat_old s = put_fields 64
     [(0, enc16 1), (4, enc32 (st_ino s)), (8, enc16 (ucast (st_mode s))), (10, enc16 (ucast (st_nlink s))), (12, enc16 0),
      (14, enc16 0), (20, enc32 (st_size s)), (24, enc32 4096), (28, enc32 ((st_size s + 511) div 512)),
      (32, enc32 (st_atime s)), (40, enc32 (st_mtime s)), (48, enc32 (st_ctime s))]"

definition fill_statx :: "stat_info \<Rightarrow> u8 list" where
  "fill_statx s = put_fields 256
     [(0, enc32 0x7FF), (4, enc32 4096), (16, enc32 (st_nlink s)), (20, enc32 0), (24, enc32 0), (28, enc16 (ucast (st_mode s))),
      (32, enc64 (ucast (st_ino s))), (40, enc64 (ucast (st_size s))), (48, enc64 (blocks64 (st_size s))),
      (64, enc64 (ucast (st_atime s))), (96, enc64 (ucast (st_ctime s))), (112, enc64 (ucast (st_mtime s)))]"

definition disk_size :: "'h kernel \<Rightarrow> u32" where
  "disk_size k = (let sec = ata_sector_count (fs_ata (k_fs k)) in if sec > 8000000 then 0xFFFFFFFF else sec * 512)"

definition file_stat :: "int \<Rightarrow> 'h kernel \<Rightarrow> stat_info" where
  "file_stat slot k = \<lparr>st_ino = word_of_int (slot + 3), st_mode = S_IFREG OR 0x1A4, st_nlink = 1, st_size = fs_fd_size slot (k_fs k),
     st_atime = fs_fd_atime slot (k_fs k), st_mtime = fs_fd_mtime slot (k_fs k), st_ctime = fs_fd_ctime slot (k_fs k)\<rparr>"

definition stat_now :: "u32 \<Rightarrow> u32 \<Rightarrow> u32 \<Rightarrow> u32 \<Rightarrow> u32 \<Rightarrow> stat_info" where
  "stat_now ino mode nlink n now =
     \<lparr>st_ino = ino, st_mode = mode, st_nlink = nlink, st_size = n, st_atime = now, st_mtime = now, st_ctime = now\<rparr>"

definition dir_ino :: "int \<Rightarrow> u32 \<Rightarrow> u32" where
  "dir_ino d pid = (if d = VFS_DIR_DEV then 100 else if d = VFS_DIR_PROC then 101 else if d = VFS_DIR_ETC then 102
     else if d = VFS_DIR_PID then 500 + pid * 8 else if d = VFS_DIR_REAL then 1000 else 1)"

definition vfs_ent_fields :: "'h env \<Rightarrow> vfs_ent_t \<Rightarrow> 'h kernel \<Rightarrow> stat_info option \<times> 'h kernel" where
  "vfs_ent_fields E e k =
     (case k_now E k of (now, k) \<Rightarrow>
      case v_type e of
        VFS_T_FILE \<Rightarrow> (Some (file_stat (v_slot e) k), k)
      | VFS_T_DIR \<Rightarrow> (Some (stat_now (dir_ino (v_id e) (v_pid e)) (S_IFDIR OR 0x1ED) 2 0 now), k)
      | VFS_T_DEV \<Rightarrow>
          (Some (if v_id e = VFS_DEV_ATA then stat_now (200 + word_of_int (v_id e)) (S_IFBLK OR 0x1B6) 1 (disk_size k) now
                 else stat_now (200 + word_of_int (v_id e)) (S_IFCHR OR 0x1B6) 1 0 now), k)
      | VFS_T_VFILE \<Rightarrow>
          let ino = (if VFS_VF_PID_STAT \<le> v_id e \<and> v_id e \<le> VFS_VF_PID_MAPS
                     then 600 + v_pid e * 8 + word_of_int (v_id e - VFS_VF_PID_STAT) else 300 + word_of_int (v_id e))
          in (case vfs_vfile_size (e_ports E) (v_id e) (v_pid e) k of (n, k) \<Rightarrow>
                (Some (stat_now ino (S_IFREG OR 0x124) 1 n now), k))
      | VFS_T_MODULE \<Rightarrow>
          (Some (stat_now (900 + word_of_int (v_id e)) (S_IFREG OR 0x1ED) 1 (vfs_module_size (v_id e) k) now), k)
      | VFS_T_NONE \<Rightarrow> (None, k))"

definition dev_ino :: "user_fd_kind_t \<Rightarrow> u32" where
  "dev_ino kind = (if kind = USER_FD_DEV_ZERO then 201 else if kind = USER_FD_DEV_CONSOLE then 202 else 200)"

definition vfs_fd_fields :: "'h env \<Rightarrow> int \<Rightarrow> 'h kernel \<Rightarrow> stat_info option \<times> 'h kernel" where
  "vfs_fd_fields E fd k0 =
     (case k_now E k0 of (now, k) \<Rightarrow>
      case user_fd_kind fd k0 of
        None \<Rightarrow> (None, k)
      | Some kind \<Rightarrow>
          if kind = USER_FD_STDIN \<or> kind = USER_FD_STDOUT \<or> kind = USER_FD_STDERR
          then (Some (stat_now (word_of_int fd + 1) (S_IFCHR OR 0x1B6) 1 0 now), k)
          else if kind = USER_FD_FILE
          then (if user_fd_slot fd k < 0 then None else Some (file_stat (user_fd_slot fd k) k), k)
          else if kind = USER_FD_DIR
          then (case vfs_dir_meta (user_fd_dir_path fd k) k of
                  None \<Rightarrow> (None, k)
                | Some (d, pid) \<Rightarrow> vfs_ent_fields E \<lparr>v_type = VFS_T_DIR, v_slot = 0, v_id = d, v_pid = pid, v_path = []\<rparr> k)
          else if kind = USER_FD_DEV_NULL \<or> kind = USER_FD_DEV_ZERO \<or> kind = USER_FD_DEV_CONSOLE
          then (Some (stat_now (dev_ino kind) (S_IFCHR OR 0x1B6) 1 0 now), k)
          else if kind = USER_FD_DEV_ATA then (Some (stat_now 204 (S_IFBLK OR 0x1B6) 1 (disk_size k) now), k)
          else if kind = USER_FD_VFILE then (Some (stat_now 300 (S_IFREG OR 0x124) 1 (fst (user_fd_vfile fd k)) now), k)
          else if user_fd_pipe_id fd k < 0 then (None, k)
          else (Some (stat_now (950 + word_of_int (user_fd_pipe_id fd k)) (S_IFIFO OR 0x180) 1
                  (pipe_fill (user_fd_pipe_id fd k) k) now), k))"

definition stat_bytes :: "bool \<Rightarrow> stat_info \<Rightarrow> u8 list" where
  "stat_bytes is64 s = (if is64 then fill_stat64 s else fill_stat_old s)"

definition stat_room :: "bool \<Rightarrow> u32" where
  "stat_room is64 = (if is64 then STAT64_SIZE else STAT_OLD_SIZE)"

definition do_stat_buf :: "'h env \<Rightarrow> u8 list \<Rightarrow> u32 \<Rightarrow> bool \<Rightarrow> 'h kernel \<Rightarrow> (u32 \<times> 'h kernel) option" where
  "do_stat_buf E path st_ptr is64 k =
     (if \<not> user_ptr_ok st_ptr (stat_room is64) then Some (err ERR_EFAULT, k)
      else case vfs_lookup path k of (rc, e) \<Rightarrow>
        if failed rc then Some (rc, k)
        else case vfs_ent_fields E e k of
          (None, k) \<Rightarrow> Some (err ERR_ENOENT, k)
        | (Some s, k) \<Rightarrow> do { k \<leftarrow> vstore st_ptr (stat_bytes is64 s) k; Some (0, k) })"

definition do_stat :: "'h env \<Rightarrow> u32 \<Rightarrow> u32 \<Rightarrow> bool \<Rightarrow> 'h kernel \<Rightarrow> (u32 \<times> 'h kernel) option" where
  "do_stat E path_ptr st_ptr is64 k = with_path path_ptr 128 (\<lambda>path. do_stat_buf E path st_ptr is64 k) k"

definition do_fstat :: "'h env \<Rightarrow> u32 \<Rightarrow> u32 \<Rightarrow> bool \<Rightarrow> 'h kernel \<Rightarrow> (u32 \<times> 'h kernel) option" where
  "do_fstat E fd st_ptr is64 k =
     (if \<not> user_ptr_ok st_ptr (stat_room is64) then Some (err ERR_EFAULT, k)
      else case vfs_fd_fields E (sint fd) k of
        (None, k) \<Rightarrow> Some (err ERR_EBADF, k)
      | (Some s, k) \<Rightarrow> do { k \<leftarrow> vstore st_ptr (stat_bytes is64 s) k; Some (0, k) })"

definition do_statx :: "'h env \<Rightarrow> u32 \<Rightarrow> u32 \<Rightarrow> u32 \<Rightarrow> 'h kernel \<Rightarrow> (u32 \<times> 'h kernel) option" where
  "do_statx E dirfd path_ptr ub k =
     (if \<not> user_ptr_ok ub STATX_SIZE then Some (err ERR_EFAULT, k)
      else with_path path_ptr 128 (\<lambda>path.
        if path = []
        then if sint dirfd < 0 then Some (err ERR_ENOENT, k)
             else case vfs_fd_fields E (sint dirfd) k of
               (None, k) \<Rightarrow> Some (err ERR_EBADF, k)
             | (Some s, k) \<Rightarrow> do { k \<leftarrow> vstore ub (fill_statx s) k; Some (0, k) }
        else case vfs_lookup path k of (rc, e) \<Rightarrow>
          if failed rc then Some (rc, k)
          else case vfs_ent_fields E e k of
            (None, k) \<Rightarrow> Some (err ERR_ENOENT, k)
          | (Some s, k) \<Rightarrow> do { k \<leftarrow> vstore ub (fill_statx s) k; Some (0, k) }) k)"

definition fs_free_slots :: "'h kernel \<Rightarrow> u32" where
  "fs_free_slots k = (let n = fs_used_slots (k_fs k) in if n < FS_MAX_FILES then word_of_nat (FS_MAX_FILES - n) else 0)"

definition fill_statfs64 :: "'h kernel \<Rightarrow> u8 list" where
  "fill_statfs64 k =
     (let free = ucast (fs_free_slots k) :: u64
      in put_fields 84 [(0, enc32 0x4D554F53), (4, enc32 FS_MAX_SIZE), (8, enc64 16), (16, enc64 free), (24, enc64 free), (32, enc64 16),
           (40, enc64 free), (56, enc32 64), (60, enc32 FS_MAX_SIZE)])"

definition fill_statfs_old :: "'h kernel \<Rightarrow> u8 list" where
  "fill_statfs_old k =
     (let free = fs_free_slots k
      in put_fields 64 [(0, enc32 0x4D554F53), (4, enc32 FS_MAX_SIZE), (8, enc32 16), (12, enc32 free), (16, enc32 free), (20, enc32 16),
           (24, enc32 free), (36, enc32 64), (40, enc32 FS_MAX_SIZE)])"

definition statfs_room :: "bool \<Rightarrow> u32" where
  "statfs_room is64 = (if is64 then STATFS64_SIZE else STATFS_OLD_SIZE)"

definition statfs_bytes :: "bool \<Rightarrow> 'h kernel \<Rightarrow> u8 list" where
  "statfs_bytes is64 k = (if is64 then fill_statfs64 k else fill_statfs_old k)"

definition do_statfs_path :: "u32 \<Rightarrow> u32 \<Rightarrow> bool \<Rightarrow> 'h kernel \<Rightarrow> (u32 \<times> 'h kernel) option" where
  "do_statfs_path path_ptr ub is64 k = with_path path_ptr 128 (\<lambda>path.
     if \<not> user_ptr_ok ub (statfs_room is64) then Some (err ERR_EFAULT, k)
     else case vfs_lookup path k of (rc, e) \<Rightarrow>
       if failed rc then Some (rc, k) else do { k \<leftarrow> vstore ub (statfs_bytes is64 k) k; Some (0, k) }) k"

definition do_fstatfs :: "u32 \<Rightarrow> u32 \<Rightarrow> bool \<Rightarrow> 'h kernel \<Rightarrow> (u32 \<times> 'h kernel) option" where
  "do_fstatfs fd ub is64 k =
     (if user_fd_kind (sint fd) k = None then Some (err ERR_EBADF, k)
      else if \<not> user_ptr_ok ub (statfs_room is64) then Some (err ERR_EFAULT, k)
      else do { k \<leftarrow> vstore ub (statfs_bytes is64 k) k; Some (0, k) })"

definition do_sysinfo :: "u32 \<Rightarrow> 'h kernel \<Rightarrow> (u32 \<times> 'h kernel) option" where
  "do_sysinfo ptr k =
     (if \<not> user_ptr_ok ptr SYSINFO_SIZE then Some (err ERR_EFAULT, k)
      else do {
        k \<leftarrow> vstore ptr (put_fields 64 [(0, enc32 (pit_get_ticks (k_pit k) div 100)), (16, enc32 (mm_get_total_pages (k_mm k) * PAGE_SIZE)),
               (20, enc32 (mm_get_free_pages (k_mm k) * PAGE_SIZE)), (40, enc16 (ucast (task_count k))), (52, enc32 1)]) k;
        Some (0, k) })"

end
