(* ===== verification/Sys_Name.thy ===== *)
theory Sys_Name
  imports Sys_File
begin

text \<open>
  The calls of \<^verbatim>\<open>src/syscall.c\<close> that move data between descriptors, list directories, seek, and change
  names and attributes of files.
\<close>

declare drop_bit_and [simp del] drop_bit_or [simp del]

section \<open>Copying and listing\<close>

definition kbuf_write :: "'h env \<Rightarrow> u32 \<Rightarrow> u8 list \<Rightarrow> 'h kernel \<Rightarrow> int \<times> 'h kernel" where
  "kbuf_write E fd data k =
     (let f = sint fd
      in case user_fd_kind f k of
           Some USER_FD_FILE \<Rightarrow> write_file E f data (word_of_nat (length data)) k
         | Some USER_FD_DEV_NULL \<Rightarrow> (int (length data), k)
         | Some USER_FD_DEV_ZERO \<Rightarrow> (int (length data), k)
         | Some USER_FD_STDOUT \<Rightarrow> (int (length data), put_console data k)
         | Some USER_FD_STDERR \<Rightarrow> (int (length data), put_console data k)
         | Some USER_FD_DEV_CONSOLE \<Rightarrow> (int (length data), put_console data k)
         | Some USER_FD_VFILE \<Rightarrow> (- 13, k)
         | Some USER_FD_PIPE_WRITE \<Rightarrow> write_pipe f data k
         | Some USER_FD_DIR \<Rightarrow> (- 21, k)
         | _ \<Rightarrow> (- 9, k))"

text \<open>The loop of \<^verbatim>\<open>do_sendfile\<close>: an error code, or the bytes copied and the offset reached.\<close>

partial_function (option) send_loop ::
  "'h env \<Rightarrow> u32 \<Rightarrow> int \<Rightarrow> u32 \<Rightarrow> u32 \<Rightarrow> u32 \<Rightarrow> 'h kernel \<Rightarrow> ((u32 + (u32 \<times> u32)) \<times> 'h kernel) option" where
  "send_loop E out_fd slot cnt tot off k =
     (if \<not> tot < cnt then Some (Inr (tot, off), k)
      else
        let chunk = (if cnt - tot > 4096 then 4096 else cnt - tot)
        in case fs_call (fs_read_at (e_ports E) slot off chunk) k of ((n, data), k) \<Rightarrow>
             if n \<le> 0 then Some (Inr (tot, off), k)
             else case kbuf_write E out_fd data k of (w, k) \<Rightarrow>
               if w < 0 then Some (if tot = 0 then Inl (err (word_of_int (- w))) else Inr (tot, off), k)
               else if w < n then Some (Inr (tot + word_of_int w, off + word_of_int w), k)
               else send_loop E out_fd slot cnt (tot + word_of_int w) (off + word_of_int w) k)"

definition do_sendfile :: "'h env \<Rightarrow> u32 \<Rightarrow> u32 \<Rightarrow> u32 \<Rightarrow> u32 \<Rightarrow> 'h kernel \<Rightarrow> (u32 \<times> 'h kernel) option" where
  "do_sendfile E out_fd in_fd off_ptr cnt k =
     (let slot = user_fd_slot (sint in_fd) k
      in if slot < 0 then Some (err ERR_EBADF, k)
         else if off_ptr \<noteq> 0 \<and> \<not> user_ptr_ok off_ptr 4 then Some (err ERR_EFAULT, k)
         else do {
           off \<leftarrow> (if off_ptr \<noteq> 0 then vload32 off_ptr k else Some (user_fd_offset (sint in_fd) k));
           (res, k) \<leftarrow> send_loop E out_fd slot cnt 0 off k;
           case res of
             Inl e \<Rightarrow> Some (e, k)
           | Inr (tot, off) \<Rightarrow>
               if off_ptr \<noteq> 0 then do { k \<leftarrow> vstore32 off_ptr off k; Some (tot, k) }
               else Some (tot, snd (user_fd_set_offset (sint in_fd) off k)) })"

definition dirent_len :: "bool \<Rightarrow> u8 list \<Rightarrow> u32" where
  "dirent_len is64 name =
     (if is64 then (19 + word_of_nat (length name) + 1 + 7) AND NOT 7 else (10 + word_of_nat (length name) + 1 + 3) AND NOT 3)"

definition dirent :: "bool \<Rightarrow> u8 list \<Rightarrow> u32 \<Rightarrow> u8 \<Rightarrow> u32 \<Rightarrow> u8 list" where
  "dirent is64 name ino ty idx =
     (let reclen = dirent_len is64 name
      in take (unat reclen)
           (if is64
            then put_fields 96 [(0, enc64 (ucast ino)), (8, enc64 (ucast (idx + 1))), (16, enc16 (ucast reclen)), (18, [ty]), (19, [0]),
                   (19, name)]
            else put_fields 96 [(0, enc32 ino), (4, enc32 (idx + 1)), (8, enc16 (ucast reclen)), (10, [0]), (10, name),
                   (unat reclen - 1, [ty])]))"

partial_function (option) dents_loop ::
  "u8 list \<Rightarrow> u32 \<Rightarrow> u32 \<Rightarrow> bool \<Rightarrow> u32 \<Rightarrow> u32 \<Rightarrow> 'h kernel \<Rightarrow> ((u32 + (u32 \<times> u32)) \<times> 'h kernel) option" where
  "dents_loop path ub cnt is64 idx tot k =
     (case vfs_dir_entry path idx k of
        None \<Rightarrow> Some (Inr (idx, tot), k)
      | Some (name, ino, ty) \<Rightarrow>
          let reclen = dirent_len is64 name
          in if tot + reclen > cnt then Some (if tot = 0 then Inl (err ERR_EINVAL) else Inr (idx, tot), k)
             else if \<not> user_ptr_ok (ub + tot) reclen then Some (Inl (err ERR_EFAULT), k)
             else do {
               k \<leftarrow> vstore (ub + tot) (dirent is64 name ino ty idx) k;
               dents_loop path ub cnt is64 (idx + 1) (tot + reclen) k })"

definition do_getdents :: "u32 \<Rightarrow> u32 \<Rightarrow> u32 \<Rightarrow> bool \<Rightarrow> 'h kernel \<Rightarrow> (u32 \<times> 'h kernel) option" where
  "do_getdents fd ub cnt is64 k =
     (let f = sint fd
      in if \<not> user_fd_is_dir f k then Some (err (if user_fd_kind f k \<noteq> None then ERR_ENOTDIR else ERR_EBADF), k)
         else if cnt < 8 then Some (err ERR_EINVAL, k)
         else do {
           (res, k) \<leftarrow> dents_loop (user_fd_dir_path f k) ub cnt is64 (user_fd_offset f k) 0 k;
           case res of
             Inl e \<Rightarrow> Some (e, k)
           | Inr (idx, tot) \<Rightarrow> Some (tot, snd (user_fd_set_offset f idx k)) })"

section \<open>Seeking\<close>

definition fd_regular_size :: "int \<Rightarrow> 'h kernel \<Rightarrow> u32 option" where
  "fd_regular_size fd k =
     (case user_fd_kind fd k of
        Some USER_FD_FILE \<Rightarrow> if user_fd_slot fd k < 0 then None else Some (fs_fd_size (user_fd_slot fd k) (k_fs k))
      | Some USER_FD_VFILE \<Rightarrow> Some (fst (user_fd_vfile fd k))
      | Some USER_FD_DEV_ATA \<Rightarrow> Some (disk_size k)
      | _ \<Rightarrow> None)"

definition do_lseek :: "u32 \<Rightarrow> u32 \<Rightarrow> u32 \<Rightarrow> 'h kernel \<Rightarrow> u32 \<times> 'h kernel" where
  "do_lseek fd offset whence k =
     (case fd_regular_size (sint fd) k of
        None \<Rightarrow> (err ERR_EBADF, k)
      | Some fsize \<Rightarrow>
          if whence > 2 then (err ERR_EINVAL, k)
          else
            let base = (if whence = 0 then 0 else if whence = 1 then sint (user_fd_offset (sint fd) k) else sint fsize);
                pos = base + sint offset
            in if pos < 0 \<or> pos > 0x7FFFFFFF then (err ERR_EINVAL, k)
               else (word_of_int pos, snd (user_fd_set_offset (sint fd) (word_of_int pos) k)))"

definition do_llseek :: "u32 \<Rightarrow> u32 \<Rightarrow> u32 \<Rightarrow> u32 \<Rightarrow> u32 \<Rightarrow> 'h kernel \<Rightarrow> (u32 \<times> 'h kernel) option" where
  "do_llseek fd off_lo off_hi res whence k =
     (case fd_regular_size (sint fd) k of
        None \<Rightarrow> Some (err ERR_EBADF, k)
      | Some fsize \<Rightarrow>
          if \<not> user_ptr_ok res 8 then Some (err ERR_EFAULT, k)
          else if whence > 2 then Some (err ERR_EINVAL, k)
          else
            let base = (if whence = 0 then 0 else if whence = 1 then ucast (user_fd_offset (sint fd) k) else ucast fsize) :: u64;
                pos = base + (push_bit 32 (ucast off_hi) OR ucast off_lo)
            in if sint pos < 0 \<or> sint pos > 0x7FFFFFFF then Some (err ERR_EINVAL, k)
               else do {
                 let k = snd (user_fd_set_offset (sint fd) (ucast pos) k);
                 k \<leftarrow> vstore res (enc64 pos) k;
                 Some (0, k) })"

section \<open>Attributes\<close>

definition do_access_buf :: "u8 list \<Rightarrow> u32 \<Rightarrow> 'h kernel \<Rightarrow> u32" where
  "do_access_buf path mode k =
     (case vfs_lookup path k of (rc, e) \<Rightarrow>
        if failed rc then rc else if mode = 0 then 0 else if \<not> path_perm_ok path (mode AND 7) k then err ERR_EACCES else 0)"

definition do_access :: "u32 \<Rightarrow> u32 \<Rightarrow> 'h kernel \<Rightarrow> (u32 \<times> 'h kernel) option" where
  "do_access path_ptr mode k = with_path path_ptr 128 (\<lambda>path. Some (do_access_buf path mode k, k)) k"

definition real_entity :: "vfs_ent_t \<Rightarrow> bool" where
  "real_entity e \<longleftrightarrow> v_type e = VFS_T_FILE \<or> v_type e = VFS_T_DIR \<and> v_id e = VFS_DIR_REAL"

text \<open>Whether the caller is neither root nor the owner.\<close>

definition not_owner :: "u32 \<Rightarrow> 'h kernel \<Rightarrow> bool" where
  "not_owner fuid k \<longleftrightarrow>
     (case current_proc k of None \<Rightarrow> False | Some i \<Rightarrow> p_uid (procs k ! i) \<noteq> 0 \<and> p_uid (procs k ! i) \<noteq> fuid)"

definition not_root :: "'h kernel \<Rightarrow> bool" where
  "not_root k \<longleftrightarrow> (case current_proc k of None \<Rightarrow> False | Some i \<Rightarrow> p_uid (procs k ! i) \<noteq> 0)"

definition eperm_if_neg :: "int \<times> 'h kernel \<Rightarrow> u32 \<times> 'h kernel" where
  "eperm_if_neg x = (case x of (n, k) \<Rightarrow> (if n < 0 then err ERR_EPERM else 0, k))"

definition do_chmod_buf :: "'h env \<Rightarrow> u8 list \<Rightarrow> u32 \<Rightarrow> 'h kernel \<Rightarrow> u32 \<times> 'h kernel" where
  "do_chmod_buf E path mode k =
     (case vfs_lookup path k of (rc, e) \<Rightarrow>
        if failed rc then (rc, k)
        else if \<not> real_entity e then (err ERR_EPERM, k)
        else
          let rel = dropWhile (\<lambda>c. c = slash) path
          in if (case fs_perm_path rel (k_fs k) of None \<Rightarrow> False | Some (fuid, _) \<Rightarrow> not_owner fuid k) then (err ERR_EPERM, k)
             else eperm_if_neg (fs_call (fs_chmod_path (e_ports E) rel (ucast (mode AND 0xFFF))) k))"

definition do_chmod :: "'h env \<Rightarrow> u32 \<Rightarrow> u32 \<Rightarrow> 'h kernel \<Rightarrow> (u32 \<times> 'h kernel) option" where
  "do_chmod E path_ptr mode k = with_path path_ptr 128 (\<lambda>path. Some (do_chmod_buf E path mode k)) k"

definition do_fchmod :: "'h env \<Rightarrow> u32 \<Rightarrow> u32 \<Rightarrow> 'h kernel \<Rightarrow> u32 \<times> 'h kernel" where
  "do_fchmod E fd mode k =
     (case user_fd_kind (sint fd) k of
        None \<Rightarrow> (err ERR_EBADF, k)
      | Some USER_FD_FILE \<Rightarrow>
          let slot = user_fd_slot (sint fd) k
          in if (case fs_perm_slot slot (k_fs k) of None \<Rightarrow> False | Some (fuid, _) \<Rightarrow> not_owner fuid k) then (err ERR_EPERM, k)
             else eperm_if_neg (fs_call (fs_chmod_slot (e_ports E) slot (ucast (mode AND 0xFFF))) k)
      | Some USER_FD_DIR \<Rightarrow> (0, k)
      | Some _ \<Rightarrow> (err ERR_EPERM, k))"

definition einval_unless0 :: "int \<times> 'h kernel \<Rightarrow> u32 \<times> 'h kernel" where
  "einval_unless0 x = (case x of (n, k) \<Rightarrow> (if n = 0 then 0 else err ERR_EINVAL, k))"

definition do_ftruncate :: "'h env \<Rightarrow> u32 \<Rightarrow> u32 \<Rightarrow> 'h kernel \<Rightarrow> u32 \<times> 'h kernel" where
  "do_ftruncate E fd len k =
     (case user_fd_kind (sint fd) k of
        None \<Rightarrow> (err ERR_EBADF, k)
      | Some USER_FD_FILE \<Rightarrow>
          let slot = user_fd_slot (sint fd) k
          in if slot < 0 then (err ERR_EBADF, k) else einval_unless0 (fs_call (fs_truncate (e_ports E) slot len) k)
      | Some _ \<Rightarrow> (err ERR_EINVAL, k))"

definition do_truncate :: "'h env \<Rightarrow> u32 \<Rightarrow> u32 \<Rightarrow> 'h kernel \<Rightarrow> (u32 \<times> 'h kernel) option" where
  "do_truncate E path_ptr len k = with_path path_ptr 128 (\<lambda>path.
     case vfs_lookup path k of (rc, e) \<Rightarrow>
       Some (if failed rc then (rc, k)
             else if v_type e = VFS_T_DIR then (err ERR_EISDIR, k)
             else if v_type e \<noteq> VFS_T_FILE then (err ERR_EINVAL, k)
             else einval_unless0 (fs_call (fs_truncate (e_ports E) (v_slot e) len) k))) k"

definition do_truncate64 :: "'h env \<Rightarrow> u32 \<Rightarrow> u32 \<Rightarrow> u32 \<Rightarrow> 'h kernel \<Rightarrow> (u32 \<times> 'h kernel) option" where
  "do_truncate64 E path_ptr lo hi k = (if hi \<noteq> 0 then Some (err ERR_EFBIG, k) else do_truncate E path_ptr lo k)"

definition do_ftruncate64 :: "'h env \<Rightarrow> u32 \<Rightarrow> u32 \<Rightarrow> u32 \<Rightarrow> 'h kernel \<Rightarrow> u32 \<times> 'h kernel" where
  "do_ftruncate64 E fd lo hi k = (if hi \<noteq> 0 then (err ERR_EFBIG, k) else do_ftruncate E fd lo k)"

definition k_sync :: "'h env \<Rightarrow> 'h kernel \<Rightarrow> 'h kernel" where
  "k_sync E k = k\<lparr>k_fs := snd (fs_sync (e_ports E) (k_fs k))\<rparr>"

definition do_fsync :: "'h env \<Rightarrow> u32 \<Rightarrow> 'h kernel \<Rightarrow> u32 \<times> 'h kernel" where
  "do_fsync E fd k =
     (case user_fd_kind (sint fd) k of
        None \<Rightarrow> (err ERR_EBADF, k) | Some USER_FD_FILE \<Rightarrow> (0, k_sync E k) | Some _ \<Rightarrow> (0, k))"

section \<open>Limits\<close>

definition rlimit_values :: "u32 \<Rightarrow> u32 option" where
  "rlimit_values resource =
     (if resource > 15 then None
      else if resource = 7 then Some (word_of_nat USER_FD_MAX)
      else if resource = 3 \<or> resource = 2 \<or> resource = 9 then Some USER_SIZE
      else if resource = 4 then Some 0
      else Some 0xFFFFFFFF)"

definition do_getrlimit :: "u32 \<Rightarrow> u32 \<Rightarrow> 'h kernel \<Rightarrow> (u32 \<times> 'h kernel) option" where
  "do_getrlimit resource ptr k =
     (if \<not> user_ptr_ok ptr 8 then Some (err ERR_EFAULT, k)
      else case rlimit_values resource of
        None \<Rightarrow> Some (err ERR_EINVAL, k)
      | Some v \<Rightarrow> do { k \<leftarrow> vstore ptr (enc32 v) k; k \<leftarrow> vstore (ptr + 4) (enc32 v) k; Some (0, k) })"

definition do_setrlimit :: "u32 \<Rightarrow> u32 \<Rightarrow> u32" where
  "do_setrlimit resource ptr =
     (if \<not> user_ptr_ok ptr 8 then err ERR_EFAULT else if resource > 15 then err ERR_EINVAL else 0)"

definition do_prlimit64 :: "u32 \<Rightarrow> u32 \<Rightarrow> u32 \<Rightarrow> u32 \<Rightarrow> 'h kernel \<Rightarrow> (u32 \<times> 'h kernel) option" where
  "do_prlimit64 pid resource new_ptr old_ptr k =
     (if new_ptr \<noteq> 0 \<and> \<not> user_ptr_ok new_ptr 16 then Some (err ERR_EFAULT, k)
      else if old_ptr \<noteq> 0 \<and> \<not> user_ptr_ok old_ptr 16 then Some (err ERR_EFAULT, k)
      else case rlimit_values resource of
        None \<Rightarrow> Some (err ERR_EINVAL, k)
      | Some v \<Rightarrow>
          let self_pid = (case current_proc k of None \<Rightarrow> 1 | Some i \<Rightarrow> p_pid (procs k ! i))
          in if pid \<noteq> 0 \<and> pid \<noteq> self_pid
             then Some (if proc_find pid k = None then err ERR_ESRCH else err ERR_EPERM, k)
             else if old_ptr \<noteq> 0
             then do { k \<leftarrow> vstore old_ptr (enc64 (ucast v)) k; k \<leftarrow> vstore (old_ptr + 8) (enc64 (ucast v)) k; Some (0, k) }
             else Some (0, k))"

section \<open>Names\<close>

definition zero_or :: "u32 \<Rightarrow> int \<times> 'h kernel \<Rightarrow> u32 \<times> 'h kernel" where
  "zero_or e x = (case x of (n, k) \<Rightarrow> (if n = 0 then 0 else err e, k))"

definition do_chdir :: "u32 \<Rightarrow> 'h kernel \<Rightarrow> (u32 \<times> 'h kernel) option" where
  "do_chdir path_ptr k = with_path path_ptr 128 (\<lambda>path.
     case vfs_lookup path k of (rc, e) \<Rightarrow>
       Some (if failed rc then (rc, k)
             else if v_type e \<noteq> VFS_T_DIR then (err ERR_ENOTDIR, k)
             else case user_cwd_set (Some (v_path e)) k of (ok, k) \<Rightarrow> (if ok then 0 else err ERR_ENAMETOOLONG, k))) k"

definition do_mkdir_buf :: "'h env \<Rightarrow> u8 list \<Rightarrow> 'h kernel \<Rightarrow> u32 \<times> 'h kernel" where
  "do_mkdir_buf E path k =
     (case vfs_lookup path k of (rc, e) \<Rightarrow>
        let name = drop 1 (v_path e)
        in if rc = 0 then (err ERR_EEXIST, k)
           else if - rc \<noteq> ERR_ENOENT then (rc, k)
           else if name = [] then (err ERR_EEXIST, k)
           else if length name \<ge> FS_MAX_NAME then (err ERR_ENAMETOOLONG, k)
           else if \<not> fs_parent_is_dir name (k_fs k) then (err ERR_ENOTDIR, k)
           else zero_or ERR_ENOSPC (fs_call (fs_mkdir (e_ports E) name) k))"

definition do_mkdir :: "'h env \<Rightarrow> u32 \<Rightarrow> 'h kernel \<Rightarrow> (u32 \<times> 'h kernel) option" where
  "do_mkdir E path_ptr k = with_path path_ptr 128 (\<lambda>path. Some (do_mkdir_buf E path k)) k"

definition do_rmdir_buf :: "'h env \<Rightarrow> u8 list \<Rightarrow> 'h kernel \<Rightarrow> u32 \<times> 'h kernel" where
  "do_rmdir_buf E path k =
     (case vfs_lookup path k of (rc, e) \<Rightarrow>
        if failed rc then (rc, k)
        else if v_type e \<noteq> VFS_T_DIR \<or> v_id e \<noteq> VFS_DIR_REAL then (err ERR_EPERM, k)
        else if \<not> fs_dir_is_empty (drop 1 (v_path e)) (k_fs k) then (err ERR_ENOTEMPTY, k)
        else zero_or ERR_ENOENT (fs_call (fs_rmdir (e_ports E) (drop 1 (v_path e))) k))"

definition do_rmdir :: "'h env \<Rightarrow> u32 \<Rightarrow> 'h kernel \<Rightarrow> (u32 \<times> 'h kernel) option" where
  "do_rmdir E path_ptr k = with_path path_ptr 128 (\<lambda>path. Some (do_rmdir_buf E path k)) k"

definition do_unlink_buf :: "'h env \<Rightarrow> u8 list \<Rightarrow> 'h kernel \<Rightarrow> u32 \<times> 'h kernel" where
  "do_unlink_buf E path k =
     (case vfs_lookup path k of (rc, e) \<Rightarrow>
        if failed rc then (rc, k)
        else case v_type e of
               VFS_T_FILE \<Rightarrow> zero_or ERR_ENOENT (fs_call (fs_delete (e_ports E) (drop 1 (v_path e))) k)
             | VFS_T_DIR \<Rightarrow> (err ERR_EISDIR, k)
             | _ \<Rightarrow> (err ERR_EPERM, k))"

definition do_unlink :: "'h env \<Rightarrow> u32 \<Rightarrow> 'h kernel \<Rightarrow> (u32 \<times> 'h kernel) option" where
  "do_unlink E path_ptr k = with_path path_ptr 128 (\<lambda>path. Some (do_unlink_buf E path k)) k"

text \<open>The two halves of \<^verbatim>\<open>do_rename_bufs\<close>: a directory, which may replace an empty one, and a file, which
  may replace a file.  \<open>found\<close> says whether the new name exists.\<close>

definition rename_dir_to :: "'h env \<Rightarrow> vfs_ent_t \<Rightarrow> bool \<Rightarrow> vfs_ent_t \<Rightarrow> 'h kernel \<Rightarrow> u32 \<times> 'h kernel" where
  "rename_dir_to E oe found ne k =
     (let go = (\<lambda>k. zero_or ERR_EINVAL (fs_call (fs_rename_dir (e_ports E) (drop 1 (v_path oe)) (drop 1 (v_path ne))) k))
      in if \<not> found then go k
         else if v_type ne \<noteq> VFS_T_DIR \<or> v_id ne \<noteq> VFS_DIR_REAL then (err ERR_ENOTDIR, k)
         else if \<not> fs_dir_is_empty (drop 1 (v_path ne)) (k_fs k) then (err ERR_ENOTEMPTY, k)
         else case fs_call (fs_rmdir (e_ports E) (drop 1 (v_path ne))) k of (n, k) \<Rightarrow>
           if n \<noteq> 0 then (err ERR_EINVAL, k) else go k)"

definition rename_file_to :: "'h env \<Rightarrow> vfs_ent_t \<Rightarrow> bool \<Rightarrow> vfs_ent_t \<Rightarrow> 'h kernel \<Rightarrow> u32 \<times> 'h kernel" where
  "rename_file_to E oe found ne k =
     (let nname = drop 1 (v_path ne);
          go = (\<lambda>k. if length nname \<ge> FS_MAX_NAME then (err ERR_ENAMETOOLONG, k)
                    else if \<not> fs_parent_is_dir nname (k_fs k) then (err ERR_ENOTDIR, k)
                    else if fs_is_dir nname (k_fs k) then (err ERR_EISDIR, k)
                    else zero_or ERR_EINVAL (fs_call (fs_rename (e_ports E) (v_slot oe) nname) k))
      in if \<not> found then go k
         else if v_type ne = VFS_T_DIR then (err ERR_EISDIR, k)
         else if v_type ne \<noteq> VFS_T_FILE then (err ERR_EPERM, k)
         else if v_slot ne = v_slot oe then (0, k)
         else go (snd (fs_call (fs_delete (e_ports E) nname) k)))"

definition do_rename_bufs :: "'h env \<Rightarrow> u8 list \<Rightarrow> u8 list \<Rightarrow> 'h kernel \<Rightarrow> u32 \<times> 'h kernel" where
  "do_rename_bufs E obuf nbuf k =
     (case vfs_lookup obuf k of (rc, oe) \<Rightarrow>
        if failed rc then (rc, k)
        else if v_type oe \<noteq> VFS_T_FILE \<and> v_type oe \<noteq> VFS_T_DIR then (err ERR_EPERM, k)
        else if v_type oe = VFS_T_DIR \<and> v_id oe \<noteq> VFS_DIR_REAL then (err ERR_EPERM, k)
        else case vfs_lookup nbuf k of (nrc, ne) \<Rightarrow>
          if failed nrc \<and> - nrc \<noteq> ERR_ENOENT then (nrc, k)
          else if drop 1 (v_path ne) = [] then (err ERR_EBUSY, k)
          else if v_type oe = VFS_T_DIR then rename_dir_to E oe (nrc = 0) ne k
          else rename_file_to E oe (nrc = 0) ne k)"

definition do_rename :: "'h env \<Rightarrow> u32 \<Rightarrow> u32 \<Rightarrow> 'h kernel \<Rightarrow> (u32 \<times> 'h kernel) option" where
  "do_rename E old_ptr new_ptr k =
     with_path old_ptr 128 (\<lambda>obuf. with_path new_ptr 128 (\<lambda>nbuf. Some (do_rename_bufs E obuf nbuf k)) k) k"

section \<open>Paths relative to a directory descriptor\<close>

definition AT_FDCWD :: int where "AT_FDCWD = - 100"
definition AT_EMPTY_PATH :: u32 where "AT_EMPTY_PATH = 0x1000"
definition AT_REMOVEDIR :: u32 where "AT_REMOVEDIR = 0x200"

definition at_resolve_raw :: "int \<Rightarrow> u8 list \<Rightarrow> nat \<Rightarrow> 'h kernel \<Rightarrow> u32 + u8 list" where
  "at_resolve_raw dirfd raw lim k =
     (if (raw \<noteq> [] \<and> raw ! 0 = slash) \<or> dirfd = AT_FDCWD
      then if length raw + 1 > lim then Inl (err ERR_ENAMETOOLONG) else Inr raw
      else if user_fd_kind dirfd k = None then Inl (err ERR_EBADF)
      else if \<not> user_fd_is_dir dirfd k then Inl (err ERR_ENOTDIR)
      else
        let base = user_fd_dir_path dirfd k
        in if length base + 1 + length raw + 1 > lim then Inl (err ERR_ENAMETOOLONG) else Inr (base @ [slash] @ raw))"

definition at_path :: "int \<Rightarrow> u32 \<Rightarrow> nat \<Rightarrow> 'h kernel \<Rightarrow> (u32 + u8 list) option" where
  "at_path dirfd path_ptr lim k =
     do { s \<leftarrow> copy_user_string path_ptr USER_FD_PATH_MAX k;
          Some (case s of None \<Rightarrow> Inl (err ERR_EFAULT)
                | Some raw \<Rightarrow> if raw = [] then Inl (err ERR_ENOENT) else at_resolve_raw dirfd raw lim k) }"

definition with_at :: "u32 \<Rightarrow> u32 \<Rightarrow> (u8 list \<Rightarrow> (u32 \<times> 'h kernel) option) \<Rightarrow> 'h kernel \<Rightarrow> (u32 \<times> 'h kernel) option" where
  "with_at dirfd path_ptr f k =
     do { q \<leftarrow> at_path (sint dirfd) path_ptr 128 k; case q of Inl rc \<Rightarrow> Some (rc, k) | Inr path \<Rightarrow> f path }"

definition do_openat :: "'h env \<Rightarrow> u32 \<Rightarrow> u32 \<Rightarrow> u32 \<Rightarrow> u32 \<Rightarrow> 'h kernel \<Rightarrow> (u32 \<times> 'h kernel) option" where
  "do_openat E dirfd ptr fl mode k = with_at dirfd ptr (\<lambda>path. Some (do_open_buf E path fl mode k)) k"

definition do_mkdirat :: "'h env \<Rightarrow> u32 \<Rightarrow> u32 \<Rightarrow> 'h kernel \<Rightarrow> (u32 \<times> 'h kernel) option" where
  "do_mkdirat E dirfd ptr k = with_at dirfd ptr (\<lambda>path. Some (do_mkdir_buf E path k)) k"

definition do_unlinkat :: "'h env \<Rightarrow> u32 \<Rightarrow> u32 \<Rightarrow> u32 \<Rightarrow> 'h kernel \<Rightarrow> (u32 \<times> 'h kernel) option" where
  "do_unlinkat E dirfd ptr fl k =
     with_at dirfd ptr (\<lambda>path. Some (if fl AND AT_REMOVEDIR \<noteq> 0 then do_rmdir_buf E path k else do_unlink_buf E path k)) k"

definition do_renameat :: "'h env \<Rightarrow> u32 \<Rightarrow> u32 \<Rightarrow> u32 \<Rightarrow> u32 \<Rightarrow> 'h kernel \<Rightarrow> (u32 \<times> 'h kernel) option" where
  "do_renameat E olddirfd old_ptr newdirfd new_ptr k =
     with_at olddirfd old_ptr (\<lambda>obuf. with_at newdirfd new_ptr (\<lambda>nbuf. Some (do_rename_bufs E obuf nbuf k)) k) k"

text \<open>A path argument that may be empty when the flags say so; then the descriptor itself is meant.\<close>

definition with_at_or_fd ::
  "u32 \<Rightarrow> u32 \<Rightarrow> u32 \<Rightarrow> (u32 \<times> 'h kernel) option \<Rightarrow> (u8 list \<Rightarrow> (u32 \<times> 'h kernel) option) \<Rightarrow> 'h kernel \<Rightarrow>
   (u32 \<times> 'h kernel) option" where
  "with_at_or_fd dirfd ptr fl on_fd on_path k =
     with_path ptr USER_FD_PATH_MAX (\<lambda>raw.
       if raw = [] then if fl AND AT_EMPTY_PATH = 0 then Some (err ERR_ENOENT, k) else on_fd
       else case at_resolve_raw (sint dirfd) raw 128 k of Inl rc \<Rightarrow> Some (rc, k) | Inr path \<Rightarrow> on_path path) k"

definition do_fstatat :: "'h env \<Rightarrow> u32 \<Rightarrow> u32 \<Rightarrow> u32 \<Rightarrow> u32 \<Rightarrow> bool \<Rightarrow> 'h kernel \<Rightarrow> (u32 \<times> 'h kernel) option" where
  "do_fstatat E dirfd ptr st_ptr fl is64 k =
     with_at_or_fd dirfd ptr fl (do_fstat E dirfd st_ptr is64 k) (\<lambda>path. do_stat_buf E path st_ptr is64 k) k"

definition do_faccessat :: "u32 \<Rightarrow> u32 \<Rightarrow> u32 \<Rightarrow> 'h kernel \<Rightarrow> (u32 \<times> 'h kernel) option" where
  "do_faccessat dirfd ptr mode k = with_at dirfd ptr (\<lambda>path. Some (do_access_buf path mode k, k)) k"

definition do_fchmodat :: "'h env \<Rightarrow> u32 \<Rightarrow> u32 \<Rightarrow> u32 \<Rightarrow> 'h kernel \<Rightarrow> (u32 \<times> 'h kernel) option" where
  "do_fchmodat E dirfd ptr mode k = with_at dirfd ptr (\<lambda>path. Some (do_chmod_buf E path mode k)) k"

definition no_link :: "u8 list \<Rightarrow> 'h kernel \<Rightarrow> u32" where
  "no_link path k = (let rc = fst (vfs_lookup path k) in if failed rc then rc else err ERR_EINVAL)"

definition do_readlinkat :: "u32 \<Rightarrow> u32 \<Rightarrow> 'h kernel \<Rightarrow> (u32 \<times> 'h kernel) option" where
  "do_readlinkat dirfd ptr k = with_at dirfd ptr (\<lambda>path. Some (no_link path k, k)) k"

definition do_readlink :: "u32 \<Rightarrow> 'h kernel \<Rightarrow> (u32 \<times> 'h kernel) option" where
  "do_readlink ptr k = with_path ptr 128 (\<lambda>path. Some (no_link path k, k)) k"

section \<open>Times and owners\<close>

definition UTIME_NOW :: u32 where "UTIME_NOW = 0x3FFFFFFF"
definition UTIME_OMIT :: u32 where "UTIME_OMIT = 0x3FFFFFFE"

text \<open>The slot whose times change, \<open>-1\<close> for what is not a file.\<close>

definition utime_slot :: "u8 list \<Rightarrow> int \<Rightarrow> 'h kernel \<Rightarrow> u32 + int" where
  "utime_slot path fd k =
     (if path = []
      then if fd < 0 then Inl (err ERR_ENOENT)
           else if user_fd_kind fd k = None then Inl (err ERR_EBADF)
           else Inr (user_fd_slot fd k)
      else case vfs_lookup path k of (rc, e) \<Rightarrow>
             if failed rc then Inl rc else Inr (if v_type e = VFS_T_FILE then v_slot e else - 1))"

definition set_times :: "'h env \<Rightarrow> int \<Rightarrow> u32 \<Rightarrow> u32 \<Rightarrow> 'h kernel \<Rightarrow> 'h kernel" where
  "set_times E slot a m k = k\<lparr>k_fs := fs_set_times (e_ports E) slot a m (k_fs k)\<rparr>"

definition pick_time :: "bool \<Rightarrow> u32 \<Rightarrow> u32 \<Rightarrow> u32 \<Rightarrow> u32 \<Rightarrow> u32" where
  "pick_time ns sec nsec now old =
     (if ns \<and> nsec = UTIME_NOW then now else if ns \<and> nsec = UTIME_OMIT then old else sec)"

definition do_utime_path :: "'h env \<Rightarrow> u32 \<Rightarrow> int \<Rightarrow> u32 \<Rightarrow> bool \<Rightarrow> 'h kernel \<Rightarrow> (u32 \<times> 'h kernel) option" where
  "do_utime_path E path_ptr fd times_ptr ns k = with_path path_ptr 128 (\<lambda>path.
     case utime_slot path fd k of
       Inl rc \<Rightarrow> Some (rc, k)
     | Inr slot \<Rightarrow>
         (case k_now E k of (now, k) \<Rightarrow>
            if times_ptr = 0 then Some (0, if slot \<ge> 0 then set_times E slot now now k else k)
            else if \<not> user_ptr_ok times_ptr 16 then Some (err ERR_EFAULT, k)
            else do {
              asec \<leftarrow> vload32 times_ptr k; ans \<leftarrow> vload32 (times_ptr + 4) k;
              msec \<leftarrow> vload32 (times_ptr + 8) k; mns \<leftarrow> vload32 (times_ptr + 12) k;
              Some (0, if slot < 0 then k
                       else set_times E slot (pick_time ns asec ans now (fs_fd_atime slot (k_fs k)))
                              (pick_time ns msec mns now (fs_fd_mtime slot (k_fs k))) k) })) k"

definition do_chown :: "'h env \<Rightarrow> u32 \<Rightarrow> u32 \<Rightarrow> u32 \<Rightarrow> 'h kernel \<Rightarrow> (u32 \<times> 'h kernel) option" where
  "do_chown E path_ptr uid gid k = with_path path_ptr 128 (\<lambda>path.
     Some (if not_root k then (err ERR_EPERM, k)
           else case vfs_lookup path k of (rc, e) \<Rightarrow>
             if failed rc then (rc, k)
             else if \<not> real_entity e then (err ERR_EPERM, k)
             else eperm_if_neg (fs_call (fs_chown_path (e_ports E) (dropWhile (\<lambda>c. c = slash) path) uid gid) k))) k"

definition do_fchown :: "'h env \<Rightarrow> u32 \<Rightarrow> u32 \<Rightarrow> u32 \<Rightarrow> 'h kernel \<Rightarrow> u32 \<times> 'h kernel" where
  "do_fchown E fd uid gid k =
     (case user_fd_kind (sint fd) k of
        None \<Rightarrow> (err ERR_EBADF, k)
      | Some kd \<Rightarrow>
          if not_root k then (err ERR_EPERM, k)
          else if kd = USER_FD_FILE then eperm_if_neg (fs_call (fs_chown_slot (e_ports E) (user_fd_slot (sint fd) k) uid gid) k)
          else if kd = USER_FD_DIR then (0, k) else (err ERR_EPERM, k))"

definition do_fchownat :: "'h env \<Rightarrow> u32 \<Rightarrow> u32 \<Rightarrow> u32 \<Rightarrow> u32 \<Rightarrow> u32 \<Rightarrow> 'h kernel \<Rightarrow> (u32 \<times> 'h kernel) option" where
  "do_fchownat E dirfd ptr uid gid fl k =
     with_at_or_fd dirfd ptr fl (Some (do_fchown E dirfd uid gid k)) (\<lambda>path.
       Some (if not_root k then (err ERR_EPERM, k)
             else eperm_if_neg (fs_call (fs_chown_path (e_ports E) (dropWhile (\<lambda>c. c = slash) path) uid gid) k))) k"

section \<open>The working directory, pipes and duplicates\<close>

definition do_getcwd :: "u32 \<Rightarrow> u32 \<Rightarrow> 'h kernel \<Rightarrow> (u32 \<times> 'h kernel) option" where
  "do_getcwd ub room k =
     (let cwd = user_cwd_get k; len = word_of_nat (length cwd)
      in if room \<le> len then Some (err ERR_ERANGE, k)
         else if \<not> user_ptr_ok ub (len + 1) then Some (err ERR_EFAULT, k)
         else do { k \<leftarrow> vstore ub (cwd @ [0]) k; Some (len, k) })"

definition do_pipe :: "'h env \<Rightarrow> u32 \<Rightarrow> 'h kernel \<Rightarrow> (u32 \<times> 'h kernel) option" where
  "do_pipe E fds_ptr k =
     (if \<not> user_ptr_ok fds_ptr 8 then Some (err ERR_EFAULT, k)
      else case pipe_create k of (pid, k) \<Rightarrow>
        if pid < 0 then Some (err ERR_EMFILE, k)
        else case user_fd_alloc_pipe proc_notify_pipe pid False k of (rfd, k) \<Rightarrow>
          case user_fd_alloc_pipe proc_notify_pipe pid True k of (wfd, k) \<Rightarrow>
            let shut = (\<lambda>fd k. if fd \<ge> 0 then user_fd_close (e_ports E) proc_notify_pipe fd k else k)
            in if rfd < 0 \<or> wfd < 0 then Some (err ERR_EMFILE, shut wfd (shut rfd k))
               else do { k \<leftarrow> vstore32 fds_ptr (word_of_int rfd) k; k \<leftarrow> vstore32 (fds_ptr + 4) (word_of_int wfd) k; Some (0, k) })"

definition do_dup :: "'h env \<Rightarrow> u32 \<Rightarrow> 'h kernel \<Rightarrow> u32 \<times> 'h kernel" where
  "do_dup E fd k =
     (if user_fd_kind (sint fd) k = None then (err ERR_EBADF, k)
      else fd_ret (user_fd_dup (e_ports E) proc_notify_pipe (sint fd) k))"

end
