(* ===== verification/Sys_Wait.thy ===== *)
theory Sys_Wait
  imports Sys_Name
begin

text \<open>
  The calls of \<^verbatim>\<open>src/syscall.c\<close> that wait: \<^verbatim>\<open>poll\<close>, \<^verbatim>\<open>select\<close> and their variants, \<^verbatim>\<open>nanosleep\<close>, and the signal calls.
  A process other than the shell blocks and the scheduler runs another one; with nobody else to run
  the kernel halts in place until an interrupt, which is one application of \<open>e_idle\<close>.
\<close>

declare drop_bit_and [simp del] drop_bit_or [simp del]

section \<open>Readiness\<close>

definition k_ticks :: "'h kernel \<Rightarrow> u32" where
  "k_ticks k = pit_get_ticks (k_pit k)"

definition fd_read_ready :: "int \<Rightarrow> 'h kernel \<Rightarrow> bool" where
  "fd_read_ready fd k =
     (case user_fd_kind fd k of
        Some USER_FD_STDIN \<Rightarrow> keyboard_haschar k
      | Some USER_FD_DEV_CONSOLE \<Rightarrow> keyboard_haschar k
      | Some USER_FD_FILE \<Rightarrow> True
      | Some USER_FD_VFILE \<Rightarrow> True
      | Some USER_FD_DIR \<Rightarrow> True
      | Some USER_FD_DEV_NULL \<Rightarrow> True
      | Some USER_FD_DEV_ZERO \<Rightarrow> True
      | Some USER_FD_DEV_ATA \<Rightarrow> True
      | Some USER_FD_PIPE_READ \<Rightarrow>
          let pd = user_fd_pipe_id fd k in pd \<ge> 0 \<and> (pipe_fill pd k > 0 \<or> pipe_writers pd k = 0)
      | _ \<Rightarrow> False)"

definition fd_write_ready :: "int \<Rightarrow> 'h kernel \<Rightarrow> bool" where
  "fd_write_ready fd k =
     (case user_fd_kind fd k of
        Some USER_FD_FILE \<Rightarrow> True
      | Some USER_FD_STDOUT \<Rightarrow> True
      | Some USER_FD_STDERR \<Rightarrow> True
      | Some USER_FD_DEV_CONSOLE \<Rightarrow> True
      | Some USER_FD_DEV_NULL \<Rightarrow> True
      | Some USER_FD_DEV_ZERO \<Rightarrow> True
      | Some USER_FD_DEV_ATA \<Rightarrow> True
      | Some USER_FD_PIPE_WRITE \<Rightarrow> let pd = user_fd_pipe_id fd k in pd \<ge> 0 \<and> pipe_fill pd k < PIPE_BUF_SIZE
      | _ \<Rightarrow> False)"

definition poll_revents :: "int \<Rightarrow> u16 \<Rightarrow> 'h kernel \<Rightarrow> u16" where
  "poll_revents fd events k =
     (if fd < 0 then 0
      else if user_fd_kind fd k = None then 0x20
      else (if events AND 1 \<noteq> 0 \<and> fd_read_ready fd k then 1 else 0) OR
           (if events AND 4 \<noteq> 0 \<and> fd_write_ready fd k then 4 else 0) OR
           (if user_fd_kind fd k = Some USER_FD_PIPE_READ \<and> user_fd_pipe_id fd k \<ge> 0 \<and> pipe_writers (user_fd_pipe_id fd k) k = 0
            then 0x10 else 0))"

text \<open>The loop over the array, with the number of entries left and the count so far.\<close>

primrec poll_from :: "nat \<Rightarrow> u32 \<Rightarrow> u32 \<Rightarrow> 'h kernel \<Rightarrow> (u32 \<times> 'h kernel) option" where
  "poll_from 0 ptr ready k = Some (ready, k)"
| "poll_from (Suc n) ptr ready k = do {
     e \<leftarrow> vload ptr 8 k;
     let rev = poll_revents (sint (le32 e 0)) (le16 e 4) k;
     k \<leftarrow> vstore ptr (take 6 e @ enc16 rev) k;
     poll_from n (ptr + 8) (if rev \<noteq> 0 then ready + 1 else ready) k }"

definition poll_scan :: "u32 \<Rightarrow> u32 \<Rightarrow> 'h kernel \<Rightarrow> (u32 \<times> 'h kernel) option" where
  "poll_scan ptr nfds k = poll_from (unat nfds) ptr 0 k"

primrec poll_clear :: "nat \<Rightarrow> u32 \<Rightarrow> 'h kernel \<Rightarrow> 'h kernel option" where
  "poll_clear 0 ptr k = Some k"
| "poll_clear (Suc n) ptr k = do { e \<leftarrow> vload ptr 8 k; k \<leftarrow> vstore ptr (take 6 e @ [0, 0]) k; poll_clear n (ptr + 8) k }"

text \<open>Polling in place; \<open>None\<close> inside is the end of the wait.\<close>

partial_function (option) poll_wait ::
  "'h env \<Rightarrow> u32 \<Rightarrow> u32 \<Rightarrow> bool \<Rightarrow> u32 \<Rightarrow> 'h kernel \<Rightarrow> (u32 option \<times> 'h kernel) option" where
  "poll_wait E ptr nfds has_dl deadline k =
     (if \<not> has_dl \<or> sint (k_ticks k - deadline) < 0
      then do {
        (ready, k) \<leftarrow> poll_scan ptr nfds (e_idle E k);
        if ready \<noteq> 0 then Some (Some ready, k)
        else if proc_signal_pending k then Some (Some (err ERR_EINTR), k)
        else poll_wait E ptr nfds has_dl deadline k }
      else Some (None, k))"

definition SELECT_MAX_FDS :: u32 where "SELECT_MAX_FDS = 1024"

text \<open>Milliseconds to 100 Hz ticks, at least one.\<close>

definition ms_ticks :: "u32 \<Rightarrow> u32" where
  "ms_ticks ms = (let t = (ms + 9) div 10 in if t = 0 then 1 else t)"

definition do_poll :: "'h env \<Rightarrow> registers_t \<Rightarrow> u32 \<Rightarrow> u32 \<Rightarrow> u32 \<Rightarrow> 'h kernel \<Rightarrow> (u32 \<times> registers_t \<times> 'h kernel) option" where
  "do_poll E r ptr nfds timeout k =
     (if nfds > SELECT_MAX_FDS then Some (err ERR_EINVAL, r, k)
      else if nfds \<noteq> 0 \<and> \<not> user_ptr_ok ptr (nfds * 8) then Some (err ERR_EFAULT, r, k)
      else do {
        (ready, k) \<leftarrow> poll_scan ptr nfds k;
        if ready \<noteq> 0 \<or> timeout = 0 then Some (ready, r, k)
        else do {
          let has_dl = (sint timeout > 0);
          let deadline = k_ticks k + (if has_dl then ms_ticks (if timeout > 0x7FFFFFFF then 0x7FFFFFFF else timeout) else 0);
          (blocked, r, k) \<leftarrow>
            (case current_proc k of
               None \<Rightarrow> Some (False, r, k)
             | Some i \<Rightarrow> if p_pid (procs k ! i) = 1 then Some (False, r, k)
                         else proc_block_current_ext r PROC_WAIT_POLL ptr (sint nfds) deadline has_dl (- 1) k);
          if blocked then Some (0, r, k)
          else do {
            (res, k) \<leftarrow> poll_wait E ptr nfds has_dl deadline k;
            case res of
              Some v \<Rightarrow> Some (v, r, k)
            | None \<Rightarrow> do { k \<leftarrow> poll_clear (unat nfds) ptr k; Some (0, r, k) } } } })"

definition fdset_test :: "u32 \<Rightarrow> u32 \<Rightarrow> 'h kernel \<Rightarrow> bool option" where
  "fdset_test set_ptr fd k = do { v \<leftarrow> vload32 (set_ptr + (fd div 32) * 4) k; Some (v AND push_bit (unat (fd mod 32)) 1 \<noteq> 0) }"

definition fdset_clear :: "u32 \<Rightarrow> u32 \<Rightarrow> 'h kernel \<Rightarrow> 'h kernel option" where
  "fdset_clear set_ptr fd k =
     do { v \<leftarrow> vload32 (set_ptr + (fd div 32) * 4) k; vstore32 (set_ptr + (fd div 32) * 4) (v AND NOT (push_bit (unat (fd mod 32)) 1)) k }"

definition in_fdset :: "u32 \<Rightarrow> u32 \<Rightarrow> 'h kernel \<Rightarrow> bool option" where
  "in_fdset set_ptr fd k = (if set_ptr = 0 then Some False else fdset_test set_ptr fd k)"

primrec select_from :: "nat \<Rightarrow> u32 \<Rightarrow> u32 \<Rightarrow> u32 \<Rightarrow> u32 \<Rightarrow> u32 \<Rightarrow> 'h kernel \<Rightarrow> (u32 \<times> 'h kernel) option" where
  "select_from 0 fd rp wp ep ready k = Some (ready, k)"
| "select_from (Suc n) fd rp wp ep ready k = do {
     rd \<leftarrow> in_fdset rp fd k; w \<leftarrow> in_fdset wp fd k; e \<leftarrow> in_fdset ep fd k;
     if \<not> rd \<and> \<not> w \<and> \<not> e then select_from n (fd + 1) rp wp ep ready k
     else do {
       let valid = (user_fd_kind (sint fd) k \<noteq> None);
       let rr = (rd \<and> valid \<and> fd_read_ready (sint fd) k);
       let ww = (w \<and> valid \<and> fd_write_ready (sint fd) k);
       k \<leftarrow> (if rd \<and> \<not> rr then fdset_clear rp fd k else Some k);
       k \<leftarrow> (if w \<and> \<not> ww then fdset_clear wp fd k else Some k);
       k \<leftarrow> (if e then fdset_clear ep fd k else Some k);
       select_from n (fd + 1) rp wp ep (if rr \<or> ww then ready + 1 else ready) k } }"

definition do_select :: "u32 \<Rightarrow> u32 \<Rightarrow> u32 \<Rightarrow> u32 \<Rightarrow> u32 \<Rightarrow> 'h kernel \<Rightarrow> (u32 \<times> 'h kernel) option" where
  "do_select nfds rp wp ep tp k =
     (let bytes = ((nfds + 31) div 32) * 4
      in if nfds > SELECT_MAX_FDS then Some (err ERR_EINVAL, k)
         else if rp \<noteq> 0 \<and> \<not> user_ptr_ok rp bytes then Some (err ERR_EFAULT, k)
         else if wp \<noteq> 0 \<and> \<not> user_ptr_ok wp bytes then Some (err ERR_EFAULT, k)
         else if ep \<noteq> 0 \<and> \<not> user_ptr_ok ep bytes then Some (err ERR_EFAULT, k)
         else if tp \<noteq> 0 \<and> \<not> user_ptr_ok tp 8 then Some (err ERR_EFAULT, k)
         else select_from (unat nfds) 0 rp wp ep 0 k)"

definition ts_to_ms :: "u32 \<Rightarrow> 'h kernel \<Rightarrow> u32 option" where
  "ts_to_ms ts k =
     (if ts = 0 then Some 0xFFFFFFFF
      else if \<not> user_ptr_ok ts 8 then Some 0xFFFFFFFF
      else do {
        sec \<leftarrow> vload32 ts k;
        nsec \<leftarrow> vload32 (ts + 4) k;
        let ms = sec * 1000 + (nsec + 999999) div 1000000;
        Some (if sec > 0x7FFFFFFF div 1000 then 0x7FFFFFFF else if ms > 0x7FFFFFFF then 0x7FFFFFFF else ms) })"

text \<open>The bounded wait of \<^verbatim>\<open>do_pselect6\<close>; a pending signal only marks the frame.\<close>

partial_function (option) pselect_wait ::
  "'h env \<Rightarrow> registers_t \<Rightarrow> u32 \<Rightarrow> u32 \<Rightarrow> u32 \<Rightarrow> u32 \<Rightarrow> u32 \<Rightarrow> u32 \<Rightarrow> 'h kernel \<Rightarrow>
   (u32 \<times> registers_t \<times> 'h kernel) option" where
  "pselect_wait E r nfds rp wp ep start ticks k =
     (if k_ticks k - start < ticks
      then do {
        (ready, k) \<leftarrow> do_select nfds rp wp ep 0 (e_idle E k);
        if ready \<noteq> 0 then Some (ready, r, k)
        else pselect_wait E (if proc_signal_pending k then r\<lparr>r_eax := err ERR_EINTR\<rparr> else r) nfds rp wp ep start ticks k }
      else Some (0, r, k))"

definition do_pselect6 ::
  "'h env \<Rightarrow> registers_t \<Rightarrow> u32 \<Rightarrow> u32 \<Rightarrow> u32 \<Rightarrow> u32 \<Rightarrow> u32 \<Rightarrow> 'h kernel \<Rightarrow> (u32 \<times> registers_t \<times> 'h kernel) option" where
  "do_pselect6 E r nfds rp wp ep ts k = do {
     (ready, k) \<leftarrow> do_select nfds rp wp ep 0 k;
     if ready \<noteq> 0 \<or> ts = 0 then Some (ready, r, k)
     else do {
       ms \<leftarrow> ts_to_ms ts k;
       if ms = 0 \<or> ms > 0xFFFFFFFE then Some (ready, r, k)
       else pselect_wait E r nfds rp wp ep (k_ticks k) (ms_ticks ms) k } }"

definition do_ppoll :: "'h env \<Rightarrow> registers_t \<Rightarrow> u32 \<Rightarrow> u32 \<Rightarrow> u32 \<Rightarrow> 'h kernel \<Rightarrow> (u32 \<times> registers_t \<times> 'h kernel) option" where
  "do_ppoll E r ptr nfds ts k = do { ms \<leftarrow> ts_to_ms ts k; do_poll E r ptr nfds ms k }"

section \<open>Sleeping and accounting\<close>

partial_function (option) sleep_loop :: "'h env \<Rightarrow> u32 \<Rightarrow> u32 \<Rightarrow> 'h kernel \<Rightarrow> 'h kernel option" where
  "sleep_loop E start ticks k = (if k_ticks k - start < ticks then sleep_loop E start ticks (e_idle E k) else Some k)"

definition sleep_ticks :: "u32 \<Rightarrow> u32 \<Rightarrow> u32" where
  "sleep_ticks sec nsec =
     (if sec > 0x7FFFFFFF div 100 then 0x7FFFFFFF
      else
        let ticks = sec * 100; ns_ticks = (nsec + 9999999) div 10000000
        in if ticks > 0x7FFFFFFF - ns_ticks then 0x7FFFFFFF else ticks + ns_ticks)"

definition do_nanosleep :: "'h env \<Rightarrow> u32 \<Rightarrow> u32 \<Rightarrow> 'h kernel \<Rightarrow> (u32 \<times> 'h kernel) option" where
  "do_nanosleep E req_ptr rem_ptr k =
     (if \<not> user_ptr_ok req_ptr 8 then Some (err ERR_EFAULT, k)
      else do {
        sec \<leftarrow> vload32 req_ptr k;
        nsec \<leftarrow> vload32 (req_ptr + 4) k;
        if nsec \<ge> 1000000000 then Some (err ERR_EINVAL, k)
        else do {
          k \<leftarrow> sleep_loop E (k_ticks k) (sleep_ticks sec nsec) k;
          if rem_ptr = 0 then Some (0, k)
          else if \<not> user_ptr_ok rem_ptr 8 then Some (err ERR_EFAULT, k)
          else do { k \<leftarrow> vstore rem_ptr (replicate 8 0) k; Some (0, k) } } })"

definition do_times :: "u32 \<Rightarrow> 'h kernel \<Rightarrow> (u32 \<times> 'h kernel) option" where
  "do_times ptr k =
     (if ptr = 0 then Some (k_ticks k, k)
      else if \<not> user_ptr_ok ptr 16 then Some (err ERR_EFAULT, k)
      else do { k \<leftarrow> vstore ptr (replicate 16 0) k; Some (k_ticks k, k) })"

definition do_getrusage :: "u32 \<Rightarrow> u32 \<Rightarrow> 'h kernel \<Rightarrow> (u32 \<times> 'h kernel) option" where
  "do_getrusage who ptr k =
     (if who \<noteq> 0 \<and> who \<noteq> - 1 \<and> who \<noteq> - 2 then Some (err ERR_EINVAL, k)
      else if \<not> user_ptr_ok ptr 72 then Some (err ERR_EFAULT, k)
      else do { k \<leftarrow> vstore ptr (replicate 72 0) k; Some (0, k) })"

section \<open>Signals\<close>

text \<open>The running process, unless it is the shell.\<close>

definition user_proc :: "'h kernel \<Rightarrow> nat option" where
  "user_proc k = (case current_proc k of None \<Rightarrow> None | Some i \<Rightarrow> if p_pid (procs k ! i) = 1 then None else Some i)"

definition do_kill :: "u32 \<Rightarrow> u32 \<Rightarrow> 'h kernel \<Rightarrow> u32 \<times> 'h kernel" where
  "do_kill pid sig k = (case proc_signal_send pid (sint sig) k of (rc, k) \<Rightarrow> (if rc < 0 then err (word_of_int (- rc)) else 0, k))"

definition bad_signal :: "u32 \<Rightarrow> bool" where
  "bad_signal sig \<longleftrightarrow> sint sig \<le> 0 \<or> sig \<ge> 32"

definition do_signal :: "u32 \<Rightarrow> u32 \<Rightarrow> 'h kernel \<Rightarrow> u32 \<times> 'h kernel" where
  "do_signal sig handler k =
     (case user_proc k of
        None \<Rightarrow> (err ERR_EPERM, k)
      | Some i \<Rightarrow>
          if bad_signal sig then (err ERR_EINVAL, k)
          else case proc_signal_set_action i (sint sig) handler 0 0 k of (old, k) \<Rightarrow>
            (if old = 22 then err ERR_EINVAL else old, k))"

text \<open>Reporting the old action and installing the new one, in the layout of the call.\<close>

definition put_action :: "nat \<Rightarrow> u32 \<Rightarrow> u32 \<Rightarrow> bool \<Rightarrow> 'h kernel \<Rightarrow> 'h kernel option" where
  "put_action i sig old rt k =
     (case proc_signal_get_action i (sint sig) k of (h, fr) \<Rightarrow>
        let (f, rs) = (case fr of None \<Rightarrow> (0, 0) | Some x \<Rightarrow> x)
        in do {
          k \<leftarrow> vstore32 old h k;
          k \<leftarrow> vstore32 (old + (if rt then 4 else 8)) f k;
          k \<leftarrow> vstore32 (old + (if rt then 8 else 12)) rs k;
          vstore32 (old + (if rt then 12 else 4)) 0 k })"

definition get_action :: "nat \<Rightarrow> u32 \<Rightarrow> u32 \<Rightarrow> bool \<Rightarrow> 'h kernel \<Rightarrow> (u32 \<times> 'h kernel) option" where
  "get_action i sig act rt k = do {
     h \<leftarrow> vload32 act k;
     f \<leftarrow> vload32 (act + (if rt then 4 else 8)) k;
     rs \<leftarrow> vload32 (act + (if rt then 8 else 12)) k;
     let (rc, k) = proc_signal_set_action i (sint sig) h f rs k;
     Some (if rc = 22 then err ERR_EINVAL else 0, k) }"

definition do_sigaction :: "u32 \<Rightarrow> u32 \<Rightarrow> u32 \<Rightarrow> bool \<Rightarrow> u32 \<Rightarrow> 'h kernel \<Rightarrow> (u32 \<times> 'h kernel) option" where
  "do_sigaction sig act old rt setsize k =
     (case user_proc k of
        None \<Rightarrow> Some (err ERR_EPERM, k)
      | Some i \<Rightarrow>
          if bad_signal sig then Some (err ERR_EINVAL, k)
          else if rt \<and> setsize \<noteq> 4 \<and> setsize \<noteq> 8 then Some (err ERR_EINVAL, k)
          else if old \<noteq> 0 \<and> \<not> user_ptr_ok old 16 then Some (err ERR_EFAULT, k)
          else do {
            k \<leftarrow> (if old \<noteq> 0 then put_action i sig old rt k else Some k);
            if act = 0 then Some (0, k)
            else if \<not> user_ptr_ok act 16 then Some (err ERR_EFAULT, k)
            else get_action i sig act rt k })"

text \<open>\<^verbatim>\<open>SIGKILL\<close> and \<^verbatim>\<open>SIGSTOP\<close> cannot be blocked.\<close>

definition blockable :: "u32 \<Rightarrow> u32" where
  "blockable v = v AND NOT (push_bit 9 1 OR push_bit 19 1)"

definition do_sigprocmask :: "u32 \<Rightarrow> u32 \<Rightarrow> u32 \<Rightarrow> 'h kernel \<Rightarrow> (u32 \<times> 'h kernel) option" where
  "do_sigprocmask how set_ptr old k =
     (case user_proc k of
        None \<Rightarrow> Some (err ERR_EPERM, k)
      | Some i \<Rightarrow>
          let mask = p_sig_blocked (procs k ! i)
          in if old \<noteq> 0 \<and> \<not> user_ptr_ok old 4 then Some (err ERR_EFAULT, k)
             else do {
               k \<leftarrow> (if old \<noteq> 0 then vstore32 old mask k else Some k);
               if set_ptr = 0 then Some (0, k)
               else if \<not> user_ptr_ok set_ptr 4 then Some (err ERR_EFAULT, k)
               else do {
                 v \<leftarrow> vload32 set_ptr k;
                 let v = blockable v;
                 let go = (\<lambda>m. Some (0, upd_proc i (\<lambda>p. p\<lparr>p_sig_blocked := m\<rparr>) k));
                 if how = 0 then go (mask OR v)
                 else if how = 1 then go (mask AND NOT v)
                 else if how = 2 then go v
                 else Some (err ERR_EINVAL, k) } })"

partial_function (option) await_signal :: "'h env \<Rightarrow> 'h kernel \<Rightarrow> 'h kernel option" where
  "await_signal E k = (if proc_signal_pending k then Some k else await_signal E (e_idle E k))"

definition do_sigsuspend :: "'h env \<Rightarrow> registers_t \<Rightarrow> u32 \<Rightarrow> 'h kernel \<Rightarrow> (u32 \<times> registers_t \<times> 'h kernel) option" where
  "do_sigsuspend E r mask_ptr k =
     (case user_proc k of
        None \<Rightarrow> Some (err ERR_EPERM, r, k)
      | Some i \<Rightarrow>
          if mask_ptr \<noteq> 0 \<and> \<not> user_ptr_ok mask_ptr 4 then Some (err ERR_EFAULT, r, k)
          else do {
            k \<leftarrow> (if mask_ptr = 0 then Some k
                 else do { v \<leftarrow> vload32 mask_ptr k; Some (upd_proc i (\<lambda>p. p\<lparr>p_sig_blocked := blockable v\<rparr>) k) });
            if proc_signal_pending k then Some (err ERR_EINTR, r, k)
            else do {
              (blocked, r, k) \<leftarrow> proc_block_current_ext r PROC_WAIT_SIGSUSP 0 0 0 False (- 1) k;
              if blocked then Some (0, r, k)
              else do { k \<leftarrow> await_signal E k; Some (err ERR_EINTR, r, k) } } })"

definition do_sigreturn :: "registers_t \<Rightarrow> 'h kernel \<Rightarrow> (u32 \<times> registers_t \<times> 'h kernel) option" where
  "do_sigreturn r k = do { (ok, r, k) \<leftarrow> proc_sigreturn r k; Some (if ok then r_eax r else err ERR_EINVAL, r, k) }"

definition do_alarm :: "u32 \<Rightarrow> 'h kernel \<Rightarrow> u32 \<times> 'h kernel" where
  "do_alarm sec k =
     (case user_proc k of
        None \<Rightarrow> (0, k)
      | Some i \<Rightarrow>
          let now = k_ticks k; t = p_alarm_tick (procs k ! i);
              remain = (if t \<noteq> 0 \<and> sint (t - now) > 0 then ((t - now) + 99) div 100 else 0)
          in (remain, upd_proc i (\<lambda>p. p\<lparr>p_alarm_tick := (if sec \<noteq> 0 then now + sec * 100 else 0)\<rparr>) k))"

end
