(* ===== verification/Sys_Proc.thy ===== *)
theory Sys_Proc
  imports Sys_Wait
begin

text \<open>
  Creating and awaiting processes, vectored input and output, the clocks, mappings and thread-local
  storage (\<^verbatim>\<open>src/syscall.c\<close>).
\<close>

declare drop_bit_and [simp del] drop_bit_or [simp del]

section \<open>Fork and clone\<close>

definition is_child :: "u32 \<Rightarrow> int \<Rightarrow> proc_t \<Rightarrow> bool" where
  "is_child ppid want p \<longleftrightarrow> p_used p \<and> p_ppid p = ppid \<and> (want > 0 \<longrightarrow> p_pid p = word_of_int want)"

definition find_child :: "int \<Rightarrow> 'h kernel \<Rightarrow> nat option" where
  "find_child want k =
     (case current_proc k of None \<Rightarrow> None | Some i \<Rightarrow> find_idx (is_child (p_pid (procs k ! i)) want) (procs k))"

definition find_zombie_child :: "int \<Rightarrow> 'h kernel \<Rightarrow> nat option" where
  "find_zombie_child want k =
     (case current_proc k of None \<Rightarrow> None
      | Some i \<Rightarrow> find_idx (\<lambda>p. is_child (p_pid (procs k ! i)) want p \<and> p_state p = PROC_ZOMBIE) (procs k))"

text \<open>What a child takes from the running state: working directory, break and thread-local segment.\<close>

definition inherit_live :: "nat \<Rightarrow> 'h kernel \<Rightarrow> 'h kernel" where
  "inherit_live c k =
     (case user_get_brk_state k of (bb, bc) \<Rightarrow> case gdt_get_user_tls (k_seg k) of (tb, tlim, tf) \<Rightarrow>
        upd_proc c (\<lambda>p. p\<lparr>p_cwd := copy_name (user_cwd_get k), p_brk_base := bb, p_brk_cur := bc, p_tls_base := tb,
          p_tls_limit := tlim, p_tls_flags := tf\<rparr>) k)"

definition child_regs :: "registers_t \<Rightarrow> u32 \<Rightarrow> u32 \<Rightarrow> u32 \<Rightarrow> proc_t \<Rightarrow> proc_t" where
  "child_regs r sp fs_sel gs_sel p = p\<lparr>p_eip := r_eip r, p_esp := sp, p_eflags := r_eflags r, p_eax := 0, p_ebx := r_ebx r,
     p_ecx := r_ecx r, p_edx := r_edx r, p_esi := r_esi r, p_edi := r_edi r, p_ebp := r_ebp r, p_fs_sel := fs_sel,
     p_gs_sel := gs_sel, p_has_ctx := True\<rparr>"

definition child_ids :: "proc_t \<Rightarrow> proc_t \<Rightarrow> proc_t" where
  "child_ids parent p = p\<lparr>p_uid := p_uid parent, p_gid := p_gid parent\<rparr>"

text \<open>A copy of the open descriptors, with its own references.\<close>

definition copy_fds :: "'h env \<Rightarrow> nat \<Rightarrow> 'h kernel \<Rightarrow> 'h kernel" where
  "copy_fds E c k =
     (let st = p_fd_state (procs k ! c)
      in upd_proc c (\<lambda>p. p\<lparr>p_fds_retained := True\<rparr>)
           (user_fd_state_retain (e_ports E) proc_notify_pipe st (user_fd_state_save st k)))"

definition sel_or_data :: "u32 \<Rightarrow> u32" where
  "sel_or_data s = (if s \<noteq> 0 then s else 0x23)"

definition no_child :: "'h env \<Rightarrow> nat \<Rightarrow> 'h kernel \<Rightarrow> (u32 \<times> 'h kernel) option" where
  "no_child E c k = do { k \<leftarrow> proc_reap (e_ports E) c k; Some (err ERR_ENOMEM, k) }"

definition do_fork :: "'h env \<Rightarrow> registers_t \<Rightarrow> 'h kernel \<Rightarrow> (u32 \<times> 'h kernel) option" where
  "do_fork E r k =
     (case user_proc k of
        None \<Rightarrow> Some (err ERR_EPERM, k)
      | Some i \<Rightarrow> do {
          (c, k) \<leftarrow> proc_alloc (Some (cstr (p_name (procs k ! i)))) (p_pid (procs k ! i)) k;
          case c of
            None \<Rightarrow> Some (err ERR_EAGAIN, k)
          | Some c \<Rightarrow> do {
              (ok, k) \<leftarrow> proc_space_cow c i k;
              (ok, k) \<leftarrow> (if ok then proc_fdstate_alloc c k else Some (False, k));
              if \<not> ok then no_child E c k
              else do {
                let k = inherit_live c (copy_fds E c k);
                let k = upd_proc c (child_regs r (r_useresp r) (sel_or_data (r_fs r)) (sel_or_data (r_gs r))) k;
                let k = upd_proc c (child_ids (procs k ! i)) k;
                let k = proc_signal_inherit c i k;
                Some (p_pid (procs k ! c), k) } } })"

definition CLONE_VM :: u32 where "CLONE_VM = 0x100"
definition CLONE_FILES :: u32 where "CLONE_FILES = 0x400"
definition CLONE_SETTLS :: u32 where "CLONE_SETTLS = 0x80000"
definition TLS_DESC_LIMIT :: u32 where "TLS_DESC_LIMIT = 0xFFFFF"

definition clone_tls :: "u32 \<Rightarrow> u32 \<Rightarrow> proc_t \<Rightarrow> proc_t" where
  "clone_tls fl tls p =
     (if fl AND CLONE_SETTLS \<noteq> 0 then p\<lparr>p_tls_base := tls, p_tls_limit := TLS_DESC_LIMIT, p_tls_flags := 0x51\<rparr> else p)"

text \<open>The thread id in the memory of the parent and of the child.\<close>

definition store_ptid :: "u32 \<Rightarrow> u32 \<Rightarrow> 'h kernel \<Rightarrow> 'h kernel option" where
  "store_ptid ptid v k = (if ptid \<noteq> 0 \<and> user_ptr_ok ptid 4 then vstore32 ptid v k else Some k)"

definition store_ctid :: "nat \<Rightarrow> bool \<Rightarrow> u32 \<Rightarrow> u32 \<Rightarrow> 'h kernel \<Rightarrow> 'h kernel option" where
  "store_ctid c share_vm ctid v k =
     (let pd = p_pd_phys (procs k ! c)
      in if ctid = 0 \<or> \<not> user_ptr_ok ctid 4 then Some k
         else if share_vm then vstore32 ctid v k
         else if pd \<noteq> 0 \<and> ctid \<ge> USER_BASE \<and> ctid < USER_END
         then
           let k = snd (mm_call (mm_user_make_writable pd ctid) k); phys = mm_user_translate pd ctid (k_mm k)
           in Some (if phys \<noteq> 0 then phys_upd (store_bytes phys (enc32 v)) k else k)
         else Some k)"

definition clone_space :: "nat \<Rightarrow> nat \<Rightarrow> bool \<Rightarrow> 'h kernel \<Rightarrow> (bool \<times> 'h kernel) option" where
  "clone_space c i share_vm k = (if share_vm then Some (proc_space_share c i k) else proc_space_cow c i k)"

definition clone_fds :: "'h env \<Rightarrow> nat \<Rightarrow> nat \<Rightarrow> bool \<Rightarrow> 'h kernel \<Rightarrow> (bool \<times> 'h kernel) option" where
  "clone_fds E c i share k =
     (if share then Some (proc_fdstate_share c i k)
      else do { (ok, k) \<leftarrow> proc_fdstate_alloc c k; Some (ok, if ok then copy_fds E c k else k) })"

definition do_clone :: "'h env \<Rightarrow> registers_t \<Rightarrow> u32 \<Rightarrow> u32 \<Rightarrow> u32 \<Rightarrow> u32 \<Rightarrow> u32 \<Rightarrow> 'h kernel \<Rightarrow> (u32 \<times> 'h kernel) option" where
  "do_clone E r fl stack ptid tls ctid k =
     (case user_proc k of
        None \<Rightarrow> Some (err ERR_EPERM, k)
      | Some i \<Rightarrow> do {
          (c, k) \<leftarrow> proc_alloc (Some (cstr (p_name (procs k ! i)))) (p_pid (procs k ! i)) k;
          case c of
            None \<Rightarrow> Some (err ERR_EAGAIN, k)
          | Some c \<Rightarrow> do {
              let share_vm = (fl AND CLONE_VM \<noteq> 0);
              (ok, k) \<leftarrow> clone_space c i share_vm k;
              (ok, k) \<leftarrow> (if ok then clone_fds E c i (fl AND CLONE_FILES \<noteq> 0) k else Some (False, k));
              if \<not> ok then no_child E c k
              else do {
                let k = upd_proc c (clone_tls fl tls) (inherit_live c k);
                let k = upd_proc c (child_regs r (if stack \<noteq> 0 then stack else r_useresp r) 0x23
                      (if fl AND CLONE_SETTLS \<noteq> 0 then 0x33 else sel_or_data (r_gs r))) k;
                let k = upd_proc c (\<lambda>p. child_ids (procs k ! i) (p\<lparr>p_is_thread := share_vm\<rparr>)) k;
                let k = proc_signal_inherit c i k;
                let pid = p_pid (procs k ! c);
                k \<leftarrow> store_ptid ptid pid k;
                k \<leftarrow> store_ctid c share_vm ctid pid k;
                Some (pid, k) } } })"

section \<open>Waiting for children\<close>

text \<open>The child reported by the last wakeup is freed by the next wait.\<close>

definition reap_reported :: "'h env \<Rightarrow> nat \<Rightarrow> 'h kernel \<Rightarrow> 'h kernel option" where
  "reap_reported E i k =
     (if p_last_wait_pid (procs k ! i) = 0 then Some k
      else do {
        k \<leftarrow> (case proc_find (p_last_wait_pid (procs k ! i)) k of
               None \<Rightarrow> Some k
             | Some d \<Rightarrow> if p_state (procs k ! d) = PROC_ZOMBIE then proc_reap (e_ports E) d k else Some k);
        Some (upd_proc i (\<lambda>p. p\<lparr>p_last_wait_pid := 0\<rparr>) k) })"

definition WNOHANG :: u32 where "WNOHANG = 1"

text \<open>The tail both calls share: no zombie to report.\<close>

definition wait_block ::
  "registers_t \<Rightarrow> proc_wait_t \<Rightarrow> int \<Rightarrow> u32 \<Rightarrow> u32 \<Rightarrow> 'h kernel \<Rightarrow> (u32 \<times> registers_t \<times> 'h kernel) option" where
  "wait_block r kind want ptr options k =
     (if find_child want k = None then Some (err ERR_ECHILD, r, k)
      else if options AND WNOHANG \<noteq> 0 then Some (0, r, k)
      else do {
        (blocked, r, k) \<leftarrow> proc_block_current r kind want ptr k;
        Some (if blocked then 0 else err ERR_ECHILD, r, k) })"

definition do_wait4 :: "'h env \<Rightarrow> registers_t \<Rightarrow> u32 \<Rightarrow> u32 \<Rightarrow> u32 \<Rightarrow> 'h kernel \<Rightarrow> (u32 \<times> registers_t \<times> 'h kernel) option" where
  "do_wait4 E r pid_arg status_ptr options k =
     (case user_proc k of
        None \<Rightarrow> Some (err ERR_ECHILD, r, k)
      | Some i \<Rightarrow>
          if status_ptr \<noteq> 0 \<and> \<not> user_ptr_ok status_ptr 4 then Some (err ERR_EFAULT, r, k)
          else do {
            k \<leftarrow> reap_reported E i k;
            case find_zombie_child (sint pid_arg) k of
              Some c \<Rightarrow> do {
                let cpid = p_pid (procs k ! c);
                let code = word_of_int (p_exit_code (procs k ! c)) AND 0xFF;
                k \<leftarrow> (if status_ptr \<noteq> 0 then vstore32 status_ptr (push_bit 8 code) k else Some k);
                k \<leftarrow> proc_reap (e_ports E) c k;
                Some (cpid, r, k) }
            | None \<Rightarrow> wait_block r PROC_WAIT_WAIT4 (sint pid_arg) status_ptr options k })"

definition siginfo_words :: "proc_t \<Rightarrow> u32 list" where
  "siginfo_words p = [17, 0, 1, p_pid p, 0, word_of_int (p_exit_code p) AND 0xFF]"

definition do_waitid ::
  "'h env \<Rightarrow> registers_t \<Rightarrow> u32 \<Rightarrow> u32 \<Rightarrow> u32 \<Rightarrow> u32 \<Rightarrow> 'h kernel \<Rightarrow> (u32 \<times> registers_t \<times> 'h kernel) option" where
  "do_waitid E r idtype pid infop options k =
     (if \<not> user_ptr_ok infop 128 then Some (err ERR_EFAULT, r, k)
      else do {
        k \<leftarrow> vstore infop (replicate 128 0) k;
        case user_proc k of
          None \<Rightarrow> Some (err ERR_ECHILD, r, k)
        | Some i \<Rightarrow> do {
            k \<leftarrow> reap_reported E i k;
            let want = (if idtype = 1 then sint pid else - 1);
            case find_zombie_child want k of
              Some c \<Rightarrow> do {
                k \<leftarrow> vstore32s infop (siginfo_words (procs k ! c)) k;
                k \<leftarrow> proc_reap (e_ports E) c k;
                Some (0, r, k) }
            | None \<Rightarrow> wait_block r PROC_WAIT_WAITID want infop options k } })"

section \<open>Vectors\<close>

primrec writev_from :: "nat \<Rightarrow> 'h env \<Rightarrow> u32 \<Rightarrow> u32 \<Rightarrow> u32 \<Rightarrow> 'h kernel \<Rightarrow> (u32 \<times> 'h kernel) option" where
  "writev_from 0 E fd iov tot k = Some (tot, k)"
| "writev_from (Suc c) E fd iov tot k = do {
     base \<leftarrow> vload32 iov k;
     len \<leftarrow> vload32 (iov + 4) k;
     (n, k) \<leftarrow> do_write E fd base len k;
     if sint n < 0 then Some (if tot \<noteq> 0 then tot else n, k)
     else writev_from c E fd (iov + 8) (tot + n) k }"

definition do_writev :: "'h env \<Rightarrow> u32 \<Rightarrow> u32 \<Rightarrow> u32 \<Rightarrow> 'h kernel \<Rightarrow> (u32 \<times> 'h kernel) option" where
  "do_writev E fd iov cnt k =
     (if cnt > 1024 then Some (err ERR_EINVAL, k)
      else if \<not> user_ptr_ok iov (cnt * 8) then Some (err ERR_EFAULT, k)
      else writev_from (unat cnt) E fd iov 0 k)"

primrec readv_from ::
  "nat \<Rightarrow> 'h env \<Rightarrow> registers_t \<Rightarrow> u32 \<Rightarrow> u32 \<Rightarrow> u32 \<Rightarrow> 'h kernel \<Rightarrow> (u32 \<times> registers_t \<times> 'h kernel) option" where
  "readv_from 0 E r fd iov tot k = Some (tot, r, k)"
| "readv_from (Suc c) E r fd iov tot k = do {
     base \<leftarrow> vload32 iov k;
     len \<leftarrow> vload32 (iov + 4) k;
     (n, r, k) \<leftarrow> do_read E r fd base len k;
     if sint n < 0 then Some (if tot \<noteq> 0 then tot else n, r, k)
     else if n < len then Some (tot + n, r, k)
     else readv_from c E r fd (iov + 8) (tot + n) k }"

definition do_readv :: "'h env \<Rightarrow> registers_t \<Rightarrow> u32 \<Rightarrow> u32 \<Rightarrow> u32 \<Rightarrow> 'h kernel \<Rightarrow> (u32 \<times> registers_t \<times> 'h kernel) option" where
  "do_readv E r fd iov cnt k =
     (if cnt > 1024 then Some (err ERR_EINVAL, r, k)
      else if \<not> user_ptr_ok iov (cnt * 8) then Some (err ERR_EFAULT, r, k)
      else readv_from (unat cnt) E r fd iov 0 k)"

section \<open>Clocks and identity\<close>

definition do_gettimeofday :: "'h env \<Rightarrow> u32 \<Rightarrow> u32 \<Rightarrow> 'h kernel \<Rightarrow> (u32 \<times> 'h kernel) option" where
  "do_gettimeofday E tv tz k =
     (let ticks = k_ticks k
      in if tv \<noteq> 0 \<and> \<not> user_ptr_ok tv 8 then Some (err ERR_EFAULT, k)
         else do {
           k \<leftarrow> (if tv = 0 then Some k
                else case k_now E k of (now, k) \<Rightarrow> do {
                  k \<leftarrow> vstore32 tv now k; vstore32 (tv + 4) ((ticks mod 100) * 10000) k });
           if tz = 0 then Some (0, k)
           else if \<not> user_ptr_ok tz 8 then Some (err ERR_EFAULT, k)
           else do { k \<leftarrow> vstore tz (replicate 8 0) k; Some (0, k) } })"

definition do_clock_gettime :: "'h env \<Rightarrow> u32 \<Rightarrow> u32 \<Rightarrow> u32 \<Rightarrow> 'h kernel \<Rightarrow> (u32 \<times> 'h kernel) option" where
  "do_clock_gettime E clockid ts struct_size k =
     (if ts = 0 then Some (err ERR_EFAULT, k)
      else if \<not> user_ptr_ok ts struct_size then Some (err ERR_EFAULT, k)
      else
        let ticks = k_ticks k; nsec = (ticks mod 100) * 10000000;
            (sec, k) = (if clockid = 1 \<or> clockid = 4 then (ticks div 100, k) else k_now E k)
        in do {
          k \<leftarrow> (if struct_size = 16
               then do { k \<leftarrow> vstore ts (enc64 (ucast sec)) k; vstore (ts + 8) (enc64 (ucast nsec)) k }
               else do { k \<leftarrow> vstore32 ts sec k; vstore32 (ts + 4) nsec k });
          Some (0, k) })"

definition do_fcntl :: "'h env \<Rightarrow> u32 \<Rightarrow> u32 \<Rightarrow> 'h kernel \<Rightarrow> u32 \<times> 'h kernel" where
  "do_fcntl E fd cmd k =
     (if user_fd_kind (sint fd) k = None then (err ERR_EBADF, k)
      else if cmd = 0 \<or> cmd = 1030 then do_dup E fd k
      else if cmd \<in> set [1, 2, 3, 4, 8, 9] then (0, k)
      else (err ERR_EINVAL, k))"

definition uts_bytes :: "u8 list" where
  "uts_bytes = put_fields 390 [(0, str ''MuOS''), (65, str ''muos''), (130, str ''1.2.0''), (195, str ''MuOS v1.2''),
     (260, str ''i386'')]"

definition do_uname :: "u32 \<Rightarrow> 'h kernel \<Rightarrow> (u32 \<times> 'h kernel) option" where
  "do_uname ptr k =
     (if \<not> user_ptr_ok ptr 390 then Some (err ERR_EFAULT, k) else do { k \<leftarrow> vstore ptr uts_bytes k; Some (0, k) })"

section \<open>Mappings\<close>

definition MAP_FIXED :: u32 where "MAP_FIXED = 0x10"
definition MAP_ANONYMOUS :: u32 where "MAP_ANONYMOUS = 0x20"

text \<open>Where a mapping of \<open>len\<close> bytes goes.\<close>

definition mmap_place :: "u32 \<Rightarrow> u32 \<Rightarrow> u32 \<Rightarrow> u32 \<Rightarrow> 'h kernel \<Rightarrow> ((u32 + u32) \<times> 'h kernel) option" where
  "mmap_place addr len rounded fl k =
     (if fl AND MAP_FIXED \<noteq> 0
      then Some (if addr AND (PAGE_SIZE - 1) \<noteq> 0 then Inl (err ERR_EINVAL)
                 else if addr < USER_BASE \<or> rounded > USER_END - USER_STACK_RESERVE - addr then Inl (err ERR_ENOMEM)
                 else Inr addr, k)
      else do { (a, k) \<leftarrow> user_mmap_anon len k; Some (if a = 0 then Inl (err ERR_ENOMEM) else Inr a, k) })"

text \<open>The bytes behind a descriptor that can be mapped, and their number.\<close>

definition mmap_data :: "int \<Rightarrow> 'h kernel \<Rightarrow> u32 + (u32 \<times> u8 list option)" where
  "mmap_data fd k =
     (case user_fd_kind fd k of
        Some USER_FD_FILE \<Rightarrow>
          let slot = user_fd_slot fd k
          in if slot < 0 then Inl (err ERR_EBADF) else Inr (fs_fd_size slot (k_fs k), fs_fd_data slot (k_fs k))
      | Some USER_FD_VFILE \<Rightarrow> Inr (user_fd_vfile fd k)
      | _ \<Rightarrow> Inl (err ERR_ENODEV))"

definition do_mmap :: "u32 \<Rightarrow> u32 \<Rightarrow> u32 \<Rightarrow> int \<Rightarrow> u32 \<Rightarrow> 'h kernel \<Rightarrow> (u32 \<times> 'h kernel) option" where
  "do_mmap addr len fl fd offset k =
     (let rounded = (len + PAGE_SIZE - 1) AND NOT (PAGE_SIZE - 1)
      in if len = 0 then Some (err ERR_EINVAL, k)
         else if rounded < len \<or> rounded > USER_SIZE then Some (err ERR_ENOMEM, k)
         else do {
           (place, k) \<leftarrow> mmap_place addr len rounded fl k;
           case place of
             Inl e \<Rightarrow> Some (e, k)
           | Inr a \<Rightarrow>
               if fl AND MAP_ANONYMOUS \<noteq> 0
               then if fd \<noteq> - 1 then Some (err ERR_EINVAL, k)
                    else do {
                      k \<leftarrow> (if fl AND MAP_FIXED \<noteq> 0 then vstore a (replicate (unat rounded) 0) k else Some k);
                      Some (a, k) }
               else if fd < 0 then Some (err ERR_EBADF, k)
               else if offset AND (PAGE_SIZE - 1) \<noteq> 0 then Some (err ERR_EINVAL, k)
               else case mmap_data fd k of
                      Inl e \<Rightarrow> Some (e, k)
                    | Inr (fsize, data) \<Rightarrow> do {
                        k \<leftarrow> vstore a (replicate (unat rounded) 0) k;
                        k \<leftarrow> (case data of
                               Some d \<Rightarrow>
                                 if offset < fsize
                                 then vstore a (take (unat (if fsize - offset < rounded then fsize - offset else rounded))
                                        (drop (unat offset) d)) k
                                 else Some k
                             | None \<Rightarrow> Some k);
                        Some (a, k) } })"

definition do_mmap2 :: "u32 \<Rightarrow> u32 \<Rightarrow> u32 \<Rightarrow> int \<Rightarrow> u32 \<Rightarrow> 'h kernel \<Rightarrow> (u32 \<times> 'h kernel) option" where
  "do_mmap2 addr len fl fd pgoff k =
     (if pgoff > 0xFFFFFFFF div PAGE_SIZE then Some (err ERR_EINVAL, k) else do_mmap addr len fl fd (pgoff * PAGE_SIZE) k)"

definition do_old_mmap :: "u32 \<Rightarrow> 'h kernel \<Rightarrow> (u32 \<times> 'h kernel) option" where
  "do_old_mmap args_ptr k =
     (if \<not> user_ptr_ok args_ptr 24 then Some (err ERR_EFAULT, k)
      else do { a \<leftarrow> vload32s args_ptr 6 k; do_mmap (a ! 0) (a ! 1) (a ! 3) (sint (a ! 4)) (a ! 5) k })"

section \<open>Thread-local storage\<close>

definition proc_record_tls :: "'h kernel \<Rightarrow> 'h kernel" where
  "proc_record_tls k =
     (case current_proc k of None \<Rightarrow> k
      | Some i \<Rightarrow> (case gdt_get_user_tls (k_seg k) of (b, l, f) \<Rightarrow>
          upd_proc i (\<lambda>p. p\<lparr>p_tls_base := b, p_tls_limit := l, p_tls_flags := f\<rparr>) k))"

definition do_set_thread_area :: "u32 \<Rightarrow> 'h kernel \<Rightarrow> (u32 \<times> 'h kernel) option" where
  "do_set_thread_area ptr k =
     (if \<not> user_ptr_ok ptr 16 then Some (err ERR_EFAULT, k)
      else do {
        d \<leftarrow> vload32s ptr 4 k;
        if d ! 0 \<noteq> 0xFFFFFFFF \<and> d ! 0 \<noteq> 6 then Some (err ERR_EINVAL, k)
        else do {
          let k = proc_record_tls (seg_upd (gdt_set_user_tls (d ! 1) (d ! 2) (d ! 3)) k);
          k \<leftarrow> vstore32s ptr [6, d ! 1, d ! 2, d ! 3] k;
          Some (0, k) } })"

definition do_get_thread_area :: "u32 \<Rightarrow> 'h kernel \<Rightarrow> (u32 \<times> 'h kernel) option" where
  "do_get_thread_area ptr k =
     (if \<not> user_ptr_ok ptr 16 then Some (err ERR_EFAULT, k)
      else case gdt_get_user_tls (k_seg k) of (b, l, f) \<Rightarrow> do { k \<leftarrow> vstore32s ptr [6, b, l, f] k; Some (0, k) })"

end
