(* ===== verification/Exec.thy ===== *)
theory Exec
  imports Elf Sys_Proc
begin

text \<open>
  Starting a program (\<^verbatim>\<open>src/user.c\<close>, \<^verbatim>\<open>do_execve\<close> of \<^verbatim>\<open>src/syscall.c\<close>): the image and its interpreter are mapped
  into the window, the initial stack is built, and the frame is pointed at the entry.  The messages
  to the screen and the serial line are left out.
\<close>

declare drop_bit_and [simp del] drop_bit_or [simp del]

section \<open>The initial stack\<close>

definition push_string :: "u32 \<Rightarrow> u8 list \<Rightarrow> 'h kernel \<Rightarrow> (u32 \<times> 'h kernel) option" where
  "push_string sp s k =
     (let len = min (length s + 1) 256; sp = sp - word_of_nat len
      in do { k \<leftarrow> vstore sp (take (len - 1) s @ [0]) k; Some (sp, k) })"

text \<open>The strings, last one first; the addresses come back in the order of the arguments.\<close>

primrec push_strings :: "u8 list list \<Rightarrow> u32 \<Rightarrow> u32 list \<Rightarrow> 'h kernel \<Rightarrow> (u32 \<times> u32 list \<times> 'h kernel) option" where
  "push_strings [] sp addrs k = Some (sp, addrs, k)"
| "push_strings (s # ss) sp addrs k = do { (sp, k) \<leftarrow> push_string sp s k; push_strings ss sp (sp # addrs) k }"

primrec push_words :: "u32 list \<Rightarrow> u32 \<Rightarrow> 'h kernel \<Rightarrow> (u32 \<times> 'h kernel) option" where
  "push_words [] sp k = Some (sp, k)"
| "push_words (w # ws) sp k = do { k \<leftarrow> vstore32 (sp - 4) w k; push_words ws (sp - 4) k }"

definition lcg :: "u32 \<Rightarrow> u32" where
  "lcg seed = seed * 1103515245 + 12345"

primrec random_bytes :: "nat \<Rightarrow> u32 \<Rightarrow> u8 list" where
  "random_bytes 0 seed = []"
| "random_bytes (Suc n) seed = (let seed = lcg seed in ucast (drop_bit 16 seed) # random_bytes n seed)"

definition aux_vector :: "elf32_load_info_t \<Rightarrow> u32 \<Rightarrow> u32 \<Rightarrow> (u32 \<times> u32) list" where
  "aux_vector li interp_base rnd_ptr =
     [(3, li_phdr li), (4, li_phent li), (5, li_phnum li), (6, 4096), (7, interp_base), (9, li_entry li), (25, rnd_ptr), (0, 0)]"

definition stack_words :: "u32 list \<Rightarrow> (u32 \<times> u32) list \<Rightarrow> u32 list" where
  "stack_words addrs aux =
     concat (map (\<lambda>(t, v). [v, t]) (rev aux)) @ [0, 0] @ rev addrs @ [word_of_nat (length addrs)]"

definition build_user_stack :: "u8 list list \<Rightarrow> elf32_load_info_t \<Rightarrow> u32 \<Rightarrow> 'h kernel \<Rightarrow> (u32 \<times> 'h kernel) option" where
  "build_user_stack argv li interp_base k =
     (let rnd_off = (k_ticks k AND 7) * PAGE_SIZE;
          args = (if argv = [] then [[]] else take 16 argv)
      in do {
        (sp, addrs, k) \<leftarrow> push_strings (rev args) (USER_SIGTRAMP - 32 - rnd_off) [] k;
        let sp = sp - 16;
        k \<leftarrow> vstore sp (random_bytes 16 (lcg (k_ticks k))) k;
        push_words (stack_words addrs (aux_vector li interp_base sp)) sp k })"

section \<open>Loading\<close>

definition USER_INTERP_BASE :: u32 where "USER_INTERP_BASE = 0x08200000"

definition USER_LOAD_LIMIT :: u32 where "USER_LOAD_LIMIT = USER_END - USER_STACK_RESERVE"

text \<open>The bytes of a file slot, as an image.\<close>

definition slot_image :: "int \<Rightarrow> 'h kernel \<Rightarrow> u8 list" where
  "slot_image slot k =
     (case fs_fd_data slot (k_fs k) of None \<Rightarrow> [] | Some d \<Rightarrow> take (unat (fs_fd_size slot (k_fs k))) d)"

definition interp_find :: "'h env \<Rightarrow> u8 list \<Rightarrow> 'h kernel \<Rightarrow> u8 list option" where
  "interp_find E path k =
     (let norm = dropWhile (\<lambda>c. c = slash) path; slot = fs_open norm (k_fs k)
      in if path = [] then None
         else if length norm \<ge> 64 then None
         else if slot \<ge> 0 \<and> fs_fd_size slot (k_fs k) \<noteq> 0 then Some (slot_image slot k)
         else if norm = str ''lib/ld-mu.so'' \<or> norm = str ''ld-mu.so'' then Some (e_ld_mu E)
         else None)"

text \<open>An error code, or what was loaded, the address to enter and the bias of the interpreter.\<close>

definition user_load_for_exec ::
  "'h env \<Rightarrow> u8 list \<Rightarrow> 'h kernel \<Rightarrow> ((int + elf32_load_info_t \<times> u32 \<times> u32) \<times> 'h kernel) option" where
  "user_load_for_exec E img k = do {
     (res, k) \<leftarrow> elf32_load_program img USER_BASE USER_LOAD_LIMIT k;
     case res of
       Inl e \<Rightarrow> Some (Inl e, k)
     | Inr li \<Rightarrow>
         if \<not> li_has_interp li then Some (Inr (li, li_entry li, 0), k)
         else case interp_find E (cstr (li_interp li)) k of
                None \<Rightarrow> Some (Inl (- 5), k)
              | Some iimg \<Rightarrow> do {
                  (res, k) \<leftarrow> elf32_load_ex iimg USER_INTERP_BASE USER_LOAD_LIMIT k;
                  Some (case res of Inl e \<Rightarrow> Inl (- 6) | Inr ii \<Rightarrow> Inr (li, li_entry ii, li_base ii), k) } }"

definition clear_window :: "'h kernel \<Rightarrow> 'h kernel option" where
  "clear_window k = vstore USER_BASE (replicate (unat (USER_SIZE - PAGE_SIZE)) 0) k"

definition start_brk :: "u32 \<Rightarrow> 'h kernel \<Rightarrow> 'h kernel" where
  "start_brk image_end k =
     (let b = align_up_page image_end; b = (if b < USER_BASE + PAGE_SIZE then USER_BASE + PAGE_SIZE else b)
      in k\<lparr>brk_base := b, brk_current := b\<rparr>)"

definition user_exec_image :: "'h env \<Rightarrow> u8 list \<Rightarrow> u8 list list \<Rightarrow> 'h kernel \<Rightarrow> ((int + u32 \<times> u32) \<times> 'h kernel) option" where
  "user_exec_image E img argv k =
     (if img = [] then Some (Inl (- 1), k)
      else do {
        k \<leftarrow> clear_window (snd (proc_detach_current k));
        (res, k) \<leftarrow> user_load_for_exec E img k;
        case res of
          Inl e \<Rightarrow> Some (Inl e, k)
        | Inr (li, entry, interp_base) \<Rightarrow> do {
            (sp, k) \<leftarrow> build_user_stack argv li interp_base (start_brk (li_image_end li) k);
            if sp \<le> brk_current k + PAGE_SIZE then Some (Inl (- 2), k)
            else Some (Inr (entry, sp), k\<lparr>u_exit_code := 0, u_faulted := False, u_active := True\<rparr>) } })"

section \<open>execve\<close>

text \<open>The argument strings: at most 16, of at most 63 characters; the inner \<open>None\<close> is a bad pointer.\<close>

primrec exec_args :: "nat \<Rightarrow> u32 \<Rightarrow> 'h kernel \<Rightarrow> u8 list list option option" where
  "exec_args 0 ptr k = Some (Some [])"
| "exec_args (Suc n) ptr k =
     (if \<not> user_ptr_ok ptr 4 then Some None
      else do {
        p \<leftarrow> vload32 ptr k;
        if p = 0 then Some (Some [])
        else do {
          s \<leftarrow> copy_user_string p 64 k;
          case s of
            None \<Rightarrow> Some None
          | Some s \<Rightarrow> do { rest \<leftarrow> exec_args n (ptr + 4) k; Some (map_option (\<lambda>ss. s # ss) rest) } } })"

definition base_name :: "u8 list \<Rightarrow> u8 list" where
  "base_name path = rev (takeWhile (\<lambda>c. c \<noteq> slash) (rev path))"

definition exec_argv :: "u8 list \<Rightarrow> u32 \<Rightarrow> 'h kernel \<Rightarrow> u8 list list option option" where
  "exec_argv path argv_ptr k = do {
     args \<leftarrow> (if argv_ptr = 0 then Some (Some []) else exec_args 16 argv_ptr k);
     Some (map_option (\<lambda>as. if as = [] then [take 63 (base_name path)] else as) args) }"

fun join_args :: "u8 list list \<Rightarrow> u8 list" where
  "join_args [] = []"
| "join_args [a] = a"
| "join_args (a # b # as) = a @ [0x20] @ join_args (b # as)"

definition set_names :: "u8 list list \<Rightarrow> proc_t \<Rightarrow> proc_t" where
  "set_names args p = p\<lparr>p_name := str_field (PROC_NAME_MAX - 1) (hd args),
     p_cmdline := overlay 0 (take (PROC_CMDLINE_MAX - 1) (join_args args) @ [0]) (p_cmdline p)\<rparr>"

text \<open>The image a name stands for: a file of the file system, or the boot module.\<close>

definition exec_image :: "vfs_ent_t \<Rightarrow> 'h kernel \<Rightarrow> u8 list option option" where
  "exec_image e k =
     (case v_type e of
        VFS_T_FILE \<Rightarrow> Some (Some (slot_image (v_slot e) k))
      | VFS_T_MODULE \<Rightarrow>
          (case modules_get (k_modules k) (word_of_int (v_id e)) of
             None \<Rightarrow> Some (Some [])
           | Some (start, end') \<Rightarrow> map_option Some (vload start (unat (end' - start)) k))
      | _ \<Rightarrow> Some None)"

definition do_execve :: "'h env \<Rightarrow> registers_t \<Rightarrow> u32 \<Rightarrow> u32 \<Rightarrow> 'h kernel \<Rightarrow> (u32 \<times> registers_t \<times> 'h kernel) option" where
  "do_execve E r path_ptr argv_ptr k = do {
     path \<leftarrow> copy_user_string path_ptr 128 k;
     case path of
       None \<Rightarrow> Some (err ERR_EFAULT, r, k)
     | Some path \<Rightarrow>
         (case vfs_lookup path k of (rc, e) \<Rightarrow>
            if failed rc then Some (rc, r, k)
            else do {
              img \<leftarrow> exec_image e k;
              case img of
                None \<Rightarrow> Some (err ERR_ENOEXEC, r, k)
              | Some img \<Rightarrow>
                  if img = [] then Some (err ERR_ENOEXEC, r, k)
                  else do {
                    args \<leftarrow> exec_argv path argv_ptr k;
                    case args of
                      None \<Rightarrow> Some (err ERR_EFAULT, r, k)
                    | Some args \<Rightarrow>
                        (case elf32_validate img USER_BASE USER_LOAD_LIMIT of
                           Inl _ \<Rightarrow> Some (err ERR_ENOEXEC, r, k)
                         | Inr _ \<Rightarrow> do {
                             (res, k) \<leftarrow> user_exec_image E img args k;
                             case res of
                               Inl _ \<Rightarrow> Some (err ERR_ENOEXEC, r, k)
                             | Inr (entry, sp) \<Rightarrow>
                                 Some (0, r\<lparr>r_eip := entry, r_useresp := sp, r_ebx := 0, r_ecx := 0, r_edx := 0, r_esi := 0,
                                          r_edi := 0, r_ebp := 0\<rparr>,
                                   case current_proc k of None \<Rightarrow> k | Some i \<Rightarrow> upd_proc i (set_names args) k) }) } }) }"

section \<open>Running a program from the shell\<close>

text \<open>
  \<^verbatim>\<open>user_run_image_argv\<close> up to \<^verbatim>\<open>user_enter\<close>, the assembly that drops to ring 3, and from its return.  The first
  half gives the process, the entry, the stack pointer and the page directory to return to.
\<close>

definition abort_launch :: "'h env \<Rightarrow> nat \<Rightarrow> u32 \<Rightarrow> 'h kernel \<Rightarrow> ((nat \<times> u32 \<times> u32 \<times> u32) option \<times> 'h kernel) option" where
  "abort_launch E i prev_pd k =
     do { k \<leftarrow> proc_reap (e_ports E) i (mm_upd (mm_switch_pd prev_pd) k); Some (None, k) }"

definition launch_state :: "u8 list list \<Rightarrow> nat \<Rightarrow> 'h kernel \<Rightarrow> 'h kernel" where
  "launch_state args i k =
     (let k = user_fd_state_save (p_fd_state (procs k ! i)) k;
          k = seg_upd (gdt_set_user_tls 0 0 0) k;
          (bb, bc) = user_get_brk_state k
      in proc_set_current (Some i) (upd_proc i (\<lambda>p. p\<lparr>p_fds_retained := True, p_cwd := copy_name (user_cwd_get k),
           p_brk_base := bb, p_brk_cur := bc, p_tls_base := 0, p_tls_limit := 0, p_tls_flags := 0, p_state := PROC_RUNNING,
           p_cmdline := overlay 0 (take (PROC_CMDLINE_MAX - 1) (join_args (take 16 args)) @ [0]) (p_cmdline p)\<rparr>) k))"

definition user_launch :: "'h env \<Rightarrow> u8 list \<Rightarrow> u8 list list \<Rightarrow> 'h kernel \<Rightarrow> ((nat \<times> u32 \<times> u32 \<times> u32) option \<times> 'h kernel) option" where
  "user_launch E img argv k =
     (if u_active k \<or> img = [] \<or> USER_END > total_pages (k_mm k) * PAGE_SIZE then Some (None, k)
      else do {
        (self, k) \<leftarrow> proc_alloc (Some (case argv of [] \<Rightarrow> str ''app'' | a # _ \<Rightarrow> a)) 1 k;
        case self of
          None \<Rightarrow> Some (None, k)
        | Some i \<Rightarrow> do {
            (ok, k) \<leftarrow> proc_snapshot_alloc i k;
            if \<not> ok then do { k \<leftarrow> proc_reap (e_ports E) i k; Some (None, k) }
            else do {
              let prev_pd = mm_get_current_pd (k_mm k);
              k \<leftarrow> clear_window (proc_switch_space (Some i) k);
              (res, k) \<leftarrow> user_load_for_exec E img k;
              case res of
                Inl e \<Rightarrow> abort_launch E i prev_pd k
              | Inr (li, entry, interp_base) \<Rightarrow> do {
                  (sp, k) \<leftarrow> build_user_stack argv li interp_base (start_brk (li_image_end li) k);
                  if sp \<le> brk_current k + PAGE_SIZE then abort_launch E i prev_pd k
                  else do {
                    let k = user_set_active True (user_fds_reset (k\<lparr>u_exit_code := 0, u_faulted := False\<rparr>));
                    (ok, k) \<leftarrow> proc_fdstate_alloc i k;
                    if \<not> ok then abort_launch E i prev_pd k
                    else Some (Some (i, entry, sp, prev_pd), launch_state argv i k) } } } } })"

definition user_finish :: "'h env \<Rightarrow> nat \<Rightarrow> u32 \<Rightarrow> 'h kernel \<Rightarrow> (int \<times> 'h kernel) option" where
  "user_finish E i prev_pd k = do {
     let k = mm_upd (mm_switch_pd prev_pd) (user_set_active False k);
     let k = seg_upd (tss_set_esp0 (tss_get_kernel_stack_top (k_seg k))) k;
     let p = procs k ! i;
     k \<leftarrow> proc_cleanup_children (e_ports E) (p_pid p) k;
     k \<leftarrow> proc_reap (e_ports E) i k;
     let k = user_fds_reset (proc_set_current (proc_find 1 k) k);
     Some (if p_faulted p then - 1 else p_exit_code p, k) }"

text \<open>The whole run, with what happens in ring 3 as the argument \<open>enter\<close>.\<close>

definition user_run_image_argv ::
  "'h env \<Rightarrow> (u32 \<Rightarrow> u32 \<Rightarrow> 'h kernel \<Rightarrow> 'h kernel option) \<Rightarrow> u8 list \<Rightarrow> u8 list list \<Rightarrow> 'h kernel \<Rightarrow> (int \<times> 'h kernel) option" where
  "user_run_image_argv E enter img argv k = do {
     (go, k) \<leftarrow> user_launch E img argv k;
     case go of
       None \<Rightarrow> Some (- 1, k)
     | Some (i, entry, sp, prev_pd) \<Rightarrow> do { k \<leftarrow> enter entry sp k; user_finish E i prev_pd k } }"

definition user_run_image ::
  "'h env \<Rightarrow> (u32 \<Rightarrow> u32 \<Rightarrow> 'h kernel \<Rightarrow> 'h kernel option) \<Rightarrow> u8 list \<Rightarrow> u8 list option \<Rightarrow> u8 list option \<Rightarrow> 'h kernel \<Rightarrow>
   (int \<times> 'h kernel) option" where
  "user_run_image E enter img arg0 arg1 k =
     user_run_image_argv E enter img
       ((case arg0 of None \<Rightarrow> str ''app'' | Some a \<Rightarrow> a) # (case arg1 of None \<Rightarrow> [] | Some a \<Rightarrow> if a = [] then [] else [a])) k"

section \<open>The embedded runtime\<close>

text \<open>The shared libraries the build embeds are arguments.\<close>

definition fs_install_blob :: "'h env \<Rightarrow> u8 list \<Rightarrow> u8 list \<Rightarrow> 'h kernel \<Rightarrow> 'h kernel" where
  "fs_install_blob E path data k =
     (case (if fs_open path (k_fs k) < 0 then fs_call (fs_create (e_ports E) path) k else (fs_open path (k_fs k), k)) of
        (slot, k) \<Rightarrow> if slot \<ge> 0 then snd (fs_call (fs_write (e_ports E) slot data (word_of_nat (length data))) k) else k)"

definition user_install_dyn_runtime :: "'h env \<Rightarrow> u8 list \<Rightarrow> u8 list \<Rightarrow> 'h kernel \<Rightarrow> 'h kernel" where
  "user_install_dyn_runtime E libmu libtls k =
     (let k = (if fs_is_dir (str ''lib'') (k_fs k) then k else snd (fs_call (fs_mkdir (e_ports E) (str ''lib'')) k));
          k = fs_install_blob E (str ''lib/ld-mu.so'') (e_ld_mu E) k;
          k = fs_install_blob E (str ''lib/libmu.so'') libmu k;
          k = fs_install_blob E (str ''lib/libtls.so'') libtls k
      in k_sync E k)"

end
