(* ===== verification/Syscall.thy ===== *)
theory Syscall
  imports Exec
begin

text \<open>
  The dispatcher \<^verbatim>\<open>syscall_handler\<close> of \<^verbatim>\<open>src/syscall.c\<close>.  The \<^verbatim>\<open>switch\<close> is a table of rows: the numbers a case answers
  to and what it does with the frame and the state.  The line an unknown number leaves in the serial
  log is left out.
\<close>

declare drop_bit_and [simp del] drop_bit_or [simp del]

type_synonym 'h sys_result = "(u32 \<times> registers_t, 'h kernel) flow option"
type_synonym 'h sys_row = "u32 list \<times> (registers_t \<Rightarrow> 'h kernel \<Rightarrow> 'h sys_result)"

section \<open>Results of the handlers\<close>

text \<open>A handler may leave the frame alone, may fault, and may also switch frames.\<close>

definition ret :: "registers_t \<Rightarrow> u32 \<times> 'h kernel \<Rightarrow> 'h sys_result" where
  "ret r x = (case x of (v, k) \<Rightarrow> Some (Back (v, r) k))"

definition ret_try :: "registers_t \<Rightarrow> (u32 \<times> 'h kernel) option \<Rightarrow> 'h sys_result" where
  "ret_try r x = (case x of None \<Rightarrow> None | Some (v, k) \<Rightarrow> Some (Back (v, r) k))"

definition ret_frame :: "(u32 \<times> registers_t \<times> 'h kernel) option \<Rightarrow> 'h sys_result" where
  "ret_frame x = (case x of None \<Rightarrow> None | Some (v, r, k) \<Rightarrow> Some (Back (v, r) k))"

definition const :: "u32 \<Rightarrow> registers_t \<Rightarrow> 'h kernel \<Rightarrow> 'h sys_result" where
  "const v r k = Some (Back (v, r) k)"

lemmas ret_defs = ret_def ret_try_def ret_frame_def const_def

definition current_or :: "u32 \<Rightarrow> (proc_t \<Rightarrow> u32) \<Rightarrow> 'h kernel \<Rightarrow> u32" where
  "current_or v f k = (case current_proc k of None \<Rightarrow> v | Some i \<Rightarrow> f (procs k ! i))"

definition sys_exit :: "registers_t \<Rightarrow> 'h kernel \<Rightarrow> 'h sys_result" where
  "sys_exit r k =
     (case proc_exit_current r (sint (r_ebx r)) False (user_set_active False k) of
        Back r k \<Rightarrow> Some (Back (0, r) k) | Shell k \<Rightarrow> Some (Shell k))"

definition sys_setuid :: "u32 \<Rightarrow> 'h kernel \<Rightarrow> u32 \<times> 'h kernel" where
  "sys_setuid uid k =
     (case current_proc k of
        None \<Rightarrow> (err ERR_EPERM, k)
      | Some i \<Rightarrow> if p_uid (procs k ! i) \<noteq> 0 \<and> uid \<noteq> p_uid (procs k ! i) then (err ERR_EPERM, k)
                  else (0, upd_proc i (\<lambda>p. p\<lparr>p_uid := uid\<rparr>) k))"

definition sys_setgid :: "u32 \<Rightarrow> 'h kernel \<Rightarrow> u32 \<times> 'h kernel" where
  "sys_setgid gid k =
     (case current_proc k of
        None \<Rightarrow> (err ERR_EPERM, k)
      | Some i \<Rightarrow> if p_uid (procs k ! i) \<noteq> 0 \<and> gid \<noteq> p_gid (procs k ! i) then (err ERR_EPERM, k)
                  else (0, upd_proc i (\<lambda>p. p\<lparr>p_gid := gid\<rparr>) k))"

definition sys_brk :: "u32 \<Rightarrow> 'h kernel \<Rightarrow> u32 \<times> 'h kernel" where
  "sys_brk addr k =
     (if addr = 0 then (user_get_brk k, k)
      else case user_set_brk addr k of (ok, k) \<Rightarrow> (if ok then addr else user_get_brk k, k))"

definition sys_dup2 :: "'h env \<Rightarrow> u32 \<Rightarrow> u32 \<Rightarrow> 'h kernel \<Rightarrow> u32 \<times> 'h kernel" where
  "sys_dup2 E a b k =
     (case user_fd_dup2 (e_ports E) proc_notify_pipe (sint a) (sint b) k of (ok, k) \<Rightarrow> (if ok then b else err ERR_EBADF, k))"

section \<open>The rows\<close>

definition process_rows :: "'h env \<Rightarrow> 'h sys_row list" where
  "process_rows E = [
     ([1, 252], sys_exit),
     ([2, 190], \<lambda>r k. ret_try r (do_fork E r k)),
     ([120], \<lambda>r k. ret_try r (do_clone E r (r_ebx r) (r_ecx r) (r_edx r) (r_esi r) (r_edi r) k)),
     ([37], \<lambda>r k. ret r (do_kill (r_ebx r) (r_ecx r) k)),
     ([39], \<lambda>r k. ret_try r (do_mkdir E (r_ebx r) k)),
     ([40], \<lambda>r k. ret_try r (do_rmdir E (r_ebx r) k)),
     ([7, 114], \<lambda>r k. ret_frame (do_wait4 E r (r_ebx r) (r_ecx r) (r_edx r) k)),
     ([284], \<lambda>r k. ret_frame (do_waitid E r (r_ebx r) (r_ecx r) (r_edx r) (r_esi r) k)),
     ([11], \<lambda>r k. ret_frame (do_execve E r (r_ebx r) (r_ecx r) k)),
     ([3], \<lambda>r k. ret_frame (do_read E r (r_ebx r) (r_ecx r) (r_edx r) k)),
     ([4], \<lambda>r k. ret_try r (do_write E (r_ebx r) (r_ecx r) (r_edx r) k)),
     ([5], \<lambda>r k. ret_try r (do_open E (r_ebx r) (r_ecx r) (r_edx r) k)),
     ([6], \<lambda>r k. ret r (do_close E (r_ebx r) k))]"

definition socket_rows :: "'h env \<Rightarrow> 'h sys_row list" where
  "socket_rows E = [
     ([359], \<lambda>r k. ret r (do_socket E (sint (r_ebx r)) (sint (r_ecx r)) (sint (r_edx r)) k)),
     ([361], \<lambda>r k. ret_try r (do_bind E (r_ebx r) (r_ecx r) (r_edx r) k)),
     ([362], \<lambda>r k. ret_try r (do_connect E (r_ebx r) (r_ecx r) (r_edx r) k)),
     ([369], \<lambda>r k. ret_try r (do_sendto E (r_ebx r) (r_ecx r) (r_edx r) (r_edi r) (r_ebp r) k)),
     ([371], \<lambda>r k. ret_try r (do_recvfrom E (r_ebx r) (r_ecx r) (r_edx r) (r_edi r) (r_ebp r) k)),
     ([102], \<lambda>r k. ret_try r (do_socketcall E (r_ebx r) (r_ecx r) k)),
     ([363], \<lambda>r k. ret r (do_listen E (r_ebx r) k)),
     ([364], \<lambda>r k. ret r (do_accept E (r_ebx r) k)),
     ([373], const 0),
     ([366, 365], const 0),
     ([367], \<lambda>r k. ret_try r (do_getsockname E (r_ebx r) (r_ecx r) (r_edx r) k)),
     ([368], \<lambda>r k. ret_try r (do_getpeername E (r_ebx r) (r_ecx r) (r_edx r) k)),
     ([360, 370, 372], const (err ERR_ENOSYS))]"

definition name_rows :: "'h env \<Rightarrow> 'h sys_row list" where
  "name_rows E = [
     ([10], \<lambda>r k. ret_try r (do_unlink E (r_ebx r) k)),
     ([38], \<lambda>r k. ret_try r (do_rename E (r_ebx r) (r_ecx r) k)),
     ([295], \<lambda>r k. ret_try r (do_openat E (r_ebx r) (r_ecx r) (r_edx r) (r_esi r) k)),
     ([296], \<lambda>r k. ret_try r (do_mkdirat E (r_ebx r) (r_ecx r) k)),
     ([300], \<lambda>r k. ret_try r (do_fstatat E (r_ebx r) (r_ecx r) (r_edx r) (r_esi r) True k)),
     ([301], \<lambda>r k. ret_try r (do_unlinkat E (r_ebx r) (r_ecx r) (r_edx r) k)),
     ([302], \<lambda>r k. ret_try r (do_renameat E (r_ebx r) (r_ecx r) (r_edx r) (r_esi r) k)),
     ([305], \<lambda>r k. ret_try r (do_readlinkat (r_ebx r) (r_ecx r) k)),
     ([306], \<lambda>r k. ret_try r (do_fchmodat E (r_ebx r) (r_ecx r) (r_edx r) k)),
     ([307], \<lambda>r k. ret_try r (do_faccessat (r_ebx r) (r_ecx r) (r_edx r) k)),
     ([271], \<lambda>r k. ret_try r (do_utime_path E (r_ebx r) (- 1) (r_ecx r) False k)),
     ([299], \<lambda>r k. ret_try r (do_utime_path E (r_ecx r) (sint (r_ebx r)) (r_edx r) False k)),
     ([320], \<lambda>r k. ret_try r (do_utime_path E (r_ecx r) (sint (r_ebx r)) (r_edx r) True k)),
     ([19], \<lambda>r k. ret r (do_lseek (r_ebx r) (r_ecx r) (r_edx r) k)),
     ([140], \<lambda>r k. ret_try r (do_llseek (r_ebx r) (r_ecx r) (r_edx r) (r_esi r) (r_edi r) k)),
     ([12], \<lambda>r k. ret_try r (do_chdir (r_ebx r) k)),
     ([33], \<lambda>r k. ret_try r (do_access (r_ebx r) (r_ecx r) k)),
     ([15], \<lambda>r k. ret_try r (do_chmod E (r_ebx r) (r_ecx r) k)),
     ([94], \<lambda>r k. ret r (do_fchmod E (r_ebx r) (r_ecx r) k)),
     ([16, 182, 212, 198], \<lambda>r k. ret_try r (do_chown E (r_ebx r) (r_ecx r) (r_edx r) k)),
     ([95, 207], \<lambda>r k. ret r (do_fchown E (r_ebx r) (r_ecx r) (r_edx r) k)),
     ([298], \<lambda>r k. ret_try r (do_fchownat E (r_ebx r) (r_ecx r) (r_edx r) (r_esi r) (r_edi r) k)),
     ([85], \<lambda>r k. ret_try r (do_readlink (r_ebx r) k))]"

definition file_rows :: "'h env \<Rightarrow> 'h sys_row list" where
  "file_rows E = [
     ([43], \<lambda>r k. ret_try r (do_times (r_ebx r) k)),
     ([77], \<lambda>r k. ret_try r (do_getrusage (r_ebx r) (r_ecx r) k)),
     ([162], \<lambda>r k. ret_try r (do_nanosleep E (r_ebx r) (r_ecx r) k)),
     ([92], \<lambda>r k. ret_try r (do_truncate E (r_ebx r) (r_ecx r) k)),
     ([93], \<lambda>r k. ret r (do_ftruncate E (r_ebx r) (r_ecx r) k)),
     ([193], \<lambda>r k. ret_try r (do_truncate64 E (r_ebx r) (r_ecx r) (r_edx r) k)),
     ([194], \<lambda>r k. ret r (do_ftruncate64 E (r_ebx r) (r_ecx r) (r_edx r) k)),
     ([118, 144], \<lambda>r k. ret r (do_fsync E (r_ebx r) k)),
     ([36], \<lambda>r k. ret r (0, k_sync E k)),
     ([76, 191], \<lambda>r k. ret_try r (do_getrlimit (r_ebx r) (r_ecx r) k)),
     ([75], \<lambda>r k. ret r (do_setrlimit (r_ebx r) (r_ecx r), k)),
     ([340], \<lambda>r k. ret_try r (do_prlimit64 (r_ebx r) (r_ecx r) (r_edx r) (r_esi r) k)),
     ([183], \<lambda>r k. ret_try r (do_getcwd (r_ebx r) (r_ecx r) k)),
     ([141], \<lambda>r k. ret_try r (do_getdents (r_ebx r) (r_ecx r) (r_edx r) False k)),
     ([220], \<lambda>r k. ret_try r (do_getdents (r_ebx r) (r_ecx r) (r_edx r) True k)),
     ([106, 107], \<lambda>r k. ret_try r (do_stat E (r_ebx r) (r_ecx r) False k)),
     ([195, 196], \<lambda>r k. ret_try r (do_stat E (r_ebx r) (r_ecx r) True k)),
     ([108], \<lambda>r k. ret_try r (do_fstat E (r_ebx r) (r_ecx r) False k)),
     ([197], \<lambda>r k. ret_try r (do_fstat E (r_ebx r) (r_ecx r) True k)),
     ([55, 221], \<lambda>r k. ret r (do_fcntl E (r_ebx r) (r_ecx r) k)),
     ([99], \<lambda>r k. ret_try r (do_statfs_path (r_ebx r) (r_ecx r) False k)),
     ([268], \<lambda>r k. if r_ecx r \<noteq> STATFS64_SIZE then ret r (err ERR_EINVAL, k)
                   else ret_try r (do_statfs_path (r_ebx r) (r_edx r) True k)),
     ([100], \<lambda>r k. ret_try r (do_fstatfs (r_ebx r) (r_ecx r) False k)),
     ([269], \<lambda>r k. if r_ecx r \<noteq> STATFS64_SIZE then ret r (err ERR_EINVAL, k)
                   else ret_try r (do_fstatfs (r_ebx r) (r_edx r) True k)),
     ([116], \<lambda>r k. ret_try r (do_sysinfo (r_ebx r) k))]"

definition signal_rows :: "'h env \<Rightarrow> 'h sys_row list" where
  "signal_rows E = [
     ([48], \<lambda>r k. ret r (do_signal (r_ebx r) (r_ecx r) k)),
     ([67], \<lambda>r k. ret_try r (do_sigaction (r_ebx r) (r_ecx r) (r_edx r) False 4 k)),
     ([174], \<lambda>r k. ret_try r (do_sigaction (r_ebx r) (r_ecx r) (r_edx r) True (r_esi r) k)),
     ([126], \<lambda>r k. ret_try r (do_sigprocmask (r_ebx r) (r_ecx r) (r_edx r) k)),
     ([175], \<lambda>r k. if r_esi r \<noteq> 4 \<and> r_esi r \<noteq> 8 then ret r (err ERR_EINVAL, k)
                   else ret_try r (do_sigprocmask (r_ebx r) (r_ecx r) (r_edx r) k)),
     ([130], \<lambda>r k. ret_frame (do_sigsuspend E r (r_ebx r) k)),
     ([179], \<lambda>r k. ret_frame (do_sigsuspend E r (r_ebx r) k)),
     ([119, 173], \<lambda>r k. ret_frame (do_sigreturn r k)),
     ([27], \<lambda>r k. ret r (do_alarm (r_ebx r) k)),
     ([186, 60], const 0),
     ([80, 205], const 0),
     ([145], \<lambda>r k. ret_frame (do_readv E r (r_ebx r) (r_ecx r) (r_edx r) k)),
     ([146], \<lambda>r k. ret_try r (do_writev E (r_ebx r) (r_ecx r) (r_edx r) k)),
     ([13], \<lambda>r k. ret r (k_now E k)),
     ([78], \<lambda>r k. ret_try r (do_gettimeofday E (r_ebx r) (r_ecx r) k)),
     ([265], \<lambda>r k. ret_try r (do_clock_gettime E (r_ebx r) (r_ecx r) 8 k)),
     ([403], \<lambda>r k. ret_try r (do_clock_gettime E (r_ebx r) (r_ecx r) 16 k)),
     ([187, 239], \<lambda>r k. ret_try r (do_sendfile E (r_ebx r) (r_ecx r) (r_edx r) (r_esi r) k)),
     ([383], \<lambda>r k. ret_try r (do_statx E (r_ebx r) (r_ecx r) (r_edi r) k)),
     ([41], \<lambda>r k. ret r (do_dup E (r_ebx r) k))]"

definition identity_rows :: "'h env \<Rightarrow> 'h sys_row list" where
  "identity_rows E = [
     ([20, 64, 224], \<lambda>r k. ret r (if r_eax r = 64 then current_or 0 p_ppid k else current_or 1 p_pid k, k)),
     ([65, 66, 132, 147], \<lambda>r k. ret r (current_or 1 p_pid k, k)),
     ([57], const 0),
     ([24, 49, 199, 201], \<lambda>r k. ret r (current_or 0 p_uid k, k)),
     ([47, 50, 200, 202], \<lambda>r k. ret r (current_or 0 p_gid k, k)),
     ([23], \<lambda>r k. ret r (sys_setuid (r_ebx r) k)),
     ([46], \<lambda>r k. ret r (sys_setgid (r_ebx r) k)),
     ([54], const (err ERR_ENOTTY)),
     ([63], \<lambda>r k. ret r (sys_dup2 E (r_ebx r) (r_ecx r) k)),
     ([42, 331], \<lambda>r k. ret_try r (do_pipe E (r_ebx r) k)),
     ([168], \<lambda>r k. ret_frame (do_poll E r (r_ebx r) (r_ecx r) (r_edx r) k)),
     ([82, 142], \<lambda>r k. ret_try r (do_select (r_ebx r) (r_ecx r) (r_edx r) (r_esi r) (r_edi r) k)),
     ([308], \<lambda>r k. ret_frame (do_pselect6 E r (r_ebx r) (r_ecx r) (r_edx r) (r_esi r) (r_edi r) k)),
     ([309], \<lambda>r k. ret_frame (do_ppoll E r (r_ebx r) (r_ecx r) (r_edx r) k)),
     ([45], \<lambda>r k. ret r (sys_brk (r_ebx r) k)),
     ([90], \<lambda>r k. ret_try r (do_old_mmap (r_ebx r) k)),
     ([192], \<lambda>r k. ret_try r (do_mmap2 (r_ebx r) (r_ecx r) (r_esi r) (sint (r_edi r)) (r_ebp r) k)),
     ([91, 125], const 0),
     ([122], \<lambda>r k. ret_try r (do_uname (r_ebx r) k)),
     ([243], \<lambda>r k. ret_try r (do_set_thread_area (r_ebx r) k)),
     ([244], \<lambda>r k. ret_try r (do_get_thread_area (r_ebx r) k)),
     ([123], const (err ERR_ENOSYS)),
     ([258], const 1)]"

definition syscall_rows :: "'h env \<Rightarrow> 'h sys_row list" where
  "syscall_rows E = process_rows E @ socket_rows E @ name_rows E @ file_rows E @ signal_rows E @ identity_rows E"

definition dispatch :: "'h env \<Rightarrow> registers_t \<Rightarrow> 'h kernel \<Rightarrow> 'h sys_result" where
  "dispatch E r k =
     (case find (\<lambda>row. r_eax r \<in> set (fst row)) (syscall_rows E) of
        None \<Rightarrow> const (err ERR_ENOSYS) r k
      | Some row \<Rightarrow> snd row r k)"

definition syscall_handler :: "'h env \<Rightarrow> registers_t \<Rightarrow> 'h kernel \<Rightarrow> (registers_t, 'h kernel) flow option" where
  "syscall_handler E r k = do {
     res \<leftarrow> dispatch E r (proc_clear_frame_switched k);
     case res of
       Shell k \<Rightarrow> Some (Shell k)
     | Back (v, r) k \<Rightarrow> do {
         res \<leftarrow> proc_signal_deliver (if proc_frame_switched k then r else r\<lparr>r_eax := v\<rparr>) k;
         Some (case res of Back (_, r) k \<Rightarrow> Back r k | Shell k \<Rightarrow> Shell k) } }"

end
