(* ===== verification/Sys_Safety.thy ===== *)
theory Sys_Safety
  imports Syscall Sched
begin

text \<open>
  What holds of every system call: control returns to ring 3, and nobody gains the identity of root.
\<close>

declare drop_bit_and [simp del] drop_bit_or [simp del]

section \<open>Frames\<close>

text \<open>A handler that gets the frame gives back a frame of user code.\<close>

definition frame_safe :: "(u32 \<times> registers_t \<times> 'h kernel) option \<Rightarrow> bool" where
  "frame_safe x \<longleftrightarrow> (case x of None \<Rightarrow> True | Some (v, r, k) \<Rightarrow> user_frame r)"

lemma frame_safe_simps [simp]:
  "frame_safe None" "frame_safe (Some (v, r, k)) = user_frame r"
  by (simp_all add: frame_safe_def)

lemma frame_bind: "(\<And>x. m = Some x \<Longrightarrow> frame_safe (f x)) \<Longrightarrow> frame_safe (m \<bind> f)"
  by (cases m) auto

lemma frame_bind2: "(\<And>a b. m = Some (a, b) \<Longrightarrow> frame_safe (f a b)) \<Longrightarrow> frame_safe (m \<bind> (\<lambda>(a, b). f a b))"
  by (cases m) auto

lemma frame_bind3:
  "(\<And>a b c. m = Some (a, b, c) \<Longrightarrow> frame_safe (f a b c)) \<Longrightarrow> frame_safe (m \<bind> (\<lambda>(a, b, c). f a b c))"
  by (cases m) auto

lemma frame_if: "(c \<Longrightarrow> frame_safe x) \<Longrightarrow> (\<not> c \<Longrightarrow> frame_safe y) \<Longrightarrow> frame_safe (if c then x else y)"
  by simp

lemma frame_option: "(o' = None \<Longrightarrow> frame_safe a) \<Longrightarrow> (\<And>x. o' = Some x \<Longrightarrow> frame_safe (b x)) \<Longrightarrow>
    frame_safe (case o' of None \<Rightarrow> a | Some x \<Rightarrow> b x)"
  by (cases o') auto

lemma frame_sum: "(\<And>x. s = Inl x \<Longrightarrow> frame_safe (a x)) \<Longrightarrow> (\<And>x. s = Inr x \<Longrightarrow> frame_safe (b x)) \<Longrightarrow>
    frame_safe (case s of Inl x \<Rightarrow> a x | Inr x \<Rightarrow> b x)"
  by (cases s) auto

lemma frame_pair: "(\<And>a b. p = (a, b) \<Longrightarrow> frame_safe (f a b)) \<Longrightarrow> frame_safe (case p of (a, b) \<Rightarrow> f a b)"
  by (cases p) auto

lemma frame_some: "user_frame r \<Longrightarrow> frame_safe (Some (v, r, k))"
  by simp

lemmas frame_rules = frame_if frame_option frame_sum frame_bind3 frame_bind2 frame_bind frame_pair frame_some

lemma block_frame: "proc_block_current_ext r kind ptr len dl has fd k = Some (b, r', k') \<Longrightarrow> user_frame r \<Longrightarrow> user_frame r'"
  by (rule block_user)

lemma block_read_frame: "block_read r fd ub cnt k = Some (b, r', k') \<Longrightarrow> user_frame r \<Longrightarrow> user_frame r'"
  by (auto simp: block_read_def split: option.splits if_splits dest: block_frame)

lemma read_pipe_frame: "user_frame r \<Longrightarrow> frame_safe (read_pipe r fd ub cnt k)"
  unfolding read_pipe_def Let_def by (intro frame_rules; blast intro: block_read_frame)

lemma do_read_frame: "user_frame r \<Longrightarrow> frame_safe (do_read E r fd ub cnt k)"
proof -
  assume r: "user_frame r"
  have kd: "frame_safe (case x of USER_FD_FILE \<Rightarrow> a1 | USER_FD_VFILE \<Rightarrow> a2 | USER_FD_DEV_NULL \<Rightarrow> a3 | USER_FD_DEV_ZERO \<Rightarrow> a4
      | USER_FD_STDIN \<Rightarrow> a5 | USER_FD_DEV_CONSOLE \<Rightarrow> a6 | USER_FD_PIPE_READ \<Rightarrow> a7 | USER_FD_DEV_ATA \<Rightarrow> a8 | USER_FD_DIR \<Rightarrow> a9
      | _ \<Rightarrow> b)"
    if "frame_safe a1" "frame_safe a2" "frame_safe a3" "frame_safe a4" "frame_safe a5" "frame_safe a6" "frame_safe a7"
      "frame_safe a8" "frame_safe a9" "frame_safe b" for x and a1 a2 a3 a4 a5 a6 a7 a8 a9 b :: "(u32 \<times> registers_t \<times> 'h kernel) option"
    using that by (cases x) simp_all
  have con: "frame_safe (do {
      (blocked, r, k) \<leftarrow> (if keyboard_haschar k then Some (False, r, k) else block_read r fd ub cnt k);
      if blocked then Some (0, r, k) else do { (n, k) \<leftarrow> read_keyboard_char E ub k; Some (n, r, k) } })" for E :: "'h env" and k
    using r by (intro frame_rules) (auto split: if_splits dest: block_read_frame)
  show ?thesis unfolding do_read_def Let_def
    by (intro frame_if frame_option kd con frame_rules read_pipe_frame r)
qed

lemma readv_frame: "user_frame r \<Longrightarrow> frame_safe (readv_from n E r fd iov tot k)"
proof (induction n arbitrary: r iov tot k)
  case (Suc n)
  have d: "user_frame b" if "do_read E r fd x y k = Some (a, b, c)" for a b c x y
    using do_read_frame [OF Suc.prems, of E fd x y k] that by simp
  show ?case unfolding readv_from.simps by (intro frame_rules Suc.IH; rule d)
qed simp

lemma do_readv_frame: "user_frame r \<Longrightarrow> frame_safe (do_readv E r fd iov cnt k)"
  by (simp add: do_readv_def readv_frame)

lemma wait_block_frame: "user_frame r \<Longrightarrow> frame_safe (wait_block r kind want ptr opts k)"
  unfolding wait_block_def proc_block_current_def by (intro frame_rules; blast intro: block_frame)

lemma do_wait4_frame: "user_frame r \<Longrightarrow> frame_safe (do_wait4 E r p s opts k)"
  unfolding do_wait4_def Let_def by (intro frame_rules wait_block_frame)

lemma do_waitid_frame: "user_frame r \<Longrightarrow> frame_safe (do_waitid E r t p i opts k)"
  unfolding do_waitid_def Let_def by (intro frame_rules wait_block_frame)

lemma do_poll_frame: "user_frame r \<Longrightarrow> frame_safe (do_poll E r ptr nfds tmo k)"
  unfolding do_poll_def Let_def by (intro frame_rules; auto split: option.splits if_splits dest: block_frame)

lemma do_ppoll_frame: "user_frame r \<Longrightarrow> frame_safe (do_ppoll E r ptr nfds ts k)"
  unfolding do_ppoll_def by (intro frame_rules do_poll_frame)

lemma user_frame_eax [simp]: "user_frame (r\<lparr>r_eax := v\<rparr>) = user_frame r"
  by (simp add: user_frame_def)

lemma pselect_wait_frame: "pselect_wait E r nfds rp wp ep start ticks k = Some x \<Longrightarrow> user_frame r \<Longrightarrow> user_frame (fst (snd x))"
proof (induction rule: pselect_wait.raw_induct [rotated, consumes 1, case_names step])
  case (step rec E r nfds rp wp ep start ticks k y)
  from step(2,3) show ?case by (auto simp: bind_eq_Some_conv split: if_splits dest: step(1))
qed

lemma do_pselect6_frame: "user_frame r \<Longrightarrow> frame_safe (do_pselect6 E r nfds rp wp ep ts k)"
proof -
  assume r: "user_frame r"
  have w: "frame_safe (pselect_wait E r nfds rp wp ep s t k)" for s t k
    using pselect_wait_frame [OF _ r, of E nfds rp wp ep s t k]
    by (cases "pselect_wait E r nfds rp wp ep s t k") (auto simp: frame_safe_def split: prod.split)
  show ?thesis unfolding do_pselect6_def Let_def by (intro frame_rules w r)
qed

lemma do_sigsuspend_frame: "user_frame r \<Longrightarrow> frame_safe (do_sigsuspend E r m k)"
  unfolding do_sigsuspend_def Let_def by (intro frame_rules; blast intro: block_frame)

lemma do_sigreturn_frame: "user_frame r \<Longrightarrow> frame_safe (do_sigreturn r k)"
  by (auto simp: do_sigreturn_def proc_sigreturn_def Let_def restored_regs_user bind_eq_Some_conv intro!: frame_rules
      split: if_splits option.splits)

lemma do_execve_frame: "user_frame r \<Longrightarrow> frame_safe (do_execve E r p a k)"
  unfolding do_execve_def Let_def by (intro frame_rules) (simp_all add: user_frame_def)

lemmas frame_handlers = do_read_frame do_readv_frame do_wait4_frame do_waitid_frame do_poll_frame do_ppoll_frame
  do_pselect6_frame do_sigsuspend_frame do_sigreturn_frame do_execve_frame

definition row_safe :: "'h sys_row \<Rightarrow> bool" where
  "row_safe row \<longleftrightarrow> (\<forall>r k v r' k'. user_frame r \<longrightarrow> snd row r k = Some (Back (v, r') k') \<longrightarrow> user_frame r')"

lemma row_safe_ret: "row_safe (ns, \<lambda>r k. ret r (f r k))"
  "row_safe (ns, \<lambda>r k. ret_try r (g r k))" "row_safe (ns, const v)"
  "row_safe (ns, \<lambda>r k. if b r then ret r (f r k) else ret_try r (g r k))"
  by (auto simp: row_safe_def ret_defs split: option.splits prod.splits if_splits)

lemma row_safe_frame: "(\<And>r k. user_frame r \<Longrightarrow> frame_safe (f r k)) \<Longrightarrow> row_safe (ns, \<lambda>r k. ret_frame (f r k))"
  by (fastforce simp: row_safe_def ret_defs frame_safe_def split: option.splits prod.splits)

lemma row_safe_exit: "row_safe (ns, sys_exit)"
  using exit_user by (fastforce simp: row_safe_def sys_exit_def split: flow.splits)

lemmas row_safe_rules = row_safe_ret row_safe_exit row_safe_frame

lemma rows_safe: "row \<in> set (syscall_rows E) \<Longrightarrow> row_safe row"
proof -
  have "list_all row_safe (process_rows E)" "list_all row_safe (socket_rows E)" "list_all row_safe (name_rows E)"
    "list_all row_safe (file_rows E)" "list_all row_safe (signal_rows E)" "list_all row_safe (identity_rows E)"
    unfolding process_rows_def socket_rows_def name_rows_def file_rows_def signal_rows_def identity_rows_def
    by (intro list.pred_inject(1) list.pred_inject(2) [THEN iffD2] conjI row_safe_rules frame_handlers; assumption)+
  then show "row \<in> set (syscall_rows E) \<Longrightarrow> row_safe row" by (auto simp: syscall_rows_def list_all_iff)
qed

lemma dispatch_frame: "user_frame r \<Longrightarrow> dispatch E r k = Some (Back (v, r') k') \<Longrightarrow> user_frame r'"
  using rows_safe [of _ E]
  by (auto simp: dispatch_def const_def row_safe_def find_Some_iff split: option.splits) (metis nth_mem snd_conv)

lemma deliver_frame: "user_frame r \<Longrightarrow> proc_signal_deliver r k = Some (Back (c, r') k') \<Longrightarrow> user_frame r'"
  using deliver_user [of _ r k "Back (c, r') k'"]
  by (auto simp: proc_signal_deliver_def flow_user_def split: option.splits if_splits)

lemma syscall_frame:
  assumes "user_frame r" and "syscall_handler E r k = Some (Back r' k')"
  shows "user_frame r'"
proof (cases "dispatch E r (proc_clear_frame_switched k)")
  case (Some out)
  show ?thesis
  proof (cases out)
    case (Back vr k1)
    obtain v r1 where vr: "vr = (v, r1)" by force
    have r1: "user_frame r1" using dispatch_frame [OF assms(1)] Some Back vr by blast
    define r2 where "r2 = (if proc_frame_switched k1 then r1 else r1\<lparr>r_eax := v\<rparr>)"
    have "user_frame r2" using r1 by (simp add: r2_def)
    moreover from assms(2) obtain d where "proc_signal_deliver r2 k1 = Some d" "(case d of Back (_, r) k \<Rightarrow> Back r k | Shell k \<Rightarrow> Shell k) = Back r' k'"
      by (auto simp: syscall_handler_def Some Back vr r2_def bind_eq_Some_conv)
    ultimately show ?thesis by (cases d) (auto dest: deliver_frame)
  qed (use assms(2) Some in \<open>simp add: syscall_handler_def\<close>)
qed (use assms(2) in \<open>simp add: syscall_handler_def\<close>)

section \<open>The machine\<close>

text \<open>The handler \<^verbatim>\<open>src/kernel.c\<close> registers for the timer interrupt.\<close>

definition timer_handler :: "registers_t \<Rightarrow> 'h kernel \<Rightarrow> (registers_t, 'h kernel) flow option" where
  "timer_handler r k = proc_sched_tick r (proc_tick_all (k\<lparr>k_pit := pit_tick (k_pit k)\<rparr>))"

text \<open>
  A process runs until it traps.  Its code may change memory and its registers at will, but in ring 3
  without I/O privilege the processor lets it change neither the privilege bits of the flags nor the
  ring of its segments.  It enters the kernel by a call, a timer tick or an exception.
\<close>

definition user_code :: "registers_t \<Rightarrow> registers_t \<Rightarrow> bool" where
  "user_code r r' \<longleftrightarrow> r_cs r' AND 3 = r_cs r AND 3 \<and> r_ss r' AND 3 = r_ss r AND 3 \<and>
     (\<forall>b \<in> set [9, 12, 13]. bit (r_eflags r') b = bit (r_eflags r) b)"

inductive machine_step :: "'h env \<Rightarrow> registers_t \<times> 'h kernel \<Rightarrow> registers_t \<times> 'h kernel \<Rightarrow> bool" for E where
  Run: "user_code r r' \<Longrightarrow> machine_step E (r, k) (r', k\<lparr>k_mm := (k_mm k)\<lparr>pmem := m\<rparr>\<rparr>)"
| Call: "syscall_handler E r k = Some (Back r' k') \<Longrightarrow> machine_step E (r, k) (r', k')"
| Tick: "timer_handler r k = Some (Back r' k') \<Longrightarrow> machine_step E (r, k) (r', k')"
| Fault: "isr_handler cr2 r k = Iret r' k' \<Longrightarrow> machine_step E (r, k) (r', k')"

lemma machine_step_frame: "machine_step E s t \<Longrightarrow> user_frame (fst s) \<Longrightarrow> user_frame (fst t)"
  by (induction rule: machine_step.induct)
     (auto simp: user_code_def user_frame_def [of "_ :: registers_t"] timer_handler_def dest: syscall_frame [rotated] tick_user [rotated] isr_user [rotated])

text \<open>C0: whatever a process does, a run of its own code, system calls with any number and any arguments, timer ticks
  and exceptions, in any order, control returns to user mode only in ring 3, with interrupts enabled
  and without I/O privilege.\<close>

theorem machine_unprivileged:
  assumes "user_frame r" and "rtranclp (machine_step E) (r, k) (r', k')"
  shows "user_frame r'"
proof -
  have "user_frame (fst t)" if "rtranclp (machine_step E) s t" "user_frame (fst s)" for s t
    using that by (induction rule: rtranclp_induct) (auto dest: machine_step_frame)
  from this [OF assms(2)] show ?thesis using assms(1) by simp
qed

definition net_demo :: "'h net_ops" where
  "net_demo = \<lparr>net_socket_ok = \<lambda>_ _. False, net_socket = \<lambda>_ _ k. (- 1, k), net_bind = \<lambda>_ _ _ k. (- 1, k),
     net_connect = \<lambda>_ _ _ k. (- 1, k), net_listen = \<lambda>_ k. (- 1, k), net_accept = \<lambda>_ k. (- 1, k),
     net_sendto = \<lambda>_ _ _ _ k. (- 1, k), net_recvfrom = \<lambda>_ _ k. ((- 1, [], 0, 0), k), net_close = \<lambda>_ k. k,
     net_getsockname = \<lambda>_ _. (- 1, 0, 0), net_getpeername = \<lambda>_ _. (- 1, 0, 0)\<rparr>"

definition env_demo :: "drive env" where
  "env_demo = \<lparr>e_ports = drive_ports, e_idle = (\<lambda>k. k), e_net = net_demo, e_ld_mu = []\<rparr>"

definition call_demo :: "u32 \<Rightarrow> registers_t" where
  "call_demo n = frame_demo\<lparr>r_eax := n\<rparr>"

lemma getpid_row: "dispatch E (call_demo 20) k = Some (Back (current_or 1 p_pid k, call_demo 20) k)"
  by (simp add: dispatch_def syscall_rows_def process_rows_def socket_rows_def name_rows_def file_rows_def signal_rows_def
      identity_rows_def call_demo_def frame_demo_def ret_def)

lemma deliver_none:
  assumes "current_proc k = Some i" and "p_sig_pending (procs k ! i) = 0"
  shows "proc_signal_deliver r k = Some (Back (False, r) k)"
proof -
  have "next_signal (procs k ! i) = None" using assms(2) by (simp add: next_signal_def find_None_iff)
  then have "deliver_loop i r k = Some (Back (False, r) k)" by (subst deliver_loop.simps) simp
  then show ?thesis using assms(1) by (simp add: proc_signal_deliver_def)
qed

lemma getpid_demo: "\<exists>k'. syscall_handler env_demo (call_demo 20) kernel_demo = Some (Back (call_demo 2) k')"
proof -
  define k where "k = proc_clear_frame_switched kernel_demo"
  have k: "current_proc k = Some 1" "procs k = table_demo" "\<not> proc_frame_switched k"
    by (simp_all add: k_def proc_clear_frame_switched_def proc_frame_switched_def kernel_demo_simps)
  have t: "p_sig_pending (table_demo ! 1) = 0" "p_pid (table_demo ! 1) = 2" by (simp_all add: table_demo_def proc_demo_def zero_proc_def)
  have "syscall_handler env_demo (call_demo 20) kernel_demo = Some (Back (call_demo 20\<lparr>r_eax := 2\<rparr>) k)"
    using k t deliver_none [OF k(1), of "call_demo 20\<lparr>r_eax := 2\<rparr>"]
    by (simp add: syscall_handler_def getpid_row flip: k_def) (simp add: current_or_def)
  then show ?thesis by (simp add: call_demo_def)
qed

theorem machine_unprivileged_witness:
  "\<exists>k'. rtranclp (machine_step env_demo) (call_demo 20, kernel_demo) (call_demo 2, k') \<and> user_frame (call_demo 2)"
proof -
  obtain k' where "syscall_handler env_demo (call_demo 20) kernel_demo = Some (Back (call_demo 2) k')" using getpid_demo by blast
  then have run: "rtranclp (machine_step env_demo) (call_demo 20, kernel_demo) (call_demo 2, k')"
    by (intro r_into_rtranclp machine_step.Call)
  have "user_frame (call_demo 20)" using frame_demo_user by (simp add: call_demo_def)
  from machine_unprivileged [OF this run] run show ?thesis by blast
qed

end
