(* ===== verification/Sys_Identity.thy ===== *)
theory Sys_Identity
  imports Sys_Safety
begin

text \<open>
  Who the processes are, and which operations of the kernel leave that alone: the calls on files, names,
  memory, sockets, time and signals, and the loading of a program.
\<close>

declare drop_bit_and [simp del] drop_bit_or [simp del]

section \<open>Identities\<close>

definition ids :: "'h kernel \<Rightarrow> (bool \<times> u32 \<times> u32 \<times> bool) list \<times> nat option" where
  "ids k = (map (\<lambda>p. (p_used p, p_pid p, p_uid p, p_state p = PROC_ZOMBIE)) (procs k), current_proc k)"

text \<open>
  No process but the shell is root, save those in \<open>X\<close>, which are being created; the shell is not a
  zombie, and neither is the running process.
\<close>

type_synonym id_table = "(bool \<times> u32 \<times> u32 \<times> bool) list"

definition table_ok :: "nat set \<Rightarrow> id_table \<Rightarrow> bool" where
  "table_ok X l \<longleftrightarrow> length l = PROC_MAX \<and>
     (\<forall>j < length l. case l ! j of (u, pid, uid, z) \<Rightarrow> u \<longrightarrow> (if pid = 1 then \<not> z else j \<in> X \<or> uid \<noteq> 0))"

definition running_ok :: "id_table \<Rightarrow> nat option \<Rightarrow> bool" where
  "running_ok l c \<longleftrightarrow> (\<forall>i. c = Some i \<longrightarrow> i < length l \<and> (case l ! i of (u, pid, uid, z) \<Rightarrow> u \<and> \<not> z))"

text \<open>A property of the identities, as a property of states.\<close>

definition idp :: "(id_table \<times> nat option \<Rightarrow> bool) \<Rightarrow> 'h kernel \<Rightarrow> bool" where
  "idp Q k \<longleftrightarrow> Q (ids k)"

definition ids_ok :: "nat set \<Rightarrow> id_table \<times> nat option \<Rightarrow> bool" where
  "ids_ok X t \<longleftrightarrow> table_ok X (fst t) \<and> running_ok (fst t) (snd t)"

lemma ids_same: "procs k' = procs k \<Longrightarrow> current_proc k' = current_proc k \<Longrightarrow> ids k' = ids k"
  by (simp add: ids_def)

lemma ids_nth:
  assumes "ids k' = ids k"
  shows "length (procs k') = length (procs k)" "current_proc k' = current_proc k"
    "i < length (procs k) \<Longrightarrow> p_used (procs k' ! i) = p_used (procs k ! i) \<and> p_pid (procs k' ! i) = p_pid (procs k ! i) \<and>
       p_uid (procs k' ! i) = p_uid (procs k ! i) \<and> (p_state (procs k' ! i) = PROC_ZOMBIE) = (p_state (procs k ! i) = PROC_ZOMBIE)"
proof -
  have m: "map (\<lambda>p. (p_used p, p_pid p, p_uid p, p_state p = PROC_ZOMBIE)) (procs k') =
      map (\<lambda>p. (p_used p, p_pid p, p_uid p, p_state p = PROC_ZOMBIE)) (procs k)"
    and c: "current_proc k' = current_proc k" using assms by (simp_all add: ids_def)
  show l: "length (procs k') = length (procs k)" by (rule map_eq_imp_length_eq [OF m])
  show "current_proc k' = current_proc k" by (rule c)
  show "i < length (procs k) \<Longrightarrow> p_used (procs k' ! i) = p_used (procs k ! i) \<and> p_pid (procs k' ! i) = p_pid (procs k ! i) \<and>
       p_uid (procs k' ! i) = p_uid (procs k ! i) \<and> (p_state (procs k' ! i) = PROC_ZOMBIE) = (p_state (procs k ! i) = PROC_ZOMBIE)"
    using arg_cong [OF m, of "\<lambda>xs. xs ! i"] l by simp
qed

named_theorems ids_keep

lemma ids_record [ids_keep]:
  "ids (k\<lparr>k_mm := m\<rparr>) = ids k" "ids (k\<lparr>k_fs := f\<rparr>) = ids k" "ids (k\<lparr>k_pit := t\<rparr>) = ids k" "ids (k\<lparr>k_seg := s\<rparr>) = ids k"
  "ids (k\<lparr>console := c\<rparr>) = ids k" "ids (k\<lparr>user_fds := u\<rparr>) = ids k" "ids (k\<lparr>cwd_path := w\<rparr>) = ids k"
  "ids (k\<lparr>u_active := b\<rparr>) = ids k" "ids (k\<lparr>u_faulted := b\<rparr>) = ids k" "ids (k\<lparr>u_exit_code := x\<rparr>) = ids k"
  "ids (k\<lparr>brk_base := a\<rparr>) = ids k" "ids (k\<lparr>brk_current := a\<rparr>) = ids k" "ids (k\<lparr>esp_save := a\<rparr>) = ids k"
  "ids (k\<lparr>next_pid := a\<rparr>) = ids k" "ids (k\<lparr>frame_switched := b\<rparr>) = ids k" "ids (k\<lparr>spaces := sp\<rparr>) = ids k"
  "ids (k\<lparr>fdstates := fs\<rparr>) = ids k" "ids (k\<lparr>pipes := ps\<rparr>) = ids k" "ids (k\<lparr>kbd_tail := h\<rparr>) = ids k" "ids (k\<lparr>kbd_head := h\<rparr>) = ids k"
  "ids (k\<lparr>kbd_buffer := kb\<rparr>) = ids k" "ids (k\<lparr>lshift := b\<rparr>) = ids k" "ids (k\<lparr>rshift := b\<rparr>) = ids k" "ids (k\<lparr>lctrl := b\<rparr>) = ids k"
  "ids (k\<lparr>rctrl := b\<rparr>) = ids k" "ids (k\<lparr>lalt := b\<rparr>) = ids k" "ids (k\<lparr>ralt := b\<rparr>) = ids k" "ids (k\<lparr>capslock := b\<rparr>) = ids k"
  "ids (k\<lparr>extended := b\<rparr>) = ids k" "ids (k\<lparr>mouse := mo\<rparr>) = ids k"
  by (simp_all add: ids_def)

lemma ids_upd [ids_keep]:
  assumes "\<And>p. p_used (f p) = p_used p" "\<And>p. p_pid (f p) = p_pid p" "\<And>p. p_uid (f p) = p_uid p"
    and "\<And>p. (p_state (f p) = PROC_ZOMBIE) = (p_state p = PROC_ZOMBIE)"
  shows "ids (upd_proc i f k) = ids k"
proof -
  have "map (\<lambda>p. (p_used p, p_pid p, p_uid p, p_state p = PROC_ZOMBIE)) ((procs k)[i := f (procs k ! i)]) =
      map (\<lambda>p. (p_used p, p_pid p, p_uid p, p_state p = PROC_ZOMBIE)) (procs k)"
    using assms by (cases "i < length (procs k)") (simp_all add: map_update list_update_same_conv list_update_beyond)
  then show ?thesis by (simp add: ids_def upd_proc_def)
qed

lemma ids_wake: "wake_frame k k' \<Longrightarrow> ids k' = ids k"
proof -
  assume w: "wake_frame k k'"
  then have "k'\<lparr>k_mm := k_mm k, procs := procs k, pipes := pipes k, kbd_tail := kbd_tail k\<rparr> = k" by (simp add: wake_frame_def)
  from arg_cong [OF this, of current_proc] have c: "current_proc k' = current_proc k" by simp
  have "map (\<lambda>p. (p_used p, p_pid p, p_uid p, p_state p = PROC_ZOMBIE)) (procs k') ! i =
      map (\<lambda>p. (p_used p, p_pid p, p_uid p, p_state p = PROC_ZOMBIE)) (procs k) ! i" if "i < length (procs k)" for i
  proof -
    have l: "length (procs k') = length (procs k)" using wake_frame_len [OF w] by simp
    have eq: "sleepless (procs k' ! i) = sleepless (procs k ! i)" and st: "p_state (procs k' ! i) = p_state (procs k ! i) \<or>
        p_state (procs k ! i) = PROC_BLOCKED \<and> p_state (procs k' ! i) = PROC_READY"
      using wake_frame_proc [OF w that] by (simp_all add: woken_def)
    have "p_used (procs k' ! i) = p_used (procs k ! i)" using arg_cong [OF eq, of p_used] by (simp add: sleepless_def)
    moreover have "p_pid (procs k' ! i) = p_pid (procs k ! i)" using arg_cong [OF eq, of p_pid] by (simp add: sleepless_def)
    moreover have "p_uid (procs k' ! i) = p_uid (procs k ! i)" using arg_cong [OF eq, of p_uid] by (simp add: sleepless_def)
    ultimately show ?thesis using that l st by auto
  qed
  then have "map (\<lambda>p. (p_used p, p_pid p, p_uid p, p_state p = PROC_ZOMBIE)) (procs k') =
      map (\<lambda>p. (p_used p, p_pid p, p_uid p, p_state p = PROC_ZOMBIE)) (procs k)"
    using wake_frame_len [OF w] by (intro nth_equalityI) auto
  then show ?thesis using c by (simp add: ids_def)
qed

lemma ids_notify [ids_keep]: "ids (proc_notify_pipe pd k) = ids k"
  by (rule ids_wake) (simp add: notify_frames [unfolded frames_def])

lemma ids_notify_console [ids_keep]: "ids (proc_notify_console k) = ids k"
  unfolding proc_notify_console_def by (rule ids_wake, rule wake_frame_trans [OF wake_pollers_frame wake_readers_frame [OF notify_frames]])

section \<open>Operations that leave identities alone\<close>

lemma ids_fold: "(\<And>x k. ids (f x k) = ids k) \<Longrightarrow> ids (fold f xs k) = ids k"
  by (induction xs arbitrary: k) simp_all

lemma ids_basic [ids_keep]:
  "ids (mm_upd f k) = ids k" "ids (snd (mm_call g k)) = ids k" "ids (phys_upd h k) = ids k" "ids (set_fd i e k) = ids k"
  "ids (fs_upd u k) = ids k" "ids (snd (fs_call v k)) = ids k" "ids (put_console bs k) = ids k" "ids (set_hw hw k) = ids k"
  "ids (user_set_active b k) = ids k" "ids (seg_upd w k) = ids k" "ids (set_space a sp k) = ids k" "ids (set_fdstate a fs k) = ids k"
  "ids (user_fd_state_save a k) = ids k" "ids (user_fd_state_restore a k) = ids k" "ids (k_sync E k) = ids k"
  "ids (set_times E slot a1 a2 k) = ids k" "ids (start_brk a k) = ids k" "ids (proc_clear_frame_switched k) = ids k"
  "ids (write_sig_trampoline a k) = ids k"
  by (simp_all add: mm_upd_def mm_call_def phys_upd_def set_fd_def fs_upd_def fs_call_def put_console_def set_hw_def
      user_set_active_def seg_upd_def set_space_def set_fdstate_def user_fd_state_save_def user_fd_state_restore_def k_sync_def
      set_times_def start_brk_def proc_clear_frame_switched_def write_sig_trampoline_def Let_def split_beta ids_record)

lemma ids_settings [ids_keep]:
  "ids (snd (user_cwd_set w k)) = ids k" "ids (snd (user_restore_brk_state a b k)) = ids k" "ids (snd (user_set_brk a k)) = ids k"
  "ids (snd (k_now E k)) = ids k" "ids (snd (ata_write_call E a bs b k)) = ids k" "ids (snd (proc_detach_current k)) = ids k"
  "ids (snd (proc_user_ptr i a k)) = ids k" "ids (proc_write_user_u32 i a b k) = ids k" "ids (proc_record_tls k) = ids k"
  "ids (proc_switch_space oi k) = ids k"
  by (simp_all add: user_cwd_set_def user_restore_brk_state_def user_set_brk_def k_now_def ata_write_call_def proc_detach_current_def
      proc_user_ptr_def proc_write_user_u32_def proc_record_tls_def proc_switch_space_def Let_def split_beta ids_keep split: option.split)

lemma ids_pipe [ids_keep]:
  "ids (pipe_writer_add proc_notify_pipe pd d k) = ids k" "ids (snd (pipe_create k)) = ids k"
  "ids (snd (pipe_write proc_notify_pipe pd bs k)) = ids k" "ids (snd (snd (pipe_read (\<lambda>_ k. k) pd n k))) = ids k"
  by (simp_all add: pipe_writer_add_def pipe_create_def pipe_write_def pipe_read_def Let_def split_beta ids_keep split: option.split)

lemma ids_entry_ref [ids_keep]: "ids (fd_entry_ref P proc_notify_pipe d e k) = ids k"
  by (simp add: fd_entry_ref_def ids_keep)

lemma ids_fd_alloc_kind [ids_keep]: "ids (snd (fd_alloc_kind kd k)) = ids k"
  by (simp add: fd_alloc_kind_def ids_keep split: option.split)

lemma ids_alloc_pair: "fd_alloc_kind kd k = (x, k') \<Longrightarrow> ids k' = ids k"
  using ids_fd_alloc_kind [of kd k] by simp

lemma ids_fds [ids_keep]:
  "ids (snd (user_fd_alloc slot k)) = ids k" "ids (snd (user_fd_alloc_dir path k)) = ids k" "ids (snd (user_fd_alloc_dev kd k)) = ids k"
  "ids (snd (user_fd_alloc_vfile bs n k)) = ids k" "ids (snd (user_fd_alloc_pipe proc_notify_pipe pd w k)) = ids k"
  "ids (snd (user_fd_dup P proc_notify_pipe fd k)) = ids k" "ids (snd (user_fd_dup2 P proc_notify_pipe fd fd' k)) = ids k"
  "ids (snd (user_fd_set_offset fd off k)) = ids k" "ids (user_fd_close P proc_notify_pipe fd k) = ids k"
  by (auto simp: user_fd_alloc_def user_fd_alloc_dir_def user_fd_alloc_dev_def user_fd_alloc_vfile_def user_fd_alloc_pipe_def
      user_fd_dup_def user_fd_dup2_def user_fd_set_offset_def user_fd_close_def Let_def ids_keep split: option.split prod.split
      dest: ids_alloc_pair)

lemma ids_state_refs [ids_keep]:
  "ids (user_fd_state_retain P proc_notify_pipe st k) = ids k" "ids (user_fd_state_release P proc_notify_pipe st k) = ids k"
  by (simp_all add: user_fd_state_retain_def user_fd_state_release_def ids_fold ids_entry_ref)

lemma ids_save [ids_keep]:
  "ids (proc_save_ctx i r k) = ids k" "ids (proc_save_state i k) = ids k" "ids (proc_signal_reset i k) = ids k"
  "ids (proc_signal_inherit i j k) = ids k" "ids (inherit_live i k) = ids k"
  by (simp_all add: proc_save_ctx_def save_ctx_def proc_save_state_def proc_signal_reset_def proc_signal_inherit_def inherit_live_def
      user_get_brk_state_def gdt_get_user_tls_def Let_def split_beta ids_keep)

lemma ids_files [ids_keep]:
  "ids (snd (vfs_vfile_text P v pid n k)) = ids k" "ids (snd (vfs_vfile_size P v pid k)) = ids k"
  "ids (snd (write_file E fd bs cnt k)) = ids k" "ids (snd (write_pipe fd bs k)) = ids k" "ids (snd (kbuf_write E fd' bs k)) = ids k"
  by (auto simp: vfs_vfile_text_def vfs_vfile_size_def write_file_def write_pipe_def kbuf_write_def Let_def split_beta ids_keep
      split: option.split user_fd_kind_t.split)

lemma ids_map: "(\<And>p. p_used (f p) = p_used p \<and> p_pid (f p) = p_pid p \<and> p_uid (f p) = p_uid p \<and>
    (p_state (f p) = PROC_ZOMBIE) = (p_state p = PROC_ZOMBIE)) \<Longrightarrow> ids (k\<lparr>procs := map f (procs k)\<rparr>) = ids k"
  by (simp add: ids_def)

lemma ids_broadcast: "ids (k\<lparr>procs := map (broadcast_one b) (procs k)\<rparr>) = ids k"
  by (rule ids_map) (auto simp: broadcast_one_def raise_sig_def Let_def)

lemma interrupt_wait_keep:
  "p_used (interrupt_wait p) = p_used p" "p_pid (interrupt_wait p) = p_pid p" "p_uid (interrupt_wait p) = p_uid p"
  "(p_state (interrupt_wait p) = PROC_ZOMBIE) = (p_state p = PROC_ZOMBIE)"
  by (auto simp: interrupt_wait_def)

lemma raise_sig_keep:
  "p_used (raise_sig b p) = p_used p" "p_pid (raise_sig b p) = p_pid p" "p_uid (raise_sig b p) = p_uid p" "p_state (raise_sig b p) = p_state p"
  by (auto simp: raise_sig_def)

lemma ids_signals [ids_keep]:
  "ids (snd (proc_signal_send pid sig k)) = ids k" "ids (snd (proc_signal_set_action i sig h fl rs k)) = ids k"
  by (auto simp: proc_signal_send_def proc_signal_set_action_def Let_def ids_keep ids_broadcast interrupt_wait_keep raise_sig_keep
      split: option.split)

lemma ring_alarm_keep:
  "p_used (ring_alarm t p) = p_used p" "p_pid (ring_alarm t p) = p_pid p" "p_uid (ring_alarm t p) = p_uid p"
  "(p_state (ring_alarm t p) = PROC_ZOMBIE) = (p_state p = PROC_ZOMBIE)"
  by (auto simp: ring_alarm_def Let_def interrupt_wait_keep raise_sig_keep)

lemma expire_entry_frame: "wake_frame k (expire_entry i n k)"
  using wake_frame_ptr [of k i] wake_frame_trans [OF wake_frame_ptr [of k i] wake_frame_phys]
  by (simp add: expire_entry_def split_beta)

lemma ids_poll_expire: "p_state (procs k ! i) = PROC_BLOCKED \<Longrightarrow> ids (proc_poll_expire i k) = ids k"
  unfolding proc_poll_expire_def by (intro ids_wake poll_finish_frame fold_frame expire_entry_frame)

lemma ids_tick_all [ids_keep]: "ids (proc_tick_all k) = ids k"
  unfolding proc_tick_all_def
  by (rule ids_fold) (auto simp: tick_one_def Let_def ids_keep ring_alarm_keep ids_poll_expire)

section \<open>Calls that always return\<close>

lemma snd_ret [simp]:
  "snd (fd_ret x) = snd x" "snd (zero_or e x) = snd x" "snd (eperm_if_neg x) = snd x" "snd (einval_unless0 x) = snd x"
  by (simp_all add: fd_ret_def zero_or_def eperm_if_neg_def einval_unless0_def split_beta)

lemma ids_open [ids_keep]: "ids (snd (do_open_buf E path fl mode k)) = ids k"
  by (auto simp: do_open_buf_def open_new_def Let_def split_beta ids_keep split: vfs_type.split)

lemma ids_dup [ids_keep]: "ids (snd (do_dup E fd k)) = ids k"
  by (simp add: do_dup_def ids_keep)

lemma ids_names [ids_keep]:
  "ids (snd (do_mkdir_buf E path k)) = ids k" "ids (snd (do_rmdir_buf E path k)) = ids k" "ids (snd (do_unlink_buf E path k)) = ids k"
  "ids (snd (do_rename_bufs E path path' k)) = ids k" "ids (snd (do_chmod_buf E path mode k)) = ids k"
  by (auto simp: do_mkdir_buf_def do_rmdir_buf_def do_unlink_buf_def do_rename_bufs_def rename_dir_to_def rename_file_to_def
      do_chmod_buf_def Let_def split_beta ids_keep split: vfs_type.split option.split)

lemma ids_attributes [ids_keep]:
  "ids (snd (do_fchmod E fd mode k)) = ids k" "ids (snd (do_fchown E fd uid gid k)) = ids k" "ids (snd (do_ftruncate E fd len k)) = ids k"
  "ids (snd (do_ftruncate64 E fd lo hi k)) = ids k" "ids (snd (do_fsync E fd k)) = ids k" "ids (snd (do_lseek fd off wh k)) = ids k"
  "ids (snd (do_fcntl E fd cmd k)) = ids k" "ids (snd (sys_brk a k)) = ids k" "ids (snd (sys_dup2 E fd fd' k)) = ids k"
  by (auto simp: do_fchmod_def do_fchown_def do_ftruncate_def do_ftruncate64_def do_fsync_def do_lseek_def do_fcntl_def sys_brk_def
      sys_dup2_def Let_def split_beta ids_keep split: option.split user_fd_kind_t.split)

lemma ids_signal_calls [ids_keep]:
  "ids (snd (do_kill pid sig k)) = ids k" "ids (snd (do_signal sg h k)) = ids k" "ids (snd (do_alarm sec k)) = ids k"
  "ids (snd (sys_setgid gid k)) = ids k"
  by (auto simp: do_kill_def do_signal_def do_alarm_def sys_setgid_def Let_def split_beta ids_keep split: option.split)

section \<open>Results\<close>

text \<open>Every state a computation can end in satisfies \<open>P\<close>; \<open>g\<close> picks the state out of the result.\<close>

definition ok :: "('h kernel \<Rightarrow> bool) \<Rightarrow> ('a \<Rightarrow> 'h kernel) \<Rightarrow> 'a option \<Rightarrow> bool" where
  "ok P g m \<longleftrightarrow> (\<forall>x. m = Some x \<longrightarrow> P (g x))"

lemma ok_some: "P (g x) \<Longrightarrow> ok P g (Some x)"
  by (simp add: ok_def)

lemma ok_none: "ok P g None"
  by (simp add: ok_def)

lemma ok_if: "(c \<Longrightarrow> ok P g x) \<Longrightarrow> (\<not> c \<Longrightarrow> ok P g y) \<Longrightarrow> ok P g (if c then x else y)"
  by simp

lemma ok_option: "(o' = None \<Longrightarrow> ok P g a) \<Longrightarrow> (\<And>x. o' = Some x \<Longrightarrow> ok P g (b x)) \<Longrightarrow>
    ok P g (case o' of None \<Rightarrow> a | Some x \<Rightarrow> b x)"
  by (cases o') auto

lemma ok_sum: "(\<And>x. s = Inl x \<Longrightarrow> ok P g (a x)) \<Longrightarrow> (\<And>x. s = Inr x \<Longrightarrow> ok P g (b x)) \<Longrightarrow>
    ok P g (case s of Inl x \<Rightarrow> a x | Inr x \<Rightarrow> b x)"
  by (cases s) auto

lemma ok_pair: "(\<And>a b. p = (a, b) \<Longrightarrow> ok P g (f a b)) \<Longrightarrow> ok P g (case p of (a, b) \<Rightarrow> f a b)"
  by (cases p) auto

lemma ok_state_pair: "P (snd p) \<Longrightarrow> (\<And>a k. P k \<Longrightarrow> ok P g (f a k)) \<Longrightarrow> ok P g (case p of (a, k) \<Rightarrow> f a k)"
  by (cases p) auto

lemma ok_bind1: "ok P (\<lambda>k. k) m \<Longrightarrow> (\<And>k. P k \<Longrightarrow> ok P g (f k)) \<Longrightarrow> ok P g (m \<bind> f)"
  by (cases m) (auto simp: ok_def)

lemma ok_bind2: "ok P snd m \<Longrightarrow> (\<And>a k. P k \<Longrightarrow> ok P g (f a k)) \<Longrightarrow> ok P g (m \<bind> (\<lambda>(a, k). f a k))"
  by (cases m) (auto simp: ok_def)

lemma ok_bind3: "ok P (\<lambda>x. snd (snd x)) m \<Longrightarrow> (\<And>a b k. P k \<Longrightarrow> ok P g (f a b k)) \<Longrightarrow> ok P g (m \<bind> (\<lambda>(a, b, k). f a b k))"
  by (cases m) (auto simp: ok_def)

lemma ok_pure: "(\<And>x. m = Some x \<Longrightarrow> ok P g (f x)) \<Longrightarrow> ok P g (m \<bind> f)"
  by (cases m) (auto simp: ok_def)

text \<open>Reads of the caller's memory, which leave the state alone.\<close>

lemma ok_reads:
  "(\<And>x. ok P g (f1 x)) \<Longrightarrow> ok P g ((m1 :: u32 option) \<bind> f1)"
  "(\<And>x. ok P g (f2 x)) \<Longrightarrow> ok P g ((m2 :: u8 list option) \<bind> f2)"
  "(\<And>x. ok P g (f3 x)) \<Longrightarrow> ok P g ((m3 :: u32 list option) \<bind> f3)"
  "(\<And>x. ok P g (f4 x)) \<Longrightarrow> ok P g ((m4 :: u8 list option option) \<bind> f4)"
  "(\<And>x. ok P g (f5 x)) \<Longrightarrow> ok P g ((m5 :: (u32 + u8 list) option) \<bind> f5)"
  "(\<And>x. ok P g (f6 x)) \<Longrightarrow> ok P g ((m6 :: bool option) \<bind> f6)"
  "(\<And>x. ok P g (f7 x)) \<Longrightarrow> ok P g ((m7 :: (u32 \<times> u16) option option) \<bind> f7)"
  "(\<And>x. ok P g (f8 x)) \<Longrightarrow> ok P g ((m8 :: u8 list list option option) \<bind> f8)"
  "(\<And>x. ok P g (f9 x)) \<Longrightarrow> ok P g ((m9 :: u32 option option) \<bind> f9)"
  "(\<And>x. ok P g (f10 x)) \<Longrightarrow> ok P g ((m10 :: (u32 \<Rightarrow> u32) option option) \<bind> f10)"
  by (rule ok_pure, blast)+

text \<open>Pairs without a state, and states behind results.\<close>

lemma ok_pairs:
  "(\<And>a b. ok P g (f1 a b)) \<Longrightarrow> ok P g (case (p1 :: u32 \<times> vfs_ent_t) of (a, b) \<Rightarrow> f1 a b)"
  "(\<And>a b. ok P g (f2 a b)) \<Longrightarrow> ok P g (case (p2 :: u32 \<times> u32) of (a, b) \<Rightarrow> f2 a b)"
  "(\<And>a b c. ok P g (f3 a b c)) \<Longrightarrow> ok P g (case (p3 :: u32 \<times> u32 \<times> u32) of (a, b, c) \<Rightarrow> f3 a b c)"
  "(\<And>a b. ok P g (f4 a b)) \<Longrightarrow> ok P g (case (p4 :: int \<times> u8 list) of (a, b) \<Rightarrow> f4 a b)"
  "(\<And>a b c d. ok P g (f5 a b c d)) \<Longrightarrow> ok P g (case (p5 :: int \<times> u8 list \<times> u32 \<times> u16) of (a, b, c, d) \<Rightarrow> f5 a b c d)"
  "(\<And>a b. ok P g (f6 a b)) \<Longrightarrow> ok P g (case (p6 :: u32 \<times> u16) of (a, b) \<Rightarrow> f6 a b)"
  "(\<And>a b c. ok P g (f7 a b c)) \<Longrightarrow> ok P g (case (p7 :: int \<times> u32 \<times> u16) of (a, b, c) \<Rightarrow> f7 a b c)"
  "(\<And>a b. ok P g (f8 a b)) \<Longrightarrow> ok P g (case (p8 :: u32 \<times> u8 list option) of (a, b) \<Rightarrow> f8 a b)"
  "(\<And>a b c. ok P g (f9 a b c)) \<Longrightarrow> ok P g (case (p9 :: u8 list \<times> u32 \<times> u8) of (a, b, c) \<Rightarrow> f9 a b c)"
  "(\<And>a b. ok P g (f10 a b)) \<Longrightarrow> ok P g (case (p10 :: u32 \<times> (u32 \<times> u32) option) of (a, b) \<Rightarrow> f10 a b)"
  "(\<And>a b. ok P g (f11 a b)) \<Longrightarrow> ok P g (case (p11 :: int \<times> u32) of (a, b) \<Rightarrow> f11 a b)"
  "(\<And>a b. ok P g (f12 a b)) \<Longrightarrow> ok P g (case (p12 :: elf32_load_info_t \<times> u32) of (a, b) \<Rightarrow> f12 a b)"
  "(\<And>a b c. ok P g (f13 a b c)) \<Longrightarrow> ok P g (case (p13 :: elf32_load_info_t \<times> u32 \<times> u32) of (a, b, c) \<Rightarrow> f13 a b c)"
  by (auto simp: split_beta)

lemma ok_state_triple: "P (snd (snd p)) \<Longrightarrow> (\<And>a b k. P k \<Longrightarrow> ok P g (f a b k)) \<Longrightarrow> ok P g (case p of (a, b, k) \<Rightarrow> f a b k)"
  by (cases p) auto

lemmas ok_rules = ok_state_triple ok_state_pair ok_pairs ok_if ok_option ok_sum ok_reads ok_bind3 ok_bind2 ok_bind1 ok_some ok_none

lemma ids_adopt [ids_keep]: "ids (adopt_space i a sp k) = ids k"
  by (simp add: adopt_space_def ids_keep)

lemma idp_cong: "ids k' = ids k \<Longrightarrow> idp Q k' = idp Q k"
  by (simp add: idp_def)

lemma ok_ids1: "(\<And>k'. m = Some k' \<Longrightarrow> ids k' = ids k) \<Longrightarrow> idp Q k \<Longrightarrow> ok (idp Q) (\<lambda>k. k) m"
  by (auto simp: ok_def idp_def)

lemma ok_ids2: "(\<And>a k'. m = Some (a, k') \<Longrightarrow> ids k' = ids k) \<Longrightarrow> idp Q k \<Longrightarrow> ok (idp Q) snd m"
  by (auto simp: ok_def idp_def)

lemmas idp_keep = ids_keep [THEN idp_cong]

named_theorems ok_keep

section \<open>Memory\<close>

lemma mm_try_ids: "mm_try f k = Some (a, k') \<Longrightarrow> ids k' = ids k"
  by (auto simp: mm_try_def ids_record split: option.splits)

lemma mm_free_try_ids: "mm_free_try f k = Some k' \<Longrightarrow> ids k' = ids k"
  by (auto simp: mm_free_try_def ids_record split: option.splits)

lemma vput8_ids: "vput8 a b k = Some k' \<Longrightarrow> ids k' = ids k"
  by (auto simp: vput8_def ids_record split: option.splits if_splits)

lemma mm_call_ids: "mm_call f k = (a, k') \<Longrightarrow> ids k' = ids k"
  by (auto simp: mm_call_def ids_record split: prod.splits)

lemma cow_fault_ids: "cow_fault a k = Some k' \<Longrightarrow> ids k' = ids k"
  by (auto simp: cow_fault_def Let_def split: option.splits if_splits prod.splits dest: mm_call_ids)

lemma vstore8_ids: "vstore8 a b k = Some k' \<Longrightarrow> ids k' = ids k"
  by (auto simp: vstore8_def split: option.splits dest!: vput8_ids cow_fault_ids)

lemma vstore_ids: "vstore a bs k = Some k' \<Longrightarrow> ids k' = ids k"
  by (induction bs arbitrary: a k) (auto split: option.splits dest!: vstore8_ids)

lemma vstore32s_ids: "vstore32s a ws k = Some k' \<Longrightarrow> ids k' = ids k"
  by (induction ws arbitrary: a k) (auto simp: vstore32_def split: option.splits dest!: vstore_ids)

lemma ok_memory [ok_keep]:
  assumes "idp Q k"
  shows "ok (idp Q) snd (mm_try f k)" "ok (idp Q) (\<lambda>k. k) (mm_free_try h k)" "ok (idp Q) (\<lambda>k. k) (vstore a bs k)"
    "ok (idp Q) (\<lambda>k. k) (vstore32 a v k)" "ok (idp Q) (\<lambda>k. k) (vstore32s a ws k)" "ok (idp Q) (\<lambda>k. k) (vstore8 a b k)"
  unfolding vstore32_def
  by (rule ok_ids2 [OF _ assms] ok_ids1 [OF _ assms], erule mm_try_ids mm_free_try_ids vstore_ids vstore32s_ids vstore8_ids)+

lemma ok_mmap_anon [ok_keep]: "idp Q k \<Longrightarrow> ok (idp Q) snd (user_mmap_anon len k)"
  by (rule ok_ids2) (auto simp: user_mmap_anon_def Let_def ids_record split: if_splits option.splits dest: vstore_ids)

section \<open>Process tables\<close>

lemma ok_fdstate_alloc [ok_keep]: "idp Q k \<Longrightarrow> ok (idp Q) snd (proc_fdstate_alloc i k)"
  unfolding proc_fdstate_alloc_def by (intro ok_rules ok_keep) (simp_all add: idp_keep)

lemma ok_space_unref [ok_keep]: "idp Q k \<Longrightarrow> ok (idp Q) (\<lambda>k. k) (proc_space_unref sp k)"
  unfolding proc_space_unref_def Let_def by (intro ok_rules ok_keep) (simp_all add: idp_keep)

lemma ok_fdstate_free [ok_keep]: "idp Q k \<Longrightarrow> ok (idp Q) (\<lambda>k. k) (proc_fdstate_free P i k)"
  unfolding proc_fdstate_free_def Let_def by (intro ok_rules ok_keep) (simp_all add: idp_keep)

lemma ok_space_cow [ok_keep]: "idp Q k \<Longrightarrow> ok (idp Q) snd (proc_space_cow c i k)"
  unfolding proc_space_cow_def Let_def by (intro ok_rules ok_keep) (simp_all add: idp_keep)

section \<open>Calls on files\<close>

lemma ok_snd: "P (snd x) \<Longrightarrow> ok P snd (Some x)"
  by (simp add: ok_def)

lemma ok_with_path [ok_keep]:
  "idp Q k \<Longrightarrow> (\<And>path. ok (idp Q) snd (f path)) \<Longrightarrow> ok (idp Q) snd (with_path ptr lim f k)"
  unfolding with_path_def by (intro ok_rules) simp_all

lemma ok_with_at [ok_keep]: "idp Q k \<Longrightarrow> (\<And>path. ok (idp Q) snd (f path)) \<Longrightarrow> ok (idp Q) snd (with_at d ptr f k)"
  unfolding with_at_def by (intro ok_rules) simp_all

lemma ok_with_at_or_fd [ok_keep]:
  "idp Q k \<Longrightarrow> ok (idp Q) snd x \<Longrightarrow> (\<And>path. ok (idp Q) snd (f path)) \<Longrightarrow> ok (idp Q) snd (with_at_or_fd d ptr fl x f k)"
  unfolding with_at_or_fd_def by (intro ok_rules ok_keep) simp_all

lemma ok_path_calls [ok_keep]:
  assumes "idp Q k"
  shows "ok (idp Q) snd (do_open E ptr fl mode k)" "ok (idp Q) snd (do_access ptr mode k)" "ok (idp Q) snd (do_chmod E ptr mode k)"
    "ok (idp Q) snd (do_truncate E ptr len k)" "ok (idp Q) snd (do_chdir ptr k)" "ok (idp Q) snd (do_mkdir E ptr k)"
    "ok (idp Q) snd (do_rmdir E ptr k)" "ok (idp Q) snd (do_unlink E ptr k)" "ok (idp Q) snd (do_rename E ptr ptr' k)"
    "ok (idp Q) snd (do_openat E d ptr fl mode k)" "ok (idp Q) snd (do_mkdirat E d ptr k)" "ok (idp Q) snd (do_unlinkat E d ptr fl k)"
    "ok (idp Q) snd (do_renameat E d ptr d' ptr' k)" "ok (idp Q) snd (do_faccessat d ptr mode k)"
    "ok (idp Q) snd (do_fchmodat E d ptr mode k)" "ok (idp Q) snd (do_readlinkat d ptr k)" "ok (idp Q) snd (do_readlink ptr k)"
    "ok (idp Q) snd (do_chown E ptr uid gid k)" "ok (idp Q) snd (do_fchownat E d ptr uid gid fl k)"
    "ok (idp Q) snd (do_truncate64 E ptr lo hi k)"
  unfolding do_open_def do_access_def do_chmod_def do_truncate_def do_chdir_def do_mkdir_def do_rmdir_def do_unlink_def do_rename_def
    do_openat_def do_mkdirat_def do_unlinkat_def do_renameat_def do_faccessat_def do_fchmodat_def do_readlinkat_def do_readlink_def
    do_chown_def do_fchownat_def do_truncate64_def split_beta
  using assms by (intro ok_keep ok_if ok_some; simp add: idp_keep split_beta)+

lemma ids_stat: "ids (snd (vfs_ent_fields E e k)) = ids k" "ids (snd (vfs_fd_fields E fd k)) = ids k"
  by (auto simp: vfs_ent_fields_def vfs_fd_fields_def Let_def split_beta ids_keep split: vfs_type.split option.split user_fd_kind_t.split)

lemma ok_stat_buf [ok_keep]: "idp Q k \<Longrightarrow> ok (idp Q) snd (do_stat_buf E path ptr is64 k)"
  unfolding do_stat_buf_def Let_def by (intro ok_rules ok_keep) (simp_all add: idp_keep ids_stat [THEN idp_cong])

lemma ok_stat_calls [ok_keep]:
  assumes "idp Q k"
  shows "ok (idp Q) snd (do_stat E ptr st is64 k)" "ok (idp Q) snd (do_fstat E fd st is64 k)" "ok (idp Q) snd (do_statx E d ptr st k)"
    "ok (idp Q) snd (do_statfs_path ptr st is64 k)" "ok (idp Q) snd (do_fstatfs fd st is64 k)" "ok (idp Q) snd (do_sysinfo st k)"
  unfolding do_stat_def do_fstat_def do_statx_def do_statfs_path_def do_fstatfs_def do_sysinfo_def Let_def
  using assms by (intro ok_rules ok_keep; simp add: idp_keep ids_stat [THEN idp_cong])+

lemma ok_fstatat [ok_keep]: "idp Q k \<Longrightarrow> ok (idp Q) snd (do_fstatat E d ptr st fl is64 k)"
  unfolding do_fstatat_def by (intro ok_keep)

lemma ok_small_calls [ok_keep]:
  assumes "idp Q k"
  shows "ok (idp Q) snd (do_llseek fd lo hi res wh k)" "ok (idp Q) snd (do_getrlimit rs ptr k)"
    "ok (idp Q) snd (do_prlimit64 pid rs np op k)" "ok (idp Q) snd (do_utime_path E ptr fdi tp ns k)"
    "ok (idp Q) snd (do_getcwd ub rm k)" "ok (idp Q) snd (do_pipe E ptr k)" "ok (idp Q) snd (do_times ptr k)"
    "ok (idp Q) snd (do_getrusage who ptr k)" "ok (idp Q) snd (do_uname ptr k)" "ok (idp Q) snd (do_gettimeofday E tv tz k)"
    "ok (idp Q) snd (do_get_thread_area ptr k)" "ok (idp Q) snd (do_set_thread_area ptr k)"
  unfolding do_llseek_def do_getrlimit_def do_prlimit64_def do_utime_path_def do_getcwd_def do_pipe_def do_times_def do_getrusage_def
    do_uname_def do_gettimeofday_def do_get_thread_area_def do_set_thread_area_def Let_def
  using assms by (intro ok_rules ok_keep; simp add: idp_keep)+

section \<open>Calls that wait\<close>

text \<open>What the calls rely on: neither an interrupt taken in the kernel nor the network stack changes who a process is.\<close>

definition calm :: "'h env \<Rightarrow> bool" where
  "calm E \<longleftrightarrow> (\<forall>k. ids (e_idle E k) = ids k) \<and> (\<forall>a b k. ids (snd (net_socket (e_net E) a b k)) = ids k) \<and>
     (\<forall>a b c k. ids (snd (net_bind (e_net E) a b c k)) = ids k) \<and> (\<forall>a b c k. ids (snd (net_connect (e_net E) a b c k)) = ids k) \<and>
     (\<forall>a k. ids (snd (net_listen (e_net E) a k)) = ids k) \<and> (\<forall>a k. ids (snd (net_accept (e_net E) a k)) = ids k) \<and>
     (\<forall>a b c d k. ids (snd (net_sendto (e_net E) a b c d k)) = ids k) \<and>
     (\<forall>a b k. ids (snd (net_recvfrom (e_net E) a b k)) = ids k) \<and> (\<forall>a k. ids (net_close (e_net E) a k) = ids k)"

lemma calm_idp:
  assumes "calm E"
  shows "idp Q (e_idle E k) = idp Q k" "idp Q (snd (net_socket (e_net E) a b k)) = idp Q k"
    "idp Q (snd (net_bind (e_net E) a b' c k)) = idp Q k" "idp Q (snd (net_connect (e_net E) a b' c k)) = idp Q k"
    "idp Q (snd (net_listen (e_net E) a k)) = idp Q k" "idp Q (snd (net_accept (e_net E) a k)) = idp Q k"
    "idp Q (snd (net_sendto (e_net E) a d b' c k)) = idp Q k" "idp Q (snd (net_recvfrom (e_net E) a b' k)) = idp Q k"
    "idp Q (net_close (e_net E) a k) = idp Q k"
  using assms by (simp_all add: calm_def idp_def)

lemma idp_sockets:
  assumes "calm E"
  shows "idp Q (snd (do_socket E a b c k)) = idp Q k" "idp Q (snd (do_listen E fd k)) = idp Q k" "idp Q (snd (do_accept E fd k)) = idp Q k"
    "idp Q (snd (do_close E fd k)) = idp Q k"
  using assms by (simp_all add: do_socket_def do_listen_def do_accept_def do_close_def Let_def split_beta calm_idp idp_keep)

lemma ok_write_sockaddr [ok_keep]: "idp Q k \<Longrightarrow> ok (idp Q) (\<lambda>k. k) (write_sockaddr a n ip port k)"
  unfolding write_sockaddr_def Let_def by (intro ok_rules ok_keep)

lemma ok_socket_calls [ok_keep]:
  assumes "calm E" and "idp Q k"
  shows "ok (idp Q) snd (do_bind E fd a n k)" "ok (idp Q) snd (do_connect E fd a n k)" "ok (idp Q) snd (do_sendto E fd ub len a n k)"
    "ok (idp Q) snd (do_recvfrom E fd ub len a n k)" "ok (idp Q) snd (do_getsockname E fd a n k)"
    "ok (idp Q) snd (do_getpeername E fd a n k)"
  unfolding do_bind_def do_connect_def do_sendto_def do_recvfrom_def do_getsockname_def do_getpeername_def sock_name_def Let_def
  using assms by (intro ok_rules ok_keep; simp add: calm_idp)+

lemma ok_socketcall [ok_keep]: "calm E \<Longrightarrow> idp Q k \<Longrightarrow> ok (idp Q) snd (do_socketcall E c a k)"
  unfolding do_socketcall_def by (intro ok_if ok_reads ok_keep ok_some; simp add: idp_sockets)

lemma ok_write [ok_keep]: "idp Q k \<Longrightarrow> ok (idp Q) snd (do_write E fd ub n k)"
  unfolding do_write_def Let_def
  by (intro ok_if ok_option ok_some) (auto intro!: ok_rules ok_keep simp: idp_keep split: user_fd_kind_t.split)

lemma ok_writev [ok_keep]: "idp Q k \<Longrightarrow> ok (idp Q) snd (do_writev E fd iov n k)"
proof -
  have "idp Q k \<Longrightarrow> ok (idp Q) snd (writev_from c E fd iov tot k)" for c iov tot k
  proof (induction c arbitrary: iov tot k)
    case (Suc c)
    then show ?case unfolding writev_from.simps by (intro ok_rules ok_keep) simp_all
  qed (simp add: ok_some)
  then show "idp Q k \<Longrightarrow> ok (idp Q) snd (do_writev E fd iov n k)" unfolding do_writev_def by (intro ok_rules) simp_all
qed

lemma ok_sendfile [ok_keep]: "idp Q k \<Longrightarrow> ok (idp Q) snd (do_sendfile E fd fd' ptr n k)"
proof -
  have "idp Q k \<Longrightarrow> idp Q (snd x)" if "send_loop E fd slot n tot off k = Some x" for slot tot off k x
    using that
  proof (induction rule: send_loop.raw_induct [rotated, consumes 1, case_names step])
    case (step rec E fd slot n tot off k y)
    have w: "idp Q (snd (kbuf_write E fd bs (snd (fs_call f k))))" for bs f using step(3) by (simp add: idp_keep)
    from step(2,3) show ?case
      by (auto simp: Let_def split_beta idp_keep split: if_splits dest: step(1))
  qed
  then have l: "idp Q k \<Longrightarrow> ok (idp Q) snd (send_loop E fd slot n tot off k)" for slot tot off k by (simp add: ok_def)
  show "idp Q k \<Longrightarrow> ok (idp Q) snd (do_sendfile E fd fd' ptr n k)"
    unfolding do_sendfile_def Let_def by (intro ok_rules l ok_keep) (auto simp: idp_keep split: sum.splits intro!: ok_rules ok_keep)
qed

lemma ok_getdents [ok_keep]: "idp Q k \<Longrightarrow> ok (idp Q) snd (do_getdents fd ub n is64 k)"
proof -
  have "idp Q k \<Longrightarrow> idp Q (snd x)" if "dents_loop path ub n is64 idx tot k = Some x" for path idx tot k x
    using that
  proof (induction rule: dents_loop.raw_induct [rotated, consumes 1, case_names step])
    case (step rec path ub n is64 idx tot k y)
    have v: "vstore a bs k = Some k' \<Longrightarrow> idp Q k'" for a bs k' using step(3) by (auto dest: vstore_ids simp: idp_def)
    from step(2,3) show ?case
      by (auto simp: Let_def bind_eq_Some_conv split: if_splits option.splits intro: step(1) [OF _ v])
  qed
  then have l: "idp Q k \<Longrightarrow> ok (idp Q) snd (dents_loop path ub n is64 idx tot k)" for path idx tot k unfolding ok_def by blast
  show "idp Q k \<Longrightarrow> ok (idp Q) snd (do_getdents fd ub n is64 k)"
    unfolding do_getdents_def Let_def by (intro ok_rules l) (auto simp: idp_keep split: sum.splits intro!: ok_rules)
qed

section \<open>Calls that poll in place\<close>

lemma ids_buf_put: "ids (kbd_buf_put proc_notify_console c k) = ids k"
  by (simp add: kbd_buf_put_def kbd_ring_put_def Let_def ids_keep)

lemma ids_route: "ids (kbd_route proc_notify_console st b k) = ids k"
  by (simp add: kbd_route_def kbd_process_scancode_def kbd_release_def kbd_press_def Let_def ids_buf_put ids_keep split: option.split)

lemma ok_get_key [ok_keep]:
  assumes "calm E" and "idp Q k"
  shows "ok (idp Q) snd (get_key E k)"
proof -
  have "ids (fst (snd x)) = ids k" if "keyboard_getchar inb notify hlt k h = Some x" and "notify = proc_notify_console"
    and "\<And>k h. ids (fst (hlt k h)) = ids k" for inb notify hlt h x and k :: "'a kernel"
    using that
  proof (induction rule: keyboard_getchar.raw_induct [rotated, consumes 1, case_names step])
    case (step rec inb notify hlt k h y)
    have r: "ids (kbd_route notify st b k') = ids k'" for st b and k' :: "'a kernel" by (simp add: ids_route step(3))
    from step(2) show ?case
      by (auto simp: split_beta kbd_ring_get_def ids_keep step(4) r split: if_splits dest!: step(1) [OF _ step(3,4)])
  qed
  from this [of "p_inb (e_ports E)" proc_notify_console "\<lambda>k h. (e_idle E (set_hw h k), k_hw (e_idle E (set_hw h k)))" k "k_hw k"]
  show ?thesis using assms unfolding get_key_def Let_def
    by (intro ok_ids2) (auto simp: calm_def ids_keep idp_def split: option.splits)
qed

lemma ok_keyboard [ok_keep]: "calm E \<Longrightarrow> idp Q k \<Longrightarrow> ok (idp Q) snd (read_keyboard_char E ub k)"
  unfolding read_keyboard_char_def by (intro ok_rules ok_keep) (simp_all add: idp_keep)

lemma ok_clock [ok_keep]: "idp Q k \<Longrightarrow> ok (idp Q) snd (do_clock_gettime E c ts n k)"
  unfolding do_clock_gettime_def Let_def by (intro ok_rules ok_keep) (simp_all add: idp_keep)

lemma ok_poll_from: "idp Q k \<Longrightarrow> ok (idp Q) snd (poll_from n ptr ready k)"
proof (induction n arbitrary: ptr ready k)
  case (Suc n)
  then show ?case unfolding poll_from.simps Let_def by (intro ok_rules ok_keep) simp_all
qed (simp add: ok_some)

lemma ok_poll_clear: "idp Q k \<Longrightarrow> ok (idp Q) (\<lambda>k. k) (poll_clear n ptr k)"
proof (induction n arbitrary: ptr k)
  case (Suc n)
  then show ?case unfolding poll_clear.simps by (intro ok_rules ok_keep) simp_all
qed (simp add: ok_some)

lemma ok_poll_scan [ok_keep]: "idp Q k \<Longrightarrow> ok (idp Q) snd (poll_scan ptr n k)"
  unfolding poll_scan_def by (rule ok_poll_from)

lemma ok_poll_wait [ok_keep]:
  assumes "calm E" and "idp Q k"
  shows "ok (idp Q) snd (poll_wait E ptr n dl t k)"
proof -
  have "calm E \<Longrightarrow> idp Q k \<Longrightarrow> idp Q (snd x)" if "poll_wait E ptr n dl t k = Some x" for x
    using that
  proof (induction rule: poll_wait.raw_induct [rotated, consumes 1, case_names step])
    case (step rec E ptr n dl t k y)
    have i: "idp Q (e_idle E k)" using step(3,4) by (simp add: calm_idp)
    have v: "poll_scan ptr n (e_idle E k) = Some (a, k') \<Longrightarrow> idp Q k'" for a k' using ok_poll_scan [OF i] by (force simp: ok_def)
    from step(2,4) show ?case
      by (auto simp: bind_eq_Some_conv split: if_splits dest: v intro: step(1) [OF _ step(3) v])
  qed
  then show ?thesis using assms unfolding ok_def by blast
qed

lemma ok_fdset_clear [ok_keep]: "idp Q k \<Longrightarrow> ok (idp Q) (\<lambda>k. k) (fdset_clear a fd k)"
  unfolding fdset_clear_def by (intro ok_rules ok_keep)

lemma ok_select_from: "idp Q k \<Longrightarrow> ok (idp Q) snd (select_from n fd a b c ready k)"
proof (induction n arbitrary: fd ready k)
  case (Suc n)
  then show ?case unfolding select_from.simps Let_def by (intro ok_rules ok_keep) simp_all
qed (simp add: ok_some)

lemma ok_select [ok_keep]: "idp Q k \<Longrightarrow> ok (idp Q) snd (do_select n a b c t k)"
  unfolding do_select_def Let_def by (intro ok_rules ok_select_from) simp_all

lemma ok_pselect [ok_keep]:
  assumes "calm E" and "idp Q k"
  shows "ok (idp Q) (\<lambda>x. snd (snd x)) (do_pselect6 E r n a b c ts k)"
proof -
  have "calm E \<Longrightarrow> idp Q k \<Longrightarrow> idp Q (snd (snd x))" if "pselect_wait E r n a b c t u k = Some x" for x t u k
    using that
  proof (induction rule: pselect_wait.raw_induct [rotated, consumes 1, case_names step])
    case (step rec E r n a b c t u k y)
    have i: "idp Q (e_idle E k)" using step(3,4) by (simp add: calm_idp)
    have v: "do_select n a b c 0 (e_idle E k) = Some (d, k') \<Longrightarrow> idp Q k'" for d k' using ok_select [OF i] by (force simp: ok_def)
    from step(2,4) show ?case
      by (auto simp: bind_eq_Some_conv split: if_splits dest: v intro: step(1) [OF _ step(3) v])
  qed
  then have l: "idp Q k \<Longrightarrow> ok (idp Q) (\<lambda>x. snd (snd x)) (pselect_wait E r n a b c t u k)" for t u k
    unfolding ok_def using assms(1) by blast
  show ?thesis unfolding do_pselect6_def using assms(2) by (intro ok_rules ok_keep l) simp_all
qed

lemma ok_nanosleep [ok_keep]:
  assumes "calm E" and "idp Q k"
  shows "ok (idp Q) snd (do_nanosleep E a b k)"
proof -
  have "calm E \<Longrightarrow> idp Q k \<Longrightarrow> idp Q x" if "sleep_loop E t u k = Some x" for x t u k
    using that
  proof (induction rule: sleep_loop.raw_induct [rotated, consumes 1, case_names step])
    case (step rec E t u k y)
    have i: "idp Q (e_idle E k)" using step(3,4) by (simp add: calm_idp)
    from step(2,4) show ?case by (auto split: if_splits intro: step(1) [OF _ step(3) i])
  qed
  then have l: "idp Q k \<Longrightarrow> ok (idp Q) (\<lambda>k. k) (sleep_loop E t u k)" for t u k unfolding ok_def using assms(1) by blast
  show ?thesis unfolding do_nanosleep_def using assms(2) by (intro ok_rules ok_keep l) simp_all
qed

lemma ok_await [ok_keep]:
  assumes "calm E" and "idp Q k"
  shows "ok (idp Q) (\<lambda>k. k) (await_signal E k)"
proof -
  have "calm E \<Longrightarrow> idp Q k \<Longrightarrow> idp Q x" if "await_signal E k = Some x" for x
    using that
  proof (induction rule: await_signal.raw_induct [rotated, consumes 1, case_names step])
    case (step rec E k y)
    have i: "idp Q (e_idle E k)" using step(3,4) by (simp add: calm_idp)
    from step(2,4) show ?case by (auto split: if_splits intro: step(1) [OF _ step(3) i])
  qed
  then show ?thesis using assms unfolding ok_def by blast
qed

lemma ok_sigaction [ok_keep]: "idp Q k \<Longrightarrow> ok (idp Q) snd (do_sigaction sg a b rt n k)"
  unfolding do_sigaction_def put_action_def get_action_def Let_def by (intro ok_rules ok_keep) (simp_all add: idp_keep)

lemma ok_sigprocmask [ok_keep]: "idp Q k \<Longrightarrow> ok (idp Q) snd (do_sigprocmask how a b k)"
  unfolding do_sigprocmask_def Let_def by (intro ok_rules ok_keep) (simp_all add: idp_keep)

lemma ok_mmap [ok_keep]:
  assumes "idp Q k"
  shows "ok (idp Q) snd (do_mmap a n fl fd off k)" "ok (idp Q) snd (do_mmap2 a n fl fd off k)" "ok (idp Q) snd (do_old_mmap ptr k)"
proof -
  have m: "ok (idp Q) snd (do_mmap a n fl fd off k)" for a n fl fd off
    unfolding do_mmap_def mmap_place_def Let_def using assms by (intro ok_rules ok_keep) simp_all
  show "ok (idp Q) snd (do_mmap a n fl fd off k)" "ok (idp Q) snd (do_mmap2 a n fl fd off k)" "ok (idp Q) snd (do_old_mmap ptr k)"
    unfolding do_mmap2_def do_old_mmap_def using assms by (intro m ok_rules; simp)+
qed

section \<open>Loading a program\<close>

lemma ok_apply_rel [ok_keep]: "idp Q k \<Longrightarrow> ok (idp Q) snd (apply_rel r symtab syment bias base limit k)"
  unfolding apply_rel_def Let_def by (intro ok_rules ok_keep) simp_all

lemma ok_rel_from: "idp Q k \<Longrightarrow> ok (idp Q) snd (rel_from n r symtab syment bias base limit cnt k)"
proof (induction n arbitrary: r cnt k)
  case (Suc n)
  then show ?case unfolding rel_from.simps by (intro ok_rules ok_keep) simp_all
qed (simp add: ok_some)

lemma ok_rel_array [ok_keep]: "idp Q k \<Longrightarrow> ok (idp Q) snd (elf_apply_rel_array a n symtab syment bias base limit cnt k)"
  unfolding elf_apply_rel_array_def by (intro ok_rules ok_rel_from) simp_all

lemma ok_bind_pair: "ok P snd m \<Longrightarrow> (\<And>a b k. P k \<Longrightarrow> ok P g (f a b k)) \<Longrightarrow> ok P g (m \<bind> (\<lambda>((a, b), k). f a b k))"
  by (cases m) (auto simp: ok_def)

lemma ok_dynamic [ok_keep]: "idp Q k \<Longrightarrow> ok (idp Q) snd (elf_apply_dynamic a bias base limit cnt k)"
  unfolding elf_apply_dynamic_def Let_def by (intro ok_bind_pair ok_rules ok_keep) simp_all

lemma ok_map_from: "idp Q k \<Longrightarrow> ok (idp Q) snd (map_from phs img bias base limit e n k)"
proof (induction phs arbitrary: e n k)
  case (Cons ph phs)
  then show ?case unfolding map_from.simps Let_def by (intro ok_rules ok_keep) simp_all
qed (simp add: ok_some)

lemma ok_segments [ok_keep]: "idp Q k \<Longrightarrow> ok (idp Q) snd (elf_map_segments img base limit k)"
  unfolding elf_map_segments_def Let_def by (intro ok_rules ok_map_from) simp_all

lemma ok_relocate [ok_keep]: "idp Q k \<Longrightarrow> ok (idp Q) snd (relocate li dyn base limit k)"
  unfolding relocate_def by (intro ok_bind_pair ok_rules ok_keep) simp_all

lemma ok_load [ok_keep]:
  assumes "idp Q k"
  shows "ok (idp Q) snd (elf32_load_ex img base limit k)" "ok (idp Q) snd (elf32_load_program img base limit k)"
  unfolding elf32_load_ex_def elf32_load_program_def using assms by (intro ok_rules ok_keep; simp)+

lemma ok_load_for_exec [ok_keep]: "idp Q k \<Longrightarrow> ok (idp Q) snd (user_load_for_exec E img k)"
  unfolding user_load_for_exec_def by (intro ok_rules ok_keep) simp_all

lemma ok_push_strings [ok_keep]: "idp Q k \<Longrightarrow> ok (idp Q) (\<lambda>x. snd (snd x)) (push_strings ss sp as k)"
proof (induction ss arbitrary: sp as k)
  case (Cons s ss)
  then show ?case unfolding push_strings.simps push_string_def Let_def by (intro ok_rules ok_keep) simp_all
qed (simp add: ok_some)

lemma ok_push_words [ok_keep]: "idp Q k \<Longrightarrow> ok (idp Q) snd (push_words ws sp k)"
proof (induction ws arbitrary: sp k)
  case (Cons w ws)
  then show ?case unfolding push_words.simps by (intro ok_rules ok_keep) simp_all
qed (simp add: ok_some)

lemma ok_build_stack [ok_keep]: "idp Q k \<Longrightarrow> ok (idp Q) snd (build_user_stack argv li b k)"
  unfolding build_user_stack_def Let_def by (intro ok_rules ok_keep) simp_all

lemma ok_exec_image [ok_keep]: "idp Q k \<Longrightarrow> ok (idp Q) snd (user_exec_image E img argv k)"
  unfolding user_exec_image_def clear_window_def by (intro ok_rules ok_keep) (simp_all add: idp_keep)

lemma ok_execve [ok_keep]: "idp Q k \<Longrightarrow> ok (idp Q) (\<lambda>x. snd (snd x)) (do_execve E r a b k)"
  unfolding do_execve_def by (intro ok_rules ok_keep) (auto simp: idp_keep set_names_def split: option.split)

end
