(* ===== verification/Sys_Root.thy ===== *)
theory Sys_Root
  imports Sys_Identity
begin

text \<open>
  Nobody gains the identity of root: when every user process runs as another user, no sequence of
  system calls, timer ticks and exceptions makes one of them run as root.
\<close>

declare drop_bit_and [simp del] drop_bit_or [simp del]

section \<open>Changes of one process\<close>

definition id_of :: "proc_t \<Rightarrow> bool \<times> u32 \<times> u32 \<times> bool" where
  "id_of p = (p_used p, p_pid p, p_uid p, p_state p = PROC_ZOMBIE)"

lemma ids_of: "ids k = (map id_of (procs k), current_proc k)"
  by (simp add: ids_def id_of_def [abs_def])

lemma ids_upd_proc: "ids (upd_proc i f k) = ((fst (ids k))[i := id_of (f (procs k ! i))], current_proc k)"
  by (simp add: ids_of upd_proc_def map_update)

lemma ids_upd_at: "id_of (f (procs k ! i)) = id_of (procs k ! i) \<Longrightarrow> ids (upd_proc i f k) = ids k"
  by (cases "i < length (procs k)") (simp_all add: ids_of upd_proc_def map_update list_update_same_conv list_update_beyond)

lemma ids_current: "ids (proc_set_current c k) = (fst (ids k), c)"
  by (simp add: ids_of proc_set_current_def)

lemma id_of_same: "ids k' = ids k \<Longrightarrow> i < length (procs k) \<Longrightarrow> id_of (procs k' ! i) = id_of (procs k ! i)"
  using ids_nth [of k' k] by (simp add: id_of_def)

text \<open>What the invariant says about the processes themselves.\<close>

definition good :: "nat set \<Rightarrow> nat \<Rightarrow> proc_t \<Rightarrow> bool" where
  "good X j p \<longleftrightarrow> (p_used p \<longrightarrow> (if p_pid p = 1 then p_state p \<noteq> PROC_ZOMBIE else j \<in> X \<or> p_uid p \<noteq> 0))"

definition tab :: "nat set \<Rightarrow> 'h kernel \<Rightarrow> bool" where
  "tab X k \<longleftrightarrow> length (procs k) = PROC_MAX \<and> (\<forall>j < PROC_MAX. good X j (procs k ! j))"

lemma tab_ids: "tab X k \<longleftrightarrow> table_ok X (fst (ids k))"
  by (auto simp: tab_def table_ok_def ids_def good_def)

lemma ids_ok_iff: "idp (ids_ok X) k \<longleftrightarrow> tab X k \<and>
    (\<forall>i. current_proc k = Some i \<longrightarrow> i < PROC_MAX \<and> p_used (procs k ! i) \<and> p_state (procs k ! i) \<noteq> PROC_ZOMBIE)"
  by (auto simp: idp_def ids_ok_def table_ok_def running_ok_def ids_def tab_def good_def)

lemma tab_upd:
  assumes "tab X k" and "i < PROC_MAX \<Longrightarrow> good Y i (f (procs k ! i))" and "\<And>j. j \<in> X \<Longrightarrow> j \<noteq> i \<Longrightarrow> j \<in> Y"
  shows "tab Y (upd_proc i f k)"
  unfolding tab_def
proof (intro conjI allI impI)
  show "length (procs (upd_proc i f k)) = PROC_MAX" using assms(1) by (simp add: tab_def upd_proc_def)
  fix j
  assume "j < PROC_MAX"
  then show "good Y j (procs (upd_proc i f k) ! j)"
    using assms by (cases "j = i") (auto simp: tab_def upd_proc_def good_def)
qed

lemma tab_cong: "ids k' = ids k \<Longrightarrow> tab X k' = tab X k"
  by (simp add: tab_ids)

lemma ids_ok_tab: "idp (ids_ok X) k \<Longrightarrow> tab X k"
  by (simp add: ids_ok_iff)

section \<open>Switching\<close>

lemma sched_pick_runnable: "sched_pick_next c ps = Some n \<Longrightarrow> n < PROC_MAX \<and> runnable (ps ! n)"
  by (auto simp: sched_pick_next_def Let_def find_Some_iff PROC_MAX_def)

lemma id_of_state: "id_of (p\<lparr>p_state := s\<rparr>) = id_of p \<longleftrightarrow> (s = PROC_ZOMBIE) = (p_state p = PROC_ZOMBIE)"
  by (simp add: id_of_def)

lemma enter_ids:
  assumes "i < length (procs k)" and "p_state (procs k ! i) \<noteq> PROC_ZOMBIE" and k1: "ids k1 = ids k"
  shows "ids (upd_proc i (\<lambda>p. p\<lparr>p_state := PROC_RUNNING\<rparr>) (proc_set_current (Some i) k1)) = (fst (ids k), Some i)"
proof -
  have "id_of (procs k1 ! i) = id_of (procs k ! i)" using id_of_same [OF k1 assms(1)] .
  then have "p_state (procs (proc_set_current (Some i) k1) ! i) \<noteq> PROC_ZOMBIE"
    using assms(2) by (simp add: id_of_def proc_set_current_def)
  then have "ids (upd_proc i (\<lambda>p. p\<lparr>p_state := PROC_RUNNING\<rparr>) (proc_set_current (Some i) k1)) = ids (proc_set_current (Some i) k1)"
    by (intro ids_upd_at) (simp add: id_of_state)
  then show ?thesis by (simp add: ids_current k1)
qed

lemma sched_load_ids:
  assumes "i < length (procs k)" and "p_state (procs k ! i) \<noteq> PROC_ZOMBIE"
  shows "ids (snd (sched_load i r k)) = (fst (ids k), Some i)"
  unfolding sched_load_def Let_def by (auto simp: ids_keep intro!: enter_ids assms)

lemma sched_load_ok:
  assumes "tab X k" and "sched_pick_next c (procs k) = Some n"
  shows "idp (ids_ok X) (snd (sched_load n r k))"
proof -
  have n: "n < PROC_MAX" "runnable (procs k ! n)" using sched_pick_runnable [OF assms(2)] by auto
  then have "ids (snd (sched_load n r k)) = (fst (ids k), Some n)"
    using assms(1) by (intro sched_load_ids) (auto simp: tab_def runnable_def)
  moreover have "length (procs k) = PROC_MAX" using assms(1) by (simp add: tab_def)
  ultimately show ?thesis using assms(1) n by (simp add: idp_def ids_ok_def running_ok_def tab_ids) (simp add: ids_def runnable_def)
qed

section \<open>Exit\<close>

lemma proc_find_Some: "proc_find pid k = Some i \<Longrightarrow> i < length (procs k) \<and> p_used (procs k ! i) \<and> p_pid (procs k ! i) = pid"
  by (auto simp: proc_find_def dest: find_idx_SomeD)

lemma ids_wait_result: "ids (wait_result i c k) = ids k"
  by (simp add: wait_result_def Let_def ids_keep)

lemma ids_wake_parent [ids_keep]: "ids (proc_wake_parent c k) = ids k"
proof (cases "proc_find (p_ppid (procs k ! c)) k")
  case (Some i)
  define k1 where "k1 = wait_result i (procs k ! c) k"
  have k1: "ids k1 = ids k" by (simp add: k1_def ids_wait_result)
  have "id_of (procs k1 ! i) = id_of (procs k ! i)" using id_of_same [OF k1] proc_find_Some [OF Some] by blast
  then have "p_state (procs k ! i) = PROC_BLOCKED \<Longrightarrow>
      ids (upd_proc i (\<lambda>p. p\<lparr>p_wait_kind := PROC_WAIT_NONE, p_state := PROC_READY\<rparr>) k1) = ids k1"
    by (intro ids_upd_at) (simp add: id_of_def)
  then show ?thesis by (simp add: proc_wake_parent_def Some Let_def k1 flip: k1_def)
qed (simp add: proc_wake_parent_def Let_def)

definition flow_state :: "('r, 'h kernel) flow \<Rightarrow> 'h kernel" where
  "flow_state x = (case x of Back r k \<Rightarrow> k | Shell k \<Rightarrow> k)"

lemma flow_state_simps [simp]: "flow_state (Back r k) = k" "flow_state (Shell k) = k"
  by (simp_all add: flow_state_def)

lemma exit_ok: "idp (ids_ok X) k \<Longrightarrow> idp (ids_ok X) (flow_state (proc_exit_current r code flt k))"
proof (cases "current_proc k")
  case None
  assume "idp (ids_ok X) k"
  then show ?thesis by (simp add: proc_exit_current_def None idp_keep)
next
  case (Some i)
  assume ok: "idp (ids_ok X) k"
  define k1 where "k1 = (if p_fd_state (procs k ! i) \<noteq> 0 then user_fd_state_save (p_fd_state (procs k ! i)) k else k)"
  define k2 where "k2 = upd_proc i (\<lambda>p. p\<lparr>p_exit_code := code, p_faulted := flt, p_state := PROC_ZOMBIE, p_has_ctx := False,
    p_blk_has_deadline := False, p_wait_kind := PROC_WAIT_NONE\<rparr>) k1"
  define k3 where "k3 = proc_wake_parent i (user_set_active False k2)"
  have i: "i < length (procs k)" using ok Some by (simp add: ids_ok_iff tab_def)
  have k1: "ids k1 = ids k" by (simp add: k1_def ids_keep)
  have ok1: "idp (ids_ok X) k1" using ok idp_cong [OF k1] by simp
  have "tab X k2" if "p_pid (procs k ! i) \<noteq> 1"
    unfolding k2_def using that ids_ok_tab [OF ok1] id_of_same [OF k1 i] by (intro tab_upd) (auto simp: good_def id_of_def tab_def)
  then have tab: "tab X k3" if "p_pid (procs k ! i) \<noteq> 1" using that by (simp add: k3_def tab_ids ids_keep ids_wake_parent)
  define k4 where "k4 = proc_set_current (proc_find 1 k3) (proc_switch_space None k3)"
  have "idp (ids_ok X) k4" if t: "tab X k3"
  proof -
    have "ids k4 = (fst (ids k3), proc_find 1 k3)" by (simp add: k4_def ids_current ids_keep)
    moreover have "running_ok (fst (ids k3)) (proc_find 1 k3)"
      using t proc_find_Some [of 1 k3] by (auto simp: running_ok_def tab_def good_def ids_def)
    ultimately show ?thesis using t by (simp add: idp_def ids_ok_def tab_ids)
  qed
  then have "idp (ids_ok X) (k4\<lparr>esp_save := esp_launch k4\<rparr>)" if "p_pid (procs k ! i) \<noteq> 1"
    using tab [OF that] by (simp add: idp_keep)
  then show ?thesis using ok sched_load_ok [OF tab]
    by (auto simp: proc_exit_current_def Some Let_def split_beta idp_keep split: option.split simp flip: k1_def k2_def k3_def k4_def)
qed

section \<open>Blocking\<close>

lemma ids_state: "s \<noteq> PROC_ZOMBIE \<Longrightarrow> p_state (procs k ! i) \<noteq> PROC_ZOMBIE \<Longrightarrow>
    (\<And>p. id_of (f p) = id_of (p\<lparr>p_state := s\<rparr>)) \<Longrightarrow> ids (upd_proc i f k) = ids k"
  by (rule ids_upd_at) (simp add: id_of_def)

lemma ids_ok_state:
  assumes "idp (ids_ok X) k" and "current_proc k = Some i" and "s \<noteq> PROC_ZOMBIE" and "\<And>p. id_of (f p) = id_of (p\<lparr>p_state := s\<rparr>)"
  shows "ids (upd_proc i f k) = ids k"
  using assms by (intro ids_state) (auto simp: ids_ok_iff)

lemma ok_then: "ok P' snd m \<Longrightarrow> (\<And>a k. P' k \<Longrightarrow> ok P g (f a k)) \<Longrightarrow> ok P g (m \<bind> (\<lambda>(a, k). f a k))"
  by (cases m) (auto simp: ok_def)

lemma ok_then1: "ok P' (\<lambda>k. k) m \<Longrightarrow> (\<And>k. P' k \<Longrightarrow> ok P g (f k)) \<Longrightarrow> ok P g (m \<bind> f)"
  by (cases m) (auto simp: ok_def)

text \<open>The running process is \<open>i\<close>.\<close>

abbreviation runs :: "nat set \<Rightarrow> nat \<Rightarrow> id_table \<times> nat option \<Rightarrow> bool" where
  "runs X i \<equiv> \<lambda>t. ids_ok X t \<and> snd t = Some i"

lemma runs_iff: "idp (runs X i) k \<longleftrightarrow> idp (ids_ok X) k \<and> current_proc k = Some i"
  by (simp add: idp_def ids_of)

lemma runs_state:
  "idp (runs X i) k \<Longrightarrow> s \<noteq> PROC_ZOMBIE \<Longrightarrow> (\<And>p. id_of (f p) = id_of (p\<lparr>p_state := s\<rparr>)) \<Longrightarrow> idp (runs X i) (upd_proc i f k)"
  using ids_ok_state [of X k i s f] by (auto simp: runs_iff idp_def)

lemma ok_block [ok_keep]:
  assumes "idp (ids_ok X) k"
  shows "ok (idp (ids_ok X)) (\<lambda>x. snd (snd x)) (proc_block_current_ext r kind ptr len dl has fd k)"
proof (cases "current_proc k")
  case None
  then show ?thesis using assms by (simp add: proc_block_current_ext_def ok_some)
next
  case (Some i)
  have load: "ok (idp (ids_ok X)) (\<lambda>x. snd (snd x)) (case sched_pick_next (Some i) (procs k) of
        None \<Rightarrow> Some (False, r, user_set_active True (upd_proc i run k))
      | Some n \<Rightarrow> (case sched_load n r k of (r, k) \<Rightarrow> Some (True, r, k)))"
    if k: "idp (runs X i) k" and f: "\<And>p. id_of (run p) = id_of (p\<lparr>p_state := PROC_RUNNING\<rparr>)" for k run
    using runs_state [OF k _ f] sched_load_ok [of X k "Some i" _ r] ids_ok_tab [of X k] k
    by (auto simp: runs_iff idp_keep split_beta ok_def split: option.split)
  have "idp (runs X i) k" using assms Some by (simp add: runs_iff)
  with assms Some show ?thesis unfolding proc_block_current_ext_def Let_def
    by (auto intro!: ok_then [of "idp (runs X i)"] ok_fdstate_alloc ok_some ok_if load runs_state [of _ _ _ PROC_BLOCKED]
        simp: id_of_def idp_keep) (simp_all add: runs_iff)
qed

lemma ok_block_current [ok_keep]: "idp (ids_ok X) k \<Longrightarrow> ok (idp (ids_ok X)) (\<lambda>x. snd (snd x)) (proc_block_current r kind pid ptr k)"
  unfolding proc_block_current_def by (rule ok_block)

lemma ok_block_read [ok_keep]: "idp (ids_ok X) k \<Longrightarrow> ok (idp (ids_ok X)) (\<lambda>x. snd (snd x)) (block_read r fd ub n k)"
  unfolding block_read_def by (intro ok_rules ok_keep) simp_all

lemma ok_read_pipe [ok_keep]: "idp (ids_ok X) k \<Longrightarrow> ok (idp (ids_ok X)) (\<lambda>x. snd (snd x)) (read_pipe r fd ub n k)"
  unfolding read_pipe_def Let_def by (intro ok_rules ok_keep) (simp_all add: idp_keep)

lemma ok_read [ok_keep]:
  assumes E: "calm E" and k: "idp (ids_ok X) k"
  shows "ok (idp (ids_ok X)) (\<lambda>x. snd (snd x)) (do_read E r fd ub n k)"
proof -
  have call: "ok (idp (ids_ok X)) (\<lambda>x. snd (snd x)) (case fs_call f k of ((m, out), k) \<Rightarrow> do { k \<leftarrow> vstore ub out k;
      if m < 0 then Some (er m, r, k) else Some (word_of_int m, r, snd (user_fd_set_offset d (off + word_of_int m) k)) })"
    for f er d off
  proof -
    have "idp (ids_ok X) k'" if "fs_call f k = (y, k')" for y k'
      using k ids_basic(6) [of f k] that by (simp add: idp_def)
    then show ?thesis by (auto simp: idp_keep intro!: ok_rules ok_keep split: prod.split)
  qed
  show ?thesis
    unfolding do_read_def Let_def using k
    by (auto split: option.split user_fd_kind_t.split intro!: call ok_rules ok_keep simp: idp_keep E)
qed

lemma ok_readv [ok_keep]:
  assumes E: "calm E" and k: "idp (ids_ok X) k"
  shows "ok (idp (ids_ok X)) (\<lambda>x. snd (snd x)) (do_readv E r fd iov n k)"
proof -
  have "idp (ids_ok X) k \<Longrightarrow> ok (idp (ids_ok X)) (\<lambda>x. snd (snd x)) (readv_from c E r fd iov tot k)" for c r iov tot k
  proof (induction c arbitrary: r iov tot k)
    case (Suc c)
    then show ?case unfolding readv_from.simps using E by (intro ok_rules ok_keep) simp_all
  qed (simp add: ok_some)
  then show ?thesis unfolding do_readv_def using k by (intro ok_rules) simp_all
qed

lemma ok_poll [ok_keep]:
  assumes E: "calm E" and k: "idp (ids_ok X) k"
  shows "ok (idp (ids_ok X)) (\<lambda>x. snd (snd x)) (do_poll E r ptr n t k)" "ok (idp (ids_ok X)) (\<lambda>x. snd (snd x)) (do_ppoll E r ptr n t k)"
proof -
  have p: "ok (idp (ids_ok X)) (\<lambda>x. snd (snd x)) (do_poll E r ptr n t k)" for t
    unfolding do_poll_def Let_def using E k by (intro ok_rules ok_keep ok_poll_clear) simp_all
  show "ok (idp (ids_ok X)) (\<lambda>x. snd (snd x)) (do_poll E r ptr n t k)" "ok (idp (ids_ok X)) (\<lambda>x. snd (snd x)) (do_ppoll E r ptr n t k)"
    unfolding do_ppoll_def by (intro p ok_rules)+
qed

lemma ok_sigsuspend [ok_keep]:
  "calm E \<Longrightarrow> idp (ids_ok X) k \<Longrightarrow> ok (idp (ids_ok X)) (\<lambda>x. snd (snd x)) (do_sigsuspend E r ptr k)"
  unfolding do_sigsuspend_def by (intro ok_rules ok_keep) (simp_all add: idp_keep)

lemma ok_sigreturn [ok_keep]: "idp Q k \<Longrightarrow> ok (idp Q) (\<lambda>x. snd (snd x)) (do_sigreturn r k)"
  unfolding do_sigreturn_def proc_sigreturn_def Let_def by (intro ok_rules ok_keep) (simp_all add: idp_keep)

section \<open>Birth and death\<close>

text \<open>Process \<open>c\<close> is not the one that runs.\<close>

abbreviation other :: "nat set \<Rightarrow> nat \<Rightarrow> id_table \<times> nat option \<Rightarrow> bool" where
  "other X c \<equiv> \<lambda>t. ids_ok X t \<and> snd t \<noteq> Some c"

lemma other_iff: "idp (other X c) k \<longleftrightarrow> idp (ids_ok X) k \<and> current_proc k \<noteq> Some c"
  by (simp add: idp_def ids_of)

lemma ok_weak: "ok P g m \<Longrightarrow> (\<And>k. P k \<Longrightarrow> P' k) \<Longrightarrow> ok P' g m"
  by (auto simp: ok_def)

lemma ids_ok_upd:
  assumes "idp (ids_ok X) k" and "c < PROC_MAX \<Longrightarrow> good Y c (f (procs k ! c))" and "\<And>j. j \<in> X \<Longrightarrow> j \<noteq> c \<Longrightarrow> j \<in> Y" and "current_proc k \<noteq> Some c"
  shows "idp (ids_ok Y) (upd_proc c f k)"
  unfolding ids_ok_iff
proof (intro conjI allI impI)
  show "tab Y (upd_proc c f k)" using assms(2,3) by (intro tab_upd [OF ids_ok_tab [OF assms(1)]]) auto
  fix i
  assume "current_proc (upd_proc c f k) = Some i"
  then have i: "current_proc k = Some i" "i \<noteq> c" using assms(4) by (auto simp: upd_proc_def)
  with assms(1) show "i < PROC_MAX" "p_used (procs (upd_proc c f k) ! i)" "p_state (procs (upd_proc c f k) ! i) \<noteq> PROC_ZOMBIE"
    by (auto simp: ids_ok_iff upd_proc_def)
qed

lemma ok_reap:
  assumes "idp (other X c) k"
  shows "ok (idp (other (X - {c}) c)) (\<lambda>k. k) (proc_reap P c k)"
proof -
  have zero: "idp (other (X - {c}) c) (upd_proc c (\<lambda>_. zero_proc) k)" if "idp (other X c) k" for k :: "'a kernel"
    using that ids_ok_upd [of X k c "X - {c}" "\<lambda>_. zero_proc"] by (auto simp: other_iff good_def zero_proc_def upd_proc_def)
  have "idp (other (X - {c}) c) k" if "\<not> p_used (procs k ! c)"
    using assms that by (auto simp: other_iff ids_ok_iff tab_def good_def)
  moreover have cur: "idp (other (X - {c}) c) (upd_proc c (\<lambda>_. zero_proc) (if current_proc k = Some c then k' else k))"
    if "idp (other X c) k" for k k' :: "'a kernel"
    using zero [OF that] that by (simp add: other_iff)
  ultimately show ?thesis unfolding proc_reap_def Let_def
    using assms by (intro ok_if ok_then1 [of "idp (other X c)"] ok_some cur ok_keep) (auto simp: idp_keep)
qed

text \<open>Process \<open>i\<close>, which is not the shell, runs and has made the entry \<open>c\<close>.\<close>

definition forking :: "nat \<Rightarrow> nat \<Rightarrow> id_table \<times> nat option \<Rightarrow> bool" where
  "forking i c t \<longleftrightarrow> ids_ok {c} t \<and> snd t = Some i \<and> i \<noteq> c \<and> fst (snd (fst t ! i)) \<noteq> 1"

lemma forking_iff:
  "idp (forking i c) k \<longleftrightarrow> idp (ids_ok {c}) k \<and> current_proc k = Some i \<and> i \<noteq> c \<and> p_pid (procs k ! i) \<noteq> 1"
  by (auto simp: idp_def forking_def ids_of id_of_def ids_ok_def running_ok_def)

lemma forking_other: "idp (forking i c) k \<Longrightarrow> idp (other {c} c) k"
  by (simp add: forking_iff other_iff)

lemma alloc_ids:
  assumes k: "idp (ids_ok {}) k" "current_proc k = Some i" "p_pid (procs k ! i) \<noteq> 1" and "proc_alloc nm ppid k = Some (x, k')"
  shows "case x of None \<Rightarrow> idp (ids_ok {}) k' | Some c \<Rightarrow> idp (forking i c) k'"
proof (cases "find_idx (\<lambda>p. \<not> p_used p) (procs k)")
  case None
  then show ?thesis using assms by (simp add: proc_alloc_def)
next
  case (Some c)
  have c: "\<not> p_used (procs k ! c)" using find_idx_SomeD [OF Some] by simp
  then have ic: "i \<noteq> c" using k(1,2) by (auto simp: ids_ok_iff)
  have fresh: "idp (forking i c) (upd_proc c f (k\<lparr>next_pid := a\<rparr>))" if "p_state (f (procs k ! c)) \<noteq> PROC_ZOMBIE" for f a
    using ids_ok_upd [of "{}" "k\<lparr>next_pid := a\<rparr>" c "{c}" f] k ic that by (auto simp: forking_iff good_def idp_keep upd_proc_def)
  have drop: "idp (ids_ok {}) (upd_proc c (\<lambda>p. p\<lparr>p_used := False\<rparr>) k)" if "idp (forking i c) k" for k :: "'a kernel"
    using ids_ok_upd [of "{c}" k c "{}"] that by (auto simp: forking_iff good_def)
  have mt: "mm_try f k1 = Some (a, k2) \<Longrightarrow> idp (forking i c) k2" if "idp (forking i c) k1" for f a and k1 k2 :: "'a kernel"
    using mm_try_ids [of f k1 a k2] that by (simp add: idp_def)
  from assms(4) show ?thesis
    by (auto simp: proc_alloc_def Some Let_def bind_eq_Some_conv idp_keep split: if_splits intro!: drop dest!: mt [rotated] intro: fresh)
qed

lemma ids_share [ids_keep]: "ids (snd (proc_space_share c i k)) = ids k" "ids (snd (proc_fdstate_share c i k)) = ids k"
  by (auto simp: proc_space_share_def proc_fdstate_share_def Let_def ids_keep)

lemmas idp_share = ids_share [THEN idp_cong]

lemma child_ids_ok:
  assumes "idp (forking i c) k" and "\<And>p. id_of (f p) = (p_used p, p_pid p, p_uid (procs k ! i), p_state p = PROC_ZOMBIE)"
  shows "idp (ids_ok {}) (upd_proc c f k)"
proof (rule ids_ok_upd)
  have i: "i < PROC_MAX" "p_used (procs k ! i)" "p_pid (procs k ! i) \<noteq> 1" "i \<notin> {c}" and t: "tab {c} k"
    using assms(1) by (auto simp: forking_iff ids_ok_iff)
  then have "p_uid (procs k ! i) \<noteq> 0" by (auto simp: tab_def good_def)
  moreover assume "c < PROC_MAX"
  with t have "good {c} c (procs k ! c)" by (simp add: tab_def)
  ultimately show "good {} c (f (procs k ! c))"
    using assms(2) [of "procs k ! c"] by (auto simp: good_def id_of_def)
qed (use assms in \<open>auto simp: forking_iff\<close>)

text \<open>The end of both calls: the child takes the identity of its parent, or is freed again.\<close>

lemma ok_no_child: "idp (forking i c) k \<Longrightarrow> ok (idp (ids_ok {})) snd (no_child E c k)"
  unfolding no_child_def
  by (rule ok_then1 [OF ok_reap [OF forking_other]]) (auto simp: other_iff intro: ok_some)

lemma ok_store_tid [ok_keep]:
  assumes "idp Q k"
  shows "ok (idp Q) (\<lambda>k. k) (store_ptid a v k)" "ok (idp Q) (\<lambda>k. k) (store_ctid c b a v k)"
  unfolding store_ptid_def store_ctid_def Let_def using assms by (intro ok_rules ok_keep; simp add: idp_keep)+

lemma idp_child [simp]:
  "idp Q (upd_proc c (child_regs r sp a b) k) = idp Q k" "idp Q (upd_proc c (clone_tls fl tls) k) = idp Q k"
  "idp Q (copy_fds E c k) = idp Q k"
  by (simp_all add: child_regs_def clone_tls_def copy_fds_def idp_keep Let_def)

lemma ok_clone_parts [ok_keep]:
  assumes "idp Q k"
  shows "ok (idp Q) snd (clone_space c i b k)" "ok (idp Q) snd (clone_fds E c i b k)"
  unfolding clone_space_def clone_fds_def using assms by (intro ok_rules ok_keep; simp add: idp_share)+

lemma fork_start:
  assumes "idp (ids_ok {}) k" and "user_proc k = Some i" and "\<And>c k. idp (forking i c) k \<Longrightarrow> ok (idp (ids_ok {})) snd (f c k)"
  shows "ok (idp (ids_ok {})) snd (proc_alloc nm ppid k \<bind> (\<lambda>(c, k). case c of None \<Rightarrow> Some (e, k) | Some c \<Rightarrow> f c k))"
proof -
  have "current_proc k = Some i" "p_pid (procs k ! i) \<noteq> 1" using assms(2) by (auto simp: user_proc_def split: option.splits if_splits)
  from alloc_ids [OF assms(1) this] show ?thesis
    using assms(3) by (cases "proc_alloc nm ppid k") (fastforce simp: ok_def split: option.splits)+
qed

lemma ok_fork [ok_keep]: "idp (ids_ok {}) k \<Longrightarrow> ok (idp (ids_ok {})) snd (do_fork E r k)"
proof (cases "user_proc k")
  case (Some i)
  assume k: "idp (ids_ok {}) k"
  have set: "idp (ids_ok {}) (upd_proc c (child_ids (procs k ! i)) k)" if "idp (forking i c) k"
    for c and k :: "'a kernel"
    using child_ids_ok [OF that, of "child_ids (procs k ! i)"] by (simp add: idp_keep child_ids_def id_of_def)
  show ?thesis unfolding do_fork_def Some option.case
    by (rule fork_start [OF k Some])
       (auto intro!: ok_then [of "idp (forking i _)"] ok_no_child ok_some set ok_keep simp: Let_def idp_keep)
qed (simp add: do_fork_def ok_some)

lemma ok_clone [ok_keep]: "idp (ids_ok {}) k \<Longrightarrow> ok (idp (ids_ok {})) snd (do_clone E r fl st a tls b k)"
proof (cases "user_proc k")
  case (Some i)
  assume k: "idp (ids_ok {}) k"
  have set: "idp (ids_ok {}) (upd_proc c (\<lambda>p. child_ids (procs k ! i) (p\<lparr>p_is_thread := t\<rparr>)) k)"
    if "idp (forking i c) k" for c t and k :: "'a kernel"
    using child_ids_ok [OF that, of "\<lambda>p. child_ids (procs k ! i) (p\<lparr>p_is_thread := t\<rparr>)"] by (simp add: idp_keep child_ids_def id_of_def)
  show ?thesis unfolding do_clone_def Some option.case
    by (rule fork_start [OF k Some])
       (auto intro!: ok_then [of "idp (forking i _)"] ok_bind1 ok_no_child ok_some set ok_keep simp: Let_def idp_keep)
qed (simp add: do_clone_def ok_some)

section \<open>Waiting for children\<close>

lemma zombie_other: "idp (ids_ok X) k \<Longrightarrow> p_state (procs k ! c) = PROC_ZOMBIE \<Longrightarrow> idp (other X c) k"
  by (auto simp: other_iff ids_ok_iff)

lemma ok_reap_zombie:
  "idp (ids_ok {}) k \<Longrightarrow> idp (other {} c) k \<Longrightarrow> ok (idp (ids_ok {})) (\<lambda>k. k) (proc_reap P c k)"
  by (rule ok_weak [OF ok_reap]) (auto simp: other_iff)

lemma ok_reap_reported [ok_keep]: "idp (ids_ok {}) k \<Longrightarrow> ok (idp (ids_ok {})) (\<lambda>k. k) (reap_reported E i k)"
  unfolding reap_reported_def by (intro ok_rules ok_reap_zombie) (auto simp: idp_keep intro: zombie_other)

lemma ok_wait_block [ok_keep]: "idp (ids_ok X) k \<Longrightarrow> ok (idp (ids_ok X)) (\<lambda>x. snd (snd x)) (wait_block r kind want ptr opt k)"
  unfolding wait_block_def by (intro ok_rules ok_keep) simp_all

lemma zombie_child: "find_zombie_child want k = Some c \<Longrightarrow> p_state (procs k ! c) = PROC_ZOMBIE"
  by (auto simp: find_zombie_child_def split: option.splits dest: find_idx_SomeD)

text \<open>Reporting a zombie: a store to the caller, then the entry is freed.\<close>

lemma ok_report:
  assumes "idp (ids_ok {}) k" and "find_zombie_child want k = Some c" and "ok (idp (other {} c)) (\<lambda>k. k) m"
  shows "ok (idp (ids_ok {})) (\<lambda>x. snd (snd x)) (m \<bind> (\<lambda>k. proc_reap P c k \<bind> (\<lambda>k. Some (v, r, k))))"
  by (rule ok_then1 [OF assms(3)]) (intro ok_bind1 ok_reap_zombie ok_some; simp add: other_iff)

lemma ok_wait [ok_keep]:
  assumes k: "idp (ids_ok {}) k"
  shows "ok (idp (ids_ok {})) (\<lambda>x. snd (snd x)) (do_wait4 E r a b c k)"
    "ok (idp (ids_ok {})) (\<lambda>x. snd (snd x)) (do_waitid E r t a b c k)"
proof -
  have o: "idp (ids_ok {}) k \<Longrightarrow> find_zombie_child want k = Some d \<Longrightarrow> idp (other {} d) k" for want d and k :: "'a kernel"
    using zombie_child zombie_other by blast
  show "ok (idp (ids_ok {})) (\<lambda>x. snd (snd x)) (do_wait4 E r a b c k)"
    unfolding do_wait4_def Let_def using k by (intro ok_if ok_option ok_bind1 ok_report ok_some ok_keep) (auto intro: o)
  show "ok (idp (ids_ok {})) (\<lambda>x. snd (snd x)) (do_waitid E r t a b c k)"
    unfolding do_waitid_def Let_def using k by (intro ok_if ok_option ok_bind1 ok_report ok_some ok_keep) (auto intro: o)
qed

section \<open>Identity calls and signals\<close>

lemma setuid_ok: "idp (ids_ok {}) k \<Longrightarrow> idp (ids_ok {}) (snd (sys_setuid uid k))"
proof (cases "current_proc k")
  case (Some i)
  assume k: "idp (ids_ok {}) k"
  then have i: "i < PROC_MAX" "p_used (procs k ! i)" "p_state (procs k ! i) \<noteq> PROC_ZOMBIE" "good {} i (procs k ! i)"
    using Some by (auto simp: ids_ok_iff tab_def)
  define f where "f = (\<lambda>p :: proc_t. p\<lparr>p_uid := uid\<rparr>)"
  have "tab {} (upd_proc i f k)" if "p_uid (procs k ! i) \<noteq> 0 \<Longrightarrow> uid = p_uid (procs k ! i)"
    using that i by (intro tab_upd [OF ids_ok_tab [OF k]]) (auto simp: good_def f_def)
  moreover have "procs (upd_proc i f k) ! i = f (procs k ! i)" using i(1) k by (simp add: upd_proc_def ids_ok_iff tab_def)
  ultimately have "idp (ids_ok {}) (upd_proc i f k)" if "p_uid (procs k ! i) \<noteq> 0 \<Longrightarrow> uid = p_uid (procs k ! i)"
    using that i Some by (auto simp: ids_ok_iff f_def upd_proc_def)
  then show ?thesis using k by (auto simp: sys_setuid_def Some f_def)
qed (simp add: sys_setuid_def)

lemma kill_state: "flow_state (kill_current r code flt k) = flow_state (proc_exit_current r code flt k)"
  by (simp add: kill_current_def split: flow.split)

lemma ok_push_frame: "idp Q k \<Longrightarrow> ok (idp Q) snd (push_signal_frame i sg h r k)"
  unfolding push_signal_frame_def Let_def by (intro ok_rules ok_keep) (simp_all add: idp_keep)

lemma deliver_loop_ids:
  assumes "deliver_loop i r k = Some x"
  shows "(idp (ids_ok X) k \<longrightarrow> idp (ids_ok X) (flow_state x)) \<and> (\<forall>r' k'. x = Back (False, r') k' \<longrightarrow> ids k' = ids k)"
  using assms
proof (induction rule: deliver_loop.raw_induct [rotated, consumes 1, case_names step])
  case (step rec i r k x)
  have pend: "ids (upd_proc i (\<lambda>p. p\<lparr>p_sig_pending := p_sig_pending p AND NOT (sig_bit sg)\<rparr>) k) = ids k" for sg by (simp add: ids_keep)
  have push: "push_signal_frame i sg h r k1 = Some (r', k') \<Longrightarrow> idp Q k1 \<Longrightarrow> idp Q k'" for Q sg h r' k' and k1 :: "'a kernel"
    using ok_push_frame [of Q k1] by (force simp: ok_def)
  have kill: "idp (ids_ok X) (flow_state (kill_current r code flt k1))" if "idp (ids_ok X) k1" for code flt and k1 :: "'a kernel"
    using exit_ok [OF that] by (simp add: kill_state)
  have nf: "kill_current r code flt k1 \<noteq> Back (False, r') k'" for code flt r' k' and k1 :: "'a kernel"
    by (auto simp: kill_current_def split: flow.splits)
  from step(2) show ?case
    by (auto simp: Let_def bind_eq_Some_conv pend idp_cong [OF pend] split: option.splits if_splits dest!: step(1) push
        intro!: kill simp: nf)
qed

lemmas deliver_loop_ok = deliver_loop_ids [THEN conjunct1, rule_format]
  and deliver_loop_same = deliver_loop_ids [THEN conjunct2, rule_format]

lemma deliver_ok: "idp (ids_ok X) k \<Longrightarrow> ok (idp (ids_ok X)) flow_state (proc_signal_deliver r k)"
  unfolding proc_signal_deliver_def by (auto simp: ok_def split: option.split dest: deliver_loop_ok)

lemma deliver_unchanged: "proc_signal_deliver r k = Some (Back (False, r') k') \<Longrightarrow> ids k' = ids k"
  by (auto simp: proc_signal_deliver_def split: option.splits if_splits dest: deliver_loop_same)

section \<open>Interrupts\<close>

lemma preempt_ok: "idp (runs X i) k \<Longrightarrow> idp (ids_ok X) (snd (preempt i r k))"
proof -
  assume k: "idp (runs X i) k"
  define k1 where "k1 = upd_proc i (\<lambda>p. p\<lparr>p_state := PROC_READY\<rparr>) (proc_save_state i (proc_save_ctx i r k))"
  have k1: "idp (runs X i) k1" unfolding k1_def using k by (intro runs_state [of _ _ _ PROC_READY]) (simp_all add: idp_keep)
  have "idp (runs X i) (upd_proc i (\<lambda>p. p\<lparr>p_state := PROC_RUNNING\<rparr>) k1)"
    using k1 by (rule runs_state [of _ _ _ PROC_RUNNING]) simp_all
  then show ?thesis using sched_load_ok [OF ids_ok_tab, of X k1 "Some i"] k1
    by (auto simp: preempt_def Let_def runs_iff split: option.split simp flip: k1_def)
qed

lemma sched_tick_ok: "idp (ids_ok X) k \<Longrightarrow> ok (idp (ids_ok X)) flow_state (proc_sched_tick r k)"
proof (cases "current_proc k")
  case (Some i)
  assume k: "idp (ids_ok X) k"
  then have r: "idp (runs X i) k" using Some by (simp add: runs_iff)
  have go: "ok (idp (ids_ok X)) flow_state (do { d \<leftarrow> proc_signal_deliver r k;
      case d of Shell k \<Rightarrow> Some (Shell k)
      | Back (changed, r) k \<Rightarrow> if changed \<and> (frame_switched k \<or> current_proc k \<noteq> Some i) then Some (Back r k)
          else (case preempt i r k of (r, k) \<Rightarrow> Some (Back r k)) })" if k: "idp (runs X i) k" for k :: "'a kernel"
  proof -
    have d: "idp (ids_ok X) (flow_state d)" if "proc_signal_deliver r k = Some d" for d
      using deliver_ok [of X k r] k that by (simp add: runs_iff ok_def)
    have p: "idp (ids_ok X) (snd (preempt i r' k'))"
      if "proc_signal_deliver r k = Some (Back (b, r') k')" "b \<longrightarrow> current_proc k' = Some i" for b r' k'
    proof (rule preempt_ok)
      show "idp (runs X i) k'"
      proof (cases b)
        case True
        then show ?thesis using d [OF that(1)] that(2) by (simp add: runs_iff)
      next
        case False
        then show ?thesis using deliver_unchanged [of r k r' k'] that(1) k by (simp add: idp_def)
      qed
    qed
    show ?thesis
    proof (cases "proc_signal_deliver r k")
      case None
      then show ?thesis by (simp add: ok_none)
    next
      case (Some x)
      then show ?thesis
      proof (cases x)
        case (Back y k')
        then show ?thesis using Some d [of x] p [of "fst y" "snd y" k'] by (auto simp: ok_def split_beta)
      qed (use d [of x] in \<open>simp add: ok_def\<close>)
    qed
  qed
  show ?thesis unfolding proc_sched_tick_def Some option.case
    using k r by (auto intro!: ok_then [of "idp (runs X i)"] ok_if ok_some go ok_fdstate_alloc simp: runs_iff)
qed (simp add: proc_sched_tick_def ok_some)

lemma timer_ok: "idp (ids_ok X) k \<Longrightarrow> ok (idp (ids_ok X)) flow_state (timer_handler r k)"
  unfolding timer_handler_def by (rule sched_tick_ok) (simp add: idp_keep)

lemma isr_ok: "idp (ids_ok X) k \<Longrightarrow> isr_handler cr2 r k = Iret r' k' \<Longrightarrow> idp (ids_ok X) k'"
proof -
  have fault: "idp (ids_ok X) k'" if "idp (ids_ok X) k" "user_handle_fault r k = Iret r' k'" for k k' :: "'a kernel"
    using exit_ok [of X "k\<lparr>u_faulted := True, u_active := False\<rparr>" r 139 True] that
    by (auto simp: user_handle_fault_def idp_keep split: flow.splits)
  have call: "idp (ids_ok X) k'" if "idp (ids_ok X) k" "mm_call f k = (b, k')" for f b and k k' :: "'a kernel"
    using mm_call_ids [OF that(2)] that(1) by (simp add: idp_def)
  show "idp (ids_ok X) k \<Longrightarrow> isr_handler cr2 r k = Iret r' k' \<Longrightarrow> idp (ids_ok X) k'"
    by (auto simp: isr_handler_def Let_def split: if_splits option.splits prod.splits dest: call fault)
qed

section \<open>The dispatcher\<close>

definition row_ok :: "'h sys_row \<Rightarrow> bool" where
  "row_ok row \<longleftrightarrow> (\<forall>r k. idp (ids_ok {}) k \<longrightarrow> ok (idp (ids_ok {})) flow_state (snd row r k))"

lemma ok_ret: "P (snd x) \<Longrightarrow> ok P flow_state (ret r x)"
  by (cases x) (simp add: ok_def ret_def)

lemma row_ok_ret: "(\<And>r k. idp (ids_ok {}) k \<Longrightarrow> idp (ids_ok {}) (snd (f r k))) \<Longrightarrow> row_ok (ns, \<lambda>r k. ret r (f r k))"
  unfolding row_ok_def snd_conv by (intro allI impI ok_ret)

lemma ok_ret_try: "ok P snd m \<Longrightarrow> ok P flow_state (ret_try r m)"
  by (cases m) (simp_all add: ok_def ret_try_def split_beta)

lemma ok_ret_frame: "ok P (\<lambda>x. snd (snd x)) m \<Longrightarrow> ok P flow_state (ret_frame m)"
  by (cases m) (simp_all add: ok_def ret_frame_def split_beta)

lemma row_ok_try: "(\<And>r k. idp (ids_ok {}) k \<Longrightarrow> ok (idp (ids_ok {})) snd (g r k)) \<Longrightarrow> row_ok (ns, \<lambda>r k. ret_try r (g r k))"
  unfolding row_ok_def snd_conv by (intro allI impI ok_ret_try) blast

lemma row_ok_frame:
  "(\<And>r k. idp (ids_ok {}) k \<Longrightarrow> ok (idp (ids_ok {})) (\<lambda>x. snd (snd x)) (g r k)) \<Longrightarrow> row_ok (ns, \<lambda>r k. ret_frame (g r k))"
  unfolding row_ok_def snd_conv by (intro allI impI ok_ret_frame) blast

lemma row_ok_const: "row_ok (ns, const v)"
  unfolding row_ok_def snd_conv const_def by (intro allI impI ok_some) simp

lemma row_ok_if: "row_ok (ns, f) \<Longrightarrow> row_ok (ns, g) \<Longrightarrow> row_ok (ns, \<lambda>r k. if b r then f r k else g r k)"
  unfolding row_ok_def snd_conv by (intro allI impI ok_if) blast+

lemma row_ok_exit: "row_ok (ns, sys_exit)"
proof -
  have "flow_state (case x of Back r k \<Rightarrow> Back (0, r) k | Shell k \<Rightarrow> Shell k) = flow_state x" for x :: "(registers_t, 'a kernel) flow"
    by (simp split: flow.split)
  then have s: "sys_exit r k = Some y \<Longrightarrow> flow_state y = flow_state (proc_exit_current r (sint (r_ebx r)) False (user_set_active False k))" for r y
    and k :: "'a kernel"
    by (auto simp: sys_exit_def split: flow.splits)
  show ?thesis unfolding row_ok_def snd_conv ok_def using s by (intro allI impI) (simp add: exit_ok idp_keep)
qed

lemma rows_ok: "calm E \<Longrightarrow> row \<in> set (syscall_rows E) \<Longrightarrow> row_ok row"
proof -
  assume E: "calm E"
  have "list_all row_ok (process_rows E)" "list_all row_ok (socket_rows E)" "list_all row_ok (name_rows E)"
    "list_all row_ok (file_rows E)" "list_all row_ok (signal_rows E)" "list_all row_ok (identity_rows E)"
    unfolding process_rows_def socket_rows_def name_rows_def file_rows_def signal_rows_def identity_rows_def
    by (intro list.pred_inject(1) list.pred_inject(2) [THEN iffD2] conjI row_ok_ret row_ok_try row_ok_frame row_ok_const row_ok_if
        row_ok_exit ok_keep; simp add: E idp_keep idp_sockets setuid_ok)+
  then show "row \<in> set (syscall_rows E) \<Longrightarrow> row_ok row" by (auto simp: syscall_rows_def list_all_iff)
qed

lemma dispatch_ok: "calm E \<Longrightarrow> idp (ids_ok {}) k \<Longrightarrow> ok (idp (ids_ok {})) flow_state (dispatch E r k)"
proof (cases "find (\<lambda>row. r_eax r \<in> set (fst row)) (syscall_rows E)")
  case (Some row)
  assume E: "calm E" and k: "idp (ids_ok {}) k"
  have "row \<in> set (syscall_rows E)" using Some by (auto simp: find_Some_iff)
  from rows_ok [OF E this] k show ?thesis by (simp add: dispatch_def Some row_ok_def)
qed (simp add: dispatch_def const_def ok_some)

lemma syscall_back:
  assumes "syscall_handler E r k = Some (Back r' k')"
  obtains v r1 k1 y where "dispatch E r (proc_clear_frame_switched k) = Some (Back (v, r1) k1)"
    and "proc_signal_deliver (if proc_frame_switched k1 then r1 else r1\<lparr>r_eax := v\<rparr>) k1 = Some (Back y k')"
proof (cases "dispatch E r (proc_clear_frame_switched k)")
  case (Some out)
  show ?thesis
  proof (cases out)
    case (Back vr k1)
    obtain v r1 where vr: "vr = (v, r1)" by force
    from assms obtain d where d: "proc_signal_deliver (if proc_frame_switched k1 then r1 else r1\<lparr>r_eax := v\<rparr>) k1 = Some d"
      "(case d of Back (_, r) k \<Rightarrow> Back r k | Shell k \<Rightarrow> Shell k) = Back r' k'"
      by (auto simp: syscall_handler_def Some Back vr bind_eq_Some_conv)
    then show ?thesis using that Some Back vr by (cases d) auto
  qed (use assms Some in \<open>simp add: syscall_handler_def\<close>)
qed (use assms in \<open>simp add: syscall_handler_def\<close>)

lemma syscall_ok:
  assumes E: "calm E" and k: "idp (ids_ok {}) k" and "syscall_handler E r k = Some (Back r' k')"
  shows "idp (ids_ok {}) k'"
proof -
  have d: "ok (idp (ids_ok {})) flow_state (dispatch E r (proc_clear_frame_switched k))"
    using k by (intro dispatch_ok [OF E]) (simp add: idp_keep)
  have deliver: "idp (ids_ok {}) k2" if "idp (ids_ok {}) k1" "proc_signal_deliver r k1 = Some (Back y k2)" for r y and k1 k2 :: "'a kernel"
    using deliver_ok [OF that(1), of r] that(2) by (simp add: ok_def)
  from assms(3) show ?thesis
    by (rule syscall_back) (use d in \<open>auto simp: ok_def intro: deliver\<close>)
qed

section \<open>Nobody becomes root\<close>

text \<open>No process but the shell runs as root.\<close>

definition rootless :: "'h kernel \<Rightarrow> bool" where
  "rootless k \<longleftrightarrow> (\<forall>p \<in> set (procs k). p_used p \<and> p_pid p \<noteq> 1 \<longrightarrow> p_uid p \<noteq> 0)"

text \<open>The shell is no zombie, and neither is the process that runs.\<close>

definition procs_wf :: "'h kernel \<Rightarrow> bool" where
  "procs_wf k \<longleftrightarrow> length (procs k) = PROC_MAX \<and>
     (\<forall>p \<in> set (procs k). p_used p \<and> p_pid p = 1 \<longrightarrow> p_state p \<noteq> PROC_ZOMBIE) \<and>
     (case current_proc k of None \<Rightarrow> True
      | Some i \<Rightarrow> i < PROC_MAX \<and> p_used (procs k ! i) \<and> p_state (procs k ! i) \<noteq> PROC_ZOMBIE)"

lemma rootless_iff: "idp (ids_ok {}) k \<longleftrightarrow> rootless k \<and> procs_wf k"
  by (auto simp: ids_ok_iff rootless_def procs_wf_def tab_def good_def all_set_conv_all_nth split: option.split)

lemma machine_step_ids:
  assumes "machine_step E s t" and "calm E" and "idp (ids_ok {}) (snd s)"
  shows "idp (ids_ok {}) (snd t)"
  using assms
proof (cases rule: machine_step.cases)
  case (Tick r k r' k')
  then show ?thesis using timer_ok [of "{}" k r] assms(3) by (simp add: ok_def)
qed (auto simp: idp_keep intro: syscall_ok isr_ok)

text \<open>C0: a system in which only the shell is root stays one: whatever the processes do, and whatever calls, timer
  ticks and exceptions happen in whatever order, no process gains the identity of root.  Processes get their user from
  \<^verbatim>\<open>fork\<close>, \<^verbatim>\<open>clone\<close> and \<^verbatim>\<open>setuid\<close> alone.  The process table is not part of the memory a
  program can reach, and the interrupts taken while a call waits and the network stack leave it alone.\<close>

theorem no_root_gain:
  assumes "calm E" and "procs_wf k" and "rootless k" and "rtranclp (machine_step E) (r, k) (r', k')"
  shows "rootless k' \<and> procs_wf k'"
proof -
  have "idp (ids_ok {}) (snd t)" if "rtranclp (machine_step E) s t" "idp (ids_ok {}) (snd s)" for s t
    using that by (induction rule: rtranclp_induct) (auto intro: machine_step_ids assms(1))
  from this [OF assms(4)] show ?thesis using assms(2,3) by (simp add: rootless_iff)
qed

definition tick_demo :: "drive kernel \<Rightarrow> drive kernel" where
  "tick_demo k = proc_tick_all (k\<lparr>k_pit := pit_tick (k_pit k)\<rparr>)"

definition users_demo :: "drive kernel" where
  "users_demo = kernel_demo\<lparr>procs := map (\<lambda>p. p\<lparr>p_uid := 1000\<rparr>) table_demo\<rparr>"

lemma calm_demo: "calm (env_demo\<lparr>e_idle := tick_demo\<rparr>)"
  by (simp add: calm_def env_demo_def net_demo_def tick_demo_def ids_keep)

lemma users_demo_ok: "procs_wf users_demo" "rootless users_demo"
  by (auto simp: procs_wf_def rootless_def users_demo_def kernel_demo_simps table_demo_def proc_demo_def zero_proc_def PROC_MAX_def)

lemma setuid_row: "dispatch E (call_demo 23) k = ret (call_demo 23) (sys_setuid (r_ebx frame_demo) k)"
  by (simp add: dispatch_def syscall_rows_def process_rows_def socket_rows_def name_rows_def file_rows_def signal_rows_def
      identity_rows_def call_demo_def frame_demo_def)

lemma setuid_demo: "\<exists>k'. syscall_handler E (call_demo 23) users_demo = Some (Back (call_demo (err ERR_EPERM)) k')"
proof -
  define k where "k = proc_clear_frame_switched users_demo"
  have k: "current_proc k = Some 1" "procs k = map (\<lambda>p. p\<lparr>p_uid := 1000\<rparr>) table_demo" "\<not> proc_frame_switched k"
    by (simp_all add: k_def users_demo_def proc_clear_frame_switched_def proc_frame_switched_def kernel_demo_simps)
  have t: "p_sig_pending (procs k ! 1) = 0" "p_uid (procs k ! 1) = 1000"
    by (simp_all add: k table_demo_def proc_demo_def zero_proc_def)
  have "sys_setuid (r_ebx frame_demo) k = (err ERR_EPERM, k)" using t by (simp add: sys_setuid_def k(1) frame_demo_def)
  then have "syscall_handler E (call_demo 23) users_demo = Some (Back (call_demo 23\<lparr>r_eax := err ERR_EPERM\<rparr>) k)"
    using k deliver_none [OF k(1) t(1), of "call_demo 23\<lparr>r_eax := err ERR_EPERM\<rparr>"]
    by (simp add: syscall_handler_def setuid_row ret_def flip: k_def)
  then show ?thesis by (simp add: call_demo_def)
qed

theorem no_root_gain_witness:
  "\<exists>k'. rtranclp (machine_step (env_demo\<lparr>e_idle := tick_demo\<rparr>)) (call_demo 23, users_demo) (call_demo (err ERR_EPERM), k') \<and>
     rootless k'"
proof -
  obtain k' where "syscall_handler (env_demo\<lparr>e_idle := tick_demo\<rparr>) (call_demo 23) users_demo = Some (Back (call_demo (err ERR_EPERM)) k')"
    using setuid_demo by blast
  then have run: "rtranclp (machine_step (env_demo\<lparr>e_idle := tick_demo\<rparr>)) (call_demo 23, users_demo) (call_demo (err ERR_EPERM), k')"
    by (intro r_into_rtranclp machine_step.Call)
  from no_root_gain [OF calm_demo users_demo_ok run] run show ?thesis by blast
qed

end
