(* ===== verification/User_Memory.thy ===== *)
theory User_Memory
  imports Syscall Sched Vm_Properties
begin

text \<open>
  The memory of a process as the kernel's own loads and stores see it, over the copy-on-write address
  spaces: a store changes one byte of the running process and nothing of any other.
\<close>

declare drop_bit_and [simp del] drop_bit_or [simp del]

section \<open>The running process and its memory\<close>

definition mem_ok :: "u32 set \<Rightarrow> 'h kernel \<Rightarrow> bool" where
  "mem_ok D k \<longleftrightarrow> cow_ok (k_mm k) D \<and> active_pd k \<in> D \<and> u_active k \<and>
     (\<exists>i. current_proc k = Some i \<and> p_pd_phys (procs k ! i) = active_pd k)"

text \<open>The byte at address \<open>a\<close> of the process with directory \<open>pd\<close>.\<close>

definition ubyte :: "'h kernel \<Rightarrow> u32 \<Rightarrow> u32 \<Rightarrow> u8 option" where
  "ubyte k pd a = uread (pmem (k_mm k)) pd (frame a) (a AND 0xFFF)"

definition user_va :: "u32 \<Rightarrow> bool" where
  "user_va a \<longleftrightarrow> USER_BASE \<le> a \<and> a < USER_END"

lemma user_va_window: "user_va a \<Longrightarrow> frame a \<in> window"
proof -
  assume a: "user_va a"
  then have "0x08048000 \<le> unat a" "unat a < 0x08848000"
    by (simp_all add: user_va_def USER_BASE_def USER_END_def USER_SIZE_def word_le_nat_alt word_less_nat_alt)
  then have "0x8000 \<le> unat a div 4096" "unat a div 4096 < 0x8C00" by auto
  then show ?thesis by (simp add: window_iff word_le_nat_alt word_less_nat_alt drop_bit_eq_div unat_div)
qed

lemma mem_okD:
  assumes "mem_ok D k"
  shows "cow_ok (k_mm k) D" "active_pd k \<in> D" "dirs_ok (pmem (k_mm k)) (used_set (k_mm k)) (page_dir_phys (k_mm k)) D"
    "frames_inv (k_mm k)" "active_pd k \<noteq> 0"
proof -
  show c: "cow_ok (k_mm k) D" "active_pd k \<in> D" using assms by (simp_all add: mem_ok_def)
  show d: "dirs_ok (pmem (k_mm k)) (used_set (k_mm k)) (page_dir_phys (k_mm k)) D" "frames_inv (k_mm k)"
    using vm_okD [OF cow_okD(1) [OF c(1)]] by auto
  show "active_pd k \<noteq> 0" by (rule dirs_okD(2) [OF d(1) c(2)])
qed

lemma vm_entry_pte:
  assumes "mem_ok D k" and "user_va a"
  shows "vm_entry a k = (if present (pte (pmem (k_mm k)) (active_pd k) (frame a))
    then Some (pte (pmem (k_mm k)) (active_pd k) (frame a)) else None)"
proof -
  note up = user_pte_window [OF mem_okD(3,2) [OF assms(1)] user_va_window [OF assms(2)]]
  show ?thesis
    using up(4) up(3) [OF pte_pde] by (auto simp: vm_entry_def Let_def)
qed

lemma vload8_ubyte: "mem_ok D k \<Longrightarrow> user_va a \<Longrightarrow> vload8 a k = ubyte k (active_pd k) a"
  by (simp add: vload8_def vm_entry_pte ubyte_def uread_def)

text \<open>The states in which only the memory has changed.\<close>

definition mm_only :: "'h kernel \<Rightarrow> 'h kernel \<Rightarrow> bool" where
  "mm_only k k' \<longleftrightarrow> k' = k\<lparr>k_mm := k_mm k'\<rparr> \<and> cr3 (k_mm k') AND PAGE_MASK = cr3 (k_mm k) AND PAGE_MASK"

lemma mm_only_refl [simp]: "mm_only k k"
  by (simp add: mm_only_def)

lemma mm_only_trans: "mm_only a b \<Longrightarrow> mm_only b c \<Longrightarrow> mm_only a c"
  unfolding mm_only_def by (metis (no_types, lifting) kernel.surjective kernel.update_convs(1) kernel.ext_inject)

section \<open>One byte\<close>

lemma addr_split: "frame a = frame c \<Longrightarrow> a AND 0xFFF = c AND 0xFFF \<Longrightarrow> a = (c::u32)"
proof -
  assume "frame a = frame c" "a AND 0xFFF = c AND 0xFFF"
  then have "unat a div 4096 = unat c div 4096" "unat a mod 4096 = unat c mod 4096"
    by (auto simp: drop_bit_eq_div and_fff dest!: arg_cong [of _ _ unat] simp: unat_div unat_mod)
  then have "unat a = unat c" by (metis mult_div_mod_eq)
  then show ?thesis by (simp add: word_unat_eq_iff)
qed

text \<open>A store of \<open>b\<close> at address \<open>a\<close> of the running process.\<close>

definition stored :: "u32 set \<Rightarrow> u32 \<Rightarrow> u8 \<Rightarrow> 'h kernel \<Rightarrow> 'h kernel \<Rightarrow> bool" where
  "stored D a b k k' \<longleftrightarrow> mem_ok D k' \<and> mm_only k k' \<and>
     (\<forall>pd \<in> D. \<forall>c. frame c \<in> window \<longrightarrow> ubyte k' pd c = (if pd = active_pd k \<and> c = a then Some b else ubyte k pd c))"

lemma offset_lt: "(a::u32) AND 0xFFF < 4096"
  by (simp add: and_fff word_less_nat_alt unat_mod)

lemma mem_ok_mm:
  assumes "mem_ok D k" and "cow_ok m D" and "cr3 m AND PAGE_MASK = cr3 (k_mm k) AND PAGE_MASK"
  shows "mem_ok D (k\<lparr>k_mm := m\<rparr>)" "mm_only k (k\<lparr>k_mm := m\<rparr>)"
  using assms by (simp_all add: mem_ok_def mm_only_def active_pd_def mm_get_current_pd_def)

lemma vput8_stored:
  assumes ok: "mem_ok D k" and a: "user_va a" and "vput8 a b k = Some k'"
  shows "stored D a b k k'"
proof -
  let ?s = "k_mm k" and ?pd = "active_pd k"
  let ?e = "pte (pmem ?s) ?pd (frame a)"
  note v = user_va_window [OF a]
  from assms(3) have e: "present ?e" "writable ?e" and k': "k' = k\<lparr>k_mm := ?s\<lparr>pmem := (pmem ?s)((?e AND PAGE_MASK) + (a AND 0xFFF) := b)\<rparr>\<rparr>"
    by (auto simp: vput8_def vm_entry_pte [OF ok a] writable_def split: if_splits)
  have t: "mm_user_translate ?pd a ?s = (?e AND PAGE_MASK) + (a AND 0xFFF)"
    using user_pte_window(3,4) [OF mem_okD(3,2) [OF ok] v] pte_pde [OF e(1)] e(1) by (simp add: mm_user_translate_def Let_def)
  define m where "m = (pmem ?s)((?e AND PAGE_MASK) + (a AND 0xFFF) := b)"
  note w = user_write [OF mem_okD(1,2) [OF ok] v e, where b = b, unfolded t, folded m_def]
  have "frame ((?e AND PAGE_MASK) + (a AND 0xFFF)) = frame ?e" by (rule frame_offset [OF offset_lt])
  then have agree: "\<forall>x. frame x \<in> struct_frames (pmem ?s) D \<longrightarrow> m x = pmem ?s x"
    using dirs_okD(7) [OF mem_okD(3,2) [OF ok] v e(1)] by (auto simp: m_def)
  have "vm_ok (?s\<lparr>pmem := m\<rparr>) D" using dirs_ok_same [OF mem_okD(3) [OF ok] agree] mem_okD(4) [OF ok] by (simp add: vm_ok_def)
  then have cow: "cow_ok (?s\<lparr>pmem := m\<rparr>) D" by (rule cow_transfer [OF mem_okD(1) [OF ok]]) (simp_all add: w(1))
  have "ubyte k' pd c = (if pd = ?pd \<and> c = a then Some b else ubyte k pd c)" if "pd \<in> D" "frame c \<in> window" for pd c
    using w(2) [OF that offset_lt, of c] addr_split [of c a] by (auto simp: ubyte_def k' simp flip: m_def)
  then show ?thesis using mem_ok_mm [OF ok cow] by (simp add: stored_def k' flip: m_def)
qed

lemma make_writable_cr3:
  assumes "mm_user_make_writable pd va s = (b, s')" and "page_aligned pd" and "pd \<noteq> 0"
  shows "cr3 s' AND PAGE_MASK = cr3 s AND PAGE_MASK"
proof -
  define reload where "reload = (\<lambda>s :: 'a mm_state_scheme. if mm_get_current_pd s = pd then mm_switch_pd pd s else s)"
  have r: "cr3 (reload t) AND PAGE_MASK = cr3 t AND PAGE_MASK" for t
    using assms(2,3) by (simp add: reload_def mm_get_current_pd_def mm_switch_pd_def page_aligned_mask_id)
  have al: "cr3 t = cr3 s" if "mm_alloc_page s = (a, t)" for a t
    using that by (auto simp: mm_alloc_page_def Let_def split: if_splits)
  show ?thesis using assms(1)
    by (auto simp: mm_user_make_writable_def Let_def r al split: if_splits prod.splits simp flip: reload_def)
qed

lemma vstore8_stored:
  assumes ok: "mem_ok D k" and a: "user_va a" and "vstore8 a b k = Some k'"
  shows "stored D a b k k'"
proof (cases "vput8 a b k")
  case (Some x)
  then show ?thesis using assms vput8_stored by (simp add: vstore8_def)
next
  case None
  then obtain k1 where f: "cow_fault a k = Some k1" and p: "vput8 a b k1 = Some k'"
    using assms(3) by (auto simp: vstore8_def split: option.splits)
  obtain i where i: "current_proc k = Some i" "p_pd_phys (procs k ! i) = active_pd k" using ok by (auto simp: mem_ok_def)
  from f obtain m where m: "mm_user_make_writable (active_pd k) a (k_mm k) = (True, m)" "k1 = k\<lparr>k_mm := m\<rparr>"
    by (auto simp: cow_fault_def i Let_def mm_call_def split: if_splits prod.splits)
  have step: "cow_step (k_mm k) m D (active_pd k) (frame a)"
    using make_writable_cases [OF mem_okD(1,2) [OF ok] user_va_window [OF a]] m(1) by force
  have c: "cr3 m AND PAGE_MASK = cr3 (k_mm k) AND PAGE_MASK"
    by (rule make_writable_cr3 [OF m(1) dirs_okD(1) [OF mem_okD(3,2) [OF ok]] mem_okD(5) [OF ok]])
  have k1: "mem_ok D k1" "mm_only k k1" using mem_ok_mm [OF ok _ c] step by (simp_all add: m(2) cow_step_def)
  have "ubyte k1 pd x = ubyte k pd x" if "pd \<in> D" "frame x \<in> window" for pd x
    using step that offset_lt [of x] by (simp add: cow_step_def same_view_def ubyte_def m(2))
  moreover have "active_pd k1 = active_pd k" using k1(2) by (simp add: mm_only_def active_pd_def mm_get_current_pd_def)
  ultimately show ?thesis
    using vput8_stored [OF k1(1) a p] mm_only_trans [OF k1(2)] by (simp add: stored_def)
qed

section \<open>Ranges\<close>

definition user_range :: "u32 \<Rightarrow> nat \<Rightarrow> bool" where
  "user_range a n \<longleftrightarrow> USER_BASE \<le> a \<and> unat a + n \<le> unat USER_END"

lemma user_window_nat: "unat USER_BASE = 0x08048000" "unat USER_END = 0x08848000" "unat USER_SIGTRAMP = 0x08847000"
  by (simp_all add: USER_SIGTRAMP_def USER_BASE_def USER_END_def USER_SIZE_def)

lemma user_range_Suc:
  assumes "user_range a (Suc n)"
  shows "user_va a" "user_range (a + 1) n" "unat (a + 1) = unat a + 1"
proof -
  have b: "unat a + 1 < 2 ^ 32" using assms by (simp add: user_range_def user_window_nat)
  then show s: "unat (a + 1) = unat a + 1" by (simp add: unat_word_ariths(1))
  show "user_va a" "user_range (a + 1) n"
    using assms s by (simp_all add: user_range_def user_va_def user_window_nat word_le_nat_alt word_less_nat_alt)
qed

lemma user_ptr_range: "user_ptr_ok a n \<longleftrightarrow> user_range a (unat n)"
proof -
  have "unat (USER_END - a) = unat USER_END - unat a" if "a \<le> USER_END" using that by (rule unat_sub)
  then show ?thesis by (auto simp: user_ptr_ok_def user_range_def not_less word_le_nat_alt)
qed

text \<open>A store of several bytes, at offset \<open>unat (c - a)\<close> of the range for address \<open>c\<close>.\<close>

definition wrote :: "u32 set \<Rightarrow> u32 \<Rightarrow> u8 list \<Rightarrow> 'h kernel \<Rightarrow> 'h kernel \<Rightarrow> bool" where
  "wrote D a bs k k' \<longleftrightarrow> mem_ok D k' \<and> mm_only k k' \<and>
     (\<forall>pd \<in> D. \<forall>c. frame c \<in> window \<longrightarrow>
        ubyte k' pd c = (if pd = active_pd k \<and> unat (c - a) < length bs then Some (bs ! unat (c - a)) else ubyte k pd c))"

lemma mm_only_pd: "mm_only k k' \<Longrightarrow> active_pd k' = active_pd k"
  by (simp add: mm_only_def active_pd_def mm_get_current_pd_def)

lemma offset_step:
  fixes a c :: u32
  assumes "unat a + n < 2 ^ 32"
  shows "unat (c - a) < Suc n \<longleftrightarrow> c = a \<or> unat (c - (a + 1)) < n"
    and "c \<noteq> a \<Longrightarrow> unat (c - a) = Suc (unat (c - (a + 1)))" and "\<not> unat (a - (a + 1)) < n"
proof -
  have s: "c - (a + 1) = (c - a) - 1" by simp
  show "\<not> unat (a - (a + 1)) < n" using assms by (simp add: unat_minus_one)
  show e: "unat (c - a) = Suc (unat (c - (a + 1)))" if "c \<noteq> a"
  proof -
    have d: "c - a \<noteq> 0" using that by simp
    then have "unat (c - a) \<noteq> 0" by (simp add: unat_eq_zero)
    then have "1 \<le> c - a" by (simp add: word_le_nat_alt)
    from unat_sub [OF this] \<open>unat (c - a) \<noteq> 0\<close> show ?thesis by (simp add: s)
  qed
  show "unat (c - a) < Suc n \<longleftrightarrow> c = a \<or> unat (c - (a + 1)) < n"
    using e by (cases "c = a") simp_all
qed

lemma vstore_wrote:
  "mem_ok D k \<Longrightarrow> user_range a (length bs) \<Longrightarrow> vstore a bs k = Some k' \<Longrightarrow> wrote D a bs k k'"
proof (induction bs arbitrary: a k)
  case Nil
  then show ?case by (simp add: wrote_def)
next
  case (Cons b bs)
  from Cons.prems(3) obtain k1 where k1: "vstore8 a b k = Some k1" "vstore (a + 1) bs k1 = Some k'" by (auto split: option.splits)
  have r: "user_va a" "user_range (a + 1) (length bs)" using user_range_Suc [of a "length bs"] Cons.prems(2) by simp_all
  have s: "stored D a b k k1" by (rule vstore8_stored [OF Cons.prems(1) r(1) k1(1)])
  then have w: "wrote D (a + 1) bs k1 k'" using Cons.IH [OF _ r(2) k1(2)] by (simp add: stored_def)
  have pd: "active_pd k1 = active_pd k" using s by (intro mm_only_pd) (simp add: stored_def)
  have n: "unat a + length bs < 2 ^ 32" using Cons.prems(2) by (simp add: user_range_def user_window_nat)
  show ?case using s w mm_only_trans [of k k1 k'] offset_step [OF n]
    by (auto simp: stored_def wrote_def pd)
qed

lemma vload_ubytes:
  assumes "mem_ok D k" and "user_range a (length bs)" and "\<And>j. j < length bs \<Longrightarrow> ubyte k (active_pd k) (a + word_of_nat j) = Some (bs ! j)"
  shows "vload a (length bs) k = Some bs"
  using assms(2,3)
proof (induction bs arbitrary: a)
  case (Cons b bs)
  have r: "user_va a" "user_range (a + 1) (length bs)" using user_range_Suc [of a "length bs"] Cons.prems(1) by simp_all
  have "vload8 a k = Some b" using Cons.prems(2) [of 0] vload8_ubyte [OF assms(1) r(1)] by simp
  moreover have "vload (a + 1) (length bs) k = Some bs"
  proof (rule Cons.IH [OF r(2)])
    fix j
    assume "j < length bs"
    then show "ubyte k (active_pd k) (a + 1 + word_of_nat j) = Some (bs ! j)" using Cons.prems(2) [of "Suc j"] by (simp add: add.assoc)
  qed
  ultimately show ?case by simp
qed simp

lemma range_offset: "user_range a n \<Longrightarrow> j < n \<Longrightarrow> unat ((a + word_of_nat j) - a) = j \<and> user_va (a + word_of_nat j)"
proof -
  assume r: "user_range a n" and j: "j < n"
  then have b: "unat a + j < 2 ^ 32" "j < 2 ^ 32" by (simp_all add: user_range_def user_window_nat)
  then have "unat (a + word_of_nat j) = unat a + j" by (simp add: unat_word_ariths(1) unat_of_nat)
  then show ?thesis using r j b by (simp add: unat_of_nat user_range_def user_va_def user_window_nat word_le_nat_alt word_less_nat_alt)
qed

text \<open>What was stored is loaded again.\<close>

lemma vload_vstore:
  assumes "mem_ok D k" and "user_range a (length bs)" and "vstore a bs k = Some k'"
  shows "vload a (length bs) k' = Some bs"
proof (rule vload_ubytes)
  note w = vstore_wrote [OF assms]
  show "mem_ok D k'" using w by (simp add: wrote_def)
  show "user_range a (length bs)" by (rule assms(2))
  fix j
  assume j: "j < length bs"
  have pd: "active_pd k' = active_pd k" using w by (intro mm_only_pd) (simp add: wrote_def)
  have "active_pd k \<in> D" using assms(1) by (simp add: mem_ok_def)
  then show "ubyte k' (active_pd k') (a + word_of_nat j) = Some (bs ! j)"
    using w range_offset [OF assms(2) j] user_va_window [of "a + word_of_nat j"] j by (simp add: wrote_def pd)
qed

section \<open>Words\<close>

lemma vstore_append:
  "vstore a (xs @ ys) k = (case vstore a xs k of None \<Rightarrow> None | Some k \<Rightarrow> vstore (a + word_of_nat (length xs)) ys k)"
  by (induction xs arbitrary: a k) (auto simp: add.assoc split: option.split)

lemma vload_append:
  "vload a m k = Some xs \<Longrightarrow> vload (a + word_of_nat m) n k = Some ys \<Longrightarrow> vload a (m + n) k = Some (xs @ ys)"
  by (induction m arbitrary: a xs) (auto simp: add.assoc split: option.splits)

lemma vload_split:
  "vload a (m + n) k = Some zs \<Longrightarrow> vload a m k = Some (take m zs) \<and> vload (a + word_of_nat m) n k = Some (drop m zs)"
proof (induction m arbitrary: a zs)
  case (Suc m)
  from Suc.prems obtain b bs where b: "vload8 a k = Some b" "vload (a + 1) (m + n) k = Some bs" "zs = b # bs"
    by (auto split: option.splits)
  from Suc.IH [OF b(2)] b(1,3) show ?case by (simp add: add.assoc)
qed simp

lemma length_enc32 [simp]: "length (enc32 v) = 4"
  by (simp add: enc32_def)

lemma vstore32s_bytes: "vstore32s a ws k = vstore a (concat (map enc32 ws)) k"
  by (induction ws arbitrary: a k) (auto simp: vstore32_def vstore_append split: option.split)

lemma le32_enc32: "le32 (enc32 v) 0 = v"
  by (simp add: le32_def enc32_def byte_merge)

lemma vload32s_bytes: "vload a (4 * length ws) k = Some (concat (map enc32 ws)) \<Longrightarrow> vload32s a (length ws) k = Some ws"
proof (induction ws arbitrary: a)
  case (Cons w ws)
  have "vload a (4 + 4 * length ws) k = Some (enc32 w @ concat (map enc32 ws))" using Cons.prems by simp
  from vload_split [OF this]
  have "vload a 4 k = Some (enc32 w)" "vload (a + 4) (4 * length ws) k = Some (concat (map enc32 ws))" by simp_all
  then show ?case using Cons.IH [of "a + 4"] by (simp add: vload32_def le32_enc32)
qed simp

section \<open>Stores that succeed\<close>

text \<open>A page of the running process that can be written, at once or after a copy.\<close>

definition upage :: "'h kernel \<Rightarrow> u32 \<Rightarrow> u32" where
  "upage k v = pte (pmem (k_mm k)) (active_pd k) v"

lemma vput8_succeeds:
  assumes ok: "mem_ok D k" and a: "user_va a" and e: "present (upage k (frame a))" "writable (upage k (frame a))"
  shows "\<exists>k'. vput8 a b k = Some k' \<and> upage k' (frame a) = upage k (frame a)"
proof -
  let ?s = "k_mm k" and ?e = "upage k (frame a)"
  note v = user_va_window [OF a]
  have t: "mm_user_translate (active_pd k) a ?s = (?e AND PAGE_MASK) + (a AND 0xFFF)"
    using user_pte_window(3,4) [OF mem_okD(3,2) [OF ok] v] pte_pde [OF e(1) [unfolded upage_def]] e(1)
    by (simp add: mm_user_translate_def Let_def upage_def)
  define m where "m = (pmem ?s)((?e AND PAGE_MASK) + (a AND 0xFFF) := b)"
  have "vput8 a b k = Some (k\<lparr>k_mm := ?s\<lparr>pmem := m\<rparr>\<rparr>)"
    using e by (simp add: vput8_def vm_entry_pte [OF ok a] writable_def m_def flip: upage_def)
  moreover have "pte m (active_pd k) (frame a) = pte (pmem ?s) (active_pd k) (frame a)"
    using user_write(1) [OF mem_okD(1,2) [OF ok] v e [unfolded upage_def] mem_okD(2) [OF ok] v, where b = b] t
    by (simp add: m_def)
  ultimately show ?thesis by (simp add: upage_def active_pd_def mm_get_current_pd_def)
qed

lemma vstore8_succeeds:
  assumes ok: "mem_ok D k" and a: "user_va a" "a < USER_SIGTRAMP" and e: "present (upage k (frame a))"
    and w: "writable (upage k (frame a)) \<or> free_set (k_mm k) \<noteq> {}"
  shows "\<exists>k'. vstore8 a b k = Some k' \<and> present (upage k' (frame a)) \<and> writable (upage k' (frame a))"
proof (cases "writable (upage k (frame a))")
  case True
  from vput8_succeeds [OF ok a(1) e True, of b] show ?thesis using e True by (auto simp: vstore8_def)
next
  case False
  then have none: "vput8 a b k = None" using e by (simp add: vput8_def vm_entry_pte [OF ok a(1)] writable_def flip: upage_def)
  obtain i where i: "current_proc k = Some i" "p_pd_phys (procs k ! i) = active_pd k" "u_active k" using ok by (auto simp: mem_ok_def)
  obtain m where m: "mm_user_make_writable (active_pd k) a (k_mm k) = (True, m)" "cow_step (k_mm k) m D (active_pd k) (frame a)"
    using make_writable_cases [OF mem_okD(1,2) [OF ok] user_va_window [OF a(1)]] False w e by (auto simp: upage_def)
  have c: "cr3 m AND PAGE_MASK = cr3 (k_mm k) AND PAGE_MASK"
    by (rule make_writable_cr3 [OF m(1) dirs_okD(1) [OF mem_okD(3,2) [OF ok]] mem_okD(5) [OF ok]])
  define k1 where "k1 = k\<lparr>k_mm := m\<rparr>"
  have k1: "mem_ok D k1" "active_pd k1 = active_pd k"
    using mem_ok_mm [OF ok _ c] m(2) mm_only_pd by (auto simp: cow_step_def k1_def)
  have "present (upage k1 (frame a))" "writable (upage k1 (frame a))" using m(2) by (simp_all add: upage_def k1(2) cow_step_def) (simp_all add: k1_def)
  from vput8_succeeds [OF k1(1) a(1) this, of b] obtain k' where
    k': "vput8 a b k1 = Some k'" "present (upage k' (frame a))" "writable (upage k' (frame a))"
    using \<open>present (upage k1 _)\<close> \<open>writable (upage k1 _)\<close> by auto
  have "cow_fault a k = Some k1"
    using i a m(1) mem_okD(5) [OF ok] by (simp add: cow_fault_def mm_call_def k1_def user_va_def)
  then show ?thesis using none k' by (simp add: vstore8_def)
qed

lemma vstore_succeeds:
  assumes "mem_ok D k" and "user_range a (length bs)" "unat a + length bs \<le> unat USER_SIGTRAMP" and "present (upage k v)"
    and "writable (upage k v) \<or> free_set (k_mm k) \<noteq> {}" and "\<And>j. j < length bs \<Longrightarrow> frame (a + word_of_nat j) = v"
  shows "\<exists>k'. vstore a bs k = Some k' \<and> present (upage k' v) \<and> (writable (upage k' v) \<or> free_set (k_mm k') \<noteq> {})"
  using assms
proof (induction bs arbitrary: a k)
  case Nil
  then show ?case by auto
next
  case (Cons b bs)
  have r: "user_va a" "user_range (a + 1) (length bs)" "unat (a + 1) = unat a + 1"
    using user_range_Suc [of a "length bs"] Cons.prems(2) by simp_all
  have v: "frame a = v" using Cons.prems(6) [of 0] by simp
  have "a < USER_SIGTRAMP" using Cons.prems(3) by (simp add: word_less_nat_alt)
  from vstore8_succeeds [OF Cons.prems(1) r(1) this, of b] Cons.prems(4,5) obtain k1
    where k1: "vstore8 a b k = Some k1" "present (upage k1 v)" "writable (upage k1 v)" by (auto simp: v)
  have "mem_ok D k1" using vstore8_stored [OF Cons.prems(1) r(1) k1(1)] by (simp add: stored_def)
  moreover have "frame (a + 1 + word_of_nat j) = v" if "j < length bs" for j
    using Cons.prems(6) [of "Suc j"] that by (simp add: add.assoc)
  ultimately show ?case using Cons.IH [of k1 "a + 1"] r Cons.prems(3) k1 by auto
qed

section \<open>An example\<close>

lemma cow_ok_more:
  "cow_ok (mm_state.extend s e) D = cow_ok s D" "pmem (mm_state.extend s e) = pmem s" "cr3 (mm_state.extend s e) = cr3 s"
  "free_set (mm_state.extend s e) = free_set s"
  by (simp_all add: cow_ok_def vm_ok_def frames_inv_def mm_inv_def free_set_def used_set_def bitmap_test_def mm_state.defs)

definition signal_proc :: proc_t where
  "signal_proc = (proc_demo 2)\<lparr>p_pd_phys := 0x2000, p_sig_pending := sig_bit 10,
     p_sig_handler := (replicate 32 0)[10 := 0x08048123]\<rparr>"

definition mem_demo :: "drive kernel" where
  "mem_demo = kernel_demo\<lparr>k_mm := mm_state.extend vm_demo \<lparr>heap_start = 0, heap_size = 0\<rparr>, procs := table_demo[1 := signal_proc]\<rparr>"

lemma mem_demo_fields:
  "pmem (k_mm mem_demo) = vm_mem" "active_pd mem_demo = 0x2000" "current_proc mem_demo = Some 1" "procs mem_demo ! Suc 0 = signal_proc"
  "free_set (k_mm mem_demo) \<noteq> {}" "length (procs mem_demo) = 8" "u_active mem_demo"
proof -
  show "pmem (k_mm mem_demo) = vm_mem" "current_proc mem_demo = Some 1" "u_active mem_demo"
    by (simp_all add: mem_demo_def cow_ok_more vm_pmem kernel_demo_simps)
  show "procs mem_demo ! Suc 0 = signal_proc" "length (procs mem_demo) = 8" by (simp_all add: mem_demo_def table_demo_def)
  show "active_pd mem_demo = 0x2000"
    by (simp add: active_pd_def mm_get_current_pd_def mem_demo_def cow_ok_more vm_demo_def PAGE_MASK_def)
  have "(20::u32) \<in> free_set vm_demo" by (simp add: vm_used)
  then show "free_set (k_mm mem_demo) \<noteq> {}" by (auto simp: mem_demo_def cow_ok_more)
qed

lemma mem_demo_ok: "mem_ok vm_dirs mem_demo"
proof -
  have "cow_ok (k_mm mem_demo) vm_dirs" by (simp add: mem_demo_def cow_ok_more vm_cow)
  then show ?thesis using mem_demo_fields by (simp add: mem_ok_def signal_proc_def)
qed

lemma mem_demo_page: "present (upage mem_demo 0x8048)"
  by (simp add: upage_def mem_demo_fields vm_present window_iff)

end
