(* ===== verification/Signal_Return.thy ===== *)
theory Signal_Return
  imports User_Memory
begin

text \<open>
  A signal handler is transparent: the frame \<^verbatim>\<open>proc_signal_deliver\<close> builds on the user stack is what
  \<^verbatim>\<open>sigreturn\<close> restores.
\<close>

declare drop_bit_and [simp del] drop_bit_or [simp del]

lemma mm_only_fields:
  assumes "mm_only k k'"
  shows "procs k' = procs k" "current_proc k' = current_proc k" "u_active k' = u_active k"
proof -
  have e: "k' = k\<lparr>k_mm := k_mm k'\<rparr>" using assms by (simp add: mm_only_def)
  show "procs k' = procs k" "current_proc k' = current_proc k" "u_active k' = u_active k"
    using arg_cong [OF e, of procs] arg_cong [OF e, of current_proc] arg_cong [OF e, of u_active] by simp_all
qed

lemma wrote_mem: "wrote D a bs k k' \<Longrightarrow> mem_ok D k'" "wrote D a bs k k' \<Longrightarrow> mm_only k k'"
  by (simp_all add: wrote_def)

lemma wrote_outside:
  "wrote D a bs k k' \<Longrightarrow> pd \<in> D \<Longrightarrow> frame c \<in> window \<Longrightarrow> \<not> (pd = active_pd k \<and> unat (c - a) < length bs) \<Longrightarrow> ubyte k' pd c = ubyte k pd c"
  by (auto simp: wrote_def)

lemma offset_iff:
  fixes a c :: u32
  assumes "unat a + n \<le> 2 ^ 32"
  shows "unat (c - a) < n \<longleftrightarrow> unat a \<le> unat c \<and> unat c < unat a + n"
  using assms by (auto simp: unat_sub_if')

text \<open>The three stores of the frame: the registers at \<open>base\<close>, then the signal number and the return address below.\<close>

lemma frame_stores:
  assumes ok: "mem_ok D k" and b: "0x08048008 \<le> unat base" "unat base \<le> 0x08846FD0" and ws: "length ws = 12"
    and s: "vstore32s base ws k = Some ka" "vstore32 (base - 4) v ka = Some kb" "vstore32 (base - 8) w kb = Some kc"
  shows "mem_ok D kc" "mm_only k kc"
    "j < 48 \<Longrightarrow> ubyte kc (active_pd k) (base + word_of_nat j) = Some (concat (map enc32 ws) ! j)"
    "pd \<in> D \<Longrightarrow> frame c \<in> window \<Longrightarrow> \<not> (pd = active_pd k \<and> unat base - 8 \<le> unat c \<and> unat c < unat base + 48) \<Longrightarrow>
       ubyte kc pd c = ubyte k pd c"
proof -
  have u: "unat (base - 4) = unat base - 4" "unat (base - 8) = unat base - 8" using b by (simp_all add: unat_sub word_le_nat_alt)
  have l: "length (concat (map enc32 ws)) = 48" using ws by (simp add: length_concat comp_def sum_list_triv)
  have r: "user_range base 48" "user_range (base - 4) 4" "user_range (base - 8) 4"
    using b by (auto simp: user_range_def u user_window_nat word_le_nat_alt)
  have wa: "wrote D base (concat (map enc32 ws)) k ka" using vstore_wrote [OF ok] s(1) r(1) l by (simp add: vstore32s_bytes)
  have wb: "wrote D (base - 4) (enc32 v) ka kb" using vstore_wrote [OF wrote_mem(1) [OF wa]] s(2) r(2) by (simp add: vstore32_def)
  have wc: "wrote D (base - 8) (enc32 w) kb kc" using vstore_wrote [OF wrote_mem(1) [OF wb]] s(3) r(3) by (simp add: vstore32_def)
  have pd: "active_pd ka = active_pd k" "active_pd kb = active_pd k"
    using mm_only_pd [OF wrote_mem(2) [OF wa]] mm_only_pd [OF wrote_mem(2) [OF wb]] by simp_all
  have off: "unat (c - base) < 48 \<longleftrightarrow> unat base \<le> unat c \<and> unat c < unat base + 48"
    "unat (c - (base - 4)) < 4 \<longleftrightarrow> unat base - 4 \<le> unat c \<and> unat c < unat base"
    "unat (c - (base - 8)) < 4 \<longleftrightarrow> unat base - 8 \<le> unat c \<and> unat c < unat base - 4" for c
    using offset_iff [of base 48 c] offset_iff [of "base - 4" 4 c] offset_iff [of "base - 8" 4 c] b by (auto simp: u)
  show "mem_ok D kc" by (rule wrote_mem(1) [OF wc])
  show "mm_only k kc" using wrote_mem(2) [OF wa] wrote_mem(2) [OF wb] wrote_mem(2) [OF wc] mm_only_trans by blast
  show "ubyte kc pd c = ubyte k pd c"
    if "pd \<in> D" "frame c \<in> window" "\<not> (pd = active_pd k \<and> unat base - 8 \<le> unat c \<and> unat c < unat base + 48)" for pd c
  proof -
    have "\<not> (pd = active_pd k \<and> unat (c - base) < 48)" "\<not> (pd = active_pd k \<and> unat (c - (base - 4)) < 4)"
      "\<not> (pd = active_pd k \<and> unat (c - (base - 8)) < 4)"
      using that(3) unfolding off by linarith+
    then show ?thesis
      using wrote_outside [OF wa that(1,2)] wrote_outside [OF wb that(1,2)] wrote_outside [OF wc that(1,2)] by (simp add: pd l)
  qed
  show "ubyte kc (active_pd k) (base + word_of_nat j) = Some (concat (map enc32 ws) ! j)" if "j < 48" for j
  proof -
    let ?c = "base + word_of_nat j"
    have c: "unat (?c - base) = j" "frame ?c \<in> window" using range_offset [OF r(1) that] user_va_window by auto
    have "unat base \<le> unat ?c" using off(1) [of ?c] c(1) that by simp
    then have "\<not> unat (?c - (base - 4)) < 4" "\<not> unat (?c - (base - 8)) < 4" using off(2,3) [of ?c] by auto
    then have "ubyte kc (active_pd k) ?c = ubyte ka (active_pd k) ?c"
      using wrote_outside [OF wb mem_okD(2) [OF ok] c(2)] wrote_outside [OF wc mem_okD(2) [OF ok] c(2)] by (simp add: pd)
    also have "\<dots> = Some (concat (map enc32 ws) ! j)" using wa mem_okD(2) [OF ok] c that l by (simp add: wrote_def)
    finally show ?thesis .
  qed
qed

section \<open>Delivery and return\<close>

lemma restored_saved:
  assumes "user_frame r" and "r_fs r \<noteq> 0" "r_fs r AND 0xFFFF = r_fs r" "r_gs r \<noteq> 0" "r_gs r AND 0xFFFF = r_gs r"
  shows "user_regs (restored_regs (saved_regs r) r2) = user_regs r"
  using assms flags_again [of "r_eflags r", simplified] by (simp add: user_regs_def restored_regs_def saved_regs_def user_frame_def)

text \<open>A signal with a handler of the process, and room for its frame.\<close>

definition handled :: "nat \<Rightarrow> nat \<Rightarrow> registers_t \<Rightarrow> 'h kernel \<Rightarrow> bool" where
  "handled i sig r k \<longleftrightarrow> current_proc k = Some i \<and> i < length (procs k) \<and> (let p = procs k ! i in
     p_pid p \<noteq> 1 \<and> next_signal p = Some sig \<and> p_sig_handler p ! sig \<noteq> PROC_SIG_IGN \<and> p_sig_handler p ! sig \<noteq> PROC_SIG_DFL \<and>
     0 \<le> p_sig_depth p \<and> p_sig_depth p < int PROC_SIGFRAME_MAX \<and> length (p_sig_frame_sp p) = PROC_SIGFRAME_MAX) \<and>
     USER_BASE + 56 \<le> r_useresp r \<and> r_useresp r \<le> USER_SIGTRAMP"

lemma deliver_push:
  assumes "handled i sig r k" and "user_frame r"
  defines "k0 \<equiv> upd_proc i (\<lambda>p. p\<lparr>p_sig_pending := p_sig_pending p AND NOT (sig_bit sig)\<rparr>) k"
  shows "proc_signal_deliver r k =
    push_signal_frame i sig (p_sig_handler (procs k ! i) ! sig) r k0 \<bind> (\<lambda>(r, k). Some (Back (True, r) k))"
    and "p_sig_depth (procs k0 ! i) = p_sig_depth (procs k ! i)" "p_sig_frame_sp (procs k0 ! i) = p_sig_frame_sp (procs k ! i)"
proof -
  have i: "i < length (procs k)" using assms(1) by (simp add: handled_def)
  then have p: "procs k0 ! i = (procs k ! i)\<lparr>p_sig_pending := p_sig_pending (procs k ! i) AND NOT (sig_bit sig)\<rparr>"
    by (simp add: k0_def upd_proc_def)
  show "p_sig_depth (procs k0 ! i) = p_sig_depth (procs k ! i)" "p_sig_frame_sp (procs k0 ! i) = p_sig_frame_sp (procs k ! i)"
    by (simp_all add: p)
  have "unat (r_useresp r) \<le> 0x08847000" "0x08048038 \<le> unat (r_useresp r)"
    using assms(1) by (simp_all add: handled_def word_le_nat_alt user_window_nat) (simp add: USER_BASE_def)
  then have "unat (r_useresp r - 48) = unat (r_useresp r) - 48" by (simp add: unat_sub word_le_nat_alt)
  then have "\<not> r_useresp r - 48 < USER_BASE" "\<not> r_useresp r - 48 \<ge> USER_SIGTRAMP"
    using \<open>unat (r_useresp r) \<le> _\<close> \<open>_ \<le> unat (r_useresp r)\<close> by (simp_all add: word_le_nat_alt word_less_nat_alt user_window_nat)
  then show "proc_signal_deliver r k =
      push_signal_frame i sig (p_sig_handler (procs k ! i) ! sig) r k0 \<bind> (\<lambda>(r, k). Some (Back (True, r) k))"
    using assms(1,2) unfolding proc_signal_deliver_def handled_def Let_def
    by (subst deliver_loop.simps)
       (auto simp: user_frame_def Let_def p simp flip: k0_def)
qed

lemma push_frame_spec:
  assumes ok: "mem_ok D k" and i: "i < length (procs k)"
    and d: "0 \<le> p_sig_depth (procs k ! i)" "p_sig_depth (procs k ! i) < int (length (p_sig_frame_sp (procs k ! i)))"
    and b: "0x08048038 \<le> unat (r_useresp r)" "unat (r_useresp r) \<le> 0x08847000"
    and push: "push_signal_frame i sig h r k = Some (r1, k1)"
  shows "r_eip r1 = h" "r_eax r1 = word_of_nat sig" "r_useresp r1 = r_useresp r - 56"
    "p_sig_depth (procs k1 ! i) = p_sig_depth (procs k ! i) + 1"
    "p_sig_frame_sp (procs k1 ! i) ! nat (p_sig_depth (procs k ! i)) = r_useresp r - 48"
    "active_pd k1 = active_pd k" "current_proc k1 = current_proc k"
    "j < 48 \<Longrightarrow> ubyte k1 (active_pd k) (r_useresp r - 48 + word_of_nat j) = Some (concat (map enc32 (saved_regs r)) ! j)"
    "pd \<in> D \<Longrightarrow> frame c \<in> window \<Longrightarrow> \<not> (pd = active_pd k \<and> r_useresp r - 56 \<le> c \<and> c < r_useresp r) \<Longrightarrow> ubyte k1 pd c = ubyte k pd c"
    "mem_ok D k1" "length (procs k1) = length (procs k)"
proof -
  let ?b = "r_useresp r - 48"
  have u: "unat ?b = unat (r_useresp r) - 48" "unat (r_useresp r - 56) = unat (r_useresp r) - 56"
    using b by (simp_all add: unat_sub word_le_nat_alt)
  from push obtain v ka kb kc where s: "vstore32s ?b (saved_regs r) k = Some ka" "vstore32 (?b - 4) (word_of_nat sig) ka = Some kb"
    "vstore32 (?b - 8) v kb = Some kc"
    and r1: "r1 = r\<lparr>r_eip := h, r_useresp := ?b - 8, r_eax := word_of_nat sig\<rparr>"
    and k1: "k1 = upd_proc i (\<lambda>p. p\<lparr>p_sig_frame_sp := (p_sig_frame_sp p)[nat (p_sig_depth p) := ?b], p_sig_depth := p_sig_depth p + 1\<rparr>) kc"
    by (auto simp: push_signal_frame_def Let_def bind_eq_Some_conv)
  have bb: "0x08048008 \<le> unat ?b" "unat ?b \<le> 0x08846FD0" using b by (simp_all add: u)
  note fs = frame_stores [OF ok bb _ s]
  have m: "mm_only k kc" by (rule fs(2)) (simp add: saved_regs_def)
  note f = mm_only_fields [OF m] mm_only_pd [OF m]
  have p: "procs k1 ! i = (procs k ! i)\<lparr>p_sig_frame_sp := (p_sig_frame_sp (procs k ! i))[nat (p_sig_depth (procs k ! i)) := ?b],
      p_sig_depth := p_sig_depth (procs k ! i) + 1\<rparr>"
    using i by (simp add: k1 upd_proc_def f(1))
  have same: "ubyte k1 = ubyte kc" "active_pd k1 = active_pd kc" by (simp_all add: fun_eq_iff ubyte_def k1 upd_proc_def active_pd_def)
  have "mem_ok D kc" by (rule fs(1)) (simp add: saved_regs_def)
  then show "mem_ok D k1"
    by (auto simp: mem_ok_def same) (use i in \<open>auto simp: k1 upd_proc_def f(1) nth_list_update\<close>)
  show "length (procs k1) = length (procs k)" by (simp add: k1 upd_proc_def f(1))
  show "r_eip r1 = h" "r_eax r1 = word_of_nat sig" "r_useresp r1 = r_useresp r - 56" by (simp_all add: r1)
  show "p_sig_depth (procs k1 ! i) = p_sig_depth (procs k ! i) + 1" by (simp add: p)
  show "p_sig_frame_sp (procs k1 ! i) ! nat (p_sig_depth (procs k ! i)) = r_useresp r - 48" using d by (simp add: p)
  show "active_pd k1 = active_pd k" "current_proc k1 = current_proc k" using f by (simp_all add: same) (simp add: k1 upd_proc_def)
  show "j < 48 \<Longrightarrow> ubyte k1 (active_pd k) (?b + word_of_nat j) = Some (concat (map enc32 (saved_regs r)) ! j)"
    using fs(3) by (simp add: same saved_regs_def)
  show "ubyte k1 pd c = ubyte k pd c" if "pd \<in> D" "frame c \<in> window" "\<not> (pd = active_pd k \<and> r_useresp r - 56 \<le> c \<and> c < r_useresp r)"
  proof -
    have "\<not> (pd = active_pd k \<and> unat ?b - 8 \<le> unat c \<and> unat c < unat ?b + 48)"
      using that(3) b by (auto simp: word_le_nat_alt word_less_nat_alt u)
    then show ?thesis using fs(4) [OF _ that(1,2)] by (simp add: same saved_regs_def)
  qed
qed

text \<open>What a handler may do before it returns: anything, as long as it leaves the saved registers and the bookkeeping of
  the kernel alone.\<close>

definition handler_ran :: "u32 set \<Rightarrow> nat \<Rightarrow> registers_t \<Rightarrow> 'h kernel \<Rightarrow> 'h kernel \<Rightarrow> bool" where
  "handler_ran D i r k1 k2 \<longleftrightarrow> mem_ok D k2 \<and> active_pd k2 = active_pd k1 \<and> current_proc k2 = Some i \<and> i < length (procs k2) \<and>
     p_sig_depth (procs k2 ! i) = p_sig_depth (procs k1 ! i) \<and> p_sig_frame_sp (procs k2 ! i) = p_sig_frame_sp (procs k1 ! i) \<and>
     (\<forall>j < 48. ubyte k2 (active_pd k1) (r_useresp r - 48 + word_of_nat j) = ubyte k1 (active_pd k1) (r_useresp r - 48 + word_of_nat j))"

lemma sigreturn_restores:
  assumes ok: "mem_ok D k" and c: "current_proc k = Some i" and i: "i < length (procs k)" and d: "0 < p_sig_depth (procs k ! i)"
    and sp: "p_sig_frame_sp (procs k ! i) ! nat (p_sig_depth (procs k ! i) - 1) = base"
    and b: "0x08048000 \<le> unat base" "unat base + 48 \<le> 0x08847000"
    and saved: "\<And>j. j < 48 \<Longrightarrow> ubyte k (active_pd k) (base + word_of_nat j) = Some (concat (map enc32 (saved_regs r)) ! j)"
  shows "\<exists>k'. do_sigreturn r2 k = Some (r_eax r, restored_regs (saved_regs r) r2, k') \<and>
    p_sig_depth (procs k' ! i) = p_sig_depth (procs k ! i) - 1"
proof -
  define k' where "k' = upd_proc i (\<lambda>p. p\<lparr>p_sig_depth := p_sig_depth p - 1\<rparr>) k"
  have p: "procs k' ! i = (procs k ! i)\<lparr>p_sig_depth := p_sig_depth (procs k ! i) - 1\<rparr>" using i by (simp add: k'_def upd_proc_def)
  have same: "ubyte k' = ubyte k" "active_pd k' = active_pd k" by (simp_all add: fun_eq_iff ubyte_def k'_def upd_proc_def active_pd_def)
  have ok': "mem_ok D k'"
    using ok c i by (auto simp: mem_ok_def same) (simp_all add: k'_def upd_proc_def)
  have l: "length (concat (map enc32 (saved_regs r))) = 48" by (simp add: saved_regs_def)
  have "vload base (length (concat (map enc32 (saved_regs r)))) k' = Some (concat (map enc32 (saved_regs r)))"
    using b by (intro vload_ubytes [OF ok']) (auto simp: l same saved user_range_def user_window_nat word_le_nat_alt)
  then have "vload32s base (length (saved_regs r)) k' = Some (saved_regs r)"
    by (intro vload32s_bytes) (simp only: l, simp add: saved_regs_def)
  moreover have "length (saved_regs r) = 12" by (simp add: saved_regs_def)
  ultimately have v: "vload32s base 12 k' = Some (saved_regs r)" by (simp only:)
  have "\<not> (base < USER_BASE \<or> base \<ge> USER_SIGTRAMP)" using b by (simp add: word_less_nat_alt word_le_nat_alt user_window_nat)
  then have "proc_sigreturn r2 k = Some (True, restored_regs (saved_regs r) r2, k')"
    using c d v sp by (simp add: proc_sigreturn_def Let_def p flip: k'_def)
  then show ?thesis by (simp add: do_sigreturn_def p) (simp add: restored_regs_def saved_regs_def)
qed

text \<open>C0: Delivering a signal and returning from its handler is transparent.  The handler starts at the address the process
  registered, with the signal number, on a stack below the interrupted one; delivery changes no byte but the 56 below the
  stack pointer, and of no other process.  Whatever the handler does short of overwriting the saved registers,
  \<^verbatim>\<open>sigreturn\<close> resumes the interrupted code with all its registers and flags.\<close>

theorem signal_round_trip:
  assumes "mem_ok D k" and "handled i sig r k" and "user_frame r"
    and "r_fs r \<noteq> 0" "r_fs r AND 0xFFFF = r_fs r" "r_gs r \<noteq> 0" "r_gs r AND 0xFFFF = r_gs r"
    and "proc_signal_deliver r k = Some (Back (changed, r1) k1)" and "handler_ran D i r k1 k2"
  shows "r_eip r1 = p_sig_handler (procs k ! i) ! sig \<and> r_eax r1 = word_of_nat sig \<and> r_useresp r1 = r_useresp r - 56 \<and>
    (\<forall>pd \<in> D. \<forall>a. frame a \<in> window \<longrightarrow> \<not> (pd = active_pd k \<and> r_useresp r - 56 \<le> a \<and> a < r_useresp r) \<longrightarrow>
       ubyte k1 pd a = ubyte k pd a) \<and>
    (\<exists>r3 k3. do_sigreturn r2 k2 = Some (r_eax r, r3, k3) \<and> user_regs r3 = user_regs r \<and>
       p_sig_depth (procs k3 ! i) = p_sig_depth (procs k ! i))"
proof -
  define k0 where "k0 = upd_proc i (\<lambda>p. p\<lparr>p_sig_pending := p_sig_pending p AND NOT (sig_bit sig)\<rparr>) k"
  note h = assms(2) [unfolded handled_def Let_def]
  note dp = deliver_push [OF assms(2,3), folded k0_def]
  have push: "push_signal_frame i sig (p_sig_handler (procs k ! i) ! sig) r k0 = Some (r1, k1)"
    using assms(8) by (auto simp: dp(1) bind_eq_Some_conv)
  have same: "ubyte k0 = ubyte k" "active_pd k0 = active_pd k" by (simp_all add: fun_eq_iff ubyte_def k0_def upd_proc_def active_pd_def)
  have ok0: "mem_ok D k0" using assms(1) h by (auto simp: mem_ok_def same) (simp_all add: k0_def upd_proc_def)
  have b: "0x08048038 \<le> unat (r_useresp r)" "unat (r_useresp r) \<le> 0x08847000"
    using h by (simp_all add: word_le_nat_alt user_window_nat) (simp add: USER_BASE_def)
  have i0: "i < length (procs k0)" using h by (simp add: k0_def upd_proc_def)
  have d0: "0 \<le> p_sig_depth (procs k0 ! i)" "p_sig_depth (procs k0 ! i) < int (length (p_sig_frame_sp (procs k0 ! i)))"
    using h by (simp_all add: dp(2,3))
  note f = push_frame_spec [OF ok0 i0 d0 b push]
  note g = assms(9) [unfolded handler_ran_def]
  have "\<exists>k'. do_sigreturn r2 k2 = Some (r_eax r, restored_regs (saved_regs r) r2, k') \<and>
      p_sig_depth (procs k' ! i) = p_sig_depth (procs k2 ! i) - 1"
  proof (rule sigreturn_restores [where D = D and base = "r_useresp r - 48"])
    show "mem_ok D k2" "current_proc k2 = Some i" "i < length (procs k2)" using g by simp_all
    show "0 < p_sig_depth (procs k2 ! i)" "p_sig_frame_sp (procs k2 ! i) ! nat (p_sig_depth (procs k2 ! i) - 1) = r_useresp r - 48"
      using g f(4,5) d0 by simp_all
    have u: "unat (r_useresp r - 48) = unat (r_useresp r) - 48" using b by (simp add: unat_sub word_le_nat_alt)
    show "0x08048000 \<le> unat (r_useresp r - 48)" "unat (r_useresp r - 48) + 48 \<le> 0x08847000" using b by (simp_all add: u)
    show "ubyte k2 (active_pd k2) (r_useresp r - 48 + word_of_nat j) = Some (concat (map enc32 (saved_regs r)) ! j)" if "j < 48" for j
      using g f(6) f(8) [OF that] that by simp
  qed
  then show ?thesis
    using f(1-4,9) g restored_saved [OF assms(3-7)] by (auto simp: same dp(2))
qed

section \<open>An example\<close>

definition signal_frame :: registers_t where
  "signal_frame = frame_demo\<lparr>r_useresp := 0x08048800\<rparr>"

lemma signal_demo_handled: "handled 1 10 signal_frame mem_demo"
proof -
  have "next_signal signal_proc = Some 10" by code_simp
  moreover have "p_pid signal_proc = 2" "p_sig_handler signal_proc ! 10 = 0x08048123" "p_sig_depth signal_proc = 0"
    "length (p_sig_frame_sp signal_proc) = 4" by (simp_all add: signal_proc_def proc_demo_def zero_proc_def)
  ultimately show ?thesis
    by (simp add: handled_def mem_demo_fields signal_frame_def PROC_SIG_IGN_def PROC_SIG_DFL_def PROC_SIGFRAME_MAX_def
        USER_BASE_def USER_SIGTRAMP_def USER_END_def USER_SIZE_def)
qed

text \<open>The stores of the frame, when it lies in a page the process may write.\<close>

lemma push_succeeds:
  assumes ok: "mem_ok D k" and b: "0x08048038 \<le> unat (r_useresp r)" "unat (r_useresp r) \<le> 0x08847000"
    and v: "\<And>a. unat (r_useresp r) - 56 \<le> unat a \<Longrightarrow> unat a < unat (r_useresp r) \<Longrightarrow> frame a = v"
    and e: "present (upage k v)" "writable (upage k v) \<or> free_set (k_mm k) \<noteq> {}"
  shows "\<exists>x. push_signal_frame i sig h r k = Some x"
proof -
  let ?b = "r_useresp r - 48"
  have one: "\<exists>k'. vstore a bs k = Some k' \<and> mem_ok D k' \<and> present (upage k' v) \<and> (writable (upage k' v) \<or> free_set (k_mm k') \<noteq> {})"
    if k: "mem_ok D k" "present (upage k v)" "writable (upage k v) \<or> free_set (k_mm k) \<noteq> {}"
      and a: "unat (r_useresp r) - 56 \<le> unat a" "unat a + length bs \<le> unat (r_useresp r)" for a bs and k :: "'a kernel"
  proof -
    have r: "user_range a (length bs)" "unat a + length bs \<le> unat USER_SIGTRAMP"
      using a b by (auto simp: user_range_def user_window_nat word_le_nat_alt)
    have "frame (a + word_of_nat j) = v" if "j < length bs" for j
    proof (rule v)
      have "unat (a + word_of_nat j) = unat a + j"
        using range_offset [OF r(1) that] a(2) b that by (simp add: unat_word_ariths(1) unat_of_nat)
      then show "unat (r_useresp r) - 56 \<le> unat (a + word_of_nat j)" "unat (a + word_of_nat j) < unat (r_useresp r)" using a that by auto
    qed
    from vstore_succeeds [OF k(1) r k(2,3) this] obtain k' where
      k': "vstore a bs k = Some k'" "present (upage k' v)" "writable (upage k' v) \<or> free_set (k_mm k') \<noteq> {}" by blast
    moreover have "mem_ok D k'" using wrote_mem(1) [OF vstore_wrote [OF k(1) r(1) k'(1)]] .
    ultimately show ?thesis by blast
  qed
  have u: "unat ?b = unat (r_useresp r) - 48" "unat (r_useresp r - 52) = unat (r_useresp r) - 52"
    "unat (r_useresp r - 56) = unat (r_useresp r) - 56"
    using b by (simp_all add: unat_sub word_le_nat_alt)
  have d: "unat (r_useresp r) - 56 \<le> unat (r_useresp r) - 48" "unat (r_useresp r) - 56 \<le> unat (r_useresp r) - 52" by simp_all
  have l: "length (concat (map enc32 (saved_regs r))) = 48" by (simp add: saved_regs_def)
  obtain ka where ka: "vstore32s ?b (saved_regs r) k = Some ka" "mem_ok D ka" "present (upage ka v)" "writable (upage ka v) \<or> free_set (k_mm ka) \<noteq> {}"
    using one [OF ok e, of ?b "concat (map enc32 (saved_regs r))"] b l by (auto simp: vstore32s_bytes u d)
  obtain kb where kb: "vstore32 (?b - 4) (word_of_nat sig) ka = Some kb" "mem_ok D kb" "present (upage kb v)" "writable (upage kb v) \<or> free_set (k_mm kb) \<noteq> {}"
    using one [OF ka(2-4), of "?b - 4" "enc32 (word_of_nat sig)"] b by (auto simp: vstore32_def u d)
  have "\<exists>kc. vstore32 (?b - 8) w kb = Some kc" for w using one [OF kb(2-4), of "?b - 8" "enc32 w"] b by (auto simp: vstore32_def u d)
  then show ?thesis using ka(1) kb(1) by (force simp: push_signal_frame_def Let_def bind_eq_Some_conv)
qed

lemma signal_demo_delivers: "\<exists>r1 k1. proc_signal_deliver signal_frame mem_demo = Some (Back (True, r1) k1) \<and>
    handler_ran vm_dirs 1 signal_frame k1 k1"
proof -
  define k0 where "k0 = upd_proc 1 (\<lambda>p. p\<lparr>p_sig_pending := p_sig_pending p AND NOT (sig_bit 10)\<rparr>) mem_demo"
  have u: "user_frame signal_frame" using frame_demo_user by (simp add: signal_frame_def user_frame_def)
  note dp = deliver_push [OF signal_demo_handled u, folded k0_def]
  have same: "active_pd k0 = active_pd mem_demo" "k_mm k0 = k_mm mem_demo" by (simp_all add: k0_def upd_proc_def active_pd_def)
  have p0: "p_pd_phys (procs k0 ! 1) = 0x2000" "length (procs k0) = 8"
    using mem_demo_fields(4,6) by (simp_all add: k0_def upd_proc_def signal_proc_def)
  have ok0: "mem_ok vm_dirs k0"
    using mem_demo_ok mem_demo_fields p0(1) by (simp add: mem_ok_def same) (simp add: k0_def upd_proc_def)
  have b: "unat (r_useresp signal_frame) = 0x08048800" by (simp add: signal_frame_def)
  have page: "frame a = 0x8048" if "0x08048000 \<le> unat a" "unat a < 0x08048800" for a :: u32
  proof -
    have "unat a div 4096 = 0x8048" using that by auto
    then show ?thesis by (simp add: word_unat_eq_iff drop_bit_eq_div unat_div)
  qed
  have e: "present (upage k0 0x8048)" "free_set (k_mm k0) \<noteq> {}"
    using mem_demo_page mem_demo_fields(5) by (simp_all add: upage_def same)
  have "\<exists>x. push_signal_frame 1 10 (p_sig_handler (procs mem_demo ! 1) ! 10) signal_frame k0 = Some x"
    by (rule push_succeeds [OF ok0, where v = "0x8048"]) (use page e in \<open>simp_all add: b\<close>)
  then obtain r1 k1 where x: "push_signal_frame 1 10 (p_sig_handler (procs mem_demo ! 1) ! 10) signal_frame k0 = Some (r1, k1)" by auto
  have d0: "0 \<le> p_sig_depth (procs k0 ! 1)" "p_sig_depth (procs k0 ! 1) < int (length (p_sig_frame_sp (procs k0 ! 1)))"
    using mem_demo_fields(4) dp(2,3) by (simp_all add: signal_proc_def proc_demo_def zero_proc_def)
  note f = push_frame_spec [OF ok0 _ d0 _ _ x, unfolded b]
  have "current_proc k1 = Some 1" using f(7) mem_demo_fields(3,6) by (simp add: k0_def upd_proc_def)
  then have "handler_ran vm_dirs 1 signal_frame k1 k1" using f(10,11) by (simp add: handler_ran_def p0)
  then show ?thesis using dp(1) x by simp
qed

theorem signal_round_trip_witness:
  "\<exists>r1 k1 r3 k3. proc_signal_deliver signal_frame mem_demo = Some (Back (True, r1) k1) \<and> r_eip r1 = 0x08048123 \<and>
     do_sigreturn r1 k1 = Some (7, r3, k3) \<and> user_regs r3 = user_regs signal_frame"
proof -
  obtain r1 k1 where d: "proc_signal_deliver signal_frame mem_demo = Some (Back (True, r1) k1)"
    and h: "handler_ran vm_dirs 1 signal_frame k1 k1" using signal_demo_delivers by blast
  have u: "user_frame signal_frame" using frame_demo_user by (simp add: signal_frame_def user_frame_def)
  have s: "r_fs signal_frame \<noteq> 0" "r_fs signal_frame AND 0xFFFF = r_fs signal_frame" "r_gs signal_frame \<noteq> 0"
    "r_gs signal_frame AND 0xFFFF = r_gs signal_frame" "r_eax signal_frame = 7" by (simp_all add: signal_frame_def frame_demo_def)
  have "p_sig_handler (procs mem_demo ! 1) ! 10 = 0x08048123" using mem_demo_fields(4) by (simp add: signal_proc_def)
  with signal_round_trip [OF mem_demo_ok signal_demo_handled u s(1-4) d h, of r1] d show ?thesis unfolding s(5) by metis
qed

end
