(* ===== verification/Exec_Isolation.thy ===== *)
theory Exec_Isolation
  imports Sys_Identity User_Memory
begin

text \<open>
  Loading a program writes nothing but the memory of the process that asked for it, whatever the image
  says: the bounds checks of \<^verbatim>\<open>src/elf.c\<close> hold for every segment and every relocation.
\<close>

declare drop_bit_and [simp del] drop_bit_or [simp del]

section \<open>Writing one's own memory\<close>

text \<open>Since \<open>k0\<close>, only the memory of the process that runs has changed.\<close>

definition own :: "u32 set \<Rightarrow> 'h kernel \<Rightarrow> 'h kernel \<Rightarrow> bool" where
  "own D k0 k \<longleftrightarrow> mem_ok D k \<and> active_pd k = active_pd k0 \<and>
     (\<forall>pd \<in> D. pd \<noteq> active_pd k0 \<longrightarrow> (\<forall>a. frame a \<in> window \<longrightarrow> ubyte k pd a = ubyte k0 pd a))"

lemma own_refl: "mem_ok D k \<Longrightarrow> own D k k"
  by (simp add: own_def)

lemma own_cong:
  assumes "k_mm k' = k_mm k" and "procs k' = procs k" and "current_proc k' = current_proc k" and "u_active k' = u_active k"
  shows "own D k0 k' = own D k0 k"
  using assms by (simp add: own_def mem_ok_def active_pd_def ubyte_def)

lemma own_vstore: "own D k0 k \<Longrightarrow> user_range a (length bs) \<Longrightarrow> ok (own D k0) (\<lambda>k. k) (vstore a bs k)"
  unfolding ok_def
proof (intro allI impI)
  fix k' assume o: "own D k0 k" and r: "user_range a (length bs)" and s: "vstore a bs k = Some k'"
  have w: "wrote D a bs k k'" using vstore_wrote [OF _ r s] o by (simp add: own_def)
  have "active_pd k' = active_pd k" using w by (intro mm_only_pd) (simp add: wrote_def)
  with w o show "own D k0 k'" by (auto simp: own_def wrote_def)
qed

lemma own_vstore32: "own D k0 k \<Longrightarrow> user_range a 4 \<Longrightarrow> ok (own D k0) (\<lambda>k. k) (vstore32 a v k)"
  unfolding vstore32_def by (rule own_vstore) simp_all

section \<open>Relocations and segments\<close>

text \<open>A window the loader may fill.\<close>

definition load_window :: "u32 \<Rightarrow> u32 \<Rightarrow> bool" where
  "load_window base limit \<longleftrightarrow> USER_BASE \<le> base \<and> base < limit \<and> limit \<le> USER_SIGTRAMP"

lemma window_nat: "load_window base limit \<Longrightarrow> 0x08048000 \<le> unat base \<and> unat base < unat limit \<and> unat limit \<le> 0x08847000"
  by (simp add: load_window_def word_le_nat_alt word_less_nat_alt user_window_nat)

lemma dst_range:
  assumes w: "load_window base limit" and "\<not> (dst < base \<or> dst > limit - 4)"
  shows "user_range dst 4"
proof -
  have "unat (limit - 4) = unat limit - 4" using window_nat [OF w] by (simp add: unat_sub word_le_nat_alt)
  then show ?thesis using assms(2) window_nat [OF w] by (auto simp: user_range_def word_le_nat_alt word_less_nat_alt user_window_nat)
qed

lemma own_apply_rel:
  assumes w: "load_window base limit" and o: "own D k0 k"
  shows "ok (own D k0) snd (apply_rel r symtab syment bias base limit k)"
proof -
  have st: "ok (own D k0) snd (vstore32 dst v k \<bind> (\<lambda>k. Some (c, k)))" if "\<not> (dst < base \<or> dst > limit - 4)" for dst v and c :: int
    using own_vstore32 [OF o dst_range [OF w that], of v] by (intro ok_bind1 ok_some) simp_all
  show ?thesis unfolding apply_rel_def Let_def using o by (intro ok_if ok_reads ok_option ok_some st) simp_all
qed

lemma own_rel_from: "load_window base limit \<Longrightarrow> own D k0 k \<Longrightarrow> ok (own D k0) snd (rel_from n r symtab syment bias base limit cnt k)"
proof (induction n arbitrary: r cnt k)
  case (Suc n)
  then show ?case unfolding rel_from.simps by (intro ok_rules own_apply_rel) simp_all
qed (simp add: ok_some)

lemma own_rel_array:
  "load_window base limit \<Longrightarrow> own D k0 k \<Longrightarrow> ok (own D k0) snd (elf_apply_rel_array a n symtab syment bias base limit cnt k)"
  unfolding elf_apply_rel_array_def by (intro ok_rules own_rel_from) simp_all

lemma own_dynamic: "load_window base limit \<Longrightarrow> own D k0 k \<Longrightarrow> ok (own D k0) snd (elf_apply_dynamic a bias base limit cnt k)"
  unfolding elf_apply_dynamic_def Let_def by (intro ok_bind_pair ok_rules own_rel_array) simp_all

text \<open>A segment that passes the checks lies in the window, its file part in the image.\<close>

lemma segment_ranges:
  assumes w: "load_window base limit" and c: "check_segment img bias base limit ph = 0"
  shows "user_range (ph_vaddr ph + bias) (unat (ph_memsz ph))" "ph_filesz ph \<le> ph_memsz ph"
    "user_range (ph_vaddr ph + bias) (unat (ph_filesz ph))"
    "user_range (ph_vaddr ph + bias + ph_filesz ph) (unat (ph_memsz ph - ph_filesz ph))"
proof -
  let ?a = "ph_vaddr ph + bias"
  have c': "ph_filesz ph \<le> ph_memsz ph" "range_ok ?a (ph_memsz ph) base limit"
    using c by (auto simp: check_segment_def ELF_ERR_FORMAT_def ELF_ERR_RANGE_def not_less split: if_splits)
  then have r: "unat base \<le> unat ?a" "unat ?a + unat (ph_memsz ph) \<le> unat limit"
    using unat_sub [of ?a limit] by (auto simp: range_ok_def word_le_nat_alt word_less_nat_alt not_less)
  have u: "unat (?a + ph_filesz ph) = unat ?a + unat (ph_filesz ph)"
    using r(2) window_nat [OF w] c'(1) by (intro unat_add_lem [THEN iffD1]) (simp add: word_le_nat_alt)
  show "ph_filesz ph \<le> ph_memsz ph" by (rule c'(1))
  show "user_range ?a (unat (ph_memsz ph))" "user_range ?a (unat (ph_filesz ph))"
    "user_range (?a + ph_filesz ph) (unat (ph_memsz ph - ph_filesz ph))"
    using r window_nat [OF w] c'(1) unat_sub [OF c'(1)] by (auto simp: user_range_def user_window_nat word_le_nat_alt u)
qed

lemma own_map_from:
  "load_window base limit \<Longrightarrow> own D k0 k \<Longrightarrow> ok (own D k0) snd (map_from phs img bias base limit e n k)"
proof (induction phs arbitrary: e n k)
  case (Cons ph phs)
  have l: "user_range a n \<Longrightarrow> user_range a (min m n)" for a m n by (auto simp: user_range_def)
  show ?case unfolding map_from.simps Let_def
    using Cons segment_ranges [OF Cons.prems(1), of img bias ph]
    by (intro ok_rules own_vstore) (auto intro!: l)
qed (simp add: ok_some)

lemma own_segments: "load_window base limit \<Longrightarrow> own D k0 k \<Longrightarrow> ok (own D k0) snd (elf_map_segments img base limit k)"
  unfolding elf_map_segments_def Let_def by (intro ok_rules own_map_from) simp_all

lemma own_relocate: "load_window base limit \<Longrightarrow> own D k0 k \<Longrightarrow> ok (own D k0) snd (relocate li dyn base limit k)"
  unfolding relocate_def by (intro ok_bind_pair ok_rules own_dynamic) simp_all

lemma own_load:
  assumes "load_window base limit" and "own D k0 k"
  shows "ok (own D k0) snd (elf32_load_ex img base limit k)" "ok (own D k0) snd (elf32_load_program img base limit k)"
  unfolding elf32_load_ex_def elf32_load_program_def using assms by (intro ok_rules own_segments own_relocate; simp)+

lemma exec_windows: "load_window USER_BASE USER_LOAD_LIMIT" "load_window USER_INTERP_BASE USER_LOAD_LIMIT"
  by (simp_all add: load_window_def USER_LOAD_LIMIT_def USER_INTERP_BASE_def USER_BASE_def USER_END_def USER_SIZE_def
      USER_SIGTRAMP_def USER_STACK_RESERVE_def)

lemma own_load_for_exec: "own D k0 k \<Longrightarrow> ok (own D k0) snd (user_load_for_exec E img k)"
  unfolding user_load_for_exec_def by (intro ok_rules own_load exec_windows) simp_all

section \<open>The initial stack\<close>

lemma own_vstoreD: "own D k0 k \<Longrightarrow> user_range a (length bs) \<Longrightarrow> vstore a bs k = Some k' \<Longrightarrow> own D k0 k'"
  using own_vstore [of D k0 k a bs] by (simp add: ok_def)

lemma push_string_own:
  assumes o: "own D k0 k" and b: "0x08048000 + 256 \<le> unat sp" "unat sp \<le> 0x08847000" and p: "push_string sp s k = Some (sp', k')"
  shows "own D k0 k'" "unat sp - 256 \<le> unat sp'" "unat sp' \<le> unat sp"
proof -
  define len where "len = min (length s + 1) 256"
  have len: "1 \<le> len" "len \<le> 256" by (simp_all add: len_def)
  have sp': "sp' = sp - word_of_nat len" and st: "vstore sp' (take (len - 1) s @ [0]) k = Some k'"
    using p by (auto simp: push_string_def Let_def bind_eq_Some_conv len_def)
  have u: "unat sp' = unat sp - len"
    using b len unat_sub [of "word_of_nat len" sp] by (simp add: sp' word_le_nat_alt unat_of_nat)
  have "length (take (len - 1) s @ [0 :: u8]) = len" using len by (simp add: len_def)
  then have "user_range sp' (length (take (len - 1) s @ [0 :: u8]))"
    using b len by (simp add: user_range_def user_window_nat word_le_nat_alt u)
  then show "own D k0 k'" using own_vstoreD [OF o _ st] by blast
  show "unat sp - 256 \<le> unat sp'" "unat sp' \<le> unat sp" using len by (simp_all add: u)
qed

lemma push_strings_own:
  assumes "own D k0 k" and "0x08048000 + 256 * length ss \<le> unat sp" "unat sp \<le> 0x08847000"
    and "push_strings ss sp as k = Some (sp', as', k')"
  shows "own D k0 k' \<and> unat sp - 256 * length ss \<le> unat sp' \<and> unat sp' \<le> unat sp \<and> length as' = length ss + length as"
  using assms
proof (induction ss arbitrary: sp as k)
  case (Cons s ss)
  from Cons.prems(4) obtain sp1 k1 where p: "push_string sp s k = Some (sp1, k1)" "push_strings ss sp1 (sp1 # as) k1 = Some (sp', as', k')"
    by (auto simp: bind_eq_Some_conv)
  have "0x08048000 + 256 \<le> unat sp" using Cons.prems(2) by simp
  note q = push_string_own [OF Cons.prems(1) this Cons.prems(3) p(1)]
  have "0x08048000 + 256 * length ss \<le> unat sp1" "unat sp1 \<le> 0x08847000" using q(2,3) Cons.prems(2,3) by simp_all
  from Cons.IH [OF q(1) this p(2)] q(2,3) show ?case by auto
qed simp

lemma push_words_own:
  assumes "own D k0 k" and "0x08048000 + 4 * length ws \<le> unat sp" "unat sp \<le> 0x08847000"
  shows "ok (own D k0) snd (push_words ws sp k)"
  using assms
proof (induction ws arbitrary: sp k)
  case (Cons w ws)
  have u: "unat (sp - 4) = unat sp - 4" using Cons.prems(2) by (simp add: unat_sub word_le_nat_alt)
  then have "user_range (sp - 4) 4" using Cons.prems(2,3) by (auto simp: user_range_def user_window_nat word_le_nat_alt)
  then show ?case unfolding push_words.simps
    using Cons.prems by (intro ok_bind1 own_vstore32 Cons.IH) (auto simp: u)
qed (simp add: ok_some)

lemma own_build_stack:
  assumes o: "own D k0 k"
  shows "ok (own D k0) snd (build_user_stack argv li b k)"
proof -
  define args where "args = (if argv = [] then [[]] else take 16 argv)"
  define off where "off = (k_ticks k AND 7) * PAGE_SIZE"
  define top where "top = USER_SIGTRAMP - 32 - off"
  have n: "length args \<le> 16" by (simp add: args_def)
  have "k_ticks k AND 7 \<le> 7" by (rule word_and_le1)
  then have "unat (k_ticks k AND 7) \<le> 7" by (simp add: word_le_nat_alt)
  then have f: "unat off \<le> 28672" by (simp add: off_def PAGE_SIZE_def unat_word_ariths(2))
  have "unat (USER_SIGTRAMP - 32) = 0x08846FE0" by (simp add: USER_SIGTRAMP_def USER_END_def USER_BASE_def USER_SIZE_def)
  then have t: "unat top = 0x08846FE0 - unat off" using f unat_sub [of off "USER_SIGTRAMP - 32"] by (simp add: top_def word_le_nat_alt)
  have main: "ok (own D k0) snd (do { k \<leftarrow> vstore (sp - 16) (random_bytes 16 (lcg (k_ticks k1))) k1;
      push_words (stack_words addrs (aux_vector li b (sp - 16))) (sp - 16) k })"
    if p: "push_strings (rev args) top [] k = Some (sp, addrs, k1)" for sp addrs k1
  proof -
    have q: "own D k0 k1" "unat top - 256 * length args \<le> unat sp" "unat sp \<le> unat top" "length addrs = length args"
      using push_strings_own [OF o _ _ p] n f by (auto simp: t)
    have u: "unat (sp - 16) = unat sp - 16" using q(2) n f by (simp add: unat_sub word_le_nat_alt t)
    have lw: "length (stack_words addrs (aux_vector li b (sp - 16))) = 19 + length addrs"
      by (simp add: stack_words_def aux_vector_def)
    have lr: "length (random_bytes m s) = m" for m s by (induction m arbitrary: s) (simp_all add: Let_def)
    show ?thesis
      using q n f by (intro ok_bind1 own_vstore push_words_own)
        (auto simp: lw lr u t user_range_def user_window_nat word_le_nat_alt)
  qed
  show ?thesis unfolding build_user_stack_def Let_def
    using main [unfolded args_def top_def off_def]
    by (cases "push_strings (rev args) top [] k") (auto simp: args_def top_def off_def ok_none)
qed

section \<open>The whole load\<close>

lemma detach_cr3:
  "detach_pages pd vas s = (b, s') \<Longrightarrow> page_aligned pd \<Longrightarrow> pd \<noteq> 0 \<Longrightarrow> cr3 s' AND PAGE_MASK = cr3 s AND PAGE_MASK"
  by (induction vas arbitrary: s) (auto simp: Let_def split: if_splits prod.splits dest!: make_writable_cr3)

lemma own_detach:
  assumes o: "own D k0 k"
  shows "own D k0 (snd (proc_detach_current k))"
proof -
  have ok: "mem_ok D k" using o by (simp add: own_def)
  obtain i where i: "current_proc k = Some i" "p_pd_phys (procs k ! i) = active_pd k" using ok by (auto simp: mem_ok_def)
  define pd where "pd = active_pd k"
  have nz: "pd \<noteq> 0" "page_aligned pd" using mem_okD(5) [OF ok] dirs_okD(1) [OF mem_okD(3,2) [OF ok]] by (simp_all add: pd_def)
  obtain b t where d: "detach_pages pd user_pages (k_mm k) = (b, t)" by force
  define s where "s = (if b then (if mm_get_current_pd t = pd then mm_switch_pd pd t else t) else t)"
  have k': "snd (proc_detach_current k) = k\<lparr>k_mm := s\<rparr>"
    using nz by (simp add: proc_detach_current_def i mm_call_def mm_user_detach_pages_def d s_def flip: pd_def)
  have t: "cow_ok t D" "same_view (pmem (k_mm k)) (pmem t) D"
    using detach_pages_spec [OF mem_okD(1,2) [OF ok] user_pages_window d [unfolded pd_def]] by simp_all
  have s: "cow_ok s D" "pmem s = pmem t" using t(1) by (simp_all add: s_def mm_switch_pd_def cow_ok_def vm_ok_def)
  have "cr3 s AND PAGE_MASK = cr3 t AND PAGE_MASK"
    using nz by (simp add: s_def mm_switch_pd_def mm_get_current_pd_def page_aligned_mask_id)
  then have c: "cr3 s AND PAGE_MASK = cr3 (k_mm k) AND PAGE_MASK" using detach_cr3 [OF d nz(2,1)] by simp
  have "ubyte (k\<lparr>k_mm := s\<rparr>) pd' a = ubyte k pd' a" if "pd' \<in> D" "frame a \<in> window" for pd' a
    using t(2) that offset_lt [of a] by (simp add: same_view_def ubyte_def s(2))
  then show ?thesis
    using o mem_ok_mm [OF ok s(1) c] mm_only_pd [of k "k\<lparr>k_mm := s\<rparr>"] by (auto simp: own_def k')
qed

lemma own_clear: "own D k0 k \<Longrightarrow> ok (own D k0) (\<lambda>k. k) (clear_window k)"
proof -
  have "user_range USER_BASE (unat (USER_SIZE - PAGE_SIZE))" by (simp add: user_range_def user_window_nat USER_SIZE_def PAGE_SIZE_def)
  then show "own D k0 k \<Longrightarrow> ok (own D k0) (\<lambda>k. k) (clear_window k)"
    unfolding clear_window_def by (intro own_vstore) simp_all
qed

lemma own_start_brk: "own D k0 (start_brk a k) = own D k0 k"
  by (rule own_cong) (simp_all add: start_brk_def Let_def)

lemma own_record: "own D k0 k \<Longrightarrow> own D k0 (k\<lparr>u_exit_code := c, u_faulted := f, u_active := True\<rparr>)"
proof -
  assume o: "own D k0 k"
  then have "u_active k" by (simp add: own_def mem_ok_def)
  then have "own D k0 (k\<lparr>u_exit_code := c, u_faulted := f, u_active := True\<rparr>) = own D k0 k"
    by (intro own_cong) simp_all
  with o show ?thesis by simp
qed

lemma own_exec_image: "own D k0 k \<Longrightarrow> ok (own D k0) snd (user_exec_image E img argv k)"
  unfolding user_exec_image_def
  by (intro ok_rules own_clear own_load_for_exec own_build_stack) (simp_all add: own_detach own_record own_start_brk)

section \<open>An example\<close>

text \<open>An executable with one segment: four bytes of code at the first user page, followed by four bytes
  of zeros.  In \<^term>\<open>mem_demo\<close> that page is shared with another process.\<close>

definition elf_demo :: "u8 list" where
  "elf_demo =
    [127, 69, 76, 70, 1, 1, 1, 0, 0, 0, 0, 0, 0, 0, 0, 0, 2, 0, 3, 0, 1, 0, 0, 0, 0, 128, 4, 8, 52, 0, 0,
     0, 0, 0, 0, 0, 0, 0, 0, 0, 52, 0, 32, 0, 1, 0, 0, 0, 0, 0, 0, 0, 1, 0, 0, 0, 84, 0, 0, 0, 0, 128, 4,
     8, 0, 128, 4, 8, 4, 0, 0, 0, 8, 0, 0, 0, 5, 0, 0, 0, 0, 16, 0, 0, 184, 1, 0, 0]"

definition elf_demo_hdr :: elf32_ehdr_t where
  "elf_demo_hdr = \<lparr>e_ident = [0x7F, 0x45, 0x4C, 0x46, 1, 1, 1, 0, 0, 0, 0, 0, 0, 0, 0, 0], e_type = 2, e_machine = 3,
     e_entry = 0x08048000, e_phoff = 52, e_ehsize = 52, e_phentsize = 32, e_phnum = 1\<rparr>"

definition elf_demo_seg :: elf32_phdr_t where
  "elf_demo_seg = \<lparr>ph_type = 1, ph_offset = 84, ph_vaddr = 0x08048000, ph_filesz = 4, ph_memsz = 8, ph_align = 4096\<rparr>"

lemma elf_demo_read: "read_ehdr elf_demo = elf_demo_hdr" "read_phdr elf_demo 52 = elf_demo_seg" "img_size elf_demo = 88"
  "take 4 (drop 84 elf_demo) = [0xB8, 1, 0, 0]"
  by (simp_all add: read_ehdr_def read_phdr_def elf_demo_def elf_demo_hdr_def elf_demo_seg_def le16_def le32_def img_size_def)

lemma elf_demo_parse: "elf_parse elf_demo = Inr elf_demo_hdr" "elf_phdrs elf_demo elf_demo_hdr = [elf_demo_seg]"
  "elf_load_bias [elf_demo_seg] elf_demo_hdr USER_BASE = 0" "check_segment elf_demo 0 USER_BASE USER_LOAD_LIMIT elf_demo_seg = 0"
proof -
  show "elf_parse elf_demo = Inr elf_demo_hdr"
    by (simp add: elf_parse_def elf_demo_read) (simp add: elf_demo_hdr_def ELF_TYPE_EXEC_def)
  have "elf_phdr elf_demo elf_demo_hdr 0 = read_phdr elf_demo 52"
    by (simp add: elf_phdr_def elf_demo_hdr_def)
  then show "elf_phdrs elf_demo elf_demo_hdr = [elf_demo_seg]"
    by (simp add: elf_phdrs_def elf_demo_read) (simp add: elf_demo_hdr_def)
  show "elf_load_bias [elf_demo_seg] elf_demo_hdr USER_BASE = 0"
    by (simp add: elf_load_bias_def elf_demo_hdr_def ELF_TYPE_DYN_def)
  show "check_segment elf_demo 0 USER_BASE USER_LOAD_LIMIT elf_demo_seg = 0"
    by (simp add: check_segment_def elf_demo_read elf_demo_seg_def range_ok_def USER_BASE_def
      USER_LOAD_LIMIT_def USER_END_def USER_SIZE_def USER_STACK_RESERVE_def is_power_of_two_def)
qed

text \<open>C0: Loading a program changes no byte of any other process.  For every image, however its headers, segments, symbols and
  relocations are forged, neither the loader \<^verbatim>\<open>user_load_for_exec\<close> (the program and its interpreter checked, copied and
  relocated) nor the whole of \<^verbatim>\<open>user_exec_image\<close> (the window detached and cleared, the program loaded, the initial stack
  built) changes what another process reads anywhere in its window; the address spaces stay sound, and the running
  process keeps its directory.  This holds for failed loads as well.\<close>

theorem exec_isolated:
  assumes "mem_ok D k"
    and "user_load_for_exec E img k = Some (res, k') \<or> user_exec_image E img argv k = Some (res', k')"
  shows "mem_ok D k' \<and> active_pd k' = active_pd k \<and>
    (\<forall>pd \<in> D. pd \<noteq> active_pd k \<longrightarrow> (\<forall>a. frame a \<in> window \<longrightarrow> ubyte k' pd a = ubyte k pd a))"
  using own_load_for_exec [OF own_refl [OF assms(1)], of E img] own_exec_image [OF own_refl [OF assms(1)], of E img argv] assms(2)
  by (auto simp: ok_def own_def)

lemma elf_demo_loads: "\<exists>li k'. user_load_for_exec env_demo elf_demo mem_demo = Some (Inr (li, 0x08048000, 0), k')"
proof -
  have fr: "frame (USER_BASE + word_of_nat j) = 0x8048" "frame (USER_BASE + 4 + word_of_nat j) = 0x8048" if "j < 4" for j
  proof -
    have "j \<in> {0, 1, 2, 3}" using that by auto
    then show "frame (USER_BASE + word_of_nat j) = 0x8048" "frame (USER_BASE + 4 + word_of_nat j) = 0x8048"
      by (auto simp: USER_BASE_def)
  qed
  obtain k1 where k1: "vstore USER_BASE [0xB8, 1, 0, 0] mem_demo = Some k1" "present (upage k1 0x8048)"
    "writable (upage k1 0x8048) \<or> free_set (k_mm k1) \<noteq> {}"
    using vstore_succeeds [OF mem_demo_ok, of USER_BASE "[0xB8, 1, 0, 0]" "0x8048"] mem_demo_page mem_demo_fields(5) fr(1)
    by (auto simp: user_range_def user_window_nat)
  have "mem_ok vm_dirs k1"
    using vstore_wrote [OF mem_demo_ok _ k1(1)] by (simp add: wrote_def user_range_def user_window_nat)
  then obtain k2 where k2: "vstore (USER_BASE + 4) (replicate 4 0) k1 = Some k2"
    using vstore_succeeds [of vm_dirs k1 "USER_BASE + 4" "replicate 4 0" "0x8048"] k1(2,3) fr(2)
    by (auto simp: user_range_def user_window_nat USER_BASE_def USER_END_def USER_SIZE_def USER_SIGTRAMP_def word_le_nat_alt)
  have sg: "is_load elf_demo_seg" "ph_vaddr elf_demo_seg = USER_BASE" "unat (ph_filesz elf_demo_seg) = 4" "unat (ph_offset elf_demo_seg) = 84"
    "unat (ph_memsz elf_demo_seg - ph_filesz elf_demo_seg) = 4" "ph_filesz elf_demo_seg = 4" "ph_memsz elf_demo_seg = 8"
    by (simp_all add: is_load_def elf_demo_seg_def ELF_PT_LOAD_def USER_BASE_def)
  have m: "max USER_BASE (USER_BASE + 8) = USER_BASE + 8" by (simp add: USER_BASE_def max_def)
  have "map_from [elf_demo_seg] elf_demo 0 USER_BASE USER_LOAD_LIMIT USER_BASE 0 mem_demo = Some (Inr (USER_BASE + 8, 1), k2)"
    unfolding map_from.simps Let_def add_0_right sg elf_demo_parse(4) elf_demo_read(4) k1(1) m
    using k2 by (simp add: sg(1) elf_demo_read(4) k1(1) del: vstore.simps)
  then show ?thesis
    by (simp add: user_load_for_exec_def elf32_load_program_def elf_map_segments_def elf_demo_parse relocate_def note_header_def)
      (simp add: elf_demo_hdr_def elf_demo_seg_def is_load_def ELF_PT_LOAD_def ELF_PT_INTERP_def ELF_PT_DYNAMIC_def USER_BASE_def
        USER_LOAD_LIMIT_def USER_END_def USER_SIZE_def USER_STACK_RESERVE_def relocate_def note_header_def)
qed

theorem exec_isolated_witness:
  "\<exists>li k'. user_load_for_exec env_demo elf_demo mem_demo = Some (Inr (li, 0x08048000, 0), k') \<and> mem_ok vm_dirs k' \<and>
     ubyte k' 0x5000 0x08048000 = ubyte mem_demo 0x5000 0x08048000"
proof -
  obtain li k' where l: "user_load_for_exec env_demo elf_demo mem_demo = Some (Inr (li, 0x08048000, 0), k')"
    using elf_demo_loads by blast
  from exec_isolated [OF mem_demo_ok, of env_demo elf_demo "Inr (li, 0x08048000, 0)" k' "[]" "Inl 0"] l
  show ?thesis by (auto simp: mem_demo_fields window_iff)
qed

end
