(* ===== verification/Spec2Isabelle.thy ===== *)
theory Spec2Isabelle
  imports Pipe Keyboard Interrupts Mouse Kstring Frames Kheap Vm_Properties Boot Sched Vfs_Paths Sys_Root Signal_Return Exec_Isolation
begin

text \<open>
  Verification of MuOS, a 32-bit x86 hobby kernel (C sources under \<^verbatim>\<open>src/src\<close>, headers under
  \<^verbatim>\<open>src/include\<close>).
\<close>

end
